(* ===== verification/Prelude.thy ===== *)
theory Prelude
  imports Main "HOL-Library.AList" "HOL-Library.Multiset" "HOL-Library.Char_ord"
begin

text \<open>
  Shared vocabulary of the development: the JSON values that cross the program's
  boundaries, the JavaScript array and \<open>Map\<close> operations the code uses, and the
  generic reasoning the components share (runs of a step function, reachable states,
  the rule that an inductive invariant holds in every reachable state, and the rule
  that a step function which stamps its outputs from a counter numbers them densely).

  A JavaScript \<open>Map\<close> iterates in insertion order and \<open>set\<close> on a present key keeps
  its position, so it is an association list with \<^const>\<open>AList.update\<close> and
  \<^const>\<open>AList.delete\<close>. A JavaScript string is the list of the bytes of its UTF-8
  encoding; every delimiter the code searches for is ASCII, and \<open>length\<close> is then
  \<open>Buffer.byteLength(s, "utf8")\<close>.
\<close>

named_theorems jsmap_simps \<open>lookup after set and delete on insertion-ordered maps\<close>

section \<open>JSON values\<close>

datatype json =
    JNull
  | JBool bool
  | JNum int
  | JStr string
  | JArr "json list"
  | JObj "(string \<times> json) list"

section \<open>Numbers in template strings\<close>

definition digit_char :: "nat \<Rightarrow> char" where
  "digit_char d = (char_of (48 + d) :: char)"

fun show_nat :: "nat \<Rightarrow> string" where
  \<comment> \<open>\<open>String(n)\<close> and \<open>`${n}`\<close>\<close>
  "show_nat n = (if n < 10 then [digit_char n] else show_nat (n div 10) @ [digit_char (n mod 10)])"

declare show_nat.simps [simp del]

definition show_int :: "int \<Rightarrow> string" where
  "show_int i = (if i < 0 then ''-'' @ show_nat (nat (- i)) else show_nat (nat i))"

section \<open>Strings\<close>

definition lower :: "char \<Rightarrow> char" where
  "lower c = (if CHR ''A'' \<le> c \<and> c \<le> CHR ''Z'' then char_of (of_char c + 32 :: nat) else c)"

abbreviation toLowerCase :: "string \<Rightarrow> string" where
  \<comment> \<open>on ASCII text\<close>
  "toLowerCase s \<equiv> map lower s"

definition upper :: "char \<Rightarrow> char" where
  "upper c = (if CHR ''a'' \<le> c \<and> c \<le> CHR ''z'' then char_of (of_char c - 32 :: nat) else c)"

abbreviation toUpperCase :: "string \<Rightarrow> string" where
  "toUpperCase s \<equiv> map upper s"

definition space_codes :: "nat list list" where
  \<comment> \<open>the code points \<open>String.prototype.trim\<close> removes, in UTF-8\<close>
  "space_codes = map (\<lambda>n. [n]) [9, 10, 11, 12, 13, 32] @ [[194, 160], [225, 154, 128]] @
     map (\<lambda>n. [226, 128, n]) ([128 ..< 139] @ [168, 169, 175]) @
     [[226, 129, 159], [227, 128, 128], [239, 187, 191]]"

function trim_from :: "nat list list \<Rightarrow> nat list \<Rightarrow> nat list" where
  \<comment> \<open>no code is empty, so each round makes the text shorter\<close>
  "trim_from codes bs =
     (case find (\<lambda>p. p \<noteq> [] \<and> take (length p) bs = p) codes of
        Some p \<Rightarrow> trim_from codes (drop (length p) bs)
      | None \<Rightarrow> bs)"
  by pat_completeness auto
termination
  by (relation "measure (length \<circ> snd)") (auto simp: find_Some_iff intro: diff_less)

declare trim_from.simps [simp del]

definition js_trim :: "string \<Rightarrow> string" where
  "js_trim s = map char_of (rev (trim_from (map rev space_codes) (rev (trim_from space_codes (map of_char s)))))"

fun js_split :: "char \<Rightarrow> string \<Rightarrow> string list" where
  \<comment> \<open>\<open>s.split(c)\<close> for a one-character separator: never empty\<close>
  "js_split c [] = [[]]"
| "js_split c (x # xs) =
     (if x = c then [] # js_split c xs
      else (case js_split c xs of p # ps \<Rightarrow> (x # p) # ps | [] \<Rightarrow> [[x]]))"

fun js_join :: "string \<Rightarrow> string list \<Rightarrow> string" where
  "js_join sep [] = []"
| "js_join sep [p] = p"
| "js_join sep (p # q # ps) = p @ sep @ js_join sep (q # ps)"

lemma js_split_Cons: "\<exists>p ps. js_split c s = p # ps"
  by (induction s) (auto split: list.splits)

lemma js_join_split: "js_join [c] (js_split c s) = s"
proof (induction s)
  case (Cons x s)
  obtain p ps where "js_split c s = p # ps" using js_split_Cons by blast
  with Cons.IH show ?case by (cases ps) auto
qed simp

lemma js_split_plain: "c \<notin> set p \<Longrightarrow> js_split c p = [p]"
  by (induction p) auto

lemma js_split_append: "c \<notin> set p \<Longrightarrow> js_split c (p @ c # s) = p # js_split c s"
  by (induction p) auto

lemma split_first: "c \<notin> set a \<Longrightarrow> c \<notin> set b \<Longrightarrow> a @ c # x = b @ c # y \<longleftrightarrow> a = b \<and> x = y"
proof (induction a arbitrary: b)
  case Nil
  then show ?case by (cases b) auto
next
  case (Cons d a)
  then show ?case by (cases b) auto
qed

lemma split_last: "c \<notin> set x \<Longrightarrow> c \<notin> set y \<Longrightarrow> a @ c # x = b @ c # y \<longleftrightarrow> a = b \<and> x = y"
proof -
  assume "c \<notin> set x" "c \<notin> set y"
  then have "rev x @ c # rev a = rev y @ c # rev b \<longleftrightarrow> rev x = rev y \<and> rev a = rev b"
    by (intro split_first) simp_all
  moreover have "rev (a @ c # x) = rev x @ c # rev a" "rev (b @ c # y) = rev y @ c # rev b" by simp_all
  ultimately show ?thesis by (metis rev_rev_ident)
qed

section \<open>Insertion-ordered maps\<close>

type_synonym ('k, 'v) jsmap = "('k \<times> 'v) list"

abbreviation map_get :: "('k, 'v) jsmap \<Rightarrow> 'k \<Rightarrow> 'v option" where
  "map_get m k \<equiv> map_of m k"

abbreviation map_set :: "'k \<Rightarrow> 'v \<Rightarrow> ('k, 'v) jsmap \<Rightarrow> ('k, 'v) jsmap" where
  "map_set k v m \<equiv> AList.update k v m"

abbreviation map_delete :: "'k \<Rightarrow> ('k, 'v) jsmap \<Rightarrow> ('k, 'v) jsmap" where
  "map_delete k m \<equiv> AList.delete k m"

abbreviation map_has :: "('k, 'v) jsmap \<Rightarrow> 'k \<Rightarrow> bool" where
  "map_has m k \<equiv> map_of m k \<noteq> None"

abbreviation keys :: "('k, 'v) jsmap \<Rightarrow> 'k list" where
  "keys m \<equiv> map fst m"

abbreviation vals :: "('k, 'v) jsmap \<Rightarrow> 'v list" where
  "vals m \<equiv> map snd m"

lemma map_get_set [simp, jsmap_simps]:
  "map_get (map_set k v m) k' = (if k' = k then Some v else map_get m k')"
  by (simp add: update_conv')

lemma map_get_delete [simp, jsmap_simps]:
  "map_get (map_delete k m) k' = (if k' = k then None else map_get m k')"
  by (simp add: delete_conv')

lemma map_set_fresh: "k \<notin> set (keys m) \<Longrightarrow> map_set k v m = m @ [(k, v)]"
  by (induction m) auto

lemma keys_map_set: "set (keys (map_set k v m)) = insert k (set (keys m))"
  using dom_update [of k v m] by simp

lemma distinct_keys_set [intro]: "distinct (keys m) \<Longrightarrow> distinct (keys (map_set k v m))"
  by (rule distinct_update)

lemma distinct_keys_delete [intro]: "distinct (keys m) \<Longrightarrow> distinct (keys (map_delete k m))"
  by (rule distinct_delete)

lemma map_delete_filter: "map_delete k m = filter (\<lambda>p. fst p \<noteq> k) m"
  by (induction m) auto

lemma set_map_set: "set (map_set k v m) \<subseteq> insert (k, v) (set m)"
  by (induction m) auto

lemma set_map_delete: "set (map_delete k m) \<subseteq> set m"
  by (induction m) auto

lemma map_set_mem: "x \<in> set (map_set k v m) \<Longrightarrow> x = (k, v) \<or> x \<in> set m"
  by (induction m) (auto split: if_splits)

lemma map_delete_mem: "x \<in> set (map_delete k m) \<Longrightarrow> x \<in> set m"
  by (auto simp: map_delete_filter)

lemma map_get_None_keys: "map_get m k = None \<longleftrightarrow> k \<notin> set (keys m)"
  by (simp add: map_of_eq_None_iff)

section \<open>Arrays\<close>

definition array_last :: "'a list \<Rightarrow> 'a option" where
  \<comment> \<open>\<open>xs.at(-1) ?? null\<close>\<close>
  "array_last xs = (if xs = [] then None else Some (last xs))"

fun indexOf :: "'a \<Rightarrow> 'a list \<Rightarrow> nat option" where
  \<comment> \<open>\<open>xs.indexOf(x)\<close>, with \<open>None\<close> for \<open>-1\<close>\<close>
  "indexOf x [] = None"
| "indexOf x (y # ys) = (if y = x then Some 0 else map_option Suc (indexOf x ys))"

definition lastIndexOf :: "'a \<Rightarrow> 'a list \<Rightarrow> nat option" where
  "lastIndexOf x xs =
     map_option (\<lambda>i. length xs - 1 - i) (indexOf x (rev xs))"

definition splice1 :: "nat \<Rightarrow> 'a list \<Rightarrow> 'a list" where
  \<comment> \<open>\<open>xs.splice(i, 1)\<close>\<close>
  "splice1 i xs = take i xs @ drop (Suc i) xs"

lemma indexOf_None: "indexOf x xs = None \<longleftrightarrow> x \<notin> set xs"
  by (induction xs) auto

lemma indexOf_Some:
  "indexOf x xs = Some i \<Longrightarrow> i < length xs \<and> xs ! i = x \<and> x \<notin> set (take i xs)"
  by (induction xs arbitrary: i) (auto split: if_splits)

lemma lastIndexOf_None: "lastIndexOf x xs = None \<longleftrightarrow> x \<notin> set xs"
  by (simp add: lastIndexOf_def indexOf_None)

lemma lastIndexOf_Some:
  assumes "lastIndexOf x xs = Some i"
  shows "i < length xs \<and> xs ! i = x"
proof -
  from assms obtain j where j: "indexOf x (rev xs) = Some j" and i: "i = length xs - 1 - j"
    by (auto simp: lastIndexOf_def)
  from indexOf_Some [OF j] have "j < length xs" "rev xs ! j = x" by auto
  with i show ?thesis by (auto simp: rev_nth)
qed

lemma splice1_distinct:
  assumes "distinct xs" and "i < length xs"
  shows "splice1 i xs = filter (\<lambda>y. y \<noteq> xs ! i) xs"
proof -
  have xs: "xs = take i xs @ xs ! i # drop (Suc i) xs"
    using assms(2) by (rule id_take_nth_drop)
  have "distinct (take i xs @ xs ! i # drop (Suc i) xs)"
    using assms(1) xs by simp
  then have fresh: "xs ! i \<notin> set (take i xs)" "xs ! i \<notin> set (drop (Suc i) xs)"
    by (auto simp del: append_take_drop_id)
  then have "filter (\<lambda>y. y \<noteq> xs ! i) (take i xs) = take i xs"
    "filter (\<lambda>y. y \<noteq> xs ! i) (drop (Suc i) xs) = drop (Suc i) xs"
    by (auto simp: filter_id_conv)
  moreover have "filter (\<lambda>y. y \<noteq> xs ! i) xs =
      filter (\<lambda>y. y \<noteq> xs ! i) (take i xs) @ filter (\<lambda>y. y \<noteq> xs ! i) (drop (Suc i) xs)"
    by (subst xs) simp
  ultimately show ?thesis by (simp add: splice1_def)
qed

lemma butlast_distinct:
  assumes "distinct xs" and "xs \<noteq> []"
  shows "butlast xs = filter (\<lambda>y. y \<noteq> last xs) xs"
proof -
  have "distinct (butlast xs @ [last xs])" using assms by simp
  then have "filter (\<lambda>y. y \<noteq> last xs) (butlast xs) = butlast xs"
    by (auto simp: filter_id_conv)
  moreover have "filter (\<lambda>y. y \<noteq> last xs) (butlast xs @ [last xs]) =
      filter (\<lambda>y. y \<noteq> last xs) (butlast xs)"
    by simp
  ultimately show ?thesis using assms(2) by simp
qed

section \<open>Runs and reachable states\<close>

fun run_steps :: "('s \<Rightarrow> 'i \<Rightarrow> 's \<times> 'o option) \<Rightarrow> 's \<Rightarrow> 'i list \<Rightarrow> 's \<times> 'o list" where
  "run_steps step s [] = (s, [])"
| "run_steps step s (i # is) =
     (case step s i of (s', out) \<Rightarrow>
        (case run_steps step s' is of (s'', outs) \<Rightarrow>
           (s'', (case out of None \<Rightarrow> outs | Some x \<Rightarrow> x # outs))))"

lemma run_steps_append:
  "run_steps step s (is @ js) =
     (case run_steps step s is of (s', outs) \<Rightarrow>
        (case run_steps step s' js of (s'', outs') \<Rightarrow> (s'', outs @ outs')))"
  by (induction "is" arbitrary: s) (auto split: prod.splits option.splits)

inductive reach :: "('s \<Rightarrow> bool) \<Rightarrow> ('s \<Rightarrow> 's \<Rightarrow> bool) \<Rightarrow> 's \<Rightarrow> bool"
  for init :: "'s \<Rightarrow> bool" and step :: "'s \<Rightarrow> 's \<Rightarrow> bool" where
  reach_init: "init s \<Longrightarrow> reach init step s"
| reach_step: "reach init step s \<Longrightarrow> step s t \<Longrightarrow> reach init step t"

text \<open>The contract of an inductive invariant: it holds at the start and every step keeps it.\<close>

locale invariant_system =
  fixes init :: "'s \<Rightarrow> bool"
    and step :: "'s \<Rightarrow> 's \<Rightarrow> bool"
    and inv :: "'s \<Rightarrow> bool"
  assumes init_inv: "init s \<Longrightarrow> inv s"
    and step_inv: "inv s \<Longrightarrow> step s t \<Longrightarrow> inv t"
begin

lemma reach_inv: "reach init step s \<Longrightarrow> inv s"
  by (induction rule: reach.induct) (blast intro: init_inv step_inv)+

lemma reach_inv_step:
  assumes "reach init step s" and "step s t"
  shows "inv s \<and> inv t"
  using assms reach_inv reach.reach_step by metis

end

text \<open>
  The contract of a numbering step: an output carries the current counter and advances
  it by one, a step without output leaves it alone. Runs then number their outputs
  densely.
\<close>

locale stamper =
  fixes step :: "'s \<Rightarrow> 'i \<Rightarrow> 's \<times> 'o option"
    and counter :: "'s \<Rightarrow> nat"
    and stamp :: "'o \<Rightarrow> nat"
  assumes stamp_out: "step s i = (s', Some x) \<Longrightarrow> stamp x = counter s \<and> counter s' = Suc (counter s)"
    and stamp_silent: "step s i = (s', None) \<Longrightarrow> counter s' = counter s"
begin

lemma counter_mono: "run_steps step s is = (s', outs) \<Longrightarrow> counter s \<le> counter s'"
proof (induction "is" arbitrary: s s' outs)
  case (Cons i "is")
  obtain s1 out where s1: "step s i = (s1, out)" by (cases "step s i") auto
  obtain outs1 where r: "run_steps step s1 is = (s', outs1)"
    using Cons.prems s1 by (auto split: prod.splits)
  have "counter s \<le> counter s1"
    using s1 by (cases out) (auto dest: stamp_out stamp_silent)
  with Cons.IH [OF r] show ?case by simp
qed simp

lemma stamps_dense:
  "run_steps step s is = (s', outs) \<Longrightarrow> map stamp outs = [counter s ..< counter s']"
proof (induction "is" arbitrary: s s' outs)
  case (Cons i "is")
  obtain s1 out where s1: "step s i = (s1, out)" by (cases "step s i") auto
  obtain outs1 where r: "run_steps step s1 is = (s', outs1)"
    and o: "outs = (case out of None \<Rightarrow> outs1 | Some x \<Rightarrow> x # outs1)"
    using Cons.prems s1 by (auto split: prod.splits)
  show ?case
  proof (cases out)
    case None
    with s1 have "counter s1 = counter s" by (auto dest: stamp_silent)
    with None o Cons.IH [OF r] show ?thesis by simp
  next
    case (Some x)
    with s1 have x: "stamp x = counter s" "counter s1 = Suc (counter s)"
      by (auto dest: stamp_out)
    from counter_mono [OF r] x have "counter s < counter s'" by simp
    with Some o x Cons.IH [OF r] show ?thesis by (simp add: upt_rec)
  qed
qed simp

end

section \<open>Functions that may throw\<close>

fun and_then :: "'e + 'a \<Rightarrow> ('a \<Rightarrow> 'e + 'b) \<Rightarrow> 'e + 'b" where
  "and_then (Inl e) f = Inl e"
| "and_then (Inr x) f = f x"

lemma and_then_Inr: "and_then m f = Inr y \<longleftrightarrow> (\<exists>x. m = Inr x \<and> f x = Inr y)"
  by (cases m) auto

lemma and_then_Inl: "and_then m f = Inl e \<longleftrightarrow> m = Inl e \<or> (\<exists>x. m = Inr x \<and> f x = Inl e)"
  by (cases m) auto

fun map_until :: "(nat \<Rightarrow> 'a \<Rightarrow> 'e + 'b) \<Rightarrow> nat \<Rightarrow> 'a list \<Rightarrow> 'e + 'b list" where
  \<comment> \<open>\<open>map\<close> with a function that may throw: the first throw wins\<close>
  "map_until f i [] = Inr []"
| "map_until f i (x # xs) = and_then (f i x) (\<lambda>y. and_then (map_until f (Suc i) xs) (\<lambda>ys. Inr (y # ys)))"

lemma map_until_Inr: "map_until f i xs = Inr ys \<Longrightarrow> length ys = length xs \<and> (\<forall>j < length xs. f (i + j) (xs ! j) = Inr (ys ! j))"
proof (induction xs arbitrary: i ys)
  case (Cons x xs)
  from Cons.prems obtain y ys' where y: "f i x = Inr y" "map_until f (Suc i) xs = Inr ys'" "ys = y # ys'"
    by (auto simp: and_then_Inr)
  from Cons.IH [OF y(2)] y(1,3) show ?case by (auto simp: nth_Cons split: nat.split)
qed simp

end
