(* ===== verification/PluginCompose.thy ===== *)
theory PluginCompose
  imports Prelude
begin

text \<open>
  Validation and ordering of plugin descriptors
  (\<open>packages/sandbox/src/plugin-compose.ts\<close>).

  A configuration value may share or contain objects, so it is a reference into a heap
  of objects: \<open>seen\<close>, a \<open>WeakSet\<close>, compares identities. The recursive walk of
  \<open>assertSerializableConfig\<close> visits depth first and left to right and any failure
  aborts it, so the work still pending in the enclosing loops is a work list. A \<open>Set\<close>
  of names is the list of its elements in insertion order. The loops of
  \<open>topoSortPlugins\<close> and \<open>findCycle\<close> carry no bound in the code: they are partial
  functions, and that they return is a theorem.
\<close>

section \<open>Errors\<close>

datatype plugin_error =
    PluginTypeError string
  | PluginConfigSerializationError string "string list" string
  | PluginNameCollisionError string
  | PluginMissingDependencyError string string
  | PluginDependencyCycleError "string list"
  | GuestFunctionNameCollisionError string string string

fun join_with :: "string \<Rightarrow> string list \<Rightarrow> string" where
  "join_with sep [] = ''''"
| "join_with sep [x] = x"
| "join_with sep (x # xs) = x @ sep @ join_with sep xs"

definition formatPath :: "string list \<Rightarrow> string" where
  "formatPath path = (if path = [] then ''<root>'' else join_with ''.'' path)"

section \<open>Configuration values\<close>

datatype cfg_value =
    CNull
  | CUndefined
  | CBool bool
  | CNumber int
  | CString string
  | CFunction
  | CSymbol
  | CBigint int
  | CRef nat

datatype cfg_object =
    CArray "cfg_value list"
  | CObject "string option" "(string \<times> cfg_value) list"
    \<comment> \<open>\<open>None\<close>: the prototype is null or \<open>Object.prototype\<close>; otherwise its constructor name\<close>

type_synonym cfg_heap = "cfg_object list"

definition heap_get :: "cfg_heap \<Rightarrow> nat \<Rightarrow> cfg_object" where
  "heap_get h r = (if r < length h then h ! r else CArray [])"

fun js_typeof :: "cfg_value \<Rightarrow> string" where
  "js_typeof CNull = ''object''"
| "js_typeof CUndefined = ''undefined''"
| "js_typeof (CBool b) = ''boolean''"
| "js_typeof (CNumber n) = ''number''"
| "js_typeof (CString s) = ''string''"
| "js_typeof CFunction = ''function''"
| "js_typeof CSymbol = ''symbol''"
| "js_typeof (CBigint n) = ''bigint''"
| "js_typeof (CRef r) = ''object''"

datatype value_class = Primitive | Forbidden | UnknownClass

definition FORBIDDEN_KINDS :: "string list" where
  "FORBIDDEN_KINDS = [''function'', ''symbol'', ''bigint'']"

definition classifyNonObject :: "string \<Rightarrow> value_class" where
  "classifyNonObject t =
     (if t = ''boolean'' \<or> t = ''number'' \<or> t = ''string'' then Primitive
      else if t \<in> set FORBIDDEN_KINDS then Forbidden
      else UnknownClass)"

definition array_children :: "string list \<Rightarrow> cfg_value list \<Rightarrow> (cfg_value \<times> string list) list" where
  "array_children path arr = map (\<lambda>(i, v). (v, path @ [show_nat i])) (enumerate 0 arr)"

definition object_children ::
  "string list \<Rightarrow> (string \<times> cfg_value) list \<Rightarrow> (cfg_value \<times> string list) list" where
  "object_children path entries = map (\<lambda>(k, v). (v, path @ [k])) entries"

definition assertPlainObjectProto ::
  "string \<Rightarrow> string list \<Rightarrow> string option \<Rightarrow> plugin_error + unit" where
  "assertPlainObjectProto pluginName path proto =
     (case proto of
        None \<Rightarrow> Inr ()
      | Some ctorName \<Rightarrow> Inl (PluginConfigSerializationError pluginName path ctorName))"

function (sequential) assert_walk ::
  "string \<Rightarrow> cfg_heap \<Rightarrow> nat list \<Rightarrow> (cfg_value \<times> string list) list \<Rightarrow> plugin_error + nat list" where
  "assert_walk pluginName h seen [] = Inr seen"
| "assert_walk pluginName h seen ((value, path) # work) =
     (if value = CNull \<or> value = CUndefined then assert_walk pluginName h seen work
      else if classifyNonObject (js_typeof value) = Primitive then assert_walk pluginName h seen work
      else case value of
        CRef r \<Rightarrow>
          if r \<in> set seen
          then Inl (PluginConfigSerializationError pluginName path ''circular-reference'')
          else (case heap_get h r of
                  CArray arr \<Rightarrow>
                    assert_walk pluginName h (r # seen) (array_children path arr @ work)
                | CObject proto entries \<Rightarrow>
                    (case assertPlainObjectProto pluginName path proto of
                       Inl err \<Rightarrow> Inl err
                     | Inr _ \<Rightarrow>
                         assert_walk pluginName h (r # seen)
                           (object_children path entries @ work)))
      | _ \<Rightarrow> Inl (PluginConfigSerializationError pluginName path (js_typeof value)))"
  by pat_completeness auto

lemma unseen_shrinks:
  assumes "r \<notin> set seen" and "r < length (h :: cfg_heap)"
  shows "card ({..<length h} - set (r # seen)) < card ({..<length h} - set seen)"
  using assms by (intro psubset_card_mono) auto

lemma unseen_outside:
  assumes "\<not> r < length (h :: cfg_heap)"
  shows "{..<length h} - insert r (set seen) = {..<length h} - set seen"
  using assms by auto

lemma walk_measure:
  assumes "r \<notin> set seen"
    and "\<not> r < length (h :: cfg_heap) \<Longrightarrow> length children = 0"
  shows "((p, h, r # seen, children @ work), (p, h, seen, item # work))
    \<in> measures [\<lambda>(p, h, seen, work). card ({..<length h} - set seen),
        \<lambda>(p, h, seen, work). length work]"
  using assms unseen_shrinks [of r seen h] unseen_outside [of r h seen]
  by (cases "r < length h") auto

termination assert_walk
proof (relation "measures [\<lambda>(p, h, seen, work). card ({..<length h} - set seen),
    \<lambda>(p, h, seen, work). length work]", goal_cases)
  case (4 pluginName h seen v path work r arr)
  then show ?case
    by (intro walk_measure) (auto simp: heap_get_def array_children_def enumerate_eq_zip)
next
  case (5 pluginName h seen v path work r proto entries err)
  then show ?case
    by (intro walk_measure) (auto simp: heap_get_def)
qed auto

definition assertSerializableConfig ::
  "cfg_heap \<Rightarrow> string \<Rightarrow> cfg_value \<Rightarrow> string list \<Rightarrow> nat list \<Rightarrow> plugin_error + unit" where
  "assertSerializableConfig h pluginName value path seen =
     map_sum id (\<lambda>_. ()) (assert_walk pluginName h seen [(value, path)])"

section \<open>Descriptors\<close>

record plugin_descriptor =
  pd_name :: string
  workerSource :: string
  guestSource :: "string option"
  config :: "cfg_value option"
  dependsOn :: "string list option"

definition deps_of :: "plugin_descriptor \<Rightarrow> string list" where
  \<comment> \<open>\<open>d.dependsOn ?? []\<close>\<close>
  "deps_of d = (case dependsOn d of None \<Rightarrow> [] | Some ds \<Rightarrow> ds)"

definition validateDependsOn :: "plugin_descriptor \<Rightarrow> plugin_error + unit" where
  "validateDependsOn d =
     (if list_all (\<lambda>dep. dep \<noteq> []) (deps_of d) then Inr ()
      else Inl (PluginTypeError
        (''plugin \"'' @ pd_name d @ ''\" dependsOn entries must be non-empty strings'')))"

definition validateDescriptor :: "cfg_heap \<Rightarrow> plugin_descriptor \<Rightarrow> plugin_error + unit" where
  "validateDescriptor h d =
     (if pd_name d = [] then Inl (PluginTypeError ''plugin descriptor must have a non-empty name'')
      else if workerSource d = []
      then Inl (PluginTypeError
        (''plugin \"'' @ pd_name d @ ''\" must have a non-empty workerSource''))
      else if guestSource d = Some []
      then Inl (PluginTypeError (''plugin \"'' @ pd_name d @
        ''\" guestSource, when present, must be a non-empty string''))
      else case validateDependsOn d of
             Inl err \<Rightarrow> Inl err
           | Inr _ \<Rightarrow>
               (case config d of
                  None \<Rightarrow> Inr ()
                | Some value \<Rightarrow> assertSerializableConfig h (pd_name d) value [] []))"

fun check_names ::
  "cfg_heap \<Rightarrow> string list \<Rightarrow> plugin_descriptor list \<Rightarrow> plugin_error + string list" where
  "check_names h seenNames [] = Inr seenNames"
| "check_names h seenNames (d # ds) =
     (case validateDescriptor h d of
        Inl err \<Rightarrow> Inl err
      | Inr _ \<Rightarrow>
          if pd_name d \<in> set seenNames then Inl (PluginNameCollisionError (pd_name d))
          else check_names h (pd_name d # seenNames) ds)"

fun check_deps :: "string list \<Rightarrow> (string \<times> string) list \<Rightarrow> plugin_error + unit" where
  \<comment> \<open>the nested loop over \<open>(d.name, dep)\<close>\<close>
  "check_deps seenNames [] = Inr ()"
| "check_deps seenNames ((name, dep) # rest) =
     (if dep \<notin> set seenNames then Inl (PluginMissingDependencyError name dep)
      else check_deps seenNames rest)"

definition dep_edges :: "plugin_descriptor list \<Rightarrow> (string \<times> string) list" where
  "dep_edges ds = concat (map (\<lambda>d. map (Pair (pd_name d)) (deps_of d)) ds)"

definition serializePluginDescriptors ::
  "cfg_heap \<Rightarrow> plugin_descriptor list \<Rightarrow> plugin_error + plugin_descriptor list" where
  "serializePluginDescriptors h ds =
     (case check_names h [] ds of
        Inl err \<Rightarrow> Inl err
      | Inr seenNames \<Rightarrow>
          (case check_deps seenNames (dep_edges ds) of
             Inl err \<Rightarrow> Inl err
           | Inr _ \<Rightarrow> Inr ds))"

section \<open>Topological order\<close>

record topo_state =
  byName :: "(string, plugin_descriptor) jsmap"
  pendingDeps :: "(string, string list) jsmap"
  dependents :: "(string, string list) jsmap"

definition js_set :: "'a list \<Rightarrow> 'a list" where
  \<comment> \<open>\<open>new Set(xs)\<close>, in insertion order\<close>
  "js_set xs = rev (remdups (rev xs))"

definition add_dependent :: "(string, string list) jsmap \<Rightarrow> string \<times> string \<Rightarrow> (string, string list) jsmap" where
  "add_dependent m e =
     (case map_get m (snd e) of
        None \<Rightarrow> m
      | Some names \<Rightarrow> map_set (snd e) (names @ [fst e]) m)"

definition buildTopoState :: "plugin_descriptor list \<Rightarrow> topo_state" where
  "buildTopoState ds =
     \<lparr>byName = foldl (\<lambda>m d. map_set (pd_name d) d m) [] ds,
      pendingDeps = foldl (\<lambda>m d. map_set (pd_name d) (js_set (deps_of d)) m) [] ds,
      dependents = foldl add_dependent (foldl (\<lambda>m d. map_set (pd_name d) [] m) [] ds)
        (dep_edges ds)\<rparr>"

definition initialReadyQueue :: "plugin_descriptor list \<Rightarrow> (string, string list) jsmap \<Rightarrow> string list" where
  "initialReadyQueue ds pend =
     map pd_name (filter (\<lambda>d. map_get pend (pd_name d) = Some []) ds)"

fun release ::
  "string \<Rightarrow> string list \<Rightarrow> (string, string list) jsmap \<Rightarrow> string list
     \<Rightarrow> (string, string list) jsmap \<times> string list" where
  \<comment> \<open>the \<open>for (const dependent of dependents.get(current) ?? [])\<close> loop\<close>
  "release current [] pend ready = (pend, ready)"
| "release current (dependent # rest) pend ready =
     (case map_get pend dependent of
        None \<Rightarrow> release current rest pend ready
      | Some names \<Rightarrow>
          let names' = removeAll current names
          in release current rest (map_set dependent names' pend)
               (if names' = [] then ready @ [dependent] else ready))"

partial_function (option) topo_loop ::
  "topo_state \<Rightarrow> (string, string list) jsmap \<Rightarrow> string list \<Rightarrow> plugin_descriptor list
     \<Rightarrow> ((string, string list) jsmap \<times> plugin_descriptor list) option" where
  "topo_loop st pend ready ordered =
     (case ready of
        [] \<Rightarrow> Some (pend, ordered)
      | current # rest \<Rightarrow>
          topo_loop st
            (fst (release current (case map_get (dependents st) current of None \<Rightarrow> [] | Some l \<Rightarrow> l) pend rest))
            (snd (release current (case map_get (dependents st) current of None \<Rightarrow> [] | Some l \<Rightarrow> l) pend rest))
            (case map_get (byName st) current of None \<Rightarrow> ordered | Some d \<Rightarrow> ordered @ [d]))"

declare topo_loop.simps [code]

lemma img_fst: "(k, v) \<in> set m \<Longrightarrow> k \<in> fst ` set m"
  by force

function cycle_walk :: "(string, string list) jsmap \<Rightarrow> string list \<Rightarrow> string \<Rightarrow> string list" where
  "cycle_walk pend path current =
     (case indexOf current path of
        Some cycleStart \<Rightarrow> drop cycleStart path @ [current]
      | None \<Rightarrow>
          (case map_get pend current of
             Some (nxt # _) \<Rightarrow> cycle_walk pend (path @ [current]) nxt
           | _ \<Rightarrow> path @ [current]))"
  by pat_completeness auto

termination cycle_walk
proof (relation "measure (\<lambda>(pend, path, current). card (set (keys pend) - set path))", goal_cases)
  case (2 pend path current names nxt rest)
  then have "current \<in> set (keys pend) - set path"
    by (auto simp: indexOf_None intro: img_fst dest!: map_of_SomeD)
  then have "set (keys pend) - set (path @ [current]) \<subset> set (keys pend) - set path" by auto
  then have "card (set (keys pend) - set (path @ [current])) < card (set (keys pend) - set path)"
    by (intro psubset_card_mono) auto
  then show ?case by (simp only: in_measure prod.case)
qed simp

declare cycle_walk.simps [simp del]

definition findCycle :: "plugin_descriptor list \<Rightarrow> (string, string list) jsmap \<Rightarrow> string list" where
  "findCycle ds pend =
     (case filter (\<lambda>d. case map_get pend (pd_name d) of None \<Rightarrow> False | Some names \<Rightarrow> names \<noteq> []) ds of
        [] \<Rightarrow> []
      | start # _ \<Rightarrow> cycle_walk pend [] (pd_name start))"

definition topoSortPlugins ::
  "plugin_descriptor list \<Rightarrow> (plugin_error + plugin_descriptor list) option" where
  "topoSortPlugins ds =
     (let st = buildTopoState ds
      in case topo_loop st (pendingDeps st) (initialReadyQueue ds (pendingDeps st)) [] of
           None \<Rightarrow> None
         | Some (pend, ordered) \<Rightarrow>
             Some (if length ordered \<noteq> length ds
                   then Inl (PluginDependencyCycleError (findCycle ds pend))
                   else Inr ordered))"

section \<open>Guest function names\<close>

fun assert_names :: "(string, string) jsmap \<Rightarrow> (string \<times> string) list \<Rightarrow> plugin_error + unit" where
  "assert_names firstOccurrence [] = Inr ()"
| "assert_names firstOccurrence ((pluginName, functionName) # rest) =
     (case map_get firstOccurrence functionName of
        Some prior \<Rightarrow>
          if prior \<noteq> pluginName
          then Inl (GuestFunctionNameCollisionError functionName prior pluginName)
          else assert_names firstOccurrence rest
      | None \<Rightarrow> assert_names (map_set functionName pluginName firstOccurrence) rest)"

definition assertGuestFunctionNamesUnique :: "(string \<times> string) list \<Rightarrow> plugin_error + unit" where
  "assertGuestFunctionNamesUnique entries = assert_names [] entries"

section \<open>Accepted configurations\<close>

fun cfg_children :: "cfg_heap \<Rightarrow> cfg_value \<Rightarrow> cfg_value list" where
  "cfg_children h (CRef r) =
     (case heap_get h r of CArray arr \<Rightarrow> arr | CObject proto entries \<Rightarrow> map snd entries)"
| "cfg_children h _ = []"

definition cfg_edge :: "cfg_heap \<Rightarrow> cfg_value \<Rightarrow> cfg_value \<Rightarrow> bool" where
  "cfg_edge h v w \<longleftrightarrow> w \<in> set (cfg_children h v)"

fun json_node :: "cfg_heap \<Rightarrow> cfg_value \<Rightarrow> bool" where
  "json_node h CFunction = False"
| "json_node h CSymbol = False"
| "json_node h (CBigint n) = False"
| "json_node h (CRef r) = (case heap_get h r of CArray arr \<Rightarrow> True | CObject proto es \<Rightarrow> proto = None)"
| "json_node h _ = True"

definition fresh_node :: "nat list \<Rightarrow> cfg_value \<Rightarrow> bool" where
  "fresh_node seen v \<longleftrightarrow> (\<forall>r. v = CRef r \<longrightarrow> r \<notin> set seen)"

definition clean_node :: "cfg_heap \<Rightarrow> nat list \<Rightarrow> cfg_value \<Rightarrow> bool" where
  "clean_node h seen w \<longleftrightarrow> json_node h w \<and> fresh_node seen w \<and> \<not> (cfg_edge h)\<^sup>+\<^sup>+ w w"

lemma set_array_children: "fst ` set (array_children path arr) = set arr"
proof -
  have "map fst (array_children path arr) = arr"
    by (simp add: array_children_def comp_def case_prod_unfold map_snd_enumerate)
  then show ?thesis by (metis set_map)
qed

lemma set_object_children: "fst ` set (object_children path es) = snd ` set es"
  by (force simp: object_children_def)

lemma cfg_edge_prim: "cfg_edge h v w \<Longrightarrow> \<exists>r. v = CRef r"
  by (cases v) (auto simp: cfg_edge_def)

lemma reach_prim: "(cfg_edge h)\<^sup>*\<^sup>* v w \<Longrightarrow> (\<And>r. v \<noteq> CRef r) \<Longrightarrow> w = v"
  by (metis cfg_edge_prim converse_rtranclpE)

lemma walk_children:
  assumes kids: "\<And>c. cfg_edge h (CRef r) c \<Longrightarrow> c \<in> fst ` set children"
    and ok: "\<forall>v\<in>fst ` set (children @ work). \<forall>w. (cfg_edge h)\<^sup>*\<^sup>* v w \<longrightarrow> clean_node h (r # seen) w"
    and r: "r \<notin> set seen" "json_node h (CRef r)"
  shows "\<forall>v\<in>fst ` set ((CRef r, path) # work). \<forall>w. (cfg_edge h)\<^sup>*\<^sup>* v w \<longrightarrow> clean_node h seen w"
proof (intro ballI allI impI)
  fix v w assume v: "v \<in> fst ` set ((CRef r, path) # work)" and w: "(cfg_edge h)\<^sup>*\<^sup>* v w"
  have sub: "clean_node h (r # seen) x \<Longrightarrow> clean_node h seen x" for x
    by (simp add: clean_node_def fresh_node_def)
  show "clean_node h seen w"
  proof (cases "v \<in> fst ` set work")
    case True
    then have "v \<in> fst ` set (children @ work)" by auto
    with ok w sub show ?thesis by blast
  next
    case False
    with v have vr: "v = CRef r" by auto
    from w show ?thesis
    proof (cases rule: converse_rtranclpE)
      case base
      have "\<not> (cfg_edge h)\<^sup>+\<^sup>+ (CRef r) (CRef r)"
      proof
        assume "(cfg_edge h)\<^sup>+\<^sup>+ (CRef r) (CRef r)"
        then obtain c where "cfg_edge h (CRef r) c" "(cfg_edge h)\<^sup>*\<^sup>* c (CRef r)"
          by (metis tranclpD)
        with kids [of c] ok have "clean_node h (r # seen) (CRef r)" by auto
        then show False by (simp add: clean_node_def fresh_node_def)
      qed
      with base vr r show ?thesis by (auto simp: clean_node_def fresh_node_def)
    next
      case (step c)
      then have "c \<in> fst ` set (children @ work)" using vr kids [of c] by auto
      with ok step(2) sub show ?thesis by blast
    qed
  qed
qed

lemma class_ref: "classifyNonObject ''object'' = UnknownClass"
  by (simp add: classifyNonObject_def FORBIDDEN_KINDS_def)

lemma class_prim:
  "classifyNonObject (js_typeof v) = Primitive \<longleftrightarrow>
     (\<exists>b. v = CBool b) \<or> (\<exists>n. v = CNumber n) \<or> (\<exists>s. v = CString s)"
  by (cases v) (simp_all add: classifyNonObject_def FORBIDDEN_KINDS_def)

lemma walk_skip:
  assumes "\<forall>v\<in>fst ` set work. \<forall>w. (cfg_edge h)\<^sup>*\<^sup>* v w \<longrightarrow> clean_node h seen w"
    and "json_node h v" and "\<And>r. v \<noteq> CRef r"
  shows "\<forall>v\<in>fst ` set ((v, path) # work). \<forall>w. (cfg_edge h)\<^sup>*\<^sup>* v w \<longrightarrow> clean_node h seen w"
proof -
  have "\<not> (cfg_edge h)\<^sup>+\<^sup>+ v v"
    using assms(3) cfg_edge_prim by (metis tranclpD)
  then show ?thesis
    using assms reach_prim [of h v] by (auto simp: clean_node_def fresh_node_def)
qed

lemma assert_walk_ok:
  "assert_walk p h seen work = Inr seen' \<Longrightarrow>
     \<forall>v\<in>fst ` set work. \<forall>w. (cfg_edge h)\<^sup>*\<^sup>* v w \<longrightarrow> clean_node h seen w"
proof (induction p h seen work rule: assert_walk.induct)
  case (1 p h seen)
  then show ?case by simp
next
  case (2 p h seen v path work)
  consider (ref) r where "v = CRef r" | (null) "v = CNull \<or> v = CUndefined"
    | (prim) "classifyNonObject (js_typeof v) = Primitive" "\<not> (v = CNull \<or> v = CUndefined)"
    | (bad) "v = CFunction \<or> v = CSymbol \<or> (\<exists>n. v = CBigint n)"
    by (cases v) (auto simp: classifyNonObject_def)
  then show ?case
  proof cases
    case ref
    note nonprim = class_ref
    have n1: "\<not> (v = CNull \<or> v = CUndefined)"
      and n2: "classifyNonObject (js_typeof v) \<noteq> Primitive"
      using ref by (simp_all add: nonprim)
    have r: "r \<notin> set seen"
      using "2.prems" ref by (auto simp: nonprim split: if_splits)
    show ?thesis
    proof (cases "heap_get h r")
      case (CArray arr)
      have "assert_walk p h (r # seen) (array_children path arr @ work) = Inr seen'"
        using "2.prems" ref r CArray by (simp add: nonprim)
      note ok = "2.IH"(3) [OF n1 n2 ref r CArray this]
      show ?thesis unfolding ref
        by (rule walk_children [OF _ ok r])
          (simp_all add: CArray cfg_edge_def set_array_children)
    next
      case (CObject proto es)
      have proto: "proto = None"
        using "2.prems" ref r CObject
        by (auto simp: nonprim assertPlainObjectProto_def split: option.splits)
      have "assert_walk p h (r # seen) (object_children path es @ work) = Inr seen'"
        using "2.prems" ref r CObject proto by (simp add: nonprim assertPlainObjectProto_def)
      note ok = "2.IH"(4) [OF n1 n2 ref r CObject _ this, of "()"]
      show ?thesis unfolding ref
        by (rule walk_children [OF _ ok r])
          (simp_all add: CObject cfg_edge_def set_object_children proto assertPlainObjectProto_def)
    qed
  next
    case null
    with "2.prems" have "assert_walk p h seen work = Inr seen'" by auto
    from "2.IH"(1) [OF null this] null show ?thesis by (intro walk_skip) auto
  next
    case prim
    then have "assert_walk p h seen work = Inr seen'" using "2.prems" by simp
    from "2.IH"(2) [OF prim(2) prim(1) this] prim show ?thesis
      by (intro walk_skip) (auto simp: class_prim)
  next
    case bad
    with "2.prems" show ?thesis by (auto simp: classifyNonObject_def FORBIDDEN_KINDS_def)
  qed
qed

text \<open>
  A plugin configuration that \<open>assertSerializableConfig\<close> accepts can be sent to
  the worker: every value reachable from it is a JSON value (no function, symbol,
  bigint or class instance at any depth) and no object contains itself.
\<close>

lemma accepted_config_is_json:
  assumes "assertSerializableConfig h pluginName v [] [] = Inr ()" and "(cfg_edge h)\<^sup>*\<^sup>* v w"
  shows "json_node h w \<and> \<not> (cfg_edge h)\<^sup>+\<^sup>+ w w"
proof -
  obtain seen' where walk: "assert_walk pluginName h [] [(v, [])] = Inr seen'"
    using assms(1) by (auto simp: assertSerializableConfig_def map_sum_def split: sum.splits)
  from assert_walk_ok [OF walk] assms(2) show ?thesis by (simp add: clean_node_def)
qed

lemma accepted_config_is_json_witness:
  "json_node [CObject None [(''k'', CRef 1)], CArray [CNull]] (CRef 1) \<and>
   \<not> (cfg_edge [CObject None [(''k'', CRef 1)], CArray [CNull]])\<^sup>+\<^sup>+ (CRef 1) (CRef 1)"
  by (rule accepted_config_is_json [where pluginName = "''p''" and v = "CRef 0"])
    (code_simp, simp add: r_into_rtranclp cfg_edge_def heap_get_def)

section \<open>Correctness of the order\<close>

fun deps_before :: "string list \<Rightarrow> plugin_descriptor list \<Rightarrow> bool" where
  "deps_before seen [] = True"
| "deps_before seen (d # ds) =
     (set (deps_of d) \<subseteq> set seen \<and> deps_before (pd_name d # seen) ds)"

fun dep_path :: "plugin_descriptor list \<Rightarrow> string list \<Rightarrow> bool" where
  \<comment> \<open>each name is followed by one of its declared dependencies\<close>
  "dep_path ds (m # n # ns) =
     (list_ex (\<lambda>d. pd_name d = m \<and> n \<in> set (deps_of d)) ds \<and> dep_path ds (n # ns))"
| "dep_path ds _ = True"

definition dep_cycle :: "plugin_descriptor list \<Rightarrow> string list \<Rightarrow> bool" where
  "dep_cycle ds c \<longleftrightarrow> length c \<ge> 2 \<and> hd c = last c \<and> dep_path ds c"

definition wf_plugins :: "plugin_descriptor list \<Rightarrow> bool" where
  "wf_plugins ds \<longleftrightarrow>
     distinct (map pd_name ds) \<and>
     list_all (\<lambda>d. distinct (deps_of d) \<and> set (deps_of d) \<subseteq> set (map pd_name ds)) ds"

lemma deps_before_snoc:
  "deps_before seen (ds @ [d]) \<longleftrightarrow>
     deps_before seen ds \<and> set (deps_of d) \<subseteq> set seen \<union> set (map pd_name ds)"
  by (induction ds arbitrary: seen) auto

lemma dep_path_snoc:
  "dep_path ds (ns @ [m]) \<Longrightarrow> d \<in> set ds \<Longrightarrow> pd_name d = m \<Longrightarrow> n \<in> set (deps_of d) \<Longrightarrow>
     dep_path ds (ns @ [m, n])"
  by (induction ds ns rule: dep_path.induct) (auto simp: list_ex_iff)

lemma dep_path_suffix: "dep_path ds (ms @ ns) \<Longrightarrow> dep_path ds ns"
proof (induction ms)
  case (Cons m ms)
  then show ?case by (cases "ms @ ns") auto
qed simp

lemma fold_set_get:
  "map_get (foldl (\<lambda>m d. map_set (f d) (g d) m) m0 ds) k =
     (case map_of (rev (map (\<lambda>d. (f d, g d)) ds)) k of None \<Rightarrow> map_get m0 k | Some v \<Rightarrow> Some v)"
  by (induction ds arbitrary: m0) (auto simp: map_add_Some_iff split: option.splits)

lemma fold_set_get_distinct:
  assumes "distinct (map f ds)" and "d \<in> set ds"
  shows "map_get (foldl (\<lambda>m d. map_set (f d) (g d) m) m0 ds) (f d) = Some (g d)"
proof -
  have "map_of (map (\<lambda>d. (f d, g d)) (rev ds)) (f d) = Some (g d)"
    using assms by (intro map_of_is_SomeI) (auto simp: comp_def rev_map [symmetric])
  then show ?thesis by (simp add: fold_set_get rev_map)
qed

lemma js_set_distinct: "distinct xs \<Longrightarrow> js_set xs = xs"
  by (simp add: js_set_def distinct_remdups_id)

lemma add_dependents_get:
  "map_get m k = Some l \<Longrightarrow>
   map_get (foldl add_dependent m es) k = Some (l @ map fst (filter (\<lambda>e. snd e = k) es))"
proof (induction es arbitrary: m l)
  case (Cons e es)
  have "map_get (add_dependent m e) k = Some (if snd e = k then l @ [fst e] else l)"
    using Cons.prems by (auto simp: add_dependent_def split: option.splits)
  from Cons.IH [OF this] show ?case by simp
qed simp

definition dependents_of :: "plugin_descriptor list \<Rightarrow> string \<Rightarrow> string list" where
  "dependents_of ds k = map pd_name (filter (\<lambda>d. k \<in> set (deps_of d)) ds)"

lemma filter_eq_distinct: "distinct xs \<Longrightarrow> filter (\<lambda>x. x = k) xs = (if k \<in> set xs then [k] else [])"
  by (induction xs) auto

lemma edges_to:
  "list_all (\<lambda>d. distinct (deps_of d)) ds \<Longrightarrow>
     map fst (filter (\<lambda>e. snd e = k) (dep_edges ds)) = dependents_of ds k"
  by (induction ds)
    (auto simp: dep_edges_def dependents_of_def filter_map comp_def filter_eq_distinct)

lemma release_spec:
  assumes "distinct ns"
  shows "snd (release c ns pend ready) =
      ready @ filter (\<lambda>n. case map_get pend n of None \<Rightarrow> False | Some l \<Rightarrow> removeAll c l = []) ns
    \<and> map_get (fst (release c ns pend ready)) k =
      (if k \<in> set ns then map_option (removeAll c) (map_get pend k) else map_get pend k)"
  using assms
proof (induction ns arbitrary: pend ready)
  case (Cons n ns)
  show ?case
  proof (cases "map_get pend n")
    case None
    with Cons show ?thesis by auto
  next
    case (Some l)
    let ?p = "map_set n (removeAll c l) pend"
    have same: "filter (\<lambda>n. case map_get ?p n of None \<Rightarrow> False | Some l \<Rightarrow> removeAll c l = []) ns =
        filter (\<lambda>n. case map_get pend n of None \<Rightarrow> False | Some l \<Rightarrow> removeAll c l = []) ns"
      using Cons.prems by (intro filter_cong) auto
    show ?thesis
      using Cons.IH [of ?p "if removeAll c l = [] then ready @ [n] else ready"] Cons.prems Some same
      by (auto simp: Let_def)
  qed
qed simp

text \<open>The invariant of the main loop.\<close>

definition kahn_inv ::
  "plugin_descriptor list \<Rightarrow> (string, string list) jsmap \<Rightarrow> string list \<Rightarrow> plugin_descriptor list \<Rightarrow> bool" where
  "kahn_inv ds pend ready ordered \<longleftrightarrow>
     distinct (map pd_name ordered @ ready) \<and>
     set ready \<subseteq> set (map pd_name ds) \<and>
     set ordered \<subseteq> set ds \<and>
     deps_before [] ordered \<and>
     (\<forall>d\<in>set ds.
        map_get pend (pd_name d) = Some (filter (\<lambda>n. n \<notin> set (map pd_name ordered)) (deps_of d)) \<and>
        (pd_name d \<in> set (map pd_name ordered @ ready) \<longleftrightarrow>
          set (deps_of d) \<subseteq> set (map pd_name ordered)))"

lemma wf_by_name:
  assumes "wf_plugins ds" and "d \<in> set ds"
  shows "map_get (byName (buildTopoState ds)) (pd_name d) = Some d"
    and "map_get (pendingDeps (buildTopoState ds)) (pd_name d) = Some (deps_of d)"
    and "map_get (dependents (buildTopoState ds)) (pd_name d) = Some (dependents_of ds (pd_name d))"
proof -
  have dist: "distinct (map pd_name ds)" "list_all (\<lambda>d. distinct (deps_of d)) ds"
    using assms(1) by (auto simp: wf_plugins_def list_all_iff)
  show "map_get (byName (buildTopoState ds)) (pd_name d) = Some d"
    using fold_set_get_distinct [OF dist(1) assms(2), of "\<lambda>d. d" "[]"] by (simp add: buildTopoState_def)
  show "map_get (pendingDeps (buildTopoState ds)) (pd_name d) = Some (deps_of d)"
    using fold_set_get_distinct [OF dist(1) assms(2), of "\<lambda>d. js_set (deps_of d)" "[]"] dist(2) assms(2)
    by (simp add: buildTopoState_def js_set_distinct list_all_iff)
  have "map_get (foldl (\<lambda>m d. map_set (pd_name d) [] m) [] ds) (pd_name d) = Some []"
    using fold_set_get_distinct [OF dist(1) assms(2), of "\<lambda>d. []" "[]"] by simp
  from add_dependents_get [OF this, of "dep_edges ds"] edges_to [OF dist(2)]
  show "map_get (dependents (buildTopoState ds)) (pd_name d) = Some (dependents_of ds (pd_name d))"
    by (simp add: buildTopoState_def)
qed

lemma kahn_inv_init:
  assumes "wf_plugins ds"
  shows "kahn_inv ds (pendingDeps (buildTopoState ds))
    (initialReadyQueue ds (pendingDeps (buildTopoState ds))) []"
proof -
  have q: "initialReadyQueue ds (pendingDeps (buildTopoState ds)) =
      map pd_name (filter (\<lambda>d. deps_of d = []) ds)"
    unfolding initialReadyQueue_def
    by (intro arg_cong [where f = "map pd_name"] filter_cong) (auto simp: wf_by_name [OF assms])
  have dist: "distinct (map pd_name ds)" using assms by (simp add: wf_plugins_def)
  then have "inj_on pd_name (set ds)" "distinct (map pd_name (filter (\<lambda>d. deps_of d = []) ds))"
    by (auto simp: distinct_map intro: inj_on_subset)
  then show ?thesis
    unfolding kahn_inv_def q
    by (auto simp: wf_by_name [OF assms] inj_on_def)
qed

lemma kahn_inv_step:
  assumes wf: "wf_plugins ds" and inv: "kahn_inv ds pend (c # rest) ordered"
    and d: "d \<in> set ds" "pd_name d = c"
  shows "kahn_inv ds (fst (release c (dependents_of ds c) pend rest))
    (snd (release c (dependents_of ds c) pend rest)) (ordered @ [d])"
proof -
  let ?done = "set (map pd_name ordered)"
  have dist: "distinct (map pd_name ds)" using wf by (simp add: wf_plugins_def)
  have inj: "x = y" if "x \<in> set ds" "y \<in> set ds" "pd_name x = pd_name y" for x y
    using dist that by (auto simp: distinct_map inj_on_def)
  have dd: "distinct (dependents_of ds c)"
    using dist by (simp add: dependents_of_def distinct_map_filter)
  have mem: "pd_name x \<in> set (dependents_of ds c) \<longleftrightarrow> c \<in> set (deps_of x)" if "x \<in> set ds" for x
    using that inj by (auto simp: dependents_of_def)
  have pend: "map_get pend (pd_name x) = Some (filter (\<lambda>n. n \<notin> ?done) (deps_of x))"
    and ready: "pd_name x \<in> ?done \<union> set (c # rest) \<longleftrightarrow> set (deps_of x) \<subseteq> ?done"
    if "x \<in> set ds" for x
    using inv that by (auto simp: kahn_inv_def)
  have fresh: "c \<notin> ?done" using inv by (simp add: kahn_inv_def)
  define new where "new = filter (\<lambda>n. case map_get pend n of None \<Rightarrow> False | Some l \<Rightarrow> removeAll c l = [])
      (dependents_of ds c)"
  note rel = release_spec [OF dd, of c pend rest, folded new_def]
  have new_iff: "pd_name x \<in> set new \<longleftrightarrow> c \<in> set (deps_of x) \<and> set (deps_of x) \<subseteq> insert c ?done"
    if "x \<in> set ds" for x
    using that mem [OF that] pend [OF that] by (auto simp: new_def filter_empty_conv removeAll_filter_not_eq)
  have new_sub: "set new \<subseteq> set (map pd_name ds)"
    by (auto simp: new_def dependents_of_def)
  have new_fresh: "n \<notin> ?done \<union> set (c # rest)" if n: "n \<in> set new" for n
  proof -
    obtain x where x: "x \<in> set ds" "pd_name x = n" using n new_sub by auto
    then have "\<not> set (deps_of x) \<subseteq> ?done" using new_iff [OF x(1)] n fresh by auto
    with ready [OF x(1)] x(2) show ?thesis by simp
  qed
  have pend': "map_get (fst (release c (dependents_of ds c) pend rest)) (pd_name x) =
      Some (filter (\<lambda>n. n \<notin> insert c ?done) (deps_of x))" if "x \<in> set ds" for x
    using that mem [OF that] pend [OF that] rel
    by (auto simp: removeAll_filter_not_eq intro!: filter_cong)
  have ready': "pd_name x \<in> insert c ?done \<union> (set rest \<union> set new) \<longleftrightarrow>
      set (deps_of x) \<subseteq> insert c ?done" if "x \<in> set ds" for x
    using new_iff [OF that] ready [OF that] by auto
  have "distinct (map pd_name ordered @ c # rest @ new)"
    using inv new_fresh dd by (auto simp: kahn_inv_def new_def)
  moreover have "deps_before [] (ordered @ [d])"
    using inv ready [OF d(1)] d(2) by (simp add: kahn_inv_def deps_before_snoc)
  ultimately show ?thesis
    using inv d new_sub pend' ready' rel unfolding kahn_inv_def by (auto simp: d(2))
qed

lemma kahn_length:
  assumes "wf_plugins ds" and "kahn_inv ds pend ready ordered"
  shows "length ordered + length ready \<le> length ds"
proof -
  have "length (map pd_name ordered @ ready) = card (set (map pd_name ordered @ ready))"
    using assms(2) by (simp add: kahn_inv_def distinct_card del: set_append)
  also have "\<dots> \<le> card (set (map pd_name ds))"
    using assms(2) by (intro card_mono) (auto simp: kahn_inv_def)
  also have "\<dots> \<le> length ds" using card_length [of "map pd_name ds"] by simp
  finally show ?thesis by simp
qed

lemma topo_loop_returns:
  assumes "wf_plugins ds" and "kahn_inv ds pend ready ordered"
  shows "\<exists>pend' ordered'. topo_loop (buildTopoState ds) pend ready ordered = Some (pend', ordered') \<and>
    kahn_inv ds pend' [] ordered'"
  using assms(2)
proof (induction "length ds - length ordered" arbitrary: pend ready ordered rule: less_induct)
  case less
  show ?case
  proof (cases ready)
    case Nil
    with less.prems show ?thesis by (simp add: topo_loop.simps)
  next
    case (Cons c rest)
    then obtain d where d: "d \<in> set ds" "pd_name d = c"
      using less.prems by (auto simp: kahn_inv_def)
    note inv' = kahn_inv_step [OF assms(1) less.prems [unfolded Cons] d]
    have "length ordered < length ds"
      using kahn_length [OF assms(1) less.prems] Cons by simp
    then have "length ds - length (ordered @ [d]) < length ds - length ordered" by simp
    from less.hyps [OF this inv'] show ?thesis
      using wf_by_name [OF assms(1) d(1)] d(2) Cons by (subst topo_loop.simps) simp
  qed
qed

lemma complete_order:
  assumes "wf_plugins ds" and "kahn_inv ds pend [] ordered" and "length ordered = length ds"
  shows "mset ordered = mset ds"
proof -
  have "distinct ordered" "distinct ds" "set ordered \<subseteq> set ds"
    using assms(1,2) by (auto simp: kahn_inv_def wf_plugins_def distinct_map)
  moreover from this assms(3) have "set ordered = set ds"
    by (intro card_subset_eq) (auto simp: distinct_card)
  ultimately show ?thesis by (metis set_eq_iff_mset_eq_distinct)
qed

lemma pending_dep:
  assumes "wf_plugins ds" and "kahn_inv ds pend [] ordered"
    and "d \<in> set ds" and "pd_name d \<notin> set (map pd_name ordered)"
  obtains nxt more where "map_get pend (pd_name d) = Some (nxt # more)" "nxt \<in> set (deps_of d)"
    "nxt \<in> set (map pd_name ds)" "nxt \<notin> set (map pd_name ordered)"
proof -
  let ?names = "filter (\<lambda>n. n \<notin> set (map pd_name ordered)) (deps_of d)"
  have get: "map_get pend (pd_name d) = Some ?names" and ne: "?names \<noteq> []"
    using assms(2-4) by (auto simp: kahn_inv_def filter_empty_conv)
  obtain nxt more where names: "?names = nxt # more" using ne by (cases ?names) auto
  then have "nxt \<in> set ?names" by simp
  then have "nxt \<in> set (deps_of d)" "nxt \<notin> set (map pd_name ordered)" by auto
  moreover have "nxt \<in> set (map pd_name ds)"
    using assms(1,3) \<open>nxt \<in> set (deps_of d)\<close> by (auto simp: wf_plugins_def list_all_iff)
  ultimately show ?thesis using that [of nxt more] get names by simp
qed

lemma cycle_walk_cycle:
  assumes "wf_plugins ds" and "kahn_inv ds pend [] ordered"
    and "dep_path ds (path @ [current])" and "current \<in> set (map pd_name ds)"
    and "current \<notin> set (map pd_name ordered)"
  shows "dep_cycle ds (cycle_walk pend path current)"
  using assms(2-5)
proof (induction pend path current rule: cycle_walk.induct)
  case (1 pend path current)
  show ?case
  proof (cases "indexOf current path")
    case (Some i)
    then have i: "i < length path" "path ! i = current" by (auto dest: indexOf_Some)
    have "dep_path ds (drop i path @ [current])"
      using "1.prems"(2) by (metis append.assoc append_take_drop_id dep_path_suffix)
    with Some i show ?thesis
      by (simp add: cycle_walk.simps [of pend path] dep_cycle_def hd_append hd_drop_conv_nth)
  next
    case None
    obtain d where d: "d \<in> set ds" "pd_name d = current" using "1.prems"(3) by auto
    with "1.prems"(4) have "pd_name d \<notin> set (map pd_name ordered)" by simp
    from pending_dep [OF assms(1) "1.prems"(1) d(1) this]
    obtain nxt more where nxt: "map_get pend (pd_name d) = Some (nxt # more)" "nxt \<in> set (deps_of d)"
      "nxt \<in> set (map pd_name ds)" "nxt \<notin> set (map pd_name ordered)" .
    have "dep_path ds ((path @ [current]) @ [nxt])"
      using dep_path_snoc [OF "1.prems"(2) d nxt(2)] by simp
    from "1.IH" [OF None _ _ "1.prems"(1) this nxt(3,4)] show ?thesis
      using None nxt(1) d(2) by (simp add: cycle_walk.simps [of pend path])
  qed
qed

lemma findCycle_cycle:
  assumes "wf_plugins ds" and "kahn_inv ds pend [] ordered" and "length ordered \<noteq> length ds"
  shows "dep_cycle ds (findCycle ds pend)"
proof -
  let ?stuck = "filter (\<lambda>d. case map_get pend (pd_name d) of None \<Rightarrow> False | Some names \<Rightarrow> names \<noteq> []) ds"
  have stuck: "d \<in> set ?stuck \<longleftrightarrow> d \<in> set ds \<and> pd_name d \<notin> set (map pd_name ordered)" for d
  proof (cases "d \<in> set ds")
    case True
    then have "map_get pend (pd_name d) =
        Some (filter (\<lambda>n. n \<notin> set (map pd_name ordered)) (deps_of d))"
      "pd_name d \<in> set (map pd_name ordered) \<longleftrightarrow> set (deps_of d) \<subseteq> set (map pd_name ordered)"
      using assms(2) by (simp_all add: kahn_inv_def)
    with True show ?thesis by (auto simp: filter_empty_conv)
  qed simp
  have "?stuck \<noteq> []"
  proof
    assume "?stuck = []"
    then have "set (map pd_name ds) \<subseteq> set (map pd_name ordered)"
      using stuck by (metis (no_types, lifting) empty_iff empty_set image_subsetI set_map)
    then have "card (set (map pd_name ds)) \<le> card (set (map pd_name ordered))"
      by (intro card_mono) auto
    then have "length ds \<le> length ordered"
      using assms(1,2) distinct_card [of "map pd_name ds"] distinct_card [of "map pd_name ordered"]
      by (simp add: wf_plugins_def kahn_inv_def)
    with kahn_length [OF assms(1,2)] assms(3) show False by simp
  qed
  then obtain d more where d: "?stuck = d # more" by (cases ?stuck) auto
  then have "d \<in> set ?stuck" by simp
  then have "d \<in> set ds" "pd_name d \<notin> set (map pd_name ordered)" using stuck by auto
  with cycle_walk_cycle [OF assms(1,2), of "[]" "pd_name d"] d show ?thesis
    by (simp add: findCycle_def)
qed

lemma check_names_distinct:
  "check_names h seen ds = Inr seen' \<Longrightarrow>
     distinct (map pd_name ds) \<and> set (map pd_name ds) \<inter> set seen = {} \<and>
     set seen' = set seen \<union> set (map pd_name ds)"
proof (induction ds arbitrary: seen)
  case (Cons d ds)
  then have "check_names h (pd_name d # seen) ds = Inr seen'" "pd_name d \<notin> set seen"
    by (auto split: sum.splits if_splits)
  with Cons.IH [of "pd_name d # seen"] show ?case by auto
qed simp

lemma check_deps_known: "check_deps seen es = Inr u \<Longrightarrow> snd ` set es \<subseteq> set seen"
  by (induction seen es rule: check_deps.induct) (auto split: if_splits)

lemma serialized_wf:
  assumes "serializePluginDescriptors h ds = Inr ds'"
    and "list_all (\<lambda>d. distinct (deps_of d)) ds"
  shows "ds' = ds" "wf_plugins ds"
proof -
  obtain seen u where c: "check_names h [] ds = Inr seen" "check_deps seen (dep_edges ds) = Inr u"
    and "ds' = ds"
    using assms(1) by (auto simp: serializePluginDescriptors_def split: sum.splits)
  then show "ds' = ds" by simp
  have "set (deps_of d) \<subseteq> set (map pd_name ds)" if "d \<in> set ds" for d
    using check_names_distinct [OF c(1)] check_deps_known [OF c(2)] that
    by (force simp: dep_edges_def)
  with check_names_distinct [OF c(1)] assms(2) show "wf_plugins ds"
    by (simp add: wf_plugins_def list_all_iff)
qed

text \<open>
  \<^bold>\<open>C4\<close>. For descriptors that pass \<open>serializePluginDescriptors\<close> and list no dependency
  twice, \<open>topoSortPlugins\<close> returns: either an order that contains every plugin exactly
  once with each plugin after all of its dependencies, or a
  \<open>PluginDependencyCycleError\<close> whose path really is a cycle of \<open>dependsOn\<close> edges.
\<close>

theorem topo_sort_correct:
  assumes "serializePluginDescriptors h ds = Inr ds'"
    and "list_all (\<lambda>d. distinct (deps_of d)) ds"
  shows "(\<exists>ordered. topoSortPlugins ds' = Some (Inr ordered) \<and>
            mset ordered = mset ds \<and> deps_before [] ordered) \<or>
         (\<exists>c. topoSortPlugins ds' = Some (Inl (PluginDependencyCycleError c)) \<and> dep_cycle ds c)"
proof -
  note wf = serialized_wf [OF assms]
  from topo_loop_returns [OF wf(2) kahn_inv_init [OF wf(2)]]
  obtain pend ordered where loop: "topo_loop (buildTopoState ds) (pendingDeps (buildTopoState ds))
      (initialReadyQueue ds (pendingDeps (buildTopoState ds))) [] = Some (pend, ordered)"
    and inv: "kahn_inv ds pend [] ordered" by blast
  show ?thesis
  proof (cases "length ordered = length ds")
    case True
    with loop complete_order [OF wf(2) inv True] inv wf(1) show ?thesis
      by (simp add: topoSortPlugins_def Let_def kahn_inv_def)
  next
    case False
    with loop findCycle_cycle [OF wf(2) inv False] wf(1) show ?thesis
      by (simp add: topoSortPlugins_def Let_def)
  qed
qed

definition plugin_named :: "string \<Rightarrow> string list \<Rightarrow> plugin_descriptor" where
  "plugin_named n ds =
     \<lparr>pd_name = n, workerSource = ''w'', guestSource = None, config = None, dependsOn = Some ds\<rparr>"

theorem topo_sort_correct_witness:
  "let ds = [plugin_named ''b'' [''a''], plugin_named ''a'' []] in
     (\<exists>ordered. topoSortPlugins ds = Some (Inr ordered) \<and>
        mset ordered = mset ds \<and> deps_before [] ordered) \<or>
     (\<exists>c. topoSortPlugins ds = Some (Inl (PluginDependencyCycleError c)) \<and> dep_cycle ds c)"
  unfolding Let_def
  by (rule topo_sort_correct [where h = "[]"])
    (simp_all add: plugin_named_def serializePluginDescriptors_def validateDescriptor_def
      validateDependsOn_def dep_edges_def deps_of_def)

lemma repeated_dependency_false_cycle:
  "topoSortPlugins [plugin_named ''a'' [], plugin_named ''b'' [''a'', ''a'']] =
     Some (Inl (PluginDependencyCycleError []))"
  by code_simp

end
