(* ===== verification/PluginRuntime.thy ===== *)
theory PluginRuntime
  imports PluginCompose
begin

text \<open>
  The plugin boot pipeline and the plugin hooks
  (\<open>packages/sandbox/src/plugin-runtime.ts\<close>, \<open>installWasiHooks\<close> of \<open>wasi.ts\<close> and
  \<open>runPluginBootPipeline\<close> of \<open>worker.ts\<close>).

  A plugin's own code (\<open>worker\<close>, its hooks, its guest source) is not part of the
  package: it is a function-valued argument. Hooks act on a state \<open>'s\<close> of the caller's
  choice (the emitted events, say) and may throw; a throw is the error message. The VM's
  global object is the list of its property names.
\<close>

section \<open>Setups\<close>

record guest_function =
  gf_name :: string
  gf_public :: bool

datatype wasi_slot = ClockTimeGet | RandomGet | FdWrite

record ('s, 'm) plugin_setup =
  exports :: "json option"
  guestFunctions :: "guest_function list option"
  wasiHooks :: "wasi_slot list"
  onBeforeRunStarted :: "('s \<Rightarrow> string option \<times> 's) option"
  onRunFinished :: "('s \<Rightarrow> string option \<times> 's) option"
  onPost :: "('m \<Rightarrow> string + 'm) option"

type_synonym deps_map = "(string, json) jsmap"

record ('s, 'm) loaded_plugin =
  lp_descriptor :: plugin_descriptor
  lp_name :: string
  lp_worker :: "deps_map \<Rightarrow> cfg_value option \<Rightarrow> string + ('s, 'm) plugin_setup option"

datatype phase = PhLoad | PhWorker | PhSourceEval | PhBefore | PhFinished | PhPost

fun phase_name :: "phase \<Rightarrow> string" where
  "phase_name PhLoad = ''load''"
| "phase_name PhWorker = ''worker''"
| "phase_name PhSourceEval = ''source-eval''"
| "phase_name PhBefore = ''onBeforeRunStarted''"
| "phase_name PhFinished = ''onRunFinished''"
| "phase_name PhPost = ''onPost''"

record annotated_error =
  ae_message :: string
  ae_plugin :: "string option"
  ae_phase :: "phase option"

definition annotatePluginError :: "string \<Rightarrow> phase \<Rightarrow> string \<Rightarrow> annotated_error" where
  "annotatePluginError pluginName ph msg =
     \<lparr>ae_message = ''plugin \"'' @ pluginName @ ''\" failed during '' @ phase_name ph @ '': '' @ msg,
      ae_plugin = Some pluginName, ae_phase = Some ph\<rparr>"

definition annotateLifecycleError :: "string \<Rightarrow> phase \<Rightarrow> string \<Rightarrow> annotated_error" where
  "annotateLifecycleError pluginName hook msg =
     \<lparr>ae_message = ''plugin \"'' @ pluginName @ ''\" threw in '' @ phase_name hook @ '': '' @ msg,
      ae_plugin = Some pluginName, ae_phase = Some hook\<rparr>"

section \<open>Boot phases\<close>

text \<open>
  Phase 0. The loads run concurrently: \<open>settled\<close> lists the descriptors in the order in
  which their loads settle, and \<open>Promise.all\<close> rejects with the first failure of that
  order.
\<close>

definition loadPluginModules ::
  "plugin_descriptor list \<Rightarrow> (plugin_descriptor \<Rightarrow> string + ('s, 'm) loaded_plugin)
     \<Rightarrow> plugin_descriptor list \<Rightarrow> annotated_error + ('s, 'm) loaded_plugin list" where
  "loadPluginModules descriptors loader settled =
     (case List.find (\<lambda>d. isl (loader d)) settled of
        Some d \<Rightarrow> Inl (annotatePluginError (pd_name d) PhLoad (projl (loader d)))
      | None \<Rightarrow>
          let loaded = map (\<lambda>d. (projr (loader d))\<lparr>lp_descriptor := d\<rparr>) descriptors
          in (case List.find (\<lambda>lp. lp_name lp \<noteq> pd_name (lp_descriptor lp)) loaded of
                Some lp \<Rightarrow> Inl \<lparr>ae_message = ''plugin \"'' @ pd_name (lp_descriptor lp) @
                    ''\" module exported a plugin with mismatching name \"'' @ lp_name lp @ ''\"'',
                    ae_plugin = None, ae_phase = None\<rparr>
              | None \<Rightarrow> Inr loaded))"

fun collect_deps :: "(string, json) jsmap \<Rightarrow> string list \<Rightarrow> deps_map \<Rightarrow> deps_map" where
  "collect_deps exportsByName [] deps = deps"
| "collect_deps exportsByName (n # ns) deps =
     collect_deps exportsByName ns
       (case map_get exportsByName n of None \<Rightarrow> deps | Some e \<Rightarrow> map_set n e deps)"

record ('s, 'm) phase1_result =
  setups :: "(string, ('s, 'm) plugin_setup) jsmap"
  order :: "string list"

fun run_workers ::
  "('s, 'm) loaded_plugin list \<Rightarrow> (string, ('s, 'm) plugin_setup) jsmap \<Rightarrow> string list
     \<Rightarrow> (string, json) jsmap \<Rightarrow> annotated_error + ('s, 'm) phase1_result" where
  "run_workers [] sts ord exps = Inr \<lparr>setups = sts, order = ord\<rparr>"
| "run_workers (lp # rest) sts ord exps =
     (let d = lp_descriptor lp
      in case lp_worker lp (collect_deps exps (deps_of d) []) (config d) of
           Inl msg \<Rightarrow> Inl (annotatePluginError (pd_name d) PhWorker msg)
         | Inr None \<Rightarrow> run_workers rest sts (ord @ [pd_name d]) exps
         | Inr (Some setup) \<Rightarrow>
             run_workers rest (map_set (pd_name d) setup sts) (ord @ [pd_name d])
               (case exports setup of None \<Rightarrow> exps | Some e \<Rightarrow> map_set (pd_name d) e exps))"

definition runPhaseWorker ::
  "('s, 'm) loaded_plugin list \<Rightarrow> annotated_error + ('s, 'm) phase1_result" where
  "runPhaseWorker loaded = run_workers loaded [] [] []"

text \<open>Phase 1b: WASI slots. A collision throws out of the pipeline.\<close>

fun installWasiHooks :: "wasi_slot list \<Rightarrow> wasi_slot list \<Rightarrow> wasi_slot + wasi_slot list" where
  \<comment> \<open>the populated slots, then the hooks of one setup in the order clock, random, fd\<close>
  "installWasiHooks slots [] = Inr slots"
| "installWasiHooks slots (h # hs) =
     (if h \<in> set slots then Inl h else installWasiHooks (h # slots) hs)"

fun slot_name :: "wasi_slot \<Rightarrow> string" where
  "slot_name ClockTimeGet = ''clockTimeGet''"
| "slot_name RandomGet = ''randomGet''"
| "slot_name FdWrite = ''fdWrite''"

definition ordered_hooks :: "wasi_slot list \<Rightarrow> wasi_slot list" where
  "ordered_hooks hs = filter (\<lambda>h. h \<in> set hs) [ClockTimeGet, RandomGet, FdWrite]"

fun install_all_wasi ::
  "('s, 'm) phase1_result \<Rightarrow> string list \<Rightarrow> wasi_slot list \<Rightarrow> wasi_slot + wasi_slot list" where
  "install_all_wasi p1 [] slots = Inr slots"
| "install_all_wasi p1 (n # ns) slots =
     (case map_get (setups p1) n of
        None \<Rightarrow> install_all_wasi p1 ns slots
      | Some setup \<Rightarrow>
          (case installWasiHooks slots (ordered_hooks (wasiHooks setup)) of
             Inl h \<Rightarrow> Inl h
           | Inr slots' \<Rightarrow> install_all_wasi p1 ns slots'))"

definition collectGuestFunctions ::
  "('s, 'm) phase1_result \<Rightarrow> (string \<times> guest_function) list" where
  "collectGuestFunctions p1 =
     concat (map (\<lambda>n. case map_get (setups p1) n of
        None \<Rightarrow> []
      | Some setup \<Rightarrow> (case guestFunctions setup of None \<Rightarrow> [] | Some gfs \<Rightarrow> map (Pair n) gfs))
       (order p1))"

text \<open>Phase 2: the evaluator may throw and changes the globals.\<close>

type_synonym source_evaluator = "string \<Rightarrow> string \<Rightarrow> string list \<Rightarrow> string + string list"

fun eval_sources ::
  "(string, plugin_descriptor) jsmap \<Rightarrow> source_evaluator \<Rightarrow> string list \<Rightarrow> string list
     \<Rightarrow> annotated_error + string list" where
  "eval_sources by_name ev [] globals = Inr globals"
| "eval_sources by_name ev (n # ns) globals =
     (case Option.bind (map_get by_name n) guestSource of
        None \<Rightarrow> eval_sources by_name ev ns globals
      | Some src \<Rightarrow>
          (case ev src (''<plugin:'' @ n @ ''>'') globals of
             Inl msg \<Rightarrow> Inl (annotatePluginError n PhSourceEval msg)
           | Inr globals' \<Rightarrow> eval_sources by_name ev ns globals'))"

definition runPhaseSourceEval ::
  "('s, 'm) phase1_result \<Rightarrow> plugin_descriptor list \<Rightarrow> source_evaluator \<Rightarrow> string list
     \<Rightarrow> annotated_error + string list" where
  "runPhaseSourceEval p1 descriptors ev globals =
     eval_sources (foldl (\<lambda>m d. map_set (pd_name d) d m) [] descriptors) ev (order p1) globals"

text \<open>Phase 3: \<open>delete\<close> removes a global; it returns the deleted names.\<close>

definition private_names :: "('s, 'm) phase1_result \<Rightarrow> string list" where
  "private_names p1 =
     map (gf_name \<circ> snd) (filter (\<lambda>e. \<not> gf_public (snd e)) (collectGuestFunctions p1))"

fun delete_all :: "string list \<Rightarrow> string list \<Rightarrow> string list" where
  "delete_all [] globals = globals"
| "delete_all (n # ns) globals = delete_all ns (removeAll n globals)"

definition runPhasePrivateDelete ::
  "('s, 'm) phase1_result \<Rightarrow> string list \<Rightarrow> string list \<times> string list" where
  "runPhasePrivateDelete p1 globals = (delete_all (private_names p1) globals, private_names p1)"

definition install_descriptors :: "(string \<times> guest_function) list \<Rightarrow> string list \<Rightarrow> string list" where
  "install_descriptors gfs globals =
     foldl (\<lambda>g e. if gf_name (snd e) \<in> set g then g else g @ [gf_name (snd e)]) globals gfs"

record ('s, 'm) boot_result =
  pluginLifecycle :: "('s, 'm) phase1_result"
  bootGuestFunctions :: "(string \<times> guest_function) list"
  bootGlobals :: "string list"

definition runPluginBootPipeline ::
  "plugin_descriptor list \<Rightarrow> (plugin_descriptor \<Rightarrow> string + ('s, 'm) loaded_plugin)
     \<Rightarrow> plugin_descriptor list \<Rightarrow> source_evaluator \<Rightarrow> string list
     \<Rightarrow> annotated_error + ('s, 'm) boot_result" where
  "runPluginBootPipeline descriptors loader settled ev globals =
     (case loadPluginModules descriptors loader settled of
        Inl err \<Rightarrow> Inl err
      | Inr loaded \<Rightarrow>
      (case runPhaseWorker loaded of
         Inl err \<Rightarrow> Inl err
       | Inr p1 \<Rightarrow>
       (case install_all_wasi p1 (order p1) [] of
          Inl h \<Rightarrow> Inl \<lparr>ae_message = ''multiple plugins registered a wasi hook for \"'' @ slot_name h @
              ''\" - only one is allowed'', ae_plugin = None, ae_phase = None\<rparr>
        | Inr _ \<Rightarrow>
            let gfs = collectGuestFunctions p1;
                installed = install_descriptors gfs globals
            in (case runPhaseSourceEval p1 descriptors ev installed of
                  Inl err \<Rightarrow> Inl err
                | Inr evaluated \<Rightarrow>
                    Inr \<lparr>pluginLifecycle = p1, bootGuestFunctions = gfs,
                         bootGlobals = fst (runPhasePrivateDelete p1 evaluated)\<rparr>))))"

section \<open>Run hooks\<close>

fun runOnBeforeRunStarted ::
  "(string, ('s, 'm) plugin_setup) jsmap \<Rightarrow> string list \<Rightarrow> 's \<Rightarrow> annotated_error option \<times> 's" where
  "runOnBeforeRunStarted sts [] s = (None, s)"
| "runOnBeforeRunStarted sts (n # ns) s =
     (case Option.bind (map_get sts n) onBeforeRunStarted of
        None \<Rightarrow> runOnBeforeRunStarted sts ns s
      | Some hook \<Rightarrow>
          (case hook s of
             (Some msg, s') \<Rightarrow> (Some (annotateLifecycleError n PhBefore msg), s')
           | (None, s') \<Rightarrow> runOnBeforeRunStarted sts ns s'))"

fun finish_hooks ::
  "(string, ('s, 'm) plugin_setup) jsmap \<Rightarrow> (string \<Rightarrow> 's \<Rightarrow> 's) \<Rightarrow> string list \<Rightarrow> 's
     \<Rightarrow> annotated_error list \<times> 's" where
  "finish_hooks sts warn [] s = ([], s)"
| "finish_hooks sts warn (n # ns) s =
     (case Option.bind (map_get sts n) onRunFinished of
        None \<Rightarrow> finish_hooks sts warn ns s
      | Some hook \<Rightarrow>
          (case hook s of
             (None, s') \<Rightarrow> finish_hooks sts warn ns s'
           | (Some msg, s') \<Rightarrow>
               (case finish_hooks sts warn ns (warn n s') of (errs, s'') \<Rightarrow>
                  (annotateLifecycleError n PhFinished msg # errs, s''))))"

definition runOnRunFinished ::
  "(string, ('s, 'm) plugin_setup) jsmap \<Rightarrow> string list \<Rightarrow> (string \<Rightarrow> 's \<Rightarrow> 's) \<Rightarrow> 's
     \<Rightarrow> annotated_error list \<times> 's" where
  \<comment> \<open>\<open>for (let i = order.length - 1; i >= 0; i--)\<close>\<close>
  "runOnRunFinished sts ord warn s = finish_hooks sts warn (rev ord) s"

fun runOnPost ::
  "(string, ('s, 'm) plugin_setup) jsmap \<Rightarrow> string list \<Rightarrow> 'm \<Rightarrow> 'm \<times> annotated_error list" where
  "runOnPost sts [] msg = (msg, [])"
| "runOnPost sts (n # ns) msg =
     (case Option.bind (map_get sts n) onPost of
        None \<Rightarrow> runOnPost sts ns msg
      | Some hook \<Rightarrow>
          (case hook msg of
             Inl e \<Rightarrow>
               (case runOnPost sts ns msg of (m, errs) \<Rightarrow>
                  (m, annotateLifecycleError n PhPost e # errs))
           | Inr msg' \<Rightarrow> runOnPost sts ns msg'))"

section \<open>Lemmas on the phases\<close>

abbreviation plugin_id :: "('s, 'm) loaded_plugin \<Rightarrow> string" where
  "plugin_id lp \<equiv> pd_name (lp_descriptor lp)"

definition exports_of :: "(string, ('s, 'm) plugin_setup) jsmap \<Rightarrow> string \<Rightarrow> json option" where
  "exports_of sts n = Option.bind (map_get sts n) exports"

lemma collect_deps_get:
  "map_get (collect_deps exps ns deps) n =
     (if n \<in> set ns \<and> map_get exps n \<noteq> None then map_get exps n else map_get deps n)"
  by (induction exps ns deps rule: collect_deps.induct) (auto split: option.splits)

lemma run_workers_order:
  "run_workers loaded sts ord exps = Inr p1 \<Longrightarrow>
     order p1 = ord @ map plugin_id loaded"
  by (induction loaded sts ord exps rule: run_workers.induct)
    (auto simp: Let_def split: sum.splits option.splits)

lemma run_workers_keeps:
  "run_workers loaded sts ord exps = Inr p1 \<Longrightarrow> n \<notin> set (map plugin_id loaded) \<Longrightarrow>
     map_get (setups p1) n = map_get sts n"
proof (induction loaded arbitrary: sts ord exps)
  case (Cons lp loaded)
  obtain res where res: "lp_worker lp (collect_deps exps (deps_of (lp_descriptor lp)) [])
      (config (lp_descriptor lp)) = Inr res"
    using Cons.prems(1) by (auto simp: Let_def split: sum.splits)
  show ?case
  proof (cases res)
    case None
    with res Cons.prems Cons.IH show ?thesis by (auto simp: Let_def)
  next
    case (Some x)
    with res Cons.prems(1) obtain ord' exps' where
      "run_workers loaded (map_set (plugin_id lp) x sts) ord' exps' = Inr p1"
      by (auto simp: Let_def)
    from Cons.IH [OF this] Cons.prems(2) show ?thesis by simp
  qed
qed auto

definition worker_served :: "('s, 'm) phase1_result \<Rightarrow> ('s, 'm) loaded_plugin \<Rightarrow> bool" where
  \<comment> \<open>the plugin ran with exactly the exports of its declared dependencies, and the
      phase result records its setup\<close>
  "worker_served p1 lp \<longleftrightarrow>
     (\<exists>deps. lp_worker lp deps (config (lp_descriptor lp)) =
               Inr (map_get (setups p1) (pd_name (lp_descriptor lp))) \<and>
             (\<forall>n. map_get deps n =
               (if n \<in> set (deps_of (lp_descriptor lp)) then exports_of (setups p1) n else None)))"

lemma run_workers_deps:
  assumes "run_workers loaded sts ord exps = Inr p1"
    and "distinct (map plugin_id loaded)"
    and "\<And>n. map_get exps n = exports_of sts n"
    and "deps_before seen (map lp_descriptor loaded)"
    and "set seen \<inter> set (map plugin_id loaded) = {}"
    and "\<And>n. n \<in> set (map plugin_id loaded) \<Longrightarrow> map_get sts n = None"
  shows "list_all (worker_served p1) loaded"
  using assms
proof (induction loaded arbitrary: sts ord exps seen)
  case (Cons lp loaded)
  let ?d = "lp_descriptor lp"
  let ?deps = "collect_deps exps (deps_of ?d) []"
  have seen': "deps_before (pd_name ?d # seen) (map lp_descriptor loaded)"
    "set (pd_name ?d # seen) \<inter> set (map plugin_id loaded) = {}"
    "distinct (map plugin_id loaded)"
    using Cons.prems by auto
  have final: "exports_of (setups p1) n = exports_of sts n" if "n \<in> set (deps_of ?d)" for n
  proof -
    have "n \<notin> set (map plugin_id (lp # loaded))"
      using that Cons.prems(4,5) by auto
    from run_workers_keeps [OF Cons.prems(1) this] show ?thesis by (simp add: exports_of_def)
  qed
  have fresh: "map_get sts (pd_name ?d) = None" using Cons.prems(6) by simp
  obtain stp where stp: "lp_worker lp ?deps (config ?d) = Inr stp"
    using Cons.prems(1) by (auto simp: Let_def split: sum.splits)
  define sts' where "sts' = (case stp of None \<Rightarrow> sts | Some x \<Rightarrow> map_set (pd_name ?d) x sts)"
  define exps' where "exps' = (case Option.bind stp exports of None \<Rightarrow> exps | Some e \<Rightarrow> map_set (pd_name ?d) e exps)"
  have rest: "run_workers loaded sts' (ord @ [pd_name ?d]) exps' = Inr p1"
    using Cons.prems(1) stp
    by (auto simp: Let_def sts'_def exps'_def split: option.splits)
  have get: "map_get sts' (pd_name ?d) = stp"
    using fresh by (simp add: sts'_def split: option.splits)
  have exps': "map_get exps' n = exports_of sts' n" for n
    using Cons.prems(3) fresh
    by (auto simp: sts'_def exps'_def exports_of_def split: option.splits)
  have none: "map_get sts' n = None" if "n \<in> set (map plugin_id loaded)" for n
  proof -
    have "pd_name ?d \<notin> set (map plugin_id loaded)" using Cons.prems(2) by simp
    with that have "n \<noteq> pd_name ?d" by blast
    with that Cons.prems(6) [of n] show ?thesis by (auto simp: sts'_def split: option.splits)
  qed
  have "map_get (setups p1) (pd_name ?d) = stp"
    using run_workers_keeps [OF rest, of "pd_name ?d"] get Cons.prems(2) by auto
  then have "worker_served p1 lp"
    using stp final Cons.prems(3) unfolding worker_served_def
    by (intro exI [of _ ?deps]) (auto simp: collect_deps_get)
  with Cons.IH [OF rest seen'(3) exps' seen'(1,2) none] show ?case by simp
qed simp

lemma delete_all_set: "set (delete_all ns globals) = set globals - set ns"
  by (induction ns globals rule: delete_all.induct) auto

section \<open>Properties\<close>

text \<open>
  Phase 1 in dependency order: when the loaded plugins have distinct names and
  each stands after its dependencies, as \<open>topoSortPlugins\<close> arranges them, a successful
  \<open>runPhaseWorker\<close> runs every \<open>worker\<close> once in that order with exactly the exports of
  its declared dependencies, and records the stp it returned.
\<close>

lemma phase1_supplies_dependencies:
  assumes "runPhaseWorker loaded = Inr p1"
    and "distinct (map plugin_id loaded)"
    and "deps_before [] (map lp_descriptor loaded)"
  shows "order p1 = map plugin_id loaded \<and> list_all (worker_served p1) loaded"
proof
  show "order p1 = map plugin_id loaded"
    using run_workers_order [OF assms(1) [unfolded runPhaseWorker_def]] by simp
  show "list_all (worker_served p1) loaded"
    using assms by (intro run_workers_deps) (auto simp: runPhaseWorker_def exports_of_def)
qed

definition exporting :: "string \<Rightarrow> string list \<Rightarrow> json \<Rightarrow> (unit, unit) loaded_plugin" where
  "exporting n ds e =
     \<lparr>lp_descriptor = plugin_named n ds, lp_name = n,
      lp_worker = (\<lambda>deps cfg. Inr (Some
        \<lparr>exports = Some e, guestFunctions = Some [\<lparr>gf_name = n, gf_public = False\<rparr>],
         wasiHooks = [], onBeforeRunStarted = None, onRunFinished = None, onPost = None\<rparr>))\<rparr>"

lemma phase1_supplies_dependencies_witness:
  "let loaded = [exporting ''a'' [] JNull, exporting ''b'' [''a''] (JNum 1)]
   in order (projr (runPhaseWorker loaded)) = [''a'', ''b''] \<and>
      list_all (worker_served (projr (runPhaseWorker loaded))) loaded"
proof -
  let ?loaded = "[exporting ''a'' [] JNull, exporting ''b'' [''a''] (JNum 1)]"
  have "\<exists>p1. runPhaseWorker ?loaded = Inr p1"
    by (simp add: runPhaseWorker_def exporting_def plugin_named_def Let_def)
  then have r: "runPhaseWorker ?loaded = Inr (projr (runPhaseWorker ?loaded))" by auto
  from phase1_supplies_dependencies [OF r] show ?thesis
    by (simp add: exporting_def plugin_named_def deps_of_def)
qed

text \<open>
  Private guest functions are unreachable from user code: whatever the plugins'
  guest sources do to the global object, after a successful boot no global carries the
  name of a guest function that was registered without \<open>public: true\<close>.
\<close>

lemma private_functions_unreachable:
  assumes "runPluginBootPipeline descriptors loader settled ev globals = Inr boot"
    and "(pluginName, gf) \<in> set (bootGuestFunctions boot)" and "\<not> gf_public gf"
  shows "gf_name gf \<notin> set (bootGlobals boot)"
  using assms
  by (auto simp: runPluginBootPipeline_def runPhasePrivateDelete_def private_names_def
      delete_all_set Let_def split: sum.splits intro!: image_eqI [where x = "(pluginName, gf)"])

definition boot_example :: "annotated_error + (unit, unit) boot_result" where
  "boot_example =
     runPluginBootPipeline [plugin_named ''a'' []] (\<lambda>d. Inr (exporting (pd_name d) [] JNull))
       [plugin_named ''a'' []] (\<lambda>src filename globals. Inr globals) [''console'']"

lemma private_functions_unreachable_witness:
  "boot_example = Inr (projr boot_example) \<and>
   set (bootGuestFunctions (projr boot_example)) = {(''a'', \<lparr>gf_name = ''a'', gf_public = False\<rparr>)} \<and>
   ''a'' \<notin> set (bootGlobals (projr boot_example))"
proof -
  have ok: "boot_example = Inr (projr boot_example)"
    and gfs: "bootGuestFunctions (projr boot_example) = [(''a'', \<lparr>gf_name = ''a'', gf_public = False\<rparr>)]"
    by (simp_all add: boot_example_def runPluginBootPipeline_def loadPluginModules_def
        runPhaseWorker_def exporting_def plugin_named_def deps_of_def collectGuestFunctions_def
        ordered_hooks_def runPhaseSourceEval_def Let_def)
  have "gf_name \<lparr>gf_name = ''a'', gf_public = False\<rparr> \<notin> set (bootGlobals (projr boot_example))"
    using private_functions_unreachable
      [OF ok [unfolded boot_example_def], folded boot_example_def, of "''a''"] gfs by simp
  with ok gfs show ?thesis by simp
qed

text \<open>
  Nothing between \<open>serializePluginDescriptors\<close> and \<open>runPhaseWorker\<close> sorts the
  descriptors: they reach phase 1 in the caller's order, and a plugin listed before its
  dependency runs without that dependency's exports.
\<close>

lemma unsorted_plugins_lose_dependencies:
  "serializePluginDescriptors [] (map lp_descriptor
     [exporting ''b'' [''a''] (JNum 1), exporting ''a'' [] JNull]) =
   Inr (map lp_descriptor [exporting ''b'' [''a''] (JNum 1), exporting ''a'' [] JNull]) \<and>
   collect_deps [] (deps_of (lp_descriptor (exporting ''b'' [''a''] (JNum 1)))) [] = []"
  by (simp add: exporting_def plugin_named_def serializePluginDescriptors_def
      validateDescriptor_def validateDependsOn_def dep_edges_def deps_of_def)

end
