(* ===== verification/SandboxStore.thy ===== *)
theory SandboxStore
  imports PluginRuntime
begin

text \<open>
  The cache of sandboxes (\<open>packages/runtime/src/sandbox-store.ts\<close>): one sandbox per
  (owner, workflow sha), at most \<open>maxCount\<close> of them, evicted in least-recently-used
  order.

  The \<open>Map\<close> keeps insertion order, so its head is the least recently used entry. An
  entry has an identity \<open>ent\<close> (the object itself, which the code compares with \<open>===\<close>);
  its sandbox, once built, is named by the same number, and \<open>busy\<close> tells which sandboxes
  report \<open>isActive\<close>. Building a sandbox is asynchronous: \<open>build_done\<close>, \<open>build_failed\<close>
  and \<open>terminated\<close> are the callbacks. Disposal calls are collected in \<open>disposals\<close>.
\<close>

section \<open>The runtime's plugin list\<close>

definition plugin_entry ::
  "(string \<Rightarrow> string) \<Rightarrow> (string \<Rightarrow> string option) \<Rightarrow> string \<Rightarrow> string list option \<Rightarrow> cfg_value option
     \<Rightarrow> plugin_descriptor" where
  \<comment> \<open>the bundled worker and guest sources are produced by the build\<close>
  "plugin_entry src gsrc n ds cfg =
     \<lparr>pd_name = n, workerSource = src n, guestSource = gsrc n, config = cfg, dependsOn = ds\<rparr>"

definition buildPluginDescriptors ::
  "(string \<Rightarrow> string) \<Rightarrow> (string \<Rightarrow> string option) \<Rightarrow> cfg_value \<Rightarrow> cfg_value \<Rightarrow> plugin_descriptor list" where
  "buildPluginDescriptors src gsrc secretsConfig hostCallActionConfig =
     [plugin_entry src gsrc ''wasi'' None None,
      plugin_entry src gsrc ''wasi-telemetry'' (Some [''wasi'']) None,
      plugin_entry src gsrc ''secrets'' None (Some secretsConfig),
      plugin_entry src gsrc ''web-platform'' None None,
      plugin_entry src gsrc ''fetch'' (Some [''web-platform'']) None,
      plugin_entry src gsrc ''mail'' (Some [''web-platform'']) None,
      plugin_entry src gsrc ''sql'' (Some [''web-platform'']) None,
      plugin_entry src gsrc ''queue'' (Some [''web-platform'']) None,
      plugin_entry src gsrc ''timers'' None None,
      plugin_entry src gsrc ''console'' None None,
      plugin_entry src gsrc ''host-call-action'' (Some []) (Some hostCallActionConfig),
      plugin_entry src gsrc ''action-dispatch'' (Some [''host-call-action'']) None,
      plugin_entry src gsrc ''trigger'' None None]"

section \<open>The cache\<close>

definition storeKey :: "string \<Rightarrow> string \<Rightarrow> string" where
  "storeKey owner sha = owner @ ''/'' @ sha"

record cache_entry =
  ent :: nat
  ent_key :: string
  ent_owner :: string
  ent_sha :: string
  built :: bool
  runCount :: nat

datatype evict_reason = Lru | StoreDispose | LimitReason | CrashReason

record sandbox_cache =
  cache :: "(string, cache_entry) jsmap"
  next_ent :: nat
  disposals :: "nat list"
  evict_log :: "(nat \<times> evict_reason) list"

definition createSandboxStore :: sandbox_cache where
  "createSandboxStore = \<lparr>cache = [], next_ent = 0, disposals = [], evict_log = []\<rparr>"

definition disposeEntry :: "sandbox_cache \<Rightarrow> cache_entry \<Rightarrow> sandbox_cache" where
  "disposeEntry st e = (if \<not> built e then st else st\<lparr>disposals := disposals st @ [ent e]\<rparr>)"

fun pick_victims :: "nat \<Rightarrow> (nat \<Rightarrow> bool) \<Rightarrow> nat \<Rightarrow> cache_entry list \<Rightarrow> cache_entry list" where
  "pick_victims maxCount busy remaining [] = []"
| "pick_victims maxCount busy remaining (e # es) =
     (if remaining \<le> maxCount then []
      else if \<not> built e then pick_victims maxCount busy remaining es
      else if busy (ent e) then pick_victims maxCount busy remaining es
      else e # pick_victims maxCount busy (remaining - 1) es)"

fun evict_all :: "sandbox_cache \<Rightarrow> cache_entry list \<Rightarrow> sandbox_cache" where
  "evict_all st [] = st"
| "evict_all st (victim # victims) =
     evict_all
       (disposeEntry
         (st\<lparr>cache := map_delete (ent_key victim) (cache st),
             evict_log := evict_log st @ [(ent victim, Lru)]\<rparr>) victim) victims"

definition sweep :: "nat \<Rightarrow> (nat \<Rightarrow> bool) \<Rightarrow> sandbox_cache \<Rightarrow> sandbox_cache" where
  "sweep maxCount busy st =
     (if length (cache st) \<le> maxCount then st
      else evict_all st (pick_victims maxCount busy (length (cache st)) (vals (cache st))))"

definition get_sandbox ::
  "nat \<Rightarrow> (nat \<Rightarrow> bool) \<Rightarrow> sandbox_cache \<Rightarrow> string \<Rightarrow> string \<Rightarrow> sandbox_cache \<times> nat" where
  \<comment> \<open>the entry whose promise is returned\<close>
  "get_sandbox maxCount busy st owner sha =
     (let key = storeKey owner sha
      in case map_get (cache st) key of
           Some existing \<Rightarrow>
             (st\<lparr>cache := map_set key (existing\<lparr>runCount := Suc (runCount existing)\<rparr>)
                (map_delete key (cache st))\<rparr>, ent existing)
         | None \<Rightarrow>
             let entry = \<lparr>ent = next_ent st, ent_key = key, ent_owner = owner, ent_sha = sha,
                          built = False, runCount = 1\<rparr>
             in (sweep maxCount busy
                   (st\<lparr>cache := map_set key entry (cache st), next_ent := Suc (next_ent st)\<rparr>),
                 next_ent st))"

definition owns :: "sandbox_cache \<Rightarrow> string \<Rightarrow> nat \<Rightarrow> bool" where
  \<comment> \<open>\<open>cache.get(key) === entry\<close>\<close>
  "owns st key i = (case map_get (cache st) key of None \<Rightarrow> False | Some e \<Rightarrow> ent e = i)"

definition build_done :: "sandbox_cache \<Rightarrow> string \<Rightarrow> nat \<Rightarrow> sandbox_cache" where
  "build_done st key i =
     (if owns st key i
      then st\<lparr>cache := map_set key ((the (map_get (cache st) key))\<lparr>built := True\<rparr>) (cache st)\<rparr>
      else st)"

definition build_failed :: "sandbox_cache \<Rightarrow> string \<Rightarrow> nat \<Rightarrow> sandbox_cache" where
  "build_failed st key i =
     (if owns st key i then st\<lparr>cache := map_delete key (cache st)\<rparr> else st)"

definition terminated :: "sandbox_cache \<Rightarrow> string \<Rightarrow> nat \<Rightarrow> bool \<Rightarrow> sandbox_cache" where
  \<comment> \<open>\<open>sb.onTerminated\<close>; \<open>limit\<close> is \<open>cause.kind === "limit"\<close>\<close>
  "terminated st key i limit =
     (if owns st key i then st\<lparr>cache := map_delete key (cache st)\<rparr> else st)
       \<lparr>evict_log := evict_log st @ [(i, if limit then LimitReason else CrashReason)]\<rparr>"

definition dispose_store :: "sandbox_cache \<Rightarrow> sandbox_cache" where
  \<comment> \<open>after the drain poll and once the builds in flight have settled: every entry whose
      build succeeded is disposed\<close>
  "dispose_store st = foldl disposeEntry (st\<lparr>cache := []\<rparr>) (vals (cache st))"

definition DRAIN_TIMEOUT_MS :: int where "DRAIN_TIMEOUT_MS = 10000"

definition DRAIN_POLL_MS :: int where "DRAIN_POLL_MS = 25"

definition any_active :: "sandbox_cache \<Rightarrow> (nat \<Rightarrow> bool) \<Rightarrow> bool" where
  "any_active st busy = list_ex (\<lambda>e. built e \<and> busy (ent e)) (vals (cache st))"

fun drain_poll :: "int \<Rightarrow> (int \<times> sandbox_cache \<times> (nat \<Rightarrow> bool)) list \<Rightarrow> sandbox_cache option" where
  \<comment> \<open>the polls of \<open>dispose\<close>, each with the clock, the cache and the busy sandboxes it finds; the result
      is the store after disposal, \<open>None\<close> while the loop still waits\<close>
  "drain_poll drainDeadline [] = None"
| "drain_poll drainDeadline ((now, st, busy) # polls) =
     (if now < drainDeadline \<and> any_active st busy then drain_poll drainDeadline polls else Some (dispose_store st))"

section \<open>The cache as a state machine\<close>

datatype cache_op =
    OpGet string string "nat \<Rightarrow> bool"
  | OpBuilt string nat
  | OpBuildFailed string nat
  | OpTerminated string nat bool

fun cache_step :: "nat \<Rightarrow> sandbox_cache \<Rightarrow> cache_op \<Rightarrow> sandbox_cache" where
  "cache_step maxCount st (OpGet owner sha busy) = fst (get_sandbox maxCount busy st owner sha)"
| "cache_step maxCount st (OpBuilt key i) = build_done st key i"
| "cache_step maxCount st (OpBuildFailed key i) = build_failed st key i"
| "cache_step maxCount st (OpTerminated key i limit) = terminated st key i limit"

abbreviation cache_ops :: "nat \<Rightarrow> sandbox_cache \<Rightarrow> cache_op list \<Rightarrow> sandbox_cache" where
  "cache_ops maxCount st ops \<equiv> foldl (cache_step maxCount) st ops"

section \<open>Well-formed caches\<close>

definition cache_inv :: "sandbox_cache \<Rightarrow> bool" where
  "cache_inv st \<longleftrightarrow>
     distinct (keys (cache st)) \<and> distinct (map ent (vals (cache st))) \<and>
     (\<forall>p\<in>set (cache st). fst p = ent_key (snd p) \<and>
        ent_key (snd p) = storeKey (ent_owner (snd p)) (ent_sha (snd p)) \<and> ent (snd p) < next_ent st)"

definition idle :: "(nat \<Rightarrow> bool) \<Rightarrow> cache_entry \<Rightarrow> bool" where
  "idle busy e \<longleftrightarrow> built e \<and> \<not> busy (ent e)"

lemma pick_victims_Cons:
  "pick_victims maxCount busy r (e # es) =
     (if r \<le> maxCount then []
      else if idle busy e then e # pick_victims maxCount busy (r - 1) es
      else pick_victims maxCount busy r es)"
  by (simp add: idle_def)

lemma victims_prefix:
  "\<exists>n. pick_victims maxCount busy r es = filter (idle busy) (take n es) \<and>
     (length es \<le> n \<or> r - length (filter (idle busy) (take n es)) \<le> maxCount) \<and>
     length (filter (idle busy) (take n es)) \<le> r - maxCount"
proof (induction es arbitrary: r)
  case (Cons e es)
  show ?case
  proof (cases "r \<le> maxCount")
    case True
    then show ?thesis by (intro exI [of _ 0]) simp
  next
    case False
    let ?r = "if idle busy e then r - 1 else r"
    from Cons.IH [of ?r] obtain n where
      n: "pick_victims maxCount busy ?r es = filter (idle busy) (take n es)"
      "length es \<le> n \<or> ?r - length (filter (idle busy) (take n es)) \<le> maxCount"
      "length (filter (idle busy) (take n es)) \<le> ?r - maxCount" by blast
    with False show ?thesis
      by (intro exI [of _ "Suc n"], cases "idle busy e")
        (auto simp: pick_victims_Cons simp del: pick_victims.simps)
  qed
qed simp

lemma evict_all_cache:
  "cache (evict_all st vs) = filter (\<lambda>p. fst p \<notin> ent_key ` set vs) (cache st) \<and>
   next_ent (evict_all st vs) = next_ent st"
  by (induction st vs rule: evict_all.induct)
    (auto simp: disposeEntry_def map_delete_filter intro!: filter_cong)

lemma evict_all_disposals:
  "list_all built vs \<Longrightarrow> disposals (evict_all st vs) = disposals st @ map ent vs"
  by (induction st vs rule: evict_all.induct) (auto simp: disposeEntry_def)

lemma cache_keys:
  assumes "cache_inv st" and "X \<subseteq> set (vals (cache st))" and "p \<in> set (cache st)"
  shows "fst p \<in> ent_key ` X \<longleftrightarrow> snd p \<in> X"
proof
  assume "fst p \<in> ent_key ` X"
  then obtain e where e: "e \<in> X" "fst p = ent_key e" by auto
  then obtain q where q: "q \<in> set (cache st)" "e = snd q" using assms(2) by auto
  then have "fst q = fst p" using assms(1) e(2) by (auto simp: cache_inv_def)
  then have "p = q"
    using assms(1,3) q(1) by (auto simp: cache_inv_def distinct_map inj_on_def)
  with e(1) q(2) show "snd p \<in> X" by simp
next
  assume "snd p \<in> X"
  moreover have "fst p = ent_key (snd p)" using assms(1,3) by (auto simp: cache_inv_def)
  ultimately show "fst p \<in> ent_key ` X" by blast
qed

lemma filter_prefix:
  assumes "distinct xs"
  shows "filter (\<lambda>x. x \<notin> set (filter P (take n xs))) xs = filter (\<lambda>x. \<not> P x) (take n xs) @ drop n xs"
proof -
  have d: "set (take n xs) \<inter> set (drop n xs) = {}"
    using assms by (metis append_take_drop_id distinct_append)
  let ?Q = "\<lambda>x. x \<notin> set (filter P (take n xs))"
  have "filter ?Q (take n xs) = filter (\<lambda>x. \<not> P x) (take n xs)"
    by (intro filter_cong) auto
  moreover have "filter ?Q (drop n xs) = drop n xs"
    using d by (auto simp: filter_id_conv)
  ultimately show ?thesis by (metis append_take_drop_id filter_append)
qed

lemma sweep_cache:
  assumes inv: "cache_inv st"
  shows "\<exists>n. cache (sweep maxCount busy st) =
      filter (\<lambda>p. \<not> idle busy (snd p)) (take n (cache st)) @ drop n (cache st) \<and>
    disposals (sweep maxCount busy st) = disposals st @ map ent (filter (idle busy) (take n (vals (cache st)))) \<and>
    (length (cache st) \<le> n \<or> length (cache (sweep maxCount busy st)) \<le> maxCount) \<and>
    min maxCount (length (cache st)) \<le> length (cache (sweep maxCount busy st)) \<and>
    next_ent (sweep maxCount busy st) = next_ent st"
proof (cases "length (cache st) \<le> maxCount")
  case True
  then show ?thesis by (intro exI [of _ 0]) (simp add: sweep_def)
next
  case False
  let ?vs = "vals (cache st)"
  obtain n where n: "pick_victims maxCount busy (length (cache st)) ?vs = filter (idle busy) (take n ?vs)"
    "length ?vs \<le> n \<or> length (cache st) - length (filter (idle busy) (take n ?vs)) \<le> maxCount"
    "length (filter (idle busy) (take n ?vs)) \<le> length (cache st) - maxCount"
    using victims_prefix [of maxCount busy "length (cache st)" ?vs] by blast
  let ?P = "\<lambda>p. idle busy (snd p)"
  have vic: "filter (idle busy) (take n ?vs) = map snd (filter ?P (take n (cache st)))"
    by (simp add: take_map filter_map comp_def)
  have dist: "distinct (cache st)" using inv by (simp add: cache_inv_def distinct_map)
  have sub: "set (filter (idle busy) (take n ?vs)) \<subseteq> set ?vs"
    using in_set_takeD by fastforce
  have snd_inj: "p = q" if "p \<in> set (cache st)" "q \<in> set (cache st)" "snd p = snd q" for p q
    using that inv by (auto simp: cache_inv_def prod_eq_iff)
  have "cache (sweep maxCount busy st) =
      filter (\<lambda>p. fst p \<notin> ent_key ` set (filter (idle busy) (take n ?vs))) (cache st)"
    using False n(1) evict_all_cache [of st "filter (idle busy) (take n ?vs)"] by (simp add: sweep_def)
  also have "\<dots> = filter (\<lambda>p. p \<notin> set (filter ?P (take n (cache st)))) (cache st)"
  proof (intro filter_cong refl)
    fix p assume p: "p \<in> set (cache st)"
    have "snd p \<in> set (filter (idle busy) (take n ?vs)) \<longleftrightarrow> p \<in> set (filter ?P (take n (cache st)))"
    proof -
      have "set (filter ?P (take n (cache st))) \<subseteq> set (cache st)"
        by (auto dest: in_set_takeD)
      then show ?thesis unfolding vic set_map using snd_inj p by blast
    qed
    then show "(fst p \<notin> ent_key ` set (filter (idle busy) (take n ?vs))) =
        (p \<notin> set (filter ?P (take n (cache st))))"
      using cache_keys [OF inv sub p] by simp
  qed
  also have "\<dots> = filter (\<lambda>p. \<not> ?P p) (take n (cache st)) @ drop n (cache st)"
    by (rule filter_prefix [OF dist])
  finally have c: "cache (sweep maxCount busy st) =
      filter (\<lambda>p. \<not> ?P p) (take n (cache st)) @ drop n (cache st)" .
  have "length (filter ?P (take n (cache st))) + length (filter (\<lambda>p. \<not> ?P p) (take n (cache st))) =
      length (take n (cache st))" by (rule sum_length_filter_compl)
  then have len: "length (cache (sweep maxCount busy st)) =
      length (cache st) - length (filter (idle busy) (take n ?vs))"
    unfolding c vic by simp
  have "list_all built (filter (idle busy) (take n ?vs))" by (auto simp: list_all_iff idle_def)
  from evict_all_disposals [OF this, of st] False n(1)
  have "disposals (sweep maxCount busy st) = disposals st @ map ent (filter (idle busy) (take n ?vs))"
    by (simp add: sweep_def)
  moreover have "next_ent (sweep maxCount busy st) = next_ent st"
    using False n(1) evict_all_cache by (simp add: sweep_def)
  ultimately show ?thesis using c len n(2,3) False by (intro exI [of _ n]) auto
qed

lemma cache_inv_subset:
  assumes "cache_inv st" and "distinct (keys c)" and "distinct (map ent (vals c))"
    and "set c \<subseteq> set (cache st)" and "next_ent st' = next_ent st" and "cache st' = c"
  shows "cache_inv st'"
  using assms by (auto simp: cache_inv_def)

lemma sweep_inv:
  assumes "cache_inv st"
  shows "cache_inv (sweep maxCount busy st)"
proof -
  obtain n where n: "cache (sweep maxCount busy st) =
      filter (\<lambda>p. \<not> idle busy (snd p)) (take n (cache st)) @ drop n (cache st)"
    "next_ent (sweep maxCount busy st) = next_ent st"
    using sweep_cache [OF assms] by blast
  have d: "distinct (map f (filter P (take n xs) @ drop n xs))" if "distinct (map f xs)" for f P and xs :: "'a list"
  proof -
    have "distinct (map f (take n xs @ drop n xs))" using that by simp
    then show ?thesis
      by (auto simp: distinct_map_filter simp del: append_take_drop_id)
  qed
  show ?thesis
    by (rule cache_inv_subset [OF assms _ _ _ n(2,1)])
      (use assms d [of fst "cache st"] d [of "ent \<circ> snd" "cache st"] in
        \<open>auto simp: cache_inv_def dest: in_set_takeD in_set_dropD\<close>)
qed

lemma delete_inv:
  assumes "cache_inv st"
  shows "cache_inv (st\<lparr>cache := map_delete k (cache st)\<rparr>)"
  using assms by (auto simp: cache_inv_def map_delete_filter distinct_map_filter)

lemma delete_key: "k \<notin> set (keys (map_delete k m))"
  by (auto simp: map_delete_filter)

lemma map_set_same:
  "map_get m k = Some v \<Longrightarrow> f (k, v') = f (k, v) \<Longrightarrow> map f (map_set k v' m) = map f m"
  by (induction m) (auto split: if_splits)

lemma set_map_set_keep:
  "set (map_set k v m) \<subseteq> insert (k, v) (set m)"
  by (induction m) auto

lemma entry_in: "map_get m k = Some v \<Longrightarrow> (k, v) \<in> set m"
  by (rule map_of_SomeD)

lemma promote_inv:
  assumes "cache_inv st" and "map_get (cache st) k = Some e"
    and "ent e' = ent e" and "ent_key e' = ent_key e" and "ent_owner e' = ent_owner e" and "ent_sha e' = ent_sha e"
  shows "cache_inv (st\<lparr>cache := map_set k e' (map_delete k (cache st))\<rparr>)"
proof -
  have c: "map_set k e' (map_delete k (cache st)) = filter (\<lambda>p. fst p \<noteq> k) (cache st) @ [(k, e')]"
    using map_set_fresh [OF delete_key] by (simp add: map_delete_filter)
  have mem: "(k, e) \<in> set (cache st)" using assms(2) by (rule entry_in)
  have inj: "inj_on (ent \<circ> snd) (set (cache st))"
    using assms(1) by (simp add: cache_inv_def distinct_map)
  have "ent (snd p) \<noteq> ent e" if "p \<in> set (cache st)" "fst p \<noteq> k" for p
    using inj_onD [OF inj _ that(1) mem] that(2) by auto
  then have "ent e' \<notin> (ent \<circ> snd) ` set (filter (\<lambda>p. fst p \<noteq> k) (cache st))"
    using assms(3) by fastforce
  then have "distinct (map ent (vals (filter (\<lambda>p. fst p \<noteq> k) (cache st) @ [(k, e')])))"
    using assms(1) by (simp add: cache_inv_def distinct_map_filter)
  moreover have "distinct (keys (filter (\<lambda>p. fst p \<noteq> k) (cache st) @ [(k, e')]))"
    using assms(1) by (auto simp: cache_inv_def distinct_map_filter)
  moreover have "fst p = ent_key (snd p) \<and> ent_key (snd p) = storeKey (ent_owner (snd p)) (ent_sha (snd p)) \<and>
      ent (snd p) < next_ent st" if "p \<in> set (filter (\<lambda>p. fst p \<noteq> k) (cache st) @ [(k, e')])" for p
  proof (cases "p = (k, e')")
    case True
    with assms(1,3-6) mem show ?thesis by (force simp: cache_inv_def)
  next
    case False
    with that assms(1) show ?thesis by (simp add: cache_inv_def)
  qed
  moreover define st' where "st' = st\<lparr>cache := map_set k e' (map_delete k (cache st))\<rparr>"
  have f: "cache st' = filter (\<lambda>p. fst p \<noteq> k) (cache st) @ [(k, e')]" "next_ent st' = next_ent st"
    by (simp_all add: st'_def c)
  ultimately have "cache_inv st'" unfolding cache_inv_def f by blast
  then show ?thesis by (simp only: st'_def)
qed

lemma insert_inv:
  assumes "cache_inv st" and "map_get (cache st) k = None" and "k = storeKey owner sha"
  shows "cache_inv (st\<lparr>cache := map_set k
    \<lparr>ent = next_ent st, ent_key = k, ent_owner = owner, ent_sha = sha, built = False, runCount = 1\<rparr>
    (cache st), next_ent := Suc (next_ent st)\<rparr>)"
proof -
  have "k \<notin> set (keys (cache st))" using assms(2) by (simp add: map_of_eq_None_iff)
  then show ?thesis using assms(1,3) by (auto simp: cache_inv_def map_set_fresh less_Suc_eq)
qed

lemma built_inv:
  assumes "cache_inv st" and "map_get (cache st) k = Some e"
  shows "cache_inv (st\<lparr>cache := map_set k (e\<lparr>built := True\<rparr>) (cache st)\<rparr>)"
proof -
  have "keys (map_set k (e\<lparr>built := True\<rparr>) (cache st)) = keys (cache st)"
    "map (ent \<circ> snd) (map_set k (e\<lparr>built := True\<rparr>) (cache st)) = map (ent \<circ> snd) (cache st)"
    by (simp_all add: map_set_same [OF assms(2)])
  then show ?thesis
    using assms(1) entry_in [OF assms(2)] set_map_set_keep [of k "e\<lparr>built := True\<rparr>" "cache st"]
    unfolding cache_inv_def by fastforce
qed

lemma get_inv:
  assumes "cache_inv st"
  shows "cache_inv (fst (get_sandbox maxCount busy st owner sha))"
proof (cases "map_get (cache st) (storeKey owner sha)")
  case None
  with sweep_inv [OF insert_inv [OF assms None refl]] show ?thesis
    by (simp add: get_sandbox_def Let_def)
next
  case (Some e)
  with promote_inv [OF assms Some, of "e\<lparr>runCount := Suc (runCount e)\<rparr>"] show ?thesis
    by (simp add: get_sandbox_def Let_def)
qed

lemma sweep_keeps:
  assumes "cache_inv st" and "map_get (cache st) k = Some e" and "\<not> idle busy e"
  shows "map_get (cache (sweep maxCount busy st)) k = Some e"
proof -
  have inv: "cache_inv (sweep maxCount busy st)" by (rule sweep_inv [OF assms(1)])
  have mem: "(k, e) \<in> set (take n (cache st)) \<or> (k, e) \<in> set (drop n (cache st))" for n
    using entry_in [OF assms(2)] by (metis append_take_drop_id Un_iff set_append)
  obtain n where "cache (sweep maxCount busy st) =
      filter (\<lambda>p. \<not> idle busy (snd p)) (take n (cache st)) @ drop n (cache st)"
    using sweep_cache [OF assms(1), of maxCount busy] by blast
  then have "(k, e) \<in> set (cache (sweep maxCount busy st))"
    using mem [of n] assms(3) by auto
  then show ?thesis using inv by (simp add: cache_inv_def map_of_eq_Some_iff)
qed

lemma get_present:
  assumes "cache_inv st" and "get_sandbox maxCount busy st owner sha = (st', i)"
  shows "\<exists>e. map_get (cache st') (storeKey owner sha) = Some e \<and> ent e = i"
proof (cases "map_get (cache st) (storeKey owner sha)")
  case None
  let ?e = "\<lparr>ent = next_ent st, ent_key = storeKey owner sha, ent_owner = owner, ent_sha = sha,
      built = False, runCount = 1\<rparr>"
  have "\<not> idle busy ?e" by (simp add: idle_def)
  from sweep_keeps [OF insert_inv [OF assms(1) None refl] _ this, of "storeKey owner sha"] None assms(2)
  show ?thesis by (auto simp: get_sandbox_def Let_def)
next
  case (Some e)
  with assms(2) show ?thesis by (auto simp: get_sandbox_def Let_def)
qed

lemma cache_step_inv: "cache_inv st \<Longrightarrow> cache_inv (cache_step maxCount st opn)"
proof (cases opn)
  case (OpGet owner sha busy)
  assume "cache_inv st"
  with OpGet get_inv show ?thesis by simp
next
  case (OpBuilt key i)
  assume "cache_inv st"
  with OpBuilt built_inv [of st key] show ?thesis
    by (auto simp: build_done_def owns_def split: option.splits)
next
  case (OpBuildFailed key i)
  assume "cache_inv st"
  with OpBuildFailed delete_inv show ?thesis by (simp add: build_failed_def)
next
  case (OpTerminated key i limit)
  assume i: "cache_inv st"
  have log: "cache_inv (x\<lparr>evict_log := l\<rparr>) = cache_inv x" for x l by (simp add: cache_inv_def)
  from OpTerminated i delete_inv [OF i, of key] show ?thesis
    by (simp add: terminated_def log)
qed

lemma cache_ops_inv: "cache_inv st \<Longrightarrow> cache_inv (cache_ops maxCount st ops)"
  by (induction ops arbitrary: st) (simp_all add: cache_step_inv)

lemma create_cache_inv: "cache_inv createSandboxStore"
  by (simp add: cache_inv_def createSandboxStore_def)

lemma storeKey_inj:
  "CHR ''/'' \<notin> set o1 \<Longrightarrow> CHR ''/'' \<notin> set o2 \<Longrightarrow> storeKey o1 s1 = storeKey o2 s2 \<Longrightarrow> o1 = o2 \<and> s1 = s2"
  by (induction o1 arbitrary: o2) (auto simp: storeKey_def Cons_eq_append_conv append_eq_Cons_conv)

section \<open>Properties\<close>

text \<open>
  Eviction is least-recently-used and never takes a sandbox in use: from every
  reachable cache, \<open>sweep\<close> removes exactly the built and idle entries of a prefix of the
  recency order and disposes each of them once; entries still building or mid-run stay;
  afterwards the cache is within \<open>maxCount\<close> unless everything left is building or
  mid-run, and never more is evicted than needed.
\<close>

lemma sweep_evicts_lru:
  "let st = cache_ops maxCount createSandboxStore ops; st' = sweep maxCount busy st
   in \<exists>n. cache st' = filter (\<lambda>p. \<not> idle busy (snd p)) (take n (cache st)) @ drop n (cache st) \<and>
      disposals st' = disposals st @ map ent (filter (idle busy) (take n (vals (cache st)))) \<and>
      (length (cache st') \<le> maxCount \<or> list_all (\<lambda>p. \<not> idle busy (snd p)) (cache st')) \<and>
      min maxCount (length (cache st)) \<le> length (cache st')"
proof -
  let ?st = "cache_ops maxCount createSandboxStore ops"
  obtain n where n: "cache (sweep maxCount busy ?st) =
      filter (\<lambda>p. \<not> idle busy (snd p)) (take n (cache ?st)) @ drop n (cache ?st)"
    "disposals (sweep maxCount busy ?st) =
      disposals ?st @ map ent (filter (idle busy) (take n (vals (cache ?st))))"
    "length (cache ?st) \<le> n \<or> length (cache (sweep maxCount busy ?st)) \<le> maxCount"
    "min maxCount (length (cache ?st)) \<le> length (cache (sweep maxCount busy ?st))"
    using sweep_cache [OF cache_ops_inv [OF create_cache_inv], of maxCount busy maxCount ops] by blast
  then have "length (cache (sweep maxCount busy ?st)) \<le> maxCount \<or>
      list_all (\<lambda>p. \<not> idle busy (snd p)) (cache (sweep maxCount busy ?st))"
    by (auto simp: list_all_iff)
  with n show ?thesis unfolding Let_def by blast
qed

text \<open>
  Sandboxes are never shared between tenants: when owner names contain no slash,
  two lookups served from one reachable cache return the same sandbox only if both the
  owner and the workflow sha agree.
\<close>

lemma sandboxes_isolated:
  assumes "get_sandbox maxCount busy (cache_ops maxCount createSandboxStore ops) owner sha = (st1, i)"
    and "get_sandbox maxCount busy' st1 owner' sha' = (st2, i)"
    and "CHR ''/'' \<notin> set owner" and "CHR ''/'' \<notin> set owner'"
  shows "owner' = owner \<and> sha' = sha"
proof -
  have inv: "cache_inv (cache_ops maxCount createSandboxStore ops)"
    by (rule cache_ops_inv [OF create_cache_inv])
  have inv1: "cache_inv st1" using get_inv [OF inv] assms(1) by (metis fst_conv)
  obtain e where e: "map_get (cache st1) (storeKey owner sha) = Some e" "ent e = i"
    using get_present [OF inv assms(1)] by blast
  have "storeKey owner' sha' = storeKey owner sha"
  proof (cases "map_get (cache st1) (storeKey owner' sha')")
    case None
    then have "i = next_ent st1" using assms(2) by (simp add: get_sandbox_def Let_def)
    moreover have "ent e < next_ent st1" using inv1 entry_in [OF e(1)] by (auto simp: cache_inv_def)
    ultimately show ?thesis using e(2) by simp
  next
    case (Some e')
    then have "ent e' = i" using assms(2) by (simp add: get_sandbox_def Let_def)
    moreover have "inj_on (ent \<circ> snd) (set (cache st1))" using inv1 by (simp add: cache_inv_def distinct_map)
    ultimately show ?thesis
      using inj_onD [OF _ _ entry_in [OF Some] entry_in [OF e(1)]] e(2) by fastforce
  qed
  with storeKey_inj [OF assms(4,3)] show ?thesis by blast
qed

lemma sandboxes_isolated_witness:
  "let st = cache_ops 2 createSandboxStore [];
       r1 = get_sandbox 2 (\<lambda>_. False) st ''acme'' ''sha'';
       r2 = get_sandbox 2 (\<lambda>_. False) (fst r1) ''acme'' ''sha''
   in snd r1 = snd r2 \<and> ''acme'' = ''acme'' \<and> ''sha'' = ''sha''"
proof -
  let ?r1 = "get_sandbox 2 (\<lambda>_. False) (cache_ops 2 createSandboxStore []) ''acme'' ''sha''"
  let ?r2 = "get_sandbox 2 (\<lambda>_. False) (fst ?r1) ''acme'' ''sha''"
  have same: "snd ?r1 = snd ?r2" by code_simp
  have 1: "?r1 = (fst ?r1, snd ?r1)" and 2: "?r2 = (fst ?r2, snd ?r1)"
    using same by (simp_all add: prod_eq_iff)
  have "''acme'' = ''acme'' \<and> ''sha'' = ''sha''"
    by (rule sandboxes_isolated [OF 1 2]) simp_all
  with same show ?thesis by (simp add: Let_def)
qed

text \<open>
  The runtime hands its plugins to the sandbox in dependency order: the names in
  \<open>buildPluginDescriptors\<close> are distinct and each plugin stands after the plugins it
  declares in \<open>dependsOn\<close>, so phase 1 supplies every dependency although nothing sorts
  the list.
\<close>

lemma runtime_plugins_ordered:
  "let ds = buildPluginDescriptors src gsrc secretsConfig hostCallActionConfig
   in distinct (map pd_name ds) \<and> deps_before [] ds"
  by (simp add: buildPluginDescriptors_def plugin_entry_def deps_of_def Let_def)

text \<open>
  A sandbox that has been handed out but whose run has not started is idle, so the next
  miss may evict and dispose it before its run begins.
\<close>

lemma handed_out_sandbox_evicted:
  "let st1 = fst (get_sandbox 1 (\<lambda>_. False) createSandboxStore ''acme'' ''sha1'');
       st2 = build_done st1 (storeKey ''acme'' ''sha1'') 0;
       st3 = fst (get_sandbox 1 (\<lambda>_. False) st2 ''acme'' ''sha2'')
   in disposals st3 = [0]"
  by code_simp

text \<open>
  The termination callback removes the entry but never disposes the sandbox, also when
  the cause leaves the worker alive.
\<close>

lemma terminated_never_disposes: "disposals (terminated st key i limit) = disposals st"
  by (simp add: terminated_def)

text \<open>
  Disposal does not wait for ever: however busy the sandboxes stay, with polls that are at least
  \<open>DRAIN_POLL_MS\<close> apart the loop is left at the latest at the poll 400 after the first. It is left
  early only when no built sandbox is busy.
\<close>

lemma drain_none:
  "drain_poll d polls = None \<longleftrightarrow> list_all (\<lambda>(now, st, busy). now < d \<and> any_active st busy) polls"
  by (induction d polls rule: drain_poll.induct) auto

lemma drain_ends:
  assumes "\<And>k. Suc k < length polls \<Longrightarrow> fst (polls ! Suc k) \<ge> fst (polls ! k) + DRAIN_POLL_MS"
    and "length polls = 401"
  shows "\<exists>st. drain_poll (fst (hd polls) + DRAIN_TIMEOUT_MS) polls = Some st"
proof -
  have "fst (polls ! k) \<ge> fst (polls ! 0) + int k * DRAIN_POLL_MS" if "k < length polls" for k
    using that
  proof (induction k)
    case (Suc k)
    with assms(1) [of k] show ?case by (simp add: algebra_simps)
  qed simp
  from this [of 400] have "fst (polls ! 400) \<ge> fst (hd polls) + DRAIN_TIMEOUT_MS"
    using assms(2) by (cases polls) (auto simp: DRAIN_POLL_MS_def DRAIN_TIMEOUT_MS_def)
  moreover have "polls ! 400 \<in> set polls" using assms(2) by simp
  ultimately have "drain_poll (fst (hd polls) + DRAIN_TIMEOUT_MS) polls \<noteq> None"
    unfolding drain_none list_all_iff by fastforce
  then show ?thesis by blast
qed

lemma drain_disposes:
  assumes "drain_poll d polls = Some st'"
  shows "\<exists>now st busy. (now, st, busy) \<in> set polls \<and> st' = dispose_store st \<and> (now < d \<longrightarrow> \<not> any_active st busy)"
  using assms
proof (induction d polls rule: drain_poll.induct)
  case (2 d now st busy polls)
  show ?case
  proof (cases "now < d \<and> any_active st busy")
    case True
    with 2 obtain n s b where "(n, s, b) \<in> set polls" "st' = dispose_store s" "n < d \<longrightarrow> \<not> any_active s b" by auto
    then show ?thesis by (metis list.set_intros(2))
  next
    case False
    then have "st' = dispose_store st" using 2(2) by (simp split: if_splits)
    with False show ?thesis by (metis list.set_intros(1))
  qed
qed simp

end
