(* ===== verification/NetGuard.thy ===== *)
theory NetGuard
  imports Prelude "HOL-Library.Word"
begin

text \<open>
  Outbound network access of guest code: the address guard
  (\<open>packages/sandbox-stdlib/src/net-guard/index.ts\<close>) and the redirect-following fetch that
  connects through it (\<open>packages/sandbox-stdlib/src/fetch/hardened-fetch.ts\<close>).

  \<open>ipaddr.js\<close> is third-party code: the record \<open>ipaddr_lib\<close> holds the functions the guard
  calls, and \<open>ipaddr_documented\<close> says what its documentation promises of them. Addresses
  are words of 32 and 128 bits. \<open>dns.lookup\<close>, the URL parser and the transport below the
  connector are arguments as well.
\<close>

unbundle bit_operations_syntax

section \<open>Addresses\<close>

datatype ip = V4 "32 word" | V6 "128 word"

record ipaddr_lib =
  ip_parse :: "string \<Rightarrow> ip option"
  ip_parseCIDR4 :: "string \<Rightarrow> 32 word \<times> nat"
  ip_parseCIDR6 :: "string \<Rightarrow> 128 word \<times> nat"
  ip_match4 :: "32 word \<Rightarrow> 32 word \<times> nat \<Rightarrow> bool"
  ip_match6 :: "128 word \<Rightarrow> 128 word \<times> nat \<Rightarrow> bool"
  ip_isIPv4Mapped :: "128 word \<Rightarrow> bool"
  ip_toIPv4 :: "128 word \<Rightarrow> 32 word"

definition BLOCKED_CIDRS_IPV4 :: "string list" where
  "BLOCKED_CIDRS_IPV4 =
     [''0.0.0.0/8'', ''10.0.0.0/8'', ''100.64.0.0/10'', ''127.0.0.0/8'', ''169.254.0.0/16'', ''172.16.0.0/12'',
      ''192.0.0.0/24'', ''192.0.2.0/24'', ''192.88.99.0/24'', ''192.168.0.0/16'', ''198.18.0.0/15'',
      ''198.51.100.0/24'', ''203.0.113.0/24'', ''224.0.0.0/4'', ''240.0.0.0/4'', ''255.255.255.255/32'']"

definition BLOCKED_CIDRS_IPV6 :: "string list" where
  "BLOCKED_CIDRS_IPV6 = [''::/128'', ''::1/128'', ''100::/64'', ''fc00::/7'', ''fe80::/10'']"

definition isBlockedAddress :: "ipaddr_lib \<Rightarrow> string \<Rightarrow> bool" where
  "isBlockedAddress lib addrStr =
     (case ip_parse lib addrStr of
        None \<Rightarrow> True
      | Some parsed \<Rightarrow>
          let unwrapped = (case parsed of
                V6 a \<Rightarrow> if ip_isIPv4Mapped lib a then V4 (ip_toIPv4 lib a) else V6 a
              | V4 a \<Rightarrow> V4 a)
          in (case unwrapped of
                V4 a \<Rightarrow> list_ex (\<lambda>c. ip_match4 lib a (ip_parseCIDR4 lib c)) BLOCKED_CIDRS_IPV4
              | V6 a \<Rightarrow> list_ex (\<lambda>c. ip_match6 lib a (ip_parseCIDR6 lib c)) BLOCKED_CIDRS_IPV6))"

datatype block_reason = BadScheme | PrivateIp | RedirectToPrivate | ZoneId

datatype net_error =
    HostBlocked block_reason string
  | OtherError string "net_error option"

definition hasZoneIdentifier :: "string \<Rightarrow> bool" where
  "hasZoneIdentifier hostname = (CHR ''%'' \<in> set hostname)"

definition strip_brackets :: "string \<Rightarrow> string" where
  "strip_brackets hostname =
     (if hostname \<noteq> [] \<and> hd hostname = CHR ''['' \<and> last hostname = CHR '']''
      then butlast (tl hostname) else hostname)"

definition assertHostIsPublic ::
  "ipaddr_lib \<Rightarrow> (string \<Rightarrow> net_error + string list) \<Rightarrow> bool \<Rightarrow> string \<Rightarrow> net_error + string" where
  \<comment> \<open>\<open>disabled\<close>: the environment sets \<open>WFE_TEST_DISABLE_SSRF_PROTECTION\<close>\<close>
  "assertHostIsPublic lib dnsLookup disabled hostname =
     (if hasZoneIdentifier hostname
      then Inl (HostBlocked ZoneId ''IPv6 zone identifiers are not permitted'')
      else (case dnsLookup (strip_brackets hostname) of
              Inl err \<Rightarrow> Inl err
            | Inr addresses \<Rightarrow>
                (case addresses of
                   [] \<Rightarrow> Inl (OtherError (''dns.lookup returned no addresses for '' @ hostname) None)
                 | first # _ \<Rightarrow>
                     if \<not> disabled \<and> list_ex (isBlockedAddress lib) addresses
                     then Inl (HostBlocked PrivateIp (hostname @ '' resolves to a blocked address''))
                     else Inr first)))"

section \<open>What the library documents\<close>

definition cidr4 :: "nat \<Rightarrow> nat \<Rightarrow> nat \<Rightarrow> nat \<Rightarrow> nat \<Rightarrow> 32 word \<times> nat" where
  "cidr4 a b c d n = (of_nat (((a * 256 + b) * 256 + c) * 256 + d), n)"

definition blocked_nets4 :: "(32 word \<times> nat) list" where
  "blocked_nets4 =
     [cidr4 0 0 0 0 8, cidr4 10 0 0 0 8, cidr4 100 64 0 0 10, cidr4 127 0 0 0 8, cidr4 169 254 0 0 16,
      cidr4 172 16 0 0 12, cidr4 192 0 0 0 24, cidr4 192 0 2 0 24, cidr4 192 88 99 0 24, cidr4 192 168 0 0 16,
      cidr4 198 18 0 0 15, cidr4 198 51 100 0 24, cidr4 203 0 113 0 24, cidr4 224 0 0 0 4, cidr4 240 0 0 0 4,
      cidr4 255 255 255 255 32]"

definition blocked_nets6 :: "(128 word \<times> nat) list" where
  "blocked_nets6 =
     [(0, 128), (1, 128), (push_bit 112 0x100, 64), (push_bit 112 0xfc00, 7), (push_bit 112 0xfe80, 10)]"

definition ipaddr_documented :: "ipaddr_lib \<Rightarrow> bool" where
  \<comment> \<open>CIDR notation, prefix match, and IPv4-mapped addresses \<open>::ffff:a.b.c.d\<close>\<close>
  "ipaddr_documented lib \<longleftrightarrow>
     map (ip_parseCIDR4 lib) BLOCKED_CIDRS_IPV4 = blocked_nets4 \<and>
     map (ip_parseCIDR6 lib) BLOCKED_CIDRS_IPV6 = blocked_nets6 \<and>
     (\<forall>a net n. ip_match4 lib a (net, n) = (drop_bit (32 - n) a = drop_bit (32 - n) net)) \<and>
     (\<forall>a net n. ip_match6 lib a (net, n) = (drop_bit (128 - n) a = drop_bit (128 - n) net)) \<and>
     (\<forall>a. ip_isIPv4Mapped lib a = (drop_bit 32 a = 0xffff)) \<and>
     (\<forall>a. ip_toIPv4 lib a = ucast a)"

text \<open>
  The addresses that must stay unreachable, as intervals; an IPv4-mapped IPv6 address
  counts as the IPv4 address it holds.
\<close>

definition quad :: "nat \<Rightarrow> nat \<Rightarrow> nat \<Rightarrow> nat \<Rightarrow> nat" where
  "quad a b c d = ((a * 256 + b) * 256 + c) * 256 + d"

definition private_ranges4 :: "(nat \<times> nat) list" where
  "private_ranges4 =
     [(quad 0 0 0 0, quad 0 255 255 255), (quad 10 0 0 0, quad 10 255 255 255),
      (quad 100 64 0 0, quad 100 127 255 255), (quad 127 0 0 0, quad 127 255 255 255),
      (quad 169 254 0 0, quad 169 254 255 255), (quad 172 16 0 0, quad 172 31 255 255),
      (quad 192 0 0 0, quad 192 0 0 255), (quad 192 0 2 0, quad 192 0 2 255),
      (quad 192 88 99 0, quad 192 88 99 255), (quad 192 168 0 0, quad 192 168 255 255),
      (quad 198 18 0 0, quad 198 19 255 255), (quad 198 51 100 0, quad 198 51 100 255),
      (quad 203 0 113 0, quad 203 0 113 255), (quad 224 0 0 0, quad 239 255 255 255),
      (quad 240 0 0 0, quad 255 255 255 255), (quad 255 255 255 255, quad 255 255 255 255)]"

definition private_ranges6 :: "(nat \<times> nat) list" where
  "private_ranges6 =
     [(0, 0), (1, 1), (0x100 * 2 ^ 112, 0x100 * 2 ^ 112 + 2 ^ 64 - 1), (0xfc00 * 2 ^ 112, 0xfe00 * 2 ^ 112 - 1),
      (0xfe80 * 2 ^ 112, 0xfec0 * 2 ^ 112 - 1)]"

definition within :: "(nat \<times> nat) list \<Rightarrow> nat \<Rightarrow> bool" where
  "within rs a = list_ex (\<lambda>(lo, hi). lo \<le> a \<and> a \<le> hi) rs"

fun private_ip :: "ip \<Rightarrow> bool" where
  "private_ip (V4 a) = within private_ranges4 (unat a)"
| "private_ip (V6 a) =
     (if 0xffff * 2 ^ 32 \<le> unat a \<and> unat a < 0x10000 * 2 ^ 32
      then within private_ranges4 (unat a mod 2 ^ 32) else within private_ranges6 (unat a))"

lemma prefix_interval:
  fixes a net :: "'a :: len word"
  assumes "unat net = q * 2 ^ k"
  shows "drop_bit k a = drop_bit k net \<longleftrightarrow> q * 2 ^ k \<le> unat a \<and> unat a < Suc q * 2 ^ k"
proof -
  have "drop_bit k a = drop_bit k net \<longleftrightarrow> unat (drop_bit k a) = unat (drop_bit k net)"
    by (simp add: word_unat_eq_iff)
  also have "\<dots> \<longleftrightarrow> unat a div 2 ^ k = q"
    unfolding unat_drop_bit_eq assms by (simp add: drop_bit_eq_div [where 'a = nat])
  also have "\<dots> \<longleftrightarrow> q * 2 ^ k \<le> unat a \<and> unat a < Suc q * 2 ^ k"
    using div_nat_eqI [of "2 ^ k" q "unat a"] div_times_less_eq_dividend [of "unat a" "2 ^ k"]
      dividend_less_div_times [of "2 ^ k" "unat a"] by (auto simp: algebra_simps)
  finally show ?thesis .
qed

lemma prefix_range:
  fixes a net :: "'a :: len word"
  assumes "unat net mod 2 ^ k = 0"
  shows "drop_bit k a = drop_bit k net \<longleftrightarrow> unat net \<le> unat a \<and> unat a \<le> unat net + (2 ^ k - 1)"
proof -
  have "unat net = (unat net div 2 ^ k) * 2 ^ k"
    using div_mult_mod_eq [of "unat net" "2 ^ k"] assms by simp
  from prefix_interval [OF this, of a] this
  have "drop_bit k a = drop_bit k net \<longleftrightarrow> unat net \<le> unat a \<and> unat a < unat net + 2 ^ k"
    by (simp add: add.commute)
  moreover have "0 < (2 :: nat) ^ k" by simp
  ultimately show ?thesis by linarith
qed

lemma blocked4:
  assumes "ipaddr_documented lib"
  shows "list_ex (\<lambda>c. ip_match4 lib a (ip_parseCIDR4 lib c)) BLOCKED_CIDRS_IPV4 \<longleftrightarrow> within private_ranges4 (unat a)"
proof -
  have nets: "map (ip_parseCIDR4 lib) BLOCKED_CIDRS_IPV4 = blocked_nets4"
    and match: "\<And>net n. ip_match4 lib a (net, n) = (drop_bit (32 - n) a = drop_bit (32 - n) net)"
    using assms by (simp_all add: ipaddr_documented_def)
  have "list_ex (\<lambda>c. ip_match4 lib a (ip_parseCIDR4 lib c)) BLOCKED_CIDRS_IPV4 \<longleftrightarrow>
      list_ex (ip_match4 lib a) (map (ip_parseCIDR4 lib) BLOCKED_CIDRS_IPV4)"
    by (simp add: list_ex_iff)
  also have "\<dots> \<longleftrightarrow> list_ex (\<lambda>(net, n). drop_bit (32 - n) a = drop_bit (32 - n) net) blocked_nets4"
    unfolding nets using match by (auto simp: list_ex_iff)
  finally have *: "list_ex (\<lambda>c. ip_match4 lib a (ip_parseCIDR4 lib c)) BLOCKED_CIDRS_IPV4 \<longleftrightarrow>
      list_ex (\<lambda>(net, n). drop_bit (32 - n) a = drop_bit (32 - n) net) blocked_nets4" .
  have r: "drop_bit (32 - n) a = drop_bit (32 - n) net \<longleftrightarrow>
      unat net \<le> unat a \<and> unat a \<le> unat net + (2 ^ (32 - n) - 1)"
    if "(net, n) \<in> set blocked_nets4" for net n
    by (rule prefix_range) (use that in \<open>auto simp: blocked_nets4_def cidr4_def\<close>)
  have "list_ex (\<lambda>(net, n). drop_bit (32 - n) a = drop_bit (32 - n) net) blocked_nets4 \<longleftrightarrow>
      list_ex (\<lambda>(net, n). unat net \<le> unat a \<and> unat a \<le> unat net + (2 ^ (32 - n) - 1)) blocked_nets4"
    using r by (auto simp: list_ex_iff)
  also have "\<dots> \<longleftrightarrow> within private_ranges4 (unat a)"
    by (simp add: blocked_nets4_def cidr4_def within_def private_ranges4_def quad_def)
  finally show ?thesis unfolding * .
qed

lemma blocked6:
  assumes "ipaddr_documented lib"
  shows "list_ex (\<lambda>c. ip_match6 lib a (ip_parseCIDR6 lib c)) BLOCKED_CIDRS_IPV6 \<longleftrightarrow> within private_ranges6 (unat a)"
proof -
  have nets: "map (ip_parseCIDR6 lib) BLOCKED_CIDRS_IPV6 = blocked_nets6"
    and match: "\<And>net n. ip_match6 lib a (net, n) = (drop_bit (128 - n) a = drop_bit (128 - n) net)"
    using assms by (simp_all add: ipaddr_documented_def)
  have "list_ex (\<lambda>c. ip_match6 lib a (ip_parseCIDR6 lib c)) BLOCKED_CIDRS_IPV6 \<longleftrightarrow>
      list_ex (ip_match6 lib a) (map (ip_parseCIDR6 lib) BLOCKED_CIDRS_IPV6)"
    by (simp add: list_ex_iff)
  also have "\<dots> \<longleftrightarrow> list_ex (\<lambda>(net, n). drop_bit (128 - n) a = drop_bit (128 - n) net) blocked_nets6"
    unfolding nets using match by (auto simp: list_ex_iff)
  finally have *: "list_ex (\<lambda>c. ip_match6 lib a (ip_parseCIDR6 lib c)) BLOCKED_CIDRS_IPV6 \<longleftrightarrow>
      list_ex (\<lambda>(net, n). drop_bit (128 - n) a = drop_bit (128 - n) net) blocked_nets6" .
  have u: "unat (push_bit 112 0x100 :: 128 word) = 0x100 * 2 ^ 112"
    "unat (push_bit 112 0xfc00 :: 128 word) = 0xfc00 * 2 ^ 112"
    "unat (push_bit 112 0xfe80 :: 128 word) = 0xfe80 * 2 ^ 112"
    by (simp_all add: push_bit_eq_mult)
  have r: "drop_bit (128 - n) a = drop_bit (128 - n) net \<longleftrightarrow>
      unat net \<le> unat a \<and> unat a \<le> unat net + (2 ^ (128 - n) - 1)"
    if "(net, n) \<in> set blocked_nets6" for net n
    by (rule prefix_range) (use that u in \<open>auto simp: blocked_nets6_def\<close>)
  have "list_ex (\<lambda>(net, n). drop_bit (128 - n) a = drop_bit (128 - n) net) blocked_nets6 \<longleftrightarrow>
      list_ex (\<lambda>(net, n). unat net \<le> unat a \<and> unat a \<le> unat net + (2 ^ (128 - n) - 1)) blocked_nets6"
    using r by (auto simp: list_ex_iff)
  also have "\<dots> \<longleftrightarrow> within private_ranges6 (unat a)"
    by (simp add: blocked_nets6_def u within_def private_ranges6_def)
  finally show ?thesis unfolding * .
qed

lemma mapped_interval:
  "drop_bit 32 a = (0xffff :: 128 word) \<longleftrightarrow> 0xffff * 2 ^ 32 \<le> unat a \<and> unat a < 0x10000 * 2 ^ 32"
proof -
  have s: "drop_bit 32 (push_bit 32 0xffff :: 128 word) = 0xffff" by (simp add: push_bit_eq_mult drop_bit_eq_div)
  have u: "unat (push_bit 32 0xffff :: 128 word) = 0xffff * 2 ^ 32" by (simp add: push_bit_eq_mult)
  from prefix_interval [OF u, of a] show ?thesis unfolding s by simp
qed

lemma isBlockedAddress_private:
  assumes "ipaddr_documented lib"
  shows "isBlockedAddress lib s \<longleftrightarrow> (case ip_parse lib s of None \<Rightarrow> True | Some i \<Rightarrow> private_ip i)"
proof -
  have m: "ip_isIPv4Mapped lib a = (drop_bit 32 a = 0xffff)" "ip_toIPv4 lib a = ucast a" for a
    using assms by (simp_all add: ipaddr_documented_def)
  have u: "unat (ucast a :: 32 word) = unat a mod 2 ^ 32" for a :: "128 word"
    by (simp add: unsigned_ucast_eq take_bit_eq_mod)
  show ?thesis
    by (simp add: isBlockedAddress_def blocked4 [OF assms] blocked6 [OF assms] m mapped_interval u Let_def
        split: option.split ip.split del: One_nat_def)
qed

section \<open>Fetch\<close>

record url =
  u_protocol :: string
  u_origin :: string
  u_hostname :: string

record fetch_state =
  currentUrl :: string
  currentMethod :: string
  currentHeaders :: "(string, string) jsmap"
  currentBody :: "string option"

record reply =
  rp_status :: nat
  rp_headers :: "(string, string list) jsmap"
  rp_body :: string

datatype fetch_result =
    FetchError net_error
  | FetchResponse nat "(string, string) jsmap" string string
  | DataUrl string

text \<open>
  The surroundings of one fetch: \<open>new URL\<close>, DNS as it answers at each hop, how undici wraps
  an error of the connector, and the transport below the connector, given the address it
  connects to.
\<close>

record fetch_env =
  fe_ip :: ipaddr_lib
  fe_parse :: "string \<Rightarrow> url option"
  fe_resolve :: "string \<Rightarrow> string \<Rightarrow> string option"
  fe_dns :: "nat \<Rightarrow> string \<Rightarrow> net_error + string list"
  fe_disabled :: bool
  fe_wrap :: "net_error \<Rightarrow> net_error"
  fe_transport :: "nat \<Rightarrow> fetch_state \<Rightarrow> string \<Rightarrow> net_error + reply"

definition MAX_REDIRECTS :: nat where "MAX_REDIRECTS = 5"

definition MAX_CAUSE_DEPTH :: nat where "MAX_CAUSE_DEPTH = 8"

fun unwrapHostBlocked :: "nat \<Rightarrow> net_error \<Rightarrow> (block_reason \<times> string) option" where
  \<comment> \<open>the loop over \<open>depth\<close>, counted down\<close>
  "unwrapHostBlocked 0 cursor = None"
| "unwrapHostBlocked (Suc n) (HostBlocked r m) = Some (r, m)"
| "unwrapHostBlocked (Suc n) (OtherError m None) = None"
| "unwrapHostBlocked (Suc n) (OtherError m (Some c)) = unwrapHostBlocked n c"

definition extractLocation :: "(string, string list) jsmap \<Rightarrow> string option" where
  "extractLocation headers =
     (case map_get headers ''location'' of None \<Rightarrow> None | Some [] \<Rightarrow> None | Some (x # _) \<Rightarrow> Some x)"

definition responseFromUndici :: "nat \<Rightarrow> (string, string list) jsmap \<Rightarrow> string \<Rightarrow> string \<Rightarrow> fetch_result" where
  "responseFromUndici statusCode headers bodyText finalUrl =
     FetchResponse statusCode (concat (map (\<lambda>(k, vs). map (\<lambda>v. (k, v)) vs) headers)) bodyText finalUrl"

definition stripHeader :: "(string, string) jsmap \<Rightarrow> string \<Rightarrow> (string, string) jsmap" where
  "stripHeader headers lowerName = filter (\<lambda>(k, v). toLowerCase k \<noteq> lowerName) headers"

definition validateScheme :: "url \<Rightarrow> net_error option" where
  "validateScheme parsed =
     (if u_protocol parsed \<noteq> ''http:'' \<and> u_protocol parsed \<noteq> ''https:''
      then Some (HostBlocked BadScheme (''unsupported scheme: '' @ u_protocol parsed)) else None)"

definition parseUrlOrThrow :: "fetch_env \<Rightarrow> string \<Rightarrow> net_error + url" where
  "parseUrlOrThrow env u =
     (case fe_parse env u of
        Some parsed \<Rightarrow> Inr parsed
      | None \<Rightarrow> Inl (OtherError (''invalid URL: '' @ u) None))"

definition applyRedirect ::
  "fetch_env \<Rightarrow> fetch_state \<Rightarrow> nat \<Rightarrow> string \<Rightarrow> url \<Rightarrow> net_error + fetch_state" where
  "applyRedirect env st statusCode location prevParsed =
     (case fe_resolve env location (currentUrl st) of
        None \<Rightarrow> Inl (HostBlocked BadScheme (''invalid redirect target: '' @ location))
      | Some nextUrl \<Rightarrow>
          (case fe_parse env nextUrl of
             None \<Rightarrow> Inl (OtherError (''Invalid URL'') None)
           | Some nextParsed \<Rightarrow>
               let h1 = (if u_origin nextParsed \<noteq> u_origin prevParsed
                         then stripHeader (currentHeaders st) ''authorization'' else currentHeaders st);
                   rewrite = (statusCode = 301 \<or> statusCode = 302 \<or> statusCode = 303)
               in Inr \<lparr>currentUrl = nextUrl,
                       currentMethod =
                         (if rewrite \<and> currentMethod st \<noteq> ''GET'' \<and> currentMethod st \<noteq> ''HEAD''
                          then ''GET'' else currentMethod st),
                       currentHeaders = (if rewrite then stripHeader h1 ''content-length'' else h1),
                       currentBody = (if rewrite then None else currentBody st)\<rparr>))"

definition connector :: "fetch_env \<Rightarrow> nat \<Rightarrow> string \<Rightarrow> net_error + string" where
  \<comment> \<open>\<open>makeConnector\<close>: the address handed to the base connector\<close>
  "connector env hop hostname = assertHostIsPublic (fe_ip env) (fe_dns env hop) (fe_disabled env) hostname"

definition rewrap :: "nat \<Rightarrow> fetch_state \<Rightarrow> net_error \<Rightarrow> net_error" where
  "rewrap hop st err =
     (case unwrapHostBlocked MAX_CAUSE_DEPTH err of
        Some (reason, message) \<Rightarrow>
          if hop > 0 \<and> reason = PrivateIp
          then HostBlocked RedirectToPrivate
                 (''redirect target '' @ currentUrl st @ '' resolves to a blocked address'')
          else HostBlocked reason message
      | None \<Rightarrow> err)"

definition issueHopRequest ::
  "fetch_env \<Rightarrow> fetch_state \<Rightarrow> nat \<Rightarrow> url \<Rightarrow> (string \<times> fetch_state) list \<times> (net_error + reply)" where
  \<comment> \<open>with the requests that reached the network\<close>
  "issueHopRequest env st hop parsed =
     (case connector env hop (u_hostname parsed) of
        Inl err \<Rightarrow> ([], Inl (rewrap hop st (fe_wrap env err)))
      | Inr addr \<Rightarrow>
          ([(addr, st)],
           case fe_transport env hop st addr of
             Inl err \<Rightarrow> Inl (rewrap hop st err)
           | Inr r \<Rightarrow> Inr r))"

definition too_many_redirects :: net_error where
  "too_many_redirects =
     HostBlocked RedirectToPrivate (''redirect chain exceeded '' @ show_nat MAX_REDIRECTS @ '' hops'')"

fun fetch_loop ::
  "fetch_env \<Rightarrow> nat \<Rightarrow> fetch_state \<Rightarrow> (string \<times> fetch_state) list \<times> fetch_result" where
  \<comment> \<open>the \<open>for\<close> loop with \<open>n\<close> iterations left: \<open>hop = MAX_REDIRECTS + 1 - n\<close>\<close>
  "fetch_loop env 0 st = ([], FetchError too_many_redirects)"
| "fetch_loop env (Suc n) st =
     (let hop = MAX_REDIRECTS - n in
      case parseUrlOrThrow env (currentUrl st) of
        Inl err \<Rightarrow> ([], FetchError err)
      | Inr parsed \<Rightarrow>
          (case validateScheme parsed of
             Some err \<Rightarrow> ([], FetchError err)
           | None \<Rightarrow>
               (case issueHopRequest env st hop parsed of
                  (sent, Inl err) \<Rightarrow> (sent, FetchError err)
                | (sent, Inr r) \<Rightarrow>
                    if 300 \<le> rp_status r \<and> rp_status r < 400 then
                      (case extractLocation (rp_headers r) of
                         None \<Rightarrow> (sent, responseFromUndici (rp_status r) (rp_headers r) (rp_body r) (currentUrl st))
                       | Some location \<Rightarrow>
                           if location = []
                           then (sent, responseFromUndici (rp_status r) (rp_headers r) (rp_body r) (currentUrl st))
                           else if hop \<ge> MAX_REDIRECTS then (sent, FetchError too_many_redirects)
                           else (case applyRedirect env st (rp_status r) location parsed of
                                   Inl err \<Rightarrow> (sent, FetchError err)
                                 | Inr st' \<Rightarrow> apfst (append sent) (fetch_loop env n st')))
                    else (sent, responseFromUndici (rp_status r) (rp_headers r) (rp_body r) (currentUrl st)))))"

definition hardenedFetch ::
  "fetch_env \<Rightarrow> string \<Rightarrow> string option \<Rightarrow> (string, string) jsmap \<Rightarrow> string option
     \<Rightarrow> (string \<times> fetch_state) list \<times> fetch_result" where
  "hardenedFetch env initialUrl method headers body =
     (if take 5 (toLowerCase initialUrl) = ''data:'' then ([], DataUrl initialUrl)
      else fetch_loop env (Suc MAX_REDIRECTS)
             \<lparr>currentUrl = initialUrl,
              currentMethod = toUpperCase (case method of Some m \<Rightarrow> m | None \<Rightarrow> ''GET''), currentHeaders = headers, currentBody = body\<rparr>)"

section \<open>Properties\<close>

definition has_header :: "string \<Rightarrow> fetch_state \<Rightarrow> bool" where
  "has_header name st = list_ex (\<lambda>(k, v). toLowerCase k = name) (currentHeaders st)"

definition origin_of :: "fetch_env \<Rightarrow> string \<Rightarrow> string option" where
  "origin_of env u = map_option u_origin (fe_parse env u)"

definition reaches_public :: "fetch_env \<Rightarrow> string \<times> fetch_state \<Rightarrow> bool" where
  "reaches_public env r =
     ((case ip_parse (fe_ip env) (fst r) of None \<Rightarrow> False | Some i \<Rightarrow> \<not> private_ip i) \<and>
      (case fe_parse env (currentUrl (snd r)) of
         None \<Rightarrow> False | Some u \<Rightarrow> u_protocol u = ''http:'' \<or> u_protocol u = ''https:''))"

lemma guard_public:
  assumes "ipaddr_documented lib" and "assertHostIsPublic lib dns False h = Inr addr"
  shows "case ip_parse lib addr of None \<Rightarrow> False | Some i \<Rightarrow> \<not> private_ip i"
proof -
  from assms(2) obtain as where "\<not> list_ex (isBlockedAddress lib) (addr # as)"
    by (auto simp: assertHostIsPublic_def split: if_splits sum.splits list.splits)
  then have "\<not> isBlockedAddress lib addr" by simp
  then show ?thesis by (simp add: isBlockedAddress_private [OF assms(1)] split: option.splits)
qed

lemma issued_public:
  assumes "ipaddr_documented (fe_ip env)" and "\<not> fe_disabled env"
    and "parseUrlOrThrow env (currentUrl st) = Inr parsed" and "validateScheme parsed = None"
  shows "list_all (reaches_public env) (fst (issueHopRequest env st hop parsed)) \<and>
    length (fst (issueHopRequest env st hop parsed)) \<le> 1"
proof (cases "connector env hop (u_hostname parsed)")
  case (Inr addr)
  then have "case ip_parse (fe_ip env) addr of None \<Rightarrow> False | Some i \<Rightarrow> \<not> private_ip i"
    using guard_public [OF assms(1)] assms(2) by (simp add: connector_def)
  with Inr assms(3,4) show ?thesis
    by (auto simp: issueHopRequest_def reaches_public_def parseUrlOrThrow_def validateScheme_def
        split: option.splits if_splits)
qed (simp add: issueHopRequest_def)

lemma loop_public:
  assumes "ipaddr_documented (fe_ip env)" and "\<not> fe_disabled env"
  shows "list_all (reaches_public env) (fst (fetch_loop env n st)) \<and> length (fst (fetch_loop env n st)) \<le> n"
proof (induction n arbitrary: st)
  case (Suc n)
  show ?case
  proof (cases "parseUrlOrThrow env (currentUrl st)")
    case (Inr parsed)
    show ?thesis
    proof (cases "validateScheme parsed")
      case None
      obtain sent res where i: "issueHopRequest env st (MAX_REDIRECTS - n) parsed = (sent, res)" by fastforce
      have "list_all (reaches_public env) sent \<and> length sent \<le> 1"
        using issued_public [OF assms Inr None, of "MAX_REDIRECTS - n"] i by simp
      moreover from this have "length sent + length (fst (fetch_loop env n st')) \<le> Suc n" for st'
        using Suc.IH [of st'] by linarith
      ultimately show ?thesis using Inr None i Suc.IH
        by (auto simp: Let_def responseFromUndici_def split: sum.split option.split)
    qed (simp add: Inr)
  qed simp
qed simp

text \<open>
  \<^bold>\<open>C16\<close>. A guest's fetch reaches only public hosts: on the initial URL and on every redirect,
  whatever DNS answers at each hop, a request is sent only to an address outside the
  special-use ranges (IPv4-mapped IPv6 addresses included) and only over http or https; a
  fetch sends at most six requests.
\<close>

theorem fetch_reaches_only_public:
  assumes "ipaddr_documented (fe_ip env)" and "\<not> fe_disabled env"
  shows "list_all (reaches_public env) (fst (hardenedFetch env u method headers body)) \<and>
    length (fst (hardenedFetch env u method headers body)) \<le> 6"
  using loop_public [OF assms, of "Suc MAX_REDIRECTS"]
  by (simp add: hardenedFetch_def MAX_REDIRECTS_def del: fetch_loop.simps)

definition sample_ipaddr :: ipaddr_lib where
  "sample_ipaddr =
     \<lparr>ip_parse = (\<lambda>s. if s = ''8.8.8.8'' then Some (V4 0x08080808) else None),
      ip_parseCIDR4 = (\<lambda>s. the (map_get (zip BLOCKED_CIDRS_IPV4 blocked_nets4) s)),
      ip_parseCIDR6 = (\<lambda>s. the (map_get (zip BLOCKED_CIDRS_IPV6 blocked_nets6) s)),
      ip_match4 = (\<lambda>a (net, n). drop_bit (32 - n) a = drop_bit (32 - n) net),
      ip_match6 = (\<lambda>a (net, n). drop_bit (128 - n) a = drop_bit (128 - n) net),
      ip_isIPv4Mapped = (\<lambda>a. drop_bit 32 a = 0xffff),
      ip_toIPv4 = (\<lambda>a. ucast a)\<rparr>"

lemma zip_lookup:
  assumes "distinct ks" and "length ks = length vs"
  shows "map (\<lambda>k. the (map_get (zip ks vs) k)) ks = vs"
  using assms by (intro nth_equalityI) (simp_all add: map_of_zip_nth)

lemma sample_ipaddr_documented: "ipaddr_documented sample_ipaddr"
proof -
  have "map (ip_parseCIDR4 sample_ipaddr) BLOCKED_CIDRS_IPV4 = blocked_nets4"
    using zip_lookup [of BLOCKED_CIDRS_IPV4 blocked_nets4]
    by (simp add: sample_ipaddr_def BLOCKED_CIDRS_IPV4_def blocked_nets4_def)
  moreover have "map (ip_parseCIDR6 sample_ipaddr) BLOCKED_CIDRS_IPV6 = blocked_nets6"
    using zip_lookup [of BLOCKED_CIDRS_IPV6 blocked_nets6]
    by (simp add: sample_ipaddr_def BLOCKED_CIDRS_IPV6_def blocked_nets6_def)
  ultimately show ?thesis by (simp add: ipaddr_documented_def sample_ipaddr_def)
qed

definition sample_env :: fetch_env where
  "sample_env =
     \<lparr>fe_ip = sample_ipaddr,
      fe_parse = (\<lambda>u. Some \<lparr>u_protocol = ''https:'', u_origin = ''https://a.example'', u_hostname = ''a.example''\<rparr>),
      fe_resolve = (\<lambda>l b. Some l), fe_dns = (\<lambda>hop h. Inr [''8.8.8.8'']), fe_disabled = False,
      fe_wrap = (\<lambda>e. OtherError ''connect'' (Some e)),
      fe_transport = (\<lambda>hop st addr. Inr \<lparr>rp_status = 200, rp_headers = [], rp_body = ''ok''\<rparr>)\<rparr>"

theorem fetch_reaches_only_public_witness:
  "ipaddr_documented (fe_ip sample_env) \<and> \<not> fe_disabled sample_env \<and>
   list_all (reaches_public sample_env) (fst (hardenedFetch sample_env ''https://a.example/'' None [] None))"
proof -
  have h: "ipaddr_documented (fe_ip sample_env)" "\<not> fe_disabled sample_env"
    using sample_ipaddr_documented by (simp_all add: sample_env_def)
  with fetch_reaches_only_public [OF h] show ?thesis by blast
qed

text \<open>The guard is not vacuous: the sample fetch does send its request.\<close>

lemma sample_fetch_sends: "map fst (fst (hardenedFetch sample_env ''https://a.example/'' None [] None)) = [''8.8.8.8'']"
proof -
  have "\<not> isBlockedAddress sample_ipaddr ''8.8.8.8''"
    unfolding isBlockedAddress_private [OF sample_ipaddr_documented]
    by (simp add: sample_ipaddr_def within_def private_ranges4_def quad_def)
  then show ?thesis
    by (simp add: hardenedFetch_def sample_env_def parseUrlOrThrow_def validateScheme_def
        issueHopRequest_def connector_def assertHostIsPublic_def hasZoneIdentifier_def responseFromUndici_def
        strip_brackets_def lower_def less_eq_char_def Let_def)
qed

lemma stripped_header:
  "list_ex (\<lambda>(k, v). toLowerCase k = name) (stripHeader hs m) \<longleftrightarrow>
     name \<noteq> m \<and> list_ex (\<lambda>(k, v). toLowerCase k = name) hs"
  by (auto simp: stripHeader_def list_ex_iff)

lemma redirect_auth:
  assumes "applyRedirect env st code location prev = Inr st'" and "fe_parse env (currentUrl st) = Some prev"
    and "has_header ''authorization'' st'"
  shows "has_header ''authorization'' st \<and> origin_of env (currentUrl st') = origin_of env (currentUrl st)"
proof -
  from assms(1) obtain next_url parsed where n: "fe_parse env next_url = Some parsed" "currentUrl st' = next_url"
    and h: "currentHeaders st' \<in> {currentHeaders st, stripHeader (currentHeaders st) ''content-length''} \<and>
        u_origin parsed = u_origin prev \<or>
      currentHeaders st' \<in> {stripHeader (currentHeaders st) ''authorization'',
        stripHeader (stripHeader (currentHeaders st) ''authorization'') ''content-length''}"
    by (auto simp: applyRedirect_def Let_def split: option.splits if_splits)
  from h assms(3) have "has_header ''authorization'' st \<and> u_origin parsed = u_origin prev"
    unfolding has_header_def by (elim disjE conjE insertE emptyE) (simp_all only: stripped_header, simp_all)
  with n assms(2) show ?thesis by (simp add: origin_of_def)
qed

lemma loop_auth:
  "r \<in> set (fst (fetch_loop env n st)) \<Longrightarrow> has_header ''authorization'' (snd r) \<Longrightarrow>
     has_header ''authorization'' st \<and> origin_of env (currentUrl (snd r)) = origin_of env (currentUrl st)"
proof (induction n arbitrary: st)
  case (Suc n)
  from Suc.prems(1) obtain parsed where p: "parseUrlOrThrow env (currentUrl st) = Inr parsed"
    "validateScheme parsed = None"
    by (cases "parseUrlOrThrow env (currentUrl st)"; cases "validateScheme (projr (parseUrlOrThrow env (currentUrl st)))")
      auto
  obtain sent res where i: "issueHopRequest env st (MAX_REDIRECTS - n) parsed = (sent, res)" by fastforce
  have first: "snd x = st" if "x \<in> set sent" for x
    using that i by (auto simp: issueHopRequest_def split: sum.splits)
  have prev: "fe_parse env (currentUrl st) = Some parsed"
    using p(1) by (auto simp: parseUrlOrThrow_def split: option.splits)
  show ?case
  proof (cases "r \<in> set sent")
    case True
    with first Suc.prems(2) show ?thesis by simp
  next
    case False
    then obtain code location st' where "applyRedirect env st code location parsed = Inr st'"
      "r \<in> set (fst (fetch_loop env n st'))"
      using Suc.prems(1) p i
      by (auto simp: Let_def responseFromUndici_def split: sum.splits option.splits if_splits)
    with Suc.IH [of st'] Suc.prems(2) redirect_auth [OF _ prev] show ?thesis by metis
  qed
qed simp

text \<open>
  Credentials stay with their origin: whatever chain of redirects the servers answer
  with, no request that still carries an \<open>Authorization\<close> header goes to an origin other
  than the one the guest addressed.
\<close>

lemma fetch_authorization_confined:
  "list_all (\<lambda>(addr, st). origin_of env (currentUrl st) = origin_of env u)
     (filter (\<lambda>(addr, st). has_header ''authorization'' st) (fst (hardenedFetch env u method headers body)))"
  using loop_auth [of _ env "Suc MAX_REDIRECTS"]
  by (fastforce simp: hardenedFetch_def list_all_iff simp del: fetch_loop.simps)

end
