(* ===== verification/Names.thy ===== *)
theory Names
  imports Prelude
begin

text \<open>
  Identifiers and reserved names of \<open>packages/core/src/index.ts\<close>: the patterns for owners,
  repositories, triggers and queues, the response headers the platform owns, and the
  secret sentinels with their substitution
  (\<open>packages/runtime/src/triggers/resolve-secret-sentinels.ts\<close>).
\<close>

section \<open>Name patterns\<close>

definition is_upper :: "char \<Rightarrow> bool" where "is_upper c \<longleftrightarrow> CHR ''A'' \<le> c \<and> c \<le> CHR ''Z''"

definition is_lower :: "char \<Rightarrow> bool" where "is_lower c \<longleftrightarrow> CHR ''a'' \<le> c \<and> c \<le> CHR ''z''"

definition is_digit :: "char \<Rightarrow> bool" where "is_digit c \<longleftrightarrow> CHR ''0'' \<le> c \<and> c \<le> CHR ''9''"

abbreviation is_alpha :: "char \<Rightarrow> bool" where "is_alpha c \<equiv> is_upper c \<or> is_lower c"

abbreviation is_alnum :: "char \<Rightarrow> bool" where "is_alnum c \<equiv> is_alpha c \<or> is_digit c"

definition OWNER_NAME_RE :: "string \<Rightarrow> bool" where
  \<comment> \<open>\<open>/^[a-zA-Z0-9][a-zA-Z0-9_-]{0,62}$/\<close>\<close>
  "OWNER_NAME_RE s =
     (case s of
        [] \<Rightarrow> False
      | c # cs \<Rightarrow> is_alnum c \<and> list_all (\<lambda>d. is_alnum d \<or> d = CHR ''_'' \<or> d = CHR ''-'') cs \<and>
          length cs \<le> 62)"

definition REPO_NAME_RE :: "string \<Rightarrow> bool" where
  \<comment> \<open>\<open>/^[a-zA-Z0-9._-]{1,100}$/\<close>\<close>
  "REPO_NAME_RE s =
     (list_all (\<lambda>c. is_alnum c \<or> c = CHR ''.'' \<or> c = CHR ''_'' \<or> c = CHR ''-'') s \<and>
      1 \<le> length s \<and> length s \<le> 100)"

definition TRIGGER_NAME_RE :: "string \<Rightarrow> bool" where
  \<comment> \<open>\<open>/^[A-Za-z_][A-Za-z0-9_]{0,62}$/\<close>\<close>
  "TRIGGER_NAME_RE s =
     (case s of
        [] \<Rightarrow> False
      | c # cs \<Rightarrow> (is_alpha c \<or> c = CHR ''_'') \<and> list_all (\<lambda>d. is_alnum d \<or> d = CHR ''_'') cs \<and>
          length cs \<le> 62)"

definition QUEUE_NAME_RE :: "string \<Rightarrow> bool" where
  \<comment> \<open>\<open>/^[a-z][a-zA-Z0-9]*$/\<close>\<close>
  "QUEUE_NAME_RE s = (case s of [] \<Rightarrow> False | c # cs \<Rightarrow> is_lower c \<and> list_all is_alnum cs)"

definition SECRET_SENTINEL_NAME_RE :: "string \<Rightarrow> bool" where
  \<comment> \<open>\<open>/^[A-Za-z_][A-Za-z0-9_]*$/\<close>\<close>
  "SECRET_SENTINEL_NAME_RE s =
     (case s of
        [] \<Rightarrow> False
      | c # cs \<Rightarrow> (is_alpha c \<or> c = CHR ''_'') \<and> list_all (\<lambda>d. is_alnum d \<or> d = CHR ''_'') cs)"

lemmas char_class_defs = is_upper_def is_lower_def is_digit_def

lemma name_chars:
  "OWNER_NAME_RE s \<Longrightarrow> c \<in> set s \<Longrightarrow> is_alnum c \<or> c = CHR ''_'' \<or> c = CHR ''-''"
  "REPO_NAME_RE s \<Longrightarrow> c \<in> set s \<Longrightarrow> is_alnum c \<or> c = CHR ''.'' \<or> c = CHR ''_'' \<or> c = CHR ''-''"
  "TRIGGER_NAME_RE s \<Longrightarrow> c \<in> set s \<Longrightarrow> is_alnum c \<or> c = CHR ''_''"
  "SECRET_SENTINEL_NAME_RE s \<Longrightarrow> c \<in> set s \<Longrightarrow> is_alnum c \<or> c = CHR ''_''"
  by (auto simp: OWNER_NAME_RE_def REPO_NAME_RE_def TRIGGER_NAME_RE_def SECRET_SENTINEL_NAME_RE_def
      list_all_iff split: list.splits)

lemma name_no_slash:
  "OWNER_NAME_RE s \<Longrightarrow> CHR ''/'' \<notin> set s"
  "REPO_NAME_RE s \<Longrightarrow> CHR ''/'' \<notin> set s"
  "TRIGGER_NAME_RE s \<Longrightarrow> CHR ''/'' \<notin> set s"
  using name_chars [of s "CHR ''/''"] by (auto simp: char_class_defs less_eq_char_def)

lemma name_not_empty: "OWNER_NAME_RE s \<Longrightarrow> s \<noteq> []" "REPO_NAME_RE s \<Longrightarrow> s \<noteq> []" "TRIGGER_NAME_RE s \<Longrightarrow> s \<noteq> []"
  by (auto simp: OWNER_NAME_RE_def REPO_NAME_RE_def TRIGGER_NAME_RE_def)

section \<open>Reserved response headers\<close>

definition RESERVED_RESPONSE_HEADERS :: "string list" where
  "RESERVED_RESPONSE_HEADERS =
    [''set-cookie'', ''set-cookie2'', ''location'', ''refresh'', ''clear-site-data'', ''authorization'',
     ''proxy-authenticate'', ''www-authenticate'', ''content-security-policy'',
     ''content-security-policy-report-only'', ''strict-transport-security'', ''x-content-type-options'',
     ''x-frame-options'', ''referrer-policy'', ''cross-origin-opener-policy'',
     ''cross-origin-resource-policy'', ''cross-origin-embedder-policy'', ''permissions-policy'',
     ''server'', ''x-powered-by'']"

definition isReservedResponseHeader :: "string \<Rightarrow> bool" where
  "isReservedResponseHeader name = (toLowerCase name \<in> set RESERVED_RESPONSE_HEADERS)"

section \<open>Secret sentinels\<close>

definition NUL :: char where "NUL = CHR 0x00"

definition sentinel_prefix :: string where
  "sentinel_prefix = NUL # ''secret:''"

definition encodeSentinel :: "string \<Rightarrow> string option" where
  \<comment> \<open>\<open>None\<close>: the error for an invalid name\<close>
  "encodeSentinel name =
     (if SECRET_SENTINEL_NAME_RE name then Some (sentinel_prefix @ name @ [NUL]) else None)"

definition match_sentinel :: "string \<Rightarrow> (string \<times> string) option" where
  \<comment> \<open>the pattern \<open>SENTINEL_SUBSTRING_RE\<close> at the start of the text: the name and the rest\<close>
  "match_sentinel s =
     (if take (length sentinel_prefix) s = sentinel_prefix
      then (let r = drop (length sentinel_prefix) s;
                name = takeWhile (\<lambda>c. is_alnum c \<or> c = CHR ''_'') r;
                rest = dropWhile (\<lambda>c. is_alnum c \<or> c = CHR ''_'') r
            in case rest of
                 c # rest' \<Rightarrow> if SECRET_SENTINEL_NAME_RE name \<and> c = NUL then Some (name, rest') else None
               | [] \<Rightarrow> None)
      else None)"

lemma match_sentinel_shorter: "match_sentinel s = Some (name, rest) \<Longrightarrow> length rest < length s"
proof -
  assume m: "match_sentinel s = Some (name, rest)"
  let ?P = "\<lambda>c. is_alnum c \<or> c = CHR ''_''" and ?r = "drop (length sentinel_prefix) s"
  from m obtain c where "dropWhile ?P ?r = c # rest"
    by (auto simp: match_sentinel_def Let_def split: if_splits list.splits)
  then have "Suc (length rest) = length (dropWhile ?P ?r)" by simp
  moreover have "length (dropWhile ?P ?r) \<le> length ?r" by (rule length_dropWhile_le)
  ultimately show ?thesis by simp
qed

definition set_add :: "'a \<Rightarrow> 'a list \<Rightarrow> 'a list" where
  \<comment> \<open>\<open>Set.add\<close>\<close>
  "set_add x xs = (if x \<in> set xs then xs else xs @ [x])"

function replace_sentinels ::
  "(string, string) jsmap \<Rightarrow> string \<Rightarrow> string list \<Rightarrow> string \<times> string list" where
  \<comment> \<open>\<open>s.replace(SENTINEL_SUBSTRING_RE, ...)\<close> with the set of missing names threaded through\<close>
  "replace_sentinels store s missing =
     (case match_sentinel s of
        Some (name, rest) \<Rightarrow>
          (case map_get store name of
             Some plain \<Rightarrow> apfst (append plain) (replace_sentinels store rest missing)
           | None \<Rightarrow> apfst (append (sentinel_prefix @ name @ [NUL]))
               (replace_sentinels store rest (set_add name missing)))
      | None \<Rightarrow>
          (case s of
             [] \<Rightarrow> ([], missing)
           | c # cs \<Rightarrow> apfst (Cons c) (replace_sentinels store cs missing)))"
  by pat_completeness auto
termination
  by (relation "measure (\<lambda>(store, s, missing). length s)") (auto dest: match_sentinel_shorter)

declare replace_sentinels.simps [simp del]

fun includes_text :: "string \<Rightarrow> string \<Rightarrow> bool" where
  "includes_text needle [] = (needle = [])"
| "includes_text needle (c # cs) = (take (length needle) (c # cs) = needle \<or> includes_text needle cs)"

definition resolveString ::
  "(string, string) jsmap \<Rightarrow> string \<Rightarrow> string list \<Rightarrow> string \<times> string list" where
  "resolveString store s missing =
     (if \<not> includes_text sentinel_prefix s then (s, missing) else replace_sentinels store s missing)"

fun resolveSecretSentinels ::
  "(string, string) jsmap \<Rightarrow> json \<Rightarrow> string list \<Rightarrow> json \<times> string list"
and resolve_items :: "(string, string) jsmap \<Rightarrow> json list \<Rightarrow> string list \<Rightarrow> json list \<times> string list"
and resolve_fields ::
  "(string, string) jsmap \<Rightarrow> (string \<times> json) list \<Rightarrow> string list \<Rightarrow> (string \<times> json) list \<times> string list" where
  "resolveSecretSentinels store (JStr s) missing = apfst JStr (resolveString store s missing)"
| "resolveSecretSentinels store (JArr vs) missing = apfst JArr (resolve_items store vs missing)"
| "resolveSecretSentinels store (JObj fs) missing = apfst JObj (resolve_fields store fs missing)"
| "resolveSecretSentinels store JNull missing = (JNull, missing)"
| "resolveSecretSentinels store (JBool b) missing = (JBool b, missing)"
| "resolveSecretSentinels store (JNum n) missing = (JNum n, missing)"
| "resolve_items store [] missing = ([], missing)"
| "resolve_items store (v # vs) missing =
     (case resolveSecretSentinels store v missing of (v', m1) \<Rightarrow>
        apfst (Cons v') (resolve_items store vs m1))"
| "resolve_fields store [] missing = ([], missing)"
| "resolve_fields store ((k, v) # fs) missing =
     (case resolveSecretSentinels store v missing of (v', m1) \<Rightarrow>
        apfst (Cons (k, v')) (resolve_fields store fs m1))"

section \<open>Texts with sentinels\<close>

text \<open>A configuration string as the build writes it: literal text and references to secrets.\<close>

datatype segment = Lit string | Ref string

fun seg_ok :: "segment \<Rightarrow> bool" where
  "seg_ok (Lit t) = (NUL \<notin> set t)"
| "seg_ok (Ref n) = SECRET_SENTINEL_NAME_RE n"

fun seg_text :: "segment \<Rightarrow> string" where
  "seg_text (Lit t) = t"
| "seg_text (Ref n) = (case encodeSentinel n of Some s \<Rightarrow> s | None \<Rightarrow> [])"

fun seg_plain :: "(string, string) jsmap \<Rightarrow> segment \<Rightarrow> string" where
  "seg_plain store (Lit t) = t"
| "seg_plain store (Ref n) = (case map_get store n of Some p \<Rightarrow> p | None \<Rightarrow> seg_text (Ref n))"

fun seg_missing :: "(string, string) jsmap \<Rightarrow> string list \<Rightarrow> segment \<Rightarrow> string list" where
  "seg_missing store m (Lit t) = m"
| "seg_missing store m (Ref n) = (if map_has store n then m else set_add n m)"

lemma sentinel_name_no_nul: "SECRET_SENTINEL_NAME_RE n \<Longrightarrow> c \<in> set n \<Longrightarrow> c \<noteq> NUL"
  using name_chars(4) [of n c] by (auto simp: NUL_def char_class_defs less_eq_char_def)

lemma nul_not_name_char: "\<not> (is_alnum NUL \<or> NUL = CHR ''_'')"
  by (simp add: NUL_def char_class_defs less_eq_char_def)

lemma match_encoded:
  assumes "SECRET_SENTINEL_NAME_RE n"
  shows "match_sentinel (sentinel_prefix @ n @ NUL # s) = Some (n, s)"
proof -
  let ?P = "\<lambda>c. is_alnum c \<or> c = CHR ''_''"
  have "\<forall>c \<in> set n. ?P c" using name_chars(4) [OF assms] by blast
  then have "takeWhile ?P (n @ NUL # s) = n" "dropWhile ?P (n @ NUL # s) = NUL # s"
    using nul_not_name_char by (simp_all add: takeWhile_append2 dropWhile_append2)
  with assms show ?thesis by (simp add: match_sentinel_def Let_def)
qed

lemma no_match_without_nul: "c \<noteq> NUL \<Longrightarrow> match_sentinel (c # s) = None"
  by (simp add: match_sentinel_def sentinel_prefix_def)

lemma replace_literal:
  "NUL \<notin> set t \<Longrightarrow> replace_sentinels store (t @ s) m = apfst (append t) (replace_sentinels store s m)"
proof (induction t)
  case Nil
  then show ?case by (cases "replace_sentinels store s m") simp
next
  case (Cons c t)
  then have "c \<noteq> NUL" by auto
  with Cons show ?case
    by (simp add: replace_sentinels.simps [of store "c # t @ s"] no_match_without_nul
        apfst_compose comp_def)
qed

lemma replace_segments:
  "list_all seg_ok segs \<Longrightarrow>
     replace_sentinels store (concat (map seg_text segs)) m =
       (concat (map (seg_plain store) segs), foldl (seg_missing store) m segs)"
proof (induction segs arbitrary: m)
  case Nil
  then show ?case by (simp add: replace_sentinels.simps match_sentinel_def sentinel_prefix_def)
next
  case (Cons x segs)
  show ?case
  proof (cases x)
    case (Lit t)
    with Cons show ?thesis by (simp add: replace_literal)
  next
    case (Ref n)
    with Cons.prems have n: "SECRET_SENTINEL_NAME_RE n" by simp
    let ?rest = "concat (map seg_text segs)"
    have "concat (map seg_text (x # segs)) = sentinel_prefix @ n @ NUL # ?rest"
      using n Ref by (simp add: encodeSentinel_def)
    then show ?thesis
      using Cons Ref n replace_sentinels.simps [of store "sentinel_prefix @ n @ NUL # ?rest" m]
      by (simp add: match_encoded encodeSentinel_def split: option.split)
  qed
qed

lemma includes_prefix:
  "includes_text sentinel_prefix s = (\<exists>a b. s = a @ sentinel_prefix @ b)"
proof (induction s)
  case (Cons c s)
  have "take (length sentinel_prefix) (c # s) = sentinel_prefix \<longleftrightarrow> (\<exists>b. c # s = sentinel_prefix @ b)"
    by (metis append_eq_conv_conj append_take_drop_id)
  with Cons.IH show ?case by (auto simp: Cons_eq_append_conv)
qed (simp add: sentinel_prefix_def)

lemma replace_no_prefix:
  assumes "list_all seg_ok segs" and "\<not> includes_text sentinel_prefix (concat (map seg_text segs))"
  shows "concat (map seg_text segs) = concat (map (seg_plain store) segs) \<and> foldl (seg_missing store) m segs = m"
proof -
  have "list_all (\<lambda>x. \<exists>t. x = Lit t) segs"
    unfolding list_all_iff
  proof
    fix x assume x: "x \<in> set segs"
    show "\<exists>t. x = Lit t"
    proof (cases x)
      case (Ref n)
      obtain a b where "segs = a @ x # b" using split_list [OF x] by blast
      with assms Ref show ?thesis by (auto simp: includes_prefix encodeSentinel_def)
    qed simp
  qed
  then show ?thesis by (induction segs arbitrary: m) auto
qed

text \<open>
  \<^bold>\<open>C14\<close>. Secret substitution is exact: in a text made of NUL-free literals and encoded secret
  references, every reference to a known secret is replaced by its plaintext, which is not
  scanned again, every other reference stays as written and its name is reported once, in
  order of first appearance, and literal text is untouched.
\<close>

theorem sentinels_resolved_exactly:
  assumes "list_all seg_ok segs"
  shows "resolveString store (concat (map seg_text segs)) m =
    (concat (map (seg_plain store) segs), foldl (seg_missing store) m segs)"
  using replace_segments [OF assms, of store m] replace_no_prefix [OF assms, of store m]
  by (auto simp: resolveString_def)

theorem sentinels_resolved_exactly_witness:
  "list_all seg_ok [Lit ''host=a'', Ref ''DB'', Ref ''PW''] \<and>
   resolveString [(''DB'', ''x'')] (concat (map seg_text [Lit ''host=a'', Ref ''DB'', Ref ''PW''])) [] =
     (''host=ax'' @ sentinel_prefix @ ''PW'' @ [NUL], [''PW''])"
proof -
  have ok: "list_all seg_ok [Lit ''host=a'', Ref ''DB'', Ref ''PW'']"
    by (simp add: NUL_def SECRET_SENTINEL_NAME_RE_def char_class_defs less_eq_char_def)
  with sentinels_resolved_exactly [OF ok, of "[(''DB'', ''x'')]" "[]"] show ?thesis
    by (simp add: encodeSentinel_def set_add_def SECRET_SENTINEL_NAME_RE_def char_class_defs less_eq_char_def)
qed

end
