(* ===== verification/RunQueue.thy ===== *)
theory RunQueue
  imports Prelude
begin

text \<open>
  Promise-chain serializers: \<open>createRunQueue\<close>
  (\<open>packages/runtime/src/executor/run-queue.ts\<close>) and \<open>runExclusive\<close> of
  \<open>packages/runtime/src/event-store.ts\<close>.

  Scheduling the k-th function creates two promises: \<open>myTurn\<close>, chained off the current
  tail, and the new tail, chained off \<open>myTurn\<close>. \<open>turns ! k\<close> is the state of the k-th
  \<open>myTurn\<close> and \<open>tails ! k\<close> the tail it is chained off; \<open>tails ! 0\<close> is the initial
  \<open>Promise.resolve()\<close>. The steps are the reactions of the promise machinery in any
  order: a function starts when its tail fulfils, it settles, and its settlement is
  passed to the next tail through the handlers the code attaches.
\<close>

datatype turn = Waiting | Running | Settled bool

datatype tail = TailPending | TailFulfilled | TailRejected

record chain =
  turns :: "turn list"
  tails :: "tail list"

definition createRunQueue :: chain where
  "createRunQueue = \<lparr>turns = [], tails = [TailFulfilled]\<rparr>"

definition schedule :: "chain \<Rightarrow> chain" where
  "schedule c = c\<lparr>turns := turns c @ [Waiting], tails := tails c @ [TailPending]\<rparr>"

fun swallow :: "bool \<Rightarrow> tail" where
  \<comment> \<open>\<open>myTurn.then(() => undefined, () => undefined)\<close>\<close>
  "swallow True = TailFulfilled"
| "swallow False = TailFulfilled"

inductive chain_step :: "bool \<Rightarrow> chain \<Rightarrow> chain \<Rightarrow> bool" for both :: bool where
  \<comment> \<open>\<open>both\<close>: the function is also the rejection handler, \<open>writeChain.then(fn, fn)\<close>;
      otherwise \<open>tail.then(fn)\<close>\<close>
  step_schedule: "chain_step both c (schedule c)"
| step_start: "k < length (turns c) \<Longrightarrow> turns c ! k = Waiting \<Longrightarrow>
     tails c ! k = TailFulfilled \<or> both \<and> tails c ! k = TailRejected \<Longrightarrow>
     chain_step both c (c\<lparr>turns := (turns c)[k := Running]\<rparr>)"
| step_skip: "k < length (turns c) \<Longrightarrow> turns c ! k = Waiting \<Longrightarrow>
     tails c ! k = TailRejected \<Longrightarrow> \<not> both \<Longrightarrow>
     chain_step both c (c\<lparr>turns := (turns c)[k := Settled False]\<rparr>)"
| step_settle: "k < length (turns c) \<Longrightarrow> turns c ! k = Running \<Longrightarrow>
     chain_step both c (c\<lparr>turns := (turns c)[k := Settled ok]\<rparr>)"
| step_tail: "k < length (turns c) \<Longrightarrow> turns c ! k = Settled ok \<Longrightarrow> tails c ! Suc k = TailPending \<Longrightarrow>
     chain_step both c (c\<lparr>tails := (tails c)[Suc k := swallow ok]\<rparr>)"

definition chain_reach :: "bool \<Rightarrow> chain \<Rightarrow> bool" where
  "chain_reach both = reach (\<lambda>c. c = createRunQueue) (chain_step both)"

definition chain_inv :: "chain \<Rightarrow> bool" where
  "chain_inv c \<longleftrightarrow>
     length (tails c) = Suc (length (turns c)) \<and>
     tails c ! 0 = TailFulfilled \<and>
     (\<forall>k<length (tails c). tails c ! k \<noteq> TailRejected) \<and>
     (\<forall>k<length (turns c). tails c ! Suc k = TailFulfilled \<longrightarrow> (\<exists>ok. turns c ! k = Settled ok)) \<and>
     (\<forall>k<length (turns c). turns c ! k \<noteq> Waiting \<longrightarrow> tails c ! k = TailFulfilled)"

lemma swallow_fulfils [simp]: "swallow ok = TailFulfilled"
  by (cases ok) simp_all

lemma chain_inv_step:
  assumes "chain_inv c" and "chain_step both c c'"
  shows "chain_inv c'"
  using assms(2)
proof cases
  case step_schedule
  with assms(1) show ?thesis
    by (auto simp: chain_inv_def schedule_def nth_append less_Suc_eq)
next
  case (step_start k)
  with assms(1) show ?thesis
    by (auto simp: chain_inv_def nth_list_update)
next
  case (step_skip k)
  with assms(1) show ?thesis by (auto simp: chain_inv_def)
next
  case (step_settle k ok)
  with assms(1) show ?thesis
    by (auto simp: chain_inv_def nth_list_update)
next
  case (step_tail k ok)
  with assms(1) show ?thesis
    by (auto simp: chain_inv_def nth_list_update)
qed

interpretation chain: invariant_system "\<lambda>c. c = createRunQueue" "chain_step both" chain_inv for both
  by unfold_locales (simp add: chain_inv_def createRunQueue_def, rule chain_inv_step)

lemma chain_reach_inv: "chain_reach both c \<Longrightarrow> chain_inv c"
  unfolding chain_reach_def by (rule chain.reach_inv)

lemma started_after_earlier:
  assumes "chain_inv c" and "k < length (turns c)" and "turns c ! k \<noteq> Waiting" and "j < k"
  shows "\<exists>ok. turns c ! j = Settled ok"
  using assms(2-4)
proof (induction k)
  case (Suc k)
  have "tails c ! Suc k = TailFulfilled" using assms(1) Suc.prems by (simp add: chain_inv_def)
  then obtain ok where k: "turns c ! k = Settled ok"
    using assms(1) Suc.prems(1) unfolding chain_inv_def by (metis Suc_lessD)
  show ?case
  proof (cases "j = k")
    case False
    with Suc k show ?thesis by simp
  qed (use k in auto)
qed simp

lemma first_unsettled:
  assumes "i < length ts" and "\<forall>ok. ts ! i \<noteq> Settled ok"
  shows "\<exists>k<length ts. (\<forall>ok. ts ! k \<noteq> Settled ok) \<and> (\<forall>j<k. \<exists>ok. ts ! j = Settled ok)"
proof -
  let ?P = "\<lambda>k. \<forall>ok. ts ! k \<noteq> Settled ok"
  have "?P (LEAST k. ?P k)" using assms(2) by (rule LeastI)
  moreover have "(LEAST k. ?P k) \<le> i" using assms(2) by (rule Least_le)
  moreover have "\<forall>j<LEAST k. ?P k. \<exists>ok. ts ! j = Settled ok" using not_less_Least [of _ ?P] by blast
  ultimately show ?thesis using assms(1) by (meson le_less_trans)
qed

lemma waiting_progress:
  assumes "chain_inv c" and "i < length (turns c)" and "turns c ! i = Waiting"
    and "\<forall>k<length (turns c). turns c ! k \<noteq> Running"
  shows "\<exists>c'. chain_step both c c' \<and> length (turns c') = length (turns c) \<and> c' \<noteq> c"
proof -
  have "\<forall>ok. turns c ! i \<noteq> Settled ok" using assms(3) by simp
  from first_unsettled [OF assms(2) this] obtain k where
    k: "k < length (turns c)" "\<forall>ok. turns c ! k \<noteq> Settled ok" "\<forall>j<k. \<exists>ok. turns c ! j = Settled ok"
    by blast
  have w: "turns c ! k = Waiting" using k(1,2) assms(4) by (cases "turns c ! k") auto
  show ?thesis
  proof (cases "tails c ! k = TailFulfilled")
    case True
    have "(turns c)[k := Running] ! k \<noteq> turns c ! k" using k(1) w by simp
    then have "turns (c\<lparr>turns := (turns c)[k := Running]\<rparr>) \<noteq> turns c" by auto
    then have "c\<lparr>turns := (turns c)[k := Running]\<rparr> \<noteq> c" by (rule contrapos_nn) simp
    moreover have "chain_step both c (c\<lparr>turns := (turns c)[k := Running]\<rparr>)"
      using k(1) w True by (intro step_start) auto
    ultimately show ?thesis by (intro exI) auto
  next
    case False
    have "tails c ! k \<noteq> TailRejected" using assms(1) k(1) by (simp add: chain_inv_def)
    with False have pend: "tails c ! k = TailPending" by (cases "tails c ! k") auto
    then obtain j where j: "k = Suc j" using assms(1) by (cases k) (auto simp: chain_inv_def)
    obtain ok where ok: "turns c ! j = Settled ok" using k(3) j by auto
    have len: "Suc j < length (tails c)" using assms(1) k(1) j by (simp add: chain_inv_def)
    have "(tails c)[Suc j := swallow ok] ! Suc j \<noteq> tails c ! Suc j" using len pend j by simp
    then have "tails (c\<lparr>tails := (tails c)[Suc j := swallow ok]\<rparr>) \<noteq> tails c" by auto
    then have "c\<lparr>tails := (tails c)[Suc j := swallow ok]\<rparr> \<noteq> c" by (rule contrapos_nn) simp
    moreover have "chain_step both c (c\<lparr>tails := (tails c)[Suc j := swallow ok]\<rparr>)"
      using k(1) j ok pend by (intro step_tail) auto
    ultimately show ?thesis by (intro exI) auto
  qed
qed

section \<open>Properties\<close>


lemma reach_failed_first:
  "chain_reach both \<lparr>turns = [Settled False, Waiting], tails = [TailFulfilled, TailPending, TailPending]\<rparr>"
proof -
  let ?step = "reach (\<lambda>c. c = createRunQueue) (chain_step both)"
  have "?step createRunQueue" by (rule reach_init) simp
  from reach_step [OF this step_schedule] have
    "?step \<lparr>turns = [Waiting], tails = [TailFulfilled, TailPending]\<rparr>"
    by (simp add: createRunQueue_def schedule_def)
  from reach_step [OF this step_start [of 0]] have
    "?step \<lparr>turns = [Running], tails = [TailFulfilled, TailPending]\<rparr>" by simp
  from reach_step [OF this step_settle [of 0 _ _ False]] have
    "?step \<lparr>turns = [Settled False], tails = [TailFulfilled, TailPending]\<rparr>" by simp
  from reach_step [OF this step_schedule] show ?thesis
    by (simp add: chain_reach_def schedule_def)
qed


end
