(* ===== verification/Sequencer.thy ===== *)
theory Sequencer
  imports Prelude
begin

text \<open>
  The event path from the sandbox worker to the main thread.

  Worker side, \<open>packages/sandbox/src/bridge.ts\<close>: \<open>buildEvent\<close> gates on the run window
  and mints the call ids of opening events from a per-run counter. Main side,
  \<open>packages/sandbox/src/run-sequencer.ts\<close>: \<open>start\<close>, \<open>next\<close> and \<open>finish\<close> stamp
  \<open>seq\<close> and \<open>ref\<close> and synthesise the closing events of a dead worker's open frames.
  The logger is a list of warnings in the state. Clock readings are inputs of
  \<open>buildEvent\<close>.

  The lemmas show that the two data structures of the sequencer (the stack of open
  sequence numbers and the map of open calls) stay in step when call ids are minted by
  the bridge, that sequence numbers are dense, that every frame is closed exactly once,
  and that the sequencer implements a specification with one list of open frames.
\<close>

section \<open>Events\<close>

record event_error =
  err_message :: string
  err_stack :: "string option"
  err_issues :: "json option"
  err_kind :: "string option"

record sandbox_event =
  se_kind :: string
  se_seq :: nat
  se_ref :: "nat option"
  se_at :: string
  se_ts :: int
  se_name :: string
  se_input :: "json option"
  se_output :: "json option"
  se_error :: "event_error option"

datatype wire_framing = Leaf | Open nat | Close nat

record wire_event =
  w_kind :: string
  w_name :: string
  w_ts :: int
  w_at :: string
  w_input :: "json option"
  w_output :: "json option"
  w_error :: "event_error option"
  w_type :: wire_framing

section \<open>Worker side: minting call ids\<close>

datatype emit_framing = ELeaf | EOpen | EClose nat

record emit_call =
  ec_kind :: string
  ec_name :: string
  ec_framing :: emit_framing
  ec_input :: "json option"
  ec_output :: "json option"
  ec_error :: "event_error option"
  ec_at :: string
  ec_ts :: int

record bridge =
  nextCallId :: nat
  b_runActive :: bool

definition setRunActive :: "bridge \<Rightarrow> bridge" where
  "setRunActive b = b\<lparr>b_runActive := True\<rparr>"

definition clearRunActive :: "bridge \<Rightarrow> bridge" where
  "clearRunActive b = b\<lparr>b_runActive := False\<rparr>"

definition resetCallIds :: "bridge \<Rightarrow> bridge" where
  "resetCallIds b = b\<lparr>nextCallId := 0\<rparr>"

definition rebind :: "bridge \<Rightarrow> bridge" where
  "rebind b = b\<lparr>b_runActive := False, nextCallId := 0\<rparr>"

fun toWireFraming :: "bridge \<Rightarrow> emit_framing \<Rightarrow> bridge \<times> wire_framing \<times> nat" where
  "toWireFraming b ELeaf = (b, Leaf, 0)"
| "toWireFraming b EOpen =
     (b\<lparr>nextCallId := Suc (nextCallId b)\<rparr>, Open (nextCallId b), nextCallId b)"
| "toWireFraming b (EClose c) = (b, Close c, 0)"

definition buildEvent :: "bridge \<Rightarrow> emit_call \<Rightarrow> bridge \<times> wire_event option \<times> nat" where
  "buildEvent b e =
     (if \<not> b_runActive b then (b, None, 0)
      else (case toWireFraming b (ec_framing e) of (b', wireType, assignedId) \<Rightarrow>
        (b',
         Some \<lparr>w_kind = ec_kind e, w_name = ec_name e, w_ts = ec_ts e, w_at = ec_at e,
               w_input = ec_input e, w_output = ec_output e, w_error = ec_error e,
               w_type = wireType\<rparr>,
         assignedId)))"

definition bridge_step :: "bridge \<Rightarrow> emit_call \<Rightarrow> bridge \<times> wire_event option" where
  "bridge_step b e = (case buildEvent b e of (b', w, _) \<Rightarrow> (b', w))"

section \<open>Main side: the sequencer\<close>

record call_map_entry =
  openSeq :: nat
  ce_name :: string
  ce_kind :: string
  ce_closeKind :: string

datatype seq_warning =
    DirtyStart nat nat nat
  | EventOutsideRun string string string
  | CloseWithoutOpen string string nat
  | DanglingFrame nat "string list"

record sequencer =
  seq :: nat
  refStack :: "nat list"
  callMap :: "(nat, call_map_entry) jsmap"
  runActive :: bool
  lastSeenTs :: int
  lastSeenAt :: string
  seq_log :: "seq_warning list"

definition synthCloseKind :: "string \<Rightarrow> string" where
  "synthCloseKind openKind =
     (let prefix = (case indexOf CHR ''.'' openKind of
                      None \<Rightarrow> openKind
                    | Some dot \<Rightarrow> take dot openKind)
      in prefix @ ''.error'')"

definition createRunSequencer :: sequencer where
  "createRunSequencer =
     \<lparr>seq = 0, refStack = [], callMap = [], runActive = False,
      lastSeenTs = 0, lastSeenAt = '''', seq_log = []\<rparr>"

definition start_run :: "sequencer \<Rightarrow> sequencer" where
  "start_run s =
     (if seq s \<noteq> 0 \<or> length (refStack s) > 0 \<or> length (callMap s) > 0
      then s\<lparr>seq := 0, refStack := [], callMap := [], runActive := True,
             seq_log := seq_log s @
               [DirtyStart (seq s) (length (refStack s)) (length (callMap s))]\<rparr>
      else s\<lparr>runActive := True\<rparr>)"

definition buildSandboxEvent :: "wire_event \<Rightarrow> nat \<Rightarrow> nat option \<Rightarrow> sandbox_event" where
  "buildSandboxEvent w assignedSeq ref =
     \<lparr>se_kind = w_kind w, se_seq = assignedSeq, se_ref = ref, se_at = w_at w, se_ts = w_ts w,
      se_name = w_name w, se_input = w_input w, se_output = w_output w, se_error = w_error w\<rparr>"

definition remove_open :: "nat \<Rightarrow> nat list \<Rightarrow> nat list" where
  \<comment> \<open>the pop fast path and the splice fallback of \<open>handleClose\<close>\<close>
  "remove_open n stack =
     (if array_last stack = Some n then butlast stack
      else (case lastIndexOf n stack of None \<Rightarrow> stack | Some idx \<Rightarrow> splice1 idx stack))"

definition handleClose :: "sequencer \<Rightarrow> wire_event \<Rightarrow> nat \<Rightarrow> sequencer \<times> sandbox_event option" where
  "handleClose s w callId =
     (case map_get (callMap s) callId of
        None \<Rightarrow> (s\<lparr>seq_log := seq_log s @ [CloseWithoutOpen (w_kind w) (w_name w) callId]\<rparr>, None)
      | Some entry \<Rightarrow>
          (s\<lparr>seq := Suc (seq s),
             refStack := remove_open (openSeq entry) (refStack s),
             callMap := map_delete callId (callMap s)\<rparr>,
           Some (buildSandboxEvent w (seq s) (Some (openSeq entry)))))"

definition next_event :: "sequencer \<Rightarrow> wire_event \<Rightarrow> sequencer \<times> sandbox_event option" where
  "next_event s w =
     (if \<not> runActive s
      then (s\<lparr>seq_log := seq_log s @ [EventOutsideRun (w_kind w) (w_name w) (w_at w)]\<rparr>, None)
      else
        let s1 = s\<lparr>lastSeenTs := w_ts w, lastSeenAt := w_at w\<rparr> in
        (case w_type w of
           Leaf \<Rightarrow>
             (s1\<lparr>seq := Suc (seq s1)\<rparr>,
              Some (buildSandboxEvent w (seq s1) (array_last (refStack s1))))
         | Open callId \<Rightarrow>
             (s1\<lparr>seq := Suc (seq s1),
                 refStack := refStack s1 @ [seq s1],
                 callMap := map_set callId
                   \<lparr>openSeq = seq s1, ce_name = w_name w, ce_kind = w_kind w,
                    ce_closeKind = synthCloseKind (w_kind w)\<rparr> (callMap s1)\<rparr>,
              Some (buildSandboxEvent w (seq s1) (array_last (refStack s1))))
         | Close callId \<Rightarrow> handleClose s1 w callId))"

definition synth_close :: "sequencer \<Rightarrow> string \<Rightarrow> nat \<Rightarrow> call_map_entry \<Rightarrow> sandbox_event" where
  "synth_close s closeReason assignedSeq entry =
     \<lparr>se_kind = ce_closeKind entry, se_seq = assignedSeq, se_ref = Some (openSeq entry),
      se_at = lastSeenAt s, se_ts = lastSeenTs s, se_name = ce_name entry,
      se_input = None, se_output = None,
      se_error = Some \<lparr>err_message = closeReason, err_stack = None, err_issues = None,
                       err_kind = None\<rparr>\<rparr>"

fun synth_closes :: "sequencer \<Rightarrow> string \<Rightarrow> nat \<Rightarrow> call_map_entry list \<Rightarrow> sandbox_event list" where
  "synth_closes s reason n [] = []"
| "synth_closes s reason n (entry # entries) =
     synth_close s reason n entry # synth_closes s reason (Suc n) entries"

definition zeroed :: "sequencer \<Rightarrow> sequencer" where
  "zeroed s = s\<lparr>seq := 0, refStack := [], callMap := [], runActive := False,
                lastSeenTs := 0, lastSeenAt := ''''\<rparr>"

definition finish :: "sequencer \<Rightarrow> string option \<Rightarrow> sequencer \<times> sandbox_event list" where
  "finish s closeReason =
     (if length (callMap s) > 0 then
        (case closeReason of
           None \<Rightarrow>
             (zeroed (s\<lparr>seq_log := seq_log s @
                [DanglingFrame (length (callMap s)) (map ce_kind (vals (callMap s)))]\<rparr>), [])
         | Some reason \<Rightarrow>
             (zeroed s, synth_closes s reason (seq s) (rev (vals (callMap s)))))
      else (zeroed s, []))"

lemmas sequencer_defs = next_event_def handleClose_def buildSandboxEvent_def Let_def

section \<open>Dense sequence numbers\<close>

lemma next_event_silent: "next_event s w = (s', None) \<Longrightarrow> seq s' = seq s"
  by (auto simp: sequencer_defs split: if_splits wire_framing.splits option.splits)

lemma next_event_stamp:
  "next_event s w = (s', Some e) \<Longrightarrow> se_seq e = seq s \<and> seq s' = Suc (seq s)"
  by (auto simp: sequencer_defs split: if_splits wire_framing.splits option.splits)

interpretation sequenced: stamper next_event seq se_seq
  by unfold_locales (auto dest: next_event_stamp next_event_silent)

lemma synth_closes_seqs: "map se_seq (synth_closes s r n es) = [n ..< n + length es]"
  by (induction es arbitrary: n) (simp_all add: synth_close_def upt_rec)

lemma synth_closes_refs: "map se_ref (synth_closes s r n es) = map (Some \<circ> openSeq) es"
  by (induction es arbitrary: n) (simp_all add: synth_close_def)

lemma synth_closes_kinds: "map se_kind (synth_closes s r n es) = map ce_closeKind es"
  by (induction es arbitrary: n) (simp_all add: synth_close_def)

lemma synth_closes_mem:
  "e \<in> set (synth_closes s r n es) \<Longrightarrow> \<exists>m v. v \<in> set es \<and> e = synth_close s r m v"
  by (induction es arbitrary: n) (auto, blast)

lemma length_synth_closes [simp]: "length (synth_closes s r n es) = length es"
  by (induction es arbitrary: n) simp_all

lemma finish_reason:
  "snd (finish s (Some reason)) = synth_closes s reason (seq s) (rev (vals (callMap s)))"
  by (simp add: finish_def)

lemma finish_state: "\<exists>l. fst (finish s r) = zeroed (s\<lparr>seq_log := l\<rparr>)"
proof -
  have "zeroed s = zeroed (s\<lparr>seq_log := seq_log s\<rparr>)" by simp
  then show ?thesis
    by (cases r) (auto simp: finish_def intro: exI [of _ "seq_log s"])
qed

section \<open>The two frame structures stay in step\<close>

definition fresh_open :: "sequencer \<Rightarrow> wire_event \<Rightarrow> bool" where
  "fresh_open s w \<longleftrightarrow> (case w_type w of Open c \<Rightarrow> c \<notin> set (keys (callMap s)) | _ \<Rightarrow> True)"

definition seq_inv :: "sequencer \<Rightarrow> bool" where
  "seq_inv s \<longleftrightarrow>
     distinct (keys (callMap s)) \<and>
     refStack s = map openSeq (vals (callMap s)) \<and>
     sorted_wrt (<) (refStack s) \<and>
     (\<forall>n \<in> set (refStack s). n < seq s)"

lemma seq_inv_sorted: "seq_inv s \<Longrightarrow> sorted_wrt (<) (refStack s)"
  unfolding seq_inv_def by blast

lemma seq_inv_distinct: "seq_inv s \<Longrightarrow> distinct (refStack s)"
  unfolding seq_inv_def by (metis strict_sorted_iff)

lemma remove_open_distinct:
  assumes "distinct st"
  shows "remove_open n st = filter (\<lambda>m. m \<noteq> n) st"
proof (cases "array_last st = Some n")
  case True
  then have "st \<noteq> []" "last st = n" by (auto simp: array_last_def split: if_splits)
  with assms True show ?thesis by (simp add: remove_open_def butlast_distinct)
next
  case False
  show ?thesis
  proof (cases "lastIndexOf n st")
    case None
    then have "filter (\<lambda>m. m \<noteq> n) st = st"
      by (auto simp: lastIndexOf_None filter_id_conv)
    with None False show ?thesis by (simp add: remove_open_def)
  next
    case (Some i)
    from lastIndexOf_Some [OF Some] have "i < length st" "st ! i = n" by auto
    with assms Some False show ?thesis
      by (simp add: remove_open_def splice1_distinct)
  qed
qed

lemma vals_delete_distinct:
  assumes "distinct (map f (vals m))" and "distinct (keys m)" and "map_get m c = Some v"
  shows "map f (vals (map_delete c m)) = filter (\<lambda>x. x \<noteq> f v) (map f (vals m))"
  using assms
proof (induction m)
  case (Cons p m)
  obtain k u where p: "p = (k, u)" by (cases p)
  show ?case
  proof (cases "k = c")
    case True
    with Cons.prems p have "v = u" "c \<notin> set (keys m)" "f u \<notin> set (map f (vals m))" by auto
    then have "map_delete c m = m" "filter (\<lambda>x. x \<noteq> f v) (map f (vals m)) = map f (vals m)"
      by (simp_all add: filter_id_conv, force)
    with True p \<open>v = u\<close> show ?thesis by simp
  next
    case False
    with Cons.prems p have g: "map_get m c = Some v" by simp
    from map_of_SomeD [OF g] Cons.prems(1) p have "f u \<noteq> f v" by force
    with False Cons g p show ?thesis by simp
  qed
qed simp

lemma handleClose_inv:
  assumes "seq_inv s"
  shows "seq_inv (fst (handleClose s w c))"
proof (cases "map_get (callMap s) c")
  case None
  with assms show ?thesis by (auto simp: handleClose_def seq_inv_def)
next
  case (Some v)
  from assms have d: "distinct (map openSeq (vals (callMap s)))" "distinct (keys (callMap s))"
    using seq_inv_distinct [OF assms] by (auto simp: seq_inv_def)
  have "remove_open (openSeq v) (refStack s) = map openSeq (vals (map_delete c (callMap s)))"
    using vals_delete_distinct [OF d Some] seq_inv_distinct [OF assms] assms
    by (simp add: remove_open_distinct seq_inv_def)
  moreover have "sorted_wrt (<) (remove_open (openSeq v) (refStack s))"
    "set (remove_open (openSeq v) (refStack s)) \<subseteq> set (refStack s)"
    using assms seq_inv_distinct [OF assms]
    by (auto simp: remove_open_distinct seq_inv_def sorted_wrt_filter)
  ultimately show ?thesis
    using assms d Some by (fastforce simp: handleClose_def seq_inv_def)
qed

lemma seq_inv_clock [simp]:
  "seq_inv (s\<lparr>lastSeenTs := t, lastSeenAt := a\<rparr>) = seq_inv s"
  "seq_inv (s\<lparr>seq_log := l\<rparr>) = seq_inv s"
  by (simp_all add: seq_inv_def)

lemma next_event_inv:
  assumes "seq_inv s" and "fresh_open s w"
  shows "seq_inv (fst (next_event s w))"
proof (cases "w_type w")
  case Leaf
  with assms show ?thesis by (auto simp: next_event_def seq_inv_def Let_def less_Suc_eq)
next
  case (Open c)
  with assms(2) have "c \<notin> set (keys (callMap s))" by (simp add: fresh_open_def)
  with Open assms(1) show ?thesis
    by (auto simp: next_event_def seq_inv_def Let_def map_set_fresh sorted_wrt_append less_Suc_eq)
next
  case (Close c)
  with handleClose_inv [of "s\<lparr>lastSeenTs := w_ts w, lastSeenAt := w_at w\<rparr>" w c] assms(1)
  show ?thesis by (auto simp: next_event_def Let_def)
qed

lemma seq_inv_create: "seq_inv createRunSequencer"
  by (simp add: seq_inv_def createRunSequencer_def)

lemma seq_inv_start: "seq_inv s \<Longrightarrow> seq_inv (start_run s)"
  by (simp add: seq_inv_def start_run_def)

lemma seq_inv_finish: "seq_inv (fst (finish s r))"
  using finish_state [of s r] by (auto simp: seq_inv_def zeroed_def)

section \<open>The two sides joined\<close>

text \<open>
  One \<open>emit\<close> of the worker followed by the main thread's \<open>next\<close>: the message port
  delivers wire events in order (\<open>dispatchWireEvent\<close> in \<open>sandbox.ts\<close>). The output
  keeps the framing beside the stamped event, for the statements below.
\<close>

definition pipe_step ::
  "bridge \<times> sequencer \<Rightarrow> emit_call \<Rightarrow> (bridge \<times> sequencer) \<times> (wire_framing \<times> sandbox_event) option" where
  "pipe_step bs e =
     (case bridge_step (fst bs) e of
        (b', None) \<Rightarrow> ((b', snd bs), None)
      | (b', Some w) \<Rightarrow>
          (case next_event (snd bs) w of (s', out) \<Rightarrow>
             ((b', s'), map_option (Pair (w_type w)) out)))"

definition run_window :: "bridge \<Rightarrow> sequencer \<Rightarrow> bridge \<times> sequencer" where
  "run_window b s = (setRunActive (resetCallIds b), start_run s)"

definition pipe_inv :: "bridge \<times> sequencer \<Rightarrow> bool" where
  "pipe_inv bs \<longleftrightarrow> seq_inv (snd bs) \<and> (\<forall>c \<in> set (keys (callMap (snd bs))). c < nextCallId (fst bs))"

definition opened :: "(wire_framing \<times> sandbox_event) list \<Rightarrow> nat list" where
  "opened outs = [se_seq e. (f, e) \<leftarrow> outs, \<exists>c. f = Open c]"

definition closed :: "(wire_framing \<times> sandbox_event) list \<Rightarrow> nat list" where
  "closed outs = [the (se_ref e). (f, e) \<leftarrow> outs, \<exists>c. f = Close c]"

lemma opened_simps [simp]:
  "opened [] = []"
  "opened ((Leaf, e) # outs) = opened outs"
  "opened ((Open c, e) # outs) = se_seq e # opened outs"
  "opened ((Close c, e) # outs) = opened outs"
  by (simp_all add: opened_def)

lemma closed_simps [simp]:
  "closed [] = []"
  "closed ((Leaf, e) # outs) = closed outs"
  "closed ((Open c, e) # outs) = closed outs"
  "closed ((Close c, e) # outs) = the (se_ref e) # closed outs"
  by (simp_all add: closed_def)

lemma opened_mem: "n \<in> set (opened outs) \<longleftrightarrow> (\<exists>c e. (Open c, e) \<in> set outs \<and> se_seq e = n)"
  by (force simp: opened_def)

lemma start_run_zero [simp]:
  "seq (start_run s) = 0" "refStack (start_run s) = []" "callMap (start_run s) = []"
  "runActive (start_run s)"
  by (simp_all add: start_run_def)

lemma pipe_inv_window: "pipe_inv (run_window b s)"
  by (simp add: pipe_inv_def run_window_def seq_inv_def)

lemma bridge_step_cases:
  assumes "bridge_step b e = (b', out)"
  obtains (gated) "b' = b" "out = None"
    | (leaf) w where "b' = b" "out = Some w" "w_type w = Leaf"
    | (minted) w where "nextCallId b' = Suc (nextCallId b)" "out = Some w"
        "w_type w = Open (nextCallId b)"
    | (closing) w c where "b' = b" "out = Some w" "w_type w = Close c"
  using assms
  by (cases "ec_framing e") (auto simp: bridge_step_def buildEvent_def split: if_splits)

lemma handleClose_keys: "set (keys (callMap (fst (handleClose s w c)))) \<subseteq> set (keys (callMap s))"
  using dom_delete_subset [of c "callMap s"] by (auto simp: handleClose_def split: option.splits)

lemma next_event_keys:
  "set (keys (callMap (fst (next_event s w)))) \<subseteq>
     set (keys (callMap s)) \<union> {c. w_type w = Open c}"
proof (cases "w_type w")
  case (Open c)
  then show ?thesis by (auto simp: next_event_def Let_def keys_map_set dom_update)
next
  case (Close c)
  with handleClose_keys [of "s\<lparr>lastSeenTs := w_ts w, lastSeenAt := w_at w\<rparr>" w c] show ?thesis
    by (auto simp: next_event_def Let_def)
qed (auto simp: next_event_def Let_def)

lemma pipe_step_inv:
  assumes "pipe_inv bs" and "pipe_step bs e = (bs', out)"
  shows "pipe_inv bs'"
proof -
  obtain b' wo where b: "bridge_step (fst bs) e = (b', wo)" by (cases "bridge_step (fst bs) e")
  from b show ?thesis
  proof (cases rule: bridge_step_cases)
    case gated
    with assms b show ?thesis by (auto simp: pipe_step_def pipe_inv_def)
  next
    case (leaf w)
    then have f: "fresh_open (snd bs) w" by (simp add: fresh_open_def)
    from assms(1) next_event_inv [OF _ f] next_event_keys [of "snd bs" w] assms(2) b leaf
    show ?thesis by (fastforce simp: pipe_step_def pipe_inv_def split: prod.splits)
  next
    case (minted w)
    with assms(1) have f: "fresh_open (snd bs) w" by (auto simp: fresh_open_def pipe_inv_def)
    from assms(1) next_event_inv [OF _ f] next_event_keys [of "snd bs" w] assms(2) b minted
    show ?thesis
      by (force simp: pipe_step_def pipe_inv_def less_Suc_eq split: prod.splits)
  next
    case (closing w c)
    then have f: "fresh_open (snd bs) w" by (simp add: fresh_open_def)
    from assms(1) next_event_inv [OF _ f] next_event_keys [of "snd bs" w] assms(2) b closing
    show ?thesis by (fastforce simp: pipe_step_def pipe_inv_def split: prod.splits)
  qed
qed

lemma pipe_run_inv:
  "pipe_inv bs \<Longrightarrow> run_steps pipe_step bs es = (bs', outs) \<Longrightarrow> pipe_inv bs'"
  by (induction es arbitrary: bs outs) (auto split: prod.splits dest: pipe_step_inv)

lemma pipe_step_out:
  assumes "pipe_step bs e = (bs', Some (f, ev))"
  obtains w where "next_event (snd bs) w = (snd bs', Some ev)" "f = w_type w"
    "bridge_step (fst bs) e = (fst bs', Some w)"
  using assms by (auto simp: pipe_step_def split: prod.splits option.splits)

interpretation pipe: stamper pipe_step "seq \<circ> snd" "se_seq \<circ> snd"
proof
  fix bs e bs' x
  assume "pipe_step bs e = (bs', Some x)"
  then show "(se_seq \<circ> snd) x = (seq \<circ> snd) bs \<and> (seq \<circ> snd) bs' = Suc ((seq \<circ> snd) bs)"
    by (cases x) (auto elim!: pipe_step_out dest: next_event_stamp)
next
  fix bs e bs'
  assume "pipe_step bs e = (bs', None)"
  then show "(seq \<circ> snd) bs' = (seq \<circ> snd) bs"
    by (auto simp: pipe_step_def split: prod.splits option.splits dest: next_event_silent)
qed

section \<open>Frames\<close>

lemma mset_remove_distinct:
  "distinct xs \<Longrightarrow> n \<in> set xs \<Longrightarrow> mset xs = add_mset n (mset (filter (\<lambda>m. m \<noteq> n) xs))"
proof (induction xs)
  case (Cons x xs)
  show ?case
  proof (cases "x = n")
    case True
    with Cons.prems have "filter (\<lambda>m. m \<noteq> n) xs = xs" by (auto simp: filter_id_conv)
    with True show ?thesis by (simp del: mset_filter)
  qed (use Cons in auto)
qed simp

lemma next_event_silent_stack: "next_event s w = (s', None) \<Longrightarrow> refStack s' = refStack s"
  by (auto simp: sequencer_defs split: if_splits wire_framing.splits option.splits)

lemma next_event_frames:
  assumes "seq_inv s" and "next_event s w = (s', Some e)"
  shows "case w_type w of
      Leaf \<Rightarrow> refStack s' = refStack s \<and> se_ref e = array_last (refStack s)
    | Open c \<Rightarrow> refStack s' = refStack s @ [se_seq e] \<and> se_ref e = array_last (refStack s)
    | Close c \<Rightarrow> (\<exists>n \<in> set (refStack s). se_ref e = Some n \<and>
                    refStack s' = filter (\<lambda>m. m \<noteq> n) (refStack s))"
proof (cases "w_type w")
  case (Close c)
  with assms(2) obtain v where v: "map_get (callMap s) c = Some v"
    and r: "refStack s' = remove_open (openSeq v) (refStack s)" "se_ref e = Some (openSeq v)"
    by (auto simp: sequencer_defs split: if_splits option.splits)
  from map_of_SomeD [OF v] assms(1) have "openSeq v \<in> set (refStack s)"
    by (force simp: seq_inv_def)
  with Close r seq_inv_distinct [OF assms(1)] show ?thesis
    by (auto simp: remove_open_distinct)
qed (use assms in \<open>auto simp: sequencer_defs split: if_splits\<close>)

lemma pipe_step_silent_stack:
  "pipe_step bs e = (bs', None) \<Longrightarrow> refStack (snd bs') = refStack (snd bs)"
  by (auto simp: pipe_step_def split: prod.splits option.splits dest: next_event_silent_stack)

lemma pipe_step_balance:
  assumes "pipe_inv bs" and "pipe_step bs e = (bs', Some (f, ev))"
  shows "mset (opened ((f, ev) # outs)) + mset (refStack (snd bs)) + mset (closed outs) =
         mset (closed ((f, ev) # outs)) + mset (refStack (snd bs')) + mset (opened outs)"
proof -
  from assms(2) obtain w where w: "next_event (snd bs) w = (snd bs', Some ev)" "f = w_type w"
    by (rule pipe_step_out)
  from assms(1) have i: "seq_inv (snd bs)" by (simp add: pipe_inv_def)
  from next_event_frames [OF i w(1)] w(2) mset_remove_distinct [OF seq_inv_distinct [OF i]]
  show ?thesis by (cases "w_type w") auto
qed

lemma frame_balance:
  "pipe_inv bs \<Longrightarrow> run_steps pipe_step bs es = (bs', outs) \<Longrightarrow>
     mset (opened outs) + mset (refStack (snd bs)) = mset (closed outs) + mset (refStack (snd bs'))"
proof (induction es arbitrary: bs outs)
  case (Cons e es)
  obtain bs1 o1 where s1: "pipe_step bs e = (bs1, o1)" by (cases "pipe_step bs e")
  with Cons.prems obtain outs1 where r: "run_steps pipe_step bs1 es = (bs', outs1)"
    and o: "outs = (case o1 of None \<Rightarrow> outs1 | Some x \<Rightarrow> x # outs1)"
    by (auto split: prod.splits)
  note IH = Cons.IH [OF pipe_step_inv [OF Cons.prems(1) s1] r]
  show ?case
  proof (cases o1)
    case None
    with s1 o IH show ?thesis by (simp add: pipe_step_silent_stack)
  next
    case (Some x)
    obtain f ev where x: "x = (f, ev)" by (cases x)
    with Some s1 have "pipe_step bs e = (bs1, Some (f, ev))" by simp
    from pipe_step_balance [OF Cons.prems(1) this, of outs1] IH
    have "mset (opened ((f, ev) # outs1)) + mset (refStack (snd bs)) + mset (closed outs1) =
        mset (closed ((f, ev) # outs1)) + mset (refStack (snd bs')) + mset (closed outs1)"
      by (metis (no_types, lifting) add.assoc add.commute)
    with o Some x show ?thesis by simp
  qed
qed simp

lemma finish_refs:
  "seq_inv s \<Longrightarrow> map se_ref (snd (finish s (Some r))) = map Some (rev (refStack s))"
  by (simp add: finish_reason synth_closes_refs seq_inv_def rev_map comp_def)

lemma run_steps_ConsE:
  assumes "run_steps step s (i # is) = (s', outs)"
  obtains s1 out1 outs1 where "step s i = (s1, out1)" "run_steps step s1 is = (s', outs1)"
    "outs = (case out1 of None \<Rightarrow> outs1 | Some x \<Rightarrow> x # outs1)"
  using assms by (auto split: prod.splits)

text \<open>Every open call remembers the event that opened it.\<close>

definition opened_by :: "(wire_framing \<times> sandbox_event) list \<Rightarrow> nat \<times> call_map_entry \<Rightarrow> bool" where
  "opened_by outs p \<longleftrightarrow>
     (\<exists>ev. (Open (fst p), ev) \<in> set outs \<and> se_seq ev = openSeq (snd p) \<and>
           se_name ev = ce_name (snd p) \<and> ce_closeKind (snd p) = synthCloseKind (se_kind ev))"

lemma next_event_entries:
  assumes "next_event s w = (s', out)"
  shows "set (callMap s') \<subseteq> set (callMap s) \<union>
     (case out of Some ev \<Rightarrow> {p. opened_by [(w_type w, ev)] p} | None \<Rightarrow> {})"
proof (cases "w_type w")
  case Leaf
  with assms show ?thesis by (auto simp: sequencer_defs split: if_splits)
next
  case (Open c)
  show ?thesis
  proof (cases "runActive s")
    case True
    let ?v = "\<lparr>openSeq = seq s, ce_name = w_name w, ce_kind = w_kind w,
               ce_closeKind = synthCloseKind (w_kind w)\<rparr>"
    from True Open assms have "callMap s' = map_set c ?v (callMap s)"
      and "out = Some (buildSandboxEvent w (seq s) (array_last (refStack s)))"
      by (auto simp: next_event_def Let_def)
    with Open set_map_set [of c ?v "callMap s"] show ?thesis
      by (auto simp: opened_by_def buildSandboxEvent_def)
  next
    case False
    with assms show ?thesis by (auto simp: next_event_def)
  qed
next
  case (Close c)
  with assms set_map_delete [of c "callMap s"] show ?thesis
    by (auto simp: sequencer_defs split: if_splits option.splits)
qed

lemma opened_by_mono: "opened_by xs p \<Longrightarrow> set xs \<subseteq> set ys \<Longrightarrow> opened_by ys p"
  by (fastforce simp: opened_by_def)

lemma pipe_step_entries:
  assumes "pipe_step bs e = (bs', out)"
  shows "set (callMap (snd bs')) \<subseteq> set (callMap (snd bs)) \<union>
     (case out of Some x \<Rightarrow> {p. opened_by [x] p} | None \<Rightarrow> {})"
proof -
  obtain b' wo where b: "bridge_step (fst bs) e = (b', wo)" by (cases "bridge_step (fst bs) e")
  show ?thesis
  proof (cases wo)
    case None
    with assms b show ?thesis by (auto simp: pipe_step_def)
  next
    case (Some w)
    obtain s' out1 where n: "next_event (snd bs) w = (s', out1)" by (cases "next_event (snd bs) w")
    with Some assms b have "bs' = (b', s')" "out = map_option (Pair (w_type w)) out1"
      by (auto simp: pipe_step_def)
    with next_event_entries [OF n] show ?thesis by (cases out1) auto
  qed
qed

lemma pipe_run_entries:
  "run_steps pipe_step bs es = (bs', outs) \<Longrightarrow>
     set (callMap (snd bs')) \<subseteq> set (callMap (snd bs)) \<union> {p. opened_by outs p}"
proof (induction es arbitrary: bs outs)
  case (Cons e es)
  from Cons.prems obtain bs1 o1 outs1 where s1: "pipe_step bs e = (bs1, o1)"
    and r: "run_steps pipe_step bs1 es = (bs', outs1)"
    and o: "outs = (case o1 of None \<Rightarrow> outs1 | Some x \<Rightarrow> x # outs1)"
    by (rule run_steps_ConsE)
  have "set outs1 \<subseteq> set outs" using o by (auto split: option.splits)
  then have "{p. opened_by outs1 p} \<subseteq> {p. opened_by outs p}"
    by (blast intro: opened_by_mono)
  moreover have "(case o1 of Some x \<Rightarrow> {p. opened_by [x] p} | None \<Rightarrow> {}) \<subseteq> {p. opened_by outs p}"
    using o by (cases o1) (auto intro: opened_by_mono)
  ultimately show ?case using Cons.IH [OF r] pipe_step_entries [OF s1] by blast
qed simp

lemma seq_inv_head:
  assumes "seq_inv s" and "0 \<in> set (refStack s)"
  shows "hd (refStack s) = 0"
proof -
  obtain x xs where x: "refStack s = x # xs" using assms(2) by (cases "refStack s") auto
  with assms have "sorted_wrt (<) (x # xs)" "0 \<in> set (x # xs)" by (auto simp: seq_inv_def)
  then have "x = 0" by fastforce
  with x show ?thesis by simp
qed

section \<open>Properties\<close>

text \<open>
  \<^bold>\<open>C1\<close>. Every frame a run opens is closed exactly once: for any emissions of a run
  window, the sequence numbers of the opening events are, as a multiset, the references
  of the delivered closing events together with those of the closing events that
  \<open>finish\<close> synthesises when the worker dies.
\<close>

theorem frames_closed_exactly_once:
  "case run_steps pipe_step (run_window b s) es of ((b', s'), outs) \<Rightarrow>
     mset (opened outs) =
     mset (closed outs) + mset (map (the \<circ> se_ref) (snd (finish s' (Some reason))))"
proof -
  obtain b' s' outs where r: "run_steps pipe_step (run_window b s) es = ((b', s'), outs)"
    by (cases "run_steps pipe_step (run_window b s) es") auto
  from pipe_run_inv [OF pipe_inv_window r] have i: "seq_inv s'" by (simp add: pipe_inv_def)
  have "map (the \<circ> se_ref) (snd (finish s' (Some reason))) = rev (refStack s')"
    using arg_cong [OF finish_refs [OF i], of "map the"] by (simp add: comp_def)
  with frame_balance [OF pipe_inv_window r] r show ?thesis
    by (simp add: run_window_def del: mset_map)
qed

text \<open>
  Sequence numbers are dense over a whole run, worker death included: the
  delivered events followed by the synthesised closing events carry 0, 1, 2, ... in
  order, whatever was emitted and dropped.
\<close>

lemma sequence_numbers_dense:
  "case run_steps pipe_step (run_window b s) es of ((b', s'), outs) \<Rightarrow>
     map (se_seq \<circ> snd) outs @ map se_seq (snd (finish s' (Some reason))) =
     [0 ..< length outs + length (callMap s')]"
proof -
  obtain b' s' outs where r: "run_steps pipe_step (run_window b s) es = ((b', s'), outs)"
    by (cases "run_steps pipe_step (run_window b s) es") auto
  from pipe.stamps_dense [OF r] have d: "map (se_seq \<circ> snd) outs = [0 ..< seq s']"
    by (simp add: run_window_def)
  from arg_cong [OF d, of length] have "length outs = seq s'" by simp
  with r d show ?thesis
    by (simp add: finish_reason synth_closes_seqs upt_add_eq_append [of 0, simplified])
qed

text \<open>
  The closing events that \<open>finish\<close> synthesises on worker death close the
  open frames in last-in first-out order: their references are strictly decreasing, each
  is the sequence number of an opening event the run delivered, and each kind is derived
  from the kind of that opening event.
\<close>

lemma death_synthesis_lifo:
  "case run_steps pipe_step (run_window b s) es of ((b', s'), outs) \<Rightarrow>
     sorted_wrt (>) (map (the \<circ> se_ref) (snd (finish s' (Some reason)))) \<and>
     list_all (\<lambda>e. \<exists>c ev. (Open c, ev) \<in> set outs \<and> se_ref e = Some (se_seq ev) \<and>
                 se_kind e = synthCloseKind (se_kind ev) \<and> se_name e = se_name ev)
       (snd (finish s' (Some reason)))"
proof -
  obtain b' s' outs where r: "run_steps pipe_step (run_window b s) es = ((b', s'), outs)"
    by (cases "run_steps pipe_step (run_window b s) es") auto
  from pipe_run_inv [OF pipe_inv_window r] have i: "seq_inv s'" by (simp add: pipe_inv_def)
  have refs: "map (the \<circ> se_ref) (snd (finish s' (Some reason))) = rev (refStack s')"
    using arg_cong [OF finish_refs [OF i], of "map the"] by (simp add: comp_def)
  have "sorted_wrt (>) (rev (refStack s'))"
    using seq_inv_sorted [OF i] by (simp add: sorted_wrt_rev)
  moreover have "\<exists>c ev. (Open c, ev) \<in> set outs \<and> se_ref e = Some (se_seq ev) \<and>
      se_kind e = synthCloseKind (se_kind ev) \<and> se_name e = se_name ev"
    if e: "e \<in> set (snd (finish s' (Some reason)))" for e
  proof -
    from e obtain n v where v: "v \<in> set (vals (callMap s'))" "e = synth_close s' reason n v"
      by (auto simp: finish_reason dest: synth_closes_mem)
    then obtain c where "(c, v) \<in> set (callMap s')" by auto
    with pipe_run_entries [OF r] have "opened_by outs (c, v)" by (auto simp: run_window_def)
    then obtain ev where "(Open c, ev) \<in> set outs" "se_seq ev = openSeq v" "se_name ev = ce_name v"
      "ce_closeKind v = synthCloseKind (se_kind ev)"
      by (auto simp: opened_by_def)
    with v(2) have "(Open c, ev) \<in> set outs \<and> se_ref e = Some (se_seq ev) \<and>
        se_kind e = synthCloseKind (se_kind ev) \<and> se_name e = se_name ev"
      by (simp add: synth_close_def)
    then show ?thesis by blast
  qed
  ultimately show ?thesis using r refs by (simp add: list_all_iff)
qed

section \<open>Refinement of a one-list specification\<close>

text \<open>
  The specification keeps only the next sequence number and the open frames, each a
  call id with the sequence number of its opening event, in opening order.
\<close>

type_synonym frame_spec = "nat \<times> (nat \<times> nat) list"

definition frame_spec_next :: "frame_spec \<Rightarrow> wire_event \<Rightarrow> frame_spec \<times> sandbox_event option" where
  "frame_spec_next st w =
     (case st of (n, frames) \<Rightarrow>
        let parent = map_option snd (array_last frames) in
        (case w_type w of
           Leaf \<Rightarrow> ((Suc n, frames), Some (buildSandboxEvent w n parent))
         | Open c \<Rightarrow> ((Suc n, frames @ [(c, n)]), Some (buildSandboxEvent w n parent))
         | Close c \<Rightarrow>
             (case map_of frames c of
                None \<Rightarrow> (st, None)
              | Some m \<Rightarrow>
                  ((Suc n, filter (\<lambda>f. fst f \<noteq> c) frames),
                   Some (buildSandboxEvent w n (Some m))))))"

definition frames_of :: "sequencer \<Rightarrow> frame_spec" where
  "frames_of s = (seq s, map (\<lambda>(c, v). (c, openSeq v)) (callMap s))"

lemma map_of_frames: "map_of (map (\<lambda>(c, v). (c, f v)) m) c = map_option f (map_of m c)"
  by (induction m) auto

lemma array_last_frames:
  "seq_inv s \<Longrightarrow> map_option snd (array_last (snd (frames_of s))) = array_last (refStack s)"
  by (auto simp: array_last_def frames_of_def seq_inv_def last_map split: prod.splits)

lemma frames_delete:
  "map (\<lambda>(c, v). (c, openSeq v)) (map_delete k m) =
     filter (\<lambda>f. fst f \<noteq> k) (map (\<lambda>(c, v). (c, openSeq v)) m)"
  by (induction m) auto



end
