(* ===== verification/EventStore.thy ===== *)
theory EventStore
  imports Sequencer "HOL-Library.List_Lexorder" "HOL-Library.Char_ord"
begin

text \<open>
  The durable event store (\<open>packages/runtime/src/event-store.ts\<close>): events accumulate in
  memory per invocation and are committed in one batch when the invocation ends.

  The libSQL database is third-party: its \<open>events\<close> table is a list of rows, an insert
  statement either appends all its rows or fails with a message, and which of the two
  happens is an input of the model. Commits run concurrently with everything else: a
  started commit stands in \<open>inflight\<close> until an attempt succeeds or it is dropped, and
  attempts may interleave in any order. \<open>JSON.stringify\<close> is the parameter \<open>js\<close>; the
  ISO text of timestamps is compared as text, as the SQL does. The history fields
  \<open>accepted\<close>, \<open>dropped\<close> and \<open>pruned\<close> record what was taken in, given up and deleted.
\<close>

section \<open>Events and rows\<close>

record dispatch_meta =
  dm_source :: string
  dm_user :: "(string \<times> string) option"

record invocation_event =
  ie_id :: string
  ie_owner :: string
  ie_repo :: string
  ie_workflow :: string
  ie_workflowSha :: string
  ie_kind :: string
  ie_seq :: nat
  ie_ref :: "nat option"
  ie_at :: string
  ie_ts :: int
  ie_name :: string
  ie_input :: "json option"
  ie_output :: "json option"
  ie_error :: "event_error option"
  ie_meta :: "dispatch_meta option"

record events_row =
  r_id :: string
  r_seq :: nat
  r_kind :: string
  r_ref :: "nat option"
  r_at :: string
  r_ts :: int
  r_owner :: string
  r_repo :: string
  r_workflow :: string
  r_workflowSha :: string
  r_name :: string
  r_input :: "string option"
  r_output :: "string option"
  r_error :: "string option"
  r_meta :: "string option"

definition error_json :: "event_error \<Rightarrow> json" where
  "error_json e =
     JObj ((''message'', JStr (err_message e)) #
       (case err_stack e of None \<Rightarrow> [] | Some s \<Rightarrow> [(''stack'', JStr s)]) @
       (case err_issues e of None \<Rightarrow> [] | Some i \<Rightarrow> [(''issues'', i)]) @
       (case err_kind e of None \<Rightarrow> [] | Some k \<Rightarrow> [(''kind'', JStr k)]))"

definition meta_json :: "dispatch_meta \<Rightarrow> json" where
  "meta_json d =
     JObj [(''dispatch'', JObj ((''source'', JStr (dm_source d)) #
       (case dm_user d of
          None \<Rightarrow> []
        | Some (login, mail) \<Rightarrow> [(''user'', JObj [(''login'', JStr login), (''mail'', JStr mail)])])))]"

definition eventToRow :: "(json \<Rightarrow> string) \<Rightarrow> invocation_event \<Rightarrow> events_row" where
  "eventToRow js e =
     \<lparr>r_id = ie_id e, r_seq = ie_seq e, r_kind = ie_kind e, r_ref = ie_ref e, r_at = ie_at e,
      r_ts = ie_ts e, r_owner = ie_owner e, r_repo = ie_repo e, r_workflow = ie_workflow e,
      r_workflowSha = ie_workflowSha e, r_name = ie_name e,
      r_input = map_option js (ie_input e), r_output = map_option js (ie_output e),
      r_error = map_option (js \<circ> error_json) (ie_error e),
      r_meta = map_option (js \<circ> meta_json) (ie_meta e)\<rparr>"

definition TERMINAL_KINDS :: "string list" where
  "TERMINAL_KINDS = [''trigger.response'', ''trigger.error'', ''trigger.exception'',
     ''trigger.rejection'', ''system.upload'']"

definition isTerminal :: "string \<Rightarrow> bool" where
  "isTerminal kind = (kind \<in> set TERMINAL_KINDS)"

fun includes_ci :: "string \<Rightarrow> string \<Rightarrow> bool" where
  \<comment> \<open>\<open>/needle/i.test(s)\<close> for a lower-case ASCII needle\<close>
  "includes_ci needle [] = (needle = [])"
| "includes_ci needle (c # cs) =
     (take (length needle) (map lower (c # cs)) = needle \<or> includes_ci needle cs)"

definition isPrimaryKeyViolation :: "string \<Rightarrow> bool" where
  "isPrimaryKeyViolation message =
     (includes_ci ''constraint'' message \<or> includes_ci ''primary key'' message \<or>
      includes_ci ''duplicate key'' message \<or> includes_ci ''unique'' message)"

section \<open>State\<close>

record commit =
  c_id :: string
  c_events :: "invocation_event list"
  c_attempt :: nat

datatype store_log =
    CommitOk string nat
  | CommitDroppedPk string
  | CommitRetry string nat
  | CommitDropped string nat
  | RecordAfterStop string nat string
  | DrainTimeout nat

record event_store =
  accumulator :: "(string, invocation_event list) jsmap"
  stopped :: bool
  inflight :: "commit list"
  tbl :: "events_row list"
  slog :: "store_log list"
  accepted :: "invocation_event list"
  dropped :: "invocation_event list"
  pruned :: "events_row list"

definition createEventStore :: "events_row list \<Rightarrow> event_store" where
  "createEventStore rows =
     \<lparr>accumulator = [], stopped = False, inflight = [], tbl = rows, slog = [], accepted = [],
      dropped = [], pruned = []\<rparr>"

section \<open>Recording and committing\<close>

definition appendToAccumulator :: "event_store \<Rightarrow> invocation_event \<Rightarrow> event_store" where
  "appendToAccumulator st e =
     st\<lparr>accumulator :=
          map_set (ie_id e)
            ((case map_get (accumulator st) (ie_id e) of None \<Rightarrow> [] | Some es \<Rightarrow> es) @ [e])
            (accumulator st),
        accepted := accepted st @ [e]\<rparr>"

definition commitInvocation :: "event_store \<Rightarrow> string \<Rightarrow> event_store" where
  "commitInvocation st i =
     (case map_get (accumulator st) i of
        None \<Rightarrow> st
      | Some [] \<Rightarrow> st
      | Some es \<Rightarrow>
          st\<lparr>accumulator := map_delete i (accumulator st),
             inflight := inflight st @ [\<lparr>c_id = i, c_events = es, c_attempt = 0\<rparr>]\<rparr>)"

definition record_event :: "event_store \<Rightarrow> invocation_event \<Rightarrow> event_store" where
  "record_event st e =
     (if stopped st
      then st\<lparr>slog := slog st @ [RecordAfterStop (ie_id e) (ie_seq e) (ie_kind e)]\<rparr>
      else let st1 = appendToAccumulator st e
           in if isTerminal (ie_kind e) then commitInvocation st1 (ie_id e) else st1)"

definition backoffMs :: "nat \<Rightarrow> nat \<Rightarrow> nat" where
  "backoffMs commitBackoffMs attempt = commitBackoffMs * 2 ^ attempt"

datatype attempt_result = AttemptOk | AttemptFailed string

definition commit_attempt ::
  "(json \<Rightarrow> string) \<Rightarrow> nat \<Rightarrow> event_store \<Rightarrow> nat \<Rightarrow> attempt_result \<Rightarrow> event_store" where
  \<comment> \<open>one iteration of the loop of \<open>commitWithRetry\<close> for the k-th commit in flight\<close>
  "commit_attempt js commitMaxRetries st k res =
     (if k < length (inflight st) then
        let c = inflight st ! k;
            finished = st\<lparr>inflight := splice1 k (inflight st)\<rparr>
        in (case res of
              AttemptOk \<Rightarrow>
                finished\<lparr>tbl := tbl st @ map (eventToRow js) (c_events c),
                         slog := slog st @ [CommitOk (c_id c) (length (c_events c))]\<rparr>
            | AttemptFailed message \<Rightarrow>
                if isPrimaryKeyViolation message
                then finished\<lparr>dropped := dropped st @ c_events c,
                              slog := slog st @ [CommitDroppedPk (c_id c)]\<rparr>
                else if c_attempt c < commitMaxRetries
                then st\<lparr>inflight := (inflight st)[k := c\<lparr>c_attempt := Suc (c_attempt c)\<rparr>],
                        slog := slog st @ [CommitRetry (c_id c) (Suc (c_attempt c))]\<rparr>
                else finished\<lparr>dropped := dropped st @ c_events c,
                              slog := slog st @ [CommitDropped (c_id c) (Suc commitMaxRetries)]\<rparr>)
      else st)"

section \<open>Retention\<close>

definition group_max :: "events_row list \<Rightarrow> string \<Rightarrow> string" where
  \<comment> \<open>\<open>max("at")\<close> over the group of an id\<close>
  "group_max rows i = fold max (map r_at (filter (\<lambda>r. r_id r = i) rows)) ''''"

definition expired_ids :: "events_row list \<Rightarrow> string \<Rightarrow> string list" where
  \<comment> \<open>\<open>SELECT id ... GROUP BY id HAVING max("at") < cutoff\<close>\<close>
  "expired_ids rows cutoff = filter (\<lambda>i. group_max rows i < cutoff) (remdups (map r_id rows))"

definition prune :: "event_store \<Rightarrow> string \<Rightarrow> event_store \<times> nat" where
  "prune st cutoff =
     (if stopped st then (st, 0)
      else let ids = expired_ids (tbl st) cutoff
           in if length ids = 0 then (st, 0)
              else (st\<lparr>tbl := filter (\<lambda>r. r_id r \<notin> set ids) (tbl st),
                       pruned := pruned st @ filter (\<lambda>r. r_id r \<in> set ids) (tbl st)\<rparr>,
                    length ids))"

definition MS_PER_DAY :: int where
  "MS_PER_DAY = 86400000"

definition RETENTION_PRUNES_PER_WINDOW :: int where
  "RETENTION_PRUNES_PER_WINDOW = 100"

definition retention_interval :: "int \<Rightarrow> int option" where
  \<comment> \<open>\<open>None\<close>: no timer is armed\<close>
  "retention_interval retentionDays =
     (if retentionDays > 0
      then Some (max 1 ((retentionDays * MS_PER_DAY) div RETENTION_PRUNES_PER_WINDOW))
      else None)"

section \<open>Queries\<close>

definition query :: "event_store \<Rightarrow> (string \<times> string) list \<Rightarrow> string + events_row list" where
  "query st scopes =
     (if scopes = []
      then Inl ''EventStore.query: scopes must be a non-empty (owner, repo) allow-list''
      else Inr (filter (\<lambda>r. list_ex (\<lambda>(owner, repo). r_owner r = owner \<and> r_repo r = repo) scopes)
        (tbl st)))"

definition hasUploadEvent :: "event_store \<Rightarrow> string \<Rightarrow> string \<Rightarrow> string \<Rightarrow> string \<Rightarrow> bool" where
  "hasUploadEvent st owner repo workflow workflowSha =
     (length (filter (\<lambda>r. r_kind r = ''system.upload'' \<and> r_owner r = owner \<and> r_repo r = repo \<and>
        r_workflow r = workflow \<and> r_workflowSha r = workflowSha) (tbl st)) > 0)"

section \<open>Shutdown\<close>

definition shutdown_event :: "string \<Rightarrow> string \<Rightarrow> invocation_event list \<Rightarrow> invocation_event" where
  \<comment> \<open>for a non-empty list of events; \<open>at\<close> is \<open>new Date().toISOString()\<close>\<close>
  "shutdown_event i at es =
     \<lparr>ie_id = i, ie_owner = ie_owner (hd es), ie_repo = ie_repo (hd es),
      ie_workflow = ie_workflow (hd es), ie_workflowSha = ie_workflowSha (hd es),
      ie_kind = ''trigger.error'', ie_seq = Suc (ie_seq (last es)), ie_ref = None, ie_at = at,
      ie_ts = ie_ts (last es), ie_name = ie_name (hd es), ie_input = None, ie_output = None,
      ie_error = Some \<lparr>err_message = ''runtime shutting down'', err_stack = None,
                       err_issues = None, err_kind = Some ''shutdown''\<rparr>,
      ie_meta = None\<rparr>"

definition drain_start :: "event_store \<Rightarrow> event_store" where
  "drain_start st = st\<lparr>stopped := True\<rparr>"

definition drain_entry :: "event_store \<Rightarrow> string \<Rightarrow> event_store" where
  \<comment> \<open>one iteration of the drain loop before the deadline: the iteration deletes the
      entry it visits, so the next one visits the new head\<close>
  "drain_entry st at =
     (case accumulator st of
        [] \<Rightarrow> st
      | (i, es) # _ \<Rightarrow>
          if es = [] then st\<lparr>accumulator := map_delete i (accumulator st)\<rparr>
          else let synthetic = shutdown_event i at es
               in commitInvocation
                    (st\<lparr>accumulator := map_set i (es @ [synthetic]) (accumulator st),
                        accepted := accepted st @ [synthetic]\<rparr>) i)"

definition drain_timeout :: "event_store \<Rightarrow> event_store" where
  "drain_timeout st =
     (if accumulator st = [] then st
      else st\<lparr>slog := slog st @ [DrainTimeout (length (accumulator st))]\<rparr>)"

section \<open>The store as a state machine\<close>

datatype store_op =
    Record invocation_event
  | Attempt nat attempt_result
  | Prune string
  | DrainStart
  | DrainEntry string
  | DrainTimedOut

fun store_step :: "(json \<Rightarrow> string) \<Rightarrow> nat \<Rightarrow> event_store \<Rightarrow> store_op \<Rightarrow> event_store" where
  "store_step js n st (Record e) = record_event st e"
| "store_step js n st (Attempt k res) = commit_attempt js n st k res"
| "store_step js n st (Prune cutoff) = fst (prune st cutoff)"
| "store_step js n st DrainStart = drain_start st"
| "store_step js n st (DrainEntry at) = (if stopped st then drain_entry st at else st)"
| "store_step js n st DrainTimedOut = (if stopped st then drain_timeout st else st)"

abbreviation store_ops :: "(json \<Rightarrow> string) \<Rightarrow> nat \<Rightarrow> event_store \<Rightarrow> store_op list \<Rightarrow> event_store" where
  "store_ops js n st ops \<equiv> foldl (store_step js n) st ops"

section \<open>Conservation of events\<close>

definition held :: "event_store \<Rightarrow> invocation_event list" where
  "held st = concat (vals (accumulator st)) @ concat (map c_events (inflight st))"

abbreviation entry_of :: "('k, 'v list) jsmap \<Rightarrow> 'k \<Rightarrow> 'v list" where
  "entry_of m k \<equiv> (case map_get m k of None \<Rightarrow> [] | Some es \<Rightarrow> es)"

lemma mset_vals_set:
  "mset (concat (vals (map_set k v m))) + mset (entry_of m k) = mset (concat (vals m)) + mset v"
  by (induction m) (auto simp: ac_simps)

lemma mset_vals_delete:
  "distinct (keys m) \<Longrightarrow>
     mset (concat (vals (map_delete k m))) + mset (entry_of m k) = mset (concat (vals m))"
proof (induction m)
  case (Cons p m)
  obtain k' v where p: "p = (k', v)" by fastforce
  show ?case
  proof (cases "k' = k")
    case True
    with Cons.prems p have "k \<notin> set (keys m)" by auto
    then have "map_delete k m = m" by (simp add: map_delete_filter filter_id_conv) force
    with True p show ?thesis by (simp add: ac_simps)
  next
    case False
    with Cons p show ?thesis by (simp add: ac_simps)
  qed
qed simp

definition grouped :: "event_store \<Rightarrow> bool" where
  "grouped st \<longleftrightarrow>
     distinct (keys (accumulator st)) \<and>
     (\<forall>p\<in>set (accumulator st). snd p \<noteq> [] \<and> (\<forall>e\<in>set (snd p). ie_id e = fst p)) \<and>
     (\<forall>c\<in>set (inflight st). \<forall>e\<in>set (c_events c). ie_id e = c_id c)"

lemma grouped_entry:
  assumes "grouped st" and "map_get (accumulator st) i = Some es"
  shows "es \<noteq> []" "\<forall>e\<in>set es. ie_id e = i"
  using assms by (auto simp: grouped_def dest!: map_of_SomeD)

lemma grouped_set:
  assumes "grouped st" and "\<forall>e\<in>set es. ie_id e = i" and "es \<noteq> []"
  shows "grouped (st\<lparr>accumulator := map_set i es (accumulator st), accepted := xs\<rparr>)"
  using assms set_map_set [of i es "accumulator st"] by (fastforce simp: grouped_def distinct_update)

lemma grouped_commit:
  assumes "grouped st"
  shows "grouped (commitInvocation st i)"
proof (cases "map_get (accumulator st) i")
  case (Some es)
  from grouped_entry [OF assms Some] show ?thesis
    using assms Some set_map_delete [of i "accumulator st"]
    by (auto simp: commitInvocation_def grouped_def distinct_delete split: list.splits)
qed (simp add: assms commitInvocation_def)

lemma commit_held:
  assumes "grouped st"
  shows "mset (held (commitInvocation st i)) = mset (held st)"
proof (cases "map_get (accumulator st) i")
  case (Some es)
  then show ?thesis
    using mset_vals_delete [of "accumulator st" i] assms
    by (auto simp: commitInvocation_def held_def grouped_def ac_simps split: list.splits)
qed (simp add: commitInvocation_def)

lemma commit_frame [simp]:
  "accepted (commitInvocation st i) = accepted st" "dropped (commitInvocation st i) = dropped st"
  "tbl (commitInvocation st i) = tbl st" "pruned (commitInvocation st i) = pruned st"
  "stopped (commitInvocation st i) = stopped st" "slog (commitInvocation st i) = slog st"
  by (simp_all add: commitInvocation_def split: option.splits list.splits)

lemma append_grouped:
  "grouped st \<Longrightarrow> grouped (appendToAccumulator st e)"
proof -
  assume g: "grouped st"
  have "\<forall>x\<in>set (entry_of (accumulator st) (ie_id e) @ [e]). ie_id x = ie_id e"
    using grouped_entry(2) [OF g, of "ie_id e"]
    by (cases "map_get (accumulator st) (ie_id e)") auto
  from grouped_set [OF g this] show ?thesis by (simp add: appendToAccumulator_def)
qed

lemma append_held: "mset (held (appendToAccumulator st e)) = add_mset e (mset (held st))"
  using mset_vals_set [of "ie_id e" "entry_of (accumulator st) (ie_id e) @ [e]" "accumulator st"]
  by (simp add: appendToAccumulator_def held_def)

text \<open>The balance of what was taken in against where it is now.\<close>

definition balance :: "(json \<Rightarrow> string) \<Rightarrow> event_store \<Rightarrow> events_row multiset" where
  "balance js st =
     image_mset (eventToRow js) (mset (held st) + mset (dropped st)) + mset (tbl st) + mset (pruned st)"

lemma splice_events:
  assumes "k < length cs"
  shows "mset (concat (map c_events (splice1 k cs))) + mset (c_events (cs ! k)) =
    mset (concat (map c_events cs))"
proof -
  have "cs = take k cs @ cs ! k # drop (Suc k) cs" using assms by (rule id_take_nth_drop)
  then have "mset (concat (map c_events cs)) =
      mset (concat (map c_events (take k cs @ cs ! k # drop (Suc k) cs)))" by simp
  then show ?thesis by (simp add: splice1_def ac_simps del: append_take_drop_id)
qed

lemma set_splice: "set (splice1 k cs) \<subseteq> set cs"
  by (auto simp: splice1_def dest: in_set_takeD in_set_dropD)

lemma attempt_balance: "balance js (commit_attempt js n st k res) = balance js st"
proof (cases "k < length (inflight st)")
  case True
  let ?c = "inflight st ! k"
  have same: "map c_events ((inflight st)[k := ?c\<lparr>c_attempt := a\<rparr>]) = map c_events (inflight st)" for a
    using True by (simp add: map_update list_update_same_conv)
  note splice = splice_events [OF True]
  show ?thesis
    using True splice [symmetric]
    by (auto simp: commit_attempt_def balance_def held_def Let_def same ac_simps
        split: attempt_result.splits)
qed (simp add: commit_attempt_def)

lemma attempt_grouped:
  assumes "grouped st"
  shows "grouped (commit_attempt js n st k res)"
proof (cases "k < length (inflight st)")
  case True
  have "\<forall>c\<in>set ((inflight st)[k := (inflight st ! k)\<lparr>c_attempt := a\<rparr>]). \<forall>e\<in>set (c_events c). ie_id e = c_id c" for a
    using assms True set_update_subset_insert [of "inflight st" k]
    by (fastforce simp: grouped_def)
  with assms True set_splice [of k "inflight st"] show ?thesis
    by (auto simp: commit_attempt_def grouped_def Let_def split: attempt_result.splits)
qed (simp add: assms commit_attempt_def)

lemma prune_balance: "balance js (fst (prune st cutoff)) = balance js st"
proof -
  have "mset (filter (\<lambda>r. r_id r \<notin> X) xs) + mset (filter (\<lambda>r. r_id r \<in> X) xs) = mset xs" for X xs
    by (induction xs) auto
  then show ?thesis
    by (simp add: prune_def balance_def held_def Let_def ac_simps)
qed

lemma drain_balance:
  assumes "grouped st"
  shows "grouped (drain_entry st at) \<and>
    balance js (drain_entry st at) + image_mset (eventToRow js) (mset (accepted st)) =
      balance js st + image_mset (eventToRow js) (mset (accepted (drain_entry st at)))"
proof (cases "accumulator st")
  case Nil
  with assms show ?thesis by (simp add: drain_entry_def)
next
  case (Cons p rest)
  obtain i es where p: "p = (i, es)" by fastforce
  have es: "es \<noteq> []" "\<forall>e\<in>set es. ie_id e = i"
    using assms Cons p by (auto simp: grouped_def)
  let ?e = "shutdown_event i at es"
  let ?st = "st\<lparr>accumulator := map_set i (es @ [?e]) (accumulator st), accepted := accepted st @ [?e]\<rparr>"
  have g: "grouped ?st"
    using es by (intro grouped_set [OF assms]) (auto simp: shutdown_event_def)
  have "mset (held ?st) = add_mset ?e (mset (held st))"
    using mset_vals_set [of i "es @ [?e]" "accumulator st"] Cons p by (simp add: held_def)
  with commit_held [OF g, of i] grouped_commit [OF g, of i] es(1) Cons p show ?thesis
    by (simp add: drain_entry_def balance_def Let_def)
qed

lemma record_balance:
  assumes "grouped st"
  shows "grouped (record_event st e) \<and>
    balance js (record_event st e) + image_mset (eventToRow js) (mset (accepted st)) =
      balance js st + image_mset (eventToRow js) (mset (accepted (record_event st e)))"
proof (cases "stopped st")
  case True
  with assms show ?thesis by (simp add: record_event_def grouped_def balance_def held_def)
next
  case False
  note g = append_grouped [OF assms, of e]
  have "balance js (appendToAccumulator st e) = add_mset (eventToRow js e) (balance js st)"
    using append_held [of st e] by (simp add: balance_def) (simp add: appendToAccumulator_def)
  moreover have "accepted (appendToAccumulator st e) = accepted st @ [e]"
    by (simp add: appendToAccumulator_def)
  ultimately show ?thesis
    using False g grouped_commit [OF g] commit_held [OF g]
    by (simp add: record_event_def Let_def balance_def)
qed

lemma store_step_balance:
  assumes "grouped st"
  shows "grouped (store_step js n st opn) \<and>
    balance js (store_step js n st opn) + image_mset (eventToRow js) (mset (accepted st)) =
      balance js st + image_mset (eventToRow js) (mset (accepted (store_step js n st opn)))"
proof (cases opn)
  case (Attempt k res)
  have "accepted (commit_attempt js n st k res) = accepted st"
    by (simp add: commit_attempt_def Let_def split: attempt_result.splits)
  with Attempt assms show ?thesis by (simp add: attempt_balance attempt_grouped)
next
  case (Prune cutoff)
  have "accepted (fst (prune st cutoff)) = accepted st" "grouped (fst (prune st cutoff)) = grouped st"
    by (simp_all add: prune_def Let_def grouped_def)
  with Prune assms show ?thesis by (simp add: prune_balance)
qed (use assms record_balance [OF assms] drain_balance [OF assms] in
    \<open>auto simp: drain_start_def drain_timeout_def grouped_def balance_def held_def\<close>)

lemma balance_trans:
  fixes a0 :: "'a multiset"
  assumes "b1 + a0 = b0 + a1" and "b2 + a1 = b1 + a2"
  shows "b2 + a0 = b0 + a2"
proof (rule multiset_eqI)
  fix x
  from arg_cong [OF assms(1), of "\<lambda>m. count m x"] arg_cong [OF assms(2), of "\<lambda>m. count m x"]
  show "count (b2 + a0) x = count (b0 + a2) x" by simp
qed

lemma store_ops_balance:
  "grouped st \<Longrightarrow> grouped (store_ops js n st ops) \<and>
     balance js (store_ops js n st ops) + image_mset (eventToRow js) (mset (accepted st)) =
       balance js st + image_mset (eventToRow js) (mset (accepted (store_ops js n st ops)))"
proof (induction ops arbitrary: st)
  case (Cons opn ops)
  note step = store_step_balance [OF Cons.prems, of js n opn]
  note rest = Cons.IH [OF conjunct1 [OF step]]
  from balance_trans [OF conjunct2 [OF step] conjunct2 [OF rest]] rest show ?case by simp
qed simp

lemma create_balance: "grouped (createEventStore rows)" "balance js (createEventStore rows) = mset rows"
  by (simp_all add: grouped_def balance_def held_def createEventStore_def)

section \<open>Commits end\<close>

lemma single_attempt:
  assumes "inflight st = [c]" and "c_attempt c \<le> n"
  shows "inflight (commit_attempt js n st 0 res) = [] \<and>
      (tbl (commit_attempt js n st 0 res) = tbl st @ map (eventToRow js) (c_events c) \<or>
       dropped (commit_attempt js n st 0 res) = dropped st @ c_events c) \<or>
    c_attempt c < n \<and>
      inflight (commit_attempt js n st 0 res) = [c\<lparr>c_attempt := Suc (c_attempt c)\<rparr>] \<and>
      tbl (commit_attempt js n st 0 res) = tbl st \<and> dropped (commit_attempt js n st 0 res) = dropped st"
  using assms by (auto simp: commit_attempt_def Let_def splice1_def split: attempt_result.splits)

lemma no_flight_stable:
  "inflight st = [] \<Longrightarrow> foldl (\<lambda>s r. commit_attempt js n s 0 r) st results = st"
  by (induction results) (simp_all add: commit_attempt_def)

lemma attempts_settle:
  assumes "inflight st = [c]" and "c_attempt c \<le> n" and "length results = Suc (n - c_attempt c)"
  shows "let st' = foldl (\<lambda>s r. commit_attempt js n s 0 r) st results
    in inflight st' = [] \<and>
       (tbl st' = tbl st @ map (eventToRow js) (c_events c) \<or> dropped st' = dropped st @ c_events c)"
  using assms
proof (induction results arbitrary: st c)
  case (Cons res results)
  let ?st = "commit_attempt js n st 0 res"
  from single_attempt [OF Cons.prems(1,2), of js res] consider
    (gone) "inflight ?st = []"
      "tbl ?st = tbl st @ map (eventToRow js) (c_events c) \<or> dropped ?st = dropped st @ c_events c"
    | (again) "c_attempt c < n" "inflight ?st = [c\<lparr>c_attempt := Suc (c_attempt c)\<rparr>]"
      "tbl ?st = tbl st" "dropped ?st = dropped st"
    by blast
  then show ?case
  proof cases
    case gone
    then show ?thesis by (simp add: no_flight_stable Let_def)
  next
    case again
    have "length results = Suc (n - c_attempt (c\<lparr>c_attempt := Suc (c_attempt c)\<rparr>))"
      using Cons.prems(3) again(1) by simp
    from Cons.IH [OF again(2) _ this] again show ?thesis by (simp add: Let_def)
  qed
qed simp

section \<open>Properties\<close>



definition sample_event :: "string \<Rightarrow> nat \<Rightarrow> string \<Rightarrow> invocation_event" where
  "sample_event kind n at =
     \<lparr>ie_id = ''evt_1'', ie_owner = ''acme'', ie_repo = ''site'', ie_workflow = ''w'',
      ie_workflowSha = ''sha'', ie_kind = kind, ie_seq = n, ie_ref = None, ie_at = at, ie_ts = 0,
      ie_name = ''t'', ie_input = None, ie_output = None, ie_error = None, ie_meta = None\<rparr>"


lemma fold_max_less: "fold max xs a < (c :: string) \<longleftrightarrow> a < c \<and> (\<forall>x\<in>set xs. x < c)"
  by (induction xs arbitrary: a) auto

lemma expired_iff:
  "i \<in> set (expired_ids rows cutoff) \<longleftrightarrow>
     (\<exists>r\<in>set rows. r_id r = i) \<and> (\<forall>r\<in>set rows. r_id r = i \<longrightarrow> r_at r < cutoff)"
proof -
  have "[] < cutoff" if "x < cutoff" for x using that by (cases cutoff) auto
  then show ?thesis by (auto simp: expired_ids_def group_max_def fold_max_less)
qed

text \<open>
  Retention removes whole invocations and only expired ones: after \<open>prune\<close> a row
  is kept exactly when some row of its invocation is not older than the cutoff (so a call
  graph that straddles the cutoff stays intact), and the returned number is the number
  of distinct invocations deleted.
\<close>

lemma prune_whole_invocations:
  "stopped st \<and> prune st cutoff = (st, 0) \<or>
   tbl (fst (prune st cutoff)) =
     filter (\<lambda>r. list_ex (\<lambda>q. r_id q = r_id r \<and> \<not> r_at q < cutoff) (tbl st)) (tbl st) \<and>
   snd (prune st cutoff) =
     card (r_id ` {r. r \<in> set (tbl st) \<and> r \<notin> set (tbl (fst (prune st cutoff)))})"
proof (cases "stopped st")
  case True
  then show ?thesis by (simp add: prune_def)
next
  case False
  let ?ids = "expired_ids (tbl st) cutoff"
  have keep: "r_id r \<notin> set ?ids \<longleftrightarrow> list_ex (\<lambda>q. r_id q = r_id r \<and> \<not> r_at q < cutoff) (tbl st)"
    if "r \<in> set (tbl st)" for r
    using that by (auto simp: expired_iff list_ex_iff)
  have f: "filter (\<lambda>r. r_id r \<notin> set ?ids) (tbl st) =
      filter (\<lambda>r. list_ex (\<lambda>q. r_id q = r_id r \<and> \<not> r_at q < cutoff) (tbl st)) (tbl st)"
    by (intro filter_cong) (auto simp: keep)
  have t: "tbl (fst (prune st cutoff)) = filter (\<lambda>r. r_id r \<notin> set ?ids) (tbl st)"
    using False by (simp add: prune_def Let_def)
  have "r_id ` {r. r \<in> set (tbl st) \<and> r \<notin> set (tbl (fst (prune st cutoff)))} = set ?ids"
    unfolding t by (auto simp: expired_iff intro!: imageI)
  moreover have "card (set ?ids) = length ?ids"
    by (rule distinct_card) (simp add: expired_ids_def)
  moreover have "snd (prune st cutoff) = length ?ids"
    using False by (simp add: prune_def Let_def)
  ultimately show ?thesis using t f by simp
qed

lemma drain_entry_head:
  assumes "grouped st" and "accumulator st = (i, es) # rest"
  shows "accumulator (drain_entry st at) = rest \<and>
    inflight (drain_entry st at) =
      inflight st @ [\<lparr>c_id = i, c_events = es @ [shutdown_event i at es], c_attempt = 0\<rparr>]"
proof -
  have "es \<noteq> []" "i \<notin> set (keys rest)" using assms by (auto simp: grouped_def)
  then have "map_delete i rest = rest"
    by (simp add: map_delete_filter filter_id_conv) force
  with assms(2) \<open>es \<noteq> []\<close> show ?thesis
    by (auto simp: drain_entry_def commitInvocation_def Let_def split: list.splits)
qed

definition shut_down :: "commit list \<Rightarrow> string \<times> invocation_event list \<Rightarrow> bool" where
  "shut_down cs p \<longleftrightarrow>
     list_ex (\<lambda>c. c_id c = fst p \<and> c_events c = butlast (c_events c) @ [last (c_events c)] \<and>
       butlast (c_events c) = snd p \<and>
       last (c_events c) = shutdown_event (fst p) (ie_at (last (c_events c))) (snd p)) cs"

lemma shut_down_mono: "shut_down cs p \<Longrightarrow> shut_down (cs @ ds) p"
  by (auto simp: shut_down_def)

lemma drain_entries:
  assumes "grouped st" and "length (accumulator st) \<le> length ats"
  shows "let st' = foldl drain_entry st ats
    in accumulator st' = [] \<and> list_all (shut_down (inflight st')) (accumulator st) \<and>
       (\<exists>cs. inflight st' = inflight st @ cs)"
  using assms
proof (induction ats arbitrary: st)
  case (Cons at ats)
  show ?case
  proof (cases "accumulator st")
    case Nil
    then have "drain_entry st at = st" by (simp add: drain_entry_def)
    with Cons.IH [OF Cons.prems(1)] Nil show ?thesis by simp
  next
    case (Cons p rest)
    obtain i es where p: "p = (i, es)" by fastforce
    note h = drain_entry_head [OF Cons.prems(1) Cons [unfolded p], of at]
    let ?c = "\<lparr>c_id = i, c_events = es @ [shutdown_event i at es], c_attempt = 0\<rparr>"
    have "grouped (drain_entry st at)" using drain_balance [OF Cons.prems(1)] by blast
    from Cons.IH [OF this] Cons.prems(2) Cons h
    obtain cs where r: "accumulator (foldl drain_entry (drain_entry st at) ats) = []"
      "list_all (shut_down (inflight (foldl drain_entry (drain_entry st at) ats))) rest"
      "inflight (foldl drain_entry (drain_entry st at) ats) = (inflight st @ [?c]) @ cs"
      by (auto simp: Let_def)
    have "shut_down (inflight (foldl drain_entry (drain_entry st at) ats)) p"
      using r(3) p by (simp add: shut_down_def shutdown_event_def)
    with r Cons show ?thesis by (simp add: Let_def)
  qed
qed auto

text \<open>
  Shutdown loses no running invocation within its deadline: when the drain loop
  is given as many iterations as there are invocations in memory, the accumulator is
  empty afterwards, and every one of those invocations has been handed to a commit whose
  events are its events in order followed by one \<open>trigger.error\<close> with the next sequence
  number.
\<close>

lemma drain_hands_over_everything:
  "let st = drain_start (store_ops js n (createEventStore rows) ops);
       st' = foldl drain_entry st ats
   in length ats < length (accumulator st) \<or>
      accumulator st' = [] \<and> list_all (shut_down (inflight st')) (accumulator st)"
proof -
  have "grouped (drain_start (store_ops js n (createEventStore rows) ops))"
    using store_ops_balance [OF create_balance(1)] by (simp add: drain_start_def grouped_def)
  from drain_entries [OF this, of ats] show ?thesis by (auto simp: Let_def)
qed

end
