(* ===== verification/Termination.thy ===== *)
theory Termination
  imports Prelude
begin

text \<open>
  Resource limits and worker death.

  \<open>packages/sandbox/src/limit-counters.ts\<close> counts output bytes and pending host calls
  in the worker and, on a breach, queues a tagged \<open>SandboxLimitError\<close>.
  \<open>packages/sandbox/src/worker-termination.ts\<close> correlates the worker's \<open>error\<close> and
  \<open>exit\<close> events with the main thread's CPU watchdog into one \<open>TerminationCause\<close>.

  Module-level variables of the counters and the closure variables of the termination
  tracker are records. The calls of the registered callback are collected in
  \<open>delivered\<close>, queued microtask throws in \<open>thrown\<close>. \<open>Infinity\<close>, the default limit, is
  \<open>None\<close>.
\<close>

section \<open>Worker errors\<close>

record werror =
  we_name :: string
  we_message :: string
  we_dim :: "json option"
  we_observed :: "json option"

definition SANDBOX_LIMIT_ERROR_NAME :: string where
  "SANDBOX_LIMIT_ERROR_NAME = ''SandboxLimitError''"

section \<open>Limit counters\<close>

datatype worker_dim = DimOutput | DimPending

fun worker_dim_name :: "worker_dim \<Rightarrow> string" where
  "worker_dim_name DimOutput = ''output''"
| "worker_dim_name DimPending = ''pending''"

record limit_counters =
  outputBytesLimit :: "nat option"
  outputBytesUsed :: nat
  pendingCallablesLimit :: "nat option"
  pendingCallablesCount :: nat
  thrown :: "werror list"

definition initial_counters :: limit_counters where
  "initial_counters =
     \<lparr>outputBytesLimit = None, outputBytesUsed = 0, pendingCallablesLimit = None,
      pendingCallablesCount = 0, thrown = []\<rparr>"

definition above_limit :: "nat \<Rightarrow> nat option \<Rightarrow> bool" where
  "above_limit n limit = (case limit of None \<Rightarrow> False | Some l \<Rightarrow> n > l)"

definition limit_error :: "worker_dim \<Rightarrow> nat option \<Rightarrow> werror" where
  "limit_error dim observed =
     \<lparr>we_name = SANDBOX_LIMIT_ERROR_NAME,
      we_message = ''sandbox limit exceeded: '' @ worker_dim_name dim,
      we_dim = Some (JStr (worker_dim_name dim)),
      we_observed = map_option (\<lambda>n. JNum (int n)) observed\<rparr>"

definition throwLimit :: "limit_counters \<Rightarrow> worker_dim \<Rightarrow> nat option \<Rightarrow> limit_counters" where
  "throwLimit c dim observed = c\<lparr>thrown := thrown c @ [limit_error dim observed]\<rparr>"

definition configureWorkerLimits :: "limit_counters \<Rightarrow> nat \<Rightarrow> nat \<Rightarrow> limit_counters" where
  "configureWorkerLimits c outputBytes pendingCallables =
     c\<lparr>outputBytesLimit := Some outputBytes, pendingCallablesLimit := Some pendingCallables\<rparr>"

definition resetRunCounters :: "limit_counters \<Rightarrow> limit_counters" where
  "resetRunCounters c = c\<lparr>outputBytesUsed := 0, pendingCallablesCount := 0\<rparr>"

definition accountOutputBytes :: "limit_counters \<Rightarrow> nat \<Rightarrow> limit_counters \<times> bool" where
  "accountOutputBytes c sz =
     (if above_limit (outputBytesUsed c + sz) (outputBytesLimit c)
      then (throwLimit c DimOutput (Some (outputBytesUsed c + sz)), False)
      else (c\<lparr>outputBytesUsed := outputBytesUsed c + sz\<rparr>, True))"

definition enterPendingCallable :: "limit_counters \<Rightarrow> limit_counters" where
  "enterPendingCallable c =
     (let c1 = c\<lparr>pendingCallablesCount := pendingCallablesCount c + 1\<rparr>
      in if above_limit (pendingCallablesCount c1) (pendingCallablesLimit c1)
         then throwLimit c1 DimPending (Some (pendingCallablesCount c1))
         else c1)"

definition exitPendingCallable :: "limit_counters \<Rightarrow> limit_counters" where
  "exitPendingCallable c =
     (if pendingCallablesCount c > 0
      then c\<lparr>pendingCallablesCount := pendingCallablesCount c - 1\<rparr> else c)"

section \<open>Termination correlation\<close>

datatype limit_dim = LimCpu | LimOutput | LimPending

datatype termination_cause =
    LimitCause limit_dim "int option"
  | CrashCause werror
  | RestoreFailed werror

record worker_termination =
  lastError :: "werror option"
  disposing :: bool
  cpuBudgetExpired :: bool
  observedOnExpiry :: "int option"
  fired :: bool
  startedAt :: int
  watchdog :: bool
  restoreFailedErr :: "werror option"
  terminatedCb :: bool
  delivered :: "termination_cause list"
  terminate_requested :: bool

definition createWorkerTermination :: worker_termination where
  "createWorkerTermination =
     \<lparr>lastError = None, disposing = False, cpuBudgetExpired = False, observedOnExpiry = None,
      fired = False, startedAt = 0, watchdog = False, restoreFailedErr = None,
      terminatedCb = False, delivered = [], terminate_requested = False\<rparr>"

definition isSandboxLimitError :: "werror \<Rightarrow> bool" where
  "isSandboxLimitError err \<longleftrightarrow>
     we_name err = SANDBOX_LIMIT_ERROR_NAME \<and>
     (we_dim err = Some (JStr ''output'') \<or> we_dim err = Some (JStr ''pending''))"

definition limit_dim_of :: "werror \<Rightarrow> limit_dim" where
  \<comment> \<open>the cast \<open>dim as LimitDim\<close>, under \<open>isSandboxLimitError\<close>\<close>
  "limit_dim_of err = (if we_dim err = Some (JStr ''output'') then LimOutput else LimPending)"

definition finite_number :: "json option \<Rightarrow> int option" where
  "finite_number j = (case j of Some (JNum n) \<Rightarrow> Some n | _ \<Rightarrow> None)"

definition worker_exited_error :: werror where
  "worker_exited_error =
     \<lparr>we_name = ''Error'', we_message = ''worker exited'', we_dim = None, we_observed = None\<rparr>"

definition classify :: "worker_termination \<Rightarrow> termination_cause" where
  "classify t =
     (case restoreFailedErr t of
        Some err \<Rightarrow> RestoreFailed err
      | None \<Rightarrow>
          if cpuBudgetExpired t then LimitCause LimCpu (observedOnExpiry t)
          else (case lastError t of
                  Some err \<Rightarrow>
                    if isSandboxLimitError err
                    then LimitCause (limit_dim_of err) (finite_number (we_observed err))
                    else CrashCause err
                | None \<Rightarrow> CrashCause worker_exited_error))"

definition dispatch :: "worker_termination \<Rightarrow> termination_cause \<Rightarrow> worker_termination" where
  "dispatch t cause =
     (if fired t then t
      else t\<lparr>fired := True,
             delivered := (if terminatedCb t then delivered t @ [cause] else delivered t)\<rparr>)"

definition on_worker_error :: "worker_termination \<Rightarrow> werror \<Rightarrow> worker_termination" where
  "on_worker_error t err = (if lastError t = None then t\<lparr>lastError := Some err\<rparr> else t)"

definition on_worker_exit :: "worker_termination \<Rightarrow> worker_termination" where
  "on_worker_exit t = (if disposing t then t else dispatch t (classify t))"

definition armCpuBudget :: "worker_termination \<Rightarrow> int \<Rightarrow> worker_termination" where
  \<comment> \<open>\<open>now\<close> is \<open>Date.now()\<close>; the previous timer is cleared and a new one armed\<close>
  "armCpuBudget t now =
     t\<lparr>startedAt := now, cpuBudgetExpired := False, observedOnExpiry := None, watchdog := True\<rparr>"

definition watchdog_fires :: "worker_termination \<Rightarrow> int \<Rightarrow> worker_termination" where
  \<comment> \<open>the timer callback; a cleared timer does not run\<close>
  "watchdog_fires t now =
     (if watchdog t
      then t\<lparr>watchdog := False, cpuBudgetExpired := True,
             observedOnExpiry := Some (now - startedAt t), terminate_requested := True\<rparr>
      else t)"

definition disarmCpuBudget :: "worker_termination \<Rightarrow> worker_termination" where
  "disarmCpuBudget t = t\<lparr>watchdog := False\<rparr>"

definition markDisposing :: "worker_termination \<Rightarrow> worker_termination" where
  "markDisposing t = t\<lparr>disposing := True, watchdog := False\<rparr>"

definition markRestoreFailed :: "worker_termination \<Rightarrow> werror \<Rightarrow> worker_termination" where
  "markRestoreFailed t err =
     (if disposing t then t
      else let t1 = (if restoreFailedErr t = None then t\<lparr>restoreFailedErr := Some err\<rparr> else t)
           in dispatch t1 (classify t1))"

definition register_onTerminated :: "worker_termination \<Rightarrow> worker_termination" where
  "register_onTerminated t = t\<lparr>terminatedCb := True\<rparr>"

definition termination_cause_now :: "worker_termination \<Rightarrow> termination_cause option" where
  "termination_cause_now t =
     (if disposing t then None
      else if \<not> (cpuBudgetExpired t \<or> lastError t \<noteq> None \<or> restoreFailedErr t \<noteq> None) then None
      else Some (classify t))"

section \<open>The tracker as a state machine\<close>

datatype term_event =
    WorkerError werror
  | WorkerExit
  | Arm int
  | WatchdogFires int
  | Disarm
  | Dispose
  | RestoreFailure werror

fun term_step :: "worker_termination \<Rightarrow> term_event \<Rightarrow> worker_termination" where
  "term_step t (WorkerError err) = on_worker_error t err"
| "term_step t WorkerExit = on_worker_exit t"
| "term_step t (Arm now) = armCpuBudget t now"
| "term_step t (WatchdogFires now) = watchdog_fires t now"
| "term_step t Disarm = disarmCpuBudget t"
| "term_step t Dispose = markDisposing t"
| "term_step t (RestoreFailure err) = markRestoreFailed t err"

abbreviation term_run :: "worker_termination \<Rightarrow> term_event list \<Rightarrow> worker_termination" where
  "term_run t es \<equiv> foldl term_step t es"

lemmas term_defs = on_worker_error_def on_worker_exit_def armCpuBudget_def watchdog_fires_def
  disarmCpuBudget_def markDisposing_def markRestoreFailed_def dispatch_def Let_def

lemma term_step_cb [simp]: "terminatedCb (term_step t e) = terminatedCb t"
  by (cases e) (simp_all add: term_defs)

lemma term_run_cb [simp]: "terminatedCb (term_run t es) = terminatedCb t"
  by (induction es arbitrary: t) simp_all

lemma term_step_fired: "fired t \<Longrightarrow> fired (term_step t e) \<and> delivered (term_step t e) = delivered t"
  by (cases e) (simp_all add: term_defs)

lemma term_run_fired: "fired t \<Longrightarrow> fired (term_run t es) \<and> delivered (term_run t es) = delivered t"
  by (induction es arbitrary: t) (simp_all add: term_step_fired)

lemma term_step_disposing:
  "disposing t \<Longrightarrow> disposing (term_step t e) \<and> delivered (term_step t e) = delivered t"
  by (cases e) (simp_all add: term_defs)

lemma term_run_disposing:
  "disposing t \<Longrightarrow> disposing (term_run t es) \<and> delivered (term_run t es) = delivered t"
  by (induction es arbitrary: t) (simp_all add: term_step_disposing)

lemma term_step_delivered:
  "length (delivered t) = (if fired t \<and> terminatedCb t then 1 else 0) \<Longrightarrow>
   length (delivered (term_step t e)) =
     (if fired (term_step t e) \<and> terminatedCb (term_step t e) then 1 else 0)"
  by (cases e) (auto simp: term_defs split: if_splits)

lemma term_run_delivered:
  "length (delivered t) = (if fired t \<and> terminatedCb t then 1 else 0) \<Longrightarrow>
   length (delivered (term_run t es)) =
     (if fired (term_run t es) \<and> terminatedCb (term_run t es) then 1 else 0)"
proof (induction es arbitrary: t)
  case (Cons e es)
  show ?case using Cons.IH [OF term_step_delivered [OF Cons.prems]] by simp
qed simp

lemma exit_fires: "\<not> disposing t \<Longrightarrow> fired (on_worker_exit t)"
  by (simp add: term_defs)

lemma exit_delivers:
  "\<not> disposing t \<Longrightarrow> \<not> fired t \<Longrightarrow> terminatedCb t \<Longrightarrow>
     delivered (on_worker_exit t) = delivered t @ [classify t]"
  by (simp add: term_defs)

section \<open>Properties\<close>

text \<open>
  \<^bold>\<open>C3\<close>. Exactly-once dispatch: once the sandbox has registered its callback, any
  sequence of worker errors, exits, watchdog ticks, re-arms, disposals and restore
  failures calls it at most once; and if the worker exits without the sandbox being
  disposed first, it has been called exactly once.
\<close>

theorem termination_dispatched_exactly_once:
  "let t = register_onTerminated createWorkerTermination in
     length (delivered (term_run t es)) \<le> 1 \<and>
     (disposing (term_run t es) \<or>
      length (delivered (term_run t (es @ WorkerExit # es'))) = 1)"
proof -
  let ?t = "register_onTerminated createWorkerTermination"
  have i: "length (delivered ?t) = (if fired ?t \<and> terminatedCb ?t then 1 else 0)"
    by (simp add: register_onTerminated_def createWorkerTermination_def)
  have cb: "terminatedCb ?t" by (simp add: register_onTerminated_def)
  have "length (delivered (term_run ?t (es @ WorkerExit # es'))) = 1"
    if "\<not> disposing (term_run ?t es)"
  proof -
    have "fired (term_run ?t (es @ WorkerExit # es'))"
      using term_run_fired [OF exit_fires [OF that]] by simp
    moreover have "terminatedCb (term_run ?t (es @ WorkerExit # es'))"
      using cb by (simp only: term_run_cb)
    ultimately show ?thesis
      using term_run_delivered [OF i, of "es @ WorkerExit # es'"] by (simp only: if_True conj_absorb simp_thms)
  qed
  with term_run_delivered [OF i, of es] show ?thesis by (auto simp: Let_def)
qed

text \<open>
  A limit breach in the worker reaches the main thread as the same limit: when
  the tagged error that \<open>accountOutputBytes\<close> or \<open>enterPendingCallable\<close> queues is the
  first error of a worker whose CPU budget has not expired, the cause delivered at exit
  names the breached dimension and the observed value, which exceeds the configured
  limit.
\<close>

lemma limit_breach_classified:
  assumes "accountOutputBytes c sz = (c', False)" and "err = last (thrown c')"
    and "\<not> disposing t" and "\<not> fired t" and "terminatedCb t" and "lastError t = None"
    and "restoreFailedErr t = None" and "\<not> cpuBudgetExpired t"
  shows "\<exists>observed.
      delivered (on_worker_exit (on_worker_error t err)) =
        delivered t @ [LimitCause LimOutput (Some observed)] \<and>
      above_limit (nat observed) (outputBytesLimit c)"
proof -
  have over: "above_limit (outputBytesUsed c + sz) (outputBytesLimit c)"
    and err: "err = limit_error DimOutput (Some (outputBytesUsed c + sz))"
    using assms(1,2) by (auto simp: accountOutputBytes_def throwLimit_def split: if_splits)
  have "classify (on_worker_error t err) =
      LimitCause LimOutput (Some (int (outputBytesUsed c + sz)))"
    using assms(6-8) err
    by (simp add: classify_def on_worker_error_def isSandboxLimitError_def limit_error_def
        limit_dim_of_def finite_number_def)
  with exit_delivers [of "on_worker_error t err"] assms(3-6)
  have "delivered (on_worker_exit (on_worker_error t err)) =
      delivered t @ [LimitCause LimOutput (Some (int (outputBytesUsed c + sz)))]"
    by (simp add: on_worker_error_def)
  moreover have "above_limit (nat (int (outputBytesUsed c + sz))) (outputBytesLimit c)"
    using over by (simp only: nat_int)
  ultimately show ?thesis by blast
qed

lemma limit_breach_classified_witness:
  "let c = configureWorkerLimits initial_counters 10 2;
       t = register_onTerminated createWorkerTermination;
       err = last (thrown (fst (accountOutputBytes c 11)))
   in \<exists>observed.
      delivered (on_worker_exit (on_worker_error t err)) =
        delivered t @ [LimitCause LimOutput (Some observed)] \<and>
      above_limit (nat observed) (outputBytesLimit c)"
proof -
  let ?c = "configureWorkerLimits initial_counters 10 2"
  let ?t = "register_onTerminated createWorkerTermination"
  have b: "accountOutputBytes ?c 11 = (fst (accountOutputBytes ?c 11), False)"
    by (simp add: accountOutputBytes_def configureWorkerLimits_def initial_counters_def
        above_limit_def)
  show ?thesis
    unfolding Let_def
    by (rule limit_breach_classified [OF b refl])
      (simp_all add: register_onTerminated_def createWorkerTermination_def)
qed

end
