(* ===== verification/Worker.thy ===== *)
theory Worker
  imports Sequencer Termination PluginRuntime
begin

text \<open>
  The worker thread (\<open>packages/sandbox/src/worker.ts\<close>): posting messages through the
  plugins' \<open>onPost\<close> hooks and the output cap, the host-call channel, and the life of a
  run (\<open>handleRun\<close>, \<open>finalizeRun\<close>, \<open>startRestore\<close>).

  The module's variables are the record \<open>worker\<close>; messages that reached
  \<open>port.postMessage\<close> are collected in \<open>sent\<close> and settlements of host-call promises in
  \<open>settled\<close>. What guest code and plugin hooks do to the worker (emit events, call the
  host) is a list of actions; \<open>handleRun\<close> is split at its two suspension points into
  the part before the guest handler is awaited and the part after. The serialized length
  of an event, \<open>JSON.stringify(msg.event).length\<close>, is the parameter \<open>sz\<close> (\<open>None\<close>: it
  throws).
\<close>

section \<open>Messages and state\<close>

datatype run_payload = RunOk json | RunErr string string

datatype worker_msg =
    ReadyMsg
  | InitErrorMsg werror
  | EventMsg wire_event
  | DoneMsg run_payload
  | RestoreFailedMsg werror
  | LogMsg string string "(string \<times> json) list"
  | HostCallRequest nat string "json list"

datatype host_outcome = Resolved json | Rejected werror

datatype run_state = RsReady | RsRunning | RsRestoring | RsDead

datatype hook_action =
    Emit emit_call
  | CallHost string "json list"
  | WarnHook string

record worker =
  counters :: limit_counters
  wbridge :: bridge
  hostCallSeq :: nat
  pendingHostCalls :: "(nat, unit) jsmap"
  settled :: "(nat \<times> host_outcome) list"
  runState :: "run_state option"
  restorePromise :: bool
  sent :: "worker_msg list"

definition fresh_worker :: worker where
  "fresh_worker =
     \<lparr>counters = initial_counters, wbridge = \<lparr>nextCallId = 0, b_runActive = False\<rparr>,
      hostCallSeq = 0, pendingHostCalls = [], settled = [], runState = None,
      restorePromise = False, sent = []\<rparr>"

type_synonym lifecycle = "(hook_action list, worker_msg) phase1_result"

type_synonym payload_size = "wire_event \<Rightarrow> nat option"

section \<open>Posting\<close>

fun accountForOutput :: "payload_size \<Rightarrow> limit_counters \<Rightarrow> worker_msg \<Rightarrow> limit_counters \<times> bool" where
  "accountForOutput sz c (EventMsg e) =
     accountOutputBytes c (case sz e of None \<Rightarrow> 0 | Some n \<Rightarrow> n)"
| "accountForOutput sz c msg = (c, True)"

definition post_raw :: "payload_size \<Rightarrow> worker \<Rightarrow> worker_msg \<Rightarrow> worker \<times> bool" where
  "post_raw sz w msg =
     (case accountForOutput sz (counters w) msg of (c, ok) \<Rightarrow>
        (w\<lparr>counters := c, sent := (if ok then sent w @ [msg] else sent w)\<rparr>, ok))"

definition onPost_failed_log :: "annotated_error \<Rightarrow> worker_msg" where
  "onPost_failed_log err =
     LogMsg ''error'' ''sandbox.plugin.onPost_failed''
       [(''plugin'', JStr (case ae_plugin err of None \<Rightarrow> ''<unknown>'' | Some p \<Rightarrow> p)),
        (''error'', JStr (ae_message err))]"

fun post_logs :: "payload_size \<Rightarrow> worker \<Rightarrow> annotated_error list \<Rightarrow> worker" where
  "post_logs sz w [] = w"
| "post_logs sz w (err # errs) =
     (case post_raw sz w (onPost_failed_log err) of (w', ok) \<Rightarrow>
        if ok then post_logs sz w' errs else w')"

definition post :: "payload_size \<Rightarrow> lifecycle option \<Rightarrow> worker \<Rightarrow> worker_msg \<Rightarrow> worker" where
  "post sz lc w msg =
     (case lc of
        None \<Rightarrow> fst (post_raw sz w msg)
      | Some p1 \<Rightarrow>
          (case runOnPost (setups p1) (order p1) msg of (finalMsg, hookErrors) \<Rightarrow>
             (case post_raw sz w finalMsg of (w', ok) \<Rightarrow>
                if ok then post_logs sz w' hookErrors else w')))"

section \<open>Host-call channel\<close>

definition callHost ::
  "payload_size \<Rightarrow> lifecycle option \<Rightarrow> worker \<Rightarrow> string \<Rightarrow> json list \<Rightarrow> worker \<times> nat" where
  "callHost sz lc w mth args =
     (let callid = hostCallSeq w;
          w1 = w\<lparr>hostCallSeq := Suc callid,
                 pendingHostCalls := map_set callid () (pendingHostCalls w)\<rparr>
      in (post sz lc w1 (HostCallRequest callid mth args), callid))"

definition resolveHostCall :: "worker \<Rightarrow> nat \<Rightarrow> host_outcome \<Rightarrow> worker" where
  "resolveHostCall w callid outcome =
     (case map_get (pendingHostCalls w) callid of
        None \<Rightarrow> w
      | Some _ \<Rightarrow>
          w\<lparr>pendingHostCalls := map_delete callid (pendingHostCalls w),
            settled := settled w @ [(callid, outcome)]\<rparr>)"

definition abandoned_error :: werror where
  "abandoned_error =
     \<lparr>we_name = ''Error'', we_message = ''host-call abandoned: run ended'',
      we_dim = None, we_observed = None\<rparr>"

definition rejectPendingHostCalls :: "worker \<Rightarrow> worker" where
  "rejectPendingHostCalls w =
     (if pendingHostCalls w = [] then w
      else w\<lparr>settled := settled w @ map (\<lambda>i. (i, Rejected abandoned_error)) (keys (pendingHostCalls w)),
             pendingHostCalls := []\<rparr>)"

section \<open>Actions of guest code and hooks\<close>

definition emit :: "payload_size \<Rightarrow> lifecycle option \<Rightarrow> worker \<Rightarrow> emit_call \<Rightarrow> worker" where
  "emit sz lc w e =
     (case bridge_step (wbridge w) e of (b, out) \<Rightarrow>
        (case out of
           None \<Rightarrow> w\<lparr>wbridge := b\<rparr>
         | Some wire \<Rightarrow> post sz lc (w\<lparr>wbridge := b\<rparr>) (EventMsg wire)))"

definition logDanglingFrame :: "payload_size \<Rightarrow> lifecycle option \<Rightarrow> worker \<Rightarrow> string \<Rightarrow> worker" where
  "logDanglingFrame sz lc w plugin =
     post sz lc w (LogMsg ''warn'' ''sandbox.plugin.dangling_frame''
       [(''phase'', JStr ''onRunFinished''), (''plugin'', JStr plugin), (''dropped'', JNum 0)])"

fun act :: "payload_size \<Rightarrow> lifecycle option \<Rightarrow> worker \<Rightarrow> hook_action \<Rightarrow> worker" where
  "act sz lc w (Emit e) = emit sz lc w e"
| "act sz lc w (CallHost mth args) = fst (callHost sz lc w mth args)"
| "act sz lc w (WarnHook plugin) = logDanglingFrame sz lc w plugin"

definition perform :: "payload_size \<Rightarrow> lifecycle option \<Rightarrow> worker \<Rightarrow> hook_action list \<Rightarrow> worker" where
  "perform sz lc w as = foldl (act sz lc) w as"

section \<open>Runs\<close>

definition runLifecycleBefore :: "payload_size \<Rightarrow> lifecycle \<Rightarrow> worker \<Rightarrow> worker" where
  "runLifecycleBefore sz p1 w =
     (case runOnBeforeRunStarted (setups p1) (order p1) [] of (err, as) \<Rightarrow>
        let w1 = perform sz (Some p1) w as
        in (case err of
              None \<Rightarrow> w1
            | Some e \<Rightarrow> post sz (Some p1) w1
                (LogMsg ''error'' ''sandbox.plugin.onBeforeRunStarted_failed''
                  [(''error'', JStr (ae_message e))])))"

fun dispose_leaks :: "payload_size \<Rightarrow> lifecycle \<Rightarrow> worker \<Rightarrow> string list \<Rightarrow> worker" where
  \<comment> \<open>the callables that \<open>drainCallableLeaks\<close> returned, by descriptor\<close>
  "dispose_leaks sz p1 w [] = w"
| "dispose_leaks sz p1 w (d # ds) =
     dispose_leaks sz p1
       (post sz (Some p1) w
         (LogMsg ''error'' ''sandbox.plugin.callable_leak'' [(''descriptor'', JStr d)])) ds"

definition runLifecycleAfter :: "payload_size \<Rightarrow> lifecycle \<Rightarrow> string list \<Rightarrow> worker \<Rightarrow> worker" where
  "runLifecycleAfter sz p1 leaks w =
     (case runOnRunFinished (setups p1) (order p1) (\<lambda>n as. as @ [WarnHook n]) [] of (errs, as) \<Rightarrow>
        dispose_leaks sz p1 (perform sz (Some p1) w as) leaks)"

definition finalizeRun :: "payload_size \<Rightarrow> lifecycle \<Rightarrow> string list \<Rightarrow> worker \<Rightarrow> worker" where
  "finalizeRun sz p1 leaks w =
     (let w1 = rejectPendingHostCalls (runLifecycleAfter sz p1 leaks w)
      in w1\<lparr>wbridge := clearRunActive (wbridge w1)\<rparr>)"

definition startRestore :: "worker \<Rightarrow> worker" where
  "startRestore w = w\<lparr>restorePromise := True\<rparr>"

definition restore_done :: "worker \<Rightarrow> worker" where
  "restore_done w =
     w\<lparr>wbridge := rebind (wbridge w), runState := Some RsReady, restorePromise := False\<rparr>"

definition restore_failed :: "payload_size \<Rightarrow> lifecycle \<Rightarrow> worker \<Rightarrow> werror \<Rightarrow> worker" where
  "restore_failed sz p1 w err =
     post sz (Some p1) (w\<lparr>runState := Some RsDead\<rparr>) (RestoreFailedMsg err)"

definition handleRun_start :: "payload_size \<Rightarrow> lifecycle \<Rightarrow> worker \<Rightarrow> worker" where
  \<comment> \<open>up to the call of the guest handler; an in-flight restore has been awaited\<close>
  "handleRun_start sz p1 w =
     (case runState w of
        None \<Rightarrow> post sz None w (DoneMsg (RunErr ''sandbox not initialized'' ''''))
      | Some _ \<Rightarrow>
          runLifecycleBefore sz p1
            (w\<lparr>runState := Some RsRunning,
               counters := resetRunCounters (counters w),
               wbridge := setRunActive (resetCallIds (wbridge w))\<rparr>))"

definition handleRun_finish ::
  "payload_size \<Rightarrow> lifecycle \<Rightarrow> string list \<Rightarrow> worker \<Rightarrow> run_payload \<Rightarrow> worker" where
  "handleRun_finish sz p1 leaks w payload =
     startRestore
       ((post sz (Some p1) (finalizeRun sz p1 leaks w) (DoneMsg payload))\<lparr>runState := Some RsRestoring\<rparr>)"

definition init_ready :: "payload_size \<Rightarrow> lifecycle \<Rightarrow> nat \<Rightarrow> nat \<Rightarrow> worker \<Rightarrow> worker" where
  \<comment> \<open>\<open>handleInit\<close> on success: limits configured, state set, \<open>ready\<close> posted\<close>
  "init_ready sz p1 outputBytes pendingCallables w =
     post sz (Some p1)
       (w\<lparr>counters := configureWorkerLimits (counters w) outputBytes pendingCallables,
          runState := Some RsReady, restorePromise := False\<rparr>) ReadyMsg"

section \<open>The worker as a state machine\<close>

datatype worker_event =
    WRunStart
  | WAct hook_action
  | WResponse nat host_outcome
  | WRunFinish "string list" run_payload
  | WRestoreDone
  | WRestoreFailed werror

fun worker_step :: "payload_size \<Rightarrow> lifecycle \<Rightarrow> worker \<Rightarrow> worker_event \<Rightarrow> worker" where
  "worker_step sz p1 w WRunStart = handleRun_start sz p1 w"
| "worker_step sz p1 w (WAct a) = act sz (Some p1) w a"
| "worker_step sz p1 w (WResponse i outcome) = resolveHostCall w i outcome"
| "worker_step sz p1 w (WRunFinish leaks payload) = handleRun_finish sz p1 leaks w payload"
| "worker_step sz p1 w WRestoreDone = restore_done w"
| "worker_step sz p1 w (WRestoreFailed err) = restore_failed sz p1 w err"

abbreviation worker_run :: "payload_size \<Rightarrow> lifecycle \<Rightarrow> worker \<Rightarrow> worker_event list \<Rightarrow> worker" where
  "worker_run sz p1 w es \<equiv> foldl (worker_step sz p1) w es"

section \<open>Frame lemmas\<close>

definition host_view :: "worker \<Rightarrow> nat \<times> (nat, unit) jsmap \<times> (nat \<times> host_outcome) list" where
  "host_view w = (hostCallSeq w, pendingHostCalls w, settled w)"

lemma post_raw_frame:
  "host_view (fst (post_raw sz w msg)) = host_view w \<and> runState (fst (post_raw sz w msg)) = runState w"
  by (simp add: post_raw_def host_view_def split: prod.splits)

lemma post_logs_frame:
  "host_view (post_logs sz w errs) = host_view w \<and> runState (post_logs sz w errs) = runState w"
proof (induction errs arbitrary: w)
  case (Cons err errs)
  obtain w' ok where r: "post_raw sz w (onPost_failed_log err) = (w', ok)" by fastforce
  with post_raw_frame [of sz w "onPost_failed_log err"] Cons.IH [of w'] show ?case by simp
qed simp

lemma post_frame [simp]:
  "host_view (post sz lc w msg) = host_view w" "runState (post sz lc w msg) = runState w"
proof -
  have "host_view (post sz lc w msg) = host_view w \<and> runState (post sz lc w msg) = runState w"
  proof (cases lc)
    case None
    then show ?thesis by (simp add: post_def post_raw_frame)
  next
    case (Some p1)
    obtain m errs where h: "runOnPost (setups p1) (order p1) msg = (m, errs)" by fastforce
    obtain w' ok where r: "post_raw sz w m = (w', ok)" by fastforce
    have "host_view w' = host_view w \<and> runState w' = runState w"
      using post_raw_frame [of sz w m] r by simp
    with Some h r show ?thesis by (simp add: post_def post_logs_frame)
  qed
  then show "host_view (post sz lc w msg) = host_view w" "runState (post sz lc w msg) = runState w"
    by simp_all
qed

lemma emit_frame [simp]:
  "host_view (emit sz lc w e) = host_view w" "runState (emit sz lc w e) = runState w"
  by (simp_all add: emit_def host_view_def [of "wbridge_update _ _"] split: prod.splits option.splits)
    (simp_all add: host_view_def)

lemma act_runState [simp]: "runState (act sz lc w a) = runState w"
  by (cases a) (simp_all add: callHost_def logDanglingFrame_def Let_def)

lemma perform_runState [simp]: "runState (perform sz lc w as) = runState w"
  by (induction as arbitrary: w) (simp_all add: perform_def)

text \<open>
  A predicate on the host-call channel that every new call and every settlement keeps is
  kept by the whole worker.
\<close>

locale host_channel_invariant =
  fixes P :: "nat \<times> (nat, unit) jsmap \<times> (nat \<times> host_outcome) list \<Rightarrow> bool"
  assumes call_kept: "P (n, pend, done) \<Longrightarrow> P (Suc n, map_set n () pend, done)"
    and settle_kept: "P (n, pend, done) \<Longrightarrow> i \<in> set (keys pend) \<Longrightarrow>
          P (n, map_delete i pend, done @ [(i, r)])"
    and abandon_kept: "P (n, pend, done) \<Longrightarrow> P (n, [], done @ map (\<lambda>i. (i, r)) (keys pend))"
begin

lemma act_kept: "P (host_view w) \<Longrightarrow> P (host_view (act sz lc w a))"
proof (cases a)
  case (CallHost mth args)
  assume "P (host_view w)"
  from call_kept [OF this [unfolded host_view_def]] CallHost show ?thesis
    by (simp add: callHost_def Let_def) (simp add: host_view_def)
qed (simp_all add: logDanglingFrame_def)

lemma perform_kept: "P (host_view w) \<Longrightarrow> P (host_view (perform sz lc w as))"
  by (induction as arbitrary: w) (simp_all add: perform_def act_kept)

lemma leaks_kept: "P (host_view w) \<Longrightarrow> P (host_view (dispose_leaks sz p1 w ds))"
  by (induction ds arbitrary: w) simp_all

lemma reject_kept: "P (host_view w) \<Longrightarrow> P (host_view (rejectPendingHostCalls w))"
  using abandon_kept [of "hostCallSeq w" "pendingHostCalls w" "settled w"]
  by (cases "pendingHostCalls w = []") (simp_all add: rejectPendingHostCalls_def host_view_def)

lemma before_kept: "P (host_view w) \<Longrightarrow> P (host_view (runLifecycleBefore sz p1 w))"
  by (simp add: runLifecycleBefore_def Let_def perform_kept split: prod.splits option.splits)

lemma finish_kept:
  assumes "P (host_view w)"
  shows "P (host_view (handleRun_finish sz p1 leaks w payload))"
proof -
  have "P (host_view (rejectPendingHostCalls (runLifecycleAfter sz p1 leaks w)))"
    using assms by (simp add: runLifecycleAfter_def reject_kept leaks_kept perform_kept split: prod.splits)
  then have "P (host_view (finalizeRun sz p1 leaks w))"
    by (simp add: finalizeRun_def Let_def host_view_def)
  then have "P (host_view (post sz (Some p1) (finalizeRun sz p1 leaks w) (DoneMsg payload)))"
    by simp
  then show ?thesis by (simp add: handleRun_finish_def startRestore_def host_view_def)
qed

lemma step_kept:
  assumes "P (host_view w)"
  shows "P (host_view (worker_step sz p1 w e))"
proof (cases e)
  case WRunStart
  have "P (host_view (w\<lparr>runState := Some RsRunning, counters := resetRunCounters (counters w),
      wbridge := setRunActive (resetCallIds (wbridge w))\<rparr>))"
    using assms by (simp add: host_view_def)
  with WRunStart assms show ?thesis
    by (simp add: handleRun_start_def before_kept split: option.splits)
next
  case (WResponse i r)
  with assms settle_kept [of "hostCallSeq w" "pendingHostCalls w" "settled w" i r] show ?thesis
    by (auto simp: resolveHostCall_def host_view_def img_fst dest!: map_of_SomeD split: option.splits)
next
  case (WRestoreFailed err)
  have "P (host_view (w\<lparr>runState := Some RsDead\<rparr>))" using assms by (simp add: host_view_def)
  with WRestoreFailed show ?thesis by (simp add: restore_failed_def)
qed (use assms in \<open>simp_all add: act_kept finish_kept\<close>, simp add: restore_done_def host_view_def)

lemma run_kept: "P (host_view w) \<Longrightarrow> P (host_view (worker_run sz p1 w es))"
  by (induction es arbitrary: w) (simp_all add: step_kept)

end

definition once_settled :: "nat \<times> (nat, unit) jsmap \<times> (nat \<times> host_outcome) list \<Rightarrow> bool" where
  "once_settled v = (case v of (n, pend, done) \<Rightarrow>
     distinct (map fst done @ keys pend) \<and> (\<forall>i\<in>set (map fst done @ keys pend). i < n))"

definition pending_from :: "nat \<Rightarrow> nat \<times> (nat, unit) jsmap \<times> (nat \<times> host_outcome) list \<Rightarrow> bool" where
  "pending_from b v = (case v of (n, pend, done) \<Rightarrow> b \<le> n \<and> (\<forall>i\<in>set (keys pend). b \<le> i))"

interpretation once: host_channel_invariant once_settled
proof
  fix n pend "done" i r
  assume inv: "once_settled (n, pend, done)"
  then have "n \<notin> set (keys pend)" by (auto simp: once_settled_def)
  then have "map_set n () pend = pend @ [(n, ())]" by (rule map_set_fresh)
  with inv show "once_settled (Suc n, map_set n () pend, done)"
    by (auto simp: once_settled_def less_Suc_eq)
  assume "i \<in> set (keys pend)"
  with inv show "once_settled (n, map_delete i pend, done @ [(i, r)])"
    by (auto simp: once_settled_def map_delete_filter distinct_map_filter)
next
  fix n pend "done" r
  assume "once_settled (n, pend, done)"
  moreover have "map fst (done @ map (\<lambda>i. (i, r)) (keys pend)) @ [] = map fst done @ keys pend"
    by (simp add: comp_def)
  ultimately show "once_settled (n, [], done @ map (\<lambda>i. (i, r)) (keys pend))"
    unfolding once_settled_def prod.case list.map by metis
qed

interpretation from_now: host_channel_invariant "pending_from b" for b
proof
  fix n :: nat and pend :: "(nat, unit) jsmap" and "done" i r
  assume inv: "pending_from b (n, pend, done)"
  then show "pending_from b (Suc n, map_set n () pend, done)"
    unfolding pending_from_def prod.case keys_map_set by auto
  show "pending_from b (n, map_delete i pend, done @ [(i, r)])"
    using inv by (auto simp: pending_from_def map_delete_filter)
next
  fix n pend "done" r
  assume "pending_from b (n, pend, done)"
  then show "pending_from b (n, [], done @ map (\<lambda>i. (i, r)) (keys pend))"
    by (simp add: pending_from_def)
qed

lemma finish_pending: "pendingHostCalls (handleRun_finish sz p1 leaks w payload) = []"
proof -
  have "pendingHostCalls (finalizeRun sz p1 leaks w) = []"
    by (simp add: finalizeRun_def Let_def rejectPendingHostCalls_def)
  with post_frame(1) [of sz "Some p1" "finalizeRun sz p1 leaks w" "DoneMsg payload"] show ?thesis
    by (simp add: handleRun_finish_def startRestore_def host_view_def)
qed

section \<open>Output accounting\<close>

fun event_bytes :: "payload_size \<Rightarrow> worker_msg list \<Rightarrow> nat" where
  "event_bytes sz [] = 0"
| "event_bytes sz (EventMsg e # ms) = (case sz e of None \<Rightarrow> 0 | Some n \<Rightarrow> n) + event_bytes sz ms"
| "event_bytes sz (m # ms) = event_bytes sz ms"

lemma event_bytes_append [simp]: "event_bytes sz (xs @ ys) = event_bytes sz xs + event_bytes sz ys"
  by (induction sz xs rule: event_bytes.induct) auto

definition accounted :: "payload_size \<Rightarrow> nat \<Rightarrow> nat \<Rightarrow> worker \<Rightarrow> bool" where
  \<comment> \<open>\<open>base\<close> bytes were sent before the run, and the run stays within \<open>limit\<close>\<close>
  "accounted sz base limit w \<longleftrightarrow>
     outputBytesLimit (counters w) = Some limit \<and>
     event_bytes sz (sent w) = base + outputBytesUsed (counters w) \<and>
     outputBytesUsed (counters w) \<le> limit"

lemma accounted_cong:
  "counters w' = counters w \<Longrightarrow> sent w' = sent w \<Longrightarrow> accounted sz base limit w' = accounted sz base limit w"
  by (simp add: accounted_def)

lemma post_raw_accounted:
  "accounted sz base limit w \<Longrightarrow> accounted sz base limit (fst (post_raw sz w msg))"
  by (cases msg) (auto simp: accounted_def post_raw_def accountOutputBytes_def above_limit_def
      throwLimit_def split: option.splits)

lemma post_logs_accounted:
  "accounted sz base limit w \<Longrightarrow> accounted sz base limit (post_logs sz w errs)"
proof (induction errs arbitrary: w)
  case (Cons err errs)
  obtain w' ok where r: "post_raw sz w (onPost_failed_log err) = (w', ok)" by fastforce
  with post_raw_accounted [OF Cons.prems, of "onPost_failed_log err"] Cons.IH [of w'] show ?case
    by simp
qed simp

lemma post_accounted:
  assumes "accounted sz base limit w"
  shows "accounted sz base limit (post sz lc w msg)"
proof (cases lc)
  case None
  with assms show ?thesis by (simp add: post_def post_raw_accounted)
next
  case (Some p1)
  obtain m errs where h: "runOnPost (setups p1) (order p1) msg = (m, errs)" by fastforce
  obtain w' ok where r: "post_raw sz w m = (w', ok)" by fastforce
  with post_raw_accounted [OF assms, of m] have "accounted sz base limit w'" by simp
  with Some h r show ?thesis by (simp add: post_def post_logs_accounted)
qed

lemma act_accounted:
  assumes "accounted sz base limit w"
  shows "accounted sz base limit (act sz lc w a)"
proof (cases a)
  case (Emit e)
  have "accounted sz base limit (w\<lparr>wbridge := b\<rparr>)" for b
    using assms by (simp add: accounted_def)
  with Emit show ?thesis
    by (auto simp: emit_def post_accounted split: prod.splits option.splits)
next
  case (CallHost mth args)
  with assms show ?thesis
    by (simp add: callHost_def Let_def, intro post_accounted) (simp add: accounted_def)
qed (simp add: logDanglingFrame_def post_accounted assms)

lemma perform_accounted:
  "accounted sz base limit w \<Longrightarrow> accounted sz base limit (perform sz lc w as)"
  by (induction as arbitrary: w) (simp_all add: perform_def act_accounted)

lemma leaks_accounted:
  "accounted sz base limit w \<Longrightarrow> accounted sz base limit (dispose_leaks sz p1 w ds)"
  by (induction ds arbitrary: w) (simp_all add: post_accounted)

lemma finish_accounted:
  assumes "accounted sz base limit w"
  shows "accounted sz base limit (handleRun_finish sz p1 leaks w payload)"
proof -
  have "accounted sz base limit (runLifecycleAfter sz p1 leaks w)"
    using assms by (simp add: runLifecycleAfter_def leaks_accounted perform_accounted split: prod.splits)
  then have "accounted sz base limit (finalizeRun sz p1 leaks w)"
    by (simp add: finalizeRun_def Let_def rejectPendingHostCalls_def accounted_def)
  from post_accounted [OF this, of "Some p1" "DoneMsg payload"] show ?thesis
    by (simp add: handleRun_finish_def startRestore_def accounted_def)
qed

lemma before_accounted:
  "accounted sz base limit w \<Longrightarrow> accounted sz base limit (runLifecycleBefore sz p1 w)"
  by (simp add: runLifecycleBefore_def Let_def perform_accounted post_accounted
      split: prod.splits option.splits)

lemma step_accounted:
  assumes "accounted sz base limit w" and "e \<noteq> WRunStart"
  shows "accounted sz base limit (worker_step sz p1 w e)"
proof (cases e)
  case (WRestoreFailed err)
  have "accounted sz base limit (w\<lparr>runState := Some RsDead\<rparr>)" using assms by (simp add: accounted_def)
  with WRestoreFailed show ?thesis by (simp add: restore_failed_def post_accounted)
next
  case (WResponse i r)
  with assms show ?thesis
    by (simp add: resolveHostCall_def accounted_def split: option.splits)
next
  case WRestoreDone
  with assms show ?thesis by (simp add: restore_done_def accounted_def)
qed (simp_all add: assms act_accounted finish_accounted)

lemma run_accounted:
  "accounted sz base limit w \<Longrightarrow>
     accounted sz base limit (worker_run sz p1 w (filter (\<lambda>e. e \<noteq> WRunStart) es))"
  by (induction es arbitrary: w) (simp_all add: step_accounted)

lemma start_accounted:
  assumes "accounted sz base limit w"
  shows "\<exists>base' \<le> event_bytes sz (sent w). accounted sz base' limit (handleRun_start sz p1 w)"
proof (cases "runState w")
  case None
  then have "accounted sz base limit (handleRun_start sz p1 w)"
    using assms by (simp add: handleRun_start_def post_accounted)
  moreover have "base \<le> event_bytes sz (sent w)" using assms by (simp add: accounted_def)
  ultimately show ?thesis by blast
next
  case (Some rs)
  have "accounted sz (event_bytes sz (sent w)) limit
      (w\<lparr>runState := Some RsRunning, counters := resetRunCounters (counters w),
         wbridge := setRunActive (resetCallIds (wbridge w))\<rparr>)"
    using assms by (simp add: accounted_def resetRunCounters_def)
  with Some have "accounted sz (event_bytes sz (sent w)) limit (handleRun_start sz p1 w)"
    by (simp add: handleRun_start_def before_accounted)
  then show ?thesis by blast
qed

lemma worker_run_accounted:
  "accounted sz base limit w \<Longrightarrow> \<exists>base'. accounted sz base' limit (worker_run sz p1 w es)"
proof (induction es arbitrary: w base)
  case (Cons e es)
  have "\<exists>base'. accounted sz base' limit (worker_step sz p1 w e)"
    using start_accounted [OF Cons.prems, of p1] step_accounted [OF Cons.prems, of e p1]
    by (cases "e = WRunStart") auto
  with Cons.IH show ?case by auto
qed auto

lemma init_accounted:
  "accounted sz 0 outputBytes (init_ready sz p1 outputBytes pendingCallables fresh_worker)"
  unfolding init_ready_def
  by (rule post_accounted)
    (simp add: accounted_def configureWorkerLimits_def fresh_worker_def initial_counters_def)

section \<open>Properties\<close>

text \<open>
  \<^bold>\<open>C5\<close>. Host calls never leak across runs: whatever the worker did before a run ended,
  and whatever it does in later runs, a response to a call made before that end is
  dropped without changing the worker; and no call is ever settled twice.
\<close>

theorem stale_host_response_dropped:
  "let w1 = handleRun_finish sz p1 leaks (worker_run sz p1 fresh_worker es) payload;
       w2 = worker_run sz p1 w1 es'
   in (hostCallSeq w1 \<le> callid \<or> resolveHostCall w2 callid outcome = w2) \<and>
      distinct (map fst (settled w2))"
proof -
  define w1 where "w1 = handleRun_finish sz p1 leaks (worker_run sz p1 fresh_worker es) payload"
  define w2 where "w2 = worker_run sz p1 w1 es'"
  have "pending_from (hostCallSeq w1) (host_view w1)"
    using finish_pending by (simp add: pending_from_def host_view_def w1_def)
  from from_now.run_kept [OF this, of sz p1 es'] have later: "pending_from (hostCallSeq w1) (host_view w2)"
    by (simp add: w2_def)
  have "once_settled (host_view fresh_worker)"
    by (simp add: once_settled_def host_view_def fresh_worker_def)
  then have "once_settled (host_view w2)"
    unfolding w2_def w1_def by (intro once.run_kept once.finish_kept)
  then have "distinct (map fst (settled w2))" by (simp add: once_settled_def host_view_def)
  moreover have "resolveHostCall w2 callid outcome = w2" if "\<not> hostCallSeq w1 \<le> callid"
  proof -
    have "callid \<notin> set (keys (pendingHostCalls w2))"
      using later that by (force simp: pending_from_def host_view_def)
    then have "map_get (pendingHostCalls w2) callid = None" using map_get_None_keys by metis
    then show ?thesis by (simp add: resolveHostCall_def)
  qed
  ultimately show ?thesis unfolding Let_def w1_def [symmetric] w2_def [symmetric] by blast
qed


text \<open>
  A worker whose restore failed is marked dead, yet \<open>handleRun\<close> does not consult the
  mark: a \<open>run\<close> message is served and the state returns to running.
\<close>

lemma dead_worker_accepts_run:
  "runState w = Some RsDead \<Longrightarrow> runState (handleRun_start sz p1 w) = Some RsRunning"
  by (simp add: handleRun_start_def runLifecycleBefore_def Let_def split: prod.splits option.splits)

end
