(* ===== verification/Sandbox.thy ===== *)
theory Sandbox
  imports Worker
begin

text \<open>
  The main-thread side of a sandbox (\<open>packages/sandbox/src/sandbox.ts\<close>): runs, worker
  death, disposal, and the error encoding of the host-call channel.

  The closure variables of \<open>sandbox()\<close> are the record \<open>sandbox\<close>. \<open>runInFlight\<close> and the
  listeners of the run in flight are \<open>active\<close>: a run's listeners are attached exactly
  while it is in flight. \<open>terminatedCause\<close> is the last cause the termination tracker
  delivered, since the tracker's callback only stores it. A promise keeps its first
  settlement. Worker events reach the tracker's listeners before the run's, in the order
  in which they were attached. \<open>Date.now()\<close> and the ISO rendering are arguments.
\<close>

section \<open>Host errors\<close>

datatype js_value =
    VNull
  | VUndefined
  | VBool bool
  | VNum int
  | VStr string
  | VFunction
  | VArr "js_value list"
  | VObj "(string \<times> js_value) list"

fun isJsonSafe :: "js_value \<Rightarrow> bool" where
  "isJsonSafe VNull = True"
| "isJsonSafe (VStr s) = True"
| "isJsonSafe (VNum n) = True"
| "isJsonSafe (VBool b) = True"
| "isJsonSafe (VArr vs) = list_all isJsonSafe vs"
| "isJsonSafe (VObj es) = list_all (\<lambda>e. isJsonSafe (snd e)) es"
| "isJsonSafe v = False"

record host_error =
  he_name :: string
  he_message :: string
  he_stack :: string
  he_props :: "(string, js_value) jsmap"

record serialized_error =
  ser_name :: string
  ser_message :: string
  ser_stack :: string
  ser_issues :: "js_value option"
  ser_data :: "(string, js_value) jsmap option"

definition carried_keys :: "string list" where
  "carried_keys = [''message'', ''stack'', ''name'', ''issues'']"

definition capture_key ::
  "(string, js_value) jsmap \<Rightarrow> (string, js_value) jsmap \<Rightarrow> string \<Rightarrow> (string, js_value) jsmap" where
  "capture_key props data key =
     (if key \<in> set carried_keys then data
      else (case map_get props key of
              None \<Rightarrow> data
            | Some v \<Rightarrow> if isJsonSafe v then map_set key v data else data))"

definition captureErrorData :: "host_error \<Rightarrow> (string, js_value) jsmap option" where
  "captureErrorData err =
     (let data = foldl (capture_key (he_props err)) [] (keys (he_props err))
      in if data = [] then None else Some data)"

definition serializeHostError :: "host_error \<Rightarrow> serialized_error" where
  "serializeHostError err =
     \<lparr>ser_name = he_name err, ser_message = he_message err, ser_stack = he_stack err,
      ser_issues = (case map_get (he_props err) ''issues'' of
                      Some VUndefined \<Rightarrow> None | other \<Rightarrow> other),
      ser_data = captureErrorData err\<rparr>"

definition errorFromSerialized :: "serialized_error \<Rightarrow> host_error" where
  "errorFromSerialized err =
     (let base = [(''stack'', VStr (ser_stack err)), (''message'', VStr (ser_message err)),
                  (''name'', VStr (ser_name err))];
          withIssues = (case ser_issues err of None \<Rightarrow> base | Some i \<Rightarrow> map_set ''issues'' i base);
          props = (case ser_data err of
                     None \<Rightarrow> withIssues
                   | Some data \<Rightarrow> foldl (\<lambda>m e. map_set (fst e) (snd e) m) withIssues data)
      in \<lparr>he_name = ser_name err, he_message = ser_message err, he_stack = ser_stack err,
          he_props = props\<rparr>)"

section \<open>State\<close>

datatype run_outcome = RunResolved run_payload | RunRejected string

record limits =
  cpuMs :: int
  outputBytes :: int
  pendingCallables :: int

record sandbox =
  sb_term :: worker_termination
  sb_seq :: sequencer
  disposed :: bool
  active :: "nat option"
  pendingRunRejects :: "nat list"
  next_run :: nat
  run_settled :: "(nat \<times> run_outcome) list"
  onEventCb :: bool
  forwarded :: "sandbox_event list"
  sb_terminatedCb :: bool
  notified :: "termination_cause list"

definition create_sandbox :: sandbox where
  "create_sandbox =
     \<lparr>sb_term = register_onTerminated createWorkerTermination, sb_seq = createRunSequencer,
      disposed = False, active = None, pendingRunRejects = [], next_run = 0, run_settled = [],
      onEventCb = False, forwarded = [], sb_terminatedCb = False, notified = []\<rparr>"

definition terminatedCause :: "sandbox \<Rightarrow> termination_cause option" where
  "terminatedCause sb = array_last (delivered (sb_term sb))"

definition isActive :: "sandbox \<Rightarrow> bool" where
  "isActive sb = (active sb \<noteq> None)"

definition with_term :: "sandbox \<Rightarrow> worker_termination \<Rightarrow> sandbox" where
  \<comment> \<open>an operation of the tracker, and the registered callback for causes it delivered\<close>
  "with_term sb t =
     sb\<lparr>sb_term := t,
        notified := notified sb @
          (if sb_terminatedCb sb then drop (length (delivered (sb_term sb))) (delivered t) else [])\<rparr>"

definition settle :: "sandbox \<Rightarrow> nat \<Rightarrow> run_outcome \<Rightarrow> sandbox" where
  "settle sb r outcome =
     (if r \<in> set (map fst (run_settled sb)) then sb
      else sb\<lparr>run_settled := run_settled sb @ [(r, outcome)]\<rparr>)"

definition forwardSandboxEvent :: "sandbox \<Rightarrow> sandbox_event \<Rightarrow> sandbox" where
  "forwardSandboxEvent sb e =
     (if onEventCb sb then sb\<lparr>forwarded := forwarded sb @ [e]\<rparr> else sb)"

definition dispatchWireEvent :: "sandbox \<Rightarrow> wire_event \<Rightarrow> sandbox" where
  "dispatchWireEvent sb w =
     (case next_event (sb_seq sb) w of (s, out) \<Rightarrow>
        (case out of
           None \<Rightarrow> sb\<lparr>sb_seq := s\<rparr>
         | Some e \<Rightarrow> forwardSandboxEvent (sb\<lparr>sb_seq := s\<rparr>) e))"

section \<open>Runs\<close>

fun dim_name :: "limit_dim \<Rightarrow> string" where
  "dim_name LimCpu = ''cpu''"
| "dim_name LimOutput = ''output''"
| "dim_name LimPending = ''pending''"

fun cause_message :: "termination_cause \<Rightarrow> string" where
  "cause_message (CrashCause err) = we_message err"
| "cause_message (RestoreFailed err) = ''restore-failed: '' @ we_message err"
| "cause_message (LimitCause dim observed) = ''limit '' @ dim_name dim"

definition run :: "sandbox \<Rightarrow> int \<Rightarrow> sandbox \<times> (string + nat)" where
  \<comment> \<open>\<open>Inr\<close>: the run was dispatched and its promise is pending\<close>
  "run sb now =
     (if disposed sb then (sb, Inl ''Sandbox is disposed'')
      else case terminatedCause sb of
        Some cause \<Rightarrow> (sb, Inl (''Sandbox worker has died: '' @ cause_message cause))
      | None \<Rightarrow>
          if active sb \<noteq> None
          then (sb, Inl ''sandbox.run: concurrent run not permitted; a previous run is still in flight'')
          else let r = next_run sb
               in (sb\<lparr>pendingRunRejects := pendingRunRejects sb @ [r], active := Some r,
                      next_run := Suc r, sb_seq := start_run (sb_seq sb),
                      sb_term := armCpuBudget (sb_term sb) now\<rparr>, Inr r))"

definition finalize :: "sandbox \<Rightarrow> nat \<Rightarrow> sandbox_event list \<Rightarrow> run_outcome \<Rightarrow> sandbox" where
  "finalize sb r synth outcome =
     (let sb1 = sb\<lparr>pendingRunRejects := removeAll r (pendingRunRejects sb), active := None,
                   sb_term := disarmCpuBudget (sb_term sb)\<rparr>
      in settle (foldl forwardSandboxEvent sb1 synth) r outcome)"

definition finish_run :: "sandbox \<Rightarrow> nat \<Rightarrow> string option \<Rightarrow> run_outcome \<Rightarrow> sandbox" where
  \<comment> \<open>\<open>finalize(sequencer.finish(...), settle)\<close>\<close>
  "finish_run sb r closeReason outcome =
     (case finish (sb_seq sb) closeReason of (s, synth) \<Rightarrow>
        finalize (sb\<lparr>sb_seq := s\<rparr>) r synth outcome)"

fun budget_of :: "limits \<Rightarrow> limit_dim \<Rightarrow> int" where
  "budget_of lim LimCpu = cpuMs lim"
| "budget_of lim LimOutput = outputBytes lim"
| "budget_of lim LimPending = pendingCallables lim"

definition limit_leaf :: "limits \<Rightarrow> (int \<Rightarrow> string) \<Rightarrow> int \<Rightarrow> limit_dim \<Rightarrow> int option \<Rightarrow> wire_event" where
  "limit_leaf lim isof now dim observed =
     \<lparr>w_kind = ''system.exhaustion'', w_name = dim_name dim, w_ts = now, w_at = isof now,
      w_input = Some (JObj ((''budget'', JNum (budget_of lim dim)) #
        (case observed of None \<Rightarrow> [] | Some n \<Rightarrow> [(''observed'', JNum n)]))),
      w_output = None, w_error = None, w_type = Leaf\<rparr>"

definition handleDeath ::
  "limits \<Rightarrow> (int \<Rightarrow> string) \<Rightarrow> int \<Rightarrow> sandbox \<Rightarrow> nat \<Rightarrow> string \<Rightarrow> sandbox" where
  "handleDeath lim isof now sb r fallback =
     (case termination_cause_now (sb_term sb) of
        Some (LimitCause dim observed) \<Rightarrow>
          finish_run (dispatchWireEvent sb (limit_leaf lim isof now dim observed)) r
            (Some (''limit:'' @ dim_name dim))
            (RunRejected (''sandbox limit exceeded: '' @ dim_name dim))
      | cause \<Rightarrow>
          let closeReason =
                (case cause of
                   Some (CrashCause err) \<Rightarrow> ''crash:'' @ we_message err
                 | Some (RestoreFailed err) \<Rightarrow> ''restore-failed:'' @ we_message err
                 | _ \<Rightarrow> fallback)
          in finish_run sb r (Some closeReason) (RunRejected fallback))"

definition on_done :: "sandbox \<Rightarrow> run_payload \<Rightarrow> sandbox" where
  "on_done sb payload =
     (case active sb of
        None \<Rightarrow> sb
      | Some r \<Rightarrow> finish_run sb r None (RunResolved payload))"

definition on_error ::
  "limits \<Rightarrow> (int \<Rightarrow> string) \<Rightarrow> int \<Rightarrow> sandbox \<Rightarrow> werror \<Rightarrow> sandbox" where
  "on_error lim isof now sb err =
     (let sb1 = with_term sb (on_worker_error (sb_term sb) err)
      in case active sb1 of
           None \<Rightarrow> sb1
         | Some r \<Rightarrow> handleDeath lim isof now sb1 r (we_message err))"

definition on_exit ::
  "limits \<Rightarrow> (int \<Rightarrow> string) \<Rightarrow> int \<Rightarrow> sandbox \<Rightarrow> int \<Rightarrow> sandbox" where
  "on_exit lim isof now sb code =
     (let sb1 = with_term sb (on_worker_exit (sb_term sb))
      in case active sb1 of
           None \<Rightarrow> sb1
         | Some r \<Rightarrow> handleDeath lim isof now sb1 r (''worker exited with code '' @ show_int code))"

definition on_restore_failed :: "sandbox \<Rightarrow> werror \<Rightarrow> sandbox" where
  "on_restore_failed sb err = with_term sb (markRestoreFailed (sb_term sb) err)"

definition on_watchdog :: "sandbox \<Rightarrow> int \<Rightarrow> sandbox" where
  "on_watchdog sb now = with_term sb (watchdog_fires (sb_term sb) now)"

definition dispose :: "sandbox \<Rightarrow> sandbox" where
  \<comment> \<open>the second call returns the promise of the first\<close>
  "dispose sb =
     (if disposed sb then sb
      else
        let sb1 = with_term (sb\<lparr>disposed := True\<rparr>) (markDisposing (sb_term sb));
            sb2 = foldl (\<lambda>s r. settle s r (RunRejected ''Sandbox is disposed'')) sb1 (pendingRunRejects sb1)
        in sb2\<lparr>pendingRunRejects := []\<rparr>)"

definition onTerminated :: "sandbox \<Rightarrow> sandbox" where
  "onTerminated sb =
     (let sb1 = sb\<lparr>sb_terminatedCb := True\<rparr>
      in case terminatedCause sb of
           None \<Rightarrow> sb1
         | Some cause \<Rightarrow> sb1\<lparr>notified := notified sb1 @ [cause]\<rparr>)"

definition onEvent :: "sandbox \<Rightarrow> sandbox" where
  "onEvent sb = sb\<lparr>onEventCb := True\<rparr>"

section \<open>Host calls\<close>

type_synonym host_handlers = "string \<Rightarrow> (json list \<Rightarrow> host_error + json) option"

definition unknown_method :: "string \<Rightarrow> host_error" where
  "unknown_method mth =
     \<lparr>he_name = ''Error'', he_message = ''unknown host-call method: '' @ mth, he_stack = '''',
      he_props = [(''stack'', VStr ''''), (''message'', VStr (''unknown host-call method: '' @ mth))]\<rparr>"

definition handleHostCallRequest ::
  "host_handlers \<Rightarrow> sandbox \<Rightarrow> nat \<Rightarrow> string \<Rightarrow> json list
     \<Rightarrow> (nat \<times> (serialized_error + json)) option" where
  \<comment> \<open>the reply posted to the worker, dropped when the sandbox is disposed by then\<close>
  "handleHostCallRequest handlers sb callid mth args =
     (let reply = (case handlers mth of
                     None \<Rightarrow> Inl (serializeHostError (unknown_method mth))
                   | Some handler \<Rightarrow> map_sum serializeHostError id (handler args))
      in if disposed sb then None else Some (callid, reply))"

section \<open>The sandbox as a state machine\<close>

datatype sandbox_op =
    OpRun int
  | OpWire wire_event
  | OpDone run_payload
  | OpError int werror
  | OpExit int int
  | OpWatchdog int
  | OpRestoreFailed werror
  | OpDispose
  | OpOnTerminated
  | OpOnEvent

fun sandbox_step :: "limits \<Rightarrow> (int \<Rightarrow> string) \<Rightarrow> sandbox \<Rightarrow> sandbox_op \<Rightarrow> sandbox" where
  "sandbox_step lim isof sb (OpRun now) = fst (run sb now)"
| "sandbox_step lim isof sb (OpWire w) = dispatchWireEvent sb w"
| "sandbox_step lim isof sb (OpDone payload) = on_done sb payload"
| "sandbox_step lim isof sb (OpError now err) = on_error lim isof now sb err"
| "sandbox_step lim isof sb (OpExit now code) = on_exit lim isof now sb code"
| "sandbox_step lim isof sb (OpWatchdog now) = on_watchdog sb now"
| "sandbox_step lim isof sb (OpRestoreFailed err) = on_restore_failed sb err"
| "sandbox_step lim isof sb OpDispose = dispose sb"
| "sandbox_step lim isof sb OpOnTerminated = onTerminated sb"
| "sandbox_step lim isof sb OpOnEvent = onEvent sb"

abbreviation sandbox_ops :: "limits \<Rightarrow> (int \<Rightarrow> string) \<Rightarrow> sandbox \<Rightarrow> sandbox_op list \<Rightarrow> sandbox" where
  "sandbox_ops lim isof sb ops \<equiv> foldl (sandbox_step lim isof) sb ops"

section \<open>Settlement of runs\<close>

definition run_view :: "sandbox \<Rightarrow> nat option \<times> nat list \<times> nat \<times> (nat \<times> run_outcome) list" where
  "run_view sb = (active sb, pendingRunRejects sb, next_run sb, run_settled sb)"

definition settle_inv :: "sandbox \<Rightarrow> bool" where
  "settle_inv sb \<longleftrightarrow>
     distinct (map fst (run_settled sb)) \<and>
     (\<forall>r\<in>set (map fst (run_settled sb)). r < next_run sb) \<and>
     (\<forall>r<next_run sb. r \<in> set (map fst (run_settled sb)) \<or>
        active sb = Some r \<and> pendingRunRejects sb = [r]) \<and>
     (\<forall>r. active sb = Some r \<longrightarrow> r < next_run sb) \<and>
     (pendingRunRejects sb = [] \<or> (\<exists>r. active sb = Some r \<and> pendingRunRejects sb = [r]))"

lemma settle_inv_cong: "run_view sb' = run_view sb \<Longrightarrow> settle_inv sb' = settle_inv sb"
  by (simp add: run_view_def settle_inv_def)

lemma forward_view [simp]: "run_view (forwardSandboxEvent sb e) = run_view sb"
  by (simp add: forwardSandboxEvent_def run_view_def)

lemma forwards_view [simp]: "run_view (foldl forwardSandboxEvent sb es) = run_view sb"
  by (induction es arbitrary: sb) simp_all

lemma seq_update_view [simp]: "run_view (sb\<lparr>sb_seq := s\<rparr>) = run_view sb"
  by (simp add: run_view_def)

lemma dispatch_view [simp]: "run_view (dispatchWireEvent sb w) = run_view sb"
  by (simp add: dispatchWireEvent_def split: prod.splits option.splits)

lemma with_term_view [simp]: "run_view (with_term sb t) = run_view sb"
  by (simp add: with_term_def run_view_def)

lemma with_term_active [simp]: "active (with_term sb t) = active sb"
  by (simp add: with_term_def)

lemma finalize_view:
  "run_view (finalize sb r synth outcome) =
     (None, removeAll r (pendingRunRejects sb), next_run sb,
      if r \<in> set (map fst (run_settled sb)) then run_settled sb else run_settled sb @ [(r, outcome)])"
proof -
  let ?sb = "foldl forwardSandboxEvent
      (sb\<lparr>pendingRunRejects := removeAll r (pendingRunRejects sb), active := None,
          sb_term := disarmCpuBudget (sb_term sb)\<rparr>) synth"
  have "run_view ?sb = (None, removeAll r (pendingRunRejects sb), next_run sb, run_settled sb)"
    by simp (simp add: run_view_def)
  then show ?thesis by (auto simp: finalize_def settle_def run_view_def Let_def)
qed

lemma finalize_inv:
  assumes "settle_inv sb" and "active sb = Some r"
  shows "settle_inv (finalize sb r synth outcome) \<and> active (finalize sb r synth outcome) = None"
  using assms finalize_view [of sb r synth outcome]
  by (auto simp: settle_inv_def run_view_def filter_empty_conv removeAll_filter_not_eq
      split: if_splits)

lemma finish_run_inv:
  assumes "settle_inv sb" and "active sb = Some r"
  shows "settle_inv (finish_run sb r reason outcome) \<and> active (finish_run sb r reason outcome) = None"
proof -
  obtain s synth where f: "finish (sb_seq sb) reason = (s, synth)" by fastforce
  have "settle_inv (sb\<lparr>sb_seq := s\<rparr>)" "active (sb\<lparr>sb_seq := s\<rparr>) = Some r"
    using assms by (simp_all add: settle_inv_cong [OF seq_update_view])
  from finalize_inv [OF this] f show ?thesis by (simp add: finish_run_def)
qed

lemma handleDeath_cases:
  "\<exists>reason outcome. handleDeath lim isof now sb r fallback = finish_run sb r (Some reason) outcome \<or>
     (\<exists>w. handleDeath lim isof now sb r fallback =
        finish_run (dispatchWireEvent sb w) r (Some reason) outcome)"
  by (auto simp: handleDeath_def Let_def split: option.splits termination_cause.splits)

lemma handleDeath_inv:
  assumes "settle_inv sb" and "active sb = Some r"
  shows "settle_inv (handleDeath lim isof now sb r fallback) \<and>
    active (handleDeath lim isof now sb r fallback) = None"
proof -
  have "settle_inv (dispatchWireEvent sb w)" "active (dispatchWireEvent sb w) = Some r" for w
    using assms settle_inv_cong [OF dispatch_view, of sb w] dispatch_view [of sb w]
    by (simp_all add: run_view_def)
  then have "settle_inv (finish_run (dispatchWireEvent sb w) r reason outcome) \<and>
      active (finish_run (dispatchWireEvent sb w) r reason outcome) = None" for w reason outcome
    by (intro finish_run_inv)
  with handleDeath_cases [of lim isof now sb r fallback] finish_run_inv [OF assms]
  show ?thesis by metis
qed

lemma dispose_view:
  assumes "settle_inv sb" and "\<not> disposed sb"
  shows "run_view (dispose sb) =
    (active sb, [], next_run sb,
     run_settled sb @ map (\<lambda>r. (r, RunRejected ''Sandbox is disposed''))
       (filter (\<lambda>r. r \<notin> set (map fst (run_settled sb))) (pendingRunRejects sb)))"
proof -
  have "pendingRunRejects sb = [] \<or> (\<exists>r. pendingRunRejects sb = [r])"
    using assms(1) by (auto simp: settle_inv_def)
  then show ?thesis
    using assms(2)
    by (auto simp: dispose_def with_term_def run_view_def settle_def Let_def)
qed

lemma dispose_inv:
  assumes "settle_inv sb"
  shows "settle_inv (dispose sb)"
proof (cases "disposed sb")
  case False
  from dispose_view [OF assms False] assms show ?thesis
    by (auto simp: settle_inv_def run_view_def)
qed (simp add: assms dispose_def)

lemma sandbox_step_inv:
  assumes "settle_inv sb"
  shows "settle_inv (sandbox_step lim isof sb opn)"
proof (cases opn)
  case (OpRun now)
  with assms show ?thesis
    by (auto simp: run_def settle_inv_def Let_def less_Suc_eq split: option.splits)
next
  case (OpDone payload)
  with assms finish_run_inv [OF assms] show ?thesis
    by (simp add: on_done_def split: option.splits)
next
  case (OpError now err)
  have v: "run_view (with_term sb (on_worker_error (sb_term sb) err)) = run_view sb" by simp
  from OpError handleDeath_inv [of "with_term sb (on_worker_error (sb_term sb) err)"]
    settle_inv_cong [OF v] assms
  show ?thesis by (simp add: on_error_def Let_def split: option.splits)
next
  case (OpExit now code)
  have v: "run_view (with_term sb (on_worker_exit (sb_term sb))) = run_view sb" by simp
  from OpExit handleDeath_inv [of "with_term sb (on_worker_exit (sb_term sb))"]
    settle_inv_cong [OF v] assms
  show ?thesis by (simp add: on_exit_def Let_def split: option.splits)
next
  case OpDispose
  with assms show ?thesis by (simp add: dispose_inv)
next
  case OpOnTerminated
  have "run_view (onTerminated sb) = run_view sb"
    by (simp add: onTerminated_def Let_def run_view_def split: option.splits)
  from settle_inv_cong [OF this] OpOnTerminated assms show ?thesis by simp
next
  case OpOnEvent
  have "run_view (onEvent sb) = run_view sb" by (simp add: onEvent_def run_view_def)
  from settle_inv_cong [OF this] OpOnEvent assms show ?thesis by simp
qed (simp_all add: assms settle_inv_cong [OF dispatch_view] on_watchdog_def on_restore_failed_def
    settle_inv_cong [OF with_term_view])

lemma sandbox_ops_inv: "settle_inv sb \<Longrightarrow> settle_inv (sandbox_ops lim isof sb ops)"
  by (induction ops arbitrary: sb) (simp_all add: sandbox_step_inv)

lemma create_inv: "settle_inv create_sandbox"
  by (simp add: settle_inv_def create_sandbox_def)

lemma idle_all_settled:
  "settle_inv sb \<Longrightarrow> pendingRunRejects sb = [] \<Longrightarrow> set (map fst (run_settled sb)) = {..<next_run sb}"
  by (auto simp: settle_inv_def)

lemma inactive_no_rejects: "settle_inv sb \<Longrightarrow> active sb = None \<Longrightarrow> pendingRunRejects sb = []"
  by (auto simp: settle_inv_def)

lemma death_next [simp]: "next_run (handleDeath lim isof now sb r f) = next_run sb"
proof -
  have "next_run (finish_run sb' r reason outcome) = next_run sb'" for sb' reason outcome
    using finalize_view [of _ r] by (auto simp: finish_run_def run_view_def split: prod.splits)
  moreover have "next_run (dispatchWireEvent sb w) = next_run sb" for w
    using dispatch_view [of sb w] by (simp add: run_view_def)
  ultimately show ?thesis using handleDeath_cases [of lim isof now sb r f] by metis
qed

section \<open>Properties\<close>

text \<open>
  \<^bold>\<open>C7\<close>. Every promise returned by \<open>run()\<close> settles exactly once: in any interleaving
  of runs, worker events, watchdog ticks, disposals and registrations no run settles
  twice, at most the run in flight is unsettled, and when the worker reports \<open>done\<close>,
  errors or exits, no dispatched run is left pending.
\<close>

theorem run_promises_settle_once:
  "let sb = sandbox_ops lim isof create_sandbox ops;
       exited = sandbox_step lim isof sb (OpExit now code);
       errored = sandbox_step lim isof sb (OpError now err);
       finished = sandbox_step lim isof sb (OpDone payload)
   in distinct (map fst (run_settled sb)) \<and>
      {..<next_run sb} - set_option (active sb) \<subseteq> set (map fst (run_settled sb)) \<and>
      set (map fst (run_settled exited)) = {..<next_run sb} \<and>
      set (map fst (run_settled errored)) = {..<next_run sb} \<and>
      set (map fst (run_settled finished)) = {..<next_run sb}"
proof -
  define sb where "sb = sandbox_ops lim isof create_sandbox ops"
  have inv: "settle_inv sb" unfolding sb_def by (intro sandbox_ops_inv create_inv)
  have all: "set (map fst (run_settled sb')) = {..<next_run sb}"
    if "settle_inv sb'" "active sb' = None" "next_run sb' = next_run sb" for sb'
    using idle_all_settled [OF that(1) inactive_no_rejects [OF that(1,2)]] that(3) by simp
  have died: "active (sandbox_step lim isof sb opn) = None \<and> next_run (sandbox_step lim isof sb opn) = next_run sb"
    if "opn = OpExit now code \<or> opn = OpError now err \<or> opn = OpDone payload" for opn
  proof -
    have t: "settle_inv (with_term sb t)" "next_run (with_term sb t) = next_run sb" for t
      using inv settle_inv_cong [OF with_term_view] by (simp_all add: with_term_def)
    show ?thesis
      using that handleDeath_inv [OF t(1)] finish_run_inv [OF inv] t(2)
        finalize_view [of _ "the (active sb)"]
      by (auto simp: on_exit_def on_error_def on_done_def Let_def finish_run_def run_view_def
          split: option.splits prod.splits)
  qed
  have "distinct (map fst (run_settled sb))"
    "{..<next_run sb} - set_option (active sb) \<subseteq> set (map fst (run_settled sb))"
    using inv by (auto simp: settle_inv_def)
  then show ?thesis
    unfolding Let_def sb_def [symmetric]
    using died all sandbox_step_inv [OF inv] by blast
qed

section \<open>Death by limit\<close>

lemma forwards_events:
  "onEventCb sb \<Longrightarrow> forwarded (foldl forwardSandboxEvent sb es) = forwarded sb @ es \<and>
     run_settled (foldl forwardSandboxEvent sb es) = run_settled sb"
  by (induction es arbitrary: sb) (simp_all add: forwardSandboxEvent_def)

lemma finish_run_events:
  assumes "onEventCb sb"
  shows "forwarded (finish_run sb r reason outcome) = forwarded sb @ snd (finish (sb_seq sb) reason) \<and>
    (r \<in> set (map fst (run_settled sb)) \<or> (r, outcome) \<in> set (run_settled (finish_run sb r reason outcome)))"
proof -
  obtain s synth where f: "finish (sb_seq sb) reason = (s, synth)" by fastforce
  let ?sb = "sb\<lparr>sb_seq := s, pendingRunRejects := removeAll r (pendingRunRejects sb), active := None,
      sb_term := disarmCpuBudget (sb_term sb)\<rparr>"
  have "onEventCb ?sb" using assms by simp
  from forwards_events [OF this, of synth] f show ?thesis
    by (auto simp: finish_run_def finalize_def settle_def Let_def)
qed

lemma cause_now_exit: "termination_cause_now (on_worker_exit t) = termination_cause_now t"
  by (auto simp: termination_cause_now_def on_worker_exit_def dispatch_def classify_def Let_def
      split: option.splits)

lemma leaf_event:
  assumes "runActive s" and "w_type w = Leaf"
  shows "next_event s w = (s\<lparr>lastSeenTs := w_ts w, lastSeenAt := w_at w, seq := Suc (seq s)\<rparr>,
    Some (buildSandboxEvent w (seq s) (array_last (refStack s))))"
  using assms by (simp add: next_event_def Let_def)

text \<open>
  A run killed by a resource limit leaves a complete trace: when the worker exits
  with a limit cause while a run is in flight, the consumer receives one
  \<open>system.exhaustion\<close> leaf naming the limit under the innermost open frame, then exactly
  one close per open frame, innermost first, each with the error \<open>limit:<dim>\<close>; and
  the run rejects naming the limit.
\<close>

lemma limit_death_trace:
  assumes "active sb = Some r" and "onEventCb sb" and "runActive (sb_seq sb)" and "seq_inv (sb_seq sb)"
    and "termination_cause_now (sb_term sb) = Some (LimitCause dim observed)"
    and "r \<notin> set (map fst (run_settled sb))"
  shows "\<exists>leaf closes.
    forwarded (on_exit lim isof now sb code) = forwarded sb @ leaf # closes \<and>
    se_kind leaf = ''system.exhaustion'' \<and> se_name leaf = dim_name dim \<and>
    se_ref leaf = array_last (refStack (sb_seq sb)) \<and>
    map se_ref closes = map Some (rev (refStack (sb_seq sb))) \<and>
    list_all (\<lambda>e. map_option err_message (se_error e) = Some (''limit:'' @ dim_name dim)) closes \<and>
    (r, RunRejected (''sandbox limit exceeded: '' @ dim_name dim)) \<in>
      set (run_settled (on_exit lim isof now sb code))"
proof -
  define sb1 where "sb1 = with_term sb (on_worker_exit (sb_term sb))"
  define w where "w = limit_leaf lim isof now dim observed"
  define sb2 where "sb2 = dispatchWireEvent sb1 w"
  have same: "sb_seq sb1 = sb_seq sb" "onEventCb sb1" "forwarded sb1 = forwarded sb"
    "active sb1 = Some r" "run_settled sb1 = run_settled sb"
    "termination_cause_now (sb_term sb1) = Some (LimitCause dim observed)"
    using assms(1,2,5) by (simp_all add: sb1_def with_term_def cause_now_exit)
  have leaf: "w_type w = Leaf" by (simp add: w_def limit_leaf_def)
  let ?e = "buildSandboxEvent w (seq (sb_seq sb)) (array_last (refStack (sb_seq sb)))"
  have ev: "forwarded sb2 = forwarded sb @ [?e]" "onEventCb sb2" "run_settled sb2 = run_settled sb"
    and sq: "refStack (sb_seq sb2) = refStack (sb_seq sb)" "seq_inv (sb_seq sb2)"
    using same leaf_event [OF assms(3) leaf] next_event_inv [OF assms(4), of w] leaf
    by (simp_all add: sb2_def dispatchWireEvent_def forwardSandboxEvent_def fresh_open_def)
  have exit: "on_exit lim isof now sb code =
      finish_run sb2 r (Some (''limit:'' @ dim_name dim))
        (RunRejected (''sandbox limit exceeded: '' @ dim_name dim))"
    using same by (simp add: on_exit_def sb1_def [symmetric] handleDeath_def sb2_def w_def Let_def)
  let ?closes = "snd (finish (sb_seq sb2) (Some (''limit:'' @ dim_name dim)))"
  have "map se_ref ?closes = map Some (rev (refStack (sb_seq sb)))"
    using finish_refs [OF sq(2)] sq(1) by simp
  moreover have "list_all (\<lambda>e. map_option err_message (se_error e) = Some (''limit:'' @ dim_name dim)) ?closes"
    by (auto simp: finish_reason list_all_iff synth_close_def dest!: synth_closes_mem)
  moreover have "se_kind ?e = ''system.exhaustion''" "se_name ?e = dim_name dim"
    "se_ref ?e = array_last (refStack (sb_seq sb))"
    by (simp_all add: buildSandboxEvent_def w_def limit_leaf_def)
  moreover have "forwarded (on_exit lim isof now sb code) = forwarded sb @ ?e # ?closes"
    using finish_run_events [OF ev(2)] ev(1) exit by simp
  moreover have "(r, RunRejected (''sandbox limit exceeded: '' @ dim_name dim)) \<in>
      set (run_settled (on_exit lim isof now sb code))"
    using finish_run_events [OF ev(2)] ev(3) assms(6) exit by metis
  ultimately show ?thesis by blast
qed

definition busy_sandbox :: sandbox where
  \<comment> \<open>a run with one open frame whose CPU watchdog has fired\<close>
  "busy_sandbox =
     sandbox_ops \<lparr>cpuMs = 60000, outputBytes = 10, pendingCallables = 2\<rparr> (\<lambda>t. ''iso'') create_sandbox
       [OpOnEvent, OpRun 0,
        OpWire \<lparr>w_kind = ''trigger.request'', w_name = ''t'', w_ts = 1, w_at = ''iso'', w_input = None,
          w_output = None, w_error = None, w_type = Open 0\<rparr>,
        OpWatchdog 60001]"

lemma limit_death_trace_witness:
  "\<exists>leaf closes.
    forwarded (on_exit \<lparr>cpuMs = 60000, outputBytes = 10, pendingCallables = 2\<rparr> (\<lambda>t. ''iso'') 60002
      busy_sandbox 1) = forwarded busy_sandbox @ leaf # closes \<and>
    se_kind leaf = ''system.exhaustion'' \<and> se_name leaf = ''cpu'' \<and>
    se_ref leaf = Some 0 \<and> map se_ref closes = [Some 0]"
proof -
  have h: "active busy_sandbox = Some 0" "onEventCb busy_sandbox" "runActive (sb_seq busy_sandbox)"
    "termination_cause_now (sb_term busy_sandbox) = Some (LimitCause LimCpu (Some 60001))"
    "(0::nat) \<notin> set (map fst (run_settled busy_sandbox))"
    "refStack (sb_seq busy_sandbox) = [0]"
    by code_simp+
  have i: "seq_inv (sb_seq busy_sandbox)" by code_simp
  from limit_death_trace [OF h(1-3) i h(4,5), of "\<lparr>cpuMs = 60000, outputBytes = 10, pendingCallables = 2\<rparr>"
      "\<lambda>t. ''iso''" 60002 1] h(6)
  show ?thesis by (auto simp: array_last_def)
qed

section \<open>Errors across the host-call channel\<close>

lemma capture_get:
  "map_get (foldl (capture_key props) data ks) k =
     (if k \<in> set ks \<and> k \<notin> set carried_keys \<and> (\<exists>v. map_get props k = Some v \<and> isJsonSafe v)
      then map_get props k else map_get data k)"
  by (induction ks arbitrary: data) (auto simp: capture_key_def split: option.splits)

lemma fold_assign_get:
  "map_get (foldl (\<lambda>m e. map_set (fst e) (snd e) m) m0 es) k =
     (case map_get (rev es) k of None \<Rightarrow> map_get m0 k | Some v \<Rightarrow> Some v)"
  by (induction es arbitrary: m0) (auto simp: map_add_Some_iff split: option.splits)

lemma capture_distinct: "distinct (keys data) \<Longrightarrow> distinct (keys (foldl (capture_key props) data ks))"
  by (induction ks arbitrary: data) (auto simp: capture_key_def split: option.splits)

lemma map_of_rev_distinct: "distinct (keys m) \<Longrightarrow> map_of (rev m) k = map_of m k"
proof -
  assume d: "distinct (keys m)"
  then have r: "distinct (keys (rev m))" by (simp add: rev_map [symmetric])
  have "map_of (rev m) k = Some v \<longleftrightarrow> map_of m k = Some v" for v
    by (simp only: map_of_eq_Some_iff [OF d] map_of_eq_Some_iff [OF r] set_rev)
  then show ?thesis by (metis not_Some_eq)
qed

text \<open>
  An error thrown by a host handler survives the channel: serializing it on the
  main thread and rebuilding it in the worker keeps name, message and stack, its
  \<open>issues\<close>, and every other own property whose value is JSON-safe; nothing else is added.
\<close>

lemma host_error_round_trip:
  "let e' = errorFromSerialized (serializeHostError e)
   in he_name e' = he_name e \<and> he_message e' = he_message e \<and> he_stack e' = he_stack e \<and>
      (k = ''message'' \<or> k = ''stack'' \<or> k = ''name'' \<or>
       map_get (he_props e') k =
         (case map_get (he_props e) k of
            None \<Rightarrow> None
          | Some v \<Rightarrow> if v \<noteq> VUndefined \<and> (k = ''issues'' \<or> isJsonSafe v) then Some v else None))"
proof -
  define data where "data = foldl (capture_key (he_props e)) [] (keys (he_props e))"
  have d: "map_get (rev data) k = (if k \<notin> set carried_keys \<and> (\<exists>v. map_get (he_props e) k = Some v \<and> isJsonSafe v)
      then map_get (he_props e) k else None)" for k
    using capture_distinct [of "[]" "he_props e" "keys (he_props e)"]
      capture_get [of "he_props e" "[]" "keys (he_props e)" k]
    by (auto simp: data_def map_of_rev_distinct img_fst dest: map_of_SomeD)
  show ?thesis
  proof (cases "k \<in> {''message'', ''stack'', ''name''}")
    case True
    then show ?thesis by (auto simp: errorFromSerialized_def serializeHostError_def Let_def)
  next
    case False
    then show ?thesis
      using d [of k]
      by (auto simp: errorFromSerialized_def serializeHostError_def captureErrorData_def Let_def
          data_def [symmetric] fold_assign_get carried_keys_def split: option.splits js_value.splits)
  qed
qed

section \<open>The init handshake\<close>

text \<open>
  The promise \<open>sandbox()\<close> waits for after it has created the worker. \<open>ih_result\<close> is how it settled:
  a promise settles once, so later calls of \<open>resolve\<close> and \<open>reject\<close> are ignored. Descriptors that do not
  serialise make the executor throw after the listeners are attached and before \<open>init\<close> is posted.
\<close>

datatype init_event = InitReady | InitError serialized_error | InitOther | InitWorkerError host_error | InitWorkerExit int

record init_handshake =
  ih_listening :: bool
  ih_posted :: bool
  ih_result :: "(host_error + unit) option"
  ih_terminated :: bool

definition init_begin :: "host_error option \<Rightarrow> init_handshake" where
  "init_begin invalid =
     \<lparr>ih_listening = True, ih_posted = (invalid = None), ih_result = map_option Inl invalid, ih_terminated = False\<rparr>"

definition init_settle :: "init_handshake \<Rightarrow> host_error + unit \<Rightarrow> init_handshake" where
  "init_settle h r = h\<lparr>ih_listening := False, ih_result := (case ih_result h of Some r' \<Rightarrow> Some r' | None \<Rightarrow> Some r)\<rparr>"

definition init_exited :: "int \<Rightarrow> host_error" where
  "init_exited code =
     (let msg = ''worker exited during init with code '' @ show_int code
      in \<lparr>he_name = ''Error'', he_message = msg, he_stack = [], he_props = []\<rparr>)"

fun init_step :: "init_handshake \<Rightarrow> init_event \<Rightarrow> init_handshake" where
  "init_step h InitReady = (if ih_listening h then init_settle h (Inr ()) else h)"
| "init_step h (InitError err) =
     (if ih_listening h then (init_settle h (Inl (errorFromSerialized err)))\<lparr>ih_terminated := True\<rparr> else h)"
| "init_step h InitOther = h"
| "init_step h (InitWorkerError err) = (if ih_listening h then init_settle h (Inl err) else h)"
| "init_step h (InitWorkerExit code) = (if ih_listening h then init_settle h (Inl (init_exited code)) else h)"

fun init_verdict :: "init_event \<Rightarrow> (host_error + unit) option" where
  "init_verdict InitReady = Some (Inr ())"
| "init_verdict (InitError err) = Some (Inl (errorFromSerialized err))"
| "init_verdict InitOther = None"
| "init_verdict (InitWorkerError err) = Some (Inl err)"
| "init_verdict (InitWorkerExit code) = Some (Inl (init_exited code))"

lemma init_steps_over: "\<not> ih_listening h \<Longrightarrow> foldl init_step h es = h"
proof (induction es)
  case (Cons e es)
  then have "init_step h e = h" by (cases e) auto
  with Cons show ?case by simp
qed simp

text \<open>
  The handshake settles by the first event that decides it, whatever follows: \<open>ready\<close> resolves it,
  an error of the worker or its exit rejects it. Invalid descriptors reject it whatever the worker
  does; no \<open>init\<close> is posted then, and the worker is not terminated unless it reports an error itself.
\<close>

lemma init_settles_once:
  "ih_result (foldl init_step (init_begin invalid) es) =
     (case invalid of Some err \<Rightarrow> Some (Inl err) | None \<Rightarrow> (case List.map_filter init_verdict es of v # _ \<Rightarrow> Some v | [] \<Rightarrow> None))"
proof (induction es)
  case (Cons e es)
  show ?case
  proof (cases "init_verdict e")
    case None
    then have "e = InitOther" by (cases e) auto
    with Cons show ?thesis by (cases invalid) (simp_all add: List.map_filter_simps)
  next
    case (Some v)
    then have "\<not> ih_listening (init_step (init_begin invalid) e)"
      and "ih_result (init_step (init_begin invalid) e) = (case invalid of Some err \<Rightarrow> Some (Inl err) | None \<Rightarrow> Some v)"
      by (cases e; auto simp: init_begin_def init_settle_def split: option.split)+
    with Some show ?thesis by (simp add: init_steps_over List.map_filter_simps split: option.split)
  qed
qed (simp add: init_begin_def List.map_filter_simps split: option.split)

lemma init_leaves_worker:
  assumes "list_all (\<lambda>e. case e of InitError _ \<Rightarrow> False | _ \<Rightarrow> True) es"
  shows "\<not> ih_terminated (foldl init_step (init_begin invalid) es)"
proof -
  have "\<not> ih_terminated h \<Longrightarrow> \<not> ih_terminated (foldl init_step h es)" for h
    using assms
  proof (induction es arbitrary: h)
    case (Cons e es)
    then have "\<not> ih_terminated (init_step h e)" by (cases e) (auto simp: init_settle_def)
    with Cons show ?case by simp
  qed simp
  then show ?thesis by (simp add: init_begin_def)
qed

end
