(* ===== verification/Executor.thy ===== *)
theory Executor
  imports RunQueue EventStore Sandbox
begin

text \<open>
  The executor (\<open>packages/runtime/src/executor/\<close>): it serializes the invocations of a
  sandbox, stamps the runtime's metadata onto the sandbox's events, records them, and
  emits the host-side leaf events.

  Per sandbox the state is \<open>exec_state\<close>; \<open>emitTail\<close> is the list of widened events whose
  recording is chained on the tail, in order. One invocation is the part between its turn
  in the run queue (\<open>RunQueue.thy\<close>) and its end, with the events the sandbox emits and
  the outcome of \<open>sb.run\<close> as inputs. Invocation ids come from \<open>crypto.randomUUID()\<close> and
  are inputs. Host-side errors of the executor are strings.
\<close>

section \<open>Stamping\<close>

record invocation_meta =
  im_id :: string
  im_owner :: string
  im_repo :: string
  im_workflow :: string
  im_workflowSha :: string
  im_dispatch :: dispatch_meta

definition default_dispatch :: dispatch_meta where
  "default_dispatch = \<lparr>dm_source = ''trigger'', dm_user = None\<rparr>"

definition widen :: "invocation_meta \<Rightarrow> sandbox_event \<Rightarrow> invocation_event" where
  "widen m e =
     \<lparr>ie_id = im_id m, ie_owner = im_owner m, ie_repo = im_repo m, ie_workflow = im_workflow m,
      ie_workflowSha = im_workflowSha m, ie_kind = se_kind e, ie_seq = se_seq e, ie_ref = se_ref e,
      ie_at = se_at e, ie_ts = se_ts e, ie_name = se_name e, ie_input = se_input e,
      ie_output = se_output e, ie_error = se_error e,
      ie_meta = (if se_kind e = ''trigger.request'' then Some (im_dispatch m) else None)\<rparr>"

record exec_state =
  activeMeta :: "invocation_meta option"
  emitTail :: "invocation_event list"

definition initState :: exec_state where
  "initState = \<lparr>activeMeta = None, emitTail = []\<rparr>"

definition on_sandbox_event :: "exec_state \<Rightarrow> sandbox_event \<Rightarrow> exec_state" where
  "on_sandbox_event st e =
     (case activeMeta st of
        None \<Rightarrow> st
      | Some m \<Rightarrow> st\<lparr>emitTail := emitTail st @ [widen m e]\<rparr>)"

section \<open>Lifecycle log\<close>

datatype lifecycle_line =
    InvocationStarted string string
  | InvocationCompleted string string
  | InvocationFailed string string

definition logInvocationLifecycle :: "invocation_event \<Rightarrow> lifecycle_line option" where
  "logInvocationLifecycle e =
     (if ie_kind e = ''trigger.request'' then Some (InvocationStarted (ie_id e) (ie_name e))
      else if ie_kind e = ''trigger.response'' then Some (InvocationCompleted (ie_id e) (ie_name e))
      else if ie_kind e = ''trigger.error'' then Some (InvocationFailed (ie_id e) (ie_name e))
      else None)"

section \<open>Invocations\<close>

datatype invoke_result = InvokeOk json | InvokeFailed string "string option"

fun to_invoke_result :: "run_outcome \<Rightarrow> invoke_result" where
  "to_invoke_result (RunResolved (RunOk v)) = InvokeOk v"
| "to_invoke_result (RunResolved (RunErr message stack)) =
     InvokeFailed message (if stack = [] then None else Some stack)"
| "to_invoke_result (RunRejected message) = InvokeFailed message None"

fun drain_tail ::
  "event_store \<Rightarrow> lifecycle_line list \<Rightarrow> invocation_event list \<Rightarrow> event_store \<times> lifecycle_line list" where
  \<comment> \<open>the chained \<open>await eventStore.record(widened); logInvocationLifecycle(widened)\<close>\<close>
  "drain_tail store lines [] = (store, lines)"
| "drain_tail store lines (e # es) =
     drain_tail (record_event store e)
       (case logInvocationLifecycle e of None \<Rightarrow> lines | Some l \<Rightarrow> lines @ [l]) es"

record invoke_request =
  rq_owner :: string
  rq_repo :: string
  rq_workflow :: string
  rq_sha :: string
  rq_dispatch :: "dispatch_meta option"

definition meta_of :: "string \<Rightarrow> invoke_request \<Rightarrow> invocation_meta" where
  "meta_of i rq =
     \<lparr>im_id = i, im_owner = rq_owner rq, im_repo = rq_repo rq, im_workflow = rq_workflow rq,
      im_workflowSha = rq_sha rq,
      im_dispatch = (case rq_dispatch rq of None \<Rightarrow> default_dispatch | Some d \<Rightarrow> d)\<rparr>"

definition runInvocationWith ::
  "exec_state \<Rightarrow> event_store \<Rightarrow> lifecycle_line list \<Rightarrow> string \<Rightarrow> invoke_request
     \<Rightarrow> sandbox_event list \<Rightarrow> run_outcome
     \<Rightarrow> exec_state \<times> event_store \<times> lifecycle_line list \<times> invoke_result" where
  "runInvocationWith st store lines invocationId rq events outcome =
     (let st1 = st\<lparr>activeMeta := Some (meta_of invocationId rq)\<rparr>;
          st2 = foldl on_sandbox_event st1 events;
          result = to_invoke_result outcome;
          st3 = st2\<lparr>activeMeta := None\<rparr>
      in case drain_tail store lines (emitTail st3) of (store', lines') \<Rightarrow>
           (st3\<lparr>emitTail := []\<rparr>, store', lines', result))"

section \<open>Host-side events\<close>

definition assertHostFailKind :: "string \<Rightarrow> bool" where
  "assertHostFailKind kind = (kind = ''trigger.exception'' \<or> kind = ''trigger.rejection'')"

record exception_params =
  xp_kind :: "string option"
  xp_name :: string
  xp_error :: "string option"
  xp_input :: "(string \<times> json) list option"
  xp_details :: "(string \<times> json) list option"

definition plain_error :: "string \<Rightarrow> event_error" where
  "plain_error msg = \<lparr>err_message = msg, err_stack = None, err_issues = None, err_kind = None\<rparr>"

definition exception_event ::
  "string \<Rightarrow> string \<Rightarrow> invoke_request \<Rightarrow> string \<Rightarrow> exception_params \<Rightarrow> invocation_event" where
  "exception_event i at rq trigger params =
     (let payload = (case xp_input params of
                       Some p \<Rightarrow> p
                     | None \<Rightarrow> (case xp_details params of Some d \<Rightarrow> d | None \<Rightarrow> []))
      in \<lparr>ie_id = i, ie_owner = rq_owner rq, ie_repo = rq_repo rq, ie_workflow = rq_workflow rq,
          ie_workflowSha = rq_sha rq,
          ie_kind = (case xp_kind params of None \<Rightarrow> ''trigger.exception'' | Some k \<Rightarrow> k),
          ie_seq = 0, ie_ref = Some 0, ie_at = at, ie_ts = 0, ie_name = xp_name params,
          ie_input = Some (JObj (foldl (\<lambda>m e. map_set (fst e) (snd e) m)
            [(''trigger'', JStr trigger)] payload)),
          ie_output = None, ie_error = map_option plain_error (xp_error params), ie_meta = None\<rparr>)"

definition emitTriggerException ::
  "event_store \<Rightarrow> string \<Rightarrow> string \<Rightarrow> invoke_request \<Rightarrow> string \<Rightarrow> exception_params \<Rightarrow> string + event_store" where
  "emitTriggerException store i at rq trigger params =
     (let kind = (case xp_kind params of None \<Rightarrow> ''trigger.exception'' | Some k \<Rightarrow> k)
      in if \<not> assertHostFailKind kind then Inl (''emitHostFail: kind must be \"trigger.exception\" or \"trigger.rejection\" (got \"'' @ kind @
              ''\"); R-8 host-side carve-out covers these kinds only'')
         else Inr (record_event store (exception_event i at rq trigger params)))"

definition upload_event ::
  "string \<Rightarrow> string \<Rightarrow> invoke_request \<Rightarrow> json \<Rightarrow> string \<times> string \<Rightarrow> invocation_event" where
  "upload_event i at rq snapshot user =
     \<lparr>ie_id = i, ie_owner = rq_owner rq, ie_repo = rq_repo rq, ie_workflow = rq_workflow rq,
      ie_workflowSha = rq_sha rq, ie_kind = ''system.upload'', ie_seq = 0, ie_ref = Some 0,
      ie_at = at, ie_ts = 0, ie_name = rq_workflow rq, ie_input = Some snapshot, ie_output = None,
      ie_error = None, ie_meta = Some \<lparr>dm_source = ''upload'', dm_user = Some user\<rparr>\<rparr>"

definition emitSystemUpload ::
  "event_store \<Rightarrow> string \<Rightarrow> string \<Rightarrow> invoke_request \<Rightarrow> json \<Rightarrow> string \<times> string \<Rightarrow> event_store" where
  "emitSystemUpload store i at rq snapshot user =
     record_event store (upload_event i at rq snapshot user)"

section \<open>Lemmas\<close>

lemma events_widened:
  "activeMeta st = Some m \<Longrightarrow>
     foldl on_sandbox_event st es = st\<lparr>emitTail := emitTail st @ map (widen m) es\<rparr>"
  by (induction es arbitrary: st) (simp_all add: on_sandbox_event_def)

lemma drain_tail_store: "fst (drain_tail store lines es) = foldl record_event store es"
  by (induction es arbitrary: store lines) simp_all

lemma run_invocation_store:
  assumes "emitTail st = []"
  shows "fst (snd (runInvocationWith st store lines i rq events outcome)) =
      foldl record_event store (map (widen (meta_of i rq)) events)"
    and "fst (runInvocationWith st store lines i rq events outcome) = initState"
proof -
  have e: "foldl on_sandbox_event (st\<lparr>activeMeta := Some (meta_of i rq)\<rparr>) events =
      st\<lparr>activeMeta := Some (meta_of i rq), emitTail := map (widen (meta_of i rq)) events\<rparr>"
    using events_widened [of "st\<lparr>activeMeta := Some (meta_of i rq)\<rparr>"] assms by simp
  show "fst (snd (runInvocationWith st store lines i rq events outcome)) =
      foldl record_event store (map (widen (meta_of i rq)) events)"
    using drain_tail_store [of store lines "map (widen (meta_of i rq)) events"]
    by (cases "drain_tail store lines (map (widen (meta_of i rq)) events)")
      (simp add: runInvocationWith_def Let_def e)
  show "fst (runInvocationWith st store lines i rq events outcome) = initState"
    using assms by (simp add: runInvocationWith_def Let_def e initState_def split: prod.splits)
qed

lemma map_set_last: "i \<notin> set (keys m) \<Longrightarrow> map_set i v (m @ [(i, u)]) = m @ [(i, v)]"
  by (induction m) auto

lemma map_delete_last: "i \<notin> set (keys m) \<Longrightarrow> map_delete i (m @ [(i, u)]) = m"
  by (induction m) auto

lemma record_nonterminal:
  "\<not> stopped st \<Longrightarrow> \<not> isTerminal (ie_kind e) \<Longrightarrow> record_event st e = appendToAccumulator st e"
  by (simp add: record_event_def)

lemma record_accumulates:
  assumes "\<not> stopped store" and "list_all (\<lambda>e. ie_id e = i \<and> \<not> isTerminal (ie_kind e)) es"
    and "map_get (accumulator store) i = None" and "es \<noteq> []"
  shows "let store' = foldl record_event store es
    in accumulator store' = accumulator store @ [(i, es)] \<and> inflight store' = inflight store \<and>
       \<not> stopped store'"
  using assms(2,4)
proof (induction es rule: rev_induct)
  case (snoc e es)
  have e: "ie_id e = i" "\<not> isTerminal (ie_kind e)" using snoc.prems by simp_all
  have fresh: "i \<notin> set (keys (accumulator store))"
    using assms(3) by (simp add: map_of_eq_None_iff)
  show ?case
  proof (cases "es = []")
    case True
    with e assms(1,3) fresh show ?thesis
      by (simp add: record_nonterminal appendToAccumulator_def map_set_fresh Let_def)
  next
    case False
    with snoc have ih: "accumulator (foldl record_event store es) = accumulator store @ [(i, es)]"
      "inflight (foldl record_event store es) = inflight store"
      "\<not> stopped (foldl record_event store es)" by (simp_all add: Let_def)
    have "map_get (accumulator store @ [(i, es)]) i = Some es"
      using assms(3) by (simp add: map_add_def)
    moreover note map_set_last [OF fresh]
    ultimately show ?thesis
      using e ih by (simp add: record_nonterminal appendToAccumulator_def Let_def)
  qed
qed simp

lemma record_terminal:
  assumes "\<not> stopped store" and "ie_id e = i" and "isTerminal (ie_kind e)"
    and "accumulator store = acc @ [(i, es)]" and "i \<notin> set (keys acc)"
  shows "accumulator (record_event store e) = acc \<and>
    inflight (record_event store e) =
      inflight store @ [\<lparr>c_id = i, c_events = es @ [e], c_attempt = 0\<rparr>]"
proof -
  have "map_get acc i = None" using assms(5) by (simp add: map_of_eq_None_iff)
  then have "map_get (acc @ [(i, es)]) i = Some es" "map_get (acc @ [(i, es @ [e])]) i = Some (es @ [e])"
    by (simp_all add: map_add_def)
  with assms show ?thesis
    by (simp add: record_event_def appendToAccumulator_def commitInvocation_def Let_def
        map_set_last map_delete_last split: list.splits)
qed

lemma record_single:
  assumes "\<not> stopped store" and "isTerminal (ie_kind e)" and "map_get (accumulator store) (ie_id e) = None"
  shows "accumulator (record_event store e) = accumulator store \<and>
    inflight (record_event store e) =
      inflight store @ [\<lparr>c_id = ie_id e, c_events = [e], c_attempt = 0\<rparr>]"
proof -
  have "ie_id e \<notin> set (keys (accumulator store))" using assms(3) by (simp add: map_of_eq_None_iff)
  with assms show ?thesis
    by (simp add: record_event_def appendToAccumulator_def commitInvocation_def Let_def
        map_set_fresh map_delete_last map_add_def)
qed

lemma record_batch:
  assumes "\<not> stopped store" and "map_get (accumulator store) i = None"
    and "list_all (\<lambda>e. ie_id e = i \<and> \<not> isTerminal (ie_kind e)) es"
    and "ie_id t = i" and "isTerminal (ie_kind t)"
  shows "accumulator (foldl record_event store (es @ [t])) = accumulator store \<and>
    inflight (foldl record_event store (es @ [t])) =
      inflight store @ [\<lparr>c_id = i, c_events = es @ [t], c_attempt = 0\<rparr>]"
proof (cases "es = []")
  case True
  with record_single [of store t] assms show ?thesis by simp
next
  case False
  have "i \<notin> set (keys (accumulator store))" using assms(2) by (simp add: map_of_eq_None_iff)
  with record_accumulates [OF assms(1,3,2) False] assms(4,5)
    record_terminal [of "foldl record_event store es" t i "accumulator store" es]
  show ?thesis by (simp add: Let_def)
qed

section \<open>Properties\<close>

text \<open>
  \<^bold>\<open>C11\<close>. An invocation is persisted as one batch with its own identity: when the sandbox
  emits the events of a run and only the last one is terminal, the store receives one
  commit that holds all of them in order, each stamped with this invocation's id, owner,
  repo, workflow and sha, the dispatch provenance only on \<open>trigger.request\<close>; other
  invocations in memory are untouched and no metadata stays behind for the next run.
\<close>

theorem invocation_committed_as_one_batch:
  assumes "\<not> stopped store" and "map_get (accumulator store) i = None"
    and "list_all (\<lambda>e. \<not> isTerminal (se_kind e)) es" and "isTerminal (se_kind t)"
  shows "case runInvocationWith initState store lines i rq (es @ [t]) outcome of
    (st', store', lines', res) \<Rightarrow>
      st' = initState \<and> accumulator store' = accumulator store \<and>
      (\<exists>events. inflight store' = inflight store @ [\<lparr>c_id = i, c_events = events, c_attempt = 0\<rparr>] \<and>
         map ie_seq events = map se_seq (es @ [t]) \<and> map ie_kind events = map se_kind (es @ [t]) \<and>
         list_all (\<lambda>e. ie_id e = i \<and> ie_owner e = rq_owner rq \<and> ie_repo e = rq_repo rq \<and>
           ie_workflow e = rq_workflow rq \<and> ie_workflowSha e = rq_sha rq \<and>
           (ie_meta e \<noteq> None) = (ie_kind e = ''trigger.request'')) events)"
proof -
  obtain st' store' lines' res where
    r: "runInvocationWith initState store lines i rq (es @ [t]) outcome = (st', store', lines', res)"
    by (metis prod.exhaust)
  let ?w = "widen (meta_of i rq)"
  have e: "emitTail initState = []" by (simp add: initState_def)
  have st: "st' = initState" "store' = foldl record_event store (map ?w es @ [?w t])"
    using run_invocation_store [OF e, of store lines i rq "es @ [t]" outcome] r by simp_all
  have "accumulator store' = accumulator store \<and>
      inflight store' = inflight store @ [\<lparr>c_id = i, c_events = map ?w es @ [?w t], c_attempt = 0\<rparr>]"
    unfolding st(2) using assms
    by (intro record_batch) (auto simp: list_all_iff widen_def meta_of_def)
  with r st(1) show ?thesis
    by (auto simp: list_all_iff widen_def meta_of_def intro!: exI [of _ "map ?w es @ [?w t]"])
qed

theorem invocation_committed_as_one_batch_witness:
  "let es = [\<lparr>se_kind = ''trigger.request'', se_seq = 0, se_ref = None, se_at = ''a'', se_ts = 0,
              se_name = ''t'', se_input = None, se_output = None, se_error = None\<rparr>];
       t = \<lparr>se_kind = ''trigger.response'', se_seq = 1, se_ref = Some 0, se_at = ''b'', se_ts = 1,
              se_name = ''t'', se_input = None, se_output = None, se_error = None\<rparr>;
       rq = \<lparr>rq_owner = ''acme'', rq_repo = ''site'', rq_workflow = ''w'', rq_sha = ''sha'',
              rq_dispatch = None\<rparr>
   in case runInvocationWith initState (createEventStore []) [] ''evt_1'' rq (es @ [t])
        (RunResolved (RunOk JNull)) of (st', store', lines', res) \<Rightarrow>
        st' = initState \<and>
        (\<exists>events. inflight store' = [\<lparr>c_id = ''evt_1'', c_events = events, c_attempt = 0\<rparr>] \<and>
           map ie_seq events = [0, 1])"
proof -
  let ?es = "[\<lparr>se_kind = ''trigger.request'', se_seq = 0, se_ref = None, se_at = ''a'', se_ts = 0,
      se_name = ''t'', se_input = None, se_output = None, se_error = None\<rparr>]"
  let ?t = "\<lparr>se_kind = ''trigger.response'', se_seq = 1, se_ref = Some 0, se_at = ''b'', se_ts = 1,
      se_name = ''t'', se_input = None, se_output = None, se_error = None\<rparr>"
  have h: "\<not> stopped (createEventStore [])" "map_get (accumulator (createEventStore [])) ''evt_1'' = None"
    "list_all (\<lambda>e. \<not> isTerminal (se_kind e)) ?es" "isTerminal (se_kind ?t)"
    by (simp_all add: createEventStore_def isTerminal_def TERMINAL_KINDS_def)
  have i: "inflight (createEventStore []) = []" by (simp add: createEventStore_def)
  from invocation_committed_as_one_batch [OF h, where lines = "[]" and outcome = "RunResolved (RunOk JNull)"
        and rq = "\<lparr>rq_owner = ''acme'', rq_repo = ''site'', rq_workflow = ''w'', rq_sha = ''sha'',
          rq_dispatch = None\<rparr>"]
  show ?thesis unfolding Let_def by (auto simp: i split: prod.splits)
qed

text \<open>
  Host-side failures cannot masquerade as run events: \<open>emitTriggerException\<close>
  refuses every kind except \<open>trigger.exception\<close> and \<open>trigger.rejection\<close> without touching
  the store, and for those two it commits a single leaf (sequence number 0, no dispatch
  provenance) as an invocation of its own.
\<close>

lemma host_fail_single_leaf:
  assumes "\<not> stopped store" and "map_get (accumulator store) i = None"
  shows "case emitTriggerException store i at rq trigger params of
      Inl _ \<Rightarrow> xp_kind params \<noteq> None \<and> xp_kind params \<noteq> Some ''trigger.exception'' \<and>
        xp_kind params \<noteq> Some ''trigger.rejection''
    | Inr store' \<Rightarrow> accumulator store' = accumulator store \<and>
        (\<exists>e. inflight store' = inflight store @ [\<lparr>c_id = i, c_events = [e], c_attempt = 0\<rparr>] \<and>
           ie_seq e = 0 \<and> ie_meta e = None \<and>
           (ie_kind e = ''trigger.exception'' \<or> ie_kind e = ''trigger.rejection''))"
proof -
  let ?e = "exception_event i at rq trigger params"
  have id: "ie_id ?e = i" "ie_seq ?e = 0" "ie_meta ?e = None"
    "ie_kind ?e = (case xp_kind params of None \<Rightarrow> ''trigger.exception'' | Some k \<Rightarrow> k)"
    by (simp_all add: exception_event_def Let_def)
  show ?thesis
  proof (cases "assertHostFailKind (ie_kind ?e)")
    case True
    then have "isTerminal (ie_kind ?e)"
      by (auto simp: assertHostFailKind_def isTerminal_def TERMINAL_KINDS_def)
    with record_single [OF assms(1), of ?e] assms(2) id True show ?thesis
      by (auto simp: emitTriggerException_def assertHostFailKind_def Let_def)
  next
    case False
    with id(4) show ?thesis
      by (auto simp: emitTriggerException_def assertHostFailKind_def Let_def split: option.splits)
  qed
qed

lemma host_fail_single_leaf_witness:
  "let params = \<lparr>xp_kind = Some ''trigger.rejection'', xp_name = ''http.body'', xp_error = None,
                 xp_input = None, xp_details = None\<rparr>;
       rq = \<lparr>rq_owner = ''acme'', rq_repo = ''site'', rq_workflow = ''w'', rq_sha = ''sha'',
              rq_dispatch = None\<rparr>
   in case emitTriggerException (createEventStore []) ''evt_1'' ''a'' rq ''hook'' params of
        Inl _ \<Rightarrow> False
      | Inr store' \<Rightarrow>
          (\<exists>e. inflight store' = [\<lparr>c_id = ''evt_1'', c_events = [e], c_attempt = 0\<rparr>] \<and> ie_seq e = 0)"
proof -
  have h: "\<not> stopped (createEventStore [])" "map_get (accumulator (createEventStore [])) ''evt_1'' = None"
    "inflight (createEventStore []) = []"
    by (simp_all add: createEventStore_def)
  from host_fail_single_leaf [OF h(1,2), where at = "''a''" and trigger = "''hook''"
      and params = "\<lparr>xp_kind = Some ''trigger.rejection'', xp_name = ''http.body'', xp_error = None,
        xp_input = None, xp_details = None\<rparr>"
      and rq = "\<lparr>rq_owner = ''acme'', rq_repo = ''site'', rq_workflow = ''w'', rq_sha = ''sha'',
        rq_dispatch = None\<rparr>"] h(3)
  show ?thesis by (auto simp: Let_def split: sum.splits)
qed

end
