(* ===== verification/Triggers.thy ===== *)
theory Triggers
  imports Names Executor
begin

text \<open>
  What the trigger backends share: descriptors (\<open>packages/runtime/src/executor/types.ts\<close>),
  payload validation (\<open>triggers/validator.ts\<close>), the \<open>fire\<close> and \<open>exception\<close> closures
  (\<open>triggers/build-fire.ts\<close>, \<open>triggers/build-exception.ts\<close>), the manual backend
  (\<open>triggers/manual.ts\<close>) and the contract \<open>TriggerSource\<close> (\<open>triggers/source.ts\<close>) as a
  locale.

  A closure is the environment it captures: a trigger entry is the record of the values
  \<open>buildFire\<close> and \<open>buildException\<close> bind, and \<open>buildFire\<close> applies it. Zod is third-party
  code: a rehydrated schema is its \<open>safeParse\<close>, an argument that returns the issues or the
  parsed value. \<open>executor.invoke\<close> is an argument here; its behaviour is
  \<open>runInvocationWith\<close> of \<open>Executor.thy\<close>. The calls made to it are part of the result.
\<close>

section \<open>Descriptors and entries\<close>

record imap_config =
  imap_host :: string
  imap_port :: int
  imap_tls :: string
  imap_insecureSkipVerify :: bool
  imap_user :: string
  imap_password :: string
  imap_folder :: string
  imap_search :: string
  imap_mode :: string
  imap_onError :: "string list option"

datatype trigger_config =
    HttpTrigger string json json "(json option \<times> json option) option"
  | CronTrigger string string
  | ManualTrigger
  | ImapTrigger imap_config
  | WsTrigger json json

fun kind_of :: "trigger_config \<Rightarrow> string" where
  "kind_of (HttpTrigger _ _ _ _) = ''http''"
| "kind_of (CronTrigger _ _) = ''cron''"
| "kind_of ManualTrigger = ''manual''"
| "kind_of (ImapTrigger _) = ''imap''"
| "kind_of (WsTrigger _ _) = ''ws''"

record trigger_descriptor =
  td_name :: string
  td_workflowName :: string
  td_config :: trigger_config
  td_inputSchema :: json
  td_outputSchema :: json

record trigger_entry =
  te_request :: invoke_request
  te_descriptor :: trigger_descriptor
  te_bundleSource :: string

section \<open>Validation\<close>

datatype path_seg = PKey string | PIdx nat

datatype prim = PStr string | PNum int | PBool bool | PNull

datatype zod_code =
    InvalidType string
  | InvalidValue "prim list"
  | TooBig "bool option" int
  | TooSmall "bool option" int
  | InvalidFormat string
  | UnrecognizedKeys "string list"
  | NotMultipleOf int
  | OtherCode string

record zod_issue =
  zi_path :: "path_seg list"
  zi_message :: string
  zi_input :: "json option"
  zi_code :: zod_code

record validation_issue =
  vi_path :: "path_seg list"
  vi_message :: string
  vi_received :: "json option"
  vi_expected :: "string option"
  vi_code :: string

fun code_name :: "zod_code \<Rightarrow> string" where
  "code_name (InvalidType _) = ''invalid_type''"
| "code_name (InvalidValue _) = ''invalid_value''"
| "code_name (TooBig _ _) = ''too_big''"
| "code_name (TooSmall _ _) = ''too_small''"
| "code_name (InvalidFormat _) = ''invalid_format''"
| "code_name (UnrecognizedKeys _) = ''unrecognized_keys''"
| "code_name (NotMultipleOf _) = ''not_multiple_of''"
| "code_name (OtherCode c) = c"

fun at_seg :: "json \<Rightarrow> path_seg \<Rightarrow> json option" where
  \<comment> \<open>\<open>cur[seg]\<close> for the segments a validator reports\<close>
  "at_seg (JObj fs) (PKey k) = map_get fs k"
| "at_seg (JObj fs) (PIdx n) = map_get fs (show_nat n)"
| "at_seg (JArr vs) (PIdx n) = (if n < length vs then Some (vs ! n) else None)"
| "at_seg _ _ = None"

fun liftAtPath :: "json option \<Rightarrow> path_seg list \<Rightarrow> json option" where
  "liftAtPath cur [] = cur"
| "liftAtPath None (s # ss) = None"
| "liftAtPath (Some JNull) (s # ss) = None"
| "liftAtPath (Some v) (s # ss) = liftAtPath (at_seg v s) ss"

fun show_prim :: "prim \<Rightarrow> string" where
  "show_prim (PStr s) = ''\"'' @ s @ ''\"''"
| "show_prim (PNum n) = show_int n"
| "show_prim (PBool b) = (if b then ''true'' else ''false'')"
| "show_prim PNull = ''null''"

fun deriveExpected :: "zod_code \<Rightarrow> string option" where
  "deriveExpected (InvalidType expected) = Some expected"
| "deriveExpected (InvalidValue values) = Some (''one of ['' @ js_join '', '' (map show_prim values) @ '']'')"
| "deriveExpected (TooBig inclusive maximum) =
     Some ((if inclusive = Some False then ''<'' else ''<='') @ '' '' @ show_int maximum)"
| "deriveExpected (TooSmall inclusive minimum) =
     Some ((if inclusive = Some False then ''>'' else ''>='') @ '' '' @ show_int minimum)"
| "deriveExpected (InvalidFormat format) = Some format"
| "deriveExpected (UnrecognizedKeys ks) =
     Some (''no unrecognized keys (got ['' @ js_join '', '' (map (\<lambda>k. ''\"'' @ k @ ''\"'') ks) @ ''])'')"
| "deriveExpected (NotMultipleOf d) = Some (''multiple of '' @ show_int d)"
| "deriveExpected (OtherCode _) = None"

definition zodIssuesToValidationIssues :: "zod_issue list \<Rightarrow> json option \<Rightarrow> validation_issue list" where
  "zodIssuesToValidationIssues issues input =
     map (\<lambda>issue.
       \<lparr>vi_path = zi_path issue, vi_message = zi_message issue,
        vi_received = (case zi_input issue of
                         None \<Rightarrow> liftAtPath input (zi_path issue)
                       | Some v \<Rightarrow> Some v),
        vi_expected = deriveExpected (zi_code issue), vi_code = code_name (zi_code issue)\<rparr>) issues"

definition toWireIssues :: "validation_issue list \<Rightarrow> (path_seg list \<times> string) list" where
  "toWireIssues issues = map (\<lambda>i. (vi_path i, vi_message i)) issues"

type_synonym safe_parse = "json \<Rightarrow> zod_issue list + json"

definition validate :: "safe_parse \<Rightarrow> json \<Rightarrow> validation_issue list + json" where
  \<comment> \<open>\<open>JSON.parse(JSON.stringify(v))\<close> of a JSON value is the value\<close>
  "validate zodInputSchema rawInput =
     (case zodInputSchema rawInput of
        Inr parsed \<Rightarrow> Inr parsed
      | Inl issues \<Rightarrow> Inl (zodIssuesToValidationIssues issues (Some rawInput)))"

definition validateOutput :: "safe_parse \<Rightarrow> json \<Rightarrow> validation_issue list + json" where
  "validateOutput zodOutputSchema rawOutput =
     (case zodOutputSchema rawOutput of
        Inr parsed \<Rightarrow> Inr parsed
      | Inl issues \<Rightarrow> Inl (zodIssuesToValidationIssues issues (Some rawOutput)))"

section \<open>Fire and exception closures\<close>

datatype fire_result = FireOk json | FireFailed string "string option" "validation_issue list option"

record invoke_call =
  ic_request :: invoke_request
  ic_descriptor :: trigger_descriptor
  ic_input :: json
  ic_bundleSource :: string

fun show_seg :: "path_seg \<Rightarrow> string" where
  "show_seg (PKey k) = k"
| "show_seg (PIdx n) = show_nat n"

definition ISSUE_SUMMARY_LIMIT :: nat where "ISSUE_SUMMARY_LIMIT = 3"

definition summariseIssues :: "validation_issue list \<Rightarrow> string" where
  "summariseIssues issues =
     (if issues = [] then ''schema mismatch''
      else
        let parts = map (\<lambda>i.
              (if vi_path i = [] then ''/'' else ''/'' @ js_join ''/'' (map show_seg (vi_path i))) @
              '': '' @ vi_message i) (take ISSUE_SUMMARY_LIMIT issues);
            extra = (if length issues > ISSUE_SUMMARY_LIMIT
                     then '' (+'' @ show_nat (length issues - ISSUE_SUMMARY_LIMIT) @ '' more)'' else [])
        in js_join ''; '' parts @ extra)"

record schemas =
  zodInput :: "trigger_descriptor \<Rightarrow> safe_parse"
  zodOutput :: "trigger_descriptor \<Rightarrow> safe_parse"

definition buildFire ::
  "schemas \<Rightarrow> (invoke_call \<Rightarrow> invoke_result) \<Rightarrow> trigger_entry \<Rightarrow> json \<Rightarrow> dispatch_meta option
     \<Rightarrow> fire_result \<times> invoke_call list" where
  "buildFire zs invoke entry input disp =
     (let d = te_descriptor entry in
      case validate (zodInput zs d) input of
        Inl issues \<Rightarrow> (FireFailed ''payload_validation_failed'' None (Some issues), [])
      | Inr v \<Rightarrow>
          let call = \<lparr>ic_request = (te_request entry)\<lparr>rq_dispatch := disp\<rparr>, ic_descriptor = d,
                      ic_input = v, ic_bundleSource = te_bundleSource entry\<rparr>
          in (case invoke call of
                InvokeFailed message stack \<Rightarrow> FireFailed message stack None
              | InvokeOk out \<Rightarrow>
                  (case validateOutput (zodOutput zs d) out of
                     Inr _ \<Rightarrow> FireOk out
                   | Inl issues \<Rightarrow> FireFailed (''output validation: '' @ summariseIssues issues) None None),
              [call]))"

definition buildException ::
  "trigger_entry \<Rightarrow> event_store \<Rightarrow> string \<Rightarrow> string \<Rightarrow> exception_params \<Rightarrow> string + event_store" where
  "buildException entry store i at params =
     emitTriggerException store i at (te_request entry) (td_name (te_descriptor entry)) params"

section \<open>The contract of a trigger source\<close>

definition pairKey :: "string \<Rightarrow> string \<Rightarrow> string" where
  "pairKey owner repo = owner @ ''/'' @ repo"

definition triggerKey :: "string \<Rightarrow> string \<Rightarrow> string" where
  "triggerKey workflowName triggerName = workflowName @ ''/'' @ triggerName"

abbreviation entry_key :: "trigger_entry \<Rightarrow> string" where
  "entry_key e \<equiv> triggerKey (td_workflowName (te_descriptor e)) (td_name (te_descriptor e))"

definition named :: "string \<Rightarrow> string \<Rightarrow> trigger_entry \<Rightarrow> bool" where
  "named w t e \<longleftrightarrow> td_workflowName (te_descriptor e) = w \<and> td_name (te_descriptor e) = t"

definition slash_free :: "string \<Rightarrow> bool" where
  "slash_free s \<longleftrightarrow> CHR ''/'' \<notin> set s"

definition entries_ok :: "trigger_entry list \<Rightarrow> bool" where
  "entries_ok es \<longleftrightarrow> list_all (\<lambda>e. slash_free (td_name (te_descriptor e))) es"

lemma pairKey_inj: "slash_free a \<Longrightarrow> slash_free b \<Longrightarrow> pairKey a x = pairKey b y \<longleftrightarrow> a = b \<and> x = y"
  by (simp add: pairKey_def slash_free_def split_first)

lemma triggerKey_inj: "slash_free x \<Longrightarrow> slash_free y \<Longrightarrow> triggerKey a x = triggerKey b y \<longleftrightarrow> a = b \<and> x = y"
  by (simp add: triggerKey_def slash_free_def split_last)

text \<open>
  \<open>reconfigure\<close> replaces the entries of one (owner, repo) and leaves every other pair alone;
  \<open>getEntry\<close> reads them back. The argument of type \<open>'a\<close> is the environment of the call (the
  clock, for the cron backend).
\<close>

locale trigger_source =
  fixes init :: 's
    and reconfigure :: "'a \<Rightarrow> 's \<Rightarrow> string \<Rightarrow> string \<Rightarrow> trigger_entry list \<Rightarrow> 's"
    and getEntry :: "'s \<Rightarrow> string \<Rightarrow> string \<Rightarrow> string \<Rightarrow> string \<Rightarrow> trigger_entry option"
    and wf :: "'s \<Rightarrow> bool"
  assumes wf_init: "wf init"
    and wf_reconfigure: "wf s \<Longrightarrow> wf (reconfigure a s o1 r es)"
    and get_init: "getEntry init o1 r w t = None"
    and get_same: "wf s \<Longrightarrow> entries_ok es \<Longrightarrow> slash_free t \<Longrightarrow>
      getEntry (reconfigure a s o1 r es) o1 r w t = find (named w t) (rev es)"
    and get_other: "wf s \<Longrightarrow> slash_free o1 \<Longrightarrow> slash_free o2 \<Longrightarrow> (o1, r) \<noteq> (o2, r') \<Longrightarrow>
      getEntry (reconfigure a s o1 r es) o2 r' w t = getEntry s o2 r' w t"
begin

lemma wf_uploads: "wf (foldl (\<lambda>s (a, o1, r, es). reconfigure a s o1 r es) init ups)"
  by (induction ups rule: rev_induct) (auto simp: wf_init wf_reconfigure)

lemma latest_upload:
  assumes "list_all (\<lambda>(a, o1, r, es). slash_free o1 \<and> entries_ok es) ups"
    and "slash_free o2" and "slash_free t"
  shows "getEntry (foldl (\<lambda>s (a, o1, r, es). reconfigure a s o1 r es) init ups) o2 r2 w t =
    (case find (\<lambda>(a, o1, r, es). o1 = o2 \<and> r = r2) (rev ups) of
       None \<Rightarrow> None
     | Some (a, o1, r, es) \<Rightarrow> find (named w t) (rev es))"
  using assms(1)
proof (induction ups rule: rev_induct)
  case Nil
  then show ?case by (simp add: get_init)
next
  case (snoc u ups)
  obtain a o1 r es where u: "u = (a, o1, r, es)" by (cases u)
  with snoc assms(2,3) show ?case
    by (cases "(o1, r) = (o2, r2)") (auto simp: get_same get_other wf_uploads)
qed

end

text \<open>Lookup in a table built entry by entry finds the last entry of that name.\<close>

lemma find_named:
  "entries_ok es \<Longrightarrow> slash_free t \<Longrightarrow>
     find (\<lambda>e. entry_key e = triggerKey w t) (rev es) = find (named w t) (rev es)"
  by (intro find_cong) (auto simp: entries_ok_def list_all_iff named_def triggerKey_inj)

section \<open>The manual backend\<close>

definition manual_reconfigure :: "unit \<Rightarrow> unit \<Rightarrow> string \<Rightarrow> string \<Rightarrow> trigger_entry list \<Rightarrow> unit" where
  "manual_reconfigure a s owner repo entries = ()"

end
