(* ===== verification/Manifest.thy ===== *)
theory Manifest
  imports Triggers "HOL-Library.Monad_Syntax"
begin

text \<open>
  The upload manifest of \<open>packages/core/src/index.ts\<close>: \<open>ManifestSchema\<close> as a parser from the
  JSON value of \<open>manifest.json\<close> to the typed manifest, with every nested schema and
  refinement, and \<open>formatIssue\<close>, which words an issue for the author.

  Zod and the platform are third-party code: what \<open>z.fromJSONSchema\<close> throws on a schema, if anything, and
  whether \<open>Intl.DateTimeFormat\<close> knows a time zone are the fields of \<open>manifest_lib\<close>. The
  combinators \<open>strictObject\<close>, \<open>required\<close>, \<open>optional\<close> and \<open>z_array\<close> are the accept/reject
  behaviour of the Zod constructors the schemas are written with: \<open>None\<close> is a rejected
  value. Objects come from \<open>JSON.parse\<close>, so a key occurs once.
\<close>

section \<open>Values of the manifest\<close>

record trigger_manifest =
  tmf_name :: string
  tmf_config :: trigger_config
  tmf_inputSchema :: json
  tmf_outputSchema :: json

record action_manifest =
  am_name :: string
  am_input :: json
  am_output :: json

record queue_manifest =
  qm_name :: string
  qm_schema :: json

record workflow_manifest =
  wm_name :: string
  wm_module :: string
  wm_sha :: string
  wm_env :: "(string, string) jsmap"
  wm_secrets :: "(string, string) jsmap option"
  wm_secretsKeyId :: "string option"
  wm_actions :: "action_manifest list"
  wm_triggers :: "trigger_manifest list"
  wm_queues :: "queue_manifest list"

record manifest_lib =
  ml_fromJSONSchema :: "json \<Rightarrow> string option"
  ml_timeZone :: "string \<Rightarrow> bool"

section \<open>Zod constructors\<close>

definition strictObject :: "string list \<Rightarrow> json \<Rightarrow> (string, json) jsmap option" where
  "strictObject allowed v =
     (case v of JObj fs \<Rightarrow> if list_all (\<lambda>k. k \<in> set allowed) (keys fs) then Some fs else None | _ \<Rightarrow> None)"

definition required :: "(string, json) jsmap \<Rightarrow> string \<Rightarrow> (json \<Rightarrow> 'a option) \<Rightarrow> 'a option" where
  "required fs k p = Option.bind (map_get fs k) p"

definition optional :: "(string, json) jsmap \<Rightarrow> string \<Rightarrow> (json \<Rightarrow> 'a option) \<Rightarrow> 'a option option" where
  "optional fs k p = (case map_get fs k of None \<Rightarrow> Some None | Some v \<Rightarrow> map_option Some (p v))"

definition with_default :: "(string, json) jsmap \<Rightarrow> string \<Rightarrow> 'a \<Rightarrow> (json \<Rightarrow> 'a option) \<Rightarrow> 'a option" where
  "with_default fs k d p = (case map_get fs k of None \<Rightarrow> Some d | Some v \<Rightarrow> p v)"

definition z_refine :: "('a \<Rightarrow> bool) \<Rightarrow> 'a \<Rightarrow> 'a option" where
  "z_refine ok x = (if ok x then Some x else None)"

definition z_string :: "json \<Rightarrow> string option" where
  "z_string v = (case v of JStr s \<Rightarrow> Some s | _ \<Rightarrow> None)"

definition z_text :: "(string \<Rightarrow> bool) \<Rightarrow> json \<Rightarrow> string option" where
  \<comment> \<open>\<open>z.string().regex(...)\<close>, \<open>z.string().refine(...)\<close>, \<open>z.enum(...)\<close>, \<open>z.literal(...)\<close>\<close>
  "z_text ok v = Option.bind (z_string v) (z_refine ok)"

definition z_number :: "json \<Rightarrow> int option" where
  "z_number v = (case v of JNum n \<Rightarrow> Some n | _ \<Rightarrow> None)"

definition z_boolean :: "json \<Rightarrow> bool option" where
  "z_boolean v = (case v of JBool b \<Rightarrow> Some b | _ \<Rightarrow> None)"

definition z_array :: "(json \<Rightarrow> 'a option) \<Rightarrow> json \<Rightarrow> 'a list option" where
  "z_array p v = (case v of JArr vs \<Rightarrow> those (map p vs) | _ \<Rightarrow> None)"

definition z_record :: "(json \<Rightarrow> 'a option) \<Rightarrow> json \<Rightarrow> (string, 'a) jsmap option" where
  "z_record p v =
     (case v of JObj fs \<Rightarrow> those (map (\<lambda>(k, x). map_option (Pair k) (p x)) fs) | _ \<Rightarrow> None)"

definition jsonSchemaValidator :: "manifest_lib \<Rightarrow> json \<Rightarrow> json option" where
  "jsonSchemaValidator lib v =
     (if (case v of JObj _ \<Rightarrow> True | JArr _ \<Rightarrow> True | _ \<Rightarrow> False) \<and> ml_fromJSONSchema lib v = None then Some v else None)"

section \<open>Schemas\<close>

definition actionManifestSchema :: "manifest_lib \<Rightarrow> json \<Rightarrow> action_manifest option" where
  "actionManifestSchema lib v = do {
     fs \<leftarrow> strictObject [''name'', ''input'', ''output''] v;
     name \<leftarrow> required fs ''name'' z_string;
     inp \<leftarrow> required fs ''input'' (jsonSchemaValidator lib);
     out \<leftarrow> required fs ''output'' (jsonSchemaValidator lib);
     Some \<lparr>am_name = name, am_input = inp, am_output = out\<rparr>
   }"

definition queueManifestSchema :: "manifest_lib \<Rightarrow> json \<Rightarrow> queue_manifest option" where
  "queueManifestSchema lib v = do {
     fs \<leftarrow> strictObject [''name'', ''schema''] v;
     name \<leftarrow> required fs ''name'' (z_text QUEUE_NAME_RE);
     schema \<leftarrow> required fs ''schema'' (jsonSchemaValidator lib);
     Some \<lparr>qm_name = name, qm_schema = schema\<rparr>
   }"

definition response_schema :: "manifest_lib \<Rightarrow> json \<Rightarrow> (json option \<times> json option) option" where
  "response_schema lib v = do {
     fs \<leftarrow> strictObject [''body'', ''headers''] v;
     body \<leftarrow> optional fs ''body'' (jsonSchemaValidator lib);
     headers \<leftarrow> optional fs ''headers'' (jsonSchemaValidator lib);
     Some (body, headers)
   }"

definition request_schema :: "manifest_lib \<Rightarrow> json \<Rightarrow> (json \<times> json) option" where
  "request_schema lib v = do {
     fs \<leftarrow> strictObject [''body'', ''headers''] v;
     body \<leftarrow> required fs ''body'' (jsonSchemaValidator lib);
     headers \<leftarrow> required fs ''headers'' (jsonSchemaValidator lib);
     Some (body, headers)
   }"

definition trigger_schema ::
  "manifest_lib \<Rightarrow> string list \<Rightarrow> (string \<Rightarrow> bool) \<Rightarrow> ((string, json) jsmap \<Rightarrow> trigger_config option)
     \<Rightarrow> json \<Rightarrow> trigger_manifest option" where
  \<comment> \<open>the part every trigger schema has: its name, its type and the two payload schemas\<close>
  "trigger_schema lib own name_ok conf v = do {
     fs \<leftarrow> strictObject ([''name'', ''type'', ''inputSchema'', ''outputSchema''] @ own) v;
     name \<leftarrow> required fs ''name'' (z_text name_ok);
     c \<leftarrow> conf fs;
     ty \<leftarrow> required fs ''type'' (z_text (\<lambda>t. t = kind_of c));
     inp \<leftarrow> required fs ''inputSchema'' (jsonSchemaValidator lib);
     out \<leftarrow> required fs ''outputSchema'' (jsonSchemaValidator lib);
     Some \<lparr>tmf_name = name, tmf_config = c, tmf_inputSchema = inp, tmf_outputSchema = out\<rparr>
   }"

definition httpTriggerManifestSchema :: "manifest_lib \<Rightarrow> json \<Rightarrow> trigger_manifest option" where
  "httpTriggerManifestSchema lib =
     trigger_schema lib [''method'', ''request'', ''response''] TRIGGER_NAME_RE (\<lambda>fs. do {
       method \<leftarrow> required fs ''method'' z_string;
       (body, headers) \<leftarrow> required fs ''request'' (request_schema lib);
       response \<leftarrow> optional fs ''response'' (response_schema lib);
       Some (HttpTrigger method body headers response)
     })"

definition findReservedHeader :: "json option \<Rightarrow> string option" where
  "findReservedHeader headersJson =
     (case headersJson of
        Some (JObj fs) \<Rightarrow>
          (case map_get fs ''properties'' of
             Some (JObj props) \<Rightarrow> find isReservedResponseHeader (keys props)
           | _ \<Rightarrow> None)
      | _ \<Rightarrow> None)"

definition isValidTimezone :: "manifest_lib \<Rightarrow> string \<Rightarrow> bool" where
  "isValidTimezone lib tz = (if tz = [] then False else ml_timeZone lib tz)"

fun containsSentinel :: "string \<Rightarrow> bool" where
  "containsSentinel [] = False"
| "containsSentinel (c # cs) = (match_sentinel (c # cs) \<noteq> None \<or> containsSentinel cs)"

definition cronTriggerManifestSchema :: "manifest_lib \<Rightarrow> json \<Rightarrow> trigger_manifest option" where
  "cronTriggerManifestSchema lib =
     trigger_schema lib [''schedule'', ''tz''] (\<lambda>_. True) (\<lambda>fs. do {
       sched \<leftarrow> required fs ''schedule'' (z_text (\<lambda>v. containsSentinel v \<or> length (js_trim v) > 0));
       tz \<leftarrow> required fs ''tz'' (z_text (\<lambda>v. containsSentinel v \<or> isValidTimezone lib v));
       Some (CronTrigger sched tz)
     })"

definition manualTriggerManifestSchema :: "manifest_lib \<Rightarrow> json \<Rightarrow> trigger_manifest option" where
  "manualTriggerManifestSchema lib = trigger_schema lib [] TRIGGER_NAME_RE (\<lambda>_. Some ManualTrigger)"

definition imapTriggerResultSchema :: "json \<Rightarrow> string list option option" where
  "imapTriggerResultSchema v = do {
     fs \<leftarrow> strictObject [''command''] v;
     optional fs ''command'' (z_array z_string)
   }"

definition wsTriggerManifestSchema :: "manifest_lib \<Rightarrow> json \<Rightarrow> trigger_manifest option" where
  "wsTriggerManifestSchema lib =
     trigger_schema lib [''request'', ''response''] TRIGGER_NAME_RE (\<lambda>fs. do {
       request \<leftarrow> required fs ''request'' (jsonSchemaValidator lib);
       response \<leftarrow> required fs ''response'' (jsonSchemaValidator lib);
       Some (WsTrigger request response)
     })"

definition imapTriggerManifestSchema :: "manifest_lib \<Rightarrow> json \<Rightarrow> trigger_manifest option" where
  "imapTriggerManifestSchema lib =
     trigger_schema lib [''host'', ''port'', ''tls'', ''insecureSkipVerify'', ''user'', ''password'', ''folder'',
       ''search'', ''mode'', ''onError''] TRIGGER_NAME_RE (\<lambda>fs. do {
       host \<leftarrow> required fs ''host'' z_string;
       port \<leftarrow> required fs ''port'' z_number;
       tls \<leftarrow> required fs ''tls'' (z_text (\<lambda>t. t \<in> {''required'', ''starttls'', ''none''}));
       insecure \<leftarrow> required fs ''insecureSkipVerify'' z_boolean;
       user \<leftarrow> required fs ''user'' z_string;
       password \<leftarrow> required fs ''password'' z_string;
       folder \<leftarrow> required fs ''folder'' z_string;
       search \<leftarrow> required fs ''search'' z_string;
       mode \<leftarrow> with_default fs ''mode'' ''idle'' (z_text (\<lambda>m. m \<in> {''poll'', ''idle''}));
       onError \<leftarrow> required fs ''onError'' imapTriggerResultSchema;
       Some (ImapTrigger \<lparr>imap_host = host, imap_port = port, imap_tls = tls, imap_insecureSkipVerify = insecure,
         imap_user = user, imap_password = password, imap_folder = folder, imap_search = search,
         imap_mode = mode, imap_onError = onError\<rparr>)
     })"

definition triggerManifestSchema :: "manifest_lib \<Rightarrow> json \<Rightarrow> trigger_manifest option" where
  \<comment> \<open>\<open>z.discriminatedUnion("type", ...)\<close>\<close>
  "triggerManifestSchema lib v =
     (case v of
        JObj fs \<Rightarrow>
          (case map_get fs ''type'' of
             Some (JStr t) \<Rightarrow>
               if t = ''http'' then httpTriggerManifestSchema lib v
               else if t = ''cron'' then cronTriggerManifestSchema lib v
               else if t = ''manual'' then manualTriggerManifestSchema lib v
               else if t = ''imap'' then imapTriggerManifestSchema lib v
               else if t = ''ws'' then wsTriggerManifestSchema lib v
               else None
           | _ \<Rightarrow> None)
      | _ \<Rightarrow> None)"

definition SECRETS_KEY_ID_PATTERN :: "string \<Rightarrow> bool" where
  "SECRETS_KEY_ID_PATTERN s =
     (length s = 16 \<and> list_all (\<lambda>c. is_digit c \<or> CHR ''a'' \<le> c \<and> c \<le> CHR ''f'') s)"

fun no_repeats :: "string list \<Rightarrow> string list \<Rightarrow> bool" where
  \<comment> \<open>the loops over a \<open>seen\<close> set\<close>
  "no_repeats seen [] = True"
| "no_repeats seen (n # ns) = (if n \<in> set seen then False else no_repeats (set_add n seen) ns)"

definition unique_names :: "string list \<Rightarrow> bool" where
  \<comment> \<open>\<open>new Set(names).size === names.length\<close>\<close>
  "unique_names ns = (length (remdups ns) = length ns)"

definition object_prototype :: "string list" where
  \<comment> \<open>the names every plain object inherits, which the operator \<open>in\<close> also finds\<close>
  "object_prototype =
     [''constructor'', ''__defineGetter__'', ''__defineSetter__'', ''hasOwnProperty'', ''__lookupGetter__'',
      ''__lookupSetter__'', ''isPrototypeOf'', ''propertyIsEnumerable'', ''toString'', ''valueOf'',
      ''__proto__'', ''toLocaleString'']"

definition secrets_disjoint :: "workflow_manifest \<Rightarrow> bool" where
  "secrets_disjoint w =
     (case wm_secrets w of
        None \<Rightarrow> True
      | Some secrets \<Rightarrow>
          list_all (\<lambda>n. \<not> (map_has (wm_env w) n \<or> n \<in> set object_prototype)) (keys secrets))"

definition declares_reserved :: "trigger_manifest \<Rightarrow> bool" where
  "declares_reserved t =
     (case tmf_config t of
        HttpTrigger m b h response \<Rightarrow> findReservedHeader (Option.bind response snd) \<noteq> None
      | _ \<Rightarrow> False)"

definition workflow_refinements :: "workflow_manifest \<Rightarrow> bool" where
  "workflow_refinements w =
     (no_repeats [] (map qm_name (wm_queues w)) \<and>
      (wm_secrets w = None) = (wm_secretsKeyId w = None) \<and>
      secrets_disjoint w \<and>
      length (wm_triggers w) > 0 \<and>
      unique_names (map tmf_name (wm_triggers w)) \<and>
      unique_names (map am_name (wm_actions w)) \<and>
      \<not> list_ex declares_reserved (wm_triggers w))"

definition workflowManifestSchema :: "manifest_lib \<Rightarrow> json \<Rightarrow> workflow_manifest option" where
  "workflowManifestSchema lib v = do {
     fs \<leftarrow> strictObject [''name'', ''module'', ''sha'', ''env'', ''secrets'', ''secretsKeyId'', ''secretBindings'',
       ''actions'', ''triggers'', ''queues''] v;
     name \<leftarrow> required fs ''name'' z_string;
     module \<leftarrow> required fs ''module'' z_string;
     sha \<leftarrow> required fs ''sha'' z_string;
     env \<leftarrow> required fs ''env'' (z_record z_string);
     secrets \<leftarrow> optional fs ''secrets'' (z_record z_string);
     keyId \<leftarrow> optional fs ''secretsKeyId'' (z_text SECRETS_KEY_ID_PATTERN);
     bindings \<leftarrow> optional fs ''secretBindings'' (\<lambda>_. None :: unit option);
     actions \<leftarrow> required fs ''actions'' (z_array (actionManifestSchema lib));
     triggers \<leftarrow> required fs ''triggers'' (z_array (triggerManifestSchema lib));
     queues \<leftarrow> with_default fs ''queues'' [] (z_array (queueManifestSchema lib));
     z_refine workflow_refinements
       \<lparr>wm_name = name, wm_module = module, wm_sha = sha, wm_env = env, wm_secrets = secrets,
        wm_secretsKeyId = keyId, wm_actions = actions, wm_triggers = triggers, wm_queues = queues\<rparr>
   }"

definition ManifestSchema :: "manifest_lib \<Rightarrow> json \<Rightarrow> workflow_manifest list option" where
  "ManifestSchema lib v = do {
     fs \<leftarrow> strictObject [''workflows''] v;
     wfms \<leftarrow> required fs ''workflows'' (z_array (workflowManifestSchema lib));
     z_refine (\<lambda>ws. no_repeats [] (map wm_name ws)) wfms
   }"

section \<open>Issues for the author\<close>

fun pathToString_from :: "string \<Rightarrow> path_seg list \<Rightarrow> string" where
  "pathToString_from out [] = out"
| "pathToString_from out (PIdx n # ps) = pathToString_from (out @ ''['' @ show_nat n @ '']'') ps"
| "pathToString_from out (PKey k # ps) = pathToString_from (if out = [] then k else out @ ''.'' @ k) ps"

definition pathToString :: "path_seg list \<Rightarrow> string" where
  "pathToString p = pathToString_from [] p"

abbreviation prop_of :: "json option \<Rightarrow> string \<Rightarrow> json option" where
  \<comment> \<open>\<open>v?.key\<close>\<close>
  "prop_of v k \<equiv> Option.bind v (\<lambda>j. at_seg j (PKey k))"

definition descendIntoWorkflow ::
  "path_seg list \<Rightarrow> json option \<Rightarrow> json option \<times> path_seg list" where
  "descendIntoWorkflow path parsedValue =
     (case path of
        PKey k # PIdx j # rest \<Rightarrow>
          (case prop_of parsedValue ''workflows'' of
             Some (JArr ws) \<Rightarrow> if k = ''workflows'' then (at_seg (JArr ws) (PIdx j), rest) else (parsedValue, path)
           | _ \<Rightarrow> (parsedValue, path))
      | _ \<Rightarrow> (parsedValue, path))"

definition text_or :: "json option \<Rightarrow> string \<Rightarrow> string" where
  \<comment> \<open>\<open>typeof v === "string" ? v : d\<close>\<close>
  "text_or v d = (case v of Some (JStr t) \<Rightarrow> t | _ \<Rightarrow> d)"

definition with_rest :: "string \<Rightarrow> path_seg list \<Rightarrow> string \<Rightarrow> string" where
  "with_rest prefix rest message =
     (if rest = [] then prefix @ '': '' @ message else prefix @ '': '' @ pathToString rest @ '': '' @ message)"

definition formatTriggerIssue ::
  "string \<Rightarrow> json option \<Rightarrow> nat \<Rightarrow> path_seg list \<Rightarrow> string \<Rightarrow> string" where
  "formatTriggerIssue wfName wfv idx rest message =
     (let trigger = Option.bind (prop_of wfv ''triggers'') (\<lambda>ts. at_seg ts (PIdx idx));
          tName = text_or (prop_of trigger ''name'') (''['' @ show_nat idx @ '']'');
          tType = text_or (prop_of trigger ''type'') ''trigger''
      in with_rest (''Workflow \"'' @ wfName @ ''\": '' @ tType @ '' trigger \"'' @ tName @ ''\"'') rest message)"

definition formatActionIssue ::
  "string \<Rightarrow> json option \<Rightarrow> nat \<Rightarrow> path_seg list \<Rightarrow> string \<Rightarrow> string" where
  "formatActionIssue wfName wfv idx rest message =
     (let action = Option.bind (prop_of wfv ''actions'') (\<lambda>ts. at_seg ts (PIdx idx));
          aName = text_or (prop_of action ''name'') (''['' @ show_nat idx @ '']'')
      in with_rest (''Workflow \"'' @ wfName @ ''\": action \"'' @ aName @ ''\"'') rest message)"

definition formatIssue :: "path_seg list \<Rightarrow> string \<Rightarrow> json option \<Rightarrow> string" where
  "formatIssue path message parsedValue =
     (case descendIntoWorkflow path parsedValue of (wfv, remaining) \<Rightarrow>
        (let wfName = text_or (prop_of wfv ''name'') ''<unknown>''
         in case remaining of
              [] \<Rightarrow> ''Workflow \"'' @ wfName @ ''\": '' @ message
            | PKey k # PIdx idx # rest \<Rightarrow>
                if k = ''triggers'' then formatTriggerIssue wfName wfv idx rest message
                else if k = ''actions'' then formatActionIssue wfName wfv idx rest message
                else ''Workflow \"'' @ wfName @ ''\": '' @ pathToString remaining @ '': '' @ message
            | _ \<Rightarrow> ''Workflow \"'' @ wfName @ ''\": '' @ pathToString remaining @ '': '' @ message))"

section \<open>What an accepted manifest guarantees\<close>

lemma no_repeats_distinct: "no_repeats seen ns \<longleftrightarrow> distinct ns \<and> set ns \<inter> set seen = {}"
  by (induction ns arbitrary: seen) (auto simp: set_add_def)

lemma unique_names_distinct: "unique_names ns = distinct ns"
  by (metis unique_names_def distinct_remdups_id length_remdups_card_conv card_distinct)

definition trigger_wf :: "manifest_lib \<Rightarrow> trigger_manifest \<Rightarrow> bool" where
  "trigger_wf lib t =
     ((case tmf_config t of
         CronTrigger sched tz \<Rightarrow> (containsSentinel sched \<or> js_trim sched \<noteq> []) \<and> (containsSentinel tz \<or> isValidTimezone lib tz)
       | ImapTrigger c \<Rightarrow> TRIGGER_NAME_RE (tmf_name t) \<and> imap_tls c \<in> {''required'', ''starttls'', ''none''} \<and>
           imap_mode c \<in> {''poll'', ''idle''}
       | _ \<Rightarrow> TRIGGER_NAME_RE (tmf_name t)) \<and>
      ml_fromJSONSchema lib (tmf_inputSchema t) = None \<and> ml_fromJSONSchema lib (tmf_outputSchema t) = None)"

lemma those_all: "those (map p vs) = Some xs \<Longrightarrow> list_all Q xs" if "\<And>v x. p v = Some x \<Longrightarrow> Q x" for p
  using that by (induction vs arbitrary: xs) (auto split: option.splits)

lemma z_array_all: "z_array p v = Some xs \<Longrightarrow> list_all Q xs" if "\<And>v x. p v = Some x \<Longrightarrow> Q x"
  using that by (auto simp: z_array_def intro: those_all split: json.splits)

lemmas schema_elims = bind_eq_Some_conv z_refine_def z_text_def required_def with_default_def jsonSchemaValidator_def

lemma trigger_schemaE:
  assumes "trigger_schema lib own ok conf v = Some t"
  obtains fs c where "conf fs = Some c" and "tmf_config t = c" and "ok (tmf_name t)"
    and "ml_fromJSONSchema lib (tmf_inputSchema t) = None" and "ml_fromJSONSchema lib (tmf_outputSchema t) = None"
  using assms by (auto simp: trigger_schema_def schema_elims split: if_splits)

lemma triggerManifestSchema_wf:
  assumes "triggerManifestSchema lib v = Some t"
  shows "trigger_wf lib t"
proof -
  consider (http) "httpTriggerManifestSchema lib v = Some t" | (cron) "cronTriggerManifestSchema lib v = Some t"
    | (manual) "manualTriggerManifestSchema lib v = Some t" | (imap) "imapTriggerManifestSchema lib v = Some t"
    | (ws) "wsTriggerManifestSchema lib v = Some t"
    using assms by (auto simp: triggerManifestSchema_def split: json.splits option.splits if_splits)
  then show ?thesis
  proof cases
    case http
    then show ?thesis unfolding httpTriggerManifestSchema_def
      by (rule trigger_schemaE) (auto simp: trigger_wf_def bind_eq_Some_conv split: trigger_config.splits)
  next
    case cron
    then show ?thesis unfolding cronTriggerManifestSchema_def
      by (rule trigger_schemaE) (auto simp: trigger_wf_def schema_elims split: trigger_config.splits if_splits)
  next
    case manual
    then show ?thesis unfolding manualTriggerManifestSchema_def
      by (rule trigger_schemaE) (auto simp: trigger_wf_def split: trigger_config.splits)
  next
    case imap
    then show ?thesis unfolding imapTriggerManifestSchema_def
      by (rule trigger_schemaE) (auto simp: trigger_wf_def schema_elims split: trigger_config.splits if_splits option.splits)
  next
    case ws
    then show ?thesis unfolding wsTriggerManifestSchema_def
      by (rule trigger_schemaE) (auto simp: trigger_wf_def bind_eq_Some_conv split: trigger_config.splits)
  qed
qed

definition workflow_wf :: "manifest_lib \<Rightarrow> workflow_manifest \<Rightarrow> bool" where
  "workflow_wf lib w =
     (wm_triggers w \<noteq> [] \<and> list_all (trigger_wf lib) (wm_triggers w) \<and>
      distinct (map tmf_name (wm_triggers w)) \<and> \<not> list_ex declares_reserved (wm_triggers w) \<and>
      distinct (map am_name (wm_actions w)) \<and>
      distinct (map qm_name (wm_queues w)) \<and> list_all (\<lambda>q. QUEUE_NAME_RE (qm_name q)) (wm_queues w) \<and>
      (case (wm_secrets w, wm_secretsKeyId w) of
         (None, None) \<Rightarrow> True
       | (Some secrets, Some keyId) \<Rightarrow> SECRETS_KEY_ID_PATTERN keyId \<and> set (keys secrets) \<inter> set (keys (wm_env w)) = {}
       | _ \<Rightarrow> False))"

lemma queueManifestSchema_name: "queueManifestSchema lib v = Some q \<Longrightarrow> QUEUE_NAME_RE (qm_name q)"
  by (auto simp: queueManifestSchema_def schema_elims split: if_splits)

lemma optional_Some: "optional fs k p = Some (Some x) \<Longrightarrow> \<exists>v. p v = Some x"
  by (auto simp: optional_def split: option.splits)

lemma workflowManifestSchema_wf:
  assumes "workflowManifestSchema lib v = Some w"
  shows "workflow_wf lib w"
proof -
  from assms have r: "workflow_refinements w"
    by (auto simp: workflowManifestSchema_def bind_eq_Some_conv z_refine_def split: if_splits)
  from assms obtain x fs where x: "z_array (triggerManifestSchema lib) x = Some (wm_triggers w)"
    and q: "with_default fs ''queues'' [] (z_array (queueManifestSchema lib)) = Some (wm_queues w)"
    and k: "optional fs ''secretsKeyId'' (z_text SECRETS_KEY_ID_PATTERN) = Some (wm_secretsKeyId w)"
    by (auto simp: workflowManifestSchema_def bind_eq_Some_conv z_refine_def required_def split: if_splits)
  have "list_all (trigger_wf lib) (wm_triggers w)"
    using z_array_all [OF _ x] triggerManifestSchema_wf by blast
  moreover have "list_all (\<lambda>q. QUEUE_NAME_RE (qm_name q)) (wm_queues w)"
    using q z_array_all [of "queueManifestSchema lib" "\<lambda>q. QUEUE_NAME_RE (qm_name q)"] queueManifestSchema_name
    by (fastforce simp: with_default_def split: option.splits)
  moreover have "SECRETS_KEY_ID_PATTERN keyId" if "wm_secretsKeyId w = Some keyId" for keyId
    using k that optional_Some [of fs "''secretsKeyId''"] by (fastforce simp: schema_elims split: if_splits)
  moreover have "set (keys secrets) \<inter> set (keys (wm_env w)) = {}" if "wm_secrets w = Some secrets" for secrets
    using r that by (fastforce simp: workflow_refinements_def secrets_disjoint_def list_all_iff map_of_eq_None_iff)
  ultimately show ?thesis
    using r by (auto simp: workflow_wf_def workflow_refinements_def no_repeats_distinct unique_names_distinct
        split: option.splits)
qed

lemma ManifestSchema_wf:
  assumes "ManifestSchema lib v = Some ws"
  shows "distinct (map wm_name ws)" and "list_all (workflow_wf lib) ws"
proof -
  from assms obtain x where x: "z_array (workflowManifestSchema lib) x = Some ws"
    and d: "no_repeats [] (map wm_name ws)"
    by (auto simp: ManifestSchema_def schema_elims split: if_splits)
  show "distinct (map wm_name ws)" using d by (simp add: no_repeats_distinct)
  show "list_all (workflow_wf lib) ws" using z_array_all [OF _ x] workflowManifestSchema_wf by blast
qed

text \<open>
  The operator \<open>in\<close> also finds inherited names: a secret that has the name of an
  \<open>Object.prototype\<close> member is refused as if the workflow's \<open>env\<close> declared it.
\<close>

lemma prototype_secret_refused:
  "wm_secrets w = Some [(''toString'', c)] \<Longrightarrow> wm_env w = [] \<Longrightarrow> \<not> workflow_refinements w"
  by (simp add: workflow_refinements_def secrets_disjoint_def object_prototype_def)

end
