(* ===== verification/Secrets.thy ===== *)
theory Secrets
  imports Manifest "HOL-Library.Word"
begin

text \<open>
  Workflow secrets on the host: the key CSV (\<open>packages/runtime/src/secrets/parse-keys.ts\<close>), the
  key store and \<open>decryptSealed\<close> (\<open>key-store.ts\<close>), the check of an uploaded manifest
  (\<open>verify-manifest.ts\<close>), the decryption of a workflow's secrets (\<open>decrypt-workflow.ts\<close>) and
  the two computations of a key fingerprint (\<open>computeKeyId\<close> of \<open>packages/core/src/index.ts\<close> and
  \<open>fingerprintSync\<close> of \<open>key-store.ts\<close>).

  libsodium, SHA-256 and the platform's base64 and text decoders are fields of \<open>secrets_lib\<close>.
  A thrown error is its message and, for \<open>decryptSealed\<close>, its class.
\<close>

type_synonym byte = "8 word"

record secrets_lib =
  sl_base64 :: "string \<Rightarrow> byte list"
  sl_sha256 :: "byte list \<Rightarrow> byte list"
  sl_publicKey :: "byte list \<Rightarrow> byte list"
  sl_unseal :: "byte list \<Rightarrow> byte list \<Rightarrow> byte list \<Rightarrow> string + byte list"
  sl_text :: "byte list \<Rightarrow> string"

section \<open>Key fingerprints\<close>

definition hex_digit :: "nat \<Rightarrow> char" where
  "hex_digit d = (if d < 10 then digit_char d else char_of (87 + d :: nat))"

fun toString16 :: "nat \<Rightarrow> string" where
  "toString16 n = (if n < 16 then [hex_digit n] else toString16 (n div 16) @ [hex_digit (n mod 16)])"

declare toString16.simps [simp del]

definition padStart :: "nat \<Rightarrow> char \<Rightarrow> string \<Rightarrow> string" where
  "padStart width c s = replicate (width - length s) c @ s"

definition SECRETS_KEY_ID_BYTES :: nat where "SECRETS_KEY_ID_BYTES = 8"

definition computeKeyId :: "secrets_lib \<Rightarrow> byte list \<Rightarrow> string" where
  "computeKeyId lib publicKey =
     (let bytes = take SECRETS_KEY_ID_BYTES (sl_sha256 lib publicKey)
      in foldl (\<lambda>hex b. hex @ padStart 2 (CHR ''0'') (toString16 (unat b))) [] bytes)"

definition hex_digest :: "byte list \<Rightarrow> string" where
  \<comment> \<open>\<open>digest("hex")\<close>: the high and the low digit of every byte\<close>
  "hex_digest bs = concat (map (\<lambda>b. [hex_digit (unat b div 16), hex_digit (unat b mod 16)]) bs)"

definition fingerprintSync :: "secrets_lib \<Rightarrow> byte list \<Rightarrow> string" where
  "fingerprintSync lib publicKey = take (SECRETS_KEY_ID_BYTES * 2) (hex_digest (sl_sha256 lib publicKey))"

section \<open>The key CSV\<close>

definition SECRET_KEY_BYTES :: nat where "SECRET_KEY_BYTES = 32"

record parsed_key =
  pk_keyId :: string
  pk_sk :: "byte list"

definition keys_error :: "string \<Rightarrow> string" where
  "keys_error message = ''SECRETS_PRIVATE_KEYS: '' @ message"

definition parseEntry :: "secrets_lib \<Rightarrow> string \<Rightarrow> string + parsed_key" where
  "parseEntry lib entry =
     (if entry = [] then Inl (keys_error ''empty entry (check for trailing comma)'')
      else case indexOf (CHR '':'') entry of
        None \<Rightarrow> Inl (keys_error (''malformed entry \"'' @ entry @ ''\" (expected \"keyId:base64\")''))
      | Some colon \<Rightarrow>
          let keyId = js_trim (take colon entry);
              b64 = js_trim (drop (Suc colon) entry);
              sk = sl_base64 lib b64
          in if keyId = [] then Inl (keys_error (''malformed entry \"'' @ entry @ ''\" (keyId is empty)''))
             else if b64 = [] then Inl (keys_error (''malformed entry \"'' @ keyId @ '':...\" (base64 secret key is empty)''))
             else if length sk \<noteq> SECRET_KEY_BYTES
             then Inl (keys_error (''keyId \"'' @ keyId @ ''\" has wrong secret-key length '' @ show_nat (length sk) @
               '' (expected '' @ show_nat SECRET_KEY_BYTES @ '')''))
             else Inr \<lparr>pk_keyId = keyId, pk_sk = sk\<rparr>)"

fun parse_entries :: "secrets_lib \<Rightarrow> string list \<Rightarrow> string list \<Rightarrow> parsed_key list \<Rightarrow> string + parsed_key list" where
  "parse_entries lib [] seen parsed = Inr parsed"
| "parse_entries lib (entry # es) seen parsed =
     (case parseEntry lib entry of
        Inl err \<Rightarrow> Inl err
      | Inr k \<Rightarrow>
          if pk_keyId k \<in> set seen then Inl (keys_error (''duplicate keyId \"'' @ pk_keyId k @ ''\"''))
          else parse_entries lib es (set_add (pk_keyId k) seen) (parsed @ [k]))"

definition parseSecretsPrivateKeys :: "secrets_lib \<Rightarrow> string \<Rightarrow> string + parsed_key list" where
  "parseSecretsPrivateKeys lib csv =
     (let trimmed = js_trim csv
      in if trimmed = [] then Inl (keys_error ''value is empty'')
         else parse_entries lib (map js_trim (js_split (CHR '','') trimmed)) [] [])"

section \<open>The key store\<close>

record resolved_key =
  rk_keyId :: string
  rk_pk :: "byte list"
  rk_sk :: "byte list"

record key_store =
  ks_resolved :: "(string, resolved_key) jsmap"
  ks_order :: "string list"

fun resolve_keys :: "secrets_lib \<Rightarrow> parsed_key list \<Rightarrow> key_store \<Rightarrow> string + key_store" where
  "resolve_keys lib [] ks = Inr ks"
| "resolve_keys lib (p # ps) ks =
     (let pk = sl_publicKey lib (pk_sk p);
          keyId = fingerprintSync lib pk
      in if map_has (ks_resolved ks) keyId
         then Inl (''createKeyStore: duplicate fingerprint \"'' @ keyId @
           ''\" (two CSV entries derive to the same public key)'')
         else resolve_keys lib ps
           \<lparr>ks_resolved = map_set keyId \<lparr>rk_keyId = keyId, rk_pk = pk, rk_sk = pk_sk p\<rparr> (ks_resolved ks),
            ks_order = ks_order ks @ [keyId]\<rparr>)"

definition createKeyStore :: "secrets_lib \<Rightarrow> string \<Rightarrow> string + key_store" where
  "createKeyStore lib csv =
     (case parseSecretsPrivateKeys lib csv of
        Inl err \<Rightarrow> Inl err
      | Inr parsed \<Rightarrow>
          (case resolve_keys lib parsed \<lparr>ks_resolved = [], ks_order = []\<rparr> of
             Inl err \<Rightarrow> Inl err
           | Inr ks \<Rightarrow>
               if ks_order ks = [] then Inl ''createKeyStore: parsed key list was empty'' else Inr ks))"

definition getPrimary :: "key_store \<Rightarrow> string + resolved_key" where
  "getPrimary ks =
     (case map_get (ks_resolved ks) (hd (ks_order ks)) of
        None \<Rightarrow> Inl ''createKeyStore: primary key missing (should not happen)''
      | Some k \<Rightarrow> Inr k)"

definition ks_lookup :: "key_store \<Rightarrow> string \<Rightarrow> resolved_key option" where
  "ks_lookup ks keyId = map_get (ks_resolved ks) keyId"

datatype secret_error = UnknownKeyIdError string | SecretDecryptError string

fun secret_message :: "secret_error \<Rightarrow> string" where
  "secret_message (UnknownKeyIdError keyId) = ''unknown secretsKeyId \"'' @ keyId @ ''\"''"
| "secret_message (SecretDecryptError message) = message"

definition decryptSealed ::
  "secrets_lib \<Rightarrow> string \<Rightarrow> string \<Rightarrow> key_store \<Rightarrow> secret_error + byte list" where
  "decryptSealed lib b64Ciphertext keyId store =
     (case ks_lookup store keyId of
        None \<Rightarrow> Inl (UnknownKeyIdError keyId)
      | Some entry \<Rightarrow>
          (case sl_unseal lib (sl_base64 lib b64Ciphertext) (rk_pk entry) (rk_sk entry) of
             Inl message \<Rightarrow> Inl (SecretDecryptError message)
           | Inr bytes \<Rightarrow> Inr bytes))"

section \<open>Secrets of a workflow\<close>

fun decrypt_entries ::
  "secrets_lib \<Rightarrow> key_store \<Rightarrow> string \<Rightarrow> (string, string) jsmap \<Rightarrow> (string, string) jsmap
     \<Rightarrow> secret_error + (string, string) jsmap" where
  "decrypt_entries lib ks keyId [] out = Inr out"
| "decrypt_entries lib ks keyId ((envName, ciphertext) # es) out =
     (case decryptSealed lib ciphertext keyId ks of
        Inl err \<Rightarrow> Inl err
      | Inr bytes \<Rightarrow> decrypt_entries lib ks keyId es (map_set envName (sl_text lib bytes) out))"

definition decryptWorkflowSecrets ::
  "secrets_lib \<Rightarrow> key_store \<Rightarrow> workflow_manifest \<Rightarrow> secret_error + (string, string) jsmap" where
  "decryptWorkflowSecrets lib ks wfm =
     (case (wm_secrets wfm, wm_secretsKeyId wfm) of
        (Some secrets, Some keyId) \<Rightarrow> decrypt_entries lib ks keyId secrets []
      | _ \<Rightarrow> Inr [])"

datatype secrets_verify_failure =
    UnknownSecretKeyId string string
  | SecretDecryptFailed string string

fun verify_entries ::
  "secrets_lib \<Rightarrow> key_store \<Rightarrow> string \<Rightarrow> string \<Rightarrow> (string, string) jsmap \<Rightarrow> secrets_verify_failure option" where
  "verify_entries lib ks wname keyId [] = None"
| "verify_entries lib ks wname keyId ((envName, ciphertext) # es) =
     (case decryptSealed lib ciphertext keyId ks of
        Inl (UnknownKeyIdError k) \<Rightarrow> Some (UnknownSecretKeyId wname k)
      | Inl (SecretDecryptError _) \<Rightarrow> Some (SecretDecryptFailed wname envName)
      | Inr plaintext \<Rightarrow> verify_entries lib ks wname keyId es)"

fun verifyManifestSecrets ::
  "secrets_lib \<Rightarrow> workflow_manifest list \<Rightarrow> key_store \<Rightarrow> secrets_verify_failure option" where
  "verifyManifestSecrets lib [] ks = None"
| "verifyManifestSecrets lib (w # ws) ks =
     (case (wm_secrets w, wm_secretsKeyId w) of
        (Some secrets, Some keyId) \<Rightarrow>
          if ks_lookup ks keyId = None then Some (UnknownSecretKeyId (wm_name w) keyId)
          else (case verify_entries lib ks (wm_name w) keyId secrets of
                  Some failure \<Rightarrow> Some failure
                | None \<Rightarrow> verifyManifestSecrets lib ws ks)
      | _ \<Rightarrow> verifyManifestSecrets lib ws ks)"

section \<open>The two fingerprints agree\<close>

lemma two_digits: "padStart 2 (CHR ''0'') (toString16 n) = [hex_digit (n div 16), hex_digit (n mod 16)]" if "n < 256"
proof (cases "n < 16")
  case True
  have "hex_digit 0 = CHR ''0''" by code_simp
  with True show ?thesis by (simp add: toString16.simps padStart_def)
next
  case False
  have "toString16 (n div 16) = [hex_digit (n div 16)]" using that by (simp add: toString16.simps)
  then have "toString16 n = [hex_digit (n div 16), hex_digit (n mod 16)]"
    using False by (subst toString16.simps) simp
  then show ?thesis by (simp add: padStart_def)
qed

lemma foldl_hex: "foldl (\<lambda>hex b. hex @ f b) acc bs = acc @ concat (map f bs)"
  by (induction bs arbitrary: acc) simp_all

lemma take_pairs: "take (n * 2) (concat (map (\<lambda>b. [f b, g b]) bs)) = concat (map (\<lambda>b. [f b, g b]) (take n bs))"
proof (induction bs arbitrary: n)
  case (Cons b bs)
  then show ?case by (cases n) simp_all
qed simp

text \<open>
  The fingerprint the key store computes (the first characters of the hex digest) is the
  one \<open>computeKeyId\<close> of the core package computes (the first bytes of the digest, each written
  with \<open>toString(16).padStart(2, "0")\<close>), for every public key and every digest.
\<close>

lemma fingerprints_agree: "fingerprintSync lib pk = computeKeyId lib pk"
proof -
  have b: "unat b < 256" for b :: byte using unsigned_less [of b, where ?'a = nat] by simp
  then have d: "(\<lambda>b :: byte. [hex_digit (unat b div 16), hex_digit (unat b mod 16)]) =
      (\<lambda>b. padStart 2 (CHR ''0'') (toString16 (unat b)))"
    by (intro ext) (simp add: two_digits)
  show ?thesis
    unfolding fingerprintSync_def hex_digest_def computeKeyId_def Let_def foldl_hex d [symmetric] take_pairs by simp
qed

section \<open>Verified secrets decrypt\<close>

lemma verify_entries_decrypt:
  "verify_entries lib ks wname keyId es = None \<Longrightarrow> \<exists>store. decrypt_entries lib ks keyId es out = Inr store"
proof (induction es arbitrary: out)
  case (Cons e es)
  then show ?case by (cases e) (auto split: sum.splits secret_error.splits)
qed simp

lemma verified_secrets_decrypt:
  assumes "verifyManifestSecrets lib ws ks = None" and "w \<in> set ws"
  shows "\<exists>store. decryptWorkflowSecrets lib ks w = Inr store"
  using assms
proof (induction ws)
  case (Cons v ws)
  then show ?case
    using verify_entries_decrypt [of lib ks "wm_name v" _ _ "[]"]
    by (fastforce simp: decryptWorkflowSecrets_def split: option.splits if_splits)
qed simp

end
