(* ===== verification/HttpSource.thy ===== *)
theory HttpSource
  imports Triggers
begin

text \<open>
  The HTTP trigger backend (\<open>packages/runtime/src/triggers/http.ts\<close>): the table of webhook
  entries per (owner, repo), the \<open>/webhooks/*\<close> middleware and the mapping of results to
  responses. Hono's context is the request record and the returned response; \<open>c.req.json()\<close>
  is the field \<open>hr_json\<close> (\<open>None\<close> when the body does not parse).
\<close>

section \<open>Requests and responses\<close>

record http_request =
  hr_method :: string
  hr_path :: string
  hr_url :: string
  hr_pathname :: string
  hr_headers :: "(string, string) jsmap"
  hr_json :: "json option"

datatype resp_body = NoBody | TextBody string | JsonBody json

datatype http_response =
    NotFound
  | Response int "(string, string) jsmap" resp_body

record http_result =
  res_status :: "int option"
  res_body :: json
  res_headers :: "(string, string) jsmap"

definition WEBHOOKS_PREFIX :: string where "WEBHOOKS_PREFIX = ''/webhooks/''"

definition URL_SEGMENT_COUNT :: nat where "URL_SEGMENT_COUNT = 4"

definition headersToRecord :: "(string, string) jsmap \<Rightarrow> (string, string) jsmap" where
  "headersToRecord hs = foldl (\<lambda>out (k, v). map_set (toLowerCase k) v out) [] hs"

definition seg_json :: "path_seg \<Rightarrow> json" where
  "seg_json s = (case s of PKey k \<Rightarrow> JStr k | PIdx n \<Rightarrow> JNum (int n))"

definition wire_issues_json :: "(path_seg list \<times> string) list \<Rightarrow> json" where
  "wire_issues_json is =
     JArr (map (\<lambda>(p, m). JObj [(''path'', JArr (map seg_json p)), (''message'', JStr m)]) is)"

definition validationFailure :: "validation_issue list \<Rightarrow> http_response" where
  "validationFailure issues =
     Response 422 [] (JsonBody (JObj [(''error'', JStr ''payload_validation_failed''),
       (''issues'', wire_issues_json (toWireIssues issues))]))"

definition internalErrorResponse :: http_response where
  "internalErrorResponse = Response 500 [] (JsonBody (JObj [(''error'', JStr ''internal_error'')]))"

definition hasContentTypeHeader :: "(string, string) jsmap \<Rightarrow> bool" where
  "hasContentTypeHeader hs = list_ex (\<lambda>k. toLowerCase k = ''content-type'') (keys hs)"

definition partitionHeaders :: "(string, string) jsmap \<Rightarrow> (string, string) jsmap \<times> string list" where
  "partitionHeaders source =
     (filter (\<lambda>(k, v). \<not> isReservedResponseHeader k) source,
      sort (map (toLowerCase \<circ> fst) (filter (\<lambda>(k, v). isReservedResponseHeader k) source)))"

fun field_of :: "json \<Rightarrow> string \<Rightarrow> json option" where
  "field_of (JObj fs) k = map_get fs k"
| "field_of _ k = None"

definition as_http_result :: "json \<Rightarrow> http_result" where
  \<comment> \<open>\<open>(output ?? {}) as HttpTriggerResult\<close>: the fields of a validated output\<close>
  "as_http_result output =
     \<lparr>res_status = (case field_of output ''status'' of Some (JNum n) \<Rightarrow> Some n | _ \<Rightarrow> None),
      res_body = (case field_of output ''body'' of Some b \<Rightarrow> b | None \<Rightarrow> JNull),
      res_headers = (case field_of output ''headers'' of
          Some (JObj hs) \<Rightarrow> concat (map (\<lambda>(k, v). case v of JStr s \<Rightarrow> [(k, s)] | _ \<Rightarrow> []) hs)
        | _ \<Rightarrow> [])\<rparr>"

definition serializeHttpResult :: "json \<Rightarrow> http_response \<times> string list" where
  "serializeHttpResult output =
     (let result = as_http_result output;
          status = (case res_status result of Some n \<Rightarrow> n | None \<Rightarrow> 200)
      in case partitionHeaders (res_headers result) of (headers, stripped) \<Rightarrow>
           (case res_body result of
              JNull \<Rightarrow> (Response status headers NoBody, stripped)
            | JStr s \<Rightarrow>
                (Response status
                  (if hasContentTypeHeader headers then headers
                   else map_set ''content-type'' ''text/plain; charset=UTF-8'' headers) (TextBody s), stripped)
            | b \<Rightarrow>
                (Response status
                  (if hasContentTypeHeader headers then headers
                   else map_set ''content-type'' ''application/json; charset=UTF-8'' headers) (JsonBody b), stripped)))"

definition parseBody :: "http_request \<Rightarrow> validation_issue list + json" where
  "parseBody c =
     (if hr_method c = ''GET'' \<or> hr_method c = ''HEAD'' then Inr JNull
      else (case hr_json c of
              Some v \<Rightarrow> Inr v
            | None \<Rightarrow> Inl [\<lparr>vi_path = [PKey ''body''], vi_message = ''Invalid JSON body'',
                vi_received = None, vi_expected = None, vi_code = []\<rparr>]))"

section \<open>The source\<close>

record http_source =
  http_pairs :: "(string, (string, trigger_entry) jsmap) jsmap"
  http_ready :: bool

definition createHttpTriggerSource :: http_source where
  "createHttpTriggerSource = \<lparr>http_pairs = [], http_ready = False\<rparr>"

definition http_reconfigure ::
  "unit \<Rightarrow> http_source \<Rightarrow> string \<Rightarrow> string \<Rightarrow> trigger_entry list \<Rightarrow> http_source" where
  "http_reconfigure _ s owner repo entries =
     (let key = pairKey owner repo in
      if entries = [] then s\<lparr>http_pairs := map_delete key (http_pairs s)\<rparr>
      else s\<lparr>http_pairs := map_set key
             (foldl (\<lambda>byTrigger e. map_set (entry_key e) e byTrigger) [] entries) (http_pairs s)\<rparr>)"

definition http_getEntry ::
  "http_source \<Rightarrow> string \<Rightarrow> string \<Rightarrow> string \<Rightarrow> string \<Rightarrow> trigger_entry option" where
  "http_getEntry s owner repo workflowName triggerName =
     Option.bind (map_get (http_pairs s) (pairKey owner repo))
       (\<lambda>byTrigger. map_get byTrigger (triggerKey workflowName triggerName))"

definition http_stop :: "http_source \<Rightarrow> http_source" where
  "http_stop s = s\<lparr>http_pairs := []\<rparr>"

definition markReady :: "http_source \<Rightarrow> http_source" where
  "markReady s = s\<lparr>http_ready := True\<rparr>"

definition route ::
  "http_source \<Rightarrow> http_request \<Rightarrow> trigger_entry option" where
  \<comment> \<open>from the URL to the entry; \<open>None\<close> is \<open>c.notFound()\<close>\<close>
  "route s c =
     (case js_split (CHR ''/'') (drop (length WEBHOOKS_PREFIX) (hr_path c)) of
        [owner, repo, workflowName, triggerName] \<Rightarrow>
          if OWNER_NAME_RE owner \<and> REPO_NAME_RE repo \<and> OWNER_NAME_RE workflowName \<and>
             TRIGGER_NAME_RE triggerName
          then (case http_getEntry s owner repo workflowName triggerName of
                  None \<Rightarrow> None
                | Some entry \<Rightarrow>
                    (case td_config (te_descriptor entry) of
                       HttpTrigger method _ _ _ \<Rightarrow> if method \<noteq> hr_method c then None else Some entry
                     | _ \<Rightarrow> None))
          else None
      | _ \<Rightarrow> None)"

definition raw_input :: "http_request \<Rightarrow> json \<Rightarrow> json" where
  "raw_input c body =
     JObj [(''body'', body),
           (''headers'', JObj (map (\<lambda>(k, v). (k, JStr v)) (headersToRecord (hr_headers c)))),
           (''url'', JStr (hr_url c)), (''method'', JStr (hr_method c))]"

definition issues_json :: "validation_issue list \<Rightarrow> json" where
  "issues_json issues =
     JArr (map (\<lambda>i. JObj
       ([(''path'', JArr (map seg_json (vi_path i))), (''message'', JStr (vi_message i))] @
        (case vi_received i of None \<Rightarrow> [] | Some r \<Rightarrow> [(''received'', r)]) @
        (case vi_expected i of None \<Rightarrow> [] | Some e \<Rightarrow> [(''expected'', JStr e)]) @
        [(''code'', JStr (vi_code i))])) issues)"

record http_effects =
  fx_response :: http_response
  fx_calls :: "invoke_call list"
  fx_exceptions :: "(trigger_entry \<times> exception_params) list"

definition respond :: "http_response \<Rightarrow> http_effects" where
  "respond r = \<lparr>fx_response = r, fx_calls = [], fx_exceptions = []\<rparr>"

definition dispatch_entry ::
  "schemas \<Rightarrow> (invoke_call \<Rightarrow> invoke_result) \<Rightarrow> http_request \<Rightarrow> trigger_entry \<Rightarrow> json \<Rightarrow> http_effects" where
  "dispatch_entry zs invoke c entry body =
     (case buildFire zs invoke entry (raw_input c body) None of
        (FireFailed message stack (Some issues), calls) \<Rightarrow>
          \<lparr>fx_response = validationFailure issues, fx_calls = calls,
           fx_exceptions = [(entry, \<lparr>xp_kind = Some ''trigger.rejection'', xp_name = ''http.body-validation'',
             xp_error = None,
             xp_input = Some [(''issues'', issues_json issues), (''method'', JStr (hr_method c)),
                              (''path'', JStr (hr_pathname c))],
             xp_details = None\<rparr>)]\<rparr>
      | (FireFailed message stack None, calls) \<Rightarrow>
          \<lparr>fx_response = internalErrorResponse, fx_calls = calls, fx_exceptions = []\<rparr>
      | (FireOk output, calls) \<Rightarrow>
          (case serializeHttpResult output of (response, stripped) \<Rightarrow>
             \<lparr>fx_response = response, fx_calls = calls,
              fx_exceptions = (if stripped = [] then [] else
                [(entry, \<lparr>xp_kind = Some ''trigger.exception'', xp_name = ''http.response-header-stripped'',
                  xp_error = None, xp_input = Some [(''stripped'', JArr (map JStr stripped))],
                  xp_details = None\<rparr>)])\<rparr>))"

definition middleware ::
  "schemas \<Rightarrow> (invoke_call \<Rightarrow> invoke_result) \<Rightarrow> http_source \<Rightarrow> http_request \<Rightarrow> http_effects" where
  "middleware zs invoke s c =
     (if drop (length WEBHOOKS_PREFIX) (hr_path c) = [] \<and> hr_method c = ''GET''
      then respond (Response (if http_ready s then 204 else 503) [] NoBody)
      else (case route s c of
              None \<Rightarrow> respond NotFound
            | Some entry \<Rightarrow>
                (case parseBody c of
                   Inl issues \<Rightarrow> respond (validationFailure issues)
                 | Inr body \<Rightarrow> dispatch_entry zs invoke c entry body)))"

section \<open>The source keeps its contract\<close>

lemma by_trigger_lookup:
  "map_get (foldl (\<lambda>m e. map_set (entry_key e) e m) m es) k =
     (case find (\<lambda>e. entry_key e = k) (rev es) of Some e \<Rightarrow> Some e | None \<Rightarrow> map_get m k)"
  by (induction es rule: rev_induct) auto

interpretation http: trigger_source createHttpTriggerSource http_reconfigure http_getEntry "\<lambda>_. True"
proof unfold_locales
  fix o1 o2 r r' w t :: string and es a s
  show "http_getEntry createHttpTriggerSource o1 r w t = None"
    by (simp add: http_getEntry_def createHttpTriggerSource_def)
  show "entries_ok es \<Longrightarrow> slash_free t \<Longrightarrow>
      http_getEntry (http_reconfigure a s o1 r es) o1 r w t = find (named w t) (rev es)"
    by (simp add: http_getEntry_def http_reconfigure_def Let_def by_trigger_lookup find_named
        split: option.split)
  show "slash_free o1 \<Longrightarrow> slash_free o2 \<Longrightarrow> (o1, r) \<noteq> (o2, r') \<Longrightarrow>
      http_getEntry (http_reconfigure a s o1 r es) o2 r' w t = http_getEntry s o2 r' w t"
    by (auto simp: http_getEntry_def http_reconfigure_def Let_def pairKey_inj)
qed simp_all

section \<open>Properties\<close>

abbreviation upload_names_ok :: "unit \<times> string \<times> string \<times> trigger_entry list \<Rightarrow> bool" where
  "upload_names_ok \<equiv> \<lambda>(a, o1, r, es).
     OWNER_NAME_RE o1 \<and> list_all (\<lambda>e. TRIGGER_NAME_RE (td_name (te_descriptor e))) es"

definition latest_entry ::
  "(unit \<times> string \<times> string \<times> trigger_entry list) list \<Rightarrow> string \<Rightarrow> string \<Rightarrow> string \<Rightarrow> string \<Rightarrow> trigger_entry option" where
  \<comment> \<open>what the last upload of the pair holds under the name\<close>
  "latest_entry ups o2 r2 w t =
     (case find (\<lambda>(a, o1, r, es). o1 = o2 \<and> r = r2) (rev ups) of
        None \<Rightarrow> None
      | Some (a, o1, r, es) \<Rightarrow> find (named w t) (rev es))"

lemma uploads_lookup:
  assumes "list_all upload_names_ok ups" and "OWNER_NAME_RE o2" and "TRIGGER_NAME_RE t"
  shows "http_getEntry (foldl (\<lambda>s (a, o1, r, es). http_reconfigure a s o1 r es) createHttpTriggerSource ups) o2 r2 w t =
    latest_entry ups o2 r2 w t"
proof -
  have "list_all (\<lambda>(a, o1, r, es). slash_free o1 \<and> entries_ok es) ups"
    using assms(1) name_no_slash by (fastforce simp: list_all_iff slash_free_def entries_ok_def)
  moreover have "slash_free o2" "slash_free t"
    using assms(2,3) name_no_slash by (simp_all add: slash_free_def)
  ultimately show ?thesis unfolding latest_entry_def by (rule http.latest_upload)
qed

lemma split_segments:
  assumes "OWNER_NAME_RE o1" and "REPO_NAME_RE r" and "OWNER_NAME_RE w" and "TRIGGER_NAME_RE t"
  shows "js_split (CHR ''/'') (o1 @ ''/'' @ r @ ''/'' @ w @ ''/'' @ t) = [o1, r, w, t]"
  using assms by (simp add: js_split_append js_split_plain name_no_slash)

lemma route_Some:
  "route s c = Some e \<longleftrightarrow>
     (\<exists>o1 r w t. drop (length WEBHOOKS_PREFIX) (hr_path c) = o1 @ ''/'' @ r @ ''/'' @ w @ ''/'' @ t \<and>
        OWNER_NAME_RE o1 \<and> REPO_NAME_RE r \<and> OWNER_NAME_RE w \<and> TRIGGER_NAME_RE t \<and>
        http_getEntry s o1 r w t = Some e \<and>
        (\<exists>b h p. td_config (te_descriptor e) = HttpTrigger (hr_method c) b h p))" (is "?L = ?R")
proof
  assume ?L
  then obtain o1 r w t where sp: "js_split (CHR ''/'') (drop (length WEBHOOKS_PREFIX) (hr_path c)) = [o1, r, w, t]"
    and ok: "OWNER_NAME_RE o1" "REPO_NAME_RE r" "OWNER_NAME_RE w" "TRIGGER_NAME_RE t"
    "http_getEntry s o1 r w t = Some e" "\<exists>b h p. td_config (te_descriptor e) = HttpTrigger (hr_method c) b h p"
    by (auto simp: route_def split: list.splits if_splits option.splits trigger_config.splits)
  from js_join_split [of "CHR ''/''" "drop (length WEBHOOKS_PREFIX) (hr_path c)"] sp
  have "drop (length WEBHOOKS_PREFIX) (hr_path c) = o1 @ ''/'' @ r @ ''/'' @ w @ ''/'' @ t" by simp
  with ok show ?R by blast
next
  assume ?R
  then show ?L using split_segments by (auto simp: route_def)
qed


definition sample_hook :: trigger_entry where
  "sample_hook =
     \<lparr>te_request = \<lparr>rq_owner = ''acme'', rq_repo = ''site'', rq_workflow = ''w'', rq_sha = ''sha'', rq_dispatch = None\<rparr>,
      te_descriptor = \<lparr>td_name = ''hook'', td_workflowName = ''w'',
        td_config = HttpTrigger ''POST'' (JObj []) (JObj []) None, td_inputSchema = JObj [], td_outputSchema = JObj []\<rparr>,
      te_bundleSource = ''js''\<rparr>"


lemma serialized_headers:
  assumes "serializeHttpResult output = (Response status hs b, stripped)"
  shows "list_all (\<lambda>k. \<not> isReservedResponseHeader k) (keys hs) \<and>
    stripped = snd (partitionHeaders (res_headers (as_http_result output)))"
proof -
  have ct: "\<not> isReservedResponseHeader ''content-type''"
    by (simp add: isReservedResponseHeader_def RESERVED_RESPONSE_HEADERS_def lower_def less_eq_char_def)
  have kept: "list_all (\<lambda>k. \<not> isReservedResponseHeader k) (keys (fst (partitionHeaders source)))" for source
    by (auto simp: partitionHeaders_def list_all_iff)
  have set: "list_all (\<lambda>k. \<not> isReservedResponseHeader k) (keys (map_set ''content-type'' v m))"
    if "list_all (\<lambda>k. \<not> isReservedResponseHeader k) (keys m)" for v m
    using that ct keys_map_set [of "''content-type''" v m] unfolding list_all_iff by auto
  from assms kept [of "res_headers (as_http_result output)"] set show ?thesis
    by (cases "partitionHeaders (res_headers (as_http_result output))")
      (auto simp: serializeHttpResult_def Let_def split: json.splits if_splits)
qed

lemma middleware_cases:
  "(\<exists>r. middleware zs invoke s c = respond r \<and> (r = NotFound \<or> (\<exists>status b. r = Response status [] b))) \<or>
   (\<exists>e body. middleware zs invoke s c = dispatch_entry zs invoke c e body)"
  unfolding middleware_def validationFailure_def by (auto split: option.split sum.split)

text \<open>
  No webhook response carries a header the platform owns, whatever the workflow
  returns and however it spells the name; a request that fires no handler leaves no
  response header at all. Each request reports at most one host-side event, always of a
  kind the executor accepts, so the report itself cannot fail the response.
\<close>

lemma webhook_response_headers_safe:
  "(case fx_response (middleware zs invoke s c) of
      NotFound \<Rightarrow> fx_calls (middleware zs invoke s c) = [] \<and> fx_exceptions (middleware zs invoke s c) = []
    | Response status hs b \<Rightarrow> list_all (\<lambda>k. \<not> isReservedResponseHeader k) (keys hs) \<and>
        (if fx_calls (middleware zs invoke s c) = [] then hs = [] else True)) \<and>
   length (fx_exceptions (middleware zs invoke s c)) \<le> 1 \<and>
   list_all (\<lambda>(e, p). case buildException e store i at p of Inl _ \<Rightarrow> False | Inr _ \<Rightarrow> True)
     (fx_exceptions (middleware zs invoke s c))"
proof (cases "\<exists>e body. middleware zs invoke s c = dispatch_entry zs invoke c e body")
  case False
  then have "\<exists>r. middleware zs invoke s c = respond r \<and> (r = NotFound \<or> (\<exists>status b. r = Response status [] b))"
    using middleware_cases by blast
  then show ?thesis by (auto simp: respond_def)
next
  case True
  then obtain e body where m: "middleware zs invoke s c = dispatch_entry zs invoke c e body" by blast
  obtain res calls where bf: "buildFire zs invoke e (raw_input c body) None = (res, calls)" by fastforce
  show ?thesis
  proof (cases res)
    case (FireOk out)
    obtain status hs b stripped where ser: "serializeHttpResult out = (Response status hs b, stripped)"
      by (cases "partitionHeaders (res_headers (as_http_result out))";
          cases "res_body (as_http_result out)") (auto simp: serializeHttpResult_def Let_def)
    have "calls \<noteq> []"
      using bf FireOk by (auto simp: buildFire_def Let_def split: sum.splits)
    with m bf FireOk ser serialized_headers [OF ser] show ?thesis
      by (simp add: dispatch_entry_def buildException_def emitTriggerException_def assertHostFailKind_def)
  next
    case (FireFailed msg st issues)
    with m bf show ?thesis
      by (cases issues) (simp_all add: dispatch_entry_def validationFailure_def internalErrorResponse_def
          buildException_def emitTriggerException_def assertHostFailKind_def)
  qed
qed

end
