(* ===== verification/SourceIndex.thy ===== *)
theory SourceIndex
  imports Triggers
begin

text \<open>
  What the cron and the IMAP backend share: both keep mutable source entries in a table
  \<open>pairs\<close> of maps, keyed by (owner, repository) and by (workflow, trigger), and both rebuild a
  pair's map on \<open>reconfigure\<close>. With the source entries in a list and referred to by index, the
  part of the state the contract is about is the table of indices and the trigger entries the
  source entries hold. A backend that acts on this part like \<open>ix_reconfigure\<close> and \<open>ix_get\<close> is a
  trigger source.
\<close>

type_synonym source_index = "(string, (string, nat) jsmap) jsmap \<times> trigger_entry list"

definition ix_add :: "string \<Rightarrow> string \<Rightarrow> source_index \<Rightarrow> trigger_entry \<Rightarrow> source_index" where
  "ix_add owner repo ix e =
     (map_set (pairKey owner repo)
        (map_set (entry_key e) (length (snd ix))
          (case map_get (fst ix) (pairKey owner repo) of Some m \<Rightarrow> m | None \<Rightarrow> [])) (fst ix),
      snd ix @ [e])"

definition ix_reconfigure :: "source_index \<Rightarrow> string \<Rightarrow> string \<Rightarrow> trigger_entry list \<Rightarrow> source_index" where
  "ix_reconfigure ix owner repo es =
     (let ps = map_delete (pairKey owner repo) (fst ix)
      in if es = [] then (ps, snd ix)
         else foldl (ix_add owner repo) (map_set (pairKey owner repo) [] ps, snd ix) es)"

definition ix_get :: "source_index \<Rightarrow> string \<Rightarrow> string \<Rightarrow> string \<Rightarrow> string \<Rightarrow> trigger_entry option" where
  "ix_get ix owner repo workflowName triggerName =
     map_option (\<lambda>i. snd ix ! i)
       (Option.bind (map_get (fst ix) (pairKey owner repo)) (\<lambda>pm. map_get pm (triggerKey workflowName triggerName)))"

definition ix_ok :: "source_index \<Rightarrow> bool" where
  "ix_ok ix \<longleftrightarrow> (\<forall>pk pm ek i. (pk, pm) \<in> set (fst ix) \<longrightarrow> (ek, i) \<in> set pm \<longrightarrow> i < length (snd ix))"

lemma ix_okD: "ix_ok ix \<Longrightarrow> map_get (fst ix) pk = Some pm \<Longrightarrow> map_get pm ek = Some i \<Longrightarrow> i < length (snd ix)"
  unfolding ix_ok_def by (meson map_of_SomeD)

lemma ix_get_entries:
  assumes "ix_ok ix" and "\<And>i. i < length (snd ix) \<Longrightarrow> f i = snd ix ! i"
  shows "map_option f (Option.bind (map_get (fst ix) (pairKey owner repo)) (\<lambda>pm. map_get pm (triggerKey w t))) =
    ix_get ix owner repo w t"
  using ix_okD [OF assms(1)] assms(2) by (auto simp: ix_get_def bind_eq_Some_conv intro!: option.map_cong split: bind_splits)

lemma ix_ok_add: "ix_ok ix \<Longrightarrow> ix_ok (ix_add owner repo ix e)"
proof -
  assume ok: "ix_ok ix"
  let ?pm = "case map_get (fst ix) (pairKey owner repo) of Some m \<Rightarrow> m | None \<Rightarrow> []"
  have "i < length (snd ix)" if "(ek, i) \<in> set ?pm" for ek i
    using ok that unfolding ix_ok_def by (auto split: option.splits) (metis map_of_SomeD)
  with ok show ?thesis
    by (fastforce simp: ix_ok_def ix_add_def less_Suc_eq dest!: map_set_mem)
qed

lemma ix_ok_adds: "ix_ok ix \<Longrightarrow> ix_ok (foldl (ix_add owner repo) ix es)"
  by (induction es arbitrary: ix) (simp_all add: ix_ok_add)

lemma ix_ok_delete: "ix_ok ix \<Longrightarrow> ix_ok (map_delete k (fst ix), snd ix)"
  unfolding ix_ok_def by (auto dest!: map_delete_mem)

lemma ix_ok_open: "ix_ok (ps, es) \<Longrightarrow> ix_ok (map_set k [] ps, es)"
  unfolding ix_ok_def by (auto dest!: map_set_mem)

lemma ix_ok_reconfigure: "ix_ok ix \<Longrightarrow> ix_ok (ix_reconfigure ix owner repo es)"
  by (simp add: ix_reconfigure_def Let_def ix_ok_adds ix_ok_open ix_ok_delete)

lemma ix_adds_same:
  assumes "ix_ok ix" and "map_get (fst ix) (pairKey owner repo) = Some []"
  shows "\<exists>pm. map_get (fst (foldl (ix_add owner repo) ix es)) (pairKey owner repo) = Some pm \<and>
    map_option (\<lambda>i. snd (foldl (ix_add owner repo) ix es) ! i) (map_get pm k) = find (\<lambda>e. entry_key e = k) (rev es)"
proof (induction es rule: rev_induct)
  case Nil
  with assms(2) show ?case by simp
next
  case (snoc e es)
  let ?ix = "foldl (ix_add owner repo) ix es"
  obtain pm where pm: "map_get (fst ?ix) (pairKey owner repo) = Some pm"
    "map_option (\<lambda>i. snd ?ix ! i) (map_get pm k) = find (\<lambda>e. entry_key e = k) (rev es)"
    using snoc.IH by blast
  have "i < length (snd ?ix)" if "map_get pm k = Some i" for i
    using ix_okD [OF ix_ok_adds [OF assms(1)] pm(1) that] .
  moreover obtain ix' where ix': "ix' = ?ix" by blast
  ultimately show ?case
    using pm unfolding foldl_append foldl.simps ix' [symmetric]
    by (cases "map_get pm k") (auto simp: ix_add_def nth_append)
qed

lemma ix_adds_other:
  assumes "pk \<noteq> pairKey owner repo"
  shows "map_get (fst (foldl (ix_add owner repo) ix es)) pk = map_get (fst ix) pk \<and>
    (\<exists>more. snd (foldl (ix_add owner repo) ix es) = snd ix @ more)"
proof (induction es rule: rev_induct)
  case (snoc e es)
  obtain ix' where ix': "ix' = foldl (ix_add owner repo) ix es" by blast
  from snoc assms show ?case unfolding foldl_append foldl.simps ix' [symmetric] by (auto simp: ix_add_def)
qed simp

lemma ix_get_same:
  assumes "ix_ok ix" and "entries_ok es" and "slash_free t"
  shows "ix_get (ix_reconfigure ix owner repo es) owner repo w t = find (named w t) (rev es)"
proof (cases "es = []")
  case False
  let ?ix = "(map_set (pairKey owner repo) [] (map_delete (pairKey owner repo) (fst ix)), snd ix)"
  have "ix_ok ?ix" by (intro ix_ok_open ix_ok_delete assms(1))
  from ix_adds_same [OF this, of owner repo es "triggerKey w t"] find_named [OF assms(2,3), of w] False
  show ?thesis by (auto simp: ix_get_def ix_reconfigure_def Let_def)
qed (simp add: ix_get_def ix_reconfigure_def)

lemma ix_get_other:
  assumes "ix_ok ix" and "pairKey o2 r' \<noteq> pairKey owner repo"
  shows "ix_get (ix_reconfigure ix owner repo es) o2 r' w t = ix_get ix o2 r' w t"
proof -
  let ?ix = "ix_reconfigure ix owner repo es"
  have ps: "map_get (fst ?ix) (pairKey o2 r') = map_get (fst ix) (pairKey o2 r')" "\<exists>more. snd ?ix = snd ix @ more"
    using ix_adds_other [OF assms(2)] assms(2) by (auto simp: ix_reconfigure_def Let_def)
  have "snd ?ix ! i = snd ix ! i" if "map_get (fst ix) (pairKey o2 r') = Some pm" "map_get pm k = Some i" for pm k i
    using ix_okD [OF assms(1) that] ps(2) by (auto simp: nth_append)
  with ps(1) show ?thesis
    by (auto simp: ix_get_def intro!: option.map_cong split: option.splits simp: bind_eq_Some_conv)
qed

locale indexed_source =
  fixes init :: 's
    and reconfigure :: "'a \<Rightarrow> 's \<Rightarrow> string \<Rightarrow> string \<Rightarrow> trigger_entry list \<Rightarrow> 's"
    and getEntry :: "'s \<Rightarrow> string \<Rightarrow> string \<Rightarrow> string \<Rightarrow> string \<Rightarrow> trigger_entry option"
    and index :: "'s \<Rightarrow> source_index"
  assumes index_init: "index init = ([], [])"
    and index_reconfigure: "index (reconfigure a s o1 r es) = ix_reconfigure (index s) o1 r es"
    and index_get: "ix_ok (index s) \<Longrightarrow> getEntry s o1 r w t = ix_get (index s) o1 r w t"

sublocale indexed_source \<subseteq> trigger_source init reconfigure getEntry "\<lambda>s. ix_ok (index s)"
proof unfold_locales
  fix o1 o2 r r' w t :: string and es a s
  show ok0: "ix_ok (index init)" by (simp add: index_init ix_ok_def)
  then show "getEntry init o1 r w t = None" by (simp add: index_get index_init ix_get_def)
  assume ok: "ix_ok (index s)"
  then show "ix_ok (index (reconfigure a s o1 r es))" by (simp add: index_reconfigure ix_ok_reconfigure)
  show "getEntry (reconfigure a s o1 r es) o1 r w t = find (named w t) (rev es)" if "entries_ok es" "slash_free t"
    using ix_get_same [OF ok that] ok by (simp add: index_get index_reconfigure ix_ok_reconfigure)
  show "getEntry (reconfigure a s o1 r es) o2 r' w t = getEntry s o2 r' w t"
    if "slash_free o1" "slash_free o2" "(o1, r) \<noteq> (o2, r')"
    using ix_get_other [OF ok, of o2 r' o1 r] that ok by (simp add: index_get index_reconfigure ix_ok_reconfigure pairKey_inj) blast
qed

end
