(* ===== verification/CronSource.thy ===== *)
theory CronSource
  imports SourceIndex
begin

text \<open>
  The cron trigger backend (\<open>packages/runtime/src/triggers/cron.ts\<close>).

  \<open>SourceEntry\<close> objects are mutable and compared by identity: they live in the list
  \<open>cron_srcs\<close> and are referred to by index. \<open>setTimeout\<close> handles are the keys of
  \<open>cron_timers\<close>, the timers that are armed. \<open>cron_inflight\<close> holds the entries whose
  \<open>onFire\<close> awaits \<open>entry.fire({})\<close>. \<open>cron_fired\<close> and \<open>cron_invalid\<close> are histories: the
  fires with the timer that caused them and the time, and the reported schedule errors.
  Times are milliseconds. The third-party parser is the argument \<open>next_date\<close>: the next
  instant of a descriptor's schedule after a time, \<open>None\<close> when parsing throws.
\<close>

section \<open>State and operations\<close>

type_synonym next_date = "trigger_descriptor \<Rightarrow> nat \<Rightarrow> nat option"

record cron_src =
  cs_owner :: string
  cs_repo :: string
  cs_entry :: trigger_entry
  cs_timer :: "nat option"

record cron_timer =
  tm_src :: nat
  tm_armed :: nat
  tm_due :: nat
  tm_clamped :: bool

record cron_source =
  cron_pairs :: "(string, (string, nat) jsmap) jsmap"
  cron_srcs :: "cron_src list"
  cron_timers :: "(nat, cron_timer) jsmap"
  cron_next :: nat
  cron_inflight :: "nat list"
  cron_fired :: "(cron_timer \<times> nat) list"
  cron_invalid :: "nat list"

definition createCronTriggerSource :: cron_source where
  "createCronTriggerSource =
     \<lparr>cron_pairs = [], cron_srcs = [], cron_timers = [], cron_next = 0, cron_inflight = [],
      cron_fired = [], cron_invalid = []\<rparr>"

definition MAX_TIMEOUT_MS :: nat where "MAX_TIMEOUT_MS = 24 * 60 * 60 * 1000"

definition computeNextDelay :: "next_date \<Rightarrow> trigger_descriptor \<Rightarrow> nat \<Rightarrow> nat option" where
  "computeNextDelay nd d now = map_option (\<lambda>n. max (n - now) 1) (nd d now)"

abbreviation src_key :: "cron_src \<Rightarrow> string" where
  "src_key c \<equiv> entry_key (cs_entry c)"

abbreviation src_pair :: "cron_src \<Rightarrow> string" where
  "src_pair c \<equiv> pairKey (cs_owner c) (cs_repo c)"

definition set_timer :: "cron_source \<Rightarrow> nat \<Rightarrow> nat option \<Rightarrow> cron_source" where
  "set_timer st i t = st\<lparr>cron_srcs := (cron_srcs st)[i := (cron_srcs st ! i)\<lparr>cs_timer := t\<rparr>]\<rparr>"

definition clear_timer :: "cron_source \<Rightarrow> nat \<Rightarrow> cron_source" where
  "clear_timer st i =
     (case cs_timer (cron_srcs st ! i) of
        None \<Rightarrow> st
      | Some t \<Rightarrow> set_timer (st\<lparr>cron_timers := map_delete t (cron_timers st)\<rparr>) i None)"

definition cancelPair :: "cron_source \<Rightarrow> string \<Rightarrow> string \<Rightarrow> cron_source" where
  "cancelPair st owner repo =
     (case map_get (cron_pairs st) (pairKey owner repo) of
        None \<Rightarrow> st
      | Some pm \<Rightarrow> foldl clear_timer st (vals pm))"

definition cancelAll :: "cron_source \<Rightarrow> cron_source" where
  "cancelAll st = foldl clear_timer st (concat (map vals (vals (cron_pairs st))))"

definition arm :: "next_date \<Rightarrow> nat \<Rightarrow> cron_source \<Rightarrow> nat \<Rightarrow> cron_source" where
  "arm nd now st i =
     (case computeNextDelay nd (te_descriptor (cs_entry (cron_srcs st ! i))) now of
        None \<Rightarrow> st\<lparr>cron_invalid := cron_invalid st @ [i]\<rparr>
      | Some delay \<Rightarrow>
          let clamped = min delay MAX_TIMEOUT_MS;
              t = cron_next st
          in set_timer
               (st\<lparr>cron_timers := map_set t
                     \<lparr>tm_src = i, tm_armed = now, tm_due = now + clamped, tm_clamped = (clamped < delay)\<rparr>
                     (cron_timers st),
                   cron_next := Suc t\<rparr>) i (Some t))"

definition is_current :: "cron_source \<Rightarrow> nat \<Rightarrow> bool" where
  \<comment> \<open>\<open>pairMap?.get(key) === srcEntry\<close>\<close>
  "is_current st i =
     (case map_get (cron_pairs st) (src_pair (cron_srcs st ! i)) of
        None \<Rightarrow> False
      | Some pm \<Rightarrow> map_get pm (src_key (cron_srcs st ! i)) = Some i)"

definition onFire :: "next_date \<Rightarrow> nat \<Rightarrow> cron_source \<Rightarrow> nat \<Rightarrow> cron_source" where
  \<comment> \<open>the timer callback, up to the await of \<open>entry.fire({})\<close>\<close>
  "onFire nd now st tid =
     (case map_get (cron_timers st) tid of
        None \<Rightarrow> st
      | Some t \<Rightarrow>
          let st1 = set_timer (st\<lparr>cron_timers := map_delete tid (cron_timers st)\<rparr>) (tm_src t) None
          in if tm_clamped t then arm nd now st1 (tm_src t)
             else st1\<lparr>cron_inflight := cron_inflight st1 @ [tm_src t],
                      cron_fired := cron_fired st1 @ [(t, now)]\<rparr>)"

definition onFire_settled :: "next_date \<Rightarrow> nat \<Rightarrow> cron_source \<Rightarrow> nat \<Rightarrow> cron_source" where
  \<comment> \<open>after the await, whatever the outcome\<close>
  "onFire_settled nd now st i =
     (let st1 = st\<lparr>cron_inflight := remove1 i (cron_inflight st)\<rparr>
      in if is_current st1 i then arm nd now st1 i else st1)"

definition add_entry ::
  "next_date \<Rightarrow> nat \<Rightarrow> string \<Rightarrow> string \<Rightarrow> cron_source \<Rightarrow> trigger_entry \<Rightarrow> cron_source" where
  "add_entry nd now owner repo st e =
     (let key = pairKey owner repo;
          i = length (cron_srcs st);
          pm = (case map_get (cron_pairs st) key of Some m \<Rightarrow> m | None \<Rightarrow> [])
      in arm nd now
           (st\<lparr>cron_srcs := cron_srcs st @ [\<lparr>cs_owner = owner, cs_repo = repo, cs_entry = e, cs_timer = None\<rparr>],
               cron_pairs := map_set key (map_set (entry_key e) i pm) (cron_pairs st)\<rparr>) i)"

definition cron_reconfigure ::
  "next_date \<times> nat \<Rightarrow> cron_source \<Rightarrow> string \<Rightarrow> string \<Rightarrow> trigger_entry list \<Rightarrow> cron_source" where
  "cron_reconfigure env st owner repo entries =
     (let key = pairKey owner repo;
          st1 = cancelPair st owner repo;
          st2 = st1\<lparr>cron_pairs := map_delete key (cron_pairs st1)\<rparr>
      in if entries = [] then st2
         else foldl (add_entry (fst env) (snd env) owner repo)
                (st2\<lparr>cron_pairs := map_set key [] (cron_pairs st2)\<rparr>) entries)"

definition cron_getEntry ::
  "cron_source \<Rightarrow> string \<Rightarrow> string \<Rightarrow> string \<Rightarrow> string \<Rightarrow> trigger_entry option" where
  "cron_getEntry st owner repo workflowName triggerName =
     map_option (\<lambda>i. cs_entry (cron_srcs st ! i))
       (Option.bind (map_get (cron_pairs st) (pairKey owner repo))
          (\<lambda>pm. map_get pm (triggerKey workflowName triggerName)))"

definition cron_stop :: "cron_source \<Rightarrow> cron_source" where
  "cron_stop st = (cancelAll st)\<lparr>cron_pairs := []\<rparr>"

section \<open>Frames\<close>

lemma nth_update: "xs[i := x] ! j = (if i = j \<and> i < length xs then x else xs ! j)"
  by (cases "i < length xs") (simp_all add: nth_list_update list_update_beyond)

lemma set_timer_frame [simp]:
  "length (cron_srcs (set_timer st i t)) = length (cron_srcs st)"
  "cron_pairs (set_timer st i t) = cron_pairs st"
  "cron_timers (set_timer st i t) = cron_timers st"
  "cron_next (set_timer st i t) = cron_next st"
  "cron_inflight (set_timer st i t) = cron_inflight st"
  "cron_fired (set_timer st i t) = cron_fired st"
  "cs_owner (cron_srcs (set_timer st i t) ! j) = cs_owner (cron_srcs st ! j)"
  "cs_repo (cron_srcs (set_timer st i t) ! j) = cs_repo (cron_srcs st ! j)"
  "cs_entry (cron_srcs (set_timer st i t) ! j) = cs_entry (cron_srcs st ! j)"
  "cs_timer (cron_srcs (set_timer st i t) ! j) =
     (if j = i \<and> i < length (cron_srcs st) then t else cs_timer (cron_srcs st ! j))"
  by (simp_all add: set_timer_def nth_update)

lemma clear_timer_frame [simp]:
  "length (cron_srcs (clear_timer st i)) = length (cron_srcs st)"
  "cron_pairs (clear_timer st i) = cron_pairs st"
  "cs_owner (cron_srcs (clear_timer st i) ! j) = cs_owner (cron_srcs st ! j)"
  "cs_repo (cron_srcs (clear_timer st i) ! j) = cs_repo (cron_srcs st ! j)"
  "cs_entry (cron_srcs (clear_timer st i) ! j) = cs_entry (cron_srcs st ! j)"
  by (simp_all add: clear_timer_def split: option.split)

lemma clear_all_frame [simp]:
  "length (cron_srcs (foldl clear_timer st is)) = length (cron_srcs st)"
  "cron_pairs (foldl clear_timer st is) = cron_pairs st"
  "cs_owner (cron_srcs (foldl clear_timer st is) ! j) = cs_owner (cron_srcs st ! j)"
  "cs_repo (cron_srcs (foldl clear_timer st is) ! j) = cs_repo (cron_srcs st ! j)"
  "cs_entry (cron_srcs (foldl clear_timer st is) ! j) = cs_entry (cron_srcs st ! j)"
  by (induction "is" arbitrary: st) simp_all

lemma cancelPair_frame [simp]:
  "cron_pairs (cancelPair st owner repo) = cron_pairs st"
  "length (cron_srcs (cancelPair st owner repo)) = length (cron_srcs st)"
  "cs_owner (cron_srcs (cancelPair st owner repo) ! j) = cs_owner (cron_srcs st ! j)"
  "cs_repo (cron_srcs (cancelPair st owner repo) ! j) = cs_repo (cron_srcs st ! j)"
  "cs_entry (cron_srcs (cancelPair st owner repo) ! j) = cs_entry (cron_srcs st ! j)"
  by (simp_all add: cancelPair_def split: option.split)

lemma arm_frame [simp]:
  "length (cron_srcs (arm nd now st i)) = length (cron_srcs st)"
  "cron_pairs (arm nd now st i) = cron_pairs st"
  "cron_inflight (arm nd now st i) = cron_inflight st"
  "cron_fired (arm nd now st i) = cron_fired st"
  "cs_owner (cron_srcs (arm nd now st i) ! j) = cs_owner (cron_srcs st ! j)"
  "cs_repo (cron_srcs (arm nd now st i) ! j) = cs_repo (cron_srcs st ! j)"
  "cs_entry (cron_srcs (arm nd now st i) ! j) = cs_entry (cron_srcs st ! j)"
  by (simp_all add: arm_def Let_def split: option.split)

section \<open>The source keeps its contract\<close>

definition ids_ok :: "cron_source \<Rightarrow> bool" where
  "ids_ok st \<longleftrightarrow> (\<forall>pk pm ek i. (pk, pm) \<in> set (cron_pairs st) \<longrightarrow> (ek, i) \<in> set pm \<longrightarrow>
     i < length (cron_srcs st) \<and> src_pair (cron_srcs st ! i) = pk \<and> src_key (cron_srcs st ! i) = ek)"

lemma ids_okD:
  "ids_ok st \<Longrightarrow> map_get (cron_pairs st) pk = Some pm \<Longrightarrow> (ek, i) \<in> set pm \<Longrightarrow>
     i < length (cron_srcs st) \<and> src_pair (cron_srcs st ! i) = pk \<and> src_key (cron_srcs st ! i) = ek"
  unfolding ids_ok_def by (meson map_of_SomeD)

lemma ids_ok_cong:
  assumes "ids_ok st" and "cron_pairs st' = cron_pairs st" and "length (cron_srcs st') = length (cron_srcs st)"
    and "\<And>j. src_pair (cron_srcs st' ! j) = src_pair (cron_srcs st ! j)"
    and "\<And>j. src_key (cron_srcs st' ! j) = src_key (cron_srcs st ! j)"
  shows "ids_ok st'"
  using assms unfolding ids_ok_def by simp

lemma ids_ok_arm: "ids_ok st \<Longrightarrow> ids_ok (arm nd now st i)"
  by (rule ids_ok_cong) simp_all

lemma ids_ok_cancel: "ids_ok st \<Longrightarrow> ids_ok (cancelPair st owner repo)"
  by (rule ids_ok_cong) simp_all

lemma ids_ok_delete: "ids_ok st \<Longrightarrow> ids_ok (st\<lparr>cron_pairs := map_delete k (cron_pairs st)\<rparr>)"
  unfolding ids_ok_def by (auto dest!: map_delete_mem)

lemma ids_ok_add_entry:
  assumes "ids_ok st"
  shows "ids_ok (add_entry nd now owner repo st e)"
proof -
  let ?key = "pairKey owner repo" and ?i = "length (cron_srcs st)"
  let ?pm = "case map_get (cron_pairs st) ?key of Some m \<Rightarrow> m | None \<Rightarrow> []"
  let ?st = "st\<lparr>cron_srcs := cron_srcs st @ [\<lparr>cs_owner = owner, cs_repo = repo, cs_entry = e, cs_timer = None\<rparr>],
      cron_pairs := map_set ?key (map_set (entry_key e) ?i ?pm) (cron_pairs st)\<rparr>"
  have old: "i < length (cron_srcs ?st) \<and> src_pair (cron_srcs ?st ! i) = pk \<and> src_key (cron_srcs ?st ! i) = ek"
    if "(pk, pm) \<in> set (cron_pairs st)" "(ek, i) \<in> set pm" for pk pm ek i
    using assms that unfolding ids_ok_def by (fastforce simp: nth_append)
  have pm: "?pm = [] \<or> (?key, ?pm) \<in> set (cron_pairs st)"
    by (auto split: option.split dest: map_of_SomeD)
  have "ids_ok ?st"
    unfolding ids_ok_def
  proof (intro allI impI)
    fix pk pm ek i
    assume a: "(pk, pm) \<in> set (cron_pairs ?st)" "(ek, i) \<in> set pm"
    then consider "(pk, pm) \<in> set (cron_pairs st)"
      | "pk = ?key" "pm = map_set (entry_key e) ?i ?pm" by (auto dest: map_set_mem)
    then show "i < length (cron_srcs ?st) \<and> src_pair (cron_srcs ?st ! i) = pk \<and> src_key (cron_srcs ?st ! i) = ek"
    proof cases
      case 1
      with old a(2) show ?thesis by blast
    next
      case 2
      with a(2) have "(ek, i) = (entry_key e, ?i) \<or> (ek, i) \<in> set ?pm" using map_set_mem by metis
      then show ?thesis
      proof
        assume "(ek, i) = (entry_key e, ?i)"
        with 2(1) show ?thesis by simp
      next
        assume m: "(ek, i) \<in> set ?pm"
        then have "?pm \<noteq> []" by force
        with pm have "(?key, ?pm) \<in> set (cron_pairs st)" by blast
        from old [OF this m] 2(1) show ?thesis by blast
      qed
    qed
  qed
  then show ?thesis by (simp add: add_entry_def Let_def ids_ok_arm)
qed

lemma ids_ok_open: "ids_ok st \<Longrightarrow> ids_ok (st\<lparr>cron_pairs := map_set k [] (cron_pairs st)\<rparr>)"
  unfolding ids_ok_def by (auto dest!: map_set_mem)

lemma add_entry_pairs:
  "cron_pairs (add_entry nd now owner repo st e) =
     map_set (pairKey owner repo)
       (map_set (entry_key e) (length (cron_srcs st))
         (case map_get (cron_pairs st) (pairKey owner repo) of Some m \<Rightarrow> m | None \<Rightarrow> []))
       (cron_pairs st)"
  by (simp add: add_entry_def Let_def)

lemma add_entry_srcs:
  "length (cron_srcs (add_entry nd now owner repo st e)) = Suc (length (cron_srcs st))"
  "i < length (cron_srcs st) \<Longrightarrow>
     cs_entry (cron_srcs (add_entry nd now owner repo st e) ! i) = cs_entry (cron_srcs st ! i)"
  "cs_entry (cron_srcs (add_entry nd now owner repo st e) ! length (cron_srcs st)) = e"
  by (simp_all add: add_entry_def Let_def nth_append)

definition cron_index :: "cron_source \<Rightarrow> source_index" where
  "cron_index st = (cron_pairs st, map cs_entry (cron_srcs st))"

lemma cron_index_frame:
  assumes "cron_pairs st' = cron_pairs st" and "length (cron_srcs st') = length (cron_srcs st)"
    and "\<And>j. cs_entry (cron_srcs st' ! j) = cs_entry (cron_srcs st ! j)"
  shows "cron_index st' = cron_index st"
  using assms by (auto simp: cron_index_def intro!: nth_equalityI)

lemma cron_index_add: "cron_index (add_entry nd now owner repo st e) = ix_add owner repo (cron_index st) e"
  by (auto simp: cron_index_def ix_add_def add_entry_pairs add_entry_srcs nth_append less_Suc_eq intro!: nth_equalityI)

lemma cron_index_adds:
  "cron_index (foldl (add_entry nd now owner repo) st es) = foldl (ix_add owner repo) (cron_index st) es"
  by (induction es arbitrary: st) (simp_all add: cron_index_add)

lemma cron_index_cancel: "cron_index (cancelPair st owner repo) = cron_index st"
  by (rule cron_index_frame) simp_all

interpretation cron: indexed_source createCronTriggerSource cron_reconfigure cron_getEntry cron_index
proof unfold_locales
  fix o1 r w t :: string and es a s
  show "cron_index createCronTriggerSource = ([], [])" by (simp add: cron_index_def createCronTriggerSource_def)
  have set_pairs: "cron_index (st\<lparr>cron_pairs := ps\<rparr>) = (ps, snd (cron_index st))" for st ps by (simp add: cron_index_def)
  have pairs: "cron_pairs st = fst (cron_index st)" for st by (simp add: cron_index_def)
  show "cron_index (cron_reconfigure a s o1 r es) = ix_reconfigure (cron_index s) o1 r es"
    by (simp add: cron_reconfigure_def ix_reconfigure_def Let_def cron_index_adds set_pairs cron_index_cancel pairs)
  show "cron_getEntry s o1 r w t = ix_get (cron_index s) o1 r w t" if "ix_ok (cron_index s)"
    unfolding cron_getEntry_def pairs by (rule ix_get_entries [OF that]) (simp add: cron_index_def)
qed

section \<open>Invariant\<close>

abbreviation desc :: "cron_source \<Rightarrow> nat \<Rightarrow> trigger_descriptor" where
  "desc st i \<equiv> te_descriptor (cs_entry (cron_srcs st ! i))"

abbreviation handle :: "cron_source \<Rightarrow> nat \<Rightarrow> nat option" where
  "handle st i \<equiv> cs_timer (cron_srcs st ! i)"

definition schedulable :: "next_date \<Rightarrow> trigger_descriptor \<Rightarrow> bool" where
  "schedulable nd d \<longleftrightarrow> (\<forall>now. nd d now \<noteq> None)"

definition timer_ok :: "next_date \<Rightarrow> cron_source \<Rightarrow> nat \<Rightarrow> cron_timer \<Rightarrow> bool" where
  "timer_ok nd st tid t \<longleftrightarrow>
     tid < cron_next st \<and> tm_src t < length (cron_srcs st) \<and> handle st (tm_src t) = Some tid \<and>
     is_current st (tm_src t) \<and>
     (tm_clamped t \<or> (\<exists>n. nd (desc st (tm_src t)) (tm_armed t) = Some n \<and> n \<le> tm_due t))"

definition timers_ok :: "next_date \<Rightarrow> cron_source \<Rightarrow> bool" where
  "timers_ok nd st \<longleftrightarrow> (\<forall>tid t. map_get (cron_timers st) tid = Some t \<longrightarrow> timer_ok nd st tid t)"

definition handles_ok :: "cron_source \<Rightarrow> bool" where
  "handles_ok st \<longleftrightarrow> (\<forall>i tid. i < length (cron_srcs st) \<longrightarrow> handle st i = Some tid \<longrightarrow>
     (\<exists>t. map_get (cron_timers st) tid = Some t \<and> tm_src t = i))"

definition inflight_ok :: "cron_source \<Rightarrow> bool" where
  "inflight_ok st \<longleftrightarrow> distinct (cron_inflight st) \<and>
     (\<forall>i \<in> set (cron_inflight st). i < length (cron_srcs st) \<and> handle st i = None)"

definition armed_ok :: "next_date \<Rightarrow> nat set \<Rightarrow> cron_source \<Rightarrow> bool" where
  "armed_ok nd X st \<longleftrightarrow> (\<forall>i < length (cron_srcs st). is_current st i \<longrightarrow> i \<notin> X \<longrightarrow>
     schedulable nd (desc st i) \<longrightarrow> handle st i \<noteq> None \<or> i \<in> set (cron_inflight st))"

definition fired_ok :: "next_date \<Rightarrow> cron_source \<Rightarrow> bool" where
  "fired_ok nd st \<longleftrightarrow> (\<forall>(t, at) \<in> set (cron_fired st). tm_src t < length (cron_srcs st) \<and>
     (\<exists>n. nd (desc st (tm_src t)) (tm_armed t) = Some n \<and> n \<le> at))"

definition cron_inv :: "next_date \<Rightarrow> nat set \<Rightarrow> cron_source \<Rightarrow> bool" where
  "cron_inv nd X st \<longleftrightarrow> ids_ok st \<and> timers_ok nd st \<and> handles_ok st \<and> inflight_ok st \<and>
     armed_ok nd X st \<and> fired_ok nd st"

lemmas cron_inv_defs = timers_ok_def timer_ok_def handles_ok_def inflight_ok_def armed_ok_def fired_ok_def

lemma is_current_frame [simp]:
  "is_current (set_timer st i t) j = is_current st j"
  "is_current (clear_timer st i) j = is_current st j"
  "is_current (arm nd now st i) j = is_current st j"
  "is_current (st\<lparr>cron_timers := ts\<rparr>) j = is_current st j"
  "is_current (st\<lparr>cron_inflight := xs\<rparr>) j = is_current st j"
  "is_current (st\<lparr>cron_invalid := xs\<rparr>) j = is_current st j"
  "is_current (st\<lparr>cron_fired := fs\<rparr>) j = is_current st j"
  by (simp_all add: is_current_def split: option.split)

lemma ids_ok_same [simp]:
  "ids_ok (set_timer st i t) = ids_ok st" "ids_ok (st\<lparr>cron_timers := ts\<rparr>) = ids_ok st"
  "ids_ok (st\<lparr>cron_invalid := xs\<rparr>) = ids_ok st" "ids_ok (st\<lparr>cron_inflight := xs\<rparr>) = ids_ok st" "ids_ok (st\<lparr>cron_fired := fs\<rparr>) = ids_ok st"
  by (simp_all add: ids_ok_def)

text \<open>Dropping the timer of one entry, as \<open>clearTimeout\<close> and a firing timer both do.\<close>

definition drop_timer :: "cron_source \<Rightarrow> nat \<Rightarrow> nat \<Rightarrow> cron_source" where
  "drop_timer st tid i = set_timer (st\<lparr>cron_timers := map_delete tid (cron_timers st)\<rparr>) i None"

lemma drop_timer_inv:
  assumes inv: "cron_inv nd X st" and i: "i < length (cron_srcs st)" and h: "handle st i = Some tid"
  shows "cron_inv nd (insert i X) (drop_timer st tid i)"
proof -
  have src: "tm_src t = i" if "map_get (cron_timers st) tid = Some t" for t
  proof -
    obtain t' where "map_get (cron_timers st) tid = Some t'" "tm_src t' = i"
      using inv i h by (auto simp: cron_inv_def handles_ok_def)
    with that show ?thesis by simp
  qed
  have other: "tm_src t \<noteq> i" if "map_get (cron_timers st) tid' = Some t" "tid' \<noteq> tid" for tid' t
    using inv that h by (auto simp: cron_inv_def timers_ok_def timer_ok_def)
  have "timers_ok nd (drop_timer st tid i)"
    using inv other by (auto simp: cron_inv_def timers_ok_def timer_ok_def drop_timer_def)
  moreover have "handles_ok (drop_timer st tid i)"
    using inv src by (auto simp: cron_inv_def handles_ok_def drop_timer_def split: if_splits)
  moreover have "inflight_ok (drop_timer st tid i)" "fired_ok nd (drop_timer st tid i)"
    "armed_ok nd (insert i X) (drop_timer st tid i)" "ids_ok (drop_timer st tid i)"
    using inv by (auto simp: cron_inv_def inflight_ok_def fired_ok_def armed_ok_def drop_timer_def)
  ultimately show ?thesis by (simp add: cron_inv_def)
qed

lemma cron_inv_mono: "cron_inv nd X st \<Longrightarrow> X \<subseteq> Y \<Longrightarrow> cron_inv nd Y st"
  unfolding cron_inv_def armed_ok_def by blast

lemma clear_timer_inv:
  assumes "cron_inv nd X st" and "i < length (cron_srcs st)"
  shows "cron_inv nd (insert i X) (clear_timer st i) \<and> handle (clear_timer st i) i = None"
proof (cases "handle st i")
  case None
  with assms show ?thesis by (auto simp: clear_timer_def intro: cron_inv_mono)
next
  case (Some tid)
  with drop_timer_inv [OF assms Some] assms(2) show ?thesis
    by (simp add: clear_timer_def drop_timer_def)
qed

lemma clear_timer_keeps_None: "handle st j = None \<Longrightarrow> handle (clear_timer st i) j = None"
  by (simp add: clear_timer_def split: option.split)

lemma clear_all_keeps_None: "handle st j = None \<Longrightarrow> handle (foldl clear_timer st is) j = None"
  by (induction "is" arbitrary: st) (simp_all add: clear_timer_keeps_None)

lemma clear_all_inv:
  assumes "cron_inv nd X st" and "\<forall>i \<in> set is. i < length (cron_srcs st)"
  shows "cron_inv nd (X \<union> set is) (foldl clear_timer st is) \<and>
    (\<forall>i \<in> set is. handle (foldl clear_timer st is) i = None)"
  using assms
proof (induction "is" arbitrary: st X)
  case (Cons i "is")
  then have "cron_inv nd (insert i X) (clear_timer st i)" "handle (clear_timer st i) i = None"
    using clear_timer_inv by auto
  with Cons.IH [of "insert i X" "clear_timer st i"] Cons.prems(2) clear_all_keeps_None
  show ?case by auto
qed simp

lemma arm_inv:
  assumes inv: "cron_inv nd X st" and i: "i < length (cron_srcs st)" "is_current st i"
    "handle st i = None" "i \<notin> set (cron_inflight st)"
  shows "cron_inv nd (X - {i}) (arm nd now st i)"
proof (cases "computeNextDelay nd (desc st i) now")
  case None
  then have "\<not> schedulable nd (desc st i)"
    by (auto simp: computeNextDelay_def schedulable_def)
  with inv None show ?thesis
    by (auto simp: arm_def cron_inv_def cron_inv_defs)
next
  case (Some delay)
  then obtain n where n: "nd (desc st i) now = Some n" "delay = max (n - now) 1"
    by (auto simp: computeNextDelay_def)
  have fresh: "map_get (cron_timers st) (cron_next st) = None"
    using inv by (cases "map_get (cron_timers st) (cron_next st)")
      (auto simp: cron_inv_def timers_ok_def timer_ok_def)
  have other: "tm_src t \<noteq> i" if "map_get (cron_timers st) tid = Some t" for tid t
    using inv that i(3) by (auto simp: cron_inv_def timers_ok_def timer_ok_def)
  let ?st = "arm nd now st i"
  have ts: "map_get (cron_timers ?st) k = (if k = cron_next st then
      Some \<lparr>tm_src = i, tm_armed = now, tm_due = now + min delay MAX_TIMEOUT_MS,
        tm_clamped = (min delay MAX_TIMEOUT_MS < delay)\<rparr> else map_get (cron_timers st) k)" for k
    using Some by (simp add: arm_def Let_def)
  have hs: "handle ?st j = (if j = i then Some (cron_next st) else handle st j)" "cron_next ?st = Suc (cron_next st)" for j
    using Some i(1) by (simp_all add: arm_def Let_def)
  have due: "min delay MAX_TIMEOUT_MS < delay \<or> n \<le> now + min delay MAX_TIMEOUT_MS"
    using n(2) by (auto simp: min_def max_def)
  have "timers_ok nd ?st"
    using inv i(1,2) other due n(1) by (fastforce simp: cron_inv_def timers_ok_def timer_ok_def ts hs)
  moreover have "handles_ok ?st"
    using inv fresh by (auto simp: cron_inv_def handles_ok_def ts hs)
  moreover have "inflight_ok ?st" "fired_ok nd ?st" "armed_ok nd (X - {i}) ?st" "ids_ok ?st"
    using inv i(4) by (auto simp: cron_inv_def inflight_ok_def fired_ok_def armed_ok_def hs intro: ids_ok_arm)
  ultimately show ?thesis by (simp add: cron_inv_def)
qed

section \<open>Every operation keeps the invariant\<close>

lemma inflight_no_timer:
  "cron_inv nd X st \<Longrightarrow> handle st i = Some tid \<Longrightarrow> i \<notin> set (cron_inflight st)"
  by (auto simp: cron_inv_def inflight_ok_def)

lemma onFire_inv:
  assumes inv: "cron_inv nd {} st" and t: "map_get (cron_timers st) tid = Some t" "tm_due t \<le> now"
  shows "cron_inv nd {} (onFire nd now st tid)"
proof -
  let ?i = "tm_src t" and ?st1 = "drop_timer st tid (tm_src t)"
  have ok: "timer_ok nd st tid t" using inv t(1) by (simp add: cron_inv_def timers_ok_def)
  then have i: "?i < length (cron_srcs st)" "handle st ?i = Some tid" "is_current st ?i"
    by (simp_all add: timer_ok_def)
  have inv1: "cron_inv nd {?i} ?st1" using drop_timer_inv [OF inv i(1,2)] by simp
  have st1: "length (cron_srcs ?st1) = length (cron_srcs st)" "is_current ?st1 ?i" "handle ?st1 ?i = None"
    "?i \<notin> set (cron_inflight ?st1)"
    using i inflight_no_timer [OF inv i(2)] by (simp_all add: drop_timer_def)
  have on: "onFire nd now st tid = (if tm_clamped t then arm nd now ?st1 ?i
      else ?st1\<lparr>cron_inflight := cron_inflight ?st1 @ [?i], cron_fired := cron_fired ?st1 @ [(t, now)]\<rparr>)"
    using t(1) by (simp add: onFire_def drop_timer_def Let_def)
  show ?thesis
  proof (cases "tm_clamped t")
    case True
    with on arm_inv [OF inv1, of ?i now] st1 i(1) show ?thesis by simp
  next
    case False
    with ok t(2) obtain n where n: "nd (desc st ?i) (tm_armed t) = Some n" "n \<le> now"
      by (auto simp: timer_ok_def intro: le_trans)
    moreover have "desc ?st1 ?i = desc st ?i" by (simp add: drop_timer_def)
    ultimately show ?thesis
      using on False inv1 st1 i(1) by (auto simp: cron_inv_def cron_inv_defs)
  qed
qed

lemma onFire_settled_inv:
  assumes inv: "cron_inv nd {} st" and i: "i \<in> set (cron_inflight st)"
  shows "cron_inv nd {} (onFire_settled nd now st i)"
proof -
  let ?st1 = "st\<lparr>cron_inflight := remove1 i (cron_inflight st)\<rparr>"
  have inv1: "cron_inv nd {i} ?st1" and st1: "i < length (cron_srcs st)" "handle st i = None"
    "i \<notin> set (remove1 i (cron_inflight st))"
    using inv i by (auto simp: cron_inv_def cron_inv_defs)
  show ?thesis
  proof (cases "is_current ?st1 i")
    case True
    with arm_inv [OF inv1, of i now] st1 show ?thesis by (simp add: onFire_settled_def Let_def)
  next
    case False
    have "ia \<noteq> i" if "is_current st ia" for ia using that False by auto
    then have "armed_ok nd {} ?st1" using inv by (auto simp: cron_inv_def armed_ok_def in_set_remove1)
    with inv1 False show ?thesis by (simp add: onFire_settled_def Let_def cron_inv_def)
  qed
qed

text \<open>Dropping a pair whose timers are cleared.\<close>

lemma restrict_inv:
  assumes inv: "cron_inv nd X st"
    and st': "st' = st\<lparr>cron_pairs := ps\<rparr>" "ids_ok st'"
    and cur: "\<And>i. is_current st' i \<longleftrightarrow> is_current st i \<and> i \<notin> D"
    and clear: "\<And>i. i < length (cron_srcs st) \<Longrightarrow> is_current st i \<Longrightarrow> i \<in> D \<Longrightarrow> handle st i = None"
    and sub: "X \<subseteq> D"
  shows "cron_inv nd {} st'"
proof -
  have "timer_ok nd st' tid t" if "map_get (cron_timers st) tid = Some t" for tid t
  proof -
    have t: "timer_ok nd st tid t" using inv that by (simp add: cron_inv_def timers_ok_def)
    then have "tm_src t \<notin> D" using clear [of "tm_src t"] by (auto simp: timer_ok_def)
    with t show ?thesis unfolding timer_ok_def cur by (simp add: st'(1))
  qed
  then have "timers_ok nd st'" by (simp add: timers_ok_def st'(1))
  moreover have "handles_ok st'" "inflight_ok st'" "fired_ok nd st'"
    using inv by (auto simp: cron_inv_def handles_ok_def inflight_ok_def fired_ok_def st'(1))
  moreover have "armed_ok nd {} st'"
    using inv sub unfolding cron_inv_def armed_ok_def cur by (auto simp: st'(1))
  ultimately show ?thesis using st'(2) by (simp add: cron_inv_def)
qed

lemma is_current_pairs:
  "is_current (st\<lparr>cron_pairs := map_delete key (cron_pairs st)\<rparr>) i \<longleftrightarrow>
     is_current st i \<and> src_pair (cron_srcs st ! i) \<noteq> key"
  "is_current (st\<lparr>cron_pairs := map_set key [] (map_delete key (cron_pairs st))\<rparr>) i \<longleftrightarrow>
     is_current st i \<and> src_pair (cron_srcs st ! i) \<noteq> key"
  by (auto simp: is_current_def split: option.split)

lemma cancelPair_inv:
  fixes owner repo :: string
  assumes inv: "cron_inv nd {} st"
  defines "D \<equiv> {i. i < length (cron_srcs st) \<and> src_pair (cron_srcs st ! i) = pairKey owner repo}"
  shows "cron_inv nd D (cancelPair st owner repo) \<and>
    (\<forall>i < length (cron_srcs st). is_current st i \<longrightarrow> i \<in> D \<longrightarrow> handle (cancelPair st owner repo) i = None)"
proof (cases "map_get (cron_pairs st) (pairKey owner repo)")
  case None
  with inv show ?thesis
    by (auto simp: cancelPair_def D_def is_current_def intro: cron_inv_mono)
next
  case (Some pm)
  have ids: "i < length (cron_srcs st) \<and> src_pair (cron_srcs st ! i) = pairKey owner repo" if "i \<in> set (vals pm)" for i
    using ids_okD [OF _ Some] inv that by (fastforce simp: cron_inv_def)
  then have cl: "cron_inv nd (set (vals pm)) (cancelPair st owner repo)"
    "\<forall>i \<in> set (vals pm). handle (cancelPair st owner repo) i = None"
    using clear_all_inv [OF inv, of "vals pm"] Some by (simp_all add: cancelPair_def)
  have sub: "set (vals pm) \<subseteq> D" using ids by (auto simp: D_def)
  have mem: "i \<in> set (vals pm)" if "is_current st i" "i \<in> D" for i
  proof -
    from that Some have "map_get pm (src_key (cron_srcs st ! i)) = Some i" by (simp add: is_current_def D_def)
    then have "(src_key (cron_srcs st ! i), i) \<in> set pm" by (rule map_of_SomeD)
    then show ?thesis by force
  qed
  from cron_inv_mono [OF cl(1) sub] cl(2) mem show ?thesis by blast
qed

lemma add_entry_inv:
  assumes inv: "cron_inv nd {} st" and pm: "map_get (cron_pairs st) (pairKey owner repo) = Some pm"
    and new: "map_get pm (entry_key e) = None"
  shows "cron_inv nd {} (add_entry nd now owner repo st e)"
proof -
  let ?n = "length (cron_srcs st)"
  let ?st1 = "st\<lparr>cron_srcs := cron_srcs st @ [\<lparr>cs_owner = owner, cs_repo = repo, cs_entry = e, cs_timer = None\<rparr>],
      cron_pairs := map_set (pairKey owner repo) (map_set (entry_key e) ?n pm) (cron_pairs st)\<rparr>"
  have cur: "is_current ?st1 j \<longleftrightarrow> is_current st j" if "j < ?n" for j
    using that pm new by (auto simp: is_current_def nth_append split: option.splits)
  have curn: "is_current ?st1 ?n" by (simp add: is_current_def)
  have low: "i < ?n" if "i \<in> set (cron_inflight st)" for i
    using inv that by (auto simp: cron_inv_def inflight_ok_def)
  have "ids_ok (add_entry nd now owner repo st e)"
    using inv by (simp add: cron_inv_def ids_ok_add_entry)
  then have "ids_ok ?st1"
    by (rule ids_ok_cong) (simp_all add: add_entry_def pm Let_def)
  moreover have "timers_ok nd ?st1"
    using inv cur by (fastforce simp: cron_inv_def timers_ok_def timer_ok_def nth_append)
  moreover have "handles_ok ?st1"
    using inv by (auto simp: cron_inv_def handles_ok_def nth_append less_Suc_eq)
  moreover have "inflight_ok ?st1"
    using inv low by (auto simp: cron_inv_def inflight_ok_def nth_append intro: less_SucI)
  moreover have "fired_ok nd ?st1" using inv by (fastforce simp: cron_inv_def fired_ok_def nth_append)
  moreover have "armed_ok nd {?n} ?st1"
    using inv cur by (auto simp: cron_inv_def armed_ok_def nth_append less_Suc_eq)
  ultimately have "cron_inv nd {?n} ?st1" by (simp add: cron_inv_def)
  from arm_inv [OF this, of ?n now] curn low show ?thesis
    by (auto simp: add_entry_def pm Let_def)
qed

lemma adds_inv:
  assumes "cron_inv nd {} st" and "map_get (cron_pairs st) (pairKey owner repo) = Some pm"
    and "distinct (map entry_key es)" and "\<forall>e \<in> set es. map_get pm (entry_key e) = None"
  shows "cron_inv nd {} (foldl (add_entry nd now owner repo) st es)"
  using assms
proof (induction es arbitrary: st pm)
  case (Cons e es)
  have "cron_inv nd {} (add_entry nd now owner repo st e)"
    using add_entry_inv [OF Cons.prems(1,2)] Cons.prems(4) by simp
  moreover have "map_get (cron_pairs (add_entry nd now owner repo st e)) (pairKey owner repo) =
      Some (map_set (entry_key e) (length (cron_srcs st)) pm)"
    using Cons.prems(2) by (simp add: add_entry_pairs)
  moreover have "\<forall>e' \<in> set es. map_get (map_set (entry_key e) (length (cron_srcs st)) pm) (entry_key e') = None"
    using Cons.prems(3,4) by (simp add: image_iff) metis
  ultimately show ?case using Cons.IH [of "add_entry nd now owner repo st e"] Cons.prems(3) by simp
qed simp

lemma reconfigure_inv:
  assumes inv: "cron_inv nd {} st" and "distinct (map entry_key es)"
  shows "cron_inv nd {} (cron_reconfigure (nd, now) st owner repo es)"
proof -
  let ?key = "pairKey owner repo" and ?c = "cancelPair st owner repo"
  let ?D = "{i. i < length (cron_srcs st) \<and> src_pair (cron_srcs st ! i) = pairKey owner repo}"
  have c: "cron_inv nd ?D ?c" "\<And>i. i < length (cron_srcs st) \<Longrightarrow> is_current st i \<Longrightarrow> i \<in> ?D \<Longrightarrow> handle ?c i = None"
    using cancelPair_inv [OF inv, of owner repo] by blast+
  have cur: "is_current ?c i = is_current st i" for i
    by (simp add: is_current_def split: option.split)
  let ?K = "{i. src_pair (cron_srcs st ! i) = ?key}"
  let ?del = "?c\<lparr>cron_pairs := map_delete ?key (cron_pairs ?c)\<rparr>"
  let ?open = "?c\<lparr>cron_pairs := map_set ?key [] (map_delete ?key (cron_pairs ?c))\<rparr>"
  have ok: "ids_ok ?del" "ids_ok ?open"
    using c(1) ids_ok_delete [of ?c ?key] ids_ok_open [of ?del ?key] by (simp_all add: cron_inv_def)
  have sub: "?D \<subseteq> ?K" by blast
  have clear: "handle ?c i = None" if "i < length (cron_srcs ?c)" "is_current ?c i" "i \<in> ?K" for i
    using that c(2) cur by simp
  have curs: "is_current ?del i \<longleftrightarrow> is_current ?c i \<and> i \<notin> ?K" "is_current ?open i \<longleftrightarrow> is_current ?c i \<and> i \<notin> ?K" for i
    unfolding is_current_pairs by simp_all
  have del: "cron_inv nd {} ?del" by (rule restrict_inv [OF c(1) refl ok(1) curs(1) clear sub])
  have opened: "cron_inv nd {} ?open" by (rule restrict_inv [OF c(1) refl ok(2) curs(2) clear sub])
  show ?thesis
  proof (cases "es = []")
    case True
    with del show ?thesis by (simp add: cron_reconfigure_def Let_def)
  next
    case False
    with adds_inv [OF opened, of owner repo "[]" es now] assms(2) show ?thesis
      by (simp add: cron_reconfigure_def Let_def)
  qed
qed

lemma stop_inv:
  assumes inv: "cron_inv nd {} st"
  shows "cron_inv nd {} (cron_stop st)"
proof -
  let ?is = "concat (map vals (vals (cron_pairs st)))"
  have ids: "i < length (cron_srcs st)" if "i \<in> set ?is" for i
    using inv that unfolding cron_inv_def ids_ok_def by fastforce
  then have c: "cron_inv nd (set ?is) (cancelAll st)" "\<forall>i \<in> set ?is. handle (cancelAll st) i = None"
    using clear_all_inv [OF inv, of ?is] by (auto simp: cancelAll_def)
  have cur: "is_current (cancelAll st) i = is_current st i" for i
    by (simp add: cancelAll_def is_current_def split: option.split)
  have mem: "i \<in> set ?is" if "is_current st i" for i
    using that by (force simp: is_current_def split: option.splits dest!: map_of_SomeD)
  have clear: "handle (cancelAll st) i = None" if "is_current (cancelAll st) i" for i
    using that c(2) mem cur by blast
  have none: "is_current ((cancelAll st)\<lparr>cron_pairs := []\<rparr>) i \<longleftrightarrow> is_current (cancelAll st) i \<and> i \<notin> UNIV" for i
    by (simp add: is_current_def)
  have "ids_ok ((cancelAll st)\<lparr>cron_pairs := []\<rparr>)" by (simp add: ids_ok_def)
  from restrict_inv [OF c(1) refl this none clear] show ?thesis by (simp add: cron_stop_def)
qed

section \<open>Runs of the backend\<close>

text \<open>
  The events of the process: uploads, timers that are due, settled fires, shutdown and the
  clock. The registry hands over entries with distinct (workflow, trigger) keys.
\<close>

inductive cron_step :: "next_date \<Rightarrow> cron_source \<times> nat \<Rightarrow> cron_source \<times> nat \<Rightarrow> bool" for nd where
  cron_upload: "distinct (map entry_key es) \<Longrightarrow>
     cron_step nd (st, now) (cron_reconfigure (nd, now) st owner repo es, now)"
| cron_tick: "map_get (cron_timers st) tid = Some t \<Longrightarrow> tm_due t \<le> now \<Longrightarrow>
     cron_step nd (st, now) (onFire nd now st tid, now)"
| cron_settle: "i \<in> set (cron_inflight st) \<Longrightarrow>
     cron_step nd (st, now) (onFire_settled nd now st i, now)"
| cron_shutdown: "cron_step nd (st, now) (cron_stop st, now)"
| cron_time: "now \<le> now' \<Longrightarrow> cron_step nd (st, now) (st, now')"

abbreviation cron_init :: "cron_source \<times> nat \<Rightarrow> bool" where
  "cron_init x \<equiv> fst x = createCronTriggerSource"

lemma cron_init_inv: "cron_inv nd {} createCronTriggerSource"
  by (simp add: createCronTriggerSource_def cron_inv_def cron_inv_defs ids_ok_def)

interpretation cron_runs: invariant_system cron_init "cron_step nd" "\<lambda>x. cron_inv nd {} (fst x)" for nd
proof unfold_locales
  fix s t
  show "cron_init s \<Longrightarrow> cron_inv nd {} (fst s)" by (simp add: cron_init_inv)
  assume "cron_inv nd {} (fst s)" "cron_step nd s t"
  then show "cron_inv nd {} (fst t)"
    by (auto elim!: cron_step.cases intro: reconfigure_inv onFire_inv onFire_settled_inv stop_inv)
qed

text \<open>
  Cron timers belong to the current uploads: in every reachable state an armed timer is
  the only one of its entry, its entry is the one its (owner, repo) currently holds under
  that name and is not being fired, and conversely every current entry whose schedule
  parses has its timer armed or a fire in progress. Replaced and removed triggers therefore
  never fire again, and current ones are never forgotten.
\<close>

lemma cron_timers_owned:
  assumes "reach cron_init (cron_step nd) (st, now)"
  shows "(\<forall>tid t. map_get (cron_timers st) tid = Some t \<longrightarrow>
      is_current st (tm_src t) \<and> handle st (tm_src t) = Some tid \<and> tm_src t \<notin> set (cron_inflight st)) \<and>
    (\<forall>i < length (cron_srcs st). is_current st i \<longrightarrow> schedulable nd (desc st i) \<longrightarrow>
      (\<exists>tid t. map_get (cron_timers st) tid = Some t \<and> tm_src t = i) \<or> i \<in> set (cron_inflight st))"
proof (intro conjI allI impI)
  have inv: "cron_inv nd {} st" using cron_runs.reach_inv [OF assms] by simp
  fix tid t assume "map_get (cron_timers st) tid = Some t"
  then have t: "timer_ok nd st tid t" using inv by (simp add: cron_inv_def timers_ok_def)
  then show "is_current st (tm_src t)" "handle st (tm_src t) = Some tid" by (simp_all add: timer_ok_def)
  then show "tm_src t \<notin> set (cron_inflight st)" using inflight_no_timer [OF inv] by blast
next
  fix i assume i: "i < length (cron_srcs st)" "is_current st i" "schedulable nd (desc st i)"
  have inv: "cron_inv nd {} st" using cron_runs.reach_inv [OF assms] by simp
  with i have "handle st i \<noteq> None \<or> i \<in> set (cron_inflight st)"
    by (auto simp: cron_inv_def armed_ok_def)
  with inv i(1) show "(\<exists>tid t. map_get (cron_timers st) tid = Some t \<and> tm_src t = i) \<or> i \<in> set (cron_inflight st)"
    unfolding cron_inv_def handles_ok_def by blast
qed

definition hourly :: next_date where
  "hourly d now = Some (now - now mod 3600000 + 3600000)"

definition sample_cron :: trigger_entry where
  "sample_cron =
     \<lparr>te_request = \<lparr>rq_owner = ''acme'', rq_repo = ''site'', rq_workflow = ''w'', rq_sha = ''sha'', rq_dispatch = None\<rparr>,
      te_descriptor = \<lparr>td_name = ''tick'', td_workflowName = ''w'',
        td_config = CronTrigger ''0 * * * *'' ''UTC'', td_inputSchema = JNull, td_outputSchema = JNull\<rparr>,
      te_bundleSource = ''js''\<rparr>"

definition sample_armed :: cron_source where
  "sample_armed = cron_reconfigure (hourly, 0) createCronTriggerSource ''acme'' ''site'' [sample_cron]"

lemma sample_reach: "reach cron_init (cron_step hourly) (sample_armed, 0)"
proof -
  have "reach cron_init (cron_step hourly) (createCronTriggerSource, 0)" by (rule reach_init) simp
  moreover have "cron_step hourly (createCronTriggerSource, 0) (sample_armed, 0)"
    unfolding sample_armed_def by (rule cron_upload) simp
  ultimately show ?thesis by (rule reach_step)
qed

lemma sample_timer:
  "map_get (cron_timers sample_armed) 0 =
     Some \<lparr>tm_src = 0, tm_armed = 0, tm_due = 3600000, tm_clamped = False\<rparr>"
  by (simp add: sample_armed_def cron_reconfigure_def createCronTriggerSource_def cancelPair_def
      add_entry_def arm_def computeNextDelay_def hourly_def MAX_TIMEOUT_MS_def Let_def)

lemma cron_timers_owned_witness:
  "reach cron_init (cron_step hourly) (sample_armed, 0) \<and> is_current sample_armed 0 \<and>
   0 \<notin> set (cron_inflight sample_armed)"
  using cron_timers_owned [OF sample_reach] sample_timer sample_reach by fastforce

text \<open>
  Cron never fires early: every fire, also of a schedule further away than the
  24-hour limit on timers, happens at or after the instant the parser gave for the time
  the last timer was armed.
\<close>

lemma cron_never_early:
  assumes "reach cron_init (cron_step nd) (st, now)"
  shows "list_all (\<lambda>(t, at). case nd (desc st (tm_src t)) (tm_armed t) of
      None \<Rightarrow> False | Some scheduled \<Rightarrow> scheduled \<le> at) (cron_fired st)"
  using cron_runs.reach_inv [OF assms] by (fastforce simp: cron_inv_def fired_ok_def list_all_iff)

lemma cron_never_early_witness:
  "let st = onFire hourly 3600005 sample_armed 0
   in reach cron_init (cron_step hourly) (st, 3600005) \<and> length (cron_fired st) = 1 \<and>
      list_all (\<lambda>(t, at). case hourly (desc st (tm_src t)) (tm_armed t) of
        None \<Rightarrow> False | Some scheduled \<Rightarrow> scheduled \<le> at) (cron_fired st)"
proof -
  have "cron_step hourly (sample_armed, 0) (sample_armed, 3600005)" by (rule cron_time) simp
  with sample_reach have "reach cron_init (cron_step hourly) (sample_armed, 3600005)" by (rule reach_step)
  moreover have "cron_step hourly (sample_armed, 3600005) (onFire hourly 3600005 sample_armed 0, 3600005)"
    by (rule cron_tick [OF sample_timer]) simp
  ultimately have r: "reach cron_init (cron_step hourly) (onFire hourly 3600005 sample_armed 0, 3600005)"
    by (rule reach_step)
  have "length (cron_fired (onFire hourly 3600005 sample_armed 0)) = 1"
    by (simp add: onFire_def sample_timer)
      (simp add: sample_armed_def cron_reconfigure_def createCronTriggerSource_def cancelPair_def add_entry_def Let_def)
  with r cron_never_early [OF r] show ?thesis by simp
qed

text \<open>
  Distinct keys are needed: with two entries of one key (a trigger name is not checked for
  cron and may contain a slash) the first one's timer stays armed although the entry is
  no longer current, and no later upload cancels it.
\<close>

lemma duplicate_key_leaks_timer:
  "let a = sample_cron\<lparr>te_descriptor := (te_descriptor sample_cron)\<lparr>td_workflowName := ''a'', td_name := ''b/c''\<rparr>\<rparr>;
       b = sample_cron\<lparr>te_descriptor := (te_descriptor sample_cron)\<lparr>td_workflowName := ''a/b'', td_name := ''c''\<rparr>\<rparr>;
       st = cron_reconfigure (hourly, 0) createCronTriggerSource ''acme'' ''site'' [a, b]
   in keys (cron_timers (cron_reconfigure (hourly, 0) st ''acme'' ''site'' [])) = [0]"
  by (simp add: sample_cron_def cron_reconfigure_def createCronTriggerSource_def cancelPair_def clear_timer_def
      add_entry_def arm_def set_timer_def computeNextDelay_def hourly_def MAX_TIMEOUT_MS_def triggerKey_def
      pairKey_def Let_def)

end
