(* ===== verification/QueueStore.thy ===== *)
theory QueueStore
  imports Prelude
begin

text \<open>
  Durable per-workflow queues: \<open>packages/runtime/src/queue-store.ts\<close>, the host handlers
  of \<open>queue-host.ts\<close> and the upload and boot lifecycle of \<open>queue-store-lifecycle.ts\<close>.

  The libSQL table \<open>queue_items\<close> is a list of rows with the next value of its
  AUTOINCREMENT column, which is never reused. Each SQL statement is one step. \<open>put\<close>
  issues two statements (a count, then an insert) and other statements may run between
  them; both parts are definitions. Items are stored as JSON text: \<open>JSON.stringify\<close> is
  the argument that yields \<open>None\<close> for \<open>undefined\<close>, \<open>JSON.parse\<close> the argument \<open>parse\<close>.
\<close>

section \<open>The interface of a keyed FIFO\<close>

datatype ('k, 'v) fifo_op = Enq 'k 'v | Deq 'k

fun fifo_spec :: "('k \<Rightarrow> 'v list) \<Rightarrow> ('k, 'v) fifo_op list \<Rightarrow> 'v option list" where
  \<comment> \<open>one list per key; what each dequeue answers\<close>
  "fifo_spec q [] = []"
| "fifo_spec q (Enq k v # ops) = fifo_spec (q(k := q k @ [v])) ops"
| "fifo_spec q (Deq k # ops) =
     (case q k of [] \<Rightarrow> None # fifo_spec q ops | v # vs \<Rightarrow> Some v # fifo_spec (q(k := vs)) ops)"

fun run_fifo ::
  "('s \<Rightarrow> 'k \<Rightarrow> 'v \<Rightarrow> 's) \<Rightarrow> ('s \<Rightarrow> 'k \<Rightarrow> 's \<times> 'v option) \<Rightarrow> 's \<Rightarrow> ('k, 'v) fifo_op list \<Rightarrow> 'v option list" where
  "run_fifo enq deq s [] = []"
| "run_fifo enq deq s (Enq k v # ops) = run_fifo enq deq (enq s k v) ops"
| "run_fifo enq deq s (Deq k # ops) = (case deq s k of (s', v) \<Rightarrow> v # run_fifo enq deq s' ops)"

locale keyed_fifo =
  fixes enq :: "'s \<Rightarrow> 'k \<Rightarrow> 'v \<Rightarrow> 's"
    and deq :: "'s \<Rightarrow> 'k \<Rightarrow> 's \<times> 'v option"
    and view :: "'s \<Rightarrow> 'k \<Rightarrow> 'v list"
    and wf :: "'s \<Rightarrow> bool"
  assumes enq_wf: "wf s \<Longrightarrow> wf (enq s k v)"
    and deq_wf: "wf s \<Longrightarrow> wf (fst (deq s k))"
    and view_enq: "wf s \<Longrightarrow> view (enq s k v) = (view s)(k := view s k @ [v])"
    and view_deq: "wf s \<Longrightarrow> view (fst (deq s k)) = (view s)(k := tl (view s k))"
    and deq_value: "wf s \<Longrightarrow> snd (deq s k) = (case view s k of [] \<Rightarrow> None | v # _ \<Rightarrow> Some v)"
begin

lemma run_refines: "wf s \<Longrightarrow> run_fifo enq deq s ops = fifo_spec (view s) ops"
proof (induction ops arbitrary: s)
  case (Cons x ops)
  show ?case
  proof (cases x)
    case (Enq k v)
    show ?thesis
      unfolding Enq run_fifo.simps fifo_spec.simps view_enq [OF Cons.prems, symmetric]
      by (rule Cons.IH [OF enq_wf [OF Cons.prems]])
  next
    case (Deq k)
    have same: "(view s)(k := []) = view s" if "view s k = []"
      using that by (simp add: fun_upd_idem)
    with Deq Cons.IH [OF deq_wf [OF Cons.prems], of k] view_deq [OF Cons.prems, of k]
      deq_value [OF Cons.prems, of k]
    show ?thesis by (cases "deq s k"; cases "view s k") (simp_all add: fun_upd_def)
  qed
qed simp

end

section \<open>Rows and errors\<close>

record queue_scope =
  q_owner :: string
  q_repo :: string
  q_workflow :: string
  q_queue :: string

record producer_meta =
  pm_enqueuedAt :: string
  pm_invocationId :: string
  pm_triggerKind :: string
  pm_triggerName :: string

record queue_row =
  row_scope :: queue_scope
  row_key :: string
  row_seq :: nat
  row_producer :: producer_meta
  row_item :: string

record queue_store =
  rows :: "queue_row list"
  next_seq :: nat

datatype queue_error_code = ItemTooLarge | KeyTooLarge | QueueFull | SchemaMismatch | Gone | NotDeclared

record 'item queue_error =
  qe_code :: queue_error_code
  qe_message :: string
  qe_item :: "'item option"

definition MAX_ITEM_BYTES :: nat where "MAX_ITEM_BYTES = 1024"

definition MAX_KEY_BYTES :: nat where "MAX_KEY_BYTES = 128"

definition MAX_WORKFLOW_QUEUE_DEPTH :: nat where "MAX_WORKFLOW_QUEUE_DEPTH = 1000"

definition tooLargeError :: "queue_scope \<Rightarrow> nat \<Rightarrow> 'item queue_error" where
  "tooLargeError scope bytes =
     \<lparr>qe_code = ItemTooLarge,
      qe_message = ''queue \"'' @ q_queue scope @ ''\" item exceeds size cap: '' @ show_nat bytes @
        '' > '' @ show_nat MAX_ITEM_BYTES @ '' bytes'',
      qe_item = None\<rparr>"

definition fullError :: "queue_scope \<Rightarrow> nat \<Rightarrow> 'item queue_error" where
  "fullError scope cap =
     \<lparr>qe_code = QueueFull,
      qe_message = ''workflow \"'' @ q_owner scope @ ''/'' @ q_repo scope @ ''/'' @ q_workflow scope @
        ''\" queues are at capacity ('' @ show_nat cap @ '' items total across all queues)'',
      qe_item = None\<rparr>"

section \<open>Statements\<close>

definition same_workflow :: "queue_scope \<Rightarrow> queue_scope \<Rightarrow> bool" where
  "same_workflow a b \<longleftrightarrow>
     q_owner a = q_owner b \<and> q_repo a = q_repo b \<and> q_workflow a = q_workflow b"

definition same_queue :: "queue_scope \<Rightarrow> queue_scope \<Rightarrow> bool" where
  "same_queue a b \<longleftrightarrow> same_workflow a b \<and> q_queue a = q_queue b"

definition queue_count :: "queue_store \<Rightarrow> queue_scope \<Rightarrow> nat" where
  "queue_count st scope = length (filter (\<lambda>r. same_queue (row_scope r) scope) (rows st))"

definition workflowDepth :: "queue_store \<Rightarrow> queue_scope \<Rightarrow> nat" where
  "workflowDepth st scope = length (filter (\<lambda>r. same_workflow (row_scope r) scope) (rows st))"

definition put_check ::
  "nat \<Rightarrow> queue_store \<Rightarrow> queue_scope \<Rightarrow> string option \<Rightarrow> 'item queue_error + string" where
  \<comment> \<open>up to the insert: the text to store\<close>
  "put_check maxWorkflowDepth st scope json =
     (case json of
        None \<Rightarrow> Inl (tooLargeError scope 0)
      | Some text \<Rightarrow>
          if length text > MAX_ITEM_BYTES then Inl (tooLargeError scope (length text))
          else if workflowDepth st scope \<ge> maxWorkflowDepth then Inl (fullError scope maxWorkflowDepth)
          else Inr text)"

definition put_insert ::
  "queue_store \<Rightarrow> queue_scope \<Rightarrow> string \<Rightarrow> string \<Rightarrow> producer_meta \<Rightarrow> queue_store" where
  "put_insert st scope text key producer =
     st\<lparr>rows := rows st @ [\<lparr>row_scope = scope, row_key = key, row_seq = next_seq st,
                            row_producer = producer, row_item = text\<rparr>],
        next_seq := Suc (next_seq st)\<rparr>"

definition put ::
  "('item \<Rightarrow> string option) \<Rightarrow> nat \<Rightarrow> queue_store \<Rightarrow> queue_scope \<Rightarrow> 'item \<Rightarrow> string \<Rightarrow> producer_meta
     \<Rightarrow> 'item queue_error + queue_store" where
  \<comment> \<open>with no other statement in between\<close>
  "put stringify maxWorkflowDepth st scope item key producer =
     (case put_check maxWorkflowDepth st scope (stringify item) of
        Inl err \<Rightarrow> Inl err
      | Inr text \<Rightarrow> Inr (put_insert st scope text key producer))"

definition min_seq :: "queue_store \<Rightarrow> queue_scope \<Rightarrow> string \<Rightarrow> nat option" where
  \<comment> \<open>\<open>SELECT MIN(seq) ... WHERE tenant AND key\<close>\<close>
  "min_seq st scope key =
     (case map row_seq (filter (\<lambda>r. same_queue (row_scope r) scope \<and> row_key r = key) (rows st)) of
        [] \<Rightarrow> None
      | n # ns \<Rightarrow> Some (fold min ns n))"

definition get :: "queue_store \<Rightarrow> queue_scope \<Rightarrow> string \<Rightarrow> queue_store \<times> queue_row option" where
  \<comment> \<open>\<open>DELETE ... AND seq = (SELECT MIN(seq) ...) RETURNING ...\<close>\<close>
  "get st scope key =
     (let hit = (\<lambda>r. same_queue (row_scope r) scope \<and> row_key r = key \<and>
                     Some (row_seq r) = min_seq st scope key)
      in (st\<lparr>rows := filter (\<lambda>r. \<not> hit r) (rows st)\<rparr>,
          case filter hit (rows st) of [] \<Rightarrow> None | r # _ \<Rightarrow> Some r))"

definition list_items :: "queue_store \<Rightarrow> queue_scope \<Rightarrow> nat \<Rightarrow> nat \<Rightarrow> queue_row list" where
  "list_items st scope offset limit =
     take limit (drop offset
       (sort_key row_seq (filter (\<lambda>r. same_queue (row_scope r) scope) (rows st))))"

definition removeDeclaration ::
  "queue_store \<Rightarrow> string \<Rightarrow> string \<Rightarrow> string \<Rightarrow> string option \<Rightarrow> queue_store \<times> nat" where
  "removeDeclaration st owner repo workflow queue =
     (let hit = (\<lambda>r. q_owner (row_scope r) = owner \<and> q_repo (row_scope r) = repo \<and>
                     q_workflow (row_scope r) = workflow \<and>
                     (case queue of None \<Rightarrow> True | Some q \<Rightarrow> q_queue (row_scope r) = q))
      in (st\<lparr>rows := filter (\<lambda>r. \<not> hit r) (rows st)\<rparr>, length (filter hit (rows st))))"

definition tupleKey :: "queue_scope \<Rightarrow> string" where
  "tupleKey t = q_owner t @ '' '' @ q_repo t @ '' '' @ q_workflow t @ '' '' @ q_queue t"

definition orphans_of :: "queue_store \<Rightarrow> queue_scope list \<Rightarrow> queue_scope list" where
  "orphans_of st declaredTuples =
     filter (\<lambda>p. tupleKey p \<notin> set (map tupleKey declaredTuples)) (remdups (map row_scope (rows st)))"

fun remove_all :: "queue_store \<Rightarrow> queue_scope list \<Rightarrow> queue_store \<times> nat" where
  "remove_all st [] = (st, 0)"
| "remove_all st (o1 # os) =
     (case removeDeclaration st (q_owner o1) (q_repo o1) (q_workflow o1) (Some (q_queue o1)) of (st', n) \<Rightarrow>
        (case remove_all st' os of (st'', m) \<Rightarrow> (st'', n + m)))"

definition reconcile :: "queue_store \<Rightarrow> queue_scope list \<Rightarrow> queue_store \<times> nat" where
  "reconcile st declaredTuples =
     (let orphans = orphans_of st declaredTuples
      in if orphans = [] then (st, 0) else remove_all st orphans)"

section \<open>Host handlers\<close>

record 'item queue_host =
  h_owner :: string
  h_workflow :: string
  h_validators :: "(string, 'item \<Rightarrow> 'item option) jsmap"

definition host_scope :: "'item queue_host \<Rightarrow> string \<Rightarrow> string \<Rightarrow> queue_scope" where
  "host_scope h repo queue =
     \<lparr>q_owner = h_owner h, q_repo = repo, q_workflow = h_workflow h, q_queue = queue\<rparr>"

definition assertKeyWithinCap :: "string \<Rightarrow> string \<Rightarrow> 'item queue_error option" where
  "assertKeyWithinCap queue key =
     (if length key > MAX_KEY_BYTES
      then Some \<lparr>qe_code = KeyTooLarge,
        qe_message = ''queue \"'' @ queue @ ''\" key exceeds size cap: '' @ show_nat (length key) @
          '' > '' @ show_nat MAX_KEY_BYTES @ '' bytes'', qe_item = None\<rparr>
      else None)"

definition putHandler ::
  "'item queue_host \<Rightarrow> ('item \<Rightarrow> string option) \<Rightarrow> nat \<Rightarrow> queue_store \<Rightarrow> string \<Rightarrow> string \<Rightarrow> 'item \<Rightarrow> string
     \<Rightarrow> producer_meta \<Rightarrow> 'item queue_error + queue_store" where
  "putHandler h stringify maxDepth st repo queue item key producer =
     (case assertKeyWithinCap queue key of
        Some err \<Rightarrow> Inl err
      | None \<Rightarrow>
          let data = (case map_get (h_validators h) queue of None \<Rightarrow> Some item | Some validator \<Rightarrow> validator item)
          in (case data of
                None \<Rightarrow> Inl \<lparr>qe_code = SchemaMismatch,
                  qe_message = ''queue \"'' @ queue @ ''\" put: schema validation failed'', qe_item = None\<rparr>
              | Some d \<Rightarrow> put stringify maxDepth st (host_scope h repo queue) d key producer))"

definition getHandler ::
  "'item queue_host \<Rightarrow> (string \<Rightarrow> 'item) \<Rightarrow> queue_store \<Rightarrow> string \<Rightarrow> string \<Rightarrow> string
     \<Rightarrow> queue_store \<times> ('item queue_error + 'item option)" where
  \<comment> \<open>the row is gone whatever the validation says\<close>
  "getHandler h parse st repo queue key =
     (case assertKeyWithinCap queue key of
        Some err \<Rightarrow> (st, Inl err)
      | None \<Rightarrow>
          (case get st (host_scope h repo queue) key of (st', popped) \<Rightarrow>
             (st', case popped of
                     None \<Rightarrow> Inr None
                   | Some r \<Rightarrow>
                       let item = parse (row_item r)
                       in (case map_get (h_validators h) queue of
                             None \<Rightarrow> Inr (Some item)
                           | Some validator \<Rightarrow>
                               (case validator item of
                                  None \<Rightarrow> Inl \<lparr>qe_code = SchemaMismatch,
                                    qe_message = ''queue \"'' @ queue @
                                      ''\" get: popped item failed schema validation'',
                                    qe_item = Some item\<rparr>
                                | Some d \<Rightarrow> Inr (Some d))))))"

section \<open>Manifest changes\<close>

type_synonym workflow_queues = "(string, string list) jsmap"

definition removedWorkflows :: "workflow_queues \<Rightarrow> workflow_queues \<Rightarrow> string list" where
  "removedWorkflows old_wfs new_wfs = filter (\<lambda>n. \<not> map_has new_wfs n) (keys old_wfs)"

definition removed_queues :: "string list \<Rightarrow> string list \<Rightarrow> string list" where
  "removed_queues oldQ newQ = filter (\<lambda>q. q \<notin> set newQ) (remdups oldQ)"

definition perWorkflow :: "workflow_queues \<Rightarrow> workflow_queues \<Rightarrow> (string \<times> string list) list" where
  "perWorkflow old_wfs new_wfs =
     filter (\<lambda>d. snd d \<noteq> [])
       (concat (map (\<lambda>(n, newQ).
          case map_get old_wfs n of
            None \<Rightarrow> []
          | Some oldQ \<Rightarrow> [(n, removed_queues oldQ newQ)]) new_wfs))"

definition diffManifests ::
  "workflow_queues \<Rightarrow> workflow_queues \<Rightarrow> string list \<times> (string \<times> string list) list" where
  "diffManifests old_wfs new_wfs = (removedWorkflows old_wfs new_wfs, perWorkflow old_wfs new_wfs)"

definition applyQueueDiffViaStore ::
  "queue_store \<Rightarrow> string \<Rightarrow> string \<Rightarrow> string list \<times> (string \<times> string list) list \<Rightarrow> queue_store" where
  "applyQueueDiffViaStore st owner repo diff =
     foldl (\<lambda>s (w, q). fst (removeDeclaration s owner repo w q)) st
       (map (\<lambda>w. (w, None)) (fst diff) @
        concat (map (\<lambda>(w, qs). map (\<lambda>q. (w, Some q)) qs) (snd diff)))"

definition declared_tuples ::
  "(string, (string, workflow_queues) jsmap) jsmap \<Rightarrow> queue_scope list" where
  "declared_tuples loaded =
     concat (map (\<lambda>(owner, repos). concat (map (\<lambda>(repo, wfs). concat (map (\<lambda>(w, qs).
       map (\<lambda>q. \<lparr>q_owner = owner, q_repo = repo, q_workflow = w, q_queue = q\<rparr>) qs) wfs)) repos)) loaded)"

definition reconcileQueueStoreOnBoot ::
  "queue_store \<Rightarrow> (string, (string, workflow_queues) jsmap) jsmap \<Rightarrow> queue_store \<times> nat" where
  "reconcileQueueStoreOnBoot st loaded = reconcile st (declared_tuples loaded)"

section \<open>The table as a keyed FIFO\<close>

definition createQueueStore :: queue_store where
  \<comment> \<open>the empty table; AUTOINCREMENT starts at 1\<close>
  "createQueueStore = \<lparr>rows = [], next_seq = 1\<rparr>"

definition in_partition :: "queue_scope \<Rightarrow> string \<Rightarrow> queue_row \<Rightarrow> bool" where
  "in_partition scope key r \<longleftrightarrow> same_queue (row_scope r) scope \<and> row_key r = key"

definition table_wf :: "queue_store \<Rightarrow> bool" where
  "table_wf st \<longleftrightarrow> sorted_wrt (<) (map row_seq (rows st)) \<and> (\<forall>r \<in> set (rows st). row_seq r < next_seq st)"

definition enq_row :: "queue_store \<Rightarrow> queue_scope \<times> string \<Rightarrow> string \<times> producer_meta \<Rightarrow> queue_store" where
  "enq_row st k v = put_insert st (fst k) (fst v) (snd k) (snd v)"

definition deq_row ::
  "queue_store \<Rightarrow> queue_scope \<times> string \<Rightarrow> queue_store \<times> (string \<times> producer_meta) option" where
  "deq_row st k =
     (case get st (fst k) (snd k) of (st', r) \<Rightarrow> (st', map_option (\<lambda>r. (row_item r, row_producer r)) r))"

definition partition_view :: "queue_store \<Rightarrow> queue_scope \<times> string \<Rightarrow> (string \<times> producer_meta) list" where
  "partition_view st k =
     map (\<lambda>r. (row_item r, row_producer r)) (filter (in_partition (fst k) (snd k)) (rows st))"

lemma same_queue_eq: "same_queue a b \<longleftrightarrow> a = b"
  by (cases a; cases b) (auto simp: same_queue_def same_workflow_def)

lemma fold_min_least: "list_all (\<lambda>x. n \<le> x) ns \<Longrightarrow> fold min ns n = (n :: nat)"
  by (induction ns) (auto simp: min_def)

lemma filter_sorted_first:
  assumes "sorted_wrt (<) (map f xs)" and "filter P xs = y # ys"
  shows "list_all (\<lambda>x. (f y :: nat) < f x) ys"
proof -
  have "sorted_wrt (\<lambda>a b. f a < f b) (filter P xs)"
    using assms(1) by (simp add: sorted_wrt_map sorted_wrt_filter)
  then show ?thesis using assms(2) by (simp add: list_all_iff)
qed

lemma min_seq_first:
  assumes "table_wf st" and "filter (in_partition scope key) (rows st) = y # ys"
  shows "min_seq st scope key = Some (row_seq y)"
proof -
  have "list_all (\<lambda>x. row_seq y \<le> x) (map row_seq ys)"
    using filter_sorted_first [of row_seq "rows st"] assms
    by (fastforce simp: table_wf_def list_all_iff)
  then show ?thesis
    using assms(2) by (simp add: min_seq_def in_partition_def [abs_def] fold_min_least)
qed

lemma get_first:
  assumes "table_wf st"
  shows "get st scope key =
    (case filter (in_partition scope key) (rows st) of
       [] \<Rightarrow> (st, None)
     | r # _ \<Rightarrow> (st\<lparr>rows := filter (\<lambda>x. row_seq x \<noteq> row_seq r) (rows st)\<rparr>, Some r))"
proof (cases "filter (in_partition scope key) (rows st)")
  case Nil
  then have none: "\<not> in_partition scope key r" if "r \<in> set (rows st)" for r
    using that by (simp add: filter_empty_conv)
  then have "filter (\<lambda>r. in_partition scope key r \<and> Q r) (rows st) = []"
    "filter (\<lambda>r. \<not> (in_partition scope key r \<and> Q r)) (rows st) = rows st" for Q
    by (auto simp: filter_empty_conv filter_id_conv)
  with Nil show ?thesis by (simp add: get_def in_partition_def [symmetric] conj_assoc [symmetric])
next
  case (Cons y ys)
  have y: "y \<in> set (rows st)" "in_partition scope key y"
    using arg_cong [OF Cons, of set] by auto
  have inj: "inj_on row_seq (set (rows st))"
    using assms by (auto simp: table_wf_def strict_sorted_iff distinct_map)
  have hit: "in_partition scope key x \<and> Some (row_seq x) = min_seq st scope key \<longleftrightarrow> row_seq x = row_seq y"
    if "x \<in> set (rows st)" for x
    using that y inj min_seq_first [OF assms Cons] by (auto dest: inj_onD)
  have one: "filter (\<lambda>x. row_seq x = row_seq y) ys = []"
    using filter_sorted_first [of row_seq "rows st", OF _ Cons] assms
    by (auto simp: table_wf_def list_all_iff filter_empty_conv)
  have "filter (\<lambda>x. row_seq x = row_seq y) (rows st) =
      filter (\<lambda>x. row_seq x = row_seq y) (filter (in_partition scope key) (rows st))"
    unfolding filter_filter using y inj by (intro filter_cong) (auto dest: inj_onD)
  also have "\<dots> = [y]" using Cons one by simp
  finally have "filter (\<lambda>x. row_seq x = row_seq y) (rows st) = [y]" .
  with Cons show ?thesis
    by (simp add: get_def in_partition_def [symmetric] conj_assoc [symmetric] hit cong: filter_cong)
qed

lemma table_wf_init: "table_wf createQueueStore"
  by (simp add: table_wf_def createQueueStore_def)

lemma table_wf_put: "table_wf st \<Longrightarrow> table_wf (put_insert st scope text key producer)"
  by (auto simp: table_wf_def put_insert_def sorted_wrt_append)

lemma table_wf_filter: "table_wf st \<Longrightarrow> table_wf (st\<lparr>rows := filter P (rows st)\<rparr>)"
  by (auto simp: table_wf_def sorted_wrt_map sorted_wrt_filter)

lemma table_wf_get: "table_wf st \<Longrightarrow> table_wf (fst (get st scope key))"
  by (simp add: get_def table_wf_filter)

lemma partition_get:
  assumes "table_wf st"
  shows "filter (in_partition scope' key') (rows (fst (get st scope key))) =
    (if (scope', key') = (scope, key) then tl (filter (in_partition scope key) (rows st))
     else filter (in_partition scope' key') (rows st))"
proof (cases "filter (in_partition scope key) (rows st)")
  case Nil
  then show ?thesis by (simp add: get_first assms)
next
  case (Cons y ys)
  have y: "y \<in> set (rows st)" "in_partition scope key y"
    using arg_cong [OF Cons, of set] by auto
  have inj: "inj_on row_seq (set (rows st))"
    using assms by (auto simp: table_wf_def strict_sorted_iff distinct_map)
  have rest: "filter (\<lambda>x. row_seq x \<noteq> row_seq y) ys = ys"
    using filter_sorted_first [of row_seq "rows st", OF _ Cons] assms
    by (auto simp: table_wf_def list_all_iff filter_id_conv)
  have rows': "rows (fst (get st scope key)) = filter (\<lambda>x. row_seq x \<noteq> row_seq y) (rows st)"
    using Cons by (simp add: get_first assms)
  show ?thesis
  proof (cases "(scope', key') = (scope, key)")
    case True
    have "filter (in_partition scope key) (filter (\<lambda>x. row_seq x \<noteq> row_seq y) (rows st)) =
        filter (\<lambda>x. row_seq x \<noteq> row_seq y) (filter (in_partition scope key) (rows st))"
      by (simp add: conj_commute)
    with True Cons rest rows' show ?thesis by simp
  next
    case False
    then have other: "row_seq x \<noteq> row_seq y" if "x \<in> set (rows st)" "in_partition scope' key' x" for x
      using that y inj by (auto simp: in_partition_def same_queue_eq dest: inj_onD)
    then have "filter (in_partition scope' key') (filter (\<lambda>x. row_seq x \<noteq> row_seq y) (rows st)) =
        filter (in_partition scope' key') (rows st)"
      unfolding filter_filter by (intro filter_cong) auto
    with False rows' show ?thesis by auto
  qed
qed

interpretation queue_table: keyed_fifo enq_row deq_row partition_view table_wf
proof unfold_locales
  fix st k and v :: "string \<times> producer_meta"
  show "table_wf st \<Longrightarrow> table_wf (enq_row st k v)"
    by (simp add: enq_row_def table_wf_put)
  show "table_wf st \<Longrightarrow> table_wf (fst (deq_row st k))"
    using table_wf_get by (simp add: deq_row_def split: prod.splits) (metis fst_conv)
  show "partition_view (enq_row st k v) = (partition_view st)(k := partition_view st k @ [v])"
    by (cases k; cases v) (auto simp: fun_eq_iff partition_view_def enq_row_def put_insert_def in_partition_def same_queue_eq)
  assume wf: "table_wf st"
  have "rows (fst (deq_row st k)) = rows (fst (get st (fst k) (snd k)))"
    by (simp add: deq_row_def split: prod.splits)
  then show "partition_view (fst (deq_row st k)) = (partition_view st)(k := tl (partition_view st k))"
    using partition_get [OF wf] by (auto simp: fun_eq_iff partition_view_def map_tl)
  show "snd (deq_row st k) = (case partition_view st k of [] \<Rightarrow> None | v # _ \<Rightarrow> Some v)"
    by (simp add: deq_row_def partition_view_def get_first wf split: list.splits)
qed

section \<open>Properties of the store\<close>

text \<open>
  \<^bold>\<open>C12\<close>. The queue table refines one FIFO list per (owner, repo, workflow, queue, key): any
  interleaving of inserts and \<open>get\<close> statements, on any mix of tenants, queues and keys,
  answers each \<open>get\<close> as the abstract queues do: the oldest item of that partition still
  stored, with its producer metadata, or nothing.
\<close>

theorem queue_refines_fifo:
  "run_fifo
     (\<lambda>st (scope, key) (text, producer). put_insert st scope text key producer)
     (\<lambda>st (scope, key). case get st scope key of (st', r) \<Rightarrow>
        (st', map_option (\<lambda>r. (row_item r, row_producer r)) r))
     createQueueStore ops =
   fifo_spec (\<lambda>_. []) ops"
proof -
  have "enq_row = (\<lambda>st (scope, key) (text, producer). put_insert st scope text key producer)"
    by (auto simp: fun_eq_iff enq_row_def)
  moreover have "deq_row = (\<lambda>st (scope, key). case get st scope key of (st', r) \<Rightarrow>
        (st', map_option (\<lambda>r. (row_item r, row_producer r)) r))"
    by (auto simp: fun_eq_iff deq_row_def)
  moreover have "partition_view createQueueStore = (\<lambda>_. [])"
    by (simp add: fun_eq_iff partition_view_def createQueueStore_def)
  ultimately show ?thesis using queue_table.run_refines [OF table_wf_init, of ops] by simp
qed

text \<open>Guests reach the table only through the two handlers; one call of either is a step.\<close>

datatype 'item host_op =
    HostPut "'item queue_host" string string 'item string producer_meta
  | HostGet "'item queue_host" string string string

fun host_step ::
  "('item \<Rightarrow> string option) \<Rightarrow> (string \<Rightarrow> 'item) \<Rightarrow> queue_store \<Rightarrow> 'item host_op \<Rightarrow> queue_store" where
  "host_step stringify parse st (HostPut h repo queue item key producer) =
     (case putHandler h stringify MAX_WORKFLOW_QUEUE_DEPTH st repo queue item key producer of
        Inl err \<Rightarrow> st | Inr st' \<Rightarrow> st')"
| "host_step stringify parse st (HostGet h repo queue key) = fst (getHandler h parse st repo queue key)"

definition own_row :: "'item queue_host \<Rightarrow> string \<Rightarrow> queue_row \<Rightarrow> bool" where
  "own_row h repo r \<longleftrightarrow> same_workflow (row_scope r) (host_scope h repo [])"

definition own_rows :: "'item queue_host \<Rightarrow> string \<Rightarrow> queue_store \<Rightarrow> queue_store" where
  "own_rows h repo st = st\<lparr>rows := filter (own_row h repo) (rows st)\<rparr>"

lemma same_queue_own: "same_queue (row_scope r) (host_scope h repo queue) \<Longrightarrow> own_row h repo r"
  by (simp add: same_queue_eq own_row_def same_workflow_def host_scope_def)

lemma min_seq_own: "min_seq (own_rows h repo st) (host_scope h repo queue) key =
    min_seq st (host_scope h repo queue) key"
proof -
  have "(\<lambda>r. own_row h repo r \<and> same_queue (row_scope r) (host_scope h repo queue) \<and> row_key r = key) =
      (\<lambda>r. same_queue (row_scope r) (host_scope h repo queue) \<and> row_key r = key)"
    using same_queue_own by fastforce
  then show ?thesis by (simp add: min_seq_def own_rows_def conj_commute)
qed

lemma get_own: "snd (get (own_rows h repo st) (host_scope h repo queue) key) =
    snd (get st (host_scope h repo queue) key)"
proof -
  let ?s = "host_scope h repo queue"
  have "(\<lambda>r. own_row h repo r \<and> same_queue (row_scope r) ?s \<and> row_key r = key \<and> Some (row_seq r) = m) =
      (\<lambda>r. same_queue (row_scope r) ?s \<and> row_key r = key \<and> Some (row_seq r) = m)" for m
    using same_queue_own by fastforce
  then show ?thesis
    by (simp add: get_def min_seq_own) (simp add: own_rows_def conj_commute)
qed

lemma get_keeps_foreign:
  "filter (\<lambda>r. \<not> own_row h repo r) (rows (fst (get st (host_scope h repo queue) key))) =
   filter (\<lambda>r. \<not> own_row h repo r) (rows st)"
  unfolding get_def Let_def fst_conv
  by (auto simp: same_queue_own intro!: filter_cong)

lemma workflowDepth_own: "workflowDepth (own_rows h repo st) (host_scope h repo queue) =
    workflowDepth st (host_scope h repo queue)"
proof -
  have "own_row h repo r \<longleftrightarrow> same_workflow (row_scope r) (host_scope h repo queue)" for r
    by (simp add: own_row_def same_workflow_def host_scope_def)
  then show ?thesis by (simp add: workflowDepth_def own_rows_def)
qed

lemma put_check_own: "put_check d (own_rows h repo st) (host_scope h repo queue) json =
    put_check d st (host_scope h repo queue) json"
  by (simp add: put_check_def workflowDepth_own split: option.split)

lemma put_insert_own:
  "own_rows h repo (put_insert st (host_scope h repo queue) json key producer) =
     put_insert (own_rows h repo st) (host_scope h repo queue) json key producer"
  "filter (\<lambda>r. \<not> own_row h repo r) (rows (put_insert st (host_scope h repo queue) json key producer)) =
     filter (\<lambda>r. \<not> own_row h repo r) (rows st)"
  by (cases st; simp add: own_rows_def put_insert_def own_row_def same_workflow_def host_scope_def)+

text \<open>
  \<^bold>\<open>C13\<close>. The handlers of one sandbox are confined to the rows of their own (owner, repo, workflow),
  whatever queue name, key or item the guest supplies. Neither changes a row of another
  workflow, and neither's answer depends on one: the popped item, the errors and the depth
  check are the same on the table restricted to the sandbox's own rows.
\<close>

theorem queue_handlers_confined:
  "filter (\<lambda>r. \<not> own_row h repo r) (rows (fst (getHandler h parse st repo queue key))) =
     filter (\<lambda>r. \<not> own_row h repo r) (rows st) \<and>
   snd (getHandler h parse (own_rows h repo st) repo queue key) = snd (getHandler h parse st repo queue key) \<and>
   (case (putHandler h stringify d st repo queue item key producer,
          putHandler h stringify d (own_rows h repo st) repo queue item key producer) of
      (Inr st', Inr own') \<Rightarrow>
        filter (\<lambda>r. \<not> own_row h repo r) (rows st') = filter (\<lambda>r. \<not> own_row h repo r) (rows st) \<and>
        own_rows h repo st' = own'
    | (Inl err, Inl err') \<Rightarrow> err = err'
    | _ \<Rightarrow> False)"
proof (intro conjI)
  show "filter (\<lambda>r. \<not> own_row h repo r) (rows (fst (getHandler h parse st repo queue key))) =
      filter (\<lambda>r. \<not> own_row h repo r) (rows st)"
    using get_keeps_foreign [of h repo st queue key]
    by (cases "get st (host_scope h repo queue) key") (simp add: getHandler_def split: option.split)
  show "snd (getHandler h parse (own_rows h repo st) repo queue key) = snd (getHandler h parse st repo queue key)"
    using get_own [of h repo st queue key]
    by (cases "get st (host_scope h repo queue) key"; cases "get (own_rows h repo st) (host_scope h repo queue) key")
      (simp add: getHandler_def split: option.split)
  show "case (putHandler h stringify d st repo queue item key producer,
        putHandler h stringify d (own_rows h repo st) repo queue item key producer) of
      (Inr st', Inr own') \<Rightarrow>
        filter (\<lambda>r. \<not> own_row h repo r) (rows st') = filter (\<lambda>r. \<not> own_row h repo r) (rows st) \<and>
        own_rows h repo st' = own'
    | (Inl err, Inl err') \<Rightarrow> err = err'
    | _ \<Rightarrow> False"
    by (simp add: putHandler_def put_def put_check_own put_insert_own Let_def split: option.split sum.split)
qed

text \<open>
  Whatever calls guests make, one after the other, the table stays bounded: no workflow
  ever holds more than \<open>MAX_WORKFLOW_QUEUE_DEPTH\<close> rows across all the queue names it
  invents, no stored item exceeds \<open>MAX_ITEM_BYTES\<close> and no key \<open>MAX_KEY_BYTES\<close>.
\<close>

lemma queue_storage_bounded:
  "workflowDepth (foldl (host_step stringify parse) createQueueStore ops) scope \<le> MAX_WORKFLOW_QUEUE_DEPTH \<and>
   list_all (\<lambda>r. length (row_item r) \<le> MAX_ITEM_BYTES \<and> length (row_key r) \<le> MAX_KEY_BYTES)
     (rows (foldl (host_step stringify parse) createQueueStore ops))"
proof (induction ops rule: rev_induct)
  case Nil
  then show ?case by (simp add: createQueueStore_def workflowDepth_def)
next
  case (snoc x ops)
  let ?st = "foldl (host_step stringify parse) createQueueStore ops"
  show ?case
  proof (cases x)
    case (HostPut h repo queue item key producer)
    have dep: "workflowDepth ?st (host_scope h repo queue) < MAX_WORKFLOW_QUEUE_DEPTH \<Longrightarrow>
        same_workflow (host_scope h repo queue) scope \<Longrightarrow> workflowDepth ?st scope < MAX_WORKFLOW_QUEUE_DEPTH"
      by (simp add: workflowDepth_def same_workflow_def)
    from snoc.IH dep show ?thesis
      by (auto simp: HostPut putHandler_def put_def put_check_def put_insert_def assertKeyWithinCap_def
          Let_def workflowDepth_def split: option.split if_split_asm)
  next
    case (HostGet h repo queue key)
    have "\<exists>P. rows (host_step stringify parse ?st x) = filter P (rows ?st)"
      by (auto simp: HostGet getHandler_def get_def Let_def split: option.split intro: exI [of _ "\<lambda>_. True"])
    then obtain P where P: "rows (host_step stringify parse ?st x) = filter P (rows ?st)" ..
    have "length (filter (\<lambda>r. P r \<and> Q r) xs) \<le> length (filter Q xs)" for Q and xs :: "queue_row list"
      by (induction xs) auto
    from le_trans [OF this, of "\<lambda>r. same_workflow (row_scope r) scope"] snoc.IH P show ?thesis
      by (auto simp: workflowDepth_def list_all_iff)
  qed
qed

text \<open>
  The bound needs the calls to be sequential: two calls that both count before either
  inserts exceed it.
\<close>

lemma concurrent_puts_exceed_cap:
  assumes "Suc (workflowDepth st scope) = cap" and "length t \<le> MAX_ITEM_BYTES"
  shows "put_check cap st scope (Some t) = Inr t \<and>
    workflowDepth (put_insert (put_insert st scope t key p) scope t key p) scope = Suc cap"
  using assms by (auto simp: put_check_def put_insert_def workflowDepth_def same_workflow_def)

section \<open>Declarations and rows\<close>

definition spaceless :: "queue_scope \<Rightarrow> bool" where
  "spaceless t \<longleftrightarrow> CHR '' '' \<notin> set (q_owner t) \<and> CHR '' '' \<notin> set (q_repo t) \<and> CHR '' '' \<notin> set (q_queue t)"

lemma tupleKey_inj:
  assumes "spaceless a" and "spaceless b" and "tupleKey a = tupleKey b"
  shows "a = b"
  using assms
  by (cases a; cases b) (simp add: spaceless_def tupleKey_def split_first split_last)

lemma removeDeclaration_queue:
  "removeDeclaration st (q_owner t) (q_repo t) (q_workflow t) (Some (q_queue t)) =
     (st\<lparr>rows := filter (\<lambda>r. row_scope r \<noteq> t) (rows st)\<rparr>, length (filter (\<lambda>r. row_scope r = t) (rows st)))"
proof -
  have "(q_owner (row_scope r) = q_owner t \<and> q_repo (row_scope r) = q_repo t \<and>
      q_workflow (row_scope r) = q_workflow t \<and> q_queue (row_scope r) = q_queue t) = (row_scope r = t)"
    for r :: queue_row
    using same_queue_eq [of "row_scope r" t] by (auto simp: same_queue_def same_workflow_def)
  then show ?thesis by (simp only: removeDeclaration_def Let_def option.case)
qed

lemma remove_all_rows:
  "distinct ts \<Longrightarrow> remove_all st ts =
     (st\<lparr>rows := filter (\<lambda>r. row_scope r \<notin> set ts) (rows st)\<rparr>,
      length (filter (\<lambda>r. row_scope r \<in> set ts) (rows st)))"
proof (induction ts arbitrary: st)
  case (Cons t ts)
  have "length (filter (\<lambda>r. row_scope r = t) xs) + length (filter (\<lambda>r. row_scope r \<noteq> t \<and> row_scope r \<in> set ts) xs) =
      length (filter (\<lambda>r. row_scope r = t \<or> row_scope r \<in> set ts) xs)" for xs :: "queue_row list"
    by (induction xs) (use Cons.prems in auto)
  then show ?case using Cons by (simp add: removeDeclaration_queue conj_commute)
qed simp

text \<open>
  Boot reconciliation deletes exactly the rows whose (owner, repo, workflow, queue) no
  loaded manifest declares and returns their number, provided owners, repositories and
  queue names contain no space; workflow names are unconstrained.
\<close>

lemma reconcile_exact:
  assumes "list_all spaceless declared" and "list_all (spaceless \<circ> row_scope) (rows st)"
  shows "reconcile st declared =
    (st\<lparr>rows := filter (\<lambda>r. row_scope r \<in> set declared) (rows st)\<rparr>,
     length (filter (\<lambda>r. row_scope r \<notin> set declared) (rows st)))"
proof -
  have key: "tupleKey t \<in> tupleKey ` set declared \<longleftrightarrow> t \<in> set declared" if "t \<in> row_scope ` set (rows st)" for t
    using that assms tupleKey_inj by (fastforce simp: list_all_iff)
  then have orphans: "set (orphans_of st declared) = row_scope ` set (rows st) - set declared"
    by (auto simp: orphans_of_def)
  have cong: "filter (\<lambda>r. row_scope r \<notin> set (orphans_of st declared)) (rows st) =
      filter (\<lambda>r. row_scope r \<in> set declared) (rows st)"
    "filter (\<lambda>r. row_scope r \<in> set (orphans_of st declared)) (rows st) =
      filter (\<lambda>r. row_scope r \<notin> set declared) (rows st)"
    using orphans by (auto intro!: filter_cong)
  have "reconcile st declared = remove_all st (orphans_of st declared)"
    by (simp add: reconcile_def Let_def)
  also have "\<dots> = (st\<lparr>rows := filter (\<lambda>r. row_scope r \<in> set declared) (rows st)\<rparr>,
     length (filter (\<lambda>r. row_scope r \<notin> set declared) (rows st)))"
    by (subst remove_all_rows) (simp_all add: cong, simp add: orphans_of_def)
  finally show ?thesis .
qed

definition sample_meta :: producer_meta where
  "sample_meta = \<lparr>pm_enqueuedAt = ''2026-01-01T00:00:00.000Z'', pm_invocationId = ''evt_1'',
     pm_triggerKind = ''http'', pm_triggerName = ''hook''\<rparr>"

definition sample_scope :: "string \<Rightarrow> string \<Rightarrow> queue_scope" where
  "sample_scope workflow queue = \<lparr>q_owner = ''acme'', q_repo = ''site'', q_workflow = workflow, q_queue = queue\<rparr>"

definition sample_store :: queue_store where
  "sample_store =
     put_insert (put_insert (put_insert createQueueStore (sample_scope ''a b'' ''jobs'') ''1'' [] sample_meta)
       (sample_scope ''a b'' ''old'') ''2'' [] sample_meta) (sample_scope ''gone'' ''jobs'') ''3'' [] sample_meta"

lemma reconcile_exact_witness:
  "list_all spaceless [sample_scope ''a b'' ''jobs''] \<and> list_all (spaceless \<circ> row_scope) (rows sample_store) \<and>
   map row_item (rows (fst (reconcile sample_store [sample_scope ''a b'' ''jobs'']))) = [''1''] \<and>
   snd (reconcile sample_store [sample_scope ''a b'' ''jobs'']) = 2"
  using reconcile_exact [of "[sample_scope ''a b'' ''jobs'']" sample_store]
  by (simp add: spaceless_def sample_store_def sample_scope_def put_insert_def createQueueStore_def)

text \<open>
  Queue names come from the guest unchecked, so the premise can fail: the row of an
  undeclared queue ``y z'' of workflow ``x'' survives every boot when workflow ``x y''
  declares queue ``z''.
\<close>

lemma undeclared_row_survives:
  "map row_item (rows (fst (reconcile
      (put_insert createQueueStore (sample_scope ''x'' ''y z'') ''1'' [] sample_meta)
      [sample_scope ''x y'' ''z'']))) = [''1'']"
  by (simp add: reconcile_def Let_def orphans_of_def put_insert_def createQueueStore_def tupleKey_def sample_scope_def)

definition addressed :: "string \<Rightarrow> string \<Rightarrow> queue_scope \<Rightarrow> string \<times> string option \<Rightarrow> bool" where
  "addressed owner repo t wq \<longleftrightarrow>
     q_owner t = owner \<and> q_repo t = repo \<and> q_workflow t = fst wq \<and>
     (case snd wq of None \<Rightarrow> True | Some q \<Rightarrow> q_queue t = q)"

lemma removeDeclaration_rows:
  "rows (fst (removeDeclaration st owner repo w q)) =
     filter (\<lambda>r. \<not> addressed owner repo (row_scope r) (w, q)) (rows st)"
  by (simp add: removeDeclaration_def addressed_def Let_def)

lemma remove_declarations_rows:
  "rows (foldl (\<lambda>s (w, q). fst (removeDeclaration s owner repo w q)) st wqs) =
     filter (\<lambda>r. \<not> list_ex (addressed owner repo (row_scope r)) wqs) (rows st)"
  by (induction wqs arbitrary: st) (auto simp: removeDeclaration_rows conj_commute)

definition undeclared_by_upload ::
  "string \<Rightarrow> string \<Rightarrow> workflow_queues \<Rightarrow> workflow_queues \<Rightarrow> queue_scope \<Rightarrow> bool" where
  "undeclared_by_upload owner repo old_wfs new_wfs t \<longleftrightarrow>
     q_owner t = owner \<and> q_repo t = repo \<and>
     (case map_get old_wfs (q_workflow t) of
        None \<Rightarrow> False
      | Some oldQ \<Rightarrow>
          (case map_get new_wfs (q_workflow t) of
             None \<Rightarrow> True
           | Some newQ \<Rightarrow> q_queue t \<in> set oldQ \<and> q_queue t \<notin> set newQ))"

lemma removedWorkflows_mem:
  "w \<in> set (removedWorkflows old_wfs new_wfs) \<longleftrightarrow> map_has old_wfs w \<and> map_get new_wfs w = None"
  by (auto simp: removedWorkflows_def map_of_eq_None_iff)

lemma perWorkflow_mem:
  assumes "distinct (keys new_wfs)"
  shows "(\<exists>qs. (w, qs) \<in> set (perWorkflow old_wfs new_wfs) \<and> q \<in> set qs) \<longleftrightarrow>
    (\<exists>oldQ newQ. map_get old_wfs w = Some oldQ \<and> map_get new_wfs w = Some newQ \<and> q \<in> set oldQ \<and> q \<notin> set newQ)"
proof -
  have mem: "(w, qs) \<in> set (perWorkflow old_wfs new_wfs) \<longleftrightarrow>
      (\<exists>oldQ newQ. (w, newQ) \<in> set new_wfs \<and> map_get old_wfs w = Some oldQ \<and>
         qs = removed_queues oldQ newQ \<and> qs \<noteq> [])" for qs
    by (cases "map_get old_wfs w"; induction new_wfs) (auto simp: perWorkflow_def split: option.splits)
  have "q \<in> set (removed_queues oldQ newQ) \<longleftrightarrow> q \<in> set oldQ \<and> q \<notin> set newQ" for oldQ newQ
    by (auto simp: removed_queues_def)
  then show ?thesis
    unfolding mem map_of_eq_Some_iff [OF assms] by (metis empty_iff list.set(1))
qed

text \<open>
  An upload deletes exactly the rows of its own repository whose workflow the new
  manifest drops, or whose queue the old manifest declared and the new one does not; rows
  of other repositories, of surviving queues and of names neither manifest declares stay.
\<close>

lemma upload_diff_exact:
  assumes "distinct (keys new_wfs)"
  shows "rows (applyQueueDiffViaStore st owner repo (diffManifests old_wfs new_wfs)) =
    filter (\<lambda>r. \<not> undeclared_by_upload owner repo old_wfs new_wfs (row_scope r)) (rows st)"
proof -
  have "list_ex (addressed owner repo t)
      (map (\<lambda>w. (w, None)) (removedWorkflows old_wfs new_wfs) @
       concat (map (\<lambda>(w, qs). map (\<lambda>q. (w, Some q)) qs) (perWorkflow old_wfs new_wfs))) \<longleftrightarrow>
    q_owner t = owner \<and> q_repo t = repo \<and>
      (q_workflow t \<in> set (removedWorkflows old_wfs new_wfs) \<or>
       (\<exists>qs. (q_workflow t, qs) \<in> set (perWorkflow old_wfs new_wfs) \<and> q_queue t \<in> set qs))" for t
    by (force simp: list_ex_iff addressed_def)
  also have "\<dots> t \<longleftrightarrow> undeclared_by_upload owner repo old_wfs new_wfs t" for t
    unfolding perWorkflow_mem [OF assms] removedWorkflows_mem undeclared_by_upload_def
    by (auto split: option.splits)
  finally show ?thesis
    by (simp only: applyQueueDiffViaStore_def diffManifests_def remove_declarations_rows fst_conv snd_conv)
qed

lemma upload_diff_exact_witness:
  "distinct (keys [(''a b'', [''jobs''])]) \<and>
   map row_item (rows (applyQueueDiffViaStore sample_store ''acme'' ''site''
     (diffManifests [(''a b'', [''jobs'', ''old'']), (''gone'', [''jobs''])] [(''a b'', [''jobs''])]))) = [''1'']"
  using upload_diff_exact [of "[(''a b'', [''jobs''])]" sample_store "''acme''" "''site''"
      "[(''a b'', [''jobs'', ''old'']), (''gone'', [''jobs''])]"]
  by (simp add: undeclared_by_upload_def sample_store_def sample_scope_def put_insert_def createQueueStore_def)

end
