(* ===== verification/Registry.thy ===== *)
theory Registry
  imports Secrets HttpSource CronSource QueueStore
begin

text \<open>
  The workflow registry (\<open>packages/runtime/src/workflow-registry.ts\<close>): from an uploaded
  bundle to trigger entries, the hand-over to the trigger backends, persistence, the queue
  lifecycle and recovery at boot.

  A backend is its kind and a state of type \<open>'b\<close>; \<open>HttpSource.thy\<close> and \<open>CronSource.thy\<close> are
  two of them. The surroundings of a call are the record \<open>registry_env\<close>: the crypto library
  and the key store, schema rehydration and manifest parsing (Zod), tar extraction, the answers of the
  backends, of the storage backend and of the queue statements. One \<open>registerOwner\<close> call
  runs without another in between.
\<close>

section \<open>State\<close>

record owner_repo_state =
  ors_workflows :: "(string, workflow_manifest) jsmap"
  ors_bundleSources :: "(string, string) jsmap"
  ors_descriptors :: "(string, trigger_descriptor list) jsmap"
  ors_entries :: "(string, trigger_entry) jsmap"

datatype rc_result = RcOk | RcUser "string list" | RcThrew string

datatype 'y read_result = ReadBytes 'y | ReadNotFound | ReadError string

record ('b, 'y) registry_env =
  re_secretsLib :: secrets_lib
  re_keyStore :: key_store
  re_schemaLib :: manifest_lib
  re_jsonParse :: "string \<Rightarrow> string + json"
  re_zodError :: "json \<Rightarrow> string \<times> (path_seg list \<times> string) list"
  re_extract :: "'y \<Rightarrow> string + (string, string) jsmap"
  re_reconfigure :: "string \<Rightarrow> 'b \<Rightarrow> string \<Rightarrow> string \<Rightarrow> trigger_entry list \<Rightarrow> 'b \<times> rc_result"
  re_writeError :: "string \<Rightarrow> string option"
  re_read :: "string \<Rightarrow> 'y read_result"
  re_queueError :: "(string \<times> queue_store) option"

record ('b, 'y) registry =
  ownerStates :: "(string, (string, owner_repo_state) jsmap) jsmap"
  reg_backends :: "(string \<times> 'b) list"
  reg_queue :: queue_store
  reg_storage :: "(string, 'y) jsmap option"

section \<open>Descriptors\<close>

definition resolve_opt ::
  "(string, string) jsmap \<Rightarrow> json option \<Rightarrow> string list \<Rightarrow> json option \<times> string list" where
  "resolve_opt store v m =
     (case v of None \<Rightarrow> (None, m) | Some j \<Rightarrow> apfst Some (resolveSecretSentinels store j m))"

fun resolve_texts :: "(string, string) jsmap \<Rightarrow> string list \<Rightarrow> string list \<Rightarrow> string list \<times> string list" where
  "resolve_texts store [] m = ([], m)"
| "resolve_texts store (t # ts) m =
     (case resolveString store t m of (t', m1) \<Rightarrow> apfst (Cons t') (resolve_texts store ts m1))"

definition resolve_imap ::
  "(string, string) jsmap \<Rightarrow> imap_config \<Rightarrow> string list \<Rightarrow> imap_config \<times> string list" where
  "resolve_imap store c m0 =
     (case resolve_texts store
         [imap_host c, imap_tls c, imap_user c, imap_password c, imap_folder c, imap_search c, imap_mode c] m0 of
        (ts, m1) \<Rightarrow>
          (case resolve_texts store (case imap_onError c of None \<Rightarrow> [] | Some cs \<Rightarrow> cs) m1 of (cs, m2) \<Rightarrow>
             (c\<lparr>imap_host := ts ! 0, imap_tls := ts ! 1, imap_user := ts ! 2, imap_password := ts ! 3,
                imap_folder := ts ! 4, imap_search := ts ! 5, imap_mode := ts ! 6,
                imap_onError := map_option (\<lambda>_. cs) (imap_onError c)\<rparr>, m2)))"

fun resolve_config ::
  "(string, string) jsmap \<Rightarrow> trigger_config \<Rightarrow> string list \<Rightarrow> trigger_config \<times> string list" where
  "resolve_config store (HttpTrigger method body headers response) m =
     (case resolveString store method m of (method', m1) \<Rightarrow>
       (case resolveSecretSentinels store body m1 of (body', m2) \<Rightarrow>
         (case resolveSecretSentinels store headers m2 of (headers', m3) \<Rightarrow>
           (case response of
              None \<Rightarrow> (HttpTrigger method' body' headers' None, m3)
            | Some (rb, rh) \<Rightarrow>
                (case resolve_opt store rb m3 of (rb', m4) \<Rightarrow>
                  (case resolve_opt store rh m4 of (rh', m5) \<Rightarrow>
                    (HttpTrigger method' body' headers' (Some (rb', rh')), m5)))))))"
| "resolve_config store (CronTrigger sched tz) m =
     (case resolveString store sched m of (sched', m1) \<Rightarrow>
       (case resolveString store tz m1 of (tz', m2) \<Rightarrow> (CronTrigger sched' tz', m2)))"
| "resolve_config store ManualTrigger m = (ManualTrigger, m)"
| "resolve_config store (ImapTrigger c) m = apfst ImapTrigger (resolve_imap store c m)"
| "resolve_config store (WsTrigger request response) m =
     (case resolveSecretSentinels store request m of (request', m1) \<Rightarrow>
       (case resolveSecretSentinels store response m1 of (response', m2) \<Rightarrow>
         (WsTrigger request' response', m2)))"

definition buildPreResolvedDescriptor :: "string \<Rightarrow> trigger_manifest \<Rightarrow> trigger_descriptor" where
  "buildPreResolvedDescriptor workflowName entry =
     \<lparr>td_name = tmf_name entry, td_workflowName = workflowName, td_config = tmf_config entry,
      td_inputSchema = tmf_inputSchema entry, td_outputSchema = tmf_outputSchema entry\<rparr>"

definition resolve_descriptor ::
  "(string, string) jsmap \<Rightarrow> trigger_descriptor \<Rightarrow> string list \<Rightarrow> trigger_descriptor \<times> string list" where
  "resolve_descriptor store d m =
     (case resolveString store (td_name d) m of (n, m1) \<Rightarrow>
       (case resolveString store (td_workflowName d) m1 of (w, m2) \<Rightarrow>
         (case resolve_config store (td_config d) m2 of (c, m3) \<Rightarrow>
           (case resolveSecretSentinels store (td_inputSchema d) m3 of (i, m4) \<Rightarrow>
             (case resolveSecretSentinels store (td_outputSchema d) m4 of (out, m5) \<Rightarrow>
               (\<lparr>td_name = n, td_workflowName = w, td_config = c, td_inputSchema = i, td_outputSchema = out\<rparr>,
                m5))))))"

definition rehydrateSchema :: "(json \<Rightarrow> string option) \<Rightarrow> string \<Rightarrow> string \<Rightarrow> string \<Rightarrow> json \<Rightarrow> string option" where
  "rehydrateSchema rehydrate workflowName triggerName field schema =
     map_option (\<lambda>reason. ''workflow \"'' @ workflowName @ ''\" trigger \"'' @ triggerName @ ''\" '' @ field @
       '': failed to rehydrate JSON Schema ('' @ reason @ '')'') (rehydrate schema)"

definition attachZodSchemas :: "(json \<Rightarrow> string option) \<Rightarrow> trigger_descriptor \<Rightarrow> string + trigger_descriptor" where
  "attachZodSchemas rehydrate d =
     (case rehydrateSchema rehydrate (td_workflowName d) (td_name d) ''inputSchema'' (td_inputSchema d) of
        Some err \<Rightarrow> Inl err
      | None \<Rightarrow>
          (case rehydrateSchema rehydrate (td_workflowName d) (td_name d) ''outputSchema'' (td_outputSchema d) of
             Some err \<Rightarrow> Inl err
           | None \<Rightarrow> Inr d))"

datatype build_result =
    BuildOk "trigger_descriptor list"
  | BuildFailed string
  | BuildMissing "string list"
  | BuildThrew string

fun build_loop ::
  "(json \<Rightarrow> string option) \<Rightarrow> string list option \<Rightarrow> string \<Rightarrow> (string, string) jsmap \<Rightarrow> trigger_manifest list
     \<Rightarrow> string list \<Rightarrow> trigger_descriptor list \<Rightarrow> build_result" where
  "build_loop rehydrate allowed wname store [] missing descs =
     (if missing \<noteq> [] then BuildMissing (sort missing) else BuildOk descs)"
| "build_loop rehydrate allowed wname store (entry # es) missing descs =
     (if (case allowed of None \<Rightarrow> False | Some ks \<Rightarrow> kind_of (tmf_config entry) \<notin> set ks)
      then BuildFailed (''invalid manifest: unsupported trigger kind \"'' @ kind_of (tmf_config entry) @
        ''\" (workflow \"'' @ wname @ ''\" trigger \"'' @ tmf_name entry @ ''\")'')
      else
        (case resolve_descriptor store (buildPreResolvedDescriptor wname entry) missing of (resolved, missing') \<Rightarrow>
           (case attachZodSchemas rehydrate resolved of
              Inl err \<Rightarrow> BuildFailed err
            | Inr d \<Rightarrow> build_loop rehydrate allowed wname store es missing' (descs @ [d]))))"

definition buildDescriptors ::
  "('b, 'y) registry_env \<Rightarrow> string list option \<Rightarrow> workflow_manifest \<Rightarrow> build_result" where
  "buildDescriptors env allowed wfm =
     (case decryptWorkflowSecrets (re_secretsLib env) (re_keyStore env) wfm of
        Inl err \<Rightarrow> BuildThrew (secret_message err)
      | Inr store \<Rightarrow> build_loop (ml_fromJSONSchema (re_schemaLib env)) allowed (wm_name wfm) store (wm_triggers wfm) [] [])"

section \<open>State of one repository\<close>

record manifest_issue =
  mi_path :: "path_seg list"
  mi_message :: string
  mi_formatted :: string

datatype prepare_error =
    PrepFailed string
  | PrepManifest string "manifest_issue list"
  | PrepSecrets "(string \<times> string list) list"
  | PrepThrew string

definition empty_state :: owner_repo_state where
  "empty_state = \<lparr>ors_workflows = [], ors_bundleSources = [], ors_descriptors = [], ors_entries = []\<rparr>"

definition entry_of_wf ::
  "string \<Rightarrow> string \<Rightarrow> workflow_manifest \<Rightarrow> string \<Rightarrow> trigger_descriptor \<Rightarrow> trigger_entry" where
  \<comment> \<open>the values \<open>buildFire\<close> and \<open>buildException\<close> capture\<close>
  "entry_of_wf owner repo wfm bundleSource d =
     \<lparr>te_request = \<lparr>rq_owner = owner, rq_repo = repo, rq_workflow = wm_name wfm, rq_sha = wm_sha wfm,
                    rq_dispatch = None\<rparr>,
      te_descriptor = d, te_bundleSource = bundleSource\<rparr>"

definition add_workflow ::
  "string \<Rightarrow> string \<Rightarrow> workflow_manifest \<Rightarrow> string \<Rightarrow> trigger_descriptor list \<Rightarrow> owner_repo_state \<Rightarrow> owner_repo_state" where
  "add_workflow owner repo wfm bundleSource descs st =
     st\<lparr>ors_workflows := map_set (wm_name wfm) wfm (ors_workflows st),
        ors_bundleSources := map_set (wm_name wfm) bundleSource (ors_bundleSources st),
        ors_descriptors := map_set (wm_name wfm) descs (ors_descriptors st),
        ors_entries := foldl (\<lambda>m d. map_set (triggerKey (wm_name wfm) (td_name d))
          (entry_of_wf owner repo wfm bundleSource d) m) (ors_entries st) descs\<rparr>"

fun build_workflows ::
  "('b, 'y) registry_env \<Rightarrow> string list option \<Rightarrow> string \<Rightarrow> string \<Rightarrow> (string, string) jsmap
     \<Rightarrow> workflow_manifest list \<Rightarrow> owner_repo_state \<Rightarrow> (string \<times> string list) list
     \<Rightarrow> prepare_error + owner_repo_state" where
  "build_workflows env allowed owner repo files [] st failures =
     (if failures \<noteq> [] then Inl (PrepSecrets failures) else Inr st)"
| "build_workflows env allowed owner repo files (wfm # wfms) st failures =
     (case map_get files (wm_module wfm) of
        None \<Rightarrow> build_workflows env allowed owner repo files wfms st failures
      | Some bundleSource \<Rightarrow>
          (case buildDescriptors env allowed wfm of
             BuildThrew err \<Rightarrow> Inl (PrepThrew err)
           | BuildFailed err \<Rightarrow> Inl (PrepFailed err)
           | BuildMissing missing \<Rightarrow>
               build_workflows env allowed owner repo files wfms st (failures @ [(wm_name wfm, missing)])
           | BuildOk descs \<Rightarrow>
               build_workflows env allowed owner repo files wfms
                 (add_workflow owner repo wfm bundleSource descs st) failures))"

definition buildOwnerRepoState ::
  "('b, 'y) registry_env \<Rightarrow> string list option \<Rightarrow> string \<Rightarrow> string \<Rightarrow> workflow_manifest list
     \<Rightarrow> (string, string) jsmap \<Rightarrow> prepare_error + owner_repo_state" where
  "buildOwnerRepoState env allowed owner repo manifest files =
     build_workflows env allowed owner repo files manifest empty_state []"

definition validateModulesPresent :: "workflow_manifest list \<Rightarrow> (string, string) jsmap \<Rightarrow> string option" where
  "validateModulesPresent manifest files =
     (case find (\<lambda>wfm. \<not> map_has files (wm_module wfm)) manifest of
        None \<Rightarrow> None
      | Some wfm \<Rightarrow> Some (''missing workflow module: '' @ wm_module wfm))"

definition allowedKinds :: "('b, 'y) registry \<Rightarrow> string list option" where
  "allowedKinds r = (if reg_backends r = [] then None else Some (map fst (reg_backends r)))"

definition normalizeIssue :: "path_seg list \<times> string \<Rightarrow> json option \<Rightarrow> manifest_issue" where
  "normalizeIssue raw parsedValue =
     \<lparr>mi_path = fst raw, mi_message = snd raw, mi_formatted = formatIssue (fst raw) (snd raw) parsedValue\<rparr>"

definition toRegisterIssue ::
  "string \<times> (path_seg list \<times> string) list option \<Rightarrow> json option \<Rightarrow> prepare_error" where
  \<comment> \<open>an error with its message and, for a \<open>ZodError\<close>, its issues\<close>
  "toRegisterIssue err parsedValue =
     (case snd err of
        Some issues \<Rightarrow> PrepManifest (''invalid manifest: '' @ fst err) (map (\<lambda>raw. normalizeIssue raw parsedValue) issues)
      | None \<Rightarrow> PrepFailed (''invalid manifest: '' @ fst err))"

definition parseManifest :: "('b, 'y) registry_env \<Rightarrow> string \<Rightarrow> prepare_error + workflow_manifest list" where
  "parseManifest env manifestRaw =
     (case re_jsonParse env manifestRaw of
        Inl msg \<Rightarrow> Inl (toRegisterIssue (msg, None) None)
      | Inr parsedValue \<Rightarrow>
          (case ManifestSchema (re_schemaLib env) parsedValue of
             Some manifest \<Rightarrow> Inr manifest
           | None \<Rightarrow> Inl (toRegisterIssue (apsnd Some (re_zodError env parsedValue)) (Some parsedValue))))"

definition prepareOwnerRepoState ::
  "('b, 'y) registry_env \<Rightarrow> ('b, 'y) registry \<Rightarrow> string \<Rightarrow> string \<Rightarrow> (string, string) jsmap
     \<Rightarrow> prepare_error + owner_repo_state" where
  "prepareOwnerRepoState env r owner repo files =
     (case map_get files ''manifest.json'' of
        None \<Rightarrow> Inl (PrepFailed ''missing manifest.json'')
      | Some manifestRaw \<Rightarrow>
          (case parseManifest env manifestRaw of
             Inl err \<Rightarrow> Inl err
           | Inr manifest \<Rightarrow>
               (case validateModulesPresent manifest files of
                  Some err \<Rightarrow> Inl (PrepFailed err)
                | None \<Rightarrow> buildOwnerRepoState env (allowedKinds r) owner repo manifest files)))"

section \<open>Registration\<close>

definition createWorkflowRegistry ::
  "(string \<times> 'b) list \<Rightarrow> queue_store \<Rightarrow> (string, 'y) jsmap option \<Rightarrow> ('b, 'y) registry" where
  "createWorkflowRegistry backends queue storage =
     \<lparr>ownerStates = [], reg_backends = backends, reg_queue = queue, reg_storage = storage\<rparr>"

definition getRepoState :: "('b, 'y) registry \<Rightarrow> string \<Rightarrow> string \<Rightarrow> owner_repo_state option" where
  "getRepoState r owner repo = Option.bind (map_get (ownerStates r) owner) (\<lambda>repos. map_get repos repo)"

definition setRepoState ::
  "('b, 'y) registry \<Rightarrow> string \<Rightarrow> string \<Rightarrow> owner_repo_state \<Rightarrow> ('b, 'y) registry" where
  "setRepoState r owner repo st =
     (let repos = (case map_get (ownerStates r) owner of Some m \<Rightarrow> m | None \<Rightarrow> [])
      in r\<lparr>ownerStates := map_set owner (map_set repo st repos) (ownerStates r)\<rparr>)"

definition entries_for :: "owner_repo_state \<Rightarrow> string \<Rightarrow> trigger_entry list" where
  "entries_for st kind = filter (\<lambda>e. kind_of (td_config (te_descriptor e)) = kind) (vals (ors_entries st))"

datatype aggregate = AggOk | AggUser "string list" | AggInfra "(string \<times> string) list"
  | AggBoth "string list" "(string \<times> string) list"

definition user_errors :: "(string \<times> rc_result) list \<Rightarrow> string list" where
  "user_errors outs = concat (map (\<lambda>(k, res). case res of RcUser errs \<Rightarrow> errs | _ \<Rightarrow> []) outs)"

definition infra_errors :: "(string \<times> rc_result) list \<Rightarrow> (string \<times> string) list" where
  "infra_errors outs = concat (map (\<lambda>(k, res). case res of RcThrew msg \<Rightarrow> [(k, msg)] | _ \<Rightarrow> []) outs)"

definition reconfigureBackends ::
  "('b, 'y) registry_env \<Rightarrow> ('b, 'y) registry \<Rightarrow> string \<Rightarrow> string \<Rightarrow> owner_repo_state
     \<Rightarrow> (string \<times> 'b) list \<times> aggregate" where
  "reconfigureBackends env r owner repo st =
     (let answers = map (\<lambda>(k, b). (k, re_reconfigure env k b owner repo (entries_for st k))) (reg_backends r);
          outs = map (\<lambda>(k, b, res). (k, res)) answers;
          us = user_errors outs;
          is = infra_errors outs
      in (map (\<lambda>(k, b, res). (k, b)) answers,
          if us \<noteq> [] \<and> is \<noteq> [] then AggBoth us is
          else if us \<noteq> [] then AggUser us
          else if is \<noteq> [] then AggInfra is
          else AggOk))"

datatype register_result =
    RegOk string string "string list"
  | RegFailed string "manifest_issue list" "string list" "(string \<times> string) list" "(string \<times> string list) list"
  | RegThrew string

fun mapAggregateToResult :: "aggregate \<Rightarrow> register_result" where
  "mapAggregateToResult (AggUser us) = RegFailed ''trigger_config_failed'' [] us [] []"
| "mapAggregateToResult (AggInfra is) = RegFailed ''trigger_backend_failed'' [] [] is []"
| "mapAggregateToResult (AggBoth us is) = RegFailed ''trigger_config_failed'' [] us is []"
| "mapAggregateToResult AggOk = RegOk [] [] []"

fun prepare_result :: "prepare_error \<Rightarrow> register_result" where
  "prepare_result (PrepFailed err) = RegFailed err [] [] [] []"
| "prepare_result (PrepManifest err issues) = RegFailed err issues [] [] []"
| "prepare_result (PrepSecrets failures) = RegFailed ''secret_ref_unresolved'' [] [] [] failures"
| "prepare_result (PrepThrew err) = RegThrew err"

definition bundle_key :: "string \<Rightarrow> string \<Rightarrow> string" where
  "bundle_key owner repo = ''workflows/'' @ owner @ ''/'' @ repo @ ''.tar.gz''"

definition persistTarball ::
  "('b, 'y) registry_env \<Rightarrow> ('b, 'y) registry \<Rightarrow> string \<Rightarrow> string \<Rightarrow> 'y \<Rightarrow> string + ('b, 'y) registry" where
  "persistTarball env r owner repo bytes =
     (case reg_storage r of
        None \<Rightarrow> Inr r
      | Some files \<Rightarrow>
          (case re_writeError env (bundle_key owner repo) of
             Some err \<Rightarrow> Inl err
           | None \<Rightarrow> Inr (r\<lparr>reg_storage := Some (map_set (bundle_key owner repo) bytes files)\<rparr>)))"

definition queue_names :: "(string, workflow_manifest) jsmap \<Rightarrow> workflow_queues" where
  "queue_names wfms = map (\<lambda>(n, w). (n, map qm_name (wm_queues w))) wfms"

definition applyQueueLifecycleForUpload ::
  "('b, 'y) registry_env \<Rightarrow> ('b, 'y) registry \<Rightarrow> string \<Rightarrow> string \<Rightarrow> owner_repo_state
     \<Rightarrow> queue_store \<times> string option" where
  "applyQueueLifecycleForUpload env r owner repo st =
     (let oldWorkflows = (case getRepoState r owner repo of None \<Rightarrow> [] | Some s \<Rightarrow> ors_workflows s)
      in case re_queueError env of
           Some (err, queue') \<Rightarrow> (queue', Some (''failed to apply queue store lifecycle: '' @ err))
         | None \<Rightarrow>
             (applyQueueDiffViaStore (reg_queue r) owner repo
                (diffManifests (queue_names oldWorkflows) (queue_names (ors_workflows st))), None))"

definition registerOwner ::
  "('b, 'y) registry_env \<Rightarrow> ('b, 'y) registry \<Rightarrow> string \<Rightarrow> string \<Rightarrow> (string, string) jsmap \<Rightarrow> 'y option
     \<Rightarrow> ('b, 'y) registry \<times> register_result" where
  "registerOwner env r owner repo files tarballBytes =
     (case prepareOwnerRepoState env r owner repo files of
        Inl err \<Rightarrow> (r, prepare_result err)
      | Inr st \<Rightarrow>
          (case reconfigureBackends env r owner repo st of (backends', agg) \<Rightarrow>
             let r1 = r\<lparr>reg_backends := backends'\<rparr> in
             if agg \<noteq> AggOk then (r1, mapAggregateToResult agg)
             else
               (case (case tarballBytes of None \<Rightarrow> Inr r1 | Some bytes \<Rightarrow> persistTarball env r1 owner repo bytes) of
                  Inl err \<Rightarrow> (r1, RegFailed (''failed to persist workflow bundle: '' @ err) [] [] [] [])
                | Inr r2 \<Rightarrow>
                    (case applyQueueLifecycleForUpload env r2 owner repo st of
                       (queue', Some err) \<Rightarrow> (r2\<lparr>reg_queue := queue'\<rparr>, RegFailed err [] [] [] [])
                     | (queue', None) \<Rightarrow>
                         (setRepoState (r2\<lparr>reg_queue := queue'\<rparr>) owner repo st,
                          RegOk owner repo (keys (ors_workflows st)))))))"

section \<open>Reading\<close>

definition reg_getEntry :: "('b, 'y) registry \<Rightarrow> string \<Rightarrow> string \<Rightarrow> string \<Rightarrow> string \<Rightarrow> trigger_entry option" where
  "reg_getEntry r owner repo workflowName triggerName =
     Option.bind (getRepoState r owner repo) (\<lambda>st. map_get (ors_entries st) (triggerKey workflowName triggerName))"

definition reg_pairs :: "('b, 'y) registry \<Rightarrow> (string \<times> string) list" where
  "reg_pairs r = concat (map (\<lambda>(owner, repos). map (\<lambda>repo. (owner, repo)) (keys repos)) (ownerStates r))"

definition reg_owners :: "('b, 'y) registry \<Rightarrow> string list" where
  "reg_owners r = keys (ownerStates r)"

definition reg_size :: "('b, 'y) registry \<Rightarrow> nat" where
  "reg_size r = sum_list (map (\<lambda>repos. sum_list (map (\<lambda>st. sum_list (map length (vals (ors_descriptors st))))
     (vals repos))) (vals (ownerStates r)))"

record workflow_entry =
  we_owner :: string
  we_repo :: string
  we_workflow :: workflow_manifest
  we_bundleSource :: string
  we_triggers :: "trigger_descriptor list"

definition collectForRepo :: "string \<Rightarrow> string \<Rightarrow> owner_repo_state \<Rightarrow> workflow_entry list" where
  "collectForRepo owner repo st =
     concat (map (\<lambda>(name, w).
       case (map_get (ors_bundleSources st) name, map_get (ors_descriptors st) name) of
         (Some src, Some ds) \<Rightarrow> [\<lparr>we_owner = owner, we_repo = repo, we_workflow = w, we_bundleSource = src, we_triggers = ds\<rparr>]
       | _ \<Rightarrow> []) (ors_workflows st))"

definition collectEntries :: "('b, 'y) registry \<Rightarrow> string option \<Rightarrow> string option \<Rightarrow> workflow_entry list" where
  "collectEntries r ownerFilter repoFilter =
     concat (map (\<lambda>(owner, repos).
       if ownerFilter \<noteq> None \<and> ownerFilter \<noteq> Some owner then []
       else concat (map (\<lambda>(repo, st).
         if repoFilter \<noteq> None \<and> repoFilter \<noteq> Some repo then [] else collectForRepo owner repo st) repos)) (ownerStates r))"

section \<open>Recovery\<close>

definition tar_suffix :: string where "tar_suffix = ''.tar.gz''"

definition strip_suffix :: "string \<Rightarrow> string \<Rightarrow> string option" where
  "strip_suffix suf s =
     (if length suf < length s \<and> drop (length s - length suf) s = suf then Some (take (length s - length suf) s) else None)"

definition validateOwner :: "string \<Rightarrow> bool" where "validateOwner s = OWNER_NAME_RE s"

definition validateRepo :: "string \<Rightarrow> bool" where "validateRepo s = REPO_NAME_RE s"

definition parseRecoverKey :: "string \<Rightarrow> (string \<times> string) option" where
  \<comment> \<open>\<open>LEGACY_KEY_RE\<close> has one segment after \<open>workflows/\<close>, \<open>REPO_KEY_RE\<close> two\<close>
  "parseRecoverKey key =
     (case js_split (CHR ''/'') key of
        [w, owner, file] \<Rightarrow>
          if w = ''workflows'' \<and> owner \<noteq> []
          then (case strip_suffix tar_suffix file of
                  None \<Rightarrow> None
                | Some repo \<Rightarrow> if validateOwner owner \<and> validateRepo repo then Some (owner, repo) else None)
          else None
      | _ \<Rightarrow> None)"

definition recoverOne ::
  "('b, 'y) registry_env \<Rightarrow> string \<Rightarrow> string \<Rightarrow> string \<Rightarrow> ('b, 'y) registry \<Rightarrow> ('b, 'y) registry" where
  \<comment> \<open>every failure is logged and swallowed\<close>
  "recoverOne env key owner repo r =
     (case re_read env key of
        ReadBytes bytes \<Rightarrow>
          (case re_extract env bytes of
             Inl err \<Rightarrow> r
           | Inr files \<Rightarrow> fst (registerOwner env r owner repo files None))
      | _ \<Rightarrow> r)"

definition recover_key :: "('b, 'y) registry_env \<Rightarrow> ('b, 'y) registry \<Rightarrow> string \<Rightarrow> ('b, 'y) registry" where
  "recover_key env r key =
     (if strip_suffix tar_suffix key = None then r
      else (case parseRecoverKey key of None \<Rightarrow> r | Some (owner, repo) \<Rightarrow> recoverOne env key owner repo r))"

definition snapshotLoadedWorkflows ::
  "('b, 'y) registry \<Rightarrow> (string, (string, workflow_queues) jsmap) jsmap" where
  "snapshotLoadedWorkflows r =
     map (\<lambda>(owner, repos). (owner, map (\<lambda>(repo, st). (repo, queue_names (ors_workflows st))) repos)) (ownerStates r)"

definition recover :: "('b, 'y) registry_env \<Rightarrow> ('b, 'y) registry \<Rightarrow> ('b, 'y) registry" where
  "recover env r =
     (case reg_storage r of
        None \<Rightarrow> r
      | Some files \<Rightarrow>
          let listed = filter (\<lambda>k. take 10 k = ''workflows/'') (keys files);
              r1 = foldl (recover_key env) r listed
          in r1\<lparr>reg_queue := fst (reconcileQueueStoreOnBoot (reg_queue r1) (snapshotLoadedWorkflows r1))\<rparr>)"

section \<open>Lemmas\<close>

definition bound_to :: "string \<Rightarrow> string \<Rightarrow> owner_repo_state \<Rightarrow> bool" where
  \<comment> \<open>every entry fires as this owner and repository\<close>
  "bound_to owner repo st =
     list_all (\<lambda>e. rq_owner (te_request e) = owner \<and> rq_repo (te_request e) = repo) (vals (ors_entries st))"

lemma vals_map_set: "v \<in> set (vals (map_set k x m)) \<Longrightarrow> v = x \<or> v \<in> set (vals m)"
  by (auto dest: map_set_mem)

lemma bound_to_entries:
  assumes "list_all (\<lambda>e. rq_owner (te_request e) = owner \<and> rq_repo (te_request e) = repo) (vals m)"
  shows "list_all (\<lambda>e. rq_owner (te_request e) = owner \<and> rq_repo (te_request e) = repo)
    (vals (foldl (\<lambda>m d. map_set (triggerKey w (td_name d)) (entry_of_wf owner repo wfm src d) m) m descs))"
  using assms
proof (induction descs arbitrary: m)
  case (Cons d descs)
  have "list_all (\<lambda>e. rq_owner (te_request e) = owner \<and> rq_repo (te_request e) = repo)
      (vals (map_set (triggerKey w (td_name d)) (entry_of_wf owner repo wfm src d) m))"
    using Cons.prems vals_map_set unfolding list_all_iff by (fastforce simp: entry_of_wf_def)
  with Cons.IH show ?case by simp
qed simp

lemma bound_to_add: "bound_to owner repo st \<Longrightarrow> bound_to owner repo (add_workflow owner repo wfm src descs st)"
  using bound_to_entries by (simp add: bound_to_def add_workflow_def)

lemma build_workflows_bound:
  "build_workflows env allowed owner repo files wfms st failures = Inr st' \<Longrightarrow>
     bound_to owner repo st \<Longrightarrow> bound_to owner repo st'"
proof (induction wfms arbitrary: st failures)
  case (Cons wfm wfms)
  then show ?case
    by (auto simp: bound_to_add split: option.splits build_result.splits)
qed (auto split: if_splits)

lemma prepare_bound:
  "prepareOwnerRepoState env r owner repo files = Inr st \<Longrightarrow> bound_to owner repo st"
  by (auto simp: prepareOwnerRepoState_def buildOwnerRepoState_def bound_to_def empty_state_def
      split: option.splits sum.splits dest!: build_workflows_bound)

lemma get_setRepoState:
  "getRepoState (setRepoState r owner repo st) o1 p1 =
     (if (o1, p1) = (owner, repo) then Some st else getRepoState r o1 p1)"
  by (auto simp: getRepoState_def setRepoState_def Let_def split: option.splits)

lemma getRepoState_cong [simp]:
  "getRepoState (r\<lparr>reg_backends := bs\<rparr>) = getRepoState r" "getRepoState (r\<lparr>reg_queue := q\<rparr>) = getRepoState r"
  "getRepoState (r\<lparr>reg_storage := s\<rparr>) = getRepoState r"
  by (simp_all add: getRepoState_def fun_eq_iff)

lemma persist_frame:
  "persistTarball env r owner repo bytes = Inr r' \<Longrightarrow>
     ownerStates r' = ownerStates r \<and> reg_backends r' = reg_backends r \<and> reg_queue r' = reg_queue r"
  by (auto simp: persistTarball_def split: option.splits)

lemma backends_after:
  "fst (reconfigureBackends env r owner repo st) =
     map (\<lambda>(k, b). (k, fst (re_reconfigure env k b owner repo (entries_for st k)))) (reg_backends r)"
  by (auto simp: reconfigureBackends_def Let_def split: prod.splits)

text \<open>The outcome of one registration, by its stages.\<close>

lemma registerOwner_cases:
  obtains (unprepared) err where "prepareOwnerRepoState env r owner repo files = Inl err"
      "registerOwner env r owner repo files tar = (r, prepare_result err)"
  | (refused) r' res where "ownerStates r' = ownerStates r" "map fst (reg_backends r') = map fst (reg_backends r)"
      "registerOwner env r owner repo files tar = (r', res)" "\<forall>a b c. res \<noteq> RegOk a b c"
  | (registered) st r2 where "prepareOwnerRepoState env r owner repo files = Inr st"
      "ownerStates r2 = ownerStates r"
      "reg_backends r2 = map (\<lambda>(k, b). (k, fst (re_reconfigure env k b owner repo (entries_for st k)))) (reg_backends r)"
      "registerOwner env r owner repo files tar =
        (setRepoState r2 owner repo st, RegOk owner repo (keys (ors_workflows st)))"
proof (cases "prepareOwnerRepoState env r owner repo files")
  case (Inl err)
  with unprepared show thesis by (simp add: registerOwner_def)
next
  case (Inr st)
  obtain bs agg where rb: "reconfigureBackends env r owner repo st = (bs, agg)" by fastforce
  have bs: "bs = map (\<lambda>(k, b). (k, fst (re_reconfigure env k b owner repo (entries_for st k)))) (reg_backends r)"
    using backends_after [of env r owner repo st] rb by simp
  then have kinds: "map fst bs = map fst (reg_backends r)" by (auto split: prod.splits)
  let ?r1 = "r\<lparr>reg_backends := bs\<rparr>"
  let ?p = "case tar of None \<Rightarrow> Inr ?r1 | Some bytes \<Rightarrow> persistTarball env ?r1 owner repo bytes"
  show thesis
  proof (cases "agg = AggOk")
    case False
    then have "\<forall>a b c. mapAggregateToResult agg \<noteq> RegOk a b c" by (cases agg) simp_all
    moreover have "registerOwner env r owner repo files tar = (?r1, mapAggregateToResult agg)"
      using False Inr rb by (simp add: registerOwner_def Let_def)
    ultimately show thesis using refused [of ?r1] kinds by simp
  next
    case True
    show thesis
    proof (cases ?p)
      case (Inl err)
      then have "registerOwner env r owner repo files tar =
          (?r1, RegFailed (''failed to persist workflow bundle: '' @ err) [] [] [] [])"
        using True Inr rb by (simp add: registerOwner_def Let_def)
      then show thesis using refused [of ?r1] kinds by simp
    next
      case p: (Inr r2)
      then have r2: "ownerStates r2 = ownerStates r" "reg_backends r2 = bs"
        using persist_frame [of env ?r1 owner repo _ r2] by (auto split: option.splits)
      obtain q e where q: "applyQueueLifecycleForUpload env r2 owner repo st = (q, e)" by fastforce
      show thesis
      proof (cases e)
        case None
        then have "registerOwner env r owner repo files tar =
            (setRepoState (r2\<lparr>reg_queue := q\<rparr>) owner repo st, RegOk owner repo (keys (ors_workflows st)))"
          using True Inr rb p q by (simp add: registerOwner_def Let_def)
        then show thesis using registered [of st "r2\<lparr>reg_queue := q\<rparr>"] r2 bs Inr by simp
      next
        case (Some err)
        then have "registerOwner env r owner repo files tar = (r2\<lparr>reg_queue := q\<rparr>, RegFailed err [] [] [] [])"
          using True Inr rb p q by (simp add: registerOwner_def Let_def)
        then show thesis using refused [of "r2\<lparr>reg_queue := q\<rparr>"] r2 kinds by simp
      qed
    qed
  qed
qed

section \<open>Registration is all or nothing\<close>

text \<open>
  \<^bold>\<open>C17\<close>. A registration either installs the whole new state or leaves the registry's own state
  as it was. When it reports success, the (owner, repo) holds exactly what the bundle
  built, every other pair is untouched, each backend was handed exactly the entries of its
  kind, and every installed entry fires as this owner and repository.
\<close>

theorem registration_all_or_nothing:
  "case registerOwner env r owner repo files tar of (r', res) \<Rightarrow>
     (case res of
        RegOk _ _ _ \<Rightarrow>
          (\<exists>st. prepareOwnerRepoState env r owner repo files = Inr st \<and>
             (\<forall>o1 p1. getRepoState r' o1 p1 = (if (o1, p1) = (owner, repo) then Some st else getRepoState r o1 p1)) \<and>
             reg_backends r' = map (\<lambda>(k, b). (k, fst (re_reconfigure env k b owner repo (entries_for st k)))) (reg_backends r) \<and>
             bound_to owner repo st)
      | _ \<Rightarrow> ownerStates r' = ownerStates r)"
proof (rule registerOwner_cases [of env r owner repo files tar])
  fix err
  assume "registerOwner env r owner repo files tar = (r, prepare_result err)"
  then show ?thesis by (cases err) simp_all
next
  fix r' res
  assume "ownerStates r' = ownerStates r" "registerOwner env r owner repo files tar = (r', res)"
    "\<forall>a b c. res \<noteq> RegOk a b c"
  then show ?thesis by (cases res) simp_all
next
  fix st r2
  assume reg: "prepareOwnerRepoState env r owner repo files = Inr st" "ownerStates r2 = ownerStates r"
    "reg_backends r2 = map (\<lambda>(k, b). (k, fst (re_reconfigure env k b owner repo (entries_for st k)))) (reg_backends r)"
    "registerOwner env r owner repo files tar =
      (setRepoState r2 owner repo st, RegOk owner repo (keys (ors_workflows st)))"
  have "getRepoState r2 = getRepoState r" using reg(2) by (simp add: getRepoState_def fun_eq_iff)
  then have "getRepoState (setRepoState r2 owner repo st) o1 p1 =
      (if (o1, p1) = (owner, repo) then Some st else getRepoState r o1 p1)" for o1 p1
    by (simp add: get_setRepoState)
  with reg prepare_bound [OF reg(1)] show ?thesis by (simp add: setRepoState_def Let_def)
qed

section \<open>No declared trigger is lost\<close>

definition declared :: "workflow_manifest list \<Rightarrow> (string \<times> string \<times> string \<times> string) list" where
  "declared ws = concat (map (\<lambda>w. map (\<lambda>t.
     (triggerKey (wm_name w) (tmf_name t), wm_name w, tmf_name t, kind_of (tmf_config t))) (wm_triggers w)) ws)"

definition installed :: "(string, trigger_entry) jsmap \<Rightarrow> (string \<times> string \<times> string \<times> string) list" where
  "installed es = map (\<lambda>(k, e). (k, rq_workflow (te_request e), td_name (te_descriptor e),
     kind_of (td_config (te_descriptor e)))) es"

definition plain_name :: "string \<Rightarrow> bool" where
  "plain_name n = (CHR ''/'' \<notin> set n \<and> NUL \<notin> set n)"

definition plain_cron_names :: "workflow_manifest list \<Rightarrow> bool" where
  "plain_cron_names ws = list_all (\<lambda>w. list_all (\<lambda>t.
     case tmf_config t of CronTrigger _ _ \<Rightarrow> plain_name (tmf_name t) | _ \<Rightarrow> True) (wm_triggers w)) ws"

lemma trigger_name_plain: "TRIGGER_NAME_RE n \<Longrightarrow> plain_name n"
  using name_no_slash(3) name_chars(3) [of n NUL] nul_not_name_char by (auto simp: plain_name_def)

lemma plain_names_all:
  assumes "list_all (workflow_wf lib) ws" and "plain_cron_names ws"
  shows "list_all (\<lambda>w. list_all (\<lambda>t. plain_name (tmf_name t)) (wm_triggers w)) ws"
proof -
  have "plain_name (tmf_name t)" if "w \<in> set ws" "t \<in> set (wm_triggers w)" for w t
  proof -
    have "trigger_wf lib t" using assms(1) that by (auto simp: list_all_iff workflow_wf_def)
    moreover have "case tmf_config t of CronTrigger _ _ \<Rightarrow> plain_name (tmf_name t) | _ \<Rightarrow> True"
      using assms(2) that by (auto simp: plain_cron_names_def list_all_iff)
    ultimately show ?thesis by (auto simp: trigger_wf_def trigger_name_plain split: trigger_config.splits)
  qed
  then show ?thesis by (auto simp: list_all_iff)
qed

lemma prefix_has_nul: "includes_text sentinel_prefix t \<Longrightarrow> NUL \<in> set t"
proof (induction t)
  case (Cons c t)
  then show ?case by (auto simp: sentinel_prefix_def)
qed (simp add: sentinel_prefix_def)

lemma plain_untouched: "plain_name n \<Longrightarrow> resolveString store n m = (n, m)"
  using prefix_has_nul by (auto simp: resolveString_def plain_name_def)

lemma resolve_config_kind: "kind_of (fst (resolve_config store c m)) = kind_of c"
  by (cases c) (auto simp: apfst_def map_prod_def split: prod.splits option.splits)

lemma build_loop_names:
  assumes "build_loop rehydrate allowed w store es missing descs = BuildOk ds"
    and "list_all (\<lambda>t. plain_name (tmf_name t)) es"
  shows "map (\<lambda>d. (td_name d, kind_of (td_config d))) ds =
    map (\<lambda>d. (td_name d, kind_of (td_config d))) descs @ map (\<lambda>t. (tmf_name t, kind_of (tmf_config t))) es"
  using assms
proof (induction es arbitrary: missing descs)
  case (Cons e es)
  obtain d m where r: "resolve_descriptor store (buildPreResolvedDescriptor w e) missing = (d, m)" by fastforce
  have d: "td_name d = tmf_name e" "kind_of (td_config d) = kind_of (tmf_config e)"
    using r plain_untouched [of "tmf_name e" store missing] resolve_config_kind [of store "tmf_config e"] Cons.prems(2)
    by (auto simp: resolve_descriptor_def buildPreResolvedDescriptor_def split: prod.splits) (metis fst_conv)
  have "build_loop rehydrate allowed w store es m (descs @ [d]) = BuildOk ds"
    using Cons.prems(1) r by (auto simp: attachZodSchemas_def split: if_splits sum.splits option.splits)
  from Cons.IH [OF this] Cons.prems(2) d show ?case by simp
qed (simp split: if_splits)

lemma installed_keys: "map fst (installed es) = keys es"
  by (simp add: installed_def comp_def split_beta)

lemma fold_entries:
  assumes "distinct (keys m @ map (\<lambda>d. triggerKey (wm_name w) (td_name d)) descs)"
  shows "installed (foldl (\<lambda>m d. map_set (triggerKey (wm_name w) (td_name d)) (entry_of_wf owner repo w src d) m) m descs) =
    installed m @ map (\<lambda>(n, k). (triggerKey (wm_name w) n, wm_name w, n, k))
      (map (\<lambda>d. (td_name d, kind_of (td_config d))) descs)"
  using assms
proof (induction descs arbitrary: m)
  case (Cons d descs)
  have "map_set (triggerKey (wm_name w) (td_name d)) (entry_of_wf owner repo w src d) m =
      m @ [(triggerKey (wm_name w) (td_name d), entry_of_wf owner repo w src d)]"
    using Cons.prems by (intro map_set_fresh) auto
  with Cons show ?case by (simp add: installed_def entry_of_wf_def)
qed simp

lemma failures_never_register: "fs \<noteq> [] \<Longrightarrow> build_workflows env allowed owner repo files ws st0 fs \<noteq> Inr st"
  by (induction ws arbitrary: st0 fs) (auto split: option.splits build_result.splits)

lemma build_workflows_installed:
  assumes "build_workflows env allowed owner repo files ws st0 [] = Inr st"
    and "list_all (\<lambda>w. map_has files (wm_module w)) ws"
    and "list_all (\<lambda>w. list_all (\<lambda>t. plain_name (tmf_name t)) (wm_triggers w)) ws"
    and "distinct (keys (ors_entries st0) @ map fst (declared ws))"
  shows "installed (ors_entries st) = installed (ors_entries st0) @ declared ws"
  using assms
proof (induction ws arbitrary: st0)
  case (Cons w ws)
  obtain src where src: "map_get files (wm_module w) = Some src" using Cons.prems(2) by auto
  obtain ds where ds: "buildDescriptors env allowed w = BuildOk ds"
    and rest: "build_workflows env allowed owner repo files ws (add_workflow owner repo w src ds st0) [] = Inr st"
    using Cons.prems(1) src by (auto simp: failures_never_register split: build_result.splits)
  let ?st1 = "add_workflow owner repo w src ds st0"
  have names: "map (\<lambda>d. (td_name d, kind_of (td_config d))) ds = map (\<lambda>t. (tmf_name t, kind_of (tmf_config t))) (wm_triggers w)"
    using ds Cons.prems(3) by (auto simp: buildDescriptors_def split: sum.splits dest!: build_loop_names)
  then have "map td_name ds = map tmf_name (wm_triggers w)" by (metis (no_types, lifting) map_map comp_def fst_conv map_eq_conv)
  then have keys: "map (\<lambda>d. triggerKey (wm_name w) (td_name d)) ds = map fst (declared [w])"
    by (simp add: declared_def comp_def) (metis (no_types, lifting) map_map comp_def map_eq_conv)
  have one: "declared (w # ws) = declared [w] @ declared ws" by (simp add: declared_def)
  have "distinct (keys (ors_entries st0) @ map (\<lambda>d. triggerKey (wm_name w) (td_name d)) ds)"
    unfolding keys using Cons.prems(4) one by auto
  from fold_entries [OF this] have "installed (ors_entries ?st1) = installed (ors_entries st0) @ declared [w]"
    unfolding names by (simp add: add_workflow_def) (simp add: declared_def)
  moreover from this have "keys (ors_entries ?st1) = keys (ors_entries st0) @ map fst (declared [w])"
    by (metis installed_keys map_append)
  ultimately show ?case
    using Cons.IH [OF rest] Cons.prems(2,3,4) one by simp
qed (simp add: declared_def split: if_splits)

lemma declared_keys_distinct:
  assumes "distinct (map wm_name ws)" and "list_all (\<lambda>w. distinct (map tmf_name (wm_triggers w))) ws"
    and "list_all (\<lambda>w. list_all (\<lambda>t. plain_name (tmf_name t)) (wm_triggers w)) ws"
  shows "distinct (map fst (declared ws))"
  using assms
proof (induction ws)
  case (Cons w ws)
  have inj: "triggerKey a x = triggerKey b y \<longleftrightarrow> a = b \<and> x = y" if "plain_name x" "plain_name y" for a b x y
    using that by (intro triggerKey_inj) (auto simp: plain_name_def slash_free_def)
  have k: "map fst (declared (w # ws)) =
      map (\<lambda>t. triggerKey (wm_name w) (tmf_name t)) (wm_triggers w) @ map fst (declared ws)"
    by (simp add: declared_def comp_def)
  have "distinct (map (\<lambda>t. triggerKey (wm_name w) (tmf_name t)) (wm_triggers w))"
    using Cons.prems(2,3) inj by (auto simp: distinct_map inj_on_def list_all_iff)
  moreover have "triggerKey (wm_name w) (tmf_name t) \<notin> set (map fst (declared ws))" if "t \<in> set (wm_triggers w)" for t
    using that Cons.prems(1,3) inj by (fastforce simp: declared_def list_all_iff)
  ultimately show ?case using Cons by (auto simp: k)
qed (simp add: declared_def)

text \<open>
  A bundle that prepares without error installs exactly the triggers its manifest
  declares, one entry each, in the order of declaration, under the key its workflow and name
  give and bound to that workflow, name and kind: what \<open>ManifestSchema\<close> checks is enough for
  no entry to replace another. Only cron trigger names need the assumption that they contain
  neither a slash nor a NUL, since the schema does not check them.
\<close>

lemma declared_triggers_installed:
  assumes "map_get files ''manifest.json'' = Some raw" and "re_jsonParse env raw = Inr v"
    and "ManifestSchema (re_schemaLib env) v = Some ws" and "plain_cron_names ws"
    and "prepareOwnerRepoState env r owner repo files = Inr st"
  shows "installed (ors_entries st) = declared ws"
proof -
  note acc = ManifestSchema_wf [OF assms(3)]
  have plain: "list_all (\<lambda>w. list_all (\<lambda>t. plain_name (tmf_name t)) (wm_triggers w)) ws"
    by (rule plain_names_all [OF acc(2) assms(4)])
  have build: "validateModulesPresent ws files = None" "buildOwnerRepoState env (allowedKinds r) owner repo ws files = Inr st"
    using assms(1-3,5) by (auto simp: prepareOwnerRepoState_def parseManifest_def split: option.splits)
  have "list_all (\<lambda>w. map_has files (wm_module w)) ws"
    using build(1) by (auto simp: validateModulesPresent_def list_all_iff find_None_iff split: option.splits)
  moreover have "distinct (map fst (declared ws))"
    using acc plain by (intro declared_keys_distinct) (auto simp: list_all_iff workflow_wf_def)
  ultimately show ?thesis
    using build_workflows_installed [of env _ owner repo files ws empty_state st] build(2) plain
    by (simp add: buildOwnerRepoState_def empty_state_def installed_def)
qed

section \<open>Recovery loads what was stored\<close>

lemma strip_suffix_append: "s \<noteq> [] \<Longrightarrow> strip_suffix suf (s @ suf) = Some s"
  by (simp add: strip_suffix_def)

lemma strip_suffix_Some: "strip_suffix suf x = Some s \<Longrightarrow> x = s @ suf"
  by (auto simp: strip_suffix_def split: if_splits) (metis append_take_drop_id)

lemma bundle_key_split:
  assumes "OWNER_NAME_RE owner" and "REPO_NAME_RE repo"
  shows "js_split (CHR ''/'') (bundle_key owner repo) = [''workflows'', owner, repo @ tar_suffix]"
proof -
  have "CHR ''/'' \<notin> set (repo @ tar_suffix)" using assms name_no_slash by (auto simp: tar_suffix_def)
  moreover have "bundle_key owner repo = ''workflows'' @ CHR ''/'' # owner @ CHR ''/'' # (repo @ tar_suffix)"
    by (simp add: bundle_key_def tar_suffix_def)
  moreover have "CHR ''/'' \<notin> set ''workflows''" by simp
  ultimately show ?thesis
    using assms name_no_slash by (simp only: js_split_append js_split_plain not_False_eq_True)
qed

lemma parseRecoverKey_bundle:
  "OWNER_NAME_RE owner \<Longrightarrow> REPO_NAME_RE repo \<Longrightarrow> parseRecoverKey (bundle_key owner repo) = Some (owner, repo)"
  using name_not_empty
  by (simp add: parseRecoverKey_def bundle_key_split strip_suffix_append validateOwner_def validateRepo_def)

lemma parseRecoverKey_Some:
  assumes "parseRecoverKey key = Some (owner, repo)"
  shows "key = bundle_key owner repo \<and> OWNER_NAME_RE owner \<and> REPO_NAME_RE repo"
proof -
  from assms obtain last_seg where sp: "js_split (CHR ''/'') key = [''workflows'', owner, last_seg]"
    and st: "strip_suffix tar_suffix last_seg = Some repo" "OWNER_NAME_RE owner" "REPO_NAME_RE repo"
    by (auto simp: parseRecoverKey_def validateOwner_def validateRepo_def split: list.splits option.splits if_splits)
  from js_join_split [of "CHR ''/''" key] sp strip_suffix_Some [OF st(1)] st(2,3) show ?thesis
    by (simp add: bundle_key_def tar_suffix_def)
qed

lemma register_keeps:
  fixes env :: "('b, 'y) registry_env" and r r' :: "('b, 'y) registry" and files :: "(string, string) jsmap"
    and tar :: "'y option" and owner repo :: string
  assumes r'_def: "r' = fst (registerOwner env r owner repo files tar)"
  shows "map fst (reg_backends r') = map fst (reg_backends r)"
    and "(o1, p1) \<noteq> (owner, repo) \<Longrightarrow> getRepoState r' o1 p1 = getRepoState r o1 p1"
proof -
  have both: "map fst (reg_backends r') = map fst (reg_backends r) \<and>
      ((o1, p1) \<noteq> (owner, repo) \<longrightarrow> getRepoState r' o1 p1 = getRepoState r o1 p1)"
  proof (rule registerOwner_cases [of env r owner repo files tar])
    fix st r2
    assume a: "ownerStates r2 = ownerStates r"
      "reg_backends r2 = map (\<lambda>(k, b). (k, fst (re_reconfigure env k b owner repo (entries_for st k)))) (reg_backends r)"
      "registerOwner env r owner repo files tar =
        (setRepoState r2 owner repo st, RegOk owner repo (keys (ors_workflows st)))"
    have "getRepoState r2 = getRepoState r" using a(1) by (simp add: getRepoState_def fun_eq_iff)
    moreover have "reg_backends r' = reg_backends r2" "r' = setRepoState r2 owner repo st"
      using a(3) by (simp_all add: r'_def) (simp add: setRepoState_def Let_def)
    ultimately show ?thesis using a(2) by (auto simp: get_setRepoState)
  qed (auto simp: r'_def getRepoState_def)
  show "map fst (reg_backends r') = map fst (reg_backends r)" using both by blast
  show "(o1, p1) \<noteq> (owner, repo) \<Longrightarrow> getRepoState r' o1 p1 = getRepoState r o1 p1" using both by blast
qed

lemma prepare_cong:
  "map fst (reg_backends r') = map fst (reg_backends r) \<Longrightarrow>
     prepareOwnerRepoState env r' owner repo files = prepareOwnerRepoState env r owner repo files"
proof -
  assume k: "map fst (reg_backends r') = map fst (reg_backends r)"
  then have "reg_backends r' = [] \<longleftrightarrow> reg_backends r = []" by (metis map_is_Nil_conv)
  with k have "allowedKinds r' = allowedKinds r" by (simp add: allowedKinds_def)
  then show ?thesis by (simp only: prepareOwnerRepoState_def)
qed

lemma recoverOne_keeps:
  "map fst (reg_backends (recoverOne env key owner repo r)) = map fst (reg_backends r)"
  "(o1, p1) \<noteq> (owner, repo) \<Longrightarrow> getRepoState (recoverOne env key owner repo r) o1 p1 = getRepoState r o1 p1"
  by (simp_all add: recoverOne_def register_keeps split: read_result.split sum.split)

lemma recover_key_keeps:
  "map fst (reg_backends (recover_key env r key)) = map fst (reg_backends r)"
  "key \<noteq> bundle_key o1 p1 \<Longrightarrow> getRepoState (recover_key env r key) o1 p1 = getRepoState r o1 p1"
proof -
  show "map fst (reg_backends (recover_key env r key)) = map fst (reg_backends r)"
    by (auto simp: recover_key_def recoverOne_keeps split: option.split)
  show "getRepoState (recover_key env r key) o1 p1 = getRepoState r o1 p1" if ne: "key \<noteq> bundle_key o1 p1"
  proof (cases "parseRecoverKey key")
    case (Some op)
    obtain o2 p2 where op: "op = (o2, p2)" by fastforce
    then have "(o1, p1) \<noteq> (o2, p2)" using Some ne parseRecoverKey_Some by blast
    with Some op show ?thesis by (simp add: recover_key_def recoverOne_keeps(2))
  qed (simp add: recover_key_def)
qed

lemma recover_keys_keep:
  "map fst (reg_backends (foldl (recover_key env) r ks)) = map fst (reg_backends r)"
  "bundle_key o1 p1 \<notin> set ks \<Longrightarrow> getRepoState (foldl (recover_key env) r ks) o1 p1 = getRepoState r o1 p1"
proof -
  show "map fst (reg_backends (foldl (recover_key env) r ks)) = map fst (reg_backends r)"
    by (induction ks arbitrary: r) (simp_all add: recover_key_keeps)
  show "bundle_key o1 p1 \<notin> set ks \<Longrightarrow> getRepoState (foldl (recover_key env) r ks) o1 p1 = getRepoState r o1 p1"
    by (induction ks arbitrary: r) (auto simp: recover_key_keeps)
qed

lemma accepted_register:
  assumes "prepareOwnerRepoState env r owner repo files = Inr st"
    and "\<And>k b es. snd (re_reconfigure env k b owner repo es) = RcOk" and "re_queueError env = None"
  shows "getRepoState (fst (registerOwner env r owner repo files None)) owner repo = Some st"
proof -
  have none: "snd (snd x) = RcOk" if "x \<in> set (map (\<lambda>(k, b). (k, re_reconfigure env k b owner repo (es k))) bs)"
    for x es and bs :: "(string \<times> 'a) list"
    using that assms(2) by auto
  have "snd (reconfigureBackends env r owner repo st) = AggOk"
    using none [of _ "entries_for st" "reg_backends r"]
    by (auto simp: reconfigureBackends_def user_errors_def infra_errors_def Let_def split_beta assms(2))
  with assms show ?thesis
    by (cases "reconfigureBackends env r owner repo st")
      (simp add: registerOwner_def applyQueueLifecycleForUpload_def get_setRepoState Let_def)
qed

text \<open>
  \<^bold>\<open>C18\<close>. Whatever was stored is loaded again: if storage holds the bundle of an (owner, repo)
  under the key uploads write, its bytes read and unpack, the manifest still builds and the
  backends accept it, then after \<open>recover\<close> the registry holds exactly the state an upload
  of that bundle builds, no matter what other keys are in storage and whether those can be
  read, parsed or registered.
\<close>

theorem recover_loads_stored_bundle:
  assumes "reg_storage r = Some stored" and "distinct (keys stored)"
    and "bundle_key owner repo \<in> set (keys stored)" and "OWNER_NAME_RE owner" and "REPO_NAME_RE repo"
    and "re_read env (bundle_key owner repo) = ReadBytes bytes" and "re_extract env bytes = Inr files"
    and "prepareOwnerRepoState env r owner repo files = Inr st"
    and "\<And>k b es. snd (re_reconfigure env k b owner repo es) = RcOk" and "re_queueError env = None"
  shows "getRepoState (recover env r) owner repo = Some st"
proof -
  let ?key = "bundle_key owner repo" and ?listed = "filter (\<lambda>k. take 10 k = ''workflows/'') (keys stored)"
  have "?key \<in> set ?listed" using assms(3) by (simp add: bundle_key_def)
  then obtain xs ys where l: "?listed = xs @ ?key # ys" by (meson split_list)
  have "distinct ?listed" using assms(2) by simp
  then have ys: "?key \<notin> set ys" unfolding l by simp
  let ?r1 = "foldl (recover_key env) r xs"
  have "prepareOwnerRepoState env ?r1 owner repo files = Inr st"
    using assms(8) prepare_cong [OF recover_keys_keep(1)] by metis
  then have reg: "getRepoState (fst (registerOwner env ?r1 owner repo files None)) owner repo = Some st"
    by (rule accepted_register [OF _ assms(9,10)])
  have suf: "strip_suffix tar_suffix ?key \<noteq> None"
    using strip_suffix_append [of "''workflows/'' @ owner @ ''/'' @ repo" tar_suffix]
    by (simp add: bundle_key_def tar_suffix_def)
  have "recover_key env ?r1 ?key = fst (registerOwner env ?r1 owner repo files None)"
    using suf assms(4-7) by (auto simp: recover_key_def parseRecoverKey_bundle recoverOne_def)
  with reg ys have "getRepoState (foldl (recover_key env) r ?listed) owner repo = Some st"
    unfolding l by (simp add: recover_keys_keep(2))
  then show ?thesis using assms(1) by (simp add: recover_def Let_def)
qed

text \<open>A concrete registry: the HTTP backend, one stored bundle, one workflow with a webhook and a queue.\<close>

definition sample_wf :: workflow_manifest where
  "sample_wf = \<lparr>wm_name = ''w'', wm_module = ''w.js'', wm_sha = ''sha'', wm_env = [], wm_secrets = None,
     wm_secretsKeyId = None, wm_actions = [],
     wm_triggers = [\<lparr>tmf_name = ''hook'', tmf_config = HttpTrigger ''POST'' (JObj []) (JObj []) None,
       tmf_inputSchema = JObj [], tmf_outputSchema = JObj []\<rparr>],
     wm_queues = [\<lparr>qm_name = ''jobs'', qm_schema = JObj []\<rparr>]\<rparr>"

definition sample_manifest :: json where
  "sample_manifest = JObj [(''workflows'', JArr [JObj [(''name'', JStr ''w''), (''module'', JStr ''w.js''), (''sha'', JStr ''sha''),
     (''env'', JObj []), (''actions'', JArr []),
     (''triggers'', JArr [JObj [(''name'', JStr ''hook''), (''type'', JStr ''http''), (''method'', JStr ''POST''),
        (''request'', JObj [(''body'', JObj []), (''headers'', JObj [])]),
        (''inputSchema'', JObj []), (''outputSchema'', JObj [])]]),
     (''queues'', JArr [JObj [(''name'', JStr ''jobs''), (''schema'', JObj [])]])]])]"

definition sample_lib :: manifest_lib where
  "sample_lib = \<lparr>ml_fromJSONSchema = (\<lambda>_. None), ml_timeZone = (\<lambda>tz. tz = ''UTC'')\<rparr>"

definition sample_crypto :: secrets_lib where
  "sample_crypto = \<lparr>sl_base64 = (\<lambda>_. []), sl_sha256 = id, sl_publicKey = id, sl_unseal = (\<lambda>c pk sk. Inl ''forged''),
     sl_text = (\<lambda>_. [])\<rparr>"

lemma sample_manifest_accepted: "ManifestSchema sample_lib sample_manifest = Some [sample_wf]"
proof -
  have names: "TRIGGER_NAME_RE ''hook''" "QUEUE_NAME_RE ''jobs''"
    by (simp_all add: TRIGGER_NAME_RE_def QUEUE_NAME_RE_def char_class_defs less_eq_char_def)
  have schema: "jsonSchemaValidator sample_lib (JObj []) = Some (JObj [])"
    by (simp add: jsonSchemaValidator_def sample_lib_def)
  show ?thesis
    by (simp add: ManifestSchema_def sample_manifest_def strictObject_def required_def optional_def with_default_def
        z_array_def z_record_def z_string_def z_text_def z_refine_def workflowManifestSchema_def triggerManifestSchema_def
        httpTriggerManifestSchema_def trigger_schema_def request_schema_def queueManifestSchema_def schema names
        workflow_refinements_def secrets_disjoint_def unique_names_def declares_reserved_def findReservedHeader_def
        sample_wf_def)
qed

definition sample_files :: "(string, string) jsmap" where
  "sample_files = [(''manifest.json'', ''m''), (''w.js'', ''js'')]"

definition sample_reg_env :: "(http_source, (string, string) jsmap) registry_env" where
  "sample_reg_env =
     \<lparr>re_secretsLib = sample_crypto, re_keyStore = \<lparr>ks_resolved = [], ks_order = []\<rparr>,
      re_schemaLib = sample_lib, re_jsonParse = (\<lambda>_. Inr sample_manifest),
      re_zodError = (\<lambda>_. ([], [])),
      re_extract = Inr, re_reconfigure = (\<lambda>k b owner repo es. (http_reconfigure () b owner repo es, RcOk)),
      re_writeError = (\<lambda>_. None), re_read = (\<lambda>_. ReadBytes sample_files), re_queueError = None\<rparr>"

definition sample_registry :: "(http_source, (string, string) jsmap) registry" where
  "sample_registry = createWorkflowRegistry [(''http'', createHttpTriggerSource)]
     (put_insert createQueueStore \<lparr>q_owner = ''acme'', q_repo = ''site'', q_workflow = ''w'', q_queue = ''jobs''\<rparr>
       ''1'' [] sample_meta)
     (Some [(''workflows/acme/site.tar.gz'', sample_files)])"

definition sample_state :: owner_repo_state where
  "sample_state = \<lparr>ors_workflows = [(''w'', sample_wf)], ors_bundleSources = [(''w'', ''js'')],
     ors_descriptors = [(''w'', [te_descriptor sample_hook])], ors_entries = [(''w/hook'', sample_hook)]\<rparr>"

lemma no_prefix_untouched: "\<not> includes_text sentinel_prefix t \<Longrightarrow> resolveString store t m = (t, m)"
  by (simp add: resolveString_def)

lemma sample_prepare_any:
  "prepareOwnerRepoState (sample_reg_env\<lparr>re_writeError := w\<rparr>) sample_registry ''acme'' ''site'' sample_files = Inr sample_state"
  by (simp add: prepareOwnerRepoState_def parseManifest_def sample_manifest_accepted sample_reg_env_def
      sample_registry_def createWorkflowRegistry_def sample_files_def sample_lib_def [THEN arg_cong, of ml_fromJSONSchema]
      sample_wf_def sample_state_def sample_hook_def validateModulesPresent_def buildOwnerRepoState_def buildDescriptors_def
      decryptWorkflowSecrets_def resolve_descriptor_def buildPreResolvedDescriptor_def no_prefix_untouched sentinel_prefix_def
      NUL_def attachZodSchemas_def rehydrateSchema_def add_workflow_def entry_of_wf_def empty_state_def triggerKey_def
      allowedKinds_def)

lemma sample_prepare: "prepareOwnerRepoState sample_reg_env sample_registry ''acme'' ''site'' sample_files = Inr sample_state"
  using sample_prepare_any [of "re_writeError sample_reg_env"] by simp

theorem recover_loads_stored_bundle_witness:
  "getRepoState (recover sample_reg_env sample_registry) ''acme'' ''site'' = Some sample_state"
proof (rule recover_loads_stored_bundle)
  show "prepareOwnerRepoState sample_reg_env sample_registry ''acme'' ''site'' sample_files = Inr sample_state"
    by (rule sample_prepare)
  show "reg_storage sample_registry = Some [(''workflows/acme/site.tar.gz'', sample_files)]"
    by (simp add: sample_registry_def createWorkflowRegistry_def)
  show "OWNER_NAME_RE ''acme''" "REPO_NAME_RE ''site''"
    by (simp_all add: OWNER_NAME_RE_def REPO_NAME_RE_def char_class_defs less_eq_char_def)
qed (simp_all add: sample_reg_env_def bundle_key_def)

lemma declared_triggers_installed_witness:
  "prepareOwnerRepoState sample_reg_env sample_registry ''acme'' ''site'' sample_files = Inr sample_state \<and>
   installed (ors_entries sample_state) = declared [sample_wf]"
proof
  show prep: "prepareOwnerRepoState sample_reg_env sample_registry ''acme'' ''site'' sample_files = Inr sample_state"
    by (rule sample_prepare)
  show "installed (ors_entries sample_state) = declared [sample_wf]"
    by (rule declared_triggers_installed [OF _ _ _ _ prep, where v = sample_manifest])
      (simp_all add: sample_files_def sample_reg_env_def sample_manifest_accepted plain_cron_names_def sample_wf_def)
qed

text \<open>
  The assumption on cron names is needed: two cron triggers of one accepted manifest, \<open>b/c\<close> of
  workflow \<open>a\<close> and \<open>c\<close> of workflow \<open>a/b\<close>, share a key and one of them is dropped without a
  report.
\<close>

definition sample_cron_wf :: "string \<Rightarrow> string \<Rightarrow> workflow_manifest" where
  "sample_cron_wf name trigger = sample_wf\<lparr>wm_name := name, wm_queues := [],
     wm_triggers := [\<lparr>tmf_name = trigger, tmf_config = CronTrigger ''0 * * * *'' ''UTC'',
       tmf_inputSchema = JObj [], tmf_outputSchema = JObj []\<rparr>]\<rparr>"

definition sample_cron_json :: "string \<Rightarrow> string \<Rightarrow> json" where
  "sample_cron_json name trigger = JObj [(''name'', JStr name), (''module'', JStr ''w.js''), (''sha'', JStr ''sha''),
     (''env'', JObj []), (''actions'', JArr []),
     (''triggers'', JArr [JObj [(''name'', JStr trigger), (''type'', JStr ''cron''), (''schedule'', JStr ''0 * * * *''),
        (''tz'', JStr ''UTC''), (''inputSchema'', JObj []), (''outputSchema'', JObj [])]])]"

lemma cron_manifest_accepted: "workflowManifestSchema sample_lib (sample_cron_json name trigger) = Some (sample_cron_wf name trigger)"
proof -
  have "js_trim ''0 * * * *'' \<noteq> []"
    by (simp add: js_trim_def trim_from.simps space_codes_def upt_rec)
  then show ?thesis
    by (simp add: workflowManifestSchema_def sample_cron_json_def strictObject_def required_def optional_def with_default_def
        z_array_def z_record_def z_string_def z_text_def z_refine_def triggerManifestSchema_def jsonSchemaValidator_def
        cronTriggerManifestSchema_def trigger_schema_def workflow_refinements_def secrets_disjoint_def unique_names_def
        declares_reserved_def sample_cron_wf_def sample_wf_def sample_lib_def isValidTimezone_def)
qed

lemma slash_in_cron_name_drops_trigger:
  "ManifestSchema sample_lib (JObj [(''workflows'', JArr [sample_cron_json ''a'' ''b/c'', sample_cron_json ''a/b'' ''c''])]) =
     Some [sample_cron_wf ''a'' ''b/c'', sample_cron_wf ''a/b'' ''c''] \<and>
   (case buildOwnerRepoState sample_reg_env None ''acme'' ''site''
      [sample_cron_wf ''a'' ''b/c'', sample_cron_wf ''a/b'' ''c''] sample_files of
      Inr st \<Rightarrow> map snd (installed (ors_entries st)) = [(''a/b'', ''c'', ''cron'')]
    | Inl _ \<Rightarrow> False)"
proof
  show "ManifestSchema sample_lib (JObj [(''workflows'', JArr [sample_cron_json ''a'' ''b/c'', sample_cron_json ''a/b'' ''c''])]) =
     Some [sample_cron_wf ''a'' ''b/c'', sample_cron_wf ''a/b'' ''c'']"
    by (simp add: ManifestSchema_def strictObject_def required_def z_array_def z_refine_def cron_manifest_accepted)
      (simp add: sample_cron_wf_def set_add_def)
  show "case buildOwnerRepoState sample_reg_env None ''acme'' ''site''
      [sample_cron_wf ''a'' ''b/c'', sample_cron_wf ''a/b'' ''c''] sample_files of
      Inr st \<Rightarrow> map snd (installed (ors_entries st)) = [(''a/b'', ''c'', ''cron'')]
    | Inl _ \<Rightarrow> False"
    by (simp add: buildOwnerRepoState_def buildDescriptors_def sample_cron_wf_def sample_wf_def sample_files_def
        decryptWorkflowSecrets_def resolve_descriptor_def buildPreResolvedDescriptor_def no_prefix_untouched sentinel_prefix_def
        NUL_def attachZodSchemas_def rehydrateSchema_def sample_reg_env_def sample_lib_def add_workflow_def entry_of_wf_def
        empty_state_def triggerKey_def installed_def)
qed

section \<open>What a failure leaves behind\<close>

text \<open>
  Backends are reconfigured before the bundle is persisted: when the write fails, the
  upload is reported as failed and the registry keeps the old state, but the backend
  already serves the new trigger.
\<close>

lemma failed_upload_reaches_backends:
  "let env = sample_reg_env\<lparr>re_writeError := (\<lambda>_. Some ''disk full'')\<rparr>;
       (r', res) = registerOwner env sample_registry ''acme'' ''site'' sample_files (Some sample_files)
   in res = RegFailed ''failed to persist workflow bundle: disk full'' [] [] [] [] \<and>
      getRepoState r' ''acme'' ''site'' = None \<and>
      map (\<lambda>(k, b). http_getEntry b ''acme'' ''site'' ''w'' ''hook'') (reg_backends r') = [Some sample_hook]"
proof -
  let ?env = "sample_reg_env\<lparr>re_writeError := (\<lambda>_. Some ''disk full'')\<rparr>"
  have "prepareOwnerRepoState ?env sample_registry ''acme'' ''site'' sample_files = Inr sample_state"
    by (rule sample_prepare_any)
  then show ?thesis
    by (simp add: registerOwner_def reconfigureBackends_def sample_registry_def createWorkflowRegistry_def
        sample_reg_env_def user_errors_def infra_errors_def persistTarball_def getRepoState_def sample_state_def
        entries_for_def sample_hook_def http_reconfigure_def createHttpTriggerSource_def http_getEntry_def
        pairKey_def triggerKey_def Let_def)
qed

text \<open>
  A bundle that cannot be read at boot counts as not declared, and the reconciliation that
  follows deletes the queue items of its workflows.
\<close>

lemma boot_read_error_drops_queue:
  "map row_item (rows (reg_queue sample_registry)) = [''1''] \<and>
   rows (reg_queue (recover (sample_reg_env\<lparr>re_read := (\<lambda>_. ReadError ''timeout'')\<rparr>) sample_registry)) = []"
proof -
  let ?env = "sample_reg_env\<lparr>re_read := (\<lambda>_. ReadError ''timeout'')\<rparr>"
  have "recover_key ?env sample_registry k = sample_registry" for k
    by (simp add: recover_key_def recoverOne_def split: option.split)
  then have "foldl (recover_key ?env) sample_registry ks = sample_registry" for ks
    by (induction ks) simp_all
  then show ?thesis
    by (simp add: recover_def Let_def)
      (simp add: sample_registry_def createWorkflowRegistry_def put_insert_def createQueueStore_def
        snapshotLoadedWorkflows_def reconcileQueueStoreOnBoot_def declared_tuples_def reconcile_def orphans_of_def
        removeDeclaration_def Let_def)
qed

end
