(* ===== verification/Auth.thy ===== *)
theory Auth
  imports Registry
begin

text \<open>
  Authentication and authorisation (\<open>packages/runtime/src/auth\<close> and \<open>api/auth.ts\<close>): owner
  membership, the scopes of event queries, the allow list and its two providers, session
  cookies and the session middleware, the sign-in routes, and the check of the \<open>returnTo\<close>
  parameter.

  Sealing (iron-webcrypto) is symbolic: a cookie the server writes is \<open>SealedSession\<close>,
  \<open>SealedState\<close> or \<open>SealedFlash\<close> of its payload, and what a presented cookie unseals to is an
  argument, the record \<open>seals\<close>. GitHub's API is the record \<open>github_api\<close>, whose answers are
  network errors or a status with a decoded body. A handler
  returns the cookies it writes and its reply; \<open>Proceed u\<close> is \<open>c.set("user", u)\<close> and
  \<open>next()\<close>. A cookie's name and attributes are those of the \<open>setCookie\<close> call.
\<close>

section \<open>Owners and scopes\<close>

record user_context =
  uc_login :: string
  uc_mail :: string
  uc_orgs :: "string list"

definition ownerSet :: "user_context \<Rightarrow> string list" where
  "ownerSet user = foldl (\<lambda>s org. if validateOwner org then set_add org s else s) [] (uc_orgs user)"

definition isMember :: "user_context \<Rightarrow> string \<Rightarrow> bool" where
  "isMember user owner = (if \<not> validateOwner owner then False else owner \<in> set (ownerSet user))"

definition requireOwnerMember :: "string option \<Rightarrow> string option \<Rightarrow> user_context option \<Rightarrow> bool" where
  \<comment> \<open>the path parameters and the user of the request; \<open>False\<close> is \<open>c.notFound()\<close>\<close>
  "requireOwnerMember ownerParam repoParam user =
     (let owner = (case ownerParam of Some s \<Rightarrow> s | None \<Rightarrow> [])
      in if \<not> validateOwner owner then False
         else if (case repoParam of Some repo \<Rightarrow> \<not> validateRepo repo | None \<Rightarrow> False) then False
         else (case user of Some u \<Rightarrow> isMember u owner | None \<Rightarrow> False))"

record scope_constraint =
  sc_owner :: "string option"
  sc_repo :: "string option"

definition resolveQueryScopes ::
  "user_context option \<Rightarrow> ('b, 'y) registry \<Rightarrow> scope_constraint \<Rightarrow> (string \<times> string) list" where
  "resolveQueryScopes user reg constraint =
     (let allowedOwners = (case user of
            Some u \<Rightarrow> ownerSet u
          | None \<Rightarrow> filter validateOwner (reg_owners reg))
      in if (case sc_owner constraint of Some x \<Rightarrow> \<not> validateOwner x | None \<Rightarrow> False) then []
         else if (case sc_repo constraint of Some x \<Rightarrow> \<not> validateRepo x | None \<Rightarrow> False) then []
         else filter (\<lambda>(owner, repo). owner \<in> set allowedOwners \<and>
           (case sc_owner constraint of Some x \<Rightarrow> owner = x | None \<Rightarrow> True) \<and>
           (case sc_repo constraint of Some x \<Rightarrow> repo = x | None \<Rightarrow> True)) (reg_pairs reg))"

section \<open>Cookies\<close>

definition SIXTY_SECONDS :: int where "SIXTY_SECONDS = 60"

definition FIVE_MINUTES_SECONDS :: int where "FIVE_MINUTES_SECONDS = 5 * 60"

definition TEN_MINUTES_MS :: int where "TEN_MINUTES_MS = 10 * 60 * 1000"

definition SEVEN_DAYS_MS :: int where "SEVEN_DAYS_MS = 7 * 24 * 60 * 60 * 1000"

definition SEVEN_DAYS_SECONDS :: int where "SEVEN_DAYS_SECONDS = 7 * 24 * 60 * 60"

record cookie_opts =
  co_path :: string
  co_secure :: bool
  co_httpOnly :: bool
  co_sameSite :: string
  co_partitioned :: bool
  co_maxAge :: "int option"

definition clearOpts :: "string \<Rightarrow> bool \<Rightarrow> cookie_opts" where
  "clearOpts path secure =
     (if secure
      then \<lparr>co_path = path, co_secure = True, co_httpOnly = True, co_sameSite = ''Lax'', co_partitioned = False,
            co_maxAge = None\<rparr>
      else \<lparr>co_path = path, co_secure = True, co_httpOnly = True, co_sameSite = ''None'', co_partitioned = True,
            co_maxAge = None\<rparr>)"

definition writeOpts :: "string \<Rightarrow> bool \<Rightarrow> int \<Rightarrow> cookie_opts" where
  "writeOpts path secure maxAge = (clearOpts path secure)\<lparr>co_maxAge := Some maxAge\<rparr>"

datatype flash_payload = Denied string | LoggedOut

record session_payload =
  sp_provider :: string
  sp_login :: string
  sp_mail :: string
  sp_orgs :: "string list"
  sp_accessToken :: string
  sp_resolvedAt :: int
  sp_exp :: int

record state_payload =
  st_state :: string
  st_returnTo :: string

datatype cookie_value = SealedSession session_payload | SealedState state_payload | SealedFlash flash_payload

datatype cookie_op = SetCookie string cookie_value cookie_opts | DeleteCookie string cookie_opts

record seals =
  unseal_session :: "string \<Rightarrow> session_payload option option"
  unseal_state :: "string \<Rightarrow> state_payload option"

definition unsealSession :: "seals \<Rightarrow> string \<Rightarrow> session_payload option" where
  \<comment> \<open>\<open>None\<close>: it throws; the inner \<open>None\<close> of \<open>unseal_session\<close> is a value that is no object\<close>
  "unsealSession sl raw =
     (case unseal_session sl raw of
        Some (Some payload) \<Rightarrow> if sp_provider payload \<in> {''github'', ''local''} then Some payload else None
      | _ \<Rightarrow> None)"

definition userFromPayload :: "session_payload \<Rightarrow> user_context" where
  "userFromPayload payload = \<lparr>uc_login = sp_login payload, uc_mail = sp_mail payload, uc_orgs = sp_orgs payload\<rparr>"

definition isStale :: "session_payload \<Rightarrow> int \<Rightarrow> bool" where
  "isStale payload now \<longleftrightarrow> now \<ge> sp_resolvedAt payload + TEN_MINUTES_MS"

definition isExpired :: "session_payload \<Rightarrow> int \<Rightarrow> bool" where
  "isExpired payload now \<longleftrightarrow> now \<ge> sp_exp payload"

section \<open>The \<open>returnTo\<close> parameter\<close>

definition isSafeReturnTo :: "string \<Rightarrow> bool" where
  "isSafeReturnTo value =
     (if value = [] \<or> take 1 value \<noteq> ''/'' \<or> take 2 value = ''//'' then False
      else if CHR 0x5C \<in> set value then False
      else (let stop = min (case indexOf (CHR ''?'') value of None \<Rightarrow> length value | Some i \<Rightarrow> i)
                           (case indexOf (CHR ''#'') value of None \<Rightarrow> length value | Some i \<Rightarrow> i)
            in CHR '':'' \<notin> set (take stop value)))"

definition sanitizeReturnTo :: "string option \<Rightarrow> string" where
  "sanitizeReturnTo value =
     (case value of None \<Rightarrow> ''/'' | Some v \<Rightarrow> if isSafeReturnTo v then v else ''/'')"

definition hex_upper :: "nat \<Rightarrow> char" where
  "hex_upper d = (if d < 10 then digit_char d else char_of (55 + d :: nat))"

definition percent :: "char \<Rightarrow> string" where
  "percent c = [CHR ''%'', hex_upper (of_char c div 16), hex_upper (of_char c mod 16)]"

definition encodeURIComponent :: "string \<Rightarrow> string" where
  "encodeURIComponent s =
     concat (map (\<lambda>c. if is_alnum c \<or> c \<in> set ''-_.!~*()'' \<or> c = CHR 0x27 then [c] else percent c) s)"

definition form_encode :: "string \<Rightarrow> string" where
  \<comment> \<open>the serialiser of \<open>URLSearchParams\<close>\<close>
  "form_encode s =
     concat (map (\<lambda>c. if is_alnum c \<or> c \<in> set ''*-._'' then [c] else if c = CHR '' '' then ''+'' else percent c) s)"

section \<open>GitHub\<close>

datatype 'a http_answer = NetworkError | Answer nat "'a option"

record github_api =
  gh_token :: "string \<times> string \<times> string \<times> string \<Rightarrow> string option http_answer"
  gh_user :: "string \<Rightarrow> (string \<times> string option) http_answer"
  gh_orgs :: "string \<Rightarrow> string list http_answer"

definition status_ok :: "nat \<Rightarrow> bool" where "status_ok st \<longleftrightarrow> 200 \<le> st \<and> st < 300"

definition exchangeCode ::
  "github_api \<Rightarrow> string \<Rightarrow> string \<Rightarrow> string \<Rightarrow> string \<Rightarrow> nat + string" where
  "exchangeCode gh clientId clientSecret code redirectUri =
     (case gh_token gh (clientId, clientSecret, code, redirectUri) of
        NetworkError \<Rightarrow> Inl 0
      | Answer st body \<Rightarrow>
          if \<not> status_ok st then Inl st
          else (case body of
                  None \<Rightarrow> Inl st
                | Some None \<Rightarrow> Inl st
                | Some (Some token) \<Rightarrow> if token = [] then Inl st else Inr token))"

definition fetchGitHub :: "'a http_answer \<Rightarrow> nat + 'a" where
  "fetchGitHub res =
     (case res of
        NetworkError \<Rightarrow> Inl 0
      | Answer st body \<Rightarrow>
          if \<not> status_ok st then Inl st else (case body of None \<Rightarrow> Inl st | Some d \<Rightarrow> Inr d))"

definition resolveUser :: "github_api \<Rightarrow> string \<Rightarrow> nat + user_context" where
  "resolveUser gh accessToken =
     (case fetchGitHub (gh_user gh accessToken) of
        Inl st \<Rightarrow> Inl st
      | Inr (login, email) \<Rightarrow>
          (case fetchGitHub (gh_orgs gh accessToken) of
             Inl st \<Rightarrow> Inl st
           | Inr orgs \<Rightarrow>
               Inr \<lparr>uc_login = login, uc_mail = (case email of Some m \<Rightarrow> m | None \<Rightarrow> []), uc_orgs = login # orgs\<rparr>))"

definition buildAuthorizeUrl :: "string \<Rightarrow> string \<Rightarrow> string \<Rightarrow> string" where
  "buildAuthorizeUrl clientId redirectUri state =
     ''https://github.com/login/oauth/authorize?client_id='' @ form_encode clientId @
     ''&redirect_uri='' @ form_encode redirectUri @ ''&scope='' @ form_encode ''user:email read:org'' @
     ''&state='' @ form_encode state"

section \<open>Providers\<close>

definition ID_REGEX :: "string \<Rightarrow> bool" where
  "ID_REGEX s = (case s of [] \<Rightarrow> False | c # cs \<Rightarrow> is_alnum c \<and> list_all (\<lambda>d. is_alnum d \<or> d = CHR ''-'') cs)"

datatype github_entry = GhUser string | GhOrg string

definition parseGithubRest :: "string \<Rightarrow> string + github_entry" where
  "parseGithubRest rest =
     (case js_split (CHR '':'') rest of
        [kind, ident] \<Rightarrow>
          if kind \<noteq> ''user'' \<and> kind \<noteq> ''org''
          then Inl (''AUTH_ALLOW: unknown github kind \"'' @ kind @ ''\" in entry \"github:'' @ rest @ ''\"'')
          else if \<not> ID_REGEX ident
          then Inl (''AUTH_ALLOW: invalid identifier \"'' @ ident @ ''\" in entry \"github:'' @ rest @ ''\"'')
          else Inr (if kind = ''user'' then GhUser ident else GhOrg ident)
      | _ \<Rightarrow> Inl (''AUTH_ALLOW: malformed github entry \"github:'' @ rest @ ''\" (expected github:user|org:<id>)''))"

record local_entry =
  le_name :: string
  le_orgs :: "string list"

definition parseLocalRest :: "string \<Rightarrow> string + local_entry" where
  "parseLocalRest rest =
     (let bad = (\<lambda>name. Inl (''AUTH_ALLOW: invalid local user name \"'' @ name @ ''\" in entry \"local:'' @ rest @ ''\"''))
      in case js_split (CHR '':'') rest of
           [name] \<Rightarrow> if \<not> ID_REGEX name then bad name else Inr \<lparr>le_name = name, le_orgs = []\<rparr>
         | [name, orgsRaw] \<Rightarrow>
             if \<not> ID_REGEX name then bad name
             else if CHR '','' \<in> set orgsRaw
             then Inl (''AUTH_ALLOW: local entry \"local:'' @ rest @ ''\": orgs use '' @ [CHR 0x27] @ ''|'' @ [CHR 0x27] @
               '' separator (e.g. acme|foo)'')
             else (case find (\<lambda>org. \<not> ID_REGEX org) (js_split (CHR ''|'') orgsRaw) of
                     Some org \<Rightarrow> Inl (''AUTH_ALLOW: invalid local org \"'' @ org @ ''\" in entry \"local:'' @ rest @ ''\"'')
                   | None \<Rightarrow> Inr \<lparr>le_name = name, le_orgs = js_split (CHR ''|'') orgsRaw\<rparr>)
         | _ \<Rightarrow> Inl (''AUTH_ALLOW: malformed local entry \"local:'' @ rest @
             ''\" (expected local:<name> or local:<name>:<orgs>)''))"

definition userFromEntry :: "local_entry \<Rightarrow> user_context" where
  "userFromEntry entry =
     \<lparr>uc_login = le_name entry, uc_mail = le_name entry @ ''@dev.local'', uc_orgs = le_name entry # le_orgs entry\<rparr>"

definition isAllowed :: "user_context \<Rightarrow> string list \<Rightarrow> string list \<Rightarrow> bool" where
  "isAllowed user users orgs = (if uc_login user \<in> set users then True else list_ex (\<lambda>org. org \<in> set orgs) (uc_orgs user))"

datatype provider =
    GithubProvider (gp_users: "string list") (gp_orgs: "string list")
  | LocalProvider (lp_byName: "(string, local_entry) jsmap")

record provider_deps =
  pd_clientId :: "string option"
  pd_clientSecret :: "string option"
  pd_baseUrl :: "string option"

fun parse_all :: "('a \<Rightarrow> string + 'c) \<Rightarrow> 'a list \<Rightarrow> string + 'c list" where
  \<comment> \<open>\<open>rawEntries.map(parse)\<close> with a parser that may throw\<close>
  "parse_all p [] = Inr []"
| "parse_all p (x # xs) =
     (case p x of
        Inl err \<Rightarrow> Inl err
      | Inr y \<Rightarrow> (case parse_all p xs of Inl err \<Rightarrow> Inl err | Inr ys \<Rightarrow> Inr (y # ys)))"

definition createGithubProvider :: "provider_deps \<Rightarrow> string list \<Rightarrow> string + provider" where
  "createGithubProvider deps rawEntries =
     (case parse_all parseGithubRest rawEntries of
        Inl err \<Rightarrow> Inl err
      | Inr entries \<Rightarrow>
          if pd_clientId deps = None \<or> pd_clientSecret deps = None \<or> pd_baseUrl deps = None
          then Inl ''github provider requires GITHUB_OAUTH_CLIENT_ID, GITHUB_OAUTH_CLIENT_SECRET, and BASE_URL''
          else Inr (GithubProvider
            (foldl (\<lambda>s e. case e of GhUser i \<Rightarrow> set_add i s | GhOrg _ \<Rightarrow> s) [] entries)
            (foldl (\<lambda>s e. case e of GhOrg i \<Rightarrow> set_add i s | GhUser _ \<Rightarrow> s) [] entries)))"

definition createLocalProvider :: "string list \<Rightarrow> string + provider" where
  "createLocalProvider rawEntries =
     (case parse_all parseLocalRest rawEntries of
        Inl err \<Rightarrow> Inl err
      | Inr entries \<Rightarrow> Inr (LocalProvider (foldl (\<lambda>m e. map_set (le_name e) e m) [] entries)))"

definition bearer :: "string \<Rightarrow> string option \<Rightarrow> string option" where
  \<comment> \<open>the trimmed rest of an \<open>Authorization\<close> header with this scheme, when there is one\<close>
  "bearer scheme header =
     (let auth = (case header of Some h \<Rightarrow> h | None \<Rightarrow> [])
      in if take (length scheme) auth \<noteq> scheme then None
         else (let v = js_trim (drop (length scheme) auth) in if v = [] then None else Some v))"

definition github_resolveApiIdentity ::
  "github_api \<Rightarrow> string list \<Rightarrow> string list \<Rightarrow> string option \<Rightarrow> user_context option" where
  "github_resolveApiIdentity gh users orgs authorization =
     (case bearer ''Bearer '' authorization of
        None \<Rightarrow> None
      | Some token \<Rightarrow>
          (case resolveUser gh token of
             Inl _ \<Rightarrow> None
           | Inr user \<Rightarrow> if \<not> isAllowed user users orgs then None else Some user))"

definition local_resolveApiIdentity ::
  "(string, local_entry) jsmap \<Rightarrow> string option \<Rightarrow> user_context option" where
  "local_resolveApiIdentity entries authorization =
     (case bearer ''User '' authorization of
        None \<Rightarrow> None
      | Some name \<Rightarrow> (case map_get entries name of None \<Rightarrow> None | Some entry \<Rightarrow> Some (userFromEntry entry)))"

fun resolveApiIdentity :: "github_api \<Rightarrow> provider \<Rightarrow> string option \<Rightarrow> user_context option" where
  "resolveApiIdentity gh (GithubProvider users orgs) authorization = github_resolveApiIdentity gh users orgs authorization"
| "resolveApiIdentity gh (LocalProvider entries) authorization = local_resolveApiIdentity entries authorization"

datatype refresh_result = RefreshOk user_context | SessionExpired | AccessDenied

definition github_refreshSession ::
  "github_api \<Rightarrow> string list \<Rightarrow> string list \<Rightarrow> session_payload \<Rightarrow> refresh_result" where
  "github_refreshSession gh users orgs payload =
     (case resolveUser gh (sp_accessToken payload) of
        Inl _ \<Rightarrow> SessionExpired
      | Inr user \<Rightarrow> if \<not> isAllowed user users orgs then AccessDenied else RefreshOk user)"

definition local_refreshSession :: "(string, local_entry) jsmap \<Rightarrow> session_payload \<Rightarrow> refresh_result" where
  "local_refreshSession entries payload =
     (case map_get entries (sp_login payload) of
        None \<Rightarrow> AccessDenied
      | Some entry \<Rightarrow> RefreshOk (userFromEntry entry))"

fun refreshSession :: "github_api \<Rightarrow> provider \<Rightarrow> session_payload \<Rightarrow> refresh_result" where
  "refreshSession gh (GithubProvider users orgs) payload = github_refreshSession gh users orgs payload"
| "refreshSession gh (LocalProvider entries) payload = local_refreshSession entries payload"

lemmas provider_defs = github_resolveApiIdentity_def local_resolveApiIdentity_def
  github_refreshSession_def local_refreshSession_def

section \<open>The allow list\<close>

definition splitTopLevel :: "string \<Rightarrow> string list" where
  "splitTopLevel raw = filter (\<lambda>t. t \<noteq> []) (map js_trim (js_split (CHR '','') raw))"

definition splitFirstColon :: "string \<Rightarrow> string \<times> string" where
  "splitFirstColon entry =
     (case indexOf (CHR '':'') entry of None \<Rightarrow> (entry, []) | Some i \<Rightarrow> (take i entry, drop (Suc i) entry))"

definition buildProviderFactories :: "string option \<Rightarrow> string list" where
  \<comment> \<open>the value of \<open>LOCAL_DEPLOYMENT\<close>; the result is the ids of the factories\<close>
  "buildProviderFactories localDeployment = [''github''] @ (if localDeployment = Some ''1'' then [''local''] else [])"

definition create_provider :: "provider_deps \<Rightarrow> string \<Rightarrow> string list \<Rightarrow> string + provider" where
  "create_provider deps i bucket =
     (if i = ''github'' then createGithubProvider deps bucket else createLocalProvider bucket)"

fun fill_buckets ::
  "string list \<Rightarrow> string list \<Rightarrow> (string, string list) jsmap \<Rightarrow> string + (string, string list) jsmap" where
  "fill_buckets factories [] buckets = Inr buckets"
| "fill_buckets factories (entry # es) buckets =
     (case splitFirstColon entry of (i, rest) \<Rightarrow>
        if i \<notin> set factories then Inl (''unknown provider \"'' @ i @ ''\"'')
        else fill_buckets factories es
          (map_set i ((case map_get buckets i of Some b \<Rightarrow> b | None \<Rightarrow> []) @ [rest]) buckets))"

definition buildRegistry ::
  "string option \<Rightarrow> string list \<Rightarrow> provider_deps \<Rightarrow> string + (string, provider) jsmap" where
  \<comment> \<open>\<open>buckets\<close> is filled in the order \<open>order\<close> records\<close>
  "buildRegistry rawAuthAllow factories deps =
     (case fill_buckets factories (splitTopLevel (case rawAuthAllow of Some r \<Rightarrow> r | None \<Rightarrow> [])) [] of
        Inl err \<Rightarrow> Inl err
      | Inr buckets \<Rightarrow>
          parse_all (\<lambda>(i, bucket). case create_provider deps i bucket of Inl err \<Rightarrow> Inl err | Inr p \<Rightarrow> Inr (i, p)) buckets)"

definition byId :: "(string, provider) jsmap \<Rightarrow> string \<Rightarrow> provider option" where
  "byId reg i = map_get reg i"

definition apiAuthMiddleware ::
  "github_api \<Rightarrow> (string, provider) jsmap \<Rightarrow> string option \<Rightarrow> string option \<Rightarrow> user_context option" where
  \<comment> \<open>the headers \<open>x-auth-provider\<close> and \<open>authorization\<close>; \<open>None\<close> is the 401 reply\<close>
  "apiAuthMiddleware gh reg providerHeader authorization =
     (case providerHeader of
        None \<Rightarrow> None
      | Some i \<Rightarrow>
          if i = [] then None
          else (case byId reg i of None \<Rightarrow> None | Some p \<Rightarrow> resolveApiIdentity gh p authorization))"

section \<open>Sessions\<close>

datatype auth_reply = Redirect string | TextReply string nat | Proceed user_context

type_synonym auth_effect = "cookie_op list \<times> auth_reply"

definition redirectToLoginWithFlash :: "flash_payload \<Rightarrow> bool \<Rightarrow> auth_effect" where
  "redirectToLoginWithFlash flash secureCookies =
     ([SetCookie ''auth_flash'' (SealedFlash flash) (writeOpts ''/'' secureCookies SIXTY_SECONDS),
       DeleteCookie ''session'' (clearOpts ''/'' secureCookies)], Redirect ''/login'')"

definition loginRedirectUrl :: "string \<Rightarrow> string" where
  \<comment> \<open>the argument is \<open>url.pathname + url.search\<close>\<close>
  "loginRedirectUrl returnTo = ''/login?returnTo='' @ encodeURIComponent returnTo"

definition writeSession :: "session_payload \<Rightarrow> bool \<Rightarrow> cookie_op" where
  "writeSession payload secure =
     SetCookie ''session'' (SealedSession payload) (writeOpts ''/'' secure SEVEN_DAYS_SECONDS)"

definition refreshed :: "session_payload \<Rightarrow> user_context \<Rightarrow> int \<Rightarrow> session_payload" where
  "refreshed payload user now =
     \<lparr>sp_provider = sp_provider payload, sp_login = uc_login user, sp_mail = uc_mail user, sp_orgs = uc_orgs user,
      sp_accessToken = sp_accessToken payload, sp_resolvedAt = now, sp_exp = sp_exp payload\<rparr>"

definition sessionMiddleware ::
  "seals \<Rightarrow> github_api \<Rightarrow> (string, provider) jsmap \<Rightarrow> bool \<Rightarrow> int \<Rightarrow> string option \<Rightarrow> string \<Rightarrow> auth_effect" where
  "sessionMiddleware sl gh reg secureCookies now cookie returnTo =
     (case cookie of
        None \<Rightarrow> ([], Redirect (loginRedirectUrl returnTo))
      | Some raw \<Rightarrow>
          (case unsealSession sl raw of
             None \<Rightarrow> redirectToLoginWithFlash LoggedOut secureCookies
           | Some payload \<Rightarrow>
               if isExpired payload now then redirectToLoginWithFlash LoggedOut secureCookies
               else (case byId reg (sp_provider payload) of
                       None \<Rightarrow> redirectToLoginWithFlash LoggedOut secureCookies
                     | Some p \<Rightarrow>
                         if \<not> isStale payload now then ([], Proceed (userFromPayload payload))
                         else (case refreshSession gh p payload of
                                 AccessDenied \<Rightarrow> redirectToLoginWithFlash (Denied (sp_login payload)) secureCookies
                               | SessionExpired \<Rightarrow> redirectToLoginWithFlash LoggedOut secureCookies
                               | RefreshOk user \<Rightarrow>
                                   ([writeSession (refreshed payload user now) secureCookies], Proceed user)))))"

section \<open>Sign-in and sign-out\<close>

record github_deps =
  gd_secureCookies :: bool
  gd_clientId :: string
  gd_clientSecret :: string
  gd_baseUrl :: string

abbreviation callback_uri :: "github_deps \<Rightarrow> string" where
  "callback_uri deps \<equiv> gd_baseUrl deps @ ''/auth/github/callback''"

definition github_signin :: "github_deps \<Rightarrow> string \<Rightarrow> string option \<Rightarrow> auth_effect" where
  \<comment> \<open>\<open>state\<close> is \<open>generateState()\<close>\<close>
  "github_signin deps state returnToParam =
     (let returnTo = sanitizeReturnTo returnToParam
      in ([SetCookie ''auth_state'' (SealedState \<lparr>st_state = state, st_returnTo = returnTo\<rparr>)
             (writeOpts ''/auth'' (gd_secureCookies deps) FIVE_MINUTES_SECONDS)],
          Redirect (buildAuthorizeUrl (gd_clientId deps) (callback_uri deps) state)))"

definition new_session :: "string \<Rightarrow> user_context \<Rightarrow> string \<Rightarrow> int \<Rightarrow> session_payload" where
  "new_session i user token now =
     \<lparr>sp_provider = i, sp_login = uc_login user, sp_mail = uc_mail user, sp_orgs = uc_orgs user,
      sp_accessToken = token, sp_resolvedAt = now, sp_exp = now + SEVEN_DAYS_MS\<rparr>"

definition github_callback ::
  "seals \<Rightarrow> github_api \<Rightarrow> github_deps \<Rightarrow> string list \<Rightarrow> string list \<Rightarrow> int \<Rightarrow> string option \<Rightarrow> string option
     \<Rightarrow> string option \<Rightarrow> auth_effect" where
  "github_callback sl gh deps users orgs now codeParam stateParam stateCookie =
     (let clear = DeleteCookie ''auth_state'' (clearOpts ''/auth'' (gd_secureCookies deps));
          badRequest = TextReply ''Bad Request'' 400;
          badGateway = TextReply ''Bad Gateway'' 502
      in case (codeParam, stateParam, stateCookie) of
           (Some code, Some state, Some raw) \<Rightarrow>
             (case unseal_state sl raw of
                None \<Rightarrow> ([clear], badRequest)
              | Some sealed \<Rightarrow>
                  if st_state sealed \<noteq> state then ([clear], badRequest)
                  else (case exchangeCode gh (gd_clientId deps) (gd_clientSecret deps) code (callback_uri deps) of
                          Inl _ \<Rightarrow> ([clear], badGateway)
                        | Inr token \<Rightarrow>
                            (case resolveUser gh token of
                               Inl _ \<Rightarrow> ([clear], badGateway)
                             | Inr user \<Rightarrow>
                                 if \<not> isAllowed user users orgs
                                 then apfst (Cons clear)
                                   (redirectToLoginWithFlash (Denied (uc_login user)) (gd_secureCookies deps))
                                 else ([clear, writeSession (new_session ''github'' user token now) (gd_secureCookies deps)],
                                       Redirect (st_returnTo sealed)))))
         | _ \<Rightarrow> ([], badRequest))"

definition local_signin ::
  "bool \<Rightarrow> (string, local_entry) jsmap \<Rightarrow> int \<Rightarrow> string option \<Rightarrow> string option \<Rightarrow> auth_effect" where
  \<comment> \<open>the form fields \<open>user\<close> and \<open>returnTo\<close>, when they are strings\<close>
  "local_signin secureCookies entries now userField returnToField =
     (case map_get entries (case userField of Some n \<Rightarrow> n | None \<Rightarrow> []) of
        None \<Rightarrow> ([], TextReply ''Bad Request'' 400)
      | Some entry \<Rightarrow>
          ([writeSession (new_session ''local'' (userFromEntry entry) [] now) secureCookies],
           Redirect (sanitizeReturnTo returnToField)))"

definition logout :: "bool \<Rightarrow> string \<Rightarrow> auth_effect" where
  \<comment> \<open>\<open>/auth/logout\<close>, by request method\<close>
  "logout secure method =
     (if method = ''POST''
      then ([DeleteCookie ''session'' (clearOpts ''/'' secure),
             SetCookie ''auth_flash'' (SealedFlash LoggedOut) (writeOpts ''/'' secure SIXTY_SECONDS)], Redirect ''/login'')
      else ([], TextReply ''Method Not Allowed'' 405))"

section \<open>Authority of a session\<close>

text \<open>
  The sessions a server hands out, as a transition system. \<open>sealed\<close> are the payloads it has
  sealed so far, \<open>vouchers\<close> the users a provider answered for (with the time, the provider and
  the state of GitHub's API at that time), \<open>logins\<close> the times of sign-ins, and \<open>served\<close> the
  requests that were let through. GitHub's answers, the clock and what a cookie unseals to
  may differ from step to step; a cookie unseals to nothing the server did not seal (iron's
  seal is authenticated), but an old cookie may be presented again at any time.
\<close>

record auth_state =
  sealed :: "session_payload list"
  vouchers :: "(int \<times> string \<times> user_context \<times> github_api) list"
  logins :: "int list"
  served :: "(int \<times> user_context) list"

definition session_writes :: "cookie_op list \<Rightarrow> session_payload list" where
  "session_writes cs = concat (map (\<lambda>c. case c of SetCookie n (SealedSession p) _ \<Rightarrow> if n = ''session'' then [p] else [] | _ \<Rightarrow> []) cs)"

definition voucher_of :: "int \<Rightarrow> github_api \<Rightarrow> session_payload \<Rightarrow> int \<times> string \<times> user_context \<times> github_api" where
  "voucher_of now gh p = (now, sp_provider p, userFromPayload p, gh)"

definition sign_in :: "int \<Rightarrow> github_api \<Rightarrow> cookie_op list \<Rightarrow> auth_state \<Rightarrow> auth_state" where
  "sign_in now gh cs s =
     s\<lparr>sealed := session_writes cs @ sealed s, vouchers := map (voucher_of now gh) (session_writes cs) @ vouchers s,
       logins := map (\<lambda>_. now) (session_writes cs) @ logins s\<rparr>"

definition serve :: "int \<Rightarrow> github_api \<Rightarrow> cookie_op list \<Rightarrow> user_context \<Rightarrow> auth_state \<Rightarrow> auth_state" where
  "serve now gh cs user s =
     s\<lparr>sealed := session_writes cs @ sealed s, vouchers := map (voucher_of now gh) (session_writes cs) @ vouchers s,
       served := (now, user) # served s\<rparr>"

inductive auth_step :: "(string, provider) jsmap \<Rightarrow> auth_state \<Rightarrow> auth_state \<Rightarrow> bool" for reg where
  github_login:
    "byId reg ''github'' = Some (GithubProvider users orgs) \<Longrightarrow>
     github_callback sl gh deps users orgs now codeParam stateParam stateCookie = (cs, reply) \<Longrightarrow>
     auth_step reg s (sign_in now gh cs s)"
| local_login:
    "byId reg ''local'' = Some (LocalProvider entries) \<Longrightarrow>
     local_signin secure entries now userField returnToField = (cs, reply) \<Longrightarrow>
     auth_step reg s (sign_in now gh cs s)"
| request:
    "unsealSession sl raw = Some p \<Longrightarrow> p \<in> set (sealed s) \<Longrightarrow>
     sessionMiddleware sl gh reg secure now (Some raw) returnTo = (cs, Proceed user) \<Longrightarrow>
     auth_step reg s (serve now gh cs user s)"

definition auth_init :: "auth_state \<Rightarrow> bool" where
  "auth_init s = (sealed s = [] \<and> vouchers s = [] \<and> logins s = [] \<and> served s = [])"

definition vouched :: "(string, provider) jsmap \<Rightarrow> int \<times> string \<times> user_context \<times> github_api \<Rightarrow> bool" where
  \<comment> \<open>the configured provider answered for this user and its allow list has the user\<close>
  "vouched reg v =
     (case v of (t, i, user, gh) \<Rightarrow>
        (case byId reg i of
           None \<Rightarrow> False
         | Some (GithubProvider users orgs) \<Rightarrow>
             (\<exists>token. resolveUser gh token = Inr user) \<and> isAllowed user users orgs
         | Some (LocalProvider entries) \<Rightarrow> \<exists>entry \<in> set (vals entries). user = userFromEntry entry))"

definition payload_ok :: "auth_state \<Rightarrow> session_payload \<Rightarrow> bool" where
  "payload_ok s p \<longleftrightarrow> (\<exists>gh. (sp_resolvedAt p, sp_provider p, userFromPayload p, gh) \<in> set (vouchers s)) \<and>
     (\<exists>t \<in> set (logins s). sp_exp p = t + SEVEN_DAYS_MS)"

definition request_ok :: "auth_state \<Rightarrow> int \<times> user_context \<Rightarrow> bool" where
  "request_ok s r \<longleftrightarrow>
     (\<exists>(t, i, user, gh) \<in> set (vouchers s). user = snd r \<and> fst r < t + TEN_MINUTES_MS) \<and>
     (\<exists>t \<in> set (logins s). fst r < t + SEVEN_DAYS_MS)"

definition auth_inv :: "(string, provider) jsmap \<Rightarrow> auth_state \<Rightarrow> bool" where
  "auth_inv reg s = (list_all (payload_ok s) (sealed s) \<and> list_all (vouched reg) (vouchers s) \<and>
     list_all (request_ok s) (served s))"

lemma ok_mono:
  assumes "set (vouchers s) \<subseteq> set (vouchers s')" and "set (logins s) \<subseteq> set (logins s')"
  shows "payload_ok s p \<Longrightarrow> payload_ok s' p" and "request_ok s r \<Longrightarrow> request_ok s' r"
  using assms by (fastforce simp: payload_ok_def) (use assms in \<open>fastforce simp: request_ok_def\<close>)

lemma auth_users [simp]:
  "userFromPayload (new_session i user token now) = user" "userFromPayload (refreshed p user now) = user"
  by (simp_all add: userFromPayload_def new_session_def refreshed_def)

lemma payload_fields [simp]:
  "sp_provider (new_session i user token now) = i" "sp_resolvedAt (new_session i user token now) = now"
  "sp_exp (new_session i user token now) = now + SEVEN_DAYS_MS"
  "sp_provider (refreshed p user now) = sp_provider p" "sp_resolvedAt (refreshed p user now) = now"
  "sp_exp (refreshed p user now) = sp_exp p"
  by (simp_all add: new_session_def refreshed_def)

lemma session_writes_simps [simp]:
  "session_writes [] = []" "session_writes (DeleteCookie n co # cs) = session_writes cs"
  "session_writes (writeSession p secure # cs) = p # session_writes cs"
  "session_writes (fst (redirectToLoginWithFlash f secure)) = []"
  by (simp_all add: session_writes_def writeSession_def redirectToLoginWithFlash_def)

lemma callback_writes:
  assumes "github_callback sl gh deps users orgs now codeParam stateParam stateCookie = (cs, reply)"
  shows "session_writes cs = [] \<or> (\<exists>user token. session_writes cs = [new_session ''github'' user token now] \<and>
    resolveUser gh token = Inr user \<and> isAllowed user users orgs)"
proof -
  have f: "session_writes cs' = []" if "redirectToLoginWithFlash f secure = (cs', r)" for f secure cs' r
    using that session_writes_simps(4) [of f secure] by simp
  show ?thesis
    using assms unfolding github_callback_def Let_def
    by (auto simp: apfst_def map_prod_def split: option.splits sum.splits if_splits prod.splits dest: f)
qed

lemma local_writes:
  assumes "local_signin secure entries now userField returnToField = (cs, reply)"
  shows "session_writes cs = [] \<or> (\<exists>entry \<in> set (vals entries). session_writes cs = [new_session ''local'' (userFromEntry entry) [] now])"
  using assms by (auto simp: local_signin_def split: option.splits) (metis map_of_SomeD snd_conv)+

lemma middleware_proceeds:
  assumes "sessionMiddleware sl gh reg secure now (Some raw) returnTo = (cs, Proceed user)"
    and "unsealSession sl raw = Some p"
  shows "now < sp_exp p" and
    "session_writes cs = [] \<and> user = userFromPayload p \<and> now < sp_resolvedAt p + TEN_MINUTES_MS \<or>
     session_writes cs = [refreshed p user now] \<and>
       (\<exists>prov. byId reg (sp_provider p) = Some prov \<and> refreshSession gh prov p = RefreshOk user)"
proof -
  have f: "redirectToLoginWithFlash f secure \<noteq> (cs, Proceed user)" for f
    by (simp add: redirectToLoginWithFlash_def)
  show "now < sp_exp p"
    using assms f by (auto simp: sessionMiddleware_def isExpired_def split: if_splits)
  show "session_writes cs = [] \<and> user = userFromPayload p \<and> now < sp_resolvedAt p + TEN_MINUTES_MS \<or>
     session_writes cs = [refreshed p user now] \<and>
       (\<exists>prov. byId reg (sp_provider p) = Some prov \<and> refreshSession gh prov p = RefreshOk user)"
    using assms f
    by (auto simp: sessionMiddleware_def isStale_def split: if_splits option.splits refresh_result.splits)
qed

lemma refresh_vouched:
  assumes "byId reg i = Some prov" and "refreshSession gh prov p = RefreshOk user"
  shows "vouched reg (t, i, user, gh)"
proof (cases prov)
  case (GithubProvider users orgs)
  with assms show ?thesis by (auto simp: vouched_def provider_defs split: sum.splits if_splits)
next
  case (LocalProvider entries)
  with assms show ?thesis
    by (auto simp: vouched_def provider_defs split: option.splits) (metis map_of_SomeD snd_conv)
qed

lemma auth_inv_extend:
  assumes "auth_inv reg s" and "vouchers s' = vs @ vouchers s" and "set (logins s) \<subseteq> set (logins s')"
    and "sealed s' = ps @ sealed s" and "served s' = rs @ served s"
    and "list_all (vouched reg) vs" and "list_all (payload_ok s') ps" and "list_all (request_ok s') rs"
  shows "auth_inv reg s'"
  using assms ok_mono [of s s'] by (auto simp: auth_inv_def list_all_iff)

lemma auth_step_inv:
  assumes "auth_inv reg s" and "auth_step reg s s'"
  shows "auth_inv reg s'"
  using assms(2)
proof cases
  case (github_login users orgs sl gh deps now codeParam stateParam stateCookie cs reply)
  from callback_writes [OF this(3)] github_login(2) show ?thesis
    unfolding github_login(1)
    by (intro auth_inv_extend [OF assms(1)])
      (auto simp: sign_in_def voucher_of_def vouched_def payload_ok_def)
next
  case (local_login entries secure now userField returnToField cs reply gh)
  from local_writes [OF this(3)] local_login(2) show ?thesis
    unfolding local_login(1)
    by (intro auth_inv_extend [OF assms(1)])
      (auto 0 4 simp: sign_in_def voucher_of_def vouched_def payload_ok_def intro: rev_bexI)
next
  case (request sl raw p gh secure now returnTo cs user)
  have p: "payload_ok s p" using request(3) assms(1) by (auto simp: auth_inv_def list_all_iff)
  note m = middleware_proceeds [OF request(4,2)]
  have v: "list_all (vouched reg) (map (voucher_of now gh) (session_writes cs))"
    using m(2) refresh_vouched by (auto simp: voucher_of_def)
  show ?thesis
    unfolding request(1)
    using p m
    by (intro auth_inv_extend [OF assms(1), where rs = "[(now, user)]", OF _ _ _ _ v])
      (auto simp: serve_def voucher_of_def payload_ok_def request_ok_def TEN_MINUTES_MS_def)
qed

interpretation auth_sessions: invariant_system auth_init "auth_step reg" "auth_inv reg" for reg
  by unfold_locales (simp add: auth_init_def auth_inv_def, rule auth_step_inv)

text \<open>
  \<^bold>\<open>C19\<close>. Every request the session middleware lets through acts as a user for whom the
  configured provider answered less than ten minutes before, with its allow list satisfied,
  and less than seven days after a sign-in: a refresh extends neither, whatever cookies are
  presented again and in whatever order sign-ins and requests happen.
\<close>

theorem session_authority_fresh:
  assumes "reach auth_init (auth_step reg) s"
  shows "list_all (\<lambda>(now, user).
      (\<exists>(t, i, u, gh) \<in> set (vouchers s). u = user \<and> now < t + TEN_MINUTES_MS \<and> vouched reg (t, i, u, gh)) \<and>
      (\<exists>t \<in> set (logins s). now < t + SEVEN_DAYS_MS)) (served s)"
proof -
  have "auth_inv reg s" using assms by (rule auth_sessions.reach_inv)
  then show ?thesis by (fastforce simp: auth_inv_def list_all_iff request_ok_def)
qed

definition sample_entry :: local_entry where "sample_entry = \<lparr>le_name = ''ada'', le_orgs = [''acme'']\<rparr>"

definition sample_users :: "(string, provider) jsmap" where
  "sample_users = [(''local'', LocalProvider [(''ada'', sample_entry)])]"

definition sample_session :: session_payload where
  "sample_session = new_session ''local'' (userFromEntry sample_entry) [] 0"

definition no_auth :: auth_state where
  "no_auth = \<lparr>sealed = [], vouchers = [], logins = [], served = []\<rparr>"

definition sample_seals :: seals where
  "sample_seals = \<lparr>unseal_session = (\<lambda>_. Some (Some sample_session)), unseal_state = (\<lambda>_. None)\<rparr>"

definition offline :: github_api where
  "offline = \<lparr>gh_token = (\<lambda>_. NetworkError), gh_user = (\<lambda>_. NetworkError), gh_orgs = (\<lambda>_. NetworkError)\<rparr>"

theorem session_authority_fresh_witness:
  "\<exists>s. reach auth_init (auth_step sample_users) s \<and> served s = [(1000, userFromEntry sample_entry)] \<and>
     list_all (\<lambda>(now, user). \<exists>t \<in> set (logins s). now < t + SEVEN_DAYS_MS) (served s)"
proof -
  let ?cs = "[writeSession sample_session True]"
  let ?s1 = "sign_in 0 offline ?cs no_auth"
  let ?s2 = "serve 1000 offline [] (userFromEntry sample_entry) ?s1"
  have "auth_step sample_users no_auth ?s1"
    by (rule auth_step.local_login [where entries = "[(''ada'', sample_entry)]" and secure = True and userField = "Some ''ada''"
          and returnToField = None and reply = "Redirect ''/''"])
      (simp_all add: byId_def sample_users_def local_signin_def sample_session_def sanitizeReturnTo_def)
  moreover have "auth_step sample_users ?s1 ?s2"
    by (rule auth_step.request [where sl = sample_seals and raw = "''c''" and p = sample_session and secure = True
          and returnTo = "''/''"])
      (simp_all add: sign_in_def no_auth_def sessionMiddleware_def unsealSession_def sample_seals_def sample_session_def
        isExpired_def isStale_def byId_def sample_users_def SEVEN_DAYS_MS_def TEN_MINUTES_MS_def)
  moreover have "auth_init no_auth" by (simp add: auth_init_def no_auth_def)
  ultimately have r: "reach auth_init (auth_step sample_users) ?s2" by (meson reach.intros)
  from session_authority_fresh [OF r] have "list_all (\<lambda>(now, user). \<exists>t \<in> set (logins ?s2). now < t + SEVEN_DAYS_MS) (served ?s2)"
    by (auto simp: list_all_iff)
  moreover have "served ?s2 = [(1000, userFromEntry sample_entry)]" by (simp add: serve_def sign_in_def no_auth_def)
  ultimately show ?thesis using r by blast
qed

section \<open>Where a sign-in returns to\<close>

text \<open>
  A browser resolves the redirect against the engine's own URL: it first removes tabs and
  line breaks, takes a backslash for a slash, and goes to another host exactly when two
  slashes come first or a scheme does.
\<close>

definition url_text :: "string \<Rightarrow> string" where
  "url_text s = map (\<lambda>c. if c = CHR 0x5C then CHR ''/'' else c)
     (filter (\<lambda>c. c \<notin> {CHR 0x09, CHR 0x0A, CHR 0x0D}) s)"

definition same_origin :: "string \<Rightarrow> bool" where
  "same_origin s = (case url_text s of
     [] \<Rightarrow> True
   | [c] \<Rightarrow> c = CHR ''/''
   | c # d # _ \<Rightarrow> c = CHR ''/'' \<and> d \<noteq> CHR ''/'')"

definition no_breaks :: "string \<Rightarrow> bool" where
  "no_breaks s = list_all (\<lambda>c. c \<notin> {CHR 0x09, CHR 0x0A, CHR 0x0D}) s"

lemma safe_return_same_origin:
  assumes "isSafeReturnTo v" and "no_breaks v"
  shows "same_origin v"
proof -
  obtain cs where v: "v = CHR ''/'' # cs" "take 1 cs \<noteq> ''/''" "CHR 0x5C \<notin> set v"
    using assms(1) by (cases v) (auto simp: isSafeReturnTo_def numeral_2_eq_2 split: if_splits)
  have "filter (\<lambda>c. c \<notin> {CHR 0x09, CHR 0x0A, CHR 0x0D}) v = v"
    using assms(2) by (simp add: no_breaks_def list_all_iff filter_id_conv)
  moreover have "map (\<lambda>c. if c = CHR 0x5C then CHR ''/'' else c) v = v"
    using v(3) by (intro map_idI) auto
  ultimately have "url_text v = v" by (simp add: url_text_def)
  with v show ?thesis by (cases cs) (auto simp: same_origin_def)
qed

text \<open>A tab after the first slash passes the check, and the browser then sees two slashes.\<close>

lemma tab_leaves_origin:
  "isSafeReturnTo (CHR ''/'' # CHR 0x09 # ''/evil.example'') \<and>
   \<not> same_origin (CHR ''/'' # CHR 0x09 # ''/evil.example'')"
  by (simp add: isSafeReturnTo_def same_origin_def url_text_def)

end
