(* ===== verification/WsSource.thy ===== *)
theory WsSource
  imports Auth
begin

text \<open>
  The WebSocket trigger backend (\<open>packages/runtime/src/triggers/ws.ts\<close>): the table of entries,
  the registry of live connections, the upgrade pipeline, frame dispatch, the heartbeat and
  \<open>reconfigure\<close>.

  \<open>RegisteredConnection\<close> objects are compared by identity: they live in the list \<open>ws_conns\<close> and
  are referred to by index; the \<open>Set\<close> of a pair is a list of indices in insertion order. The
  sockets are the \<open>ws\<close> library's: \<open>wc_ready\<close> is \<open>readyState\<close>, \<open>close\<close> and \<open>terminate\<close> act on
  an open socket only, \<open>handleUpgrade\<close> either opens a socket or aborts the handshake. Frames may
  still arrive while a socket is closing. \<open>ws_upgrades\<close> holds the requests whose identity is
  being resolved, \<open>ws_waits\<close> the frames whose dispatch awaits \<open>fire\<close> or \<open>exception\<close>. \<open>wc_user\<close>,
  \<open>ws_out\<close>, \<open>ws_calls\<close> and \<open>ws_exceptions\<close> are histories: for whom a connection was opened,
  what was written to the sockets, which invocations were made, which exceptions reported.
\<close>

section \<open>Requests\<close>

definition WS_URL_PREFIX :: string where "WS_URL_PREFIX = ''/ws/''"

definition WS_CLOSE_GOING_AWAY :: nat where "WS_CLOSE_GOING_AWAY = 1001"
definition WS_CLOSE_INVALID_PAYLOAD :: nat where "WS_CLOSE_INVALID_PAYLOAD = 1007"
definition WS_CLOSE_SERVER_ERROR :: nat where "WS_CLOSE_SERVER_ERROR = 1011"
definition WS_CLOSE_SERVICE_RESTART :: nat where "WS_CLOSE_SERVICE_RESTART = 1012"

record scope_key =
  sk_owner :: string
  sk_repo :: string
  sk_workflow :: string
  sk_trigger :: string

datatype reject_reason =
    NotAnUpgrade | BadPath | MissingAuthorization | MissingProvider | BadBearer
  | OwnerNotMember | TriggerNotFound | TriggerWrongKind

datatype header_value = HStr string | HList "string list"

record upgrade_request =
  ur_method :: "string option"
  ur_url :: "string option"
  ur_headers :: "(string, header_value) jsmap"

record web_request =
  wr_url :: string
  wr_method :: string
  wr_headers :: "(string, string) jsmap"

definition headers_append :: "string \<Rightarrow> string \<Rightarrow> (string, string) jsmap \<Rightarrow> (string, string) jsmap" where
  "headers_append k v hs = map_set k (case map_get hs k of Some old \<Rightarrow> old @ '', '' @ v | None \<Rightarrow> v) hs"

definition buildRequestFromUpgrade :: "upgrade_request \<Rightarrow> web_request" where
  \<comment> \<open>the arguments of \<open>new Request\<close>; Node gives header names in lower case\<close>
  "buildRequestFromUpgrade req =
     (let headers = foldl (\<lambda>hs (k, v). case v of
            HList items \<Rightarrow> foldl (\<lambda>hs item. headers_append k item hs) hs items
          | HStr s \<Rightarrow> map_set k s hs) [] (ur_headers req);
          host = (case map_get (ur_headers req) ''host'' of Some (HStr h) \<Rightarrow> h | Some (HList hs) \<Rightarrow> js_join '','' hs | None \<Rightarrow> ''localhost'');
          url = ''http://'' @ host @ (case ur_url req of Some u \<Rightarrow> u | None \<Rightarrow> ''/'')
      in \<lparr>wr_url = url, wr_method = (case ur_method req of Some m \<Rightarrow> m | None \<Rightarrow> ''GET''), wr_headers = headers\<rparr>)"

definition parseScopeFromUrl :: "string option \<Rightarrow> scope_key option" where
  "parseScopeFromUrl urlOpt =
     (case urlOpt of
        None \<Rightarrow> None
      | Some u \<Rightarrow>
          let path = takeWhile (\<lambda>c. c \<noteq> CHR ''?'') u in
          if take (length WS_URL_PREFIX) path \<noteq> WS_URL_PREFIX then None
          else (case js_split (CHR ''/'') (drop (length WS_URL_PREFIX) path) of
                  [owner, repo, workflow, trigger] \<Rightarrow>
                    if \<not> OWNER_NAME_RE owner then None
                    else if \<not> REPO_NAME_RE repo then None
                    else if \<not> TRIGGER_NAME_RE workflow then None
                    else if \<not> TRIGGER_NAME_RE trigger then None
                    else Some \<lparr>sk_owner = owner, sk_repo = repo, sk_workflow = workflow, sk_trigger = trigger\<rparr>
                | _ \<Rightarrow> None))"

definition isUpgradeRequest :: "upgrade_request \<Rightarrow> bool" where
  "isUpgradeRequest req =
     (case map_get (ur_headers req) ''upgrade'' of
        None \<Rightarrow> False
      | Some (HStr s) \<Rightarrow> toLowerCase s = ''websocket''
      | Some (HList ss) \<Rightarrow> toLowerCase (js_join '','' ss) = ''websocket'')"

section \<open>State\<close>

datatype ready_state = WsOpen | WsClosing | WsClosed

record connection =
  wc_scope :: scope_key
  wc_entry :: trigger_entry
  wc_isAlive :: bool
  wc_ready :: ready_state
  wc_user :: user_context

datatype ws_output = WsText json | WsClose nat string | WsPing | WsTerminate

datatype ws_wait = AfterFire fire_result | AfterException nat string

record ws_source =
  ws_entries :: "(string, (string, trigger_entry) jsmap) jsmap"
  ws_conns :: "connection list"
  ws_byPair :: "(string, nat list) jsmap"
  ws_heartbeat :: bool
  ws_stopped :: bool
  ws_upgrades :: "(scope_key \<times> provider \<times> web_request) list"
  ws_waits :: "(nat \<times> ws_wait) list"
  ws_out :: "(nat \<times> ws_output) list"
  ws_calls :: "(nat \<times> invoke_call) list"
  ws_exceptions :: "(nat \<times> exception_params) list"
  ws_rejects :: "reject_reason list"

definition createWsTriggerSource :: ws_source where
  "createWsTriggerSource =
     \<lparr>ws_entries = [], ws_conns = [], ws_byPair = [], ws_heartbeat = False, ws_stopped = False,
      ws_upgrades = [], ws_waits = [], ws_out = [], ws_calls = [], ws_exceptions = [], ws_rejects = []\<rparr>"

definition lookupEntry :: "ws_source \<Rightarrow> scope_key \<Rightarrow> trigger_entry option" where
  "lookupEntry st scope =
     Option.bind (map_get (ws_entries st) (pairKey (sk_owner scope) (sk_repo scope)))
       (\<lambda>m. map_get m (triggerKey (sk_workflow scope) (sk_trigger scope)))"

abbreviation conn_pair :: "connection \<Rightarrow> string" where
  "conn_pair c \<equiv> pairKey (sk_owner (wc_scope c)) (sk_repo (wc_scope c))"

definition upd_conn :: "ws_source \<Rightarrow> nat \<Rightarrow> (connection \<Rightarrow> connection) \<Rightarrow> ws_source" where
  "upd_conn st c f = st\<lparr>ws_conns := (ws_conns st)[c := f (ws_conns st ! c)]\<rparr>"

definition ws_close :: "ws_source \<Rightarrow> nat \<Rightarrow> nat \<Rightarrow> string \<Rightarrow> ws_source" where
  \<comment> \<open>\<open>ws.close(code, reason)\<close>\<close>
  "ws_close st c code reason =
     (if wc_ready (ws_conns st ! c) = WsOpen
      then (upd_conn st c (\<lambda>w. w\<lparr>wc_ready := WsClosing\<rparr>))\<lparr>ws_out := ws_out st @ [(c, WsClose code reason)]\<rparr>
      else st)"

definition ws_terminate :: "ws_source \<Rightarrow> nat \<Rightarrow> ws_source" where
  \<comment> \<open>\<open>ws.terminate()\<close>\<close>
  "ws_terminate st c = (upd_conn st c (\<lambda>w. w\<lparr>wc_ready := WsClosed\<rparr>))\<lparr>ws_out := ws_out st @ [(c, WsTerminate)]\<rparr>"

definition registerConnection :: "ws_source \<Rightarrow> nat \<Rightarrow> ws_source" where
  "registerConnection st c =
     (let key = conn_pair (ws_conns st ! c);
          cs = (case map_get (ws_byPair st) key of Some cs \<Rightarrow> cs | None \<Rightarrow> [])
      in st\<lparr>ws_byPair := map_set key (set_add c cs) (ws_byPair st)\<rparr>)"

definition unregisterConnection :: "ws_source \<Rightarrow> nat \<Rightarrow> ws_source" where
  "unregisterConnection st c =
     (let key = conn_pair (ws_conns st ! c)
      in case map_get (ws_byPair st) key of
           None \<Rightarrow> st
         | Some cs \<Rightarrow> st\<lparr>ws_byPair := map_set key (removeAll c cs) (ws_byPair st)\<rparr>)"

section \<open>Upgrades\<close>

datatype sync_check = PassThrough | SyncReject reject_reason | SyncOk scope_key provider

definition preauthChecks :: "(string, provider) jsmap \<Rightarrow> upgrade_request \<Rightarrow> sync_check" where
  "preauthChecks reg req =
     (if (case ur_url req of None \<Rightarrow> True | Some u \<Rightarrow> take (length WS_URL_PREFIX) u \<noteq> WS_URL_PREFIX) then PassThrough
      else (case parseScopeFromUrl (ur_url req) of
              None \<Rightarrow> SyncReject BadPath
            | Some scope \<Rightarrow>
                if \<not> isUpgradeRequest req then SyncReject NotAnUpgrade
                else (case map_get (ur_headers req) ''x-auth-provider'' of
                        Some (HStr providerId) \<Rightarrow>
                          if providerId = [] then SyncReject MissingProvider
                          else (case byId reg providerId of
                                  None \<Rightarrow> SyncReject MissingProvider
                                | Some provider \<Rightarrow>
                                    (case map_get (ur_headers req) ''authorization'' of
                                       Some (HStr auth) \<Rightarrow>
                                         if auth = [] then SyncReject MissingAuthorization else SyncOk scope provider
                                     | _ \<Rightarrow> SyncReject MissingAuthorization))
                      | _ \<Rightarrow> SyncReject MissingProvider)))"

definition postAuthChecks :: "ws_source \<Rightarrow> scope_key \<Rightarrow> user_context option \<Rightarrow> reject_reason + user_context \<times> trigger_entry" where
  "postAuthChecks st scope user =
     (case user of
        None \<Rightarrow> Inl BadBearer
      | Some u \<Rightarrow>
          if \<not> isMember u (sk_owner scope) then Inl OwnerNotMember
          else (case lookupEntry st scope of
                  None \<Rightarrow> Inl TriggerNotFound
                | Some entry \<Rightarrow>
                    if kind_of (td_config (te_descriptor entry)) \<noteq> ''ws'' then Inl TriggerWrongKind
                    else Inr (u, entry)))"

definition ws_reject :: "ws_source \<Rightarrow> reject_reason \<Rightarrow> ws_source" where
  \<comment> \<open>\<open>logReject\<close> and \<open>rejectUpgrade\<close>\<close>
  "ws_reject st reason = st\<lparr>ws_rejects := ws_rejects st @ [reason]\<rparr>"

datatype upgrade_outcome = Ignored | Refused | Pending | UpgradeThrew

definition upgradeHandler ::
  "(web_request \<Rightarrow> bool) \<Rightarrow> (string, provider) jsmap \<Rightarrow> ws_source \<Rightarrow> upgrade_request \<Rightarrow> ws_source \<times> upgrade_outcome" where
  \<comment> \<open>up to the await of the identity; \<open>valid\<close> tells whether \<open>new Request\<close> accepts its arguments\<close>
  "upgradeHandler valid reg st req =
     (case preauthChecks reg req of
        PassThrough \<Rightarrow> (st, Ignored)
      | SyncReject reason \<Rightarrow> (ws_reject st reason, Refused)
      | SyncOk scope provider \<Rightarrow>
          let wrappedReq = buildRequestFromUpgrade req
          in if valid wrappedReq then (st\<lparr>ws_upgrades := ws_upgrades st @ [(scope, provider, wrappedReq)]\<rparr>, Pending)
             else (st, UpgradeThrew))"

definition onConnection :: "ws_source \<Rightarrow> scope_key \<Rightarrow> trigger_entry \<Rightarrow> user_context \<Rightarrow> ws_source" where
  "onConnection st scope entry user =
     registerConnection
       (st\<lparr>ws_conns := ws_conns st @ [\<lparr>wc_scope = scope, wc_entry = entry, wc_isAlive = True, wc_ready = WsOpen, wc_user = user\<rparr>]\<rparr>)
       (length (ws_conns st))"

definition upgrade_resolved :: "github_api \<Rightarrow> bool \<Rightarrow> ws_source \<Rightarrow> nat \<Rightarrow> ws_source" where
  \<comment> \<open>the continuation after \<open>resolveApiIdentity\<close>; \<open>handshake\<close>: the library opens the socket\<close>
  "upgrade_resolved gh handshake st k =
     (case ws_upgrades st ! k of (scope, provider, req) \<Rightarrow>
        let st1 = st\<lparr>ws_upgrades := splice1 k (ws_upgrades st)\<rparr> in
        (case postAuthChecks st1 scope (resolveApiIdentity gh provider (map_get (wr_headers req) ''authorization'')) of
           Inl reason \<Rightarrow> ws_reject st1 reason
         | Inr (user, entry) \<Rightarrow> if handshake then onConnection st1 scope entry user else st1))"

definition upgrade_failed :: "ws_source \<Rightarrow> nat \<Rightarrow> ws_source" where
  \<comment> \<open>the \<open>catch\<close>: the socket is refused and nothing else happens\<close>
  "upgrade_failed st k = st\<lparr>ws_upgrades := splice1 k (ws_upgrades st)\<rparr>"

section \<open>Frames\<close>

datatype ws_frame = BinaryFrame | TextFrame "json option"

definition ws_exception :: "string \<Rightarrow> (string \<times> json) list option \<Rightarrow> exception_params" where
  "ws_exception n inp =
     \<lparr>xp_kind = Some ''trigger.rejection'', xp_name = n, xp_error = None, xp_input = inp, xp_details = None\<rparr>"

definition dispatchFrame ::
  "schemas \<Rightarrow> (invoke_call \<Rightarrow> invoke_result) \<Rightarrow> ws_source \<Rightarrow> nat \<Rightarrow> ws_frame \<Rightarrow> ws_source" where
  \<comment> \<open>the message listener up to the first await; \<open>TextFrame None\<close> does not parse\<close>
  "dispatchFrame zs invoke st c frame =
     (case frame of
        BinaryFrame \<Rightarrow> ws_close st c WS_CLOSE_INVALID_PAYLOAD ''binary frame''
      | TextFrame None \<Rightarrow>
          st\<lparr>ws_exceptions := ws_exceptions st @ [(c, ws_exception ''ws.json-parse'' None)],
             ws_waits := ws_waits st @ [(c, AfterException WS_CLOSE_INVALID_PAYLOAD ''json parse'')]\<rparr>
      | TextFrame (Some parsed) \<Rightarrow>
          (case buildFire zs invoke (wc_entry (ws_conns st ! c)) (JObj [(''data'', parsed)])
              (Some \<lparr>dm_source = ''ws'', dm_user = None\<rparr>) of
             (result, calls) \<Rightarrow>
               st\<lparr>ws_calls := ws_calls st @ map (Pair c) calls, ws_waits := ws_waits st @ [(c, AfterFire result)]\<rparr>))"

definition sendReply :: "bool \<Rightarrow> ws_source \<Rightarrow> nat \<Rightarrow> json \<Rightarrow> ws_source" where
  \<comment> \<open>\<open>sendable\<close>: neither \<open>JSON.stringify\<close> nor \<open>send\<close> throws\<close>
  "sendReply sendable st c out =
     (if sendable then st\<lparr>ws_out := ws_out st @ [(c, WsText out)]\<rparr>
      else ws_close st c WS_CLOSE_SERVER_ERROR ''send failed'')"

definition after_fire :: "bool \<Rightarrow> ws_source \<Rightarrow> nat \<Rightarrow> fire_result \<Rightarrow> ws_source" where
  "after_fire sendable st c result =
     (if wc_ready (ws_conns st ! c) \<noteq> WsOpen then st
      else (case result of
              FireOk out \<Rightarrow> sendReply sendable st c out
            | FireFailed message stack None \<Rightarrow> ws_close st c WS_CLOSE_SERVER_ERROR ''handler''
            | FireFailed message stack (Some issues) \<Rightarrow>
                st\<lparr>ws_exceptions := ws_exceptions st @
                     [(c, ws_exception ''ws.body-validation'' (Some [(''issues'', issues_json issues)]))],
                   ws_waits := ws_waits st @ [(c, AfterException WS_CLOSE_INVALID_PAYLOAD ''schema'')]\<rparr>))"

definition dispatch_resumed :: "bool \<Rightarrow> ws_source \<Rightarrow> nat \<Rightarrow> ws_source" where
  "dispatch_resumed sendable st k =
     (case ws_waits st ! k of (c, w) \<Rightarrow>
        let st1 = st\<lparr>ws_waits := splice1 k (ws_waits st)\<rparr> in
        (case w of
           AfterFire result \<Rightarrow> after_fire sendable st1 c result
         | AfterException code reason \<Rightarrow> ws_close st1 c code reason))"

definition dispatch_threw :: "ws_source \<Rightarrow> nat \<Rightarrow> ws_source" where
  \<comment> \<open>the \<open>catch\<close> of the message listener\<close>
  "dispatch_threw st k =
     (case ws_waits st ! k of (c, w) \<Rightarrow>
        ws_close (st\<lparr>ws_waits := splice1 k (ws_waits st)\<rparr>) c WS_CLOSE_SERVER_ERROR ''dispatch'')"

section \<open>Heartbeat and lifecycle\<close>

definition pong :: "ws_source \<Rightarrow> nat \<Rightarrow> ws_source" where
  "pong st c = upd_conn st c (\<lambda>w. w\<lparr>wc_isAlive := True\<rparr>)"

definition closing :: "ws_source \<Rightarrow> nat \<Rightarrow> ws_source" where
  \<comment> \<open>the peer starts the closing handshake\<close>
  "closing st c = upd_conn st c (\<lambda>w. w\<lparr>wc_ready := (if wc_ready w = WsOpen then WsClosing else wc_ready w)\<rparr>)"

definition close_event :: "ws_source \<Rightarrow> nat \<Rightarrow> ws_source" where
  "close_event st c = unregisterConnection (upd_conn st c (\<lambda>w. w\<lparr>wc_ready := WsClosed\<rparr>)) c"

definition tickConnection :: "ws_source \<Rightarrow> nat \<Rightarrow> ws_source" where
  "tickConnection st c =
     (if \<not> wc_isAlive (ws_conns st ! c) then unregisterConnection (ws_terminate st c) c
      else (let st1 = upd_conn st c (\<lambda>w. w\<lparr>wc_isAlive := False\<rparr>) in st1\<lparr>ws_out := ws_out st1 @ [(c, WsPing)]\<rparr>))"

definition heartbeatTick :: "ws_source \<Rightarrow> ws_source" where
  "heartbeatTick st = foldl tickConnection st (concat (vals (ws_byPair st)))"

definition evict_one :: "(string, trigger_entry) jsmap \<Rightarrow> ws_source \<Rightarrow> nat \<Rightarrow> ws_source" where
  "evict_one newMap st c =
     (let scope = wc_scope (ws_conns st ! c)
      in if map_has newMap (triggerKey (sk_workflow scope) (sk_trigger scope)) then st
         else unregisterConnection (ws_close st c WS_CLOSE_SERVICE_RESTART ''service restart'') c)"

definition evictMissingConnections :: "ws_source \<Rightarrow> string \<Rightarrow> (string, trigger_entry) jsmap \<Rightarrow> ws_source" where
  "evictMissingConnections st key newMap =
     (case map_get (ws_byPair st) key of None \<Rightarrow> st | Some conns \<Rightarrow> foldl (evict_one newMap) st conns)"

definition ws_reconfigure ::
  "unit \<Rightarrow> ws_source \<Rightarrow> string \<Rightarrow> string \<Rightarrow> trigger_entry list \<Rightarrow> ws_source" where
  "ws_reconfigure _ st owner repo newEntries =
     (if ws_stopped st then st
      else
        let key = pairKey owner repo;
            newMap = foldl (\<lambda>m e. map_set (entry_key e) e m) [] newEntries;
            st1 = evictMissingConnections st key newMap
        in if newMap = [] then st1\<lparr>ws_entries := map_delete key (ws_entries st1)\<rparr>
           else st1\<lparr>ws_entries := map_set key newMap (ws_entries st1), ws_heartbeat := True\<rparr>)"

definition ws_stop :: "ws_source \<Rightarrow> ws_source" where
  "ws_stop st =
     (let st1 = st\<lparr>ws_stopped := True, ws_heartbeat := False\<rparr>;
          st2 = foldl (\<lambda>s c. ws_close s c WS_CLOSE_GOING_AWAY ''going away'') st1 (concat (vals (ws_byPair st1)))
      in st2\<lparr>ws_byPair := [], ws_entries := []\<rparr>)"


section \<open>What the operations keep\<close>

abbreviation open_conn :: "ws_source \<Rightarrow> nat \<Rightarrow> bool" where
  "open_conn st c \<equiv> c < length (ws_conns st) \<and> wc_ready (ws_conns st ! c) = WsOpen"

definition registered :: "ws_source \<Rightarrow> nat \<Rightarrow> bool" where
  "registered st c \<longleftrightarrow> (\<exists>cs. map_get (ws_byPair st) (conn_pair (ws_conns st ! c)) = Some cs \<and> c \<in> set cs)"

definition conn_ids :: "ws_source \<Rightarrow> (scope_key \<times> trigger_entry \<times> user_context) list" where
  "conn_ids st = map (\<lambda>w. (wc_scope w, wc_entry w, wc_user w)) (ws_conns st)"

definition waiting :: "ws_source \<Rightarrow> nat set" where
  "waiting st = fst ` set (ws_waits st)"

text \<open>A step that opens nothing, unregisters no open connection and keeps the tables.\<close>

definition calm :: "ws_source \<Rightarrow> ws_source \<Rightarrow> bool" where
  "calm st st' \<longleftrightarrow> conn_ids st' = conn_ids st \<and> ws_entries st' = ws_entries st \<and> ws_stopped st' = ws_stopped st \<and>
     ws_calls st' = ws_calls st \<and> set (ws_upgrades st') \<subseteq> set (ws_upgrades st) \<and>
     waiting st' \<subseteq> waiting st \<and>
     (\<forall>c. open_conn st' c \<longrightarrow> open_conn st c \<and> (registered st c \<longrightarrow> registered st' c))"

lemma conn_ids_nth:
  assumes "conn_ids st' = conn_ids st"
  shows "length (ws_conns st') = length (ws_conns st)"
    and "c < length (ws_conns st) \<Longrightarrow> wc_scope (ws_conns st' ! c) = wc_scope (ws_conns st ! c) \<and>
      wc_entry (ws_conns st' ! c) = wc_entry (ws_conns st ! c) \<and> wc_user (ws_conns st' ! c) = wc_user (ws_conns st ! c)"
proof -
  show len: "length (ws_conns st') = length (ws_conns st)"
    using arg_cong [OF assms, of length] by (simp add: conn_ids_def)
  show "c < length (ws_conns st) \<Longrightarrow> wc_scope (ws_conns st' ! c) = wc_scope (ws_conns st ! c) \<and>
      wc_entry (ws_conns st' ! c) = wc_entry (ws_conns st ! c) \<and> wc_user (ws_conns st' ! c) = wc_user (ws_conns st ! c)"
    using arg_cong [OF assms, of "\<lambda>xs. xs ! c"] len by (simp add: conn_ids_def)
qed

lemma calm_refl [simp, intro]: "calm st st"
  by (simp add: calm_def)

lemma calm_trans [trans]: "calm a b \<Longrightarrow> calm b c \<Longrightarrow> calm a c"
  unfolding calm_def by auto

lemma calm_foldl: "(\<And>s x. x \<in> set xs \<Longrightarrow> calm s (f s x)) \<Longrightarrow> calm st (foldl f st xs)"
proof (induction xs arbitrary: st)
  case (Cons x xs)
  have "calm st (f st x)" "calm (f st x) (foldl f (f st x) xs)" using Cons by auto
  then show ?case by (simp, rule calm_trans)
qed simp

lemma upd_conn_frame [simp]:
  "ws_entries (upd_conn st c f) = ws_entries st" "ws_byPair (upd_conn st c f) = ws_byPair st"
  "ws_stopped (upd_conn st c f) = ws_stopped st" "ws_calls (upd_conn st c f) = ws_calls st"
  "ws_upgrades (upd_conn st c f) = ws_upgrades st" "ws_waits (upd_conn st c f) = ws_waits st"
  "length (ws_conns (upd_conn st c f)) = length (ws_conns st)"
  by (simp_all add: upd_conn_def)

lemma waiting_frame [simp]:
  "waiting (upd_conn st c f) = waiting st"
  by (simp_all add: waiting_def)

lemma upd_conn_nth:
  "d < length (ws_conns st) \<Longrightarrow> ws_conns (upd_conn st c f) ! d = (if d = c then f (ws_conns st ! d) else ws_conns st ! d)"
  by (auto simp: upd_conn_def nth_list_update)

lemma upd_conn_ids:
  assumes "\<And>w. wc_scope (f w) = wc_scope w" "\<And>w. wc_entry (f w) = wc_entry w" "\<And>w. wc_user (f w) = wc_user w"
  shows "conn_ids (upd_conn st c f) = conn_ids st"
  using assms by (auto simp: conn_ids_def upd_conn_nth intro!: nth_equalityI)

lemma upd_conn_pair:
  assumes "\<And>w. wc_scope (f w) = wc_scope w"
  shows "wc_scope (ws_conns (upd_conn st c f) ! d) = wc_scope (ws_conns st ! d)"
  using assms by (simp add: upd_conn_def nth_update)

lemma calm_upd:
  assumes "\<And>w. wc_scope (f w) = wc_scope w" "\<And>w. wc_entry (f w) = wc_entry w" "\<And>w. wc_user (f w) = wc_user w"
    and "\<And>w. wc_ready (f w) = WsOpen \<Longrightarrow> wc_ready w = WsOpen"
  shows "calm st (upd_conn st c f)"
  using assms(4) upd_conn_ids [of f, OF assms(1-3)] upd_conn_pair [of f, OF assms(1)]
  using assms(1) by (auto simp: calm_def registered_def upd_conn_nth split: if_splits)

lemma registered_unregister:
  "registered (unregisterConnection st c) d \<longleftrightarrow> registered st d \<and> d \<noteq> c"
  by (auto simp: registered_def unregisterConnection_def Let_def split: option.splits)

lemma unregister_frame [simp]:
  "ws_entries (unregisterConnection st c) = ws_entries st" "ws_conns (unregisterConnection st c) = ws_conns st"
  "ws_stopped (unregisterConnection st c) = ws_stopped st" "ws_calls (unregisterConnection st c) = ws_calls st"
  "ws_upgrades (unregisterConnection st c) = ws_upgrades st" "ws_waits (unregisterConnection st c) = ws_waits st"
  "conn_ids (unregisterConnection st c) = conn_ids st"
  by (simp_all add: unregisterConnection_def Let_def conn_ids_def split: option.split)

lemma waiting_unregister [simp]: "waiting (unregisterConnection st c) = waiting st"
  by (simp add: waiting_def)

lemma calm_unregister: "\<not> open_conn st c \<Longrightarrow> calm st (unregisterConnection st c)"
  by (auto simp: calm_def registered_unregister)

lemma calm_same:
  "ws_conns st' = ws_conns st \<Longrightarrow> ws_byPair st' = ws_byPair st \<Longrightarrow> ws_entries st' = ws_entries st \<Longrightarrow>
   ws_stopped st' = ws_stopped st \<Longrightarrow> ws_calls st' = ws_calls st \<Longrightarrow>
   set (ws_upgrades st') \<subseteq> set (ws_upgrades st) \<Longrightarrow> waiting st' \<subseteq> waiting st \<Longrightarrow> calm st st'"
  by (auto simp: calm_def conn_ids_def registered_def)

lemma calm_out: "calm st (st\<lparr>ws_out := x\<rparr>)"
  by (rule calm_same) (simp_all add: waiting_def)

lemma ws_close_frame [simp]:
  "length (ws_conns (ws_close st c code reason)) = length (ws_conns st)"
  "wc_scope (ws_conns (ws_close st c code reason) ! d) = wc_scope (ws_conns st ! d)"
  "ws_byPair (ws_close st c code reason) = ws_byPair st"
  by (simp_all add: ws_close_def upd_conn_pair)

lemma ws_close_not_open: "\<not> open_conn (ws_close st c code reason) c"
  by (auto simp: ws_close_def upd_conn_nth)

lemma calm_close: "calm st (ws_close st c code reason)"
proof -
  have "calm st (upd_conn st c (\<lambda>w. w\<lparr>wc_ready := WsClosing\<rparr>))" by (rule calm_upd) simp_all
  then show ?thesis by (auto simp: ws_close_def intro: calm_trans calm_out)
qed

lemma calm_terminate: "calm st (ws_terminate st c)" "\<not> open_conn (ws_terminate st c) c"
proof -
  have "calm st (upd_conn st c (\<lambda>w. w\<lparr>wc_ready := WsClosed\<rparr>))" by (rule calm_upd) simp_all
  then show "calm st (ws_terminate st c)" by (auto simp: ws_terminate_def intro: calm_trans calm_out)
qed (auto simp: ws_terminate_def upd_conn_nth)

lemma calm_tick: "calm st (tickConnection st c)"
proof (cases "wc_isAlive (ws_conns st ! c)")
  case True
  have "calm st (upd_conn st c (\<lambda>w. w\<lparr>wc_isAlive := False\<rparr>))" by (rule calm_upd) simp_all
  with True show ?thesis by (auto simp: tickConnection_def Let_def intro: calm_trans calm_out)
next
  case False
  then show ?thesis
    using calm_trans [OF calm_terminate(1) calm_unregister [OF calm_terminate(2)]] by (simp add: tickConnection_def)
qed

lemma calm_evict: "calm st (evict_one newMap st c)"
  using calm_trans [OF calm_close calm_unregister [OF ws_close_not_open]] by (simp add: evict_one_def Let_def)

lemma calm_evictAll: "calm st (evictMissingConnections st key newMap)"
  by (auto simp: evictMissingConnections_def calm_evict intro: calm_foldl split: option.split)

lemma splice1_set: "set (splice1 k xs) \<subseteq> set xs"
  by (auto simp: splice1_def dest: in_set_takeD in_set_dropD)

lemma calm_resumed:
  assumes "k < length (ws_waits st)"
  shows "calm st (dispatch_resumed sendable st k)" "calm st (dispatch_threw st k)"
proof -
  obtain c w where cw: "ws_waits st ! k = (c, w)" by fastforce
  then have c: "c \<in> waiting st" using assms unfolding waiting_def by (metis fst_conv image_eqI nth_mem)
  let ?st = "st\<lparr>ws_waits := splice1 k (ws_waits st)\<rparr>"
  have sub: "fst ` set (splice1 k (ws_waits st)) \<subseteq> waiting st"
    unfolding waiting_def by (rule image_mono) (rule splice1_set)
  then have splice: "calm st ?st" by (intro calm_same) (simp_all add: waiting_def)
  note closed = calm_trans [OF splice calm_close] and sent = calm_trans [OF splice calm_out]
  from cw show "calm st (dispatch_threw st k)" by (simp add: dispatch_threw_def closed)
  have again: "calm st (?st\<lparr>ws_exceptions := xs, ws_waits := ws_waits ?st @ [(c, v)]\<rparr>)" for xs v
    using sub c by (intro calm_same) (simp_all add: waiting_def)
  have "calm st (after_fire sendable ?st c result)" for result
    unfolding after_fire_def sendReply_def
    by (simp only: splice sent closed again split: if_split fire_result.split option.split) simp
  with cw show "calm st (dispatch_resumed sendable st k)"
    by (simp add: dispatch_resumed_def Let_def closed split: ws_wait.split)
qed


section \<open>The source keeps its contract\<close>

lemma evict_entries [simp]:
  "ws_entries (evictMissingConnections st key m) = ws_entries st"
  "ws_stopped (evictMissingConnections st key m) = ws_stopped st"
  using calm_evictAll [of st key m] by (simp_all add: calm_def)

definition ws_getEntry :: "ws_source \<Rightarrow> string \<Rightarrow> string \<Rightarrow> string \<Rightarrow> string \<Rightarrow> trigger_entry option" where
  "ws_getEntry st owner repo workflow trigger =
     lookupEntry st \<lparr>sk_owner = owner, sk_repo = repo, sk_workflow = workflow, sk_trigger = trigger\<rparr>"

lemma new_map_lookup:
  "map_get (foldl (\<lambda>m e. map_set (entry_key e) e m) [] es) k = find (\<lambda>e. entry_key e = k) (rev es)"
  by (simp add: by_trigger_lookup split: option.split)

lemma new_map_Nil: "foldl (\<lambda>m e. map_set (entry_key e) e m) [] es = [] \<Longrightarrow> find (\<lambda>e. entry_key e = k) (rev es) = None"
  using new_map_lookup [of es k] by simp

interpretation ws: trigger_source createWsTriggerSource ws_reconfigure ws_getEntry "\<lambda>st. \<not> ws_stopped st"
proof unfold_locales
  fix o1 o2 r r' w t :: string and es a and s :: ws_source
  show "\<not> ws_stopped createWsTriggerSource" by (simp add: createWsTriggerSource_def)
  show "ws_getEntry createWsTriggerSource o1 r w t = None"
    by (simp add: ws_getEntry_def lookupEntry_def createWsTriggerSource_def)
  assume run: "\<not> ws_stopped s"
  then show "\<not> ws_stopped (ws_reconfigure a s o1 r es)"
    by (simp add: ws_reconfigure_def Let_def)
  show "ws_getEntry (ws_reconfigure a s o1 r es) o1 r w t = find (named w t) (rev es)"
    if "entries_ok es" "slash_free t"
    using run new_map_Nil [of es "triggerKey w t"] find_named [OF that, of w]
    by (auto simp: ws_getEntry_def lookupEntry_def ws_reconfigure_def Let_def new_map_lookup)
  show "ws_getEntry (ws_reconfigure a s o1 r es) o2 r' w t = ws_getEntry s o2 r' w t"
    if "slash_free o1" "slash_free o2" "(o1, r) \<noteq> (o2, r')"
    using run that by (auto simp: ws_getEntry_def lookupEntry_def ws_reconfigure_def Let_def pairKey_inj)
qed

section \<open>The transition system\<close>

definition entries_bound :: "string \<Rightarrow> string \<Rightarrow> trigger_entry list \<Rightarrow> bool" where
  \<comment> \<open>what the registry hands over: entries that fire as this owner and repository\<close>
  "entries_bound owner repo es = (slash_free owner \<and> entries_ok es \<and>
     list_all (\<lambda>e. rq_owner (te_request e) = owner \<and> rq_repo (te_request e) = repo) es)"

inductive ws_step :: "(string, provider) jsmap \<Rightarrow> ws_source \<Rightarrow> ws_source \<Rightarrow> bool" for reg where
  ws_configured: "entries_bound owner repo es \<Longrightarrow> ws_step reg st (ws_reconfigure () st owner repo es)"
| ws_upgrade: "ws_step reg st (fst (upgradeHandler valid reg st req))"
| ws_resolved: "k < length (ws_upgrades st) \<Longrightarrow> ws_step reg st (upgrade_resolved gh handshake st k)"
| ws_failed: "k < length (ws_upgrades st) \<Longrightarrow> ws_step reg st (upgrade_failed st k)"
| ws_frame: "c < length (ws_conns st) \<Longrightarrow> wc_ready (ws_conns st ! c) \<noteq> WsClosed \<Longrightarrow>
    ws_step reg st (dispatchFrame zs invoke st c frame)"
| ws_resumed: "k < length (ws_waits st) \<Longrightarrow> ws_step reg st (dispatch_resumed sendable st k)"
| ws_threw: "k < length (ws_waits st) \<Longrightarrow> ws_step reg st (dispatch_threw st k)"
| ws_pong: "ws_step reg st (pong st c)"
| ws_closing: "ws_step reg st (closing st c)"
| ws_closed: "ws_step reg st (close_event st c)"
| ws_tick: "ws_heartbeat st \<Longrightarrow> ws_step reg st (heartbeatTick st)"
| ws_stopping: "ws_step reg st (ws_stop st)"

definition identified :: "(string, provider) jsmap \<Rightarrow> user_context \<Rightarrow> bool" where
  "identified reg u \<longleftrightarrow> (\<exists>i p gh auth. byId reg i = Some p \<and> resolveApiIdentity gh p auth = Some u)"

definition serves :: "scope_key \<Rightarrow> trigger_entry \<Rightarrow> bool" where
  "serves scope e \<longleftrightarrow> rq_owner (te_request e) = sk_owner scope \<and> rq_repo (te_request e) = sk_repo scope \<and>
     named (sk_workflow scope) (sk_trigger scope) e \<and> kind_of (td_config (te_descriptor e)) = ''ws''"

definition conn_ok :: "(string, provider) jsmap \<Rightarrow> scope_key \<times> trigger_entry \<times> user_context \<Rightarrow> bool" where
  "conn_ok reg x = (case x of (scope, entry, user) \<Rightarrow>
     isMember user (sk_owner scope) \<and> identified reg user \<and> serves scope entry)"

definition upgrade_ok :: "(string, provider) jsmap \<Rightarrow> scope_key \<times> provider \<times> web_request \<Rightarrow> bool" where
  "upgrade_ok reg x = (case x of (scope, p, req) \<Rightarrow>
     (\<exists>i. byId reg i = Some p) \<and> slash_free (sk_owner scope) \<and> slash_free (sk_trigger scope))"

definition entry_ok :: "string \<Rightarrow> string \<Rightarrow> trigger_entry \<Rightarrow> bool" where
  "entry_ok pk k e \<longleftrightarrow> pk = pairKey (rq_owner (te_request e)) (rq_repo (te_request e)) \<and>
     slash_free (rq_owner (te_request e)) \<and> k = entry_key e \<and> slash_free (td_name (te_descriptor e))"

definition entry_table_ok :: "(string, (string, trigger_entry) jsmap) jsmap \<Rightarrow> bool" where
  "entry_table_ok et \<longleftrightarrow> (\<forall>pk m k e. map_get et pk = Some m \<longrightarrow> map_get m k = Some e \<longrightarrow> entry_ok pk k e)"

definition call_ok :: "ws_source \<Rightarrow> nat \<times> invoke_call \<Rightarrow> bool" where
  "call_ok st x = (case x of (c, call) \<Rightarrow> c < length (conn_ids st) \<and>
     (\<exists>disp. ic_request call = (te_request (fst (snd (conn_ids st ! c))))\<lparr>rq_dispatch := disp\<rparr>) \<and>
     ic_descriptor call = te_descriptor (fst (snd (conn_ids st ! c))))"

definition conns_served :: "ws_source \<Rightarrow> bool" where
  "conns_served st \<longleftrightarrow> (\<forall>c. open_conn st c \<longrightarrow> registered st c \<and> lookupEntry st (wc_scope (ws_conns st ! c)) \<noteq> None)"

definition ws_inv :: "(string, provider) jsmap \<Rightarrow> ws_source \<Rightarrow> bool" where
  "ws_inv reg st \<longleftrightarrow> list_all (conn_ok reg) (conn_ids st) \<and> list_all (upgrade_ok reg) (ws_upgrades st) \<and>
     entry_table_ok (ws_entries st) \<and> list_all (call_ok st) (ws_calls st) \<and>
     waiting st \<subseteq> {..<length (ws_conns st)} \<and> conns_served st \<and> (ws_stopped st \<longrightarrow> ws_entries st = [])"

lemma served_calm:
  assumes "calm st st'" and "conns_served st"
  shows "conns_served st'"
  unfolding conns_served_def
proof (intro allI impI)
  fix c
  assume c: "open_conn st' c"
  with assms have "registered st' c" "open_conn st c" by (auto simp: calm_def conns_served_def)
  moreover have "wc_scope (ws_conns st' ! c) = wc_scope (ws_conns st ! c)" "ws_entries st' = ws_entries st"
    using assms(1) calculation(2) conn_ids_nth(2) [of st' st c] by (auto simp: calm_def)
  ultimately show "registered st' c \<and> lookupEntry st' (wc_scope (ws_conns st' ! c)) \<noteq> None"
    using assms(2) by (auto simp: conns_served_def lookupEntry_def)
qed

lemma inv_calm: "calm st st' \<Longrightarrow> ws_inv reg st \<Longrightarrow> ws_inv reg st'"
  using served_calm [of st st'] conn_ids_nth(1) [of st' st]
  by (auto simp: ws_inv_def calm_def call_ok_def list_all_iff)


section \<open>Every step keeps the invariant\<close>

lemma evict_closes:
  "c \<in> set cs \<Longrightarrow> open_conn (foldl (evict_one m) st cs) c \<Longrightarrow>
     map_has m (triggerKey (sk_workflow (wc_scope (ws_conns st ! c))) (sk_trigger (wc_scope (ws_conns st ! c))))"
proof (induction cs arbitrary: st)
  case (Cons d cs)
  have later: "calm (evict_one m st d) (foldl (evict_one m) (evict_one m st d) cs)" by (rule calm_foldl) (rule calm_evict)
  have scope: "wc_scope (ws_conns (evict_one m st d) ! c) = wc_scope (ws_conns st ! c)"
    by (simp add: evict_one_def Let_def)
  show ?case
  proof (cases "c \<in> set cs")
    case True
    with Cons.IH [OF True, of "evict_one m st d"] Cons.prems(2) scope show ?thesis by simp
  next
    case False
    then have "d = c" using Cons.prems(1) by simp
    have "open_conn (evict_one m st d) c" using later Cons.prems(2) by (simp add: calm_def)
    with \<open>d = c\<close> ws_close_not_open [where st = st and c = c] show ?thesis by (auto simp: evict_one_def Let_def split: if_splits)
  qed
qed simp

lemma reconfigure_served:
  assumes "conns_served st"
  shows "conns_served (ws_reconfigure () st owner repo es)"
proof (cases "ws_stopped st")
  case False
  let ?key = "pairKey owner repo" and ?m = "foldl (\<lambda>m e. map_set (entry_key e) e m) [] es"
  let ?st = "evictMissingConnections st ?key ?m" and ?st' = "ws_reconfigure () st owner repo es"
  have calm: "calm st ?st" by (rule calm_evictAll)
  have same: "ws_conns ?st' = ws_conns ?st" "ws_byPair ?st' = ws_byPair ?st"
    using False by (simp_all add: ws_reconfigure_def Let_def)
  have entries: "map_get (ws_entries ?st') pk = (if pk = ?key then (if ?m = [] then None else Some ?m) else map_get (ws_entries st) pk)"
    for pk using False by (simp add: ws_reconfigure_def Let_def)
  show ?thesis
    unfolding conns_served_def
  proof (intro allI impI)
    fix c
    assume "open_conn ?st' c"
    then have c: "open_conn ?st c" unfolding same .
    then have r: "registered ?st c" "lookupEntry ?st (wc_scope (ws_conns ?st ! c)) \<noteq> None"
      using served_calm [OF calm assms] by (auto simp: conns_served_def)
    have c0: "open_conn st c" "registered st c" using calm c assms by (auto simp: calm_def conns_served_def)
    have scope: "wc_scope (ws_conns ?st ! c) = wc_scope (ws_conns st ! c)"
      using calm c0(1) conn_ids_nth(2) [of ?st st c] by (simp add: calm_def)
    have "map_has ?m (triggerKey (sk_workflow (wc_scope (ws_conns st ! c))) (sk_trigger (wc_scope (ws_conns st ! c))))"
      if k: "conn_pair (ws_conns st ! c) = ?key"
    proof -
      from c0(2) k obtain cs where cs: "map_get (ws_byPair st) ?key = Some cs" "c \<in> set cs" by (auto simp: registered_def)
      with c have "open_conn (foldl (evict_one ?m) st cs) c" by (simp add: evictMissingConnections_def)
      from evict_closes [OF cs(2) this] show ?thesis .
    qed
    then have "lookupEntry ?st' (wc_scope (ws_conns st ! c)) \<noteq> None"
      using r(2) scope by (cases "conn_pair (ws_conns st ! c) = ?key") (auto simp: lookupEntry_def entries)
    moreover have "registered ?st' c" using r(1) by (simp add: registered_def same)
    ultimately show "registered ?st' c \<and> lookupEntry ?st' (wc_scope (ws_conns ?st' ! c)) \<noteq> None"
      using scope same by simp
  qed
qed (use assms in \<open>simp add: ws_reconfigure_def\<close>)

lemma new_map_mem:
  assumes "entries_bound owner repo es" and "map_get (foldl (\<lambda>m e. map_set (entry_key e) e m) [] es) k = Some e"
  shows "entry_ok (pairKey owner repo) k e"
  using assms by (auto simp: new_map_lookup find_Some_iff entry_ok_def entries_bound_def entries_ok_def list_all_iff)
    (metis nth_mem rev_nth length_rev set_rev)+

lemma inv_reconfigure:
  assumes "entries_bound owner repo es" and "ws_inv reg st"
  shows "ws_inv reg (ws_reconfigure () st owner repo es)"
proof (cases "ws_stopped st")
  case False
  let ?m = "foldl (\<lambda>m e. map_set (entry_key e) e m) [] es"
  let ?st = "evictMissingConnections st (pairKey owner repo) ?m" and ?st' = "ws_reconfigure () st owner repo es"
  have calm: "ws_inv reg ?st" by (rule inv_calm [OF calm_evictAll assms(2)])
  have same: "conn_ids ?st' = conn_ids ?st" "ws_upgrades ?st' = ws_upgrades ?st" "ws_calls ?st' = ws_calls ?st"
    "waiting ?st' = waiting ?st" "ws_conns ?st' = ws_conns ?st" "\<not> ws_stopped ?st'"
    using False by (simp_all add: ws_reconfigure_def Let_def conn_ids_def waiting_def)
  have "map_get (ws_entries ?st') pk = (if pk = pairKey owner repo then (if ?m = [] then None else Some ?m) else map_get (ws_entries st) pk)"
    for pk using False by (simp add: ws_reconfigure_def Let_def)
  then have "entry_table_ok (ws_entries ?st')"
    using new_map_mem [OF assms(1)] assms(2) by (auto simp: entry_table_ok_def ws_inv_def split: if_splits)
  moreover have "conns_served ?st'" using assms(2) by (intro reconfigure_served) (simp add: ws_inv_def)
  ultimately show ?thesis using calm same by (simp add: ws_inv_def call_ok_def [abs_def])
qed (use assms in \<open>simp add: ws_reconfigure_def\<close>)

lemma inv_upgrade:
  assumes "ws_inv reg st"
  shows "ws_inv reg (fst (upgradeHandler valid reg st req))"
proof -
  have "upgrade_ok reg (scope, p, buildRequestFromUpgrade req)" if "preauthChecks reg req = SyncOk scope p" for scope p
    using that name_no_slash
    by (auto simp: preauthChecks_def upgrade_ok_def parseScopeFromUrl_def Let_def slash_free_def
        split: option.splits if_splits list.splits header_value.splits)
  moreover have "ws_inv reg (ws_reject st r)" for r
    by (rule inv_calm [OF _ assms]) (rule calm_same, simp_all add: ws_reject_def waiting_def)
  moreover have "ws_inv reg (st\<lparr>ws_upgrades := ws_upgrades st @ [x]\<rparr>)" if "upgrade_ok reg x" for x
    using assms that
    by (simp add: ws_inv_def call_ok_def [abs_def] conn_ids_def waiting_def conns_served_def registered_def lookupEntry_def)
  ultimately show ?thesis using assms by (auto simp: upgradeHandler_def Let_def split: sync_check.split)
qed


lemma registered_onConnection:
  assumes "registered st d" and "d < length (ws_conns st)"
  shows "registered (onConnection st scope entry user) d"
  using assms by (auto simp: registered_def onConnection_def registerConnection_def Let_def nth_append set_add_def)

lemma onConnection_frame [simp]:
  "ws_conns (onConnection st scope entry user) =
     ws_conns st @ [\<lparr>wc_scope = scope, wc_entry = entry, wc_isAlive = True, wc_ready = WsOpen, wc_user = user\<rparr>]"
  "ws_entries (onConnection st scope entry user) = ws_entries st"
  "ws_upgrades (onConnection st scope entry user) = ws_upgrades st"
  "ws_calls (onConnection st scope entry user) = ws_calls st" "ws_waits (onConnection st scope entry user) = ws_waits st"
  "ws_stopped (onConnection st scope entry user) = ws_stopped st"
  "conn_ids (onConnection st scope entry user) = conn_ids st @ [(scope, entry, user)]"
  by (simp_all add: onConnection_def registerConnection_def Let_def conn_ids_def)

lemma inv_onConnection:
  assumes "ws_inv reg st" and "conn_ok reg (scope, entry, user)" and "lookupEntry st scope = Some entry"
  shows "ws_inv reg (onConnection st scope entry user)"
proof -
  let ?st' = "onConnection st scope entry user"
  have new: "registered ?st' (length (ws_conns st))"
    by (auto simp: registered_def onConnection_def registerConnection_def Let_def set_add_def)
  have "conns_served ?st'"
    unfolding conns_served_def
  proof (intro allI impI)
    fix c
    assume c: "open_conn ?st' c"
    show "registered ?st' c \<and> lookupEntry ?st' (wc_scope (ws_conns ?st' ! c)) \<noteq> None"
    proof (cases "c < length (ws_conns st)")
      case True
      with c assms(1) show ?thesis
        using registered_onConnection [OF _ True]
        by (auto simp: ws_inv_def conns_served_def nth_append lookupEntry_def)
    next
      case False
      with c have "c = length (ws_conns st)" by simp
      with new assms(3) show ?thesis by (simp add: lookupEntry_def)
    qed
  qed
  moreover have "call_ok ?st' x" if "call_ok st x" for x
    using that by (auto simp: call_ok_def nth_append)
  ultimately show ?thesis
    using assms(1,2) by (auto simp: ws_inv_def list_all_iff waiting_def)
qed

lemma inv_resolved:
  assumes "k < length (ws_upgrades st)" and "ws_inv reg st"
  shows "ws_inv reg (upgrade_resolved gh handshake st k)"
proof -
  obtain scope p req where up: "ws_upgrades st ! k = (scope, p, req)" by (metis prod_cases3)
  then have ok: "upgrade_ok reg (scope, p, req)"
    using assms by (metis (no_types) ws_inv_def list_all_iff nth_mem)
  let ?st = "st\<lparr>ws_upgrades := splice1 k (ws_upgrades st)\<rparr>"
  let ?user = "resolveApiIdentity gh p (map_get (wr_headers req) ''authorization'')"
  have inv: "ws_inv reg ?st"
    using splice1_set [of k "ws_upgrades st"] by (intro inv_calm [OF calm_same assms(2)]) (simp_all add: waiting_def)
  have rejected: "ws_inv reg (ws_reject ?st r)" for r
    by (rule inv_calm [OF calm_same inv]) (simp_all add: ws_reject_def waiting_def)
  have "conn_ok reg (scope, entry, user) \<and> lookupEntry ?st scope = Some entry"
    if post: "postAuthChecks ?st scope ?user = Inr (user, entry)" for user entry
  proof -
    from post have u: "?user = Some user" "isMember user (sk_owner scope)" "lookupEntry ?st scope = Some entry"
      "kind_of (td_config (te_descriptor entry)) = ''ws''"
      by (auto simp: postAuthChecks_def split: option.splits if_splits)
    from u(3) obtain m where m: "map_get (ws_entries st) (pairKey (sk_owner scope) (sk_repo scope)) = Some m"
      "map_get m (triggerKey (sk_workflow scope) (sk_trigger scope)) = Some entry"
      by (auto simp: lookupEntry_def bind_eq_Some_conv)
    then have "entry_ok (pairKey (sk_owner scope) (sk_repo scope)) (triggerKey (sk_workflow scope) (sk_trigger scope)) entry"
      using assms(2) unfolding ws_inv_def entry_table_ok_def by blast
    then have "serves scope entry"
      using ok u(4) by (auto simp: entry_ok_def serves_def named_def pairKey_inj triggerKey_inj upgrade_ok_def)
    with u ok show ?thesis by (auto simp: conn_ok_def identified_def upgrade_ok_def)
  qed
  with inv rejected show ?thesis
    by (auto simp: upgrade_resolved_def up Let_def intro!: inv_onConnection split: sum.splits)
qed

lemma inv_frame:
  assumes "c < length (ws_conns st)" and "ws_inv reg st"
  shows "ws_inv reg (dispatchFrame zs invoke st c frame)"
proof -
  have closed: "ws_inv reg (ws_close st c code reason)" for code reason by (rule inv_calm [OF calm_close assms(2)])
  have waits: "ws_inv reg (st\<lparr>ws_exceptions := xs, ws_waits := ws_waits st @ [(c, w)]\<rparr>)" for xs w
    using assms by (simp add: ws_inv_def call_ok_def [abs_def] conn_ids_def waiting_def conns_served_def
        registered_def lookupEntry_def)
  have "ws_inv reg (st\<lparr>ws_calls := ws_calls st @ map (Pair c) cs, ws_waits := ws_waits st @ [(c, w)]\<rparr>)"
    if "buildFire zs invoke (wc_entry (ws_conns st ! c)) inp disp = (r, cs)" for cs w inp disp r
  proof -
    have "call_ok st (c, call)" if "call \<in> set cs" for call
      using that \<open>buildFire zs invoke (wc_entry (ws_conns st ! c)) inp disp = (r, cs)\<close> assms(1)
      by (auto simp: buildFire_def Let_def call_ok_def conn_ids_def split: sum.splits)
    with assms show ?thesis
      by (auto simp: ws_inv_def call_ok_def [abs_def] conn_ids_def waiting_def conns_served_def
          registered_def lookupEntry_def list_all_iff)
  qed
  with closed waits show ?thesis
    by (auto simp: dispatchFrame_def split: ws_frame.split option.split prod.splits)
qed

lemma inv_stop:
  assumes "ws_inv reg st"
  shows "ws_inv reg (ws_stop st)"
proof -
  let ?st1 = "st\<lparr>ws_stopped := True, ws_heartbeat := False\<rparr>"
  let ?cs = "concat (vals (ws_byPair ?st1))" and ?f = "\<lambda>s c. ws_close s c WS_CLOSE_GOING_AWAY ''going away''"
  let ?st2 = "foldl ?f ?st1 ?cs"
  have calm: "calm ?st1 ?st2" by (rule calm_foldl) (rule calm_close)
  have "\<not> open_conn (foldl ?f s cs) c" if "c \<in> set cs" for s c cs
    using that
  proof (induction cs arbitrary: s)
    case (Cons d cs)
    have "calm (?f s d) (foldl ?f (?f s d) cs)" by (rule calm_foldl) (rule calm_close)
    with Cons ws_close_not_open [where st = s and c = c] show ?case by (auto simp: calm_def)
  qed simp
  moreover have "c \<in> set ?cs" if "open_conn ?st2 c" for c
  proof -
    have "open_conn st c" using calm that by (simp add: calm_def)
    with assms have "registered st c" by (simp add: ws_inv_def conns_served_def)
    then obtain key cs where "map_get (ws_byPair st) key = Some cs" "c \<in> set cs" by (auto simp: registered_def)
    then show ?thesis by (force dest: map_of_SomeD)
  qed
  ultimately have "\<not> open_conn ?st2 c" for c by blast
  then have "\<not> open_conn (ws_stop st) c" for c by (simp add: ws_stop_def Let_def)
  then have "conns_served (ws_stop st)" unfolding conns_served_def by blast
  moreover have "conn_ids (ws_stop st) = conn_ids st" "ws_calls (ws_stop st) = ws_calls st"
    "set (ws_upgrades (ws_stop st)) \<subseteq> set (ws_upgrades st)" "waiting (ws_stop st) \<subseteq> waiting st"
    using calm by (simp_all add: calm_def ws_stop_def Let_def waiting_def conn_ids_def)
  moreover have "ws_entries (ws_stop st) = []" by (simp add: ws_stop_def Let_def)
  ultimately show ?thesis
    using assms conn_ids_nth(1) [of "ws_stop st" st]
    by (auto simp: ws_inv_def entry_table_ok_def call_ok_def [abs_def] list_all_iff)
qed


lemma ws_step_inv:
  assumes "ws_inv reg st" and "ws_step reg st st'"
  shows "ws_inv reg st'"
  using assms(2)
proof cases
  case (ws_failed k)
  then show ?thesis
    using splice1_set [of k "ws_upgrades st"]
    by (auto simp: upgrade_failed_def waiting_def intro!: inv_calm [OF calm_same assms(1)])
next
  case (ws_pong c)
  have "calm st (pong st c)" unfolding pong_def by (rule calm_upd) simp_all
  with ws_pong assms(1) show ?thesis by (simp add: inv_calm)
next
  case (ws_closing c)
  have "calm st (closing st c)" unfolding closing_def by (rule calm_upd) (simp_all split: if_splits)
  with ws_closing assms(1) show ?thesis by (simp add: inv_calm)
next
  case (ws_closed c)
  have "calm st (upd_conn st c (\<lambda>w. w\<lparr>wc_ready := WsClosed\<rparr>))" by (rule calm_upd) simp_all
  also have "calm \<dots> (close_event st c)"
    unfolding close_event_def by (rule calm_unregister) (auto simp: upd_conn_nth)
  finally show ?thesis using ws_closed assms(1) by (simp add: inv_calm)
next
  case ws_tick
  have "calm st (heartbeatTick st)" unfolding heartbeatTick_def by (rule calm_foldl) (rule calm_tick)
  with ws_tick assms(1) show ?thesis by (simp add: inv_calm)
qed (use assms(1) in \<open>auto intro: inv_reconfigure inv_upgrade inv_resolved inv_frame inv_stop
       inv_calm [OF calm_resumed(1)] inv_calm [OF calm_resumed(2)]\<close>)

interpretation ws_runs: invariant_system "\<lambda>st. st = createWsTriggerSource" "ws_step reg" "ws_inv reg" for reg
  by unfold_locales
    (simp add: ws_inv_def createWsTriggerSource_def conn_ids_def waiting_def conns_served_def entry_table_ok_def,
     rule ws_step_inv)

section \<open>Properties\<close>


text \<open>
  \<^bold>\<open>C23\<close>. An open WebSocket always belongs to a live trigger: in every reachable state a
  connection that is open is in the registry of its (owner, repository) and its trigger is in
  the current entry table, and after \<open>stop\<close> no connection is open. So a removed trigger's
  connections are closed by the upload that removes it.
\<close>

theorem ws_open_connections_served:
  assumes "reach (\<lambda>st. st = createWsTriggerSource) (ws_step reg) st"
  shows "list_all (\<lambda>c. if wc_ready (ws_conns st ! c) = WsOpen
      then \<not> ws_stopped st \<and> lookupEntry st (wc_scope (ws_conns st ! c)) \<noteq> None \<and>
        (case map_get (ws_byPair st) (conn_pair (ws_conns st ! c)) of Some cs \<Rightarrow> c \<in> set cs | None \<Rightarrow> False)
      else True) [0 ..< length (ws_conns st)]"
proof -
  have "ws_inv reg st" using assms by (rule ws_runs.reach_inv)
  then show ?thesis
    by (auto simp: ws_inv_def conns_served_def list_all_iff registered_def lookupEntry_def split: option.splits)
qed


lemma tick_alive:
  assumes "d < length (ws_conns st)"
  shows "wc_isAlive (ws_conns (tickConnection st c) ! d) \<longleftrightarrow> wc_isAlive (ws_conns st ! d) \<and> d \<noteq> c"
  using assms by (auto simp: tickConnection_def ws_terminate_def Let_def upd_conn_nth)

lemma calm_length: "calm st st' \<Longrightarrow> length (ws_conns st') = length (ws_conns st)"
  unfolding calm_def by (blast intro: conn_ids_nth(1))

lemma ticks_alive:
  "d < length (ws_conns st) \<Longrightarrow>
     wc_isAlive (ws_conns (foldl tickConnection st cs) ! d) \<longleftrightarrow> wc_isAlive (ws_conns st ! d) \<and> d \<notin> set cs"
proof (induction cs arbitrary: st)
  case (Cons c cs)
  have "d < length (ws_conns (tickConnection st c))" using Cons.prems calm_length [OF calm_tick, of st c] by simp
  from Cons.IH [OF this] show ?case using Cons.prems by (auto simp: tick_alive)
qed simp

lemma ticks_drop:
  "d \<in> set cs \<Longrightarrow> d < length (ws_conns st) \<Longrightarrow> \<not> wc_isAlive (ws_conns st ! d) \<Longrightarrow> \<not> open_conn (foldl tickConnection st cs) d"
proof (induction cs arbitrary: st)
  case (Cons c cs)
  have later: "calm (tickConnection st c) (foldl tickConnection (tickConnection st c) cs)"
    by (rule calm_foldl) (rule calm_tick)
  show ?case
  proof (cases "d = c")
    case True
    with Cons.prems(3) calm_terminate(2) [where st = st and c = c] have "\<not> open_conn (tickConnection st c) d"
      by (simp add: tickConnection_def)
    with later show ?thesis by (auto simp: calm_def)
  next
    case False
    with Cons.prems have "\<not> wc_isAlive (ws_conns (tickConnection st c) ! d)" "d \<in> set cs" by (auto simp: tick_alive)
    with Cons.prems(2) Cons.IH [of "tickConnection st c"] show ?thesis by (simp add: calm_length [OF calm_tick])
  qed
qed simp

lemma pongs_alive:
  "d < length (ws_conns st) \<Longrightarrow> d \<notin> set ps \<Longrightarrow> wc_isAlive (ws_conns (foldl pong st ps) ! d) = wc_isAlive (ws_conns st ! d)"
  by (induction ps arbitrary: st) (auto simp: pong_def upd_conn_nth)

lemma registered_live: "registered st c \<Longrightarrow> c \<in> set (concat (vals (ws_byPair st)))"
  by (force simp: registered_def dest: map_of_SomeD)

lemma calm_pongs: "calm st (foldl pong st ps)"
  unfolding pong_def by (intro calm_foldl calm_upd) simp_all

text \<open>
  A connection that does not answer a ping is dropped by the next heartbeat: in any
  reachable state, after a heartbeat, any pongs of other connections and another heartbeat, the
  socket is no longer open.
\<close>

lemma silent_connection_dropped:
  assumes "reach (\<lambda>st. st = createWsTriggerSource) (ws_step reg) st" and "c \<notin> set ps"
  shows "\<not> open_conn (heartbeatTick (foldl pong (heartbeatTick st) ps)) c"
proof
  let ?st1 = "heartbeatTick st" let ?st2 = "foldl pong ?st1 ps"
  assume c: "open_conn (heartbeatTick ?st2) c"
  have calm: "calm s (heartbeatTick s)" for s
    unfolding heartbeatTick_def by (rule calm_foldl) (rule calm_tick)
  note c12 = calm_trans [OF calm calm_pongs, of st ps]
  have served: "conns_served st" using ws_runs.reach_inv [OF assms(1)] by (simp add: ws_inv_def)
  have o2: "open_conn ?st2 c" using calm [of ?st2] c by (simp add: calm_def)
  then have o0: "open_conn st c" using c12 by (simp add: calm_def)
  with served have "c \<in> set (concat (vals (ws_byPair st)))" by (intro registered_live) (simp add: conns_served_def)
  then have "\<not> wc_isAlive (ws_conns ?st1 ! c)" using o0 unfolding heartbeatTick_def by (simp add: ticks_alive del: set_concat)
  then have "\<not> wc_isAlive (ws_conns ?st2 ! c)" using o0 assms(2) by (simp add: pongs_alive calm_length [OF calm])
  moreover have "c \<in> set (concat (vals (ws_byPair ?st2)))"
    using o2 served_calm [OF c12 served] by (intro registered_live) (simp add: conns_served_def)
  ultimately have "\<not> open_conn (heartbeatTick ?st2) c"
    using o2 unfolding heartbeatTick_def by (intro ticks_drop) simp_all
  with c show False by blast
qed


section \<open>A session\<close>

definition sample_chat :: trigger_entry where
  "sample_chat =
     \<lparr>te_request = \<lparr>rq_owner = ''acme'', rq_repo = ''site'', rq_workflow = ''w'', rq_sha = ''sha'', rq_dispatch = None\<rparr>,
      te_descriptor = \<lparr>td_name = ''chat'', td_workflowName = ''w'', td_config = WsTrigger (JObj []) (JObj []),
        td_inputSchema = JObj [], td_outputSchema = JObj []\<rparr>,
      te_bundleSource = ''js''\<rparr>"

definition sample_upgrade :: "string \<Rightarrow> upgrade_request" where
  "sample_upgrade u = \<lparr>ur_method = Some ''GET'', ur_url = Some u,
     ur_headers = [(''upgrade'', HStr ''websocket''), (''x-auth-provider'', HStr ''local''), (''authorization'', HStr ''User ada'')]\<rparr>"

definition sample_schemas :: schemas where
  "sample_schemas = \<lparr>zodInput = (\<lambda>_. Inr), zodOutput = (\<lambda>_. Inr)\<rparr>"

definition chat_uploaded :: ws_source where
  "chat_uploaded = ws_reconfigure () createWsTriggerSource ''acme'' ''site'' [sample_chat]"

definition chat_asked :: ws_source where
  "chat_asked = fst (upgradeHandler (\<lambda>_. True) sample_users chat_uploaded (sample_upgrade ''/ws/acme/site/w/chat''))"

definition chat_open :: ws_source where
  "chat_open = upgrade_resolved offline True chat_asked 0"

definition chat_called :: ws_source where
  "chat_called = dispatchFrame sample_schemas (\<lambda>_. InvokeOk JNull) chat_open 0 (TextFrame (Some JNull))"

lemma chat_reached:
  "reach (\<lambda>st. st = createWsTriggerSource) (ws_step sample_users) chat_open"
  "reach (\<lambda>st. st = createWsTriggerSource) (ws_step sample_users) chat_called"
proof -
  let ?R = "reach (\<lambda>st. st = createWsTriggerSource) (ws_step sample_users)"
  note more = reach.reach_step [where init = "\<lambda>st. st = createWsTriggerSource" and step = "ws_step sample_users"]
  have "entries_bound ''acme'' ''site'' [sample_chat]"
    by (simp add: entries_bound_def entries_ok_def slash_free_def sample_chat_def)
  then have up: "?R chat_uploaded"
    unfolding chat_uploaded_def using reach.reach_init [of "\<lambda>st. st = createWsTriggerSource"]
    by (blast intro: more ws_configured)
  have asked: "?R chat_asked" unfolding chat_asked_def by (rule more [OF up]) (rule ws_upgrade)
  have "length (ws_upgrades chat_asked) = 1" by code_simp
  then show o: "?R chat_open"
    unfolding chat_open_def by (intro more [OF asked] ws_resolved) simp
  have "length (ws_conns chat_open) = 1" "wc_ready (ws_conns chat_open ! 0) = WsOpen" by code_simp+
  then show "?R chat_called"
    unfolding chat_called_def by (intro more [OF o] ws_frame) simp_all
qed


theorem ws_open_connections_served_witness:
  "wc_ready (ws_conns chat_open ! 0) = WsOpen \<and> lookupEntry chat_open (wc_scope (ws_conns chat_open ! 0)) \<noteq> None"
proof -
  have "length (ws_conns chat_open) = 1" "wc_ready (ws_conns chat_open ! 0) = WsOpen" by code_simp+
  with ws_open_connections_served [OF chat_reached(1)] show ?thesis by (simp add: list_all_iff)
qed

lemma silent_connection_dropped_witness:
  "open_conn chat_open 0 \<and> \<not> open_conn (heartbeatTick (foldl pong (heartbeatTick chat_open) [7])) 0"
proof
  show "open_conn chat_open 0" by code_simp
  show "\<not> open_conn (heartbeatTick (foldl pong (heartbeatTick chat_open) [7])) 0"
    by (rule silent_connection_dropped [OF chat_reached(1)]) simp
qed

section \<open>Where the code falls short\<close>

text \<open>
  A workflow whose name the manifest and the webhook route accept cannot be reached over a
  WebSocket when the name has a hyphen.
\<close>

lemma hyphenated_workflow_unreachable:
  "OWNER_NAME_RE ''order-bot'' \<and> parseScopeFromUrl (Some ''/ws/acme/site/order-bot/chat'') = None"
  by code_simp

text \<open>A connection that outlives an upload of its trigger keeps firing the old bundle.\<close>

definition chat_v2 :: trigger_entry where "chat_v2 = sample_chat\<lparr>te_bundleSource := ''new''\<rparr>"

lemma reupload_keeps_old_bundle:
  "(let st = ws_reconfigure () chat_open ''acme'' ''site'' [chat_v2]
    in open_conn st 0 \<and>
       map (ic_bundleSource \<circ> snd) (ws_calls (dispatchFrame sample_schemas (\<lambda>_. InvokeOk JNull) st 0 (TextFrame (Some JNull)))) = [''js''])"
  by code_simp

text \<open>A frame that arrives after the trigger was removed, before the socket is closed, still fires it.\<close>

lemma removed_trigger_fires:
  "(let st = ws_reconfigure () chat_open ''acme'' ''site'' []
    in lookupEntry st (wc_scope (ws_conns st ! 0)) = None \<and>
       length (ws_calls (dispatchFrame sample_schemas (\<lambda>_. InvokeOk JNull) st 0 (TextFrame (Some JNull)))) = 1)"
  by code_simp

text \<open>A second frame is dispatched while the first one's handler is still running.\<close>

lemma frames_overlap:
  "length (ws_waits (dispatchFrame sample_schemas (\<lambda>_. InvokeOk JNull) chat_called 0 (TextFrame (Some JNull)))) = 2"
  by code_simp

text \<open>
  An upgrade request that passes the checks before authentication throws out of the listener
  when \<open>new Request\<close> rejects it (a method such as \<open>TRACE\<close>, a host that is no URL host).
\<close>

lemma upgrade_throws_iff:
  "snd (upgradeHandler valid reg st req) = UpgradeThrew \<longleftrightarrow>
     (\<exists>scope p. preauthChecks reg req = SyncOk scope p) \<and> \<not> valid (buildRequestFromUpgrade req)"
  by (auto simp: upgradeHandler_def Let_def split: sync_check.split)

end
