(* ===== verification/ImapMail.thy ===== *)
theory ImapMail
  imports Manifest
begin

text \<open>
  The text protocol of the IMAP backend (\<open>packages/runtime/src/triggers/imap.ts\<close>): the tokens of a
  search expression, the disposition commands an author writes, and the message handed to the
  handler, with the schema it must satisfy (\<open>imapMessageSchema\<close> of \<open>packages/core/src/index.ts\<close>).

  Regular expressions are written out as the deterministic scanners they are: none of them can
  match in two ways. White space is \<open>\s\<close>, the code points of \<open>space_codes\<close>; \<open>.\<close> is every
  character but the four line terminators. The client (\<open>imapflow\<close>) is third-party code: a call
  to it is a value of \<open>imap_command\<close>. The mail parser (\<open>postal-mime\<close>) is third-party code: its
  result is the record \<open>parsed_mail\<close>.
\<close>

section \<open>Scanners\<close>

definition space_at :: "string \<Rightarrow> nat" where
  \<comment> \<open>length of the white-space character the text starts with, \<open>0\<close> when it starts with none\<close>
  "space_at s =
     (case find (\<lambda>p. take (length p) (map of_char s) = p) space_codes of Some p \<Rightarrow> length p | None \<Rightarrow> 0)"

definition line_end_at :: "string \<Rightarrow> bool" where
  "line_end_at s = list_ex (\<lambda>p. take (length p) (map of_char s) = (p :: nat list)) [[10], [13], [226, 128, 168], [226, 128, 169]]"

function skip_space :: "string \<Rightarrow> string" where
  "skip_space s = (if space_at s = 0 \<or> s = [] then s else skip_space (drop (space_at s) s))"
  by pat_completeness auto
termination
  by (relation "measure length") auto

declare skip_space.simps [simp del]

fun take_word :: "string \<Rightarrow> string \<times> string" where
  \<comment> \<open>the longest prefix without white space (\<open>\S*\<close>) and the rest\<close>
  "take_word [] = ([], [])"
| "take_word (c # cs) = (if space_at (c # cs) > 0 then ([], c # cs) else apfst (Cons c) (take_word cs))"

definition take_digits :: "string \<Rightarrow> string \<times> string" where
  "take_digits s = (takeWhile is_digit s, dropWhile is_digit s)"

definition digit_val :: "char \<Rightarrow> nat" where "digit_val c = of_char c - 48"

definition read_nat :: "string \<Rightarrow> nat" where
  "read_nat ds = foldl (\<lambda>n c. 10 * n + digit_val c) 0 ds"

lemma take_word_append: "take_word s = (w, r) \<Longrightarrow> s = w @ r"
  by (induction s arbitrary: w r) (auto split: if_splits prod.splits simp: apfst_def map_prod_def)

function split_ws :: "string \<Rightarrow> string list" where
  \<comment> \<open>\<open>s.split(/\s+/)\<close>\<close>
  "split_ws s =
     (case take_word s of (w, r) \<Rightarrow> if r = [] then [w] else w # split_ws (skip_space r))"
  by pat_completeness auto


lemma space_at_length: "space_at s \<le> length s"
proof -
  have "length p \<le> length s" if "take (length p) (map of_char s) = p" for p :: "nat list"
    using arg_cong [OF that, of length] by simp
  then show ?thesis by (auto simp: space_at_def find_Some_iff split: option.split)
qed

lemma skip_space_length: "length (skip_space s) \<le> length s"
proof (induction s rule: skip_space.induct)
  case (1 s)
  then show ?case by (subst skip_space.simps) (auto simp: intro: le_trans)
qed

lemma take_word_rest: "take_word s = (w, r) \<Longrightarrow> r \<noteq> [] \<Longrightarrow> space_at r > 0"
  by (induction s arbitrary: w r) (auto split: if_splits prod.splits simp: apfst_def map_prod_def)

lemma skip_space_less: "space_at r > 0 \<Longrightarrow> r \<noteq> [] \<Longrightarrow> length (skip_space r) < length r"
  using skip_space_length [of "drop (space_at r) r"] space_at_length [of r]
  by (simp add: skip_space.simps [of r])

termination split_ws
proof (relation "measure length", goal_cases)
  case (2 s w r)
  then show ?case
    using take_word_append [of s w r] take_word_rest [of s w r] skip_space_less [of r] by simp
qed simp

declare split_ws.simps [simp del]

section \<open>Search expressions\<close>

datatype search_attribute = SAtom string | SString string

fun take_quoted :: "string \<Rightarrow> (string \<times> string) option" where
  \<comment> \<open>\<open>((?:[^"\\]|\\.)*)"\<close>: the text up to the closing quote and the rest\<close>
  "take_quoted [] = None"
| "take_quoted (c # cs) =
     (if c = CHR 0x22 then Some ([], cs)
      else if c = CHR 0x5C then
        (case cs of
           [] \<Rightarrow> None
         | d # ds \<Rightarrow> if line_end_at cs then None else map_option (apfst (\<lambda>b. c # d # b)) (take_quoted ds))
      else map_option (apfst (Cons c)) (take_quoted cs))"

fun unescape :: "string \<Rightarrow> string" where
  \<comment> \<open>\<open>replace(ESCAPED_CHAR_RE, "$1")\<close>\<close>
  "unescape (c # d # ds) =
     (if c = CHR 0x5C \<and> \<not> line_end_at (d # ds) then d # unescape ds else c # unescape (d # ds))"
| "unescape cs = cs"

lemma take_quoted_length: "take_quoted s = Some (b, r) \<Longrightarrow> length r < length s"
  by (induction s arbitrary: b rule: take_quoted.induct) (fastforce split: if_splits list.splits)+

lemma take_word_length: "length (snd (take_word s)) \<le> length s"
  by (induction s) simp_all

lemma take_word_progress: "s \<noteq> [] \<Longrightarrow> space_at s = 0 \<Longrightarrow> length (snd (take_word s)) < length s"
  using take_word_length [of "tl s"] by (cases s) (simp_all add: less_Suc_eq_le)

function tokenizeSearch :: "string \<Rightarrow> search_attribute list" where
  "tokenizeSearch s =
     (if s = [] then []
      else if space_at s > 0 then tokenizeSearch (drop (space_at s) s)
      else (case (if hd s = CHR 0x22 then take_quoted (tl s) else None) of
              Some (b, r) \<Rightarrow> SString (unescape b) # tokenizeSearch r
            | None \<Rightarrow> SAtom (fst (take_word s)) # tokenizeSearch (snd (take_word s))))"
  by pat_completeness auto
termination
proof (relation "measure length")
  fix s b r and x :: "string \<times> string"
  assume "s \<noteq> []" "(if hd s = CHR 0x22 then take_quoted (tl s) else None) = Some x" "(b, r) = x"
  then show "(r, s) \<in> measure length"
    using take_quoted_length [of "tl s" b r] by (cases s) (auto split: if_splits)
qed (auto simp: take_word_progress)

declare tokenizeSearch.simps [simp del]

definition uid_attr :: "string \<Rightarrow> bool" where
  \<comment> \<open>\<open>DIGIT_ONLY_RE\<close>\<close>
  "uid_attr v = (v \<noteq> [] \<and> list_all is_digit v)"

definition execUidSearch :: "string list \<Rightarrow> nat list" where
  \<comment> \<open>from the attribute values of the untagged \<open>SEARCH\<close> responses to sorted UIDs\<close>
  "execUidSearch values = sort (foldl (\<lambda>ids v. if uid_attr v then set_add (read_nat v) ids else ids) [] values)"

section \<open>Disposition commands\<close>

datatype imap_command =
    MessageFlagsAdd nat "string list"
  | MessageFlagsRemove nat "string list"
  | MessageFlagsSet nat "string list"
  | MessageMove nat string
  | MessageCopy nat string
  | Exec string "search_attribute list"

definition parseDisposition :: "string \<Rightarrow> string \<times> string" where
  "parseDisposition raw =
     (let trimmed = js_trim raw;
          up = toUpperCase trimmed;
          verbEnd =
            (if take 4 up = ''UID ''
             then (case indexOf (CHR '' '') (drop 4 trimmed) of None \<Rightarrow> length trimmed | Some i \<Rightarrow> 4 + i)
             else (case indexOf (CHR '' '') trimmed of None \<Rightarrow> length trimmed | Some i \<Rightarrow> i))
      in (toUpperCase (take verbEnd trimmed), if verbEnd < length trimmed then drop (verbEnd + 1) trimmed else []))"

definition js_finite :: "nat \<Rightarrow> bool" where
  \<comment> \<open>\<open>Number.isFinite\<close> of a parsed integer: below 2^1024 - 2^970, what rounds to infinity\<close>
  "js_finite n = (int n < 179769313486231580793728971405303415079934132710037826936173778980444968292764750946649017977587207096330286416692887910946555547851940402630657488671505820681908902000708383676273854845817711531764475730270069855571366959622842914819860834936475292719074168444365510704342711559699508093042880177904174497792)"

definition take_uid :: "string \<Rightarrow> (nat \<times> string) option" where
  \<comment> \<open>\<open>(\d+)\<close> at the start, and the rest\<close>
  "take_uid s = (case take_digits s of (ds, r) \<Rightarrow> if ds = [] then None else Some (read_nat ds, r))"

definition valid_uid :: "nat \<Rightarrow> bool" where
  "valid_uid uid = (js_finite uid \<and> uid > 0)"

definition match_ci :: "string \<Rightarrow> string \<Rightarrow> string option" where
  "match_ci w s = (if toUpperCase (take (length w) s) = w then Some (drop (length w) s) else None)"

definition some_space :: "string \<Rightarrow> string option" where
  \<comment> \<open>\<open>\s+\<close>\<close>
  "some_space s = (if space_at s > 0 then Some (skip_space s) else None)"

definition parseUidStore :: "string \<Rightarrow> (nat \<times> char option \<times> string list) option" where
  "parseUidStore rest = do {
     (uid, r1) \<leftarrow> take_uid rest;
     r2 \<leftarrow> some_space r1;
     (sign, r3) \<leftarrow> Some (case r2 of c # cs \<Rightarrow> if c = CHR ''+'' \<or> c = CHR ''-'' then (Some c, cs) else (None, r2) | [] \<Rightarrow> (None, r2));
     r4 \<leftarrow> match_ci ''FLAGS'' r3;
     r5 \<leftarrow> Some (case match_ci ''.SILENT'' r4 of Some r \<Rightarrow> r | None \<Rightarrow> r4);
     r6 \<leftarrow> some_space r5;
     r7 \<leftarrow> (case r6 of c # cs \<Rightarrow> if c = CHR ''('' then Some cs else None | [] \<Rightarrow> None);
     (if CHR '')'' \<in> set r7 \<and> skip_space (tl (dropWhile (\<lambda>c. c \<noteq> CHR '')'') r7)) = [] \<and> valid_uid uid
      then let flagsRaw = js_trim (takeWhile (\<lambda>c. c \<noteq> CHR '')'') r7)
           in Some (uid, sign, if flagsRaw = [] then [] else split_ws flagsRaw)
      else None)
   }"

fun no_line_end :: "string \<Rightarrow> bool" where
  "no_line_end [] = True"
| "no_line_end (c # cs) = (\<not> line_end_at (c # cs) \<and> no_line_end cs)"

definition parseUidArgFolder :: "string \<Rightarrow> (nat \<times> string) option" where
  "parseUidArgFolder rest = do {
     (uid, r1) \<leftarrow> take_uid rest;
     r2 \<leftarrow> some_space r1;
     (if r2 \<noteq> [] \<and> no_line_end r2 \<and> valid_uid uid
      then let folder = js_trim r2 in if folder = [] then None else Some (uid, folder)
      else None)
   }"

definition parseUidOnly :: "string \<Rightarrow> nat option" where
  "parseUidOnly rest = do {
     (uid, r1) \<leftarrow> take_uid rest;
     (if skip_space r1 = [] \<and> valid_uid uid then Some uid else None)
   }"

definition execStoreFlags :: "nat \<Rightarrow> char option \<Rightarrow> string list \<Rightarrow> imap_command" where
  "execStoreFlags uid sign flags =
     (if sign = Some (CHR ''+'') then MessageFlagsAdd uid flags
      else if sign = Some (CHR ''-'') then MessageFlagsRemove uid flags
      else MessageFlagsSet uid flags)"

definition execRawFallback :: "string \<Rightarrow> imap_command" where
  "execRawFallback command =
     (case indexOf (CHR '' '') command of
        None \<Rightarrow> Exec command []
      | Some i \<Rightarrow> Exec (take i command) [SAtom (drop (i + 1) command)])"

definition executeDisposition :: "string \<Rightarrow> imap_command" where
  "executeDisposition command =
     (case parseDisposition command of (verb, rest) \<Rightarrow>
        if verb = ''UID STORE'' then
          (case parseUidStore rest of Some (uid, sign, flags) \<Rightarrow> execStoreFlags uid sign flags | None \<Rightarrow> execRawFallback command)
        else if verb = ''UID MOVE'' then
          (case parseUidArgFolder rest of Some (uid, folder) \<Rightarrow> MessageMove uid folder | None \<Rightarrow> execRawFallback command)
        else if verb = ''UID COPY'' then
          (case parseUidArgFolder rest of Some (uid, folder) \<Rightarrow> MessageCopy uid folder | None \<Rightarrow> execRawFallback command)
        else if verb = ''UID EXPUNGE'' then
          (case parseUidOnly rest of Some uid \<Rightarrow> Exec ''UID EXPUNGE'' [SAtom (show_nat uid)] | None \<Rightarrow> execRawFallback command)
        else if verb = ''EXPUNGE'' then Exec ''EXPUNGE'' []
        else execRawFallback command)"

section \<open>Messages\<close>

datatype postal_address =
  Postal (pa_name: "string option") (pa_address: "string option") (pa_group: "postal_address list option")

record postal_attachment =
  at_filename :: "string option"
  at_mimeType :: "string option"
  at_contentId :: "string option"
  at_disposition :: "string option"
  at_content :: "string option"

record parsed_mail =
  pm_messageId :: "string option"
  pm_inReplyTo :: "string option"
  pm_references :: "json option"
  pm_from :: "postal_address option"
  pm_to :: "postal_address list option"
  pm_cc :: "postal_address list option"
  pm_bcc :: "postal_address list option"
  pm_replyTo :: "postal_address list option"
  pm_subject :: "string option"
  pm_date :: "string option"
  pm_text :: "string option"
  pm_html :: "string option"
  pm_headers :: "(string \<times> string) list option"
  pm_attachments :: "postal_attachment list option"

fun nonempty :: "string option \<Rightarrow> string option" where
  \<comment> \<open>a truthy string\<close>
  "nonempty (Some (c # cs)) = Some (c # cs)"
| "nonempty _ = None"

definition opt_field :: "string \<Rightarrow> json option \<Rightarrow> (string \<times> json) list" where
  \<comment> \<open>\<open>...(v === undefined ? {} : { k: v })\<close>\<close>
  "opt_field k v = (case v of None \<Rightarrow> [] | Some x \<Rightarrow> [(k, x)])"

fun flattenAddress :: "postal_address \<Rightarrow> json list" where
  \<comment> \<open>what is pushed onto \<open>out\<close>\<close>
  "flattenAddress (Postal n a g) =
     (case nonempty a of
        Some addr \<Rightarrow> [JObj (opt_field ''name'' (map_option JStr (nonempty n)) @ [(''address'', JStr addr)])]
      | None \<Rightarrow> (case g of None \<Rightarrow> [] | Some gs \<Rightarrow> concat (map flattenAddress gs)))"

definition toAddressList :: "postal_address list option \<Rightarrow> json" where
  "toAddressList arr = JArr (case arr of None \<Rightarrow> [] | Some as \<Rightarrow> concat (map flattenAddress as))"

fun add_header :: "(string, json list) jsmap option \<Rightarrow> string \<times> string \<Rightarrow> (string, json list) jsmap option" where
  \<comment> \<open>\<open>None\<close>: \<open>out[key]\<close> is an inherited property and has no \<open>push\<close>\<close>
  "add_header None h = None"
| "add_header (Some out) (k, v) =
     (let key = toLowerCase k
      in case map_get out key of
           Some vs \<Rightarrow> Some (map_set key (vs @ [JStr v]) out)
         | None \<Rightarrow> if key \<in> set object_prototype then None else Some (map_set key [JStr v] out))"

definition normalizeHeaders :: "(string \<times> string) list option \<Rightarrow> json option" where
  "normalizeHeaders headers =
     map_option (\<lambda>out. JObj (map (\<lambda>(k, vs). (k, JArr vs)) out))
       (foldl add_header (Some []) (case headers of None \<Rightarrow> [] | Some hs \<Rightarrow> hs))"

definition normalizeReferences :: "json option \<Rightarrow> json" where
  "normalizeReferences refs =
     (case refs of
        Some (JStr t) \<Rightarrow> JArr (map JStr (filter (\<lambda>w. w \<noteq> []) (split_ws t)))
      | Some (JArr vs) \<Rightarrow> JArr vs
      | _ \<Rightarrow> JArr [])"

definition normalizeAttachment :: "postal_attachment \<Rightarrow> json" where
  "normalizeAttachment att =
     (let content = (case at_content att of Some c \<Rightarrow> c | None \<Rightarrow> []);
          disposition = (case at_disposition att of
             Some d \<Rightarrow> if d = ''inline'' \<or> d = ''attachment'' then Some d else None
           | None \<Rightarrow> None)
      in JObj (opt_field ''filename'' (map_option JStr (at_filename att)) @
           [(''contentType'', JStr (case at_mimeType att of Some t \<Rightarrow> t | None \<Rightarrow> ''application/octet-stream'')),
            (''size'', JNum (int (length content * 3 div 4)))] @
           opt_field ''contentId'' (map_option JStr (nonempty (at_contentId att))) @
           opt_field ''contentDisposition'' (map_option JStr disposition) @
           [(''content'', JStr content)]))"

definition parseRfc822 :: "parsed_mail \<Rightarrow> nat \<Rightarrow> string + json" where
  "parseRfc822 parsed uid =
     (case normalizeHeaders (pm_headers parsed) of
        None \<Rightarrow> Inl ''out[key].push is not a function''
      | Some headers \<Rightarrow> Inr (JObj (
          [(''uid'', JNum (int uid))] @
          opt_field ''messageId'' (map_option JStr (nonempty (pm_messageId parsed))) @
          opt_field ''inReplyTo'' (map_option JStr (nonempty (pm_inReplyTo parsed))) @
          [(''references'', normalizeReferences (pm_references parsed)),
           (''from'', case (case pm_from parsed of None \<Rightarrow> [] | Some a \<Rightarrow> flattenAddress a) of
              a # as \<Rightarrow> a | [] \<Rightarrow> JObj [(''address'', JStr [])]),
           (''to'', toAddressList (pm_to parsed)),
           (''cc'', toAddressList (pm_cc parsed)),
           (''bcc'', toAddressList (pm_bcc parsed))] @
          opt_field ''replyTo'' (map_option (\<lambda>as. toAddressList (Some as)) (pm_replyTo parsed)) @
          [(''subject'', JStr (case pm_subject parsed of Some t \<Rightarrow> t | None \<Rightarrow> [])),
           (''date'', JStr (case pm_date parsed of Some t \<Rightarrow> t | None \<Rightarrow> ''1970-01-01T00:00:00.000Z''))] @
          opt_field ''text'' (map_option JStr (pm_text parsed)) @
          opt_field ''html'' (map_option JStr (pm_html parsed)) @
          [(''headers'', headers),
           (''attachments'', JArr (map normalizeAttachment (case pm_attachments parsed of Some as \<Rightarrow> as | None \<Rightarrow> [])))])))"

section \<open>The schema of a message\<close>

definition imapAddressSchema :: "json \<Rightarrow> json option" where
  "imapAddressSchema v = do {
     fs \<leftarrow> strictObject [''name'', ''address''] v;
     _ \<leftarrow> optional fs ''name'' z_string;
     _ \<leftarrow> required fs ''address'' z_string;
     Some v
   }"

definition imapAttachmentSchema :: "json \<Rightarrow> json option" where
  "imapAttachmentSchema v = do {
     fs \<leftarrow> strictObject [''filename'', ''contentType'', ''size'', ''contentId'', ''contentDisposition'', ''content''] v;
     _ \<leftarrow> optional fs ''filename'' z_string;
     _ \<leftarrow> required fs ''contentType'' z_string;
     _ \<leftarrow> required fs ''size'' z_number;
     _ \<leftarrow> optional fs ''contentId'' z_string;
     _ \<leftarrow> optional fs ''contentDisposition'' (z_text (\<lambda>d. d \<in> {''inline'', ''attachment''}));
     _ \<leftarrow> required fs ''content'' z_string;
     Some v
   }"

definition imapMessageSchema :: "json \<Rightarrow> json option" where
  "imapMessageSchema v = do {
     fs \<leftarrow> strictObject [''uid'', ''messageId'', ''inReplyTo'', ''references'', ''from'', ''to'', ''cc'', ''bcc'', ''replyTo'',
       ''subject'', ''date'', ''text'', ''html'', ''headers'', ''attachments''] v;
     _ \<leftarrow> required fs ''uid'' z_number;
     _ \<leftarrow> optional fs ''messageId'' z_string;
     _ \<leftarrow> optional fs ''inReplyTo'' z_string;
     _ \<leftarrow> required fs ''references'' (z_array z_string);
     _ \<leftarrow> required fs ''from'' imapAddressSchema;
     _ \<leftarrow> required fs ''to'' (z_array imapAddressSchema);
     _ \<leftarrow> required fs ''cc'' (z_array imapAddressSchema);
     _ \<leftarrow> required fs ''bcc'' (z_array imapAddressSchema);
     _ \<leftarrow> optional fs ''replyTo'' (z_array imapAddressSchema);
     _ \<leftarrow> required fs ''subject'' z_string;
     _ \<leftarrow> required fs ''date'' z_string;
     _ \<leftarrow> optional fs ''text'' z_string;
     _ \<leftarrow> optional fs ''html'' z_string;
     _ \<leftarrow> required fs ''headers'' (z_record (z_array z_string));
     _ \<leftarrow> required fs ''attachments'' (z_array imapAttachmentSchema);
     Some v
   }"

section \<open>Search expressions are read back\<close>

definition escape_text :: "string \<Rightarrow> string" where
  "escape_text v = concat (map (\<lambda>c. if c = CHR 0x22 \<or> c = CHR 0x5C then [CHR 0x5C, c] else [c]) v)"

fun show_attr :: "search_attribute \<Rightarrow> string" where
  "show_attr (SString v) = CHR 0x22 # escape_text v @ [CHR 0x22]"
| "show_attr (SAtom w) = w"

fun attr_ok :: "search_attribute \<Rightarrow> bool" where
  "attr_ok (SString v) = True"
| "attr_ok (SAtom w) = (w \<noteq> [] \<and> take_word w = (w, []) \<and> hd w \<noteq> CHR 0x22)"

lemma line_end_special [simp]: "\<not> line_end_at (CHR 0x22 # cs)" "\<not> line_end_at (CHR 0x5C # cs)"
  by (simp_all add: line_end_at_def)

lemma take_quoted_escape: "take_quoted (escape_text v @ CHR 0x22 # r) = Some (escape_text v, r)"
  by (induction v) (auto simp: escape_text_def)

lemma unescape_escape: "unescape (escape_text v) = v"
proof (induction v)
  case (Cons c v)
  show ?case
  proof (cases "c = CHR 0x22 \<or> c = CHR 0x5C")
    case True
    with Cons show ?thesis by (auto simp: escape_text_def)
  next
    case False
    then have "escape_text (c # v) = c # escape_text v" by (simp add: escape_text_def)
    with Cons False show ?thesis by (cases "escape_text v") auto
  qed
qed (simp add: escape_text_def)

lemma space_code_bytes: "p \<in> set space_codes \<Longrightarrow> length p = 1 \<or> list_all (\<lambda>b. b \<ge> 128) p"
  by (auto simp: space_codes_def)

lemma space_at_before_blank:
  assumes "t \<noteq> []"
  shows "space_at (t @ CHR '' '' # r) = space_at t"
proof -
  have "take (length p) (map of_char (t @ CHR '' '' # r)) = p \<longleftrightarrow> take (length p) (map of_char t) = (p :: nat list)"
    if p: "p \<in> set space_codes" for p
  proof (cases "length p \<le> length t")
    case False
    then have "list_all (\<lambda>b. b \<ge> 128) p" using space_code_bytes [OF p] assms by (cases t) auto
    moreover have "take (length p) (map of_char (t @ CHR '' '' # r)) ! length t = (32 :: nat)"
      using False by (simp add: nth_append)
    moreover have "length (take (length p) (map of_char t :: nat list)) \<noteq> length p" using False by simp
    ultimately show ?thesis using False by (metis list_all_length not_le numeral_le_iff semiring_norm(69,72,76,78) linorder_not_less)
  qed simp
  then have "find (\<lambda>p. take (length p) (map of_char (t @ CHR '' '' # r)) = p) space_codes =
      find (\<lambda>p. take (length p) (map of_char t) = p) space_codes"
    by (intro find_cong) auto
  then show ?thesis by (simp add: space_at_def)
qed


lemma take_word_before_blank: "take_word w = (w, []) \<Longrightarrow> take_word (w @ CHR '' '' # r) = (w, CHR '' '' # r)"
proof (induction w)
  case Nil
  then show ?case by (simp add: space_at_def space_codes_def)
next
  case (Cons c w)
  then have "space_at (c # w) = 0" "take_word w = (w, [])"
    by (auto split: if_splits simp: apfst_def map_prod_def prod.case_eq_if prod_eq_iff)
  with Cons.IH space_at_before_blank [of "c # w" r] show ?case by simp
qed

lemma tokenize_blank: "tokenizeSearch (CHR '' '' # r) = tokenizeSearch r"
proof -
  have "space_at (CHR '' '' # r) = 1" by (simp add: space_at_def space_codes_def)
  then show ?thesis by (subst tokenizeSearch.simps) simp
qed

lemma tokenize_attr:
  assumes "attr_ok a" and "r = [] \<or> (\<exists>t. r = CHR '' '' # t)"
  shows "tokenizeSearch (show_attr a @ r) = a # tokenizeSearch r"
proof (cases a)
  case (SString v)
  have "space_at (CHR 0x22 # t) = 0" for t by (simp add: space_at_def space_codes_def)
  then show ?thesis
    unfolding SString by (subst tokenizeSearch.simps) (simp add: take_quoted_escape unescape_escape)
next
  case (SAtom w)
  then have w: "w \<noteq> []" "take_word w = (w, [])" "hd w \<noteq> CHR 0x22" using assms(1) by auto
  have "take_word (w @ r) = (w, r)" using assms(2) w(2) take_word_before_blank by auto
  moreover from this have "space_at (w @ r) = 0"
    using w(1) by (cases w) (auto split: if_splits)
  ultimately show ?thesis
    unfolding SAtom using w by (subst tokenizeSearch.simps) simp
qed

text \<open>
  \<^bold>\<open>C27\<close>. A search expression is read as it was written: the tokens of a list of atoms and quoted
  strings, with every quote and backslash of a string escaped and blanks between the tokens,
  are those atoms and strings, so that no text inside quotes can become a search key.
\<close>

theorem search_round_trip:
  assumes "list_all attr_ok ts"
  shows "tokenizeSearch (js_join '' '' (map show_attr ts)) = ts"
  using assms
proof (induction ts rule: induct_list012)
  case 1
  show ?case by (simp add: tokenizeSearch.simps)
next
  case (2 a)
  with tokenize_attr [of a "[]"] show ?case by (simp add: tokenizeSearch.simps)
next
  case (3 a b ts)
  with tokenize_attr [of a "CHR '' '' # js_join '' '' (map show_attr (b # ts))"] show ?case
    by (simp add: tokenize_blank)
qed

theorem search_round_trip_witness:
  "list_all attr_ok [SAtom ''SUBJECT'', SString [CHR 0x22, CHR ''x'', CHR '' '', CHR 0x5C]] \<and>
   tokenizeSearch (js_join '' '' (map show_attr [SAtom ''SUBJECT'', SString [CHR 0x22, CHR ''x'', CHR '' '', CHR 0x5C]])) =
     [SAtom ''SUBJECT'', SString [CHR 0x22, CHR ''x'', CHR '' '', CHR 0x5C]]"
proof -
  have "list_all attr_ok [SAtom ''SUBJECT'', SString [CHR 0x22, CHR ''x'', CHR '' '', CHR 0x5C]]" by code_simp
  with search_round_trip show ?thesis by blast
qed

section \<open>Parsed messages satisfy the schema\<close>

lemma those_ok: "(\<And>x. x \<in> set xs \<Longrightarrow> p x \<noteq> None) \<Longrightarrow> those (map p xs) \<noteq> None"
proof (induction xs)
  case (Cons x xs)
  then have "p x \<noteq> None" "those (map p xs) \<noteq> None" by auto
  then show ?case by auto
qed simp

lemma z_array_ok: "list_all (\<lambda>v. p v \<noteq> None) vs \<Longrightarrow> \<exists>ys. z_array p (JArr vs) = Some ys"
  using those_ok [of vs p] by (auto simp: z_array_def list_all_iff)

lemma flattenAddress_ok: "list_all (\<lambda>v. imapAddressSchema v \<noteq> None) (flattenAddress a)"
proof (induction a rule: flattenAddress.induct)
  case (1 n a g)
  then show ?case
    by (auto simp: imapAddressSchema_def strictObject_def required_def optional_def opt_field_def z_string_def list_all_iff
        split: option.splits)
qed

lemma addresses_ok: "\<exists>ys. z_array imapAddressSchema (toAddressList arr) = Some ys"
  unfolding toAddressList_def
  by (rule z_array_ok) (use flattenAddress_ok in \<open>auto simp: list_all_iff split: option.split\<close>)

definition header_texts :: "(string, json list) jsmap \<Rightarrow> bool" where
  "header_texts out = (\<forall>(k, vs) \<in> set out. \<forall>v \<in> set vs. \<exists>s. v = JStr s)"

lemma header_texts_set: "header_texts out \<Longrightarrow> \<forall>v \<in> set vs. \<exists>s. v = JStr s \<Longrightarrow> header_texts (map_set k vs out)"
  unfolding header_texts_def using map_set_mem [of _ k vs out] by blast

lemma header_texts_get: "header_texts out \<Longrightarrow> map_get out k = Some vs \<Longrightarrow> \<forall>v \<in> set vs. \<exists>s. v = JStr s"
  unfolding header_texts_def using map_of_SomeD [of out k vs] by blast

lemma add_header_ok:
  assumes "add_header (Some out) h = Some out'" and "header_texts out"
  shows "header_texts out'"
proof -
  obtain k v where h: "h = (k, v)" by fastforce
  show ?thesis
  proof (cases "map_get out (toLowerCase k)")
    case None
    with assms(1) have "out' = map_set (toLowerCase k) [JStr v] out" by (simp add: h Let_def split: if_splits)
    with assms(2) show ?thesis by (simp add: header_texts_set)
  next
    case (Some vs)
    with assms(1) have "out' = map_set (toLowerCase k) (vs @ [JStr v]) out" by (simp add: h Let_def)
    with assms(2) header_texts_get [OF assms(2) Some] show ?thesis by (auto intro!: header_texts_set)
  qed
qed

lemma add_headers_ok:
  "foldl add_header (Some out) hs = Some out' \<Longrightarrow> header_texts out \<Longrightarrow> header_texts out'"
proof (induction hs arbitrary: out)
  case (Cons h hs)
  have none: "foldl add_header None xs = None" for xs by (induction xs) auto
  from Cons.prems obtain out1 where "add_header (Some out) h = Some out1"
    by (cases "add_header (Some out) h") (auto simp: none)
  with Cons add_header_ok [OF this Cons.prems(2)] show ?case by simp
qed simp

lemma headers_ok: "normalizeHeaders hs = Some v \<Longrightarrow> \<exists>ys. z_record (z_array z_string) v = Some ys"
proof -
  assume "normalizeHeaders hs = Some v"
  then obtain out where out: "foldl add_header (Some []) (case hs of None \<Rightarrow> [] | Some hs \<Rightarrow> hs) = Some out"
    "v = JObj (map (\<lambda>(k, vs). (k, JArr vs)) out)"
    by (auto simp: normalizeHeaders_def)
  have "header_texts out" by (rule add_headers_ok [OF out(1)]) (simp add: header_texts_def)
  then have "those (map (\<lambda>x. map_option (Pair (fst x)) (z_array z_string (JArr (snd x)))) out) \<noteq> None"
    using z_array_ok [of z_string] by (intro those_ok) (fastforce simp: list_all_iff z_string_def header_texts_def)
  with out(2) show ?thesis by (simp add: z_record_def comp_def case_prod_unfold)
qed

lemma attachment_ok: "imapAttachmentSchema (normalizeAttachment att) \<noteq> None"
  by (auto simp: imapAttachmentSchema_def normalizeAttachment_def Let_def strictObject_def required_def optional_def
      opt_field_def z_string_def z_number_def z_text_def z_refine_def split: option.splits)

definition references_text :: "parsed_mail \<Rightarrow> bool" where
  \<comment> \<open>what the parser documents: a text, or a list of texts\<close>
  "references_text m = (case pm_references m of Some (JArr vs) \<Rightarrow> list_all (\<lambda>v. case v of JStr _ \<Rightarrow> True | _ \<Rightarrow> False) vs | _ \<Rightarrow> True)"

lemma references_ok: "references_text m \<Longrightarrow> \<exists>ys. z_array z_string (normalizeReferences (pm_references m)) = Some ys"
  by (auto simp: normalizeReferences_def references_text_def list_all_iff z_string_def split: option.split json.splits
      intro!: z_array_ok)


lemma from_ok:
  "\<exists>ys. imapAddressSchema (case (case f of None \<Rightarrow> [] | Some a \<Rightarrow> flattenAddress a) of
      a # as \<Rightarrow> a | [] \<Rightarrow> JObj [(''address'', JStr [])]) = Some ys"
proof (cases f)
  case None
  then show ?thesis by (simp add: imapAddressSchema_def strictObject_def required_def optional_def z_string_def)
next
  case (Some a)
  with flattenAddress_ok [of a] show ?thesis
    by (cases "flattenAddress a")
      (auto simp: imapAddressSchema_def strictObject_def required_def optional_def z_string_def)
qed

lemma attachments_ok: "\<exists>ys. z_array imapAttachmentSchema (JArr (map normalizeAttachment as)) = Some ys"
  by (rule z_array_ok) (use attachment_ok in \<open>auto simp: list_all_iff\<close>)

lemma opt_field_get: "map_get (opt_field k v) k' = (if k' = k then v else None)"
  by (simp add: opt_field_def split: option.split)

lemma opt_field_keys: "P k \<Longrightarrow> list_all P (map fst (opt_field k v))"
  by (simp add: opt_field_def split: option.split)

lemma optional_text: "map_get fs k = map_option JStr v \<Longrightarrow> \<exists>y. optional fs k z_string = Some y"
  by (cases v) (simp_all add: optional_def z_string_def)

lemma required_ok: "map_get fs k = Some v \<Longrightarrow> \<exists>y. p v = Some y \<Longrightarrow> \<exists>y. required fs k p = Some y"
  by (auto simp: required_def)

text \<open>
  The message the IMAP backend hands to a handler always has the declared type: whatever
  the mail parser returns for a mail (with references that are texts), \<open>parseRfc822\<close> either
  fails on a header named like an inherited property or yields a value that the strict schema
  \<open>imapMessageSchema\<close> accepts.
\<close>

lemma parsed_message_typed:
  assumes "references_text parsed"
  shows "case parseRfc822 parsed uid of
      Inl _ \<Rightarrow> list_ex (\<lambda>(k, v). toLowerCase k \<in> set object_prototype) (case pm_headers parsed of None \<Rightarrow> [] | Some hs \<Rightarrow> hs)
    | Inr v \<Rightarrow> imapMessageSchema v = Some v"
proof (cases "normalizeHeaders (pm_headers parsed)")
  case None
  have "list_ex (\<lambda>(k, v). toLowerCase k \<in> set object_prototype) hs" if "foldl add_header (Some out) hs = None" for hs out
    using that
  proof (induction hs arbitrary: out)
    case (Cons h hs)
    then show ?case by (cases h; cases "add_header (Some out) h") (auto simp: Let_def split: option.splits if_splits)
  qed simp
  with None show ?thesis by (simp add: parseRfc822_def normalizeHeaders_def)
next
  case (Some v)
  note parts = references_ok [OF assms] from_ok [of "pm_from parsed"] addresses_ok [of "pm_to parsed"]
    addresses_ok [of "pm_cc parsed"] addresses_ok [of "pm_bcc parsed"] headers_ok [OF Some]
    attachments_ok [of "case pm_attachments parsed of Some as \<Rightarrow> as | None \<Rightarrow> []"]
  let ?fs = "case parseRfc822 parsed uid of Inr (JObj fs) \<Rightarrow> fs | _ \<Rightarrow> []"
  have get: "map_get ?fs ''uid'' = Some (JNum (int uid))"
    "map_get ?fs ''messageId'' = map_option JStr (nonempty (pm_messageId parsed))"
    "map_get ?fs ''inReplyTo'' = map_option JStr (nonempty (pm_inReplyTo parsed))"
    "map_get ?fs ''references'' = Some (normalizeReferences (pm_references parsed))"
    "map_get ?fs ''from'' = Some (case (case pm_from parsed of None \<Rightarrow> [] | Some a \<Rightarrow> flattenAddress a) of
        a # as \<Rightarrow> a | [] \<Rightarrow> JObj [(''address'', JStr [])])"
    "map_get ?fs ''to'' = Some (toAddressList (pm_to parsed))"
    "map_get ?fs ''cc'' = Some (toAddressList (pm_cc parsed))"
    "map_get ?fs ''bcc'' = Some (toAddressList (pm_bcc parsed))"
    "map_get ?fs ''replyTo'' = map_option (\<lambda>as. toAddressList (Some as)) (pm_replyTo parsed)"
    "map_get ?fs ''subject'' = Some (JStr (case pm_subject parsed of Some t \<Rightarrow> t | None \<Rightarrow> []))"
    "map_get ?fs ''date'' = Some (JStr (case pm_date parsed of Some t \<Rightarrow> t | None \<Rightarrow> ''1970-01-01T00:00:00.000Z''))"
    "map_get ?fs ''text'' = map_option JStr (pm_text parsed)"
    "map_get ?fs ''html'' = map_option JStr (pm_html parsed)"
    "map_get ?fs ''headers'' = Some v"
    "map_get ?fs ''attachments'' = Some (JArr (map normalizeAttachment (case pm_attachments parsed of Some as \<Rightarrow> as | None \<Rightarrow> [])))"
    by (simp_all add: parseRfc822_def Some opt_field_get map_add_def) (simp_all split: option.split)
  have "list_all (\<lambda>k. k \<in> set [''uid'', ''messageId'', ''inReplyTo'', ''references'', ''from'', ''to'', ''cc'', ''bcc'', ''replyTo'',
       ''subject'', ''date'', ''text'', ''html'', ''headers'', ''attachments'']) (keys ?fs)"
    by (simp add: parseRfc822_def Some opt_field_keys)
  then have strict: "strictObject [''uid'', ''messageId'', ''inReplyTo'', ''references'', ''from'', ''to'', ''cc'', ''bcc'', ''replyTo'',
       ''subject'', ''date'', ''text'', ''html'', ''headers'', ''attachments''] (JObj ?fs) = Some ?fs"
    by (simp add: strictObject_def)
  have reply: "\<exists>y. optional ?fs ''replyTo'' (z_array imapAddressSchema) = Some y"
    using addresses_ok by (cases "pm_replyTo parsed") (auto simp: optional_def get(9))
  have str: "\<exists>y. z_string (JStr t) = Some y" for t by (simp add: z_string_def)
  have num: "\<exists>y. z_number (JNum n) = Some y" for n by (simp add: z_number_def)
  have result: "parseRfc822 parsed uid = Inr (JObj ?fs)" by (simp add: parseRfc822_def Some)
  have "imapMessageSchema (JObj ?fs) = Some (JObj ?fs)"
    using required_ok [where p = z_number, OF get(1) num] optional_text [OF get(2)] optional_text [OF get(3)]
      required_ok [where p = "z_array z_string", OF get(4) parts(1)] required_ok [where p = imapAddressSchema, OF get(5) parts(2)]
      required_ok [where p = "z_array imapAddressSchema", OF get(6) parts(3)]
      required_ok [where p = "z_array imapAddressSchema", OF get(7) parts(4)]
      required_ok [where p = "z_array imapAddressSchema", OF get(8) parts(5)] reply
      required_ok [where p = z_string, OF get(10) str] required_ok [where p = z_string, OF get(11) str]
      optional_text [OF get(12)] optional_text [OF get(13)] required_ok [where p = "z_record (z_array z_string)", OF get(14) parts(6)]
      required_ok [where p = "z_array imapAttachmentSchema", OF get(15) parts(7)]
    unfolding imapMessageSchema_def strict by auto
  then show ?thesis by (subst result) (simp only: sum.case)
qed


definition sample_mail :: parsed_mail where
  "sample_mail =
     \<lparr>pm_messageId = Some ''<1@x>'', pm_inReplyTo = None, pm_references = Some (JStr ''<0@x>''),
      pm_from = Some (Postal (Some ''Ada'') (Some ''ada@x'') None), pm_to = Some [Postal None None (Some [Postal None (Some ''b@x'') None])],
      pm_cc = None, pm_bcc = None, pm_replyTo = None, pm_subject = Some ''Hi'', pm_date = None, pm_text = Some ''t'', pm_html = None,
      pm_headers = Some [(''Received'', ''a''), (''RECEIVED'', ''b'')], pm_attachments = None\<rparr>"

lemma parsed_message_typed_witness:
  "references_text sample_mail \<and> (\<exists>v. parseRfc822 sample_mail 7 = Inr v \<and> imapMessageSchema v = Some v)"
proof -
  have ok: "references_text sample_mail" by (simp add: references_text_def sample_mail_def)
  moreover have "\<not> list_ex (\<lambda>(k, v). toLowerCase k \<in> set object_prototype)
      (case pm_headers sample_mail of None \<Rightarrow> [] | Some hs \<Rightarrow> hs)" by code_simp
  ultimately show ?thesis
    using parsed_message_typed [OF ok, of 7] by (cases "parseRfc822 sample_mail 7") auto
qed

text \<open>A mail with a header named \<open>Constructor\<close> cannot be parsed, in any drain.\<close>

lemma constructor_header_unreadable:
  "parseRfc822 (sample_mail\<lparr>pm_headers := Some [(''Constructor'', ''x'')]\<rparr>) uid = Inl ''out[key].push is not a function''"
  by (simp add: parseRfc822_def normalizeHeaders_def object_prototype_def lower_def less_eq_char_def sample_mail_def,
      code_simp)

end
