(* ===== verification/ImapSource.thy ===== *)
theory ImapSource
  imports ImapMail SourceIndex
begin

text \<open>
  The IMAP trigger backend (\<open>packages/runtime/src/triggers/imap.ts\<close>): draining a mailbox, and the
  connection lifecycle of an entry.

  A \<open>SourceEntry\<close> is the record \<open>imap_entry\<close>; the fields after \<open>sx_disposed\<close> are what else exists
  for it at run time. \<open>sx_tasks\<close> are the calls of \<open>runEntry\<close> in progress, each at the \<open>await\<close> it
  is suspended at (two awaits in a row with nothing between them are one). \<open>sx_wakeups\<close> are the
  wake-up drivers by identity, with the promise of their pending \<open>next()\<close>; \<open>sx_resolved\<close> are the
  promises that are resolved. \<open>sx_timers\<close> are the armed reconnect timers with their delay, which
  may be more than the one whose handle \<open>reconnectTimer\<close> holds. Clients, promises and timers are
  numbered by \<open>sx_fresh\<close>. The client library decides how each call ends: its outcomes are inputs.
\<close>

section \<open>Draining a mailbox\<close>

datatype fetch_outcome = NoSource | FetchThrew string | Fetched parsed_mail

record drain_env =
  de_search :: "string + string list"
  de_fetch :: "nat \<Rightarrow> fetch_outcome"
  de_fire :: "nat \<Rightarrow> json \<Rightarrow> fire_result option"
  de_exec :: "nat \<Rightarrow> imap_command \<Rightarrow> string option"
  de_disposed :: "nat \<Rightarrow> bool"

record drain_state =
  ds_fired :: "(nat \<times> json) list"
  ds_commands :: "(nat \<times> imap_command) list"
  ds_failedFetchUids :: "nat list"
  ds_lastFetchErr :: "string option"

datatype drain_fatal = SearchFatal string | DispositionFatal nat string

definition read_message :: "drain_env \<Rightarrow> nat \<Rightarrow> string + json" where
  \<comment> \<open>\<open>fetchOne\<close> and \<open>parseRfc822\<close> inside their \<open>try\<close>\<close>
  "read_message env uid =
     (case de_fetch env uid of
        NoSource \<Rightarrow> Inl ''no-source''
      | FetchThrew err \<Rightarrow> Inl err
      | Fetched mail \<Rightarrow> parseRfc822 mail uid)"

definition extractCommands :: "json \<Rightarrow> string list" where
  "extractCommands out =
     (case out of
        JObj fs \<Rightarrow> (case map_get fs ''command'' of
            Some (JArr cs) \<Rightarrow> concat (map (\<lambda>c. case c of JStr t \<Rightarrow> [t] | _ \<Rightarrow> []) cs)
          | _ \<Rightarrow> [])
      | _ \<Rightarrow> [])"

definition dispositions_of :: "imap_config \<Rightarrow> fire_result option \<Rightarrow> string list" where
  "dispositions_of d result =
     (case result of
        Some (FireOk out) \<Rightarrow> extractCommands out
      | _ \<Rightarrow> (case imap_onError d of Some cs \<Rightarrow> cs | None \<Rightarrow> []))"

fun applyDispositions :: "(imap_command \<Rightarrow> string option) \<Rightarrow> string list \<Rightarrow> imap_command list \<times> string option" where
  \<comment> \<open>the calls made and the error that stopped them\<close>
  "applyDispositions exec [] = ([], None)"
| "applyDispositions exec (c # cs) =
     (let cmd = executeDisposition c
      in case exec cmd of
           Some err \<Rightarrow> ([cmd], Some err)
         | None \<Rightarrow> apfst (Cons cmd) (applyDispositions exec cs))"

fun drain_loop :: "imap_config \<Rightarrow> drain_env \<Rightarrow> nat list \<Rightarrow> drain_state \<Rightarrow> drain_state \<times> drain_fatal option" where
  "drain_loop d env [] ds = (ds, None)"
| "drain_loop d env (uid # uids) ds =
     (if de_disposed env uid then (ds, None)
      else (case read_message env uid of
              Inl err \<Rightarrow>
                drain_loop d env uids
                  (ds\<lparr>ds_failedFetchUids := ds_failedFetchUids ds @ [uid], ds_lastFetchErr := Some err\<rparr>)
            | Inr msg \<Rightarrow>
                let ds1 = ds\<lparr>ds_fired := ds_fired ds @ [(uid, msg)]\<rparr>
                in case applyDispositions (de_exec env uid) (dispositions_of d (de_fire env uid msg)) of
                     (cmds, err) \<Rightarrow>
                       let ds2 = ds1\<lparr>ds_commands := ds_commands ds1 @ map (Pair uid) cmds\<rparr>
                       in case err of
                            Some e \<Rightarrow> (ds2, Some (DispositionFatal uid e))
                          | None \<Rightarrow> drain_loop d env uids ds2))"

definition poll_failed :: "string \<Rightarrow> string \<Rightarrow> nat list \<Rightarrow> exception_params" where
  "poll_failed stage message failedUids =
     \<lparr>xp_kind = None, xp_name = ''imap.poll-failed'', xp_error = Some message, xp_input = None,
      xp_details = Some [(''stage'', JStr stage), (''failedUids'', JArr (map (\<lambda>u. JNum (int u)) failedUids))]\<rparr>"

definition drain_exception :: "drain_state \<Rightarrow> drain_fatal option \<Rightarrow> exception_params list" where
  \<comment> \<open>the \<open>finally\<close> block\<close>
  "drain_exception ds fatal =
     (case fatal of
        Some (SearchFatal err) \<Rightarrow> [poll_failed ''search'' err []]
      | Some (DispositionFatal uid err) \<Rightarrow> [poll_failed ''disposition'' err [uid]]
      | None \<Rightarrow>
          if ds_failedFetchUids ds \<noteq> []
          then [poll_failed ''fetch'' (case ds_lastFetchErr ds of Some e \<Rightarrow> e | None \<Rightarrow> ''fetch failed'') (ds_failedFetchUids ds)]
          else [])"

definition imap_drain :: "imap_config \<Rightarrow> drain_env \<Rightarrow> drain_state \<times> drain_fatal option \<times> exception_params list" where
  "imap_drain d env =
     (let empty = \<lparr>ds_fired = [], ds_commands = [], ds_failedFetchUids = [], ds_lastFetchErr = None\<rparr>
      in case (case de_search env of
                 Inl err \<Rightarrow> (empty, Some (SearchFatal err))
               | Inr values \<Rightarrow> drain_loop d env (execUidSearch values) empty) of
           (ds, fatal) \<Rightarrow> (ds, fatal, drain_exception ds fatal))"

section \<open>Entries\<close>

record wakeup =
  wk_idle :: bool
  wk_dirty :: bool
  wk_pending :: "nat option"
  wk_timer :: bool
  wk_armed :: nat
  wk_live :: bool

datatype imap_task =
    AwaitConnect nat
  | AwaitGiveUp nat
  | AwaitMailbox nat
  | AwaitMailboxReport nat
  | AwaitFirstDrain nat
  | AwaitWakeup nat nat
  | AwaitDrain nat

record imap_entry =
  sx_owner :: string
  sx_repo :: string
  sx_entry :: trigger_entry
  sx_client :: "nat option"
  sx_wakeup :: "nat option"
  sx_reconnectTimer :: "nat option"
  sx_failures :: nat
  sx_disposed :: bool
  sx_tasks :: "imap_task list"
  sx_wakeups :: "wakeup list"
  sx_timers :: "(nat \<times> nat) list"
  sx_resolved :: "nat list"
  sx_fresh :: nat
  sx_logouts :: "nat list"
  sx_exceptions :: "exception_params list"

definition POLL_INTERVAL_MS :: nat where "POLL_INTERVAL_MS = 60000"

definition MAX_BACKOFF_MS :: nat where "MAX_BACKOFF_MS = 60 * 60000"

definition nextDelay :: "nat \<Rightarrow> nat" where
  "nextDelay failures =
     (if failures = 0 then POLL_INTERVAL_MS else min (POLL_INTERVAL_MS * 2 ^ (failures - 1)) MAX_BACKOFF_MS)"

definition imap_of :: "imap_entry \<Rightarrow> imap_config option" where
  "imap_of e = (case td_config (te_descriptor (sx_entry e)) of ImapTrigger d \<Rightarrow> Some d | _ \<Rightarrow> None)"

definition idle_mode :: "imap_entry \<Rightarrow> bool" where
  "idle_mode e = (case imap_of e of Some d \<Rightarrow> imap_mode d = ''idle'' | None \<Rightarrow> False)"

section \<open>Wake-up drivers\<close>

definition upd_wakeup :: "imap_entry \<Rightarrow> nat \<Rightarrow> (wakeup \<Rightarrow> wakeup) \<Rightarrow> imap_entry" where
  "upd_wakeup e w f = e\<lparr>sx_wakeups := (sx_wakeups e)[w := f (sx_wakeups e ! w)]\<rparr>"

definition resolve_pending :: "imap_entry \<Rightarrow> nat \<Rightarrow> imap_entry" where
  \<comment> \<open>\<open>const r = pendingResolve; pendingResolve = undefined; r?.()\<close>\<close>
  "resolve_pending e w =
     (case wk_pending (sx_wakeups e ! w) of
        None \<Rightarrow> e
      | Some p \<Rightarrow> (upd_wakeup e w (\<lambda>x. x\<lparr>wk_pending := None\<rparr>))\<lparr>sx_resolved := sx_resolved e @ [p]\<rparr>)"

definition new_wakeup :: "bool \<Rightarrow> wakeup" where
  \<comment> \<open>\<open>idleWakeup(client)\<close> or \<open>pollWakeup(POLL_INTERVAL_MS)\<close>\<close>
  "new_wakeup idle = \<lparr>wk_idle = idle, wk_dirty = False, wk_pending = None, wk_timer = False, wk_armed = 0, wk_live = True\<rparr>"

definition wakeup_next :: "imap_entry \<Rightarrow> nat \<Rightarrow> nat \<Rightarrow> imap_entry" where
  \<comment> \<open>\<open>next()\<close>, with the promise it returns\<close>
  "wakeup_next e w p =
     (let k = sx_wakeups e ! w
      in if wk_idle k then
           (if wk_dirty k
            then (upd_wakeup e w (\<lambda>x. x\<lparr>wk_dirty := False, wk_pending := None\<rparr>))\<lparr>sx_resolved := sx_resolved e @ [p]\<rparr>
            else upd_wakeup e w (\<lambda>x. x\<lparr>wk_pending := Some p\<rparr>))
         else upd_wakeup e w (\<lambda>x. x\<lparr>wk_pending := Some p, wk_timer := True, wk_armed := Suc (wk_armed x)\<rparr>))"

definition poll_elapsed :: "imap_entry \<Rightarrow> nat \<Rightarrow> imap_entry" where
  \<comment> \<open>the callback of \<open>pollWakeup\<close>'s timer\<close>
  "poll_elapsed e w = resolve_pending (upd_wakeup e w (\<lambda>x. x\<lparr>wk_timer := False, wk_armed := wk_armed x - 1\<rparr>)) w"

definition exists_pushed :: "imap_entry \<Rightarrow> nat \<Rightarrow> imap_entry" where
  \<comment> \<open>the \<open>exists\<close> listener of \<open>idleWakeup\<close>\<close>
  "exists_pushed e w = resolve_pending (upd_wakeup e w (\<lambda>x. x\<lparr>wk_dirty := True\<rparr>)) w"

definition wakeup_dispose :: "imap_entry \<Rightarrow> nat \<Rightarrow> imap_entry" where
  "wakeup_dispose e w =
     resolve_pending (upd_wakeup e w (\<lambda>x.
       (if \<not> wk_idle x \<and> wk_timer x then x\<lparr>wk_timer := False, wk_armed := wk_armed x - 1\<rparr> else x)\<lparr>wk_live := False\<rparr>)) w"

section \<open>Connection lifecycle\<close>

definition teardownConnection :: "imap_entry \<Rightarrow> imap_entry" where
  "teardownConnection e =
     (let e1 = (case sx_wakeup e of None \<Rightarrow> e | Some w \<Rightarrow> wakeup_dispose (e\<lparr>sx_wakeup := None\<rparr>) w)
      in case sx_client e1 of
           None \<Rightarrow> e1
         | Some c \<Rightarrow> e1\<lparr>sx_client := None, sx_logouts := sx_logouts e1 @ [c]\<rparr>)"

definition imap_disposeEntry :: "imap_entry \<Rightarrow> imap_entry" where
  "imap_disposeEntry e =
     (let e1 = e\<lparr>sx_disposed := True\<rparr>
      in teardownConnection
           (case sx_reconnectTimer e1 of
              None \<Rightarrow> e1
            | Some t \<Rightarrow> e1\<lparr>sx_timers := filter (\<lambda>x. fst x \<noteq> t) (sx_timers e1), sx_reconnectTimer := None\<rparr>))"

definition scheduleReconnect :: "bool \<Rightarrow> imap_entry \<Rightarrow> imap_entry" where
  "scheduleReconnect cur e =
     (if sx_disposed e \<or> \<not> cur then e
      else let e1 = teardownConnection e; t = sx_fresh e1
           in e1\<lparr>sx_timers := sx_timers e1 @ [(t, nextDelay (sx_failures e1))], sx_reconnectTimer := Some t, sx_fresh := Suc t\<rparr>)"

definition runEntry :: "bool \<Rightarrow> imap_entry \<Rightarrow> imap_entry" where
  \<comment> \<open>up to the \<open>await\<close> of \<open>client.connect()\<close> in \<open>setupConnection\<close>\<close>
  "runEntry cur e =
     (if sx_disposed e \<or> \<not> cur then e
      else e\<lparr>sx_tasks := sx_tasks e @ [AwaitConnect (sx_fresh e)], sx_fresh := Suc (sx_fresh e)\<rparr>)"

definition reconnect_fired :: "bool \<Rightarrow> imap_entry \<Rightarrow> nat \<Rightarrow> imap_entry" where
  "reconnect_fired cur e t =
     runEntry cur (e\<lparr>sx_timers := filter (\<lambda>x. fst x \<noteq> t) (sx_timers e), sx_reconnectTimer := None\<rparr>)"

definition set_task :: "imap_entry \<Rightarrow> nat \<Rightarrow> imap_task \<Rightarrow> imap_entry" where
  "set_task e k pc = e\<lparr>sx_tasks := (sx_tasks e)[k := pc]\<rparr>"

definition end_task :: "imap_entry \<Rightarrow> nat \<Rightarrow> imap_entry" where
  "end_task e k = e\<lparr>sx_tasks := splice1 k (sx_tasks e)\<rparr>"

definition classifyConnectErr :: "string \<Rightarrow> string" where
  "classifyConnectErr message =
     (let msg = toLowerCase message
      in if includes_text ''authenticationfailed'' msg \<or> includes_text ''auth'' msg then ''auth-failed''
         else if includes_text ''certificate'' msg \<or> includes_text ''tls'' msg \<or> includes_text ''ssl'' msg then ''tls-failed''
         else ''connect-failed'')"

definition connectErrText :: "string \<Rightarrow> string" where
  "connectErrText message = classifyConnectErr message @ '': '' @ message"

definition emitConnectFailure :: "string \<Rightarrow> string \<Rightarrow> exception_params" where
  "emitConnectFailure stage message =
     poll_failed stage (if stage = ''connect'' then connectErrText message else message) []"

datatype connect_outcome = ConnectFailed string | Connected bool

definition connect_error :: "imap_entry \<Rightarrow> connect_outcome \<Rightarrow> string option" where
  "connect_error e outcome =
     (case outcome of
        ConnectFailed err \<Rightarrow> Some err
      | Connected idle \<Rightarrow>
          if idle_mode e \<and> \<not> idle then Some ''IDLE capability missing: server does not advertise RFC 2177 IDLE'' else None)"

definition connect_settled :: "imap_entry \<Rightarrow> nat \<Rightarrow> nat \<Rightarrow> connect_outcome \<Rightarrow> imap_entry" where
  \<comment> \<open>\<open>Connected b\<close>: the server advertises \<open>IDLE\<close> or not\<close>
  "connect_settled e k c outcome =
     (case connect_error e outcome of
        Some err \<Rightarrow> set_task (e\<lparr>sx_exceptions := sx_exceptions e @ [emitConnectFailure ''connect'' err]\<rparr>) k (AwaitGiveUp c)
      | None \<Rightarrow> set_task (e\<lparr>sx_wakeups := sx_wakeups e @ [new_wakeup (idle_mode e)], sx_wakeup := Some (length (sx_wakeups e))\<rparr>)
             k (AwaitMailbox c))"

definition give_up :: "bool \<Rightarrow> imap_entry \<Rightarrow> nat \<Rightarrow> nat \<Rightarrow> imap_entry" where
  \<comment> \<open>after the report and the \<open>logout\<close> of a failed setup\<close>
  "give_up cur e k c =
     (let e1 = end_task e k
      in scheduleReconnect cur (e1\<lparr>sx_logouts := sx_logouts e1 @ [c], sx_failures := Suc (sx_failures e1)\<rparr>))"

definition mailbox_settled :: "imap_entry \<Rightarrow> nat \<Rightarrow> nat \<Rightarrow> string option \<Rightarrow> imap_entry" where
  \<comment> \<open>\<open>mailboxOpen\<close> returned, or threw an error\<close>
  "mailbox_settled e k c threw =
     (case threw of
        None \<Rightarrow> set_task (e\<lparr>sx_client := Some c\<rparr>) k (AwaitFirstDrain c)
      | Some err \<Rightarrow> set_task (e\<lparr>sx_exceptions := sx_exceptions e @ [emitConnectFailure ''mailboxOpen'' err]\<rparr>) k (AwaitMailboxReport c))"

definition mailbox_reported :: "imap_entry \<Rightarrow> nat \<Rightarrow> nat \<Rightarrow> imap_entry" where
  \<comment> \<open>\<open>srcEntry.wakeup.dispose()\<close> throws when the wake-up is gone, and \<open>runEntry\<close>'s \<open>catch\<close> ends the task\<close>
  "mailbox_reported e k c =
     (case sx_wakeup e of
        None \<Rightarrow> end_task e k
      | Some w \<Rightarrow> set_task ((wakeup_dispose e w)\<lparr>sx_wakeup := None\<rparr>) k (AwaitGiveUp c))"

definition loop_head :: "bool \<Rightarrow> imap_entry \<Rightarrow> nat \<Rightarrow> imap_entry" where
  \<comment> \<open>one turn of the \<open>while\<close> loop up to \<open>await wakeup.next()\<close>\<close>
  "loop_head cur e k =
     (if sx_disposed e \<or> \<not> cur then end_task e k
      else (case (sx_wakeup e, sx_client e) of
              (Some w, Some c) \<Rightarrow>
                set_task (wakeup_next (e\<lparr>sx_fresh := Suc (sx_fresh e)\<rparr>) w (sx_fresh e)) k (AwaitWakeup c (sx_fresh e))
            | _ \<Rightarrow> end_task e k))"

definition first_drained :: "bool \<Rightarrow> imap_entry \<Rightarrow> nat \<Rightarrow> bool \<Rightarrow> imap_entry" where
  "first_drained cur e k failed =
     (if failed then (let e1 = scheduleReconnect cur (end_task e k) in e1\<lparr>sx_failures := Suc (sx_failures e1)\<rparr>)
      else loop_head cur (e\<lparr>sx_failures := 0\<rparr>) k)"

definition woken :: "bool \<Rightarrow> imap_entry \<Rightarrow> nat \<Rightarrow> nat \<Rightarrow> imap_entry" where
  "woken cur e k c =
     (if sx_disposed e \<or> \<not> cur then end_task e k
      else if sx_client e \<noteq> Some c then end_task e k
      else set_task e k (AwaitDrain c))"

definition drained :: "bool \<Rightarrow> imap_entry \<Rightarrow> nat \<Rightarrow> bool \<Rightarrow> imap_entry" where
  "drained cur e k failed =
     (if failed then (let e1 = end_task e k in scheduleReconnect cur (e1\<lparr>sx_failures := Suc (sx_failures e1)\<rparr>))
      else loop_head cur (e\<lparr>sx_failures := 0\<rparr>) k)"

definition onConnectionLost :: "bool \<Rightarrow> imap_entry \<Rightarrow> imap_entry" where
  "onConnectionLost cur e =
     (if sx_disposed e \<or> \<not> cur then e
      else if sx_client e = None \<and> sx_wakeup e = None then e
      else scheduleReconnect cur (e\<lparr>sx_failures := Suc (sx_failures e)\<rparr>))"


section \<open>A drain handles every message once\<close>

definition readable :: "drain_env \<Rightarrow> nat \<Rightarrow> bool" where
  "readable env uid = (case read_message env uid of Inl _ \<Rightarrow> False | Inr _ \<Rightarrow> True)"

definition commands_for :: "imap_config \<Rightarrow> drain_env \<Rightarrow> nat \<times> json \<Rightarrow> (nat \<times> imap_command) list" where
  "commands_for d env x = (case x of (uid, msg) \<Rightarrow>
     map (Pair uid) (fst (applyDispositions (de_exec env uid) (dispositions_of d (de_fire env uid msg)))))"

lemma drain_loop_handles:
  "drain_loop d env uids ds = (ds', fatal) \<Longrightarrow>
   \<exists>n msgs. ds_fired ds' = ds_fired ds @ msgs \<and> map fst msgs = filter (readable env) (take n uids) \<and>
     list_all (\<lambda>(u, m). read_message env u = Inr m) msgs \<and>
     ds_failedFetchUids ds' = ds_failedFetchUids ds @ filter (\<lambda>u. \<not> readable env u) (take n uids) \<and>
     ds_commands ds' = ds_commands ds @ concat (map (commands_for d env) msgs) \<and>
     (if fatal = None \<and> list_all (\<lambda>u. \<not> de_disposed env u) uids then n = length uids else True) \<and>
     (case fatal of
        None \<Rightarrow> True
      | Some (SearchFatal _) \<Rightarrow> False
      | Some (DispositionFatal uid _) \<Rightarrow> msgs \<noteq> [] \<and> fst (last msgs) = uid)"
proof (induction d env uids ds rule: drain_loop.induct)
  case (1 d env ds)
  then show ?case by (intro exI [of _ 0] exI [of _ "[]"]) simp
next
  case (2 d env uid uids ds)
  show ?case
  proof (cases "de_disposed env uid")
    case True
    with "2.prems" show ?thesis by (intro exI [of _ 0] exI [of _ "[]"]) auto
  next
    case live: False
    show ?thesis
    proof (cases "read_message env uid")
      case (Inl err)
      then have r: "\<not> readable env uid" by (simp add: readable_def)
      from "2.IH"(1) [OF live Inl] "2.prems" live Inl obtain n msgs where
        "ds_fired ds' = ds_fired ds @ msgs \<and> map fst msgs = filter (readable env) (take n uids) \<and>
         list_all (\<lambda>(u, m). read_message env u = Inr m) msgs \<and>
         ds_failedFetchUids ds' = ds_failedFetchUids ds @ uid # filter (\<lambda>u. \<not> readable env u) (take n uids) \<and>
         ds_commands ds' = ds_commands ds @ concat (map (commands_for d env) msgs) \<and>
         (if fatal = None \<and> list_all (\<lambda>u. \<not> de_disposed env u) uids then n = length uids else True) \<and>
         (case fatal of None \<Rightarrow> True | Some (SearchFatal _) \<Rightarrow> False
          | Some (DispositionFatal uid _) \<Rightarrow> msgs \<noteq> [] \<and> fst (last msgs) = uid)" by auto
      with r live show ?thesis by (intro exI [of _ "Suc n"] exI [of _ msgs]) simp
    next
      case (Inr msg)
      then have r: "readable env uid" by (simp add: readable_def)
      obtain cmds err where app: "applyDispositions (de_exec env uid) (dispositions_of d (de_fire env uid msg)) = (cmds, err)"
        by fastforce
      then have cf: "commands_for d env (uid, msg) = map (Pair uid) cmds" by (simp add: commands_for_def)
      show ?thesis
      proof (cases err)
        case (Some e)
        with "2.prems" live Inr app r show ?thesis
          by (intro exI [of _ "Suc 0"] exI [of _ "[(uid, msg)]"]) (auto simp: Let_def cf)
      next
        case None
        let ?ds = "ds\<lparr>ds_fired := ds_fired ds @ [(uid, msg)], ds_commands := ds_commands ds @ map (Pair uid) cmds\<rparr>"
        have run: "drain_loop d env uids ?ds = (ds', fatal)" using "2.prems" live Inr app None by (simp add: Let_def)
        from "2.IH"(2) [OF live Inr refl app [symmetric] refl None] run obtain n msgs where
          "ds_fired ds' = ds_fired ds @ (uid, msg) # msgs \<and> map fst msgs = filter (readable env) (take n uids) \<and>
           list_all (\<lambda>(u, m). read_message env u = Inr m) msgs \<and>
           ds_failedFetchUids ds' = ds_failedFetchUids ds @ filter (\<lambda>u. \<not> readable env u) (take n uids) \<and>
           ds_commands ds' = ds_commands ds @ map (Pair uid) cmds @ concat (map (commands_for d env) msgs) \<and>
           (if fatal = None \<and> list_all (\<lambda>u. \<not> de_disposed env u) uids then n = length uids else True) \<and>
           (case fatal of None \<Rightarrow> True | Some (SearchFatal _) \<Rightarrow> False
            | Some (DispositionFatal uid _) \<Rightarrow> msgs \<noteq> [] \<and> fst (last msgs) = uid)" by auto
        with r live Inr app None show ?thesis
          by (intro exI [of _ "Suc n"] exI [of _ "(uid, msg) # msgs"])
            (auto simp: cf split: option.splits drain_fatal.splits)
      qed
    qed
  qed
qed

lemma uid_search_sorted: "sorted (execUidSearch vs) \<and> distinct (execUidSearch vs)"
proof -
  have "distinct (foldl (\<lambda>ids v. if uid_attr v then set_add (read_nat v) ids else ids) acc vs)" if "distinct acc" for acc
    using that by (induction vs arbitrary: acc) (auto simp: set_add_def)
  then show ?thesis by (simp add: execUidSearch_def)
qed



section \<open>An entry never gets stuck\<close>

inductive entry_step :: "bool \<Rightarrow> imap_entry \<Rightarrow> imap_entry \<Rightarrow> bool" for cur where
  es_timer: "(t, d) \<in> set (sx_timers e) \<Longrightarrow> entry_step cur e (reconnect_fired cur e t)"
| es_connect: "k < length (sx_tasks e) \<Longrightarrow> sx_tasks e ! k = AwaitConnect c \<Longrightarrow> entry_step cur e (connect_settled e k c outcome)"
| es_give_up: "k < length (sx_tasks e) \<Longrightarrow> sx_tasks e ! k = AwaitGiveUp c \<Longrightarrow> entry_step cur e (give_up cur e k c)"
| es_mailbox: "k < length (sx_tasks e) \<Longrightarrow> sx_tasks e ! k = AwaitMailbox c \<Longrightarrow> entry_step cur e (mailbox_settled e k c threw)"
| es_report: "k < length (sx_tasks e) \<Longrightarrow> sx_tasks e ! k = AwaitMailboxReport c \<Longrightarrow> entry_step cur e (mailbox_reported e k c)"
| es_first: "k < length (sx_tasks e) \<Longrightarrow> sx_tasks e ! k = AwaitFirstDrain c \<Longrightarrow> entry_step cur e (first_drained cur e k failed)"
| es_woken: "k < length (sx_tasks e) \<Longrightarrow> sx_tasks e ! k = AwaitWakeup c p \<Longrightarrow> p \<in> set (sx_resolved e) \<Longrightarrow>
    entry_step cur e (woken cur e k c)"
| es_drained: "k < length (sx_tasks e) \<Longrightarrow> sx_tasks e ! k = AwaitDrain c \<Longrightarrow> entry_step cur e (drained cur e k failed)"
| es_poll: "w < length (sx_wakeups e) \<Longrightarrow> \<not> wk_idle (sx_wakeups e ! w) \<Longrightarrow> 0 < wk_armed (sx_wakeups e ! w) \<Longrightarrow>
    entry_step cur e (poll_elapsed e w)"
| es_exists: "w < length (sx_wakeups e) \<Longrightarrow> wk_idle (sx_wakeups e ! w) \<Longrightarrow> wk_live (sx_wakeups e ! w) \<Longrightarrow>
    entry_step cur e (exists_pushed e w)"
| es_lost: "entry_step cur e (onConnectionLost cur e)"

definition wk_ok :: "wakeup \<Rightarrow> bool" where
  \<comment> \<open>a pending promise can still be resolved\<close>
  "wk_ok x = (if wk_pending x = None then True else wk_live x \<and> (wk_idle x \<or> 0 < wk_armed x))"

definition promise_pending :: "imap_entry \<Rightarrow> nat \<Rightarrow> bool" where
  "promise_pending e p = list_ex (\<lambda>x. wk_pending x = Some p) (sx_wakeups e)"

fun advances :: "imap_entry \<Rightarrow> imap_task \<Rightarrow> bool" where
  \<comment> \<open>the task will drain the mailbox again or reach \<open>scheduleReconnect\<close>\<close>
  "advances e (AwaitConnect c) = True"
| "advances e (AwaitGiveUp c) = True"
| "advances e (AwaitMailbox c) = (sx_wakeup e \<noteq> None)"
| "advances e (AwaitMailboxReport c) = (sx_wakeup e \<noteq> None)"
| "advances e (AwaitFirstDrain c) = (sx_wakeup e \<noteq> None \<and> sx_client e \<noteq> None)"
| "advances e (AwaitDrain c) = (sx_wakeup e \<noteq> None \<and> sx_client e \<noteq> None)"
| "advances e (AwaitWakeup c p) = (sx_wakeup e \<noteq> None \<and> sx_client e = Some c \<and> (p \<in> set (sx_resolved e) \<or> promise_pending e p))"

definition lively :: "imap_entry \<Rightarrow> bool" where
  "lively e = (sx_timers e \<noteq> [] \<or> list_ex (advances e) (sx_tasks e))"

definition entry_inv :: "imap_entry \<Rightarrow> bool" where
  "entry_inv e \<longleftrightarrow> list_all wk_ok (sx_wakeups e) \<and>
     (\<forall>w. sx_wakeup e = Some w \<longrightarrow> w < length (sx_wakeups e) \<and> wk_live (sx_wakeups e ! w)) \<and>
     list_all (\<lambda>(t, d). POLL_INTERVAL_MS \<le> d \<and> d \<le> MAX_BACKOFF_MS) (sx_timers e) \<and>
     (sx_disposed e \<or> lively e)"

lemma nextDelay_bounds: "POLL_INTERVAL_MS \<le> nextDelay n \<and> nextDelay n \<le> MAX_BACKOFF_MS"
  by (simp add: nextDelay_def POLL_INTERVAL_MS_def MAX_BACKOFF_MS_def)

lemma nextDelay_mono: "m \<le> n \<Longrightarrow> nextDelay m \<le> nextDelay n"
proof (cases "m = 0")
  case False
  assume "m \<le> n"
  then have "(2::nat) ^ (m - 1) \<le> 2 ^ (n - 1)" by (intro power_increasing) auto
  then have "min (POLL_INTERVAL_MS * 2 ^ (m - 1)) MAX_BACKOFF_MS \<le> min (POLL_INTERVAL_MS * 2 ^ (n - 1)) MAX_BACKOFF_MS"
    by (intro min.mono) simp_all
  with False \<open>m \<le> n\<close> show ?thesis by (simp add: nextDelay_def)
qed (simp add: nextDelay_bounds nextDelay_def [of 0])

text \<open>Frames of the wake-up operations.\<close>

lemma upd_wakeup_frame [simp]:
  "sx_owner (upd_wakeup e w f) = sx_owner e" "sx_repo (upd_wakeup e w f) = sx_repo e" "sx_entry (upd_wakeup e w f) = sx_entry e"
  "sx_client (upd_wakeup e w f) = sx_client e" "sx_wakeup (upd_wakeup e w f) = sx_wakeup e"
  "sx_disposed (upd_wakeup e w f) = sx_disposed e" "sx_tasks (upd_wakeup e w f) = sx_tasks e"
  "sx_timers (upd_wakeup e w f) = sx_timers e" "sx_resolved (upd_wakeup e w f) = sx_resolved e"
  "sx_wakeups (upd_wakeup e w f) = (sx_wakeups e)[w := f (sx_wakeups e ! w)]"
  "sx_failures (upd_wakeup e w f) = sx_failures e" "sx_fresh (upd_wakeup e w f) = sx_fresh e"
  by (simp_all add: upd_wakeup_def)

lemma resolve_frame [simp]:
  "sx_owner (resolve_pending e w) = sx_owner e" "sx_repo (resolve_pending e w) = sx_repo e"
  "sx_entry (resolve_pending e w) = sx_entry e" "sx_client (resolve_pending e w) = sx_client e"
  "sx_wakeup (resolve_pending e w) = sx_wakeup e" "sx_disposed (resolve_pending e w) = sx_disposed e"
  "sx_tasks (resolve_pending e w) = sx_tasks e" "sx_timers (resolve_pending e w) = sx_timers e"
  "sx_failures (resolve_pending e w) = sx_failures e" "sx_fresh (resolve_pending e w) = sx_fresh e"
  by (simp_all add: resolve_pending_def split: option.split)

lemma resolve_wakeups:
  "sx_wakeups (resolve_pending e w) = (sx_wakeups e)[w := (sx_wakeups e ! w)\<lparr>wk_pending := None\<rparr>]"
proof (cases "wk_pending (sx_wakeups e ! w)")
  case None
  then have same: "(sx_wakeups e ! w)\<lparr>wk_pending := None\<rparr> = sx_wakeups e ! w" by simp
  show ?thesis unfolding same by (simp add: resolve_pending_def None)
qed (simp add: resolve_pending_def)

lemma resolve_resolved:
  "set (sx_resolved (resolve_pending e w)) =
     set (sx_resolved e) \<union> (case wk_pending (sx_wakeups e ! w) of None \<Rightarrow> {} | Some p \<Rightarrow> {p})"
  by (auto simp: resolve_pending_def split: option.split)

text \<open>A wake-up operation that settles what it takes away.\<close>

definition settles :: "imap_entry \<Rightarrow> imap_entry \<Rightarrow> bool" where
  "settles e e' \<longleftrightarrow> set (sx_resolved e) \<subseteq> set (sx_resolved e') \<and>
     (\<forall>p. promise_pending e p \<longrightarrow> p \<in> set (sx_resolved e') \<or> promise_pending e' p)"

lemma settles_resolve:
  assumes "w < length (sx_wakeups e)" and "wk_pending (f (sx_wakeups e ! w)) = wk_pending (sx_wakeups e ! w)"
  shows "settles e (resolve_pending (upd_wakeup e w f) w)"
proof -
  have "p \<in> set (sx_resolved (resolve_pending (upd_wakeup e w f) w)) \<or> promise_pending (resolve_pending (upd_wakeup e w f) w) p"
    if pend: "promise_pending e p" for p
  proof -
    obtain v where v: "v < length (sx_wakeups e)" "wk_pending (sx_wakeups e ! v) = Some p"
      using pend by (auto simp: promise_pending_def list_ex_iff in_set_conv_nth)
    show ?thesis
    proof (cases "v = w")
      case True
      with v assms show ?thesis by (simp add: resolve_resolved)
    next
      case False
      then have "sx_wakeups (resolve_pending (upd_wakeup e w f) w) ! v = sx_wakeups e ! v"
        "length (sx_wakeups (resolve_pending (upd_wakeup e w f) w)) = length (sx_wakeups e)" by (simp_all add: resolve_wakeups)
      with v have "sx_wakeups e ! v \<in> set (sx_wakeups (resolve_pending (upd_wakeup e w f) w))" by (metis nth_mem)
      with v(2) show ?thesis by (auto simp: promise_pending_def list_ex_iff)
    qed
  qed
  then show ?thesis by (auto simp: settles_def resolve_resolved)
qed

lemma advances_settles:
  assumes "settles e e'" and "sx_client e' = sx_client e" and "sx_wakeup e' = sx_wakeup e"
  shows "advances e pc \<Longrightarrow> advances e' pc"
  using assms by (cases pc) (auto simp: settles_def)

lemma wk_ok_resolved: "list_all wk_ok ws \<Longrightarrow> list_all wk_ok (ws[w := x\<lparr>wk_pending := None\<rparr>])"
proof -
  assume ok: "list_all wk_ok ws"
  have "wk_ok (x\<lparr>wk_pending := None\<rparr>)" by (simp add: wk_ok_def)
  with ok set_update_subset_insert [of ws w "x\<lparr>wk_pending := None\<rparr>"] show ?thesis
    unfolding list_all_iff by blast
qed


text \<open>Each operation keeps the part of the invariant about wake-ups and timers.\<close>

definition calm_inv :: "imap_entry \<Rightarrow> bool" where
  "calm_inv e \<longleftrightarrow> list_all wk_ok (sx_wakeups e) \<and>
     (\<forall>w. sx_wakeup e = Some w \<longrightarrow> w < length (sx_wakeups e) \<and> wk_live (sx_wakeups e ! w)) \<and>
     list_all (\<lambda>(t, d). POLL_INTERVAL_MS \<le> d \<and> d \<le> MAX_BACKOFF_MS) (sx_timers e)"

lemma entry_inv_split: "entry_inv e \<longleftrightarrow> calm_inv e \<and> (sx_disposed e \<or> lively e)"
  by (auto simp: entry_inv_def calm_inv_def)

lemma calm_inv_cong:
  "sx_wakeups e' = sx_wakeups e \<Longrightarrow> sx_wakeup e' = sx_wakeup e \<Longrightarrow> sx_timers e' = sx_timers e \<Longrightarrow> calm_inv e' = calm_inv e"
  by (simp add: calm_inv_def)

lemma task_frame [simp]:
  "sx_owner (set_task e k pc) = sx_owner e" "sx_repo (set_task e k pc) = sx_repo e" "sx_entry (set_task e k pc) = sx_entry e"
  "sx_disposed (set_task e k pc) = sx_disposed e" "sx_timers (set_task e k pc) = sx_timers e"
  "sx_tasks (set_task e k pc) = (sx_tasks e)[k := pc]" "sx_client (set_task e k pc) = sx_client e"
  "sx_wakeup (set_task e k pc) = sx_wakeup e" "sx_wakeups (set_task e k pc) = sx_wakeups e" "sx_resolved (set_task e k pc) = sx_resolved e"
  "sx_owner (end_task e k) = sx_owner e" "sx_repo (end_task e k) = sx_repo e" "sx_entry (end_task e k) = sx_entry e"
  "sx_disposed (end_task e k) = sx_disposed e" "sx_timers (end_task e k) = sx_timers e"
  "sx_tasks (end_task e k) = splice1 k (sx_tasks e)" "sx_client (end_task e k) = sx_client e"
  "sx_wakeup (end_task e k) = sx_wakeup e" "sx_wakeups (end_task e k) = sx_wakeups e" "sx_resolved (end_task e k) = sx_resolved e"
  "sx_failures (end_task e k) = sx_failures e"
  by (simp_all add: set_task_def end_task_def)

lemma calm_inv_task [simp]: "calm_inv (set_task e k pc) = calm_inv e" "calm_inv (end_task e k) = calm_inv e"
  by (simp_all add: calm_inv_def)

lemma wk_ok_dispose: "list_all wk_ok (sx_wakeups e) \<Longrightarrow> list_all wk_ok (sx_wakeups (wakeup_dispose e w))"
  by (simp only: wakeup_dispose_def resolve_wakeups upd_wakeup_frame list_update_overwrite wk_ok_resolved)

lemma calm_dispose: "calm_inv e \<Longrightarrow> sx_wakeup e = None \<Longrightarrow> calm_inv (wakeup_dispose e w)"
  by (simp add: calm_inv_def wakeup_dispose_def resolve_wakeups wk_ok_resolved list_update_overwrite)

lemma dispose_frame [simp]:
  "sx_owner (wakeup_dispose e w) = sx_owner e" "sx_repo (wakeup_dispose e w) = sx_repo e" "sx_entry (wakeup_dispose e w) = sx_entry e"
  "sx_client (wakeup_dispose e w) = sx_client e" "sx_wakeup (wakeup_dispose e w) = sx_wakeup e"
  "sx_disposed (wakeup_dispose e w) = sx_disposed e" "sx_tasks (wakeup_dispose e w) = sx_tasks e"
  "sx_timers (wakeup_dispose e w) = sx_timers e" "sx_failures (wakeup_dispose e w) = sx_failures e"
  by (simp_all add: wakeup_dispose_def)

lemma calm_teardown: "calm_inv e \<Longrightarrow> calm_inv (teardownConnection e)"
proof -
  assume inv: "calm_inv e"
  then have "calm_inv (e\<lparr>sx_wakeup := None\<rparr>)" by (simp add: calm_inv_def)
  then have "calm_inv (wakeup_dispose (e\<lparr>sx_wakeup := None\<rparr>) w)" for w by (rule calm_dispose) simp
  with inv have "calm_inv (case sx_wakeup e of None \<Rightarrow> e | Some w \<Rightarrow> wakeup_dispose (e\<lparr>sx_wakeup := None\<rparr>) w)"
    by (simp split: option.split)
  then show ?thesis
    unfolding teardownConnection_def Let_def by (simp add: calm_inv_def split: option.split)
qed

lemma teardown_frame [simp]:
  "sx_owner (teardownConnection e) = sx_owner e" "sx_repo (teardownConnection e) = sx_repo e"
  "sx_entry (teardownConnection e) = sx_entry e" "sx_disposed (teardownConnection e) = sx_disposed e"
  "sx_timers (teardownConnection e) = sx_timers e" "sx_failures (teardownConnection e) = sx_failures e"
  by (simp_all add: teardownConnection_def Let_def split: option.split)

lemma schedule_frame [simp]:
  "sx_owner (scheduleReconnect cur e) = sx_owner e" "sx_repo (scheduleReconnect cur e) = sx_repo e"
  "sx_entry (scheduleReconnect cur e) = sx_entry e" "sx_disposed (scheduleReconnect cur e) = sx_disposed e"
  by (simp_all add: scheduleReconnect_def Let_def)

lemma calm_schedule: "calm_inv e \<Longrightarrow> calm_inv (scheduleReconnect cur e)"
  using calm_teardown [of e] nextDelay_bounds
  by (simp add: scheduleReconnect_def Let_def calm_inv_def split: option.splits)

lemma schedule_lively: "\<not> sx_disposed e \<Longrightarrow> cur \<Longrightarrow> lively (scheduleReconnect cur e)"
  by (simp add: scheduleReconnect_def Let_def lively_def)

lemma run_frame [simp]:
  "sx_owner (runEntry cur e) = sx_owner e" "sx_repo (runEntry cur e) = sx_repo e"
  "sx_entry (runEntry cur e) = sx_entry e" "sx_disposed (runEntry cur e) = sx_disposed e"
  by (simp_all add: runEntry_def)

lemma calm_run [simp]: "calm_inv (runEntry cur e) = calm_inv e"
  by (simp add: runEntry_def calm_inv_def)

lemma run_lively: "\<not> sx_disposed e \<Longrightarrow> cur \<Longrightarrow> lively (runEntry cur e)"
  by (simp add: runEntry_def lively_def)

text \<open>When a task that does not advance the entry changes or ends, what keeps the entry alive remains.\<close>

lemma splice1_keeps: "x \<in> set xs \<Longrightarrow> x \<noteq> xs ! k \<Longrightarrow> x \<in> set (splice1 k xs)"
proof -
  assume x: "x \<in> set xs" "x \<noteq> xs ! k"
  show ?thesis
  proof (cases "k < length xs")
    case True
    then have "xs = take k xs @ xs ! k # drop (Suc k) xs" by (rule id_take_nth_drop)
    with x show ?thesis unfolding splice1_def by (metis Un_iff set_ConsD set_append)
  qed (use x in \<open>simp add: splice1_def\<close>)
qed

lemma update_keeps: "x \<in> set xs \<Longrightarrow> x \<noteq> xs ! k \<Longrightarrow> x \<in> set (xs[k := y])"
  by (metis in_set_conv_nth length_list_update nth_list_update_neq)

lemma lively_keeps:
  assumes "lively e" and "\<not> advances e (sx_tasks e ! k)"
    and "\<And>pc. advances e pc \<Longrightarrow> pc \<in> set (sx_tasks e) \<Longrightarrow> pc \<noteq> sx_tasks e ! k \<Longrightarrow> advances e' pc \<and> pc \<in> set (sx_tasks e')"
    and "sx_timers e' = sx_timers e"
  shows "lively e'"
  using assms unfolding lively_def list_ex_iff by metis


lemma calm_inv_update [simp]:
  "calm_inv (e\<lparr>sx_failures := n\<rparr>) = calm_inv e" "calm_inv (e\<lparr>sx_logouts := l\<rparr>) = calm_inv e"
  "calm_inv (e\<lparr>sx_exceptions := x\<rparr>) = calm_inv e" "calm_inv (e\<lparr>sx_client := c\<rparr>) = calm_inv e"
  "calm_inv (e\<lparr>sx_fresh := f\<rparr>) = calm_inv e" "calm_inv (e\<lparr>sx_resolved := r\<rparr>) = calm_inv e"
  by (simp_all add: calm_inv_def)

lemma lively_keeps_tasks:
  assumes "lively e" and "\<not> advances e (sx_tasks e ! k)"
    and "\<And>pc. advances e pc \<Longrightarrow> pc \<noteq> sx_tasks e ! k \<Longrightarrow> advances e' pc"
    and "sx_tasks e' = splice1 k (sx_tasks e) \<or> (\<exists>x. sx_tasks e' = (sx_tasks e)[k := x])" and "sx_timers e' = sx_timers e"
  shows "lively e'"
  by (rule lively_keeps [OF assms(1,2)]) (use assms(3-5) splice1_keeps update_keeps in \<open>metis\<close>)+

lemma lively_task: "k < length (sx_tasks e) \<Longrightarrow> advances e (sx_tasks e ! k) \<Longrightarrow> lively e"
  by (auto simp: lively_def list_ex_iff)

lemma inv_reconnect:
  assumes "entry_inv e" and "\<not> sx_disposed e \<Longrightarrow> cur"
  shows "entry_inv (reconnect_fired cur e t)"
proof -
  have "calm_inv (e\<lparr>sx_timers := filter (\<lambda>x. fst x \<noteq> t) (sx_timers e), sx_reconnectTimer := None\<rparr>)"
    using assms(1) by (auto simp: entry_inv_split calm_inv_def list_all_iff)
  with assms(2) show ?thesis by (auto simp: entry_inv_split reconnect_fired_def intro!: run_lively)
qed

lemma inv_schedule:
  assumes "calm_inv e" and "\<not> sx_disposed e \<Longrightarrow> cur"
  shows "entry_inv (scheduleReconnect cur e)"
  using assms calm_schedule [OF assms(1)] schedule_lively [of e cur] by (cases "sx_disposed e") (simp_all add: entry_inv_split)

lemma inv_connect:
  assumes "entry_inv e" and "k < length (sx_tasks e)" and "sx_tasks e ! k = AwaitConnect c"
  shows "entry_inv (connect_settled e k c outcome)"
proof (cases "connect_error e outcome")
  case (Some err)
  with assms show ?thesis by (auto simp: connect_settled_def entry_inv_split intro!: lively_task [where k = k])
next
  case None
  let ?e = "e\<lparr>sx_wakeups := sx_wakeups e @ [new_wakeup (idle_mode e)], sx_wakeup := Some (length (sx_wakeups e))\<rparr>"
  have "calm_inv ?e" using assms(1) by (simp add: entry_inv_split calm_inv_def new_wakeup_def wk_ok_def)
  then have "calm_inv (set_task ?e k (AwaitMailbox c))" unfolding calm_inv_task .
  moreover have "lively (set_task ?e k (AwaitMailbox c))" using assms(2) by (intro lively_task [where k = k]) simp_all
  moreover have "connect_settled e k c outcome = set_task ?e k (AwaitMailbox c)"
    by (simp add: connect_settled_def None)
  ultimately show ?thesis by (simp add: entry_inv_split)
qed

lemma inv_mailbox:
  assumes "entry_inv e" and "k < length (sx_tasks e)" and "sx_tasks e ! k = AwaitMailbox c"
  shows "entry_inv (mailbox_settled e k c threw)"
proof -
  let ?e = "mailbox_settled e k c threw"
  have calm: "calm_inv ?e" using assms(1) by (simp add: mailbox_settled_def entry_inv_split split: option.split)
  have frame: "sx_timers ?e = sx_timers e" "sx_wakeup ?e = sx_wakeup e" "sx_disposed ?e = sx_disposed e"
    "\<exists>x. sx_tasks ?e = (sx_tasks e)[k := x]"
    by (auto simp: mailbox_settled_def split: option.split)
  have "lively ?e" if live: "lively e"
  proof (cases "sx_wakeup e")
    case None
    then have "advances ?e pc" if "advances e pc" for pc using that frame(2) by (cases pc) auto
    with None assms(3) frame show ?thesis by (intro lively_keeps_tasks [OF live, where k = k]) auto
  next
    case (Some w)
    with assms(2) show ?thesis by (intro lively_task [where k = k]) (auto simp: mailbox_settled_def split: option.split)
  qed
  with calm frame assms(1) show ?thesis by (auto simp: entry_inv_split)
qed

lemma inv_report:
  assumes "entry_inv e" and "k < length (sx_tasks e)" and "sx_tasks e ! k = AwaitMailboxReport c"
  shows "entry_inv (mailbox_reported e k c)"
proof (cases "sx_wakeup e")
  case None
  have "lively (end_task e k)" if live: "lively e"
  proof -
    have "advances (end_task e k) pc" if "advances e pc" for pc
      using that None by (cases pc) auto
    with None assms(3) show ?thesis by (intro lively_keeps_tasks [OF live, where k = k]) auto
  qed
  with None assms(1) show ?thesis by (auto simp: mailbox_reported_def entry_inv_split)
next
  case (Some w)
  have "calm_inv ((wakeup_dispose e w)\<lparr>sx_wakeup := None\<rparr>)"
    using assms(1) wk_ok_dispose [of e w] by (simp add: entry_inv_split calm_inv_def)
  moreover have "lively (set_task ((wakeup_dispose e w)\<lparr>sx_wakeup := None\<rparr>) k (AwaitGiveUp c))"
    using assms(2) by (intro lively_task [where k = k]) simp_all
  ultimately show ?thesis using Some by (simp add: mailbox_reported_def entry_inv_split)
qed

lemma next_frame [simp]:
  "sx_owner (wakeup_next e w p) = sx_owner e" "sx_repo (wakeup_next e w p) = sx_repo e" "sx_entry (wakeup_next e w p) = sx_entry e"
  "sx_client (wakeup_next e w p) = sx_client e" "sx_wakeup (wakeup_next e w p) = sx_wakeup e"
  "sx_disposed (wakeup_next e w p) = sx_disposed e" "sx_tasks (wakeup_next e w p) = sx_tasks e"
  "sx_timers (wakeup_next e w p) = sx_timers e"
  by (simp_all add: wakeup_next_def Let_def)

lemma calm_next:
  assumes "calm_inv e" and "sx_wakeup e = Some w"
  shows "calm_inv (wakeup_next e w p)" and "p \<in> set (sx_resolved (wakeup_next e w p)) \<or> promise_pending (wakeup_next e w p) p"
proof -
  let ?e = "wakeup_next e w p"
  have w: "w < length (sx_wakeups e)" "wk_live (sx_wakeups e ! w)" using assms by (auto simp: calm_inv_def)
  have "\<exists>x. sx_wakeups ?e = (sx_wakeups e)[w := x] \<and> wk_ok x \<and> wk_live x \<and> (p \<in> set (sx_resolved ?e) \<or> wk_pending x = Some p)"
    using w(2) unfolding wakeup_next_def Let_def wk_ok_def
    by (cases "wk_idle (sx_wakeups e ! w)"; cases "wk_dirty (sx_wakeups e ! w)") (auto intro!: exI)
  then obtain x where x: "sx_wakeups ?e = (sx_wakeups e)[w := x]" "wk_ok x" "wk_live x"
    "p \<in> set (sx_resolved ?e) \<or> wk_pending x = Some p" by blast
  from x(1,2) assms(1) have "list_all wk_ok (sx_wakeups ?e)"
    using set_update_subset_insert [of "sx_wakeups e" w x] by (auto simp: calm_inv_def list_all_iff)
  with assms x w show "calm_inv ?e" by (simp add: calm_inv_def)
  from x(4) show "p \<in> set (sx_resolved ?e) \<or> promise_pending ?e p"
    using w(1) set_update_memI [of w "sx_wakeups e" x] by (auto simp: promise_pending_def list_ex_iff x(1))
qed

lemma inv_loop_head:
  assumes "entry_inv e" and "\<not> sx_disposed e \<Longrightarrow> cur" and k: "k < length (sx_tasks e)"
    and "sx_tasks e ! k = AwaitFirstDrain c \<or> sx_tasks e ! k = AwaitDrain c"
  shows "entry_inv (loop_head cur e k)"
proof (cases "sx_disposed e")
  case True
  with assms(1) show ?thesis by (simp add: loop_head_def entry_inv_split)
next
  case False
  then have cur: "cur" and live: "lively e" and calm: "calm_inv e" using assms(1,2) by (auto simp: entry_inv_split)
  show ?thesis
  proof (cases "\<exists>w d. sx_wakeup e = Some w \<and> sx_client e = Some d")
    case True
    then obtain w d where wd: "sx_wakeup e = Some w" "sx_client e = Some d" by blast
    let ?e = "e\<lparr>sx_fresh := Suc (sx_fresh e)\<rparr>"
    have next_ok: "calm_inv (wakeup_next ?e w (sx_fresh e))"
      "sx_fresh e \<in> set (sx_resolved (wakeup_next ?e w (sx_fresh e))) \<or> promise_pending (wakeup_next ?e w (sx_fresh e)) (sx_fresh e)"
      using calm_next [of ?e w "sx_fresh e"] calm wd(1) by auto
    have "lively (set_task (wakeup_next ?e w (sx_fresh e)) k (AwaitWakeup d (sx_fresh e)))"
      using next_ok(2) wd k by (intro lively_task [where k = k]) (auto simp: promise_pending_def)
    with next_ok(1) False cur wd show ?thesis by (simp add: loop_head_def entry_inv_split)
  next
    case no: False
    then have ends: "loop_head cur e k = end_task e k"
      using False cur by (auto simp: loop_head_def split: option.splits)
    have "advances (end_task e k) pc" if "advances e pc" for pc
      using that by (cases pc) (auto simp: promise_pending_def)
    with no assms(4) have "lively (end_task e k)" by (intro lively_keeps_tasks [OF live, where k = k]) auto
    with ends calm show ?thesis by (simp add: entry_inv_split)
  qed
qed


lemma inv_woken:
  assumes "entry_inv e" and "\<not> sx_disposed e \<Longrightarrow> cur" and k: "k < length (sx_tasks e)" and "sx_tasks e ! k = AwaitWakeup c p"
  shows "entry_inv (woken cur e k c)"
proof (cases "sx_disposed e")
  case True
  with assms(1) show ?thesis by (simp add: woken_def entry_inv_split)
next
  case False
  then have cur: "cur" and live: "lively e" and calm: "calm_inv e" using assms(1,2) by (auto simp: entry_inv_split)
  show ?thesis
  proof (cases "sx_client e = Some c \<and> sx_wakeup e \<noteq> None")
    case True
    then have "lively (set_task e k (AwaitDrain c))" using k by (intro lively_task [where k = k]) auto
    with True False cur calm show ?thesis by (auto simp: woken_def entry_inv_split)
  next
    case no: False
    have "advances (end_task e k) pc \<and> advances (set_task e k x) pc" if "advances e pc" for pc x
      using that by (cases pc) (auto simp: promise_pending_def)
    with no assms(4) have "lively (end_task e k)" "lively (set_task e k x)" for x
      by (auto intro!: lively_keeps_tasks [OF live, where k = k])
    with False cur calm show ?thesis by (simp add: woken_def entry_inv_split)
  qed
qed

lemma inv_resolve:
  assumes "entry_inv e" and "w < length (sx_wakeups e)"
    and "wk_pending (f (sx_wakeups e ! w)) = wk_pending (sx_wakeups e ! w)" and "wk_live (f (sx_wakeups e ! w)) = wk_live (sx_wakeups e ! w)"
  shows "entry_inv (resolve_pending (upd_wakeup e w f) w)"
proof -
  let ?e = "resolve_pending (upd_wakeup e w f) w"
  have "list_all wk_ok (sx_wakeups ?e)"
    using assms(1) by (simp add: entry_inv_split calm_inv_def resolve_wakeups wk_ok_resolved list_update_overwrite)
  moreover have "wk_live (sx_wakeups ?e ! v) = wk_live (sx_wakeups e ! v)" for v
    using assms(2,4) by (cases "v = w") (simp_all add: resolve_wakeups)
  ultimately have "calm_inv ?e" using assms(1) by (simp add: entry_inv_split calm_inv_def resolve_wakeups)
  moreover have "advances ?e pc" if "advances e pc" for pc
    using advances_settles [OF settles_resolve [OF assms(2), of f, OF assms(3)] _ _ that] by simp
  then have "lively e \<Longrightarrow> lively ?e" by (auto simp: lively_def list_ex_iff)
  ultimately show ?thesis using assms(1) by (auto simp: entry_inv_split)
qed

lemma first_drain_failures: "entry_inv (e\<lparr>sx_failures := n\<rparr>) = entry_inv e"
proof -
  have "advances (e\<lparr>sx_failures := n\<rparr>) pc = advances e pc" for pc by (cases pc) (simp_all add: promise_pending_def)
  then show ?thesis by (simp add: entry_inv_split lively_def list_ex_iff)
qed

lemma entry_step_inv:
  assumes "entry_step cur e e'" and "entry_inv e" and "\<not> sx_disposed e \<Longrightarrow> cur"
  shows "entry_inv e'"
  using assms(1)
proof cases
  case (es_timer t d)
  with assms(2,3) show ?thesis by (simp add: inv_reconnect)
next
  case (es_connect k c outcome)
  with assms(2) show ?thesis by (simp add: inv_connect)
next
  case (es_give_up k c)
  with assms(2,3) show ?thesis by (auto simp: give_up_def Let_def entry_inv_split [of e] intro!: inv_schedule)
next
  case (es_mailbox k c threw)
  with assms(2) show ?thesis by (simp add: inv_mailbox)
next
  case (es_report k c)
  with assms(2) show ?thesis by (simp add: inv_report)
next
  case (es_first k c failed)
  have "entry_inv (loop_head cur (e\<lparr>sx_failures := 0\<rparr>) k)"
    using es_first assms(2,3) by (intro inv_loop_head [where c = c]) (simp_all add: first_drain_failures)
  with es_first assms(2,3) show ?thesis
    by (auto simp: first_drained_def Let_def first_drain_failures entry_inv_split [of e] intro!: inv_schedule)
next
  case (es_woken k c p)
  with assms(2,3) show ?thesis by (simp add: inv_woken)
next
  case (es_drained k c failed)
  have "entry_inv (loop_head cur (e\<lparr>sx_failures := 0\<rparr>) k)"
    using es_drained assms(2,3) by (intro inv_loop_head [where c = c]) (simp_all add: first_drain_failures)
  with es_drained assms(2,3) show ?thesis
    by (auto simp: drained_def Let_def entry_inv_split [of e] intro!: inv_schedule)
next
  case (es_poll w)
  with assms(2) show ?thesis by (simp add: poll_elapsed_def inv_resolve)
next
  case (es_exists w)
  with assms(2) show ?thesis by (simp add: exists_pushed_def inv_resolve)
next
  case es_lost
  with assms(2,3) show ?thesis
    by (auto simp: onConnectionLost_def entry_inv_split [of e] intro!: inv_schedule)
qed

lemma entry_step_frame:
  assumes "entry_step cur e e'"
  shows "sx_owner e' = sx_owner e \<and> sx_repo e' = sx_repo e \<and> sx_entry e' = sx_entry e \<and> sx_disposed e' = sx_disposed e"
  using assms
  by cases (auto simp: reconnect_fired_def connect_settled_def give_up_def mailbox_settled_def mailbox_reported_def
      first_drained_def loop_head_def woken_def drained_def poll_elapsed_def exists_pushed_def onConnectionLost_def Let_def
      split: option.split)

section \<open>The source\<close>

record imap_source =
  imap_pairs :: "(string, (string, nat) jsmap) jsmap"
  imap_srcs :: "imap_entry list"

definition createImapTriggerSource :: imap_source where
  "createImapTriggerSource = \<lparr>imap_pairs = [], imap_srcs = []\<rparr>"

abbreviation pair_of :: "imap_entry \<Rightarrow> string" where "pair_of e \<equiv> pairKey (sx_owner e) (sx_repo e)"

definition imap_isCurrent :: "imap_source \<Rightarrow> nat \<Rightarrow> bool" where
  "imap_isCurrent st i =
     (case map_get (imap_pairs st) (pair_of (imap_srcs st ! i)) of
        None \<Rightarrow> False
      | Some pm \<Rightarrow> map_get pm (entry_key (sx_entry (imap_srcs st ! i))) = Some i)"

definition dispose_at :: "imap_source \<Rightarrow> nat \<Rightarrow> imap_source" where
  "dispose_at st i = st\<lparr>imap_srcs := (imap_srcs st)[i := imap_disposeEntry (imap_srcs st ! i)]\<rparr>"

definition imap_cancelPair :: "imap_source \<Rightarrow> string \<Rightarrow> string \<Rightarrow> imap_source" where
  "imap_cancelPair st owner repo =
     (case map_get (imap_pairs st) (pairKey owner repo) of None \<Rightarrow> st | Some pm \<Rightarrow> foldl dispose_at st (vals pm))"

definition imap_cancelAll :: "imap_source \<Rightarrow> imap_source" where
  "imap_cancelAll st = foldl dispose_at st (concat (map vals (vals (imap_pairs st))))"

definition new_entry :: "string \<Rightarrow> string \<Rightarrow> trigger_entry \<Rightarrow> imap_entry" where
  "new_entry owner repo e =
     \<lparr>sx_owner = owner, sx_repo = repo, sx_entry = e, sx_client = None, sx_wakeup = None, sx_reconnectTimer = None,
      sx_failures = 0, sx_disposed = False, sx_tasks = [], sx_wakeups = [], sx_timers = [], sx_resolved = [],
      sx_fresh = 0, sx_logouts = [], sx_exceptions = []\<rparr>"

definition imap_add :: "string \<Rightarrow> string \<Rightarrow> imap_source \<Rightarrow> trigger_entry \<Rightarrow> imap_source" where
  "imap_add owner repo st e =
     (let key = pairKey owner repo;
          i = length (imap_srcs st);
          pm = (case map_get (imap_pairs st) key of Some m \<Rightarrow> m | None \<Rightarrow> []);
          st1 = st\<lparr>imap_srcs := imap_srcs st @ [new_entry owner repo e],
                   imap_pairs := map_set key (map_set (entry_key e) i pm) (imap_pairs st)\<rparr>
      in st1\<lparr>imap_srcs := (imap_srcs st1)[i := runEntry (imap_isCurrent st1 i) (imap_srcs st1 ! i)]\<rparr>)"

definition imap_reconfigure :: "unit \<Rightarrow> imap_source \<Rightarrow> string \<Rightarrow> string \<Rightarrow> trigger_entry list \<Rightarrow> imap_source" where
  "imap_reconfigure _ st owner repo entries =
     (let key = pairKey owner repo;
          st1 = imap_cancelPair st owner repo;
          st2 = st1\<lparr>imap_pairs := map_delete key (imap_pairs st1)\<rparr>
      in if entries = [] then st2
         else foldl (imap_add owner repo) (st2\<lparr>imap_pairs := map_set key [] (imap_pairs st2)\<rparr>) entries)"

definition imap_getEntry :: "imap_source \<Rightarrow> string \<Rightarrow> string \<Rightarrow> string \<Rightarrow> string \<Rightarrow> trigger_entry option" where
  "imap_getEntry st owner repo workflowName triggerName =
     map_option (\<lambda>i. sx_entry (imap_srcs st ! i))
       (Option.bind (map_get (imap_pairs st) (pairKey owner repo))
          (\<lambda>pm. map_get pm (triggerKey workflowName triggerName)))"

definition imap_stop :: "imap_source \<Rightarrow> imap_source" where
  "imap_stop st = (imap_cancelAll st)\<lparr>imap_pairs := []\<rparr>"

section \<open>The source keeps its contract\<close>

definition imap_index :: "imap_source \<Rightarrow> source_index" where
  "imap_index st = (imap_pairs st, map sx_entry (imap_srcs st))"

lemma dispose_entry_frame [simp]:
  "sx_owner (imap_disposeEntry e) = sx_owner e" "sx_repo (imap_disposeEntry e) = sx_repo e" "sx_entry (imap_disposeEntry e) = sx_entry e"
  "sx_disposed (imap_disposeEntry e)"
  by (simp_all add: imap_disposeEntry_def Let_def split: option.split)

lemma dispose_at_frame [simp]:
  "imap_pairs (dispose_at st i) = imap_pairs st" "length (imap_srcs (dispose_at st i)) = length (imap_srcs st)"
  "sx_owner (imap_srcs (dispose_at st i) ! j) = sx_owner (imap_srcs st ! j)"
  "sx_repo (imap_srcs (dispose_at st i) ! j) = sx_repo (imap_srcs st ! j)"
  "sx_entry (imap_srcs (dispose_at st i) ! j) = sx_entry (imap_srcs st ! j)"
  by (cases "i < length (imap_srcs st)"; cases "j = i"; simp add: dispose_at_def list_update_beyond)+

lemma dispose_all_frame [simp]:
  "imap_pairs (foldl dispose_at st is) = imap_pairs st" "length (imap_srcs (foldl dispose_at st is)) = length (imap_srcs st)"
  "sx_owner (imap_srcs (foldl dispose_at st is) ! j) = sx_owner (imap_srcs st ! j)"
  "sx_repo (imap_srcs (foldl dispose_at st is) ! j) = sx_repo (imap_srcs st ! j)"
  "sx_entry (imap_srcs (foldl dispose_at st is) ! j) = sx_entry (imap_srcs st ! j)"
  by (induction "is" arbitrary: st) simp_all

lemma dispose_all_other: "j \<notin> set is \<Longrightarrow> imap_srcs (foldl dispose_at st is) ! j = imap_srcs st ! j"
  by (induction "is" arbitrary: st) (auto simp: dispose_at_def)

lemma dispose_all_disposed:
  "j < length (imap_srcs st) \<Longrightarrow> j \<in> set is \<or> sx_disposed (imap_srcs st ! j) \<Longrightarrow> sx_disposed (imap_srcs (foldl dispose_at st is) ! j)"
proof (induction "is" arbitrary: st)
  case (Cons i "is")
  then show ?case by (cases "i = j") (auto simp: dispose_at_def)
qed simp

lemma inv_dispose: "entry_inv e \<Longrightarrow> entry_inv (imap_disposeEntry e)"
proof -
  assume "entry_inv e"
  then have "calm_inv (e\<lparr>sx_disposed := True\<rparr>)"
    "calm_inv (e\<lparr>sx_disposed := True, sx_timers := filter (\<lambda>x. fst x \<noteq> t) (sx_timers e), sx_reconnectTimer := None\<rparr>)" for t
    by (auto simp: entry_inv_split calm_inv_def list_all_iff)
  then have "calm_inv (imap_disposeEntry e)"
    unfolding imap_disposeEntry_def Let_def by (auto intro!: calm_teardown split: option.split)
  then show ?thesis by (simp add: entry_inv_split)
qed

lemma dispose_all_inv:
  "\<forall>i < length (imap_srcs st). entry_inv (imap_srcs st ! i) \<Longrightarrow> j < length (imap_srcs st) \<Longrightarrow>
     entry_inv (imap_srcs (foldl dispose_at st is) ! j)"
proof (induction "is" arbitrary: st)
  case (Cons i "is")
  have "entry_inv (imap_srcs (dispose_at st i) ! j)" if "j < length (imap_srcs st)" for j
    using Cons.prems(1) that by (cases "j = i") (simp_all add: dispose_at_def inv_dispose)
  with Cons show ?case by simp
qed simp

lemma imap_add_frame:
  "imap_pairs (imap_add owner repo st e) =
     map_set (pairKey owner repo) (map_set (entry_key e) (length (imap_srcs st))
       (case map_get (imap_pairs st) (pairKey owner repo) of Some m \<Rightarrow> m | None \<Rightarrow> [])) (imap_pairs st)"
  "imap_srcs (imap_add owner repo st e) = imap_srcs st @ [runEntry True (new_entry owner repo e)]"
  by (simp_all add: imap_add_def Let_def imap_isCurrent_def new_entry_def nth_append)

lemma new_entry_simps [simp]:
  "sx_owner (new_entry owner repo e) = owner" "sx_repo (new_entry owner repo e) = repo" "sx_entry (new_entry owner repo e) = e"
  "\<not> sx_disposed (new_entry owner repo e)"
  by (simp_all add: new_entry_def)

lemma new_entry_inv: "entry_inv (runEntry True (new_entry owner repo e))"
proof -
  have "calm_inv (new_entry owner repo e)" by (simp add: calm_inv_def new_entry_def)
  then show ?thesis by (simp add: entry_inv_split run_lively)
qed

interpretation imap: indexed_source createImapTriggerSource imap_reconfigure imap_getEntry imap_index
proof unfold_locales
  fix o1 r w t :: string and es a s
  show "imap_index createImapTriggerSource = ([], [])" by (simp add: imap_index_def createImapTriggerSource_def)
  have add: "imap_index (imap_add o1 r st e) = ix_add o1 r (imap_index st) e" for st e
    by (simp add: imap_index_def ix_add_def imap_add_frame)
  have adds: "imap_index (foldl (imap_add o1 r) st es) = foldl (ix_add o1 r) (imap_index st) es" for st
    by (induction es arbitrary: st) (simp_all add: add)
  have cancel: "imap_index (imap_cancelPair s o1 r) = imap_index s"
    by (auto simp: imap_index_def imap_cancelPair_def split: option.split intro!: nth_equalityI)
  have set_pairs: "imap_index (st\<lparr>imap_pairs := ps\<rparr>) = (ps, snd (imap_index st))" for st ps by (simp add: imap_index_def)
  have pairs: "imap_pairs st = fst (imap_index st)" for st by (simp add: imap_index_def)
  show "imap_index (imap_reconfigure a s o1 r es) = ix_reconfigure (imap_index s) o1 r es"
    by (simp add: imap_reconfigure_def ix_reconfigure_def Let_def adds set_pairs cancel pairs)
  show "imap_getEntry s o1 r w t = ix_get (imap_index s) o1 r w t" if "ix_ok (imap_index s)"
    unfolding imap_getEntry_def pairs by (rule ix_get_entries [OF that]) (simp add: imap_index_def)
qed


section \<open>Every entry in the table stays alive\<close>

inductive imap_step :: "imap_source \<Rightarrow> imap_source \<Rightarrow> bool" where
  im_configured: "distinct (map (\<lambda>e. entry_key e) es) \<Longrightarrow> imap_step st (imap_reconfigure () st owner repo es)"
| im_stopped: "imap_step st (imap_stop st)"
| im_entry: "i < length (imap_srcs st) \<Longrightarrow> entry_step (imap_isCurrent st i) (imap_srcs st ! i) e' \<Longrightarrow>
    imap_step st (st\<lparr>imap_srcs := (imap_srcs st)[i := e']\<rparr>)"

definition table_inv :: "imap_source \<Rightarrow> bool" where
  "table_inv st \<longleftrightarrow> (\<forall>pk pm. map_get (imap_pairs st) pk = Some pm \<longrightarrow> distinct (keys pm) \<and>
     (\<forall>ek i. map_get pm ek = Some i \<longrightarrow> i < length (imap_srcs st) \<and> \<not> sx_disposed (imap_srcs st ! i) \<and>
        pair_of (imap_srcs st ! i) = pk \<and> entry_key (sx_entry (imap_srcs st ! i)) = ek))"

definition imap_inv :: "imap_source \<Rightarrow> bool" where
  "imap_inv st \<longleftrightarrow> distinct (keys (imap_pairs st)) \<and> table_inv st \<and>
     (\<forall>i < length (imap_srcs st). entry_inv (imap_srcs st ! i) \<and> (sx_disposed (imap_srcs st ! i) \<or> imap_isCurrent st i))"

lemma isCurrent_iff:
  "imap_isCurrent st i \<longleftrightarrow> (\<exists>pm. map_get (imap_pairs st) (pair_of (imap_srcs st ! i)) = Some pm \<and>
     map_get pm (entry_key (sx_entry (imap_srcs st ! i))) = Some i)"
  by (auto simp: imap_isCurrent_def split: option.split)

lemma inv_cancel:
  assumes "imap_inv st"
  shows "imap_inv ((imap_cancelPair st owner repo)\<lparr>imap_pairs := map_delete (pairKey owner repo) (imap_pairs st)\<rparr>)"
    (is "imap_inv ?st'")
proof -
  let ?key = "pairKey owner repo"
  let ?is = "case map_get (imap_pairs st) ?key of None \<Rightarrow> [] | Some pm \<Rightarrow> vals pm"
  have st': "imap_srcs ?st' = imap_srcs (foldl dispose_at st ?is)" "imap_pairs ?st' = map_delete ?key (imap_pairs st)"
    by (simp_all add: imap_cancelPair_def split: option.split)
  have here: "i \<in> set ?is" if "pair_of (imap_srcs st ! i) = ?key" "imap_isCurrent st i" for i
    using that by (auto simp: isCurrent_iff dest: map_of_SomeD) (metis image_eqI map_of_SomeD snd_conv)
  have away: "pair_of (imap_srcs st ! i) = ?key" if i: "i \<in> set ?is" for i
  proof -
    obtain pm ek where pm: "map_get (imap_pairs st) ?key = Some pm" "(ek, i) \<in> set pm" using i by (cases "map_get (imap_pairs st) ?key") auto
    with assms have "map_get pm ek = Some i" by (auto simp: imap_inv_def table_inv_def intro: map_of_is_SomeI)
    with pm(1) assms show ?thesis by (auto simp: imap_inv_def table_inv_def)
  qed
  have same: "imap_srcs ?st' ! i = imap_srcs st ! i" if "pair_of (imap_srcs st ! i) \<noteq> ?key" for i
    using that away [of i] dispose_all_other [of i ?is st] st'(1) by auto
  have "table_inv ?st'"
    using assms same unfolding table_inv_def st' imap_inv_def by (auto split: if_splits)
  moreover have "entry_inv (imap_srcs ?st' ! i) \<and> (sx_disposed (imap_srcs ?st' ! i) \<or> imap_isCurrent ?st' i)"
    if i: "i < length (imap_srcs st)" for i
  proof
    show "entry_inv (imap_srcs ?st' ! i)"
      using assms i unfolding st' by (intro dispose_all_inv) (auto simp: imap_inv_def)
    show "sx_disposed (imap_srcs ?st' ! i) \<or> imap_isCurrent ?st' i"
    proof (cases "pair_of (imap_srcs st ! i) = ?key")
      case True
      with assms i here [of i] have "i \<in> set ?is \<or> sx_disposed (imap_srcs st ! i)" by (auto simp: imap_inv_def)
      then show ?thesis using dispose_all_disposed [OF i, of ?is] unfolding st' by blast
    next
      case False
      with assms i same [OF False] show ?thesis by (auto simp: imap_inv_def isCurrent_iff st')
    qed
  qed
  moreover have "length (imap_srcs ?st') = length (imap_srcs st)" unfolding st' by simp
  ultimately show ?thesis using assms by (simp add: imap_inv_def st'(2) distinct_keys_delete)
qed

lemma inv_add:
  assumes "imap_inv st" and "map_get (imap_pairs st) (pairKey owner repo) = Some pm" and "entry_key e \<notin> set (keys pm)"
  shows "imap_inv (imap_add owner repo st e)"
proof -
  let ?st' = "imap_add owner repo st e" and ?n = "length (imap_srcs st)"
  have pairs: "imap_pairs ?st' = map_set (pairKey owner repo) (map_set (entry_key e) ?n pm) (imap_pairs st)"
    using assms(2) by (simp add: imap_add_frame)
  have srcs: "imap_srcs ?st' = imap_srcs st @ [runEntry True (new_entry owner repo e)]" by (rule imap_add_frame)
  have kept: "distinct (keys pm') \<and> (map_get pm' ek = Some i \<longrightarrow> i < ?n \<and> \<not> sx_disposed (imap_srcs st ! i) \<and>
      pair_of (imap_srcs st ! i) = pk \<and> entry_key (sx_entry (imap_srcs st ! i)) = ek)"
    if "map_get (imap_pairs st) pk = Some pm'" for pk pm' ek i
    using assms(1) that unfolding imap_inv_def table_inv_def by blast
  have "table_inv ?st'"
    unfolding table_inv_def
  proof (intro allI impI conjI)
    fix pk pm' ek i
    assume pm': "map_get (imap_pairs ?st') pk = Some pm'"
    show "distinct (keys pm')"
      using pm' kept [of pk pm'] kept [OF assms(2)] by (auto simp: pairs distinct_keys_set split: if_splits)
    assume "map_get pm' ek = Some i"
    then have "(i = ?n \<and> pk = pairKey owner repo \<and> ek = entry_key e) \<or> (\<exists>q. map_get (imap_pairs st) pk = Some q \<and> map_get q ek = Some i)"
      using pm' assms(2) by (auto simp: pairs split: if_splits)
    then show "i < length (imap_srcs ?st')" "\<not> sx_disposed (imap_srcs ?st' ! i)" "pair_of (imap_srcs ?st' ! i) = pk"
      "entry_key (sx_entry (imap_srcs ?st' ! i)) = ek"
      using kept [of pk _ ek i] by (auto simp: srcs nth_append)
  qed
  moreover have "imap_isCurrent ?st' ?n" by (simp add: isCurrent_iff pairs srcs)
  moreover have "imap_isCurrent ?st' i" if "imap_isCurrent st i" "i < ?n" for i
  proof (cases "pair_of (imap_srcs st ! i) = pairKey owner repo")
    case True
    with that assms(2) have "map_get pm (entry_key (sx_entry (imap_srcs st ! i))) = Some i" by (auto simp: isCurrent_iff)
    moreover from this have "entry_key (sx_entry (imap_srcs st ! i)) \<noteq> entry_key e"
      using assms(3) map_get_None_keys [of pm "entry_key e"] by auto
    ultimately show ?thesis using True that(2) by (simp add: isCurrent_iff pairs srcs nth_append)
  next
    case False
    with that show ?thesis by (auto simp: isCurrent_iff pairs srcs nth_append)
  qed
  ultimately show ?thesis
    using assms(1) new_entry_inv unfolding imap_inv_def
    by (auto simp: srcs nth_append pairs distinct_keys_set less_Suc_eq)
qed

lemma inv_adds:
  "imap_inv st \<Longrightarrow> map_get (imap_pairs st) (pairKey owner repo) = Some pm \<Longrightarrow> distinct (map (\<lambda>e. entry_key e) es) \<Longrightarrow>
     set (keys pm) \<inter> set (map (\<lambda>e. entry_key e) es) = {} \<Longrightarrow> imap_inv (foldl (imap_add owner repo) st es)"
proof (induction es arbitrary: st pm)
  case (Cons e es)
  have "imap_inv (imap_add owner repo st e)" using Cons.prems by (intro inv_add) auto
  moreover have "map_get (imap_pairs (imap_add owner repo st e)) (pairKey owner repo) = Some (map_set (entry_key e) (length (imap_srcs st)) pm)"
    using Cons.prems(2) by (simp add: imap_add_frame)
  moreover have "set (keys (map_set (entry_key e) (length (imap_srcs st)) pm)) \<inter> set (map (\<lambda>e. entry_key e) es) = {}"
    using Cons.prems(3,4) unfolding keys_map_set by auto
  ultimately show ?case using Cons.prems(3) Cons.IH by simp
qed simp

lemma inv_open: "imap_inv st \<Longrightarrow> map_get (imap_pairs st) key = None \<Longrightarrow> imap_inv (st\<lparr>imap_pairs := map_set key [] (imap_pairs st)\<rparr>)"
proof -
  assume inv: "imap_inv st" and no: "map_get (imap_pairs st) key = None"
  let ?st' = "st\<lparr>imap_pairs := map_set key [] (imap_pairs st)\<rparr>"
  have "imap_isCurrent ?st' i" if "imap_isCurrent st i" for i using that no by (auto simp: isCurrent_iff)
  moreover have "table_inv ?st'" using inv by (simp add: imap_inv_def table_inv_def)
  ultimately show ?thesis using inv by (simp add: imap_inv_def distinct_keys_set) blast
qed

lemma imap_step_inv:
  assumes "imap_inv st" and "imap_step st st'"
  shows "imap_inv st'"
  using assms(2)
proof cases
  case (im_configured es owner repo)
  let ?del = "(imap_cancelPair st owner repo)\<lparr>imap_pairs := map_delete (pairKey owner repo) (imap_pairs st)\<rparr>"
  have pairs: "imap_pairs (imap_cancelPair st owner repo) = imap_pairs st" by (simp add: imap_cancelPair_def split: option.split)
  have del: "imap_inv ?del" by (rule inv_cancel [OF assms(1)])
  then have "imap_inv (?del\<lparr>imap_pairs := map_set (pairKey owner repo) [] (imap_pairs ?del)\<rparr>)" by (rule inv_open) simp
  then have "imap_inv (foldl (imap_add owner repo) (?del\<lparr>imap_pairs := map_set (pairKey owner repo) [] (imap_pairs ?del)\<rparr>) es)"
    by (rule inv_adds [where pm = "[]"]) (use im_configured(2) in simp_all)
  with del im_configured(1) show ?thesis by (simp add: imap_reconfigure_def Let_def pairs)
next
  case im_stopped
  let ?is = "concat (map vals (vals (imap_pairs st)))"
  have "sx_disposed (imap_srcs (foldl dispose_at st ?is) ! i)" if i: "i < length (imap_srcs st)" for i
  proof (rule dispose_all_disposed [OF i])
    show "i \<in> set ?is \<or> sx_disposed (imap_srcs st ! i)"
    proof (cases "sx_disposed (imap_srcs st ! i)")
      case False
      with assms(1) i obtain pk pm ek where "map_get (imap_pairs st) pk = Some pm" "map_get pm ek = Some i"
        by (auto simp: imap_inv_def isCurrent_iff)
      then have "(pk, pm) \<in> set (imap_pairs st)" "(ek, i) \<in> set pm" by (simp_all add: map_of_SomeD)
      then show ?thesis by force
    qed simp
  qed
  with im_stopped assms(1) show ?thesis
    by (simp add: imap_stop_def imap_cancelAll_def imap_inv_def table_inv_def dispose_all_inv)
next
  case (im_entry i e')
  have e': "entry_inv e'"
    using im_entry(2,3) assms(1) by (intro entry_step_inv [OF im_entry(3)]) (auto simp: imap_inv_def)
  note frame = entry_step_frame [OF im_entry(3)]
  have same: "sx_owner ((imap_srcs st)[i := e'] ! j) = sx_owner (imap_srcs st ! j)" "sx_repo ((imap_srcs st)[i := e'] ! j) = sx_repo (imap_srcs st ! j)"
    "sx_entry ((imap_srcs st)[i := e'] ! j) = sx_entry (imap_srcs st ! j)" "sx_disposed ((imap_srcs st)[i := e'] ! j) = sx_disposed (imap_srcs st ! j)" for j
    using frame im_entry(2) by (cases "j = i"; simp)+
  have "imap_isCurrent st' j = imap_isCurrent st j" for j by (simp add: im_entry(1) isCurrent_iff same)
  moreover have "table_inv st' = table_inv st" by (simp add: im_entry(1) table_inv_def same)
  moreover have "entry_inv ((imap_srcs st)[i := e'] ! j)" if "j < length (imap_srcs st)" for j
    using assms(1) e' that by (cases "j = i") (simp_all add: imap_inv_def)
  ultimately show ?thesis using assms(1) im_entry(1) same(4) by (simp add: imap_inv_def)
qed

interpretation imap_runs: invariant_system "\<lambda>st. st = createImapTriggerSource" imap_step imap_inv
  by unfold_locales (simp add: imap_inv_def table_inv_def createImapTriggerSource_def, rule imap_step_inv)

lemma reachable_entries:
  assumes "imap_inv st" and "i \<in> set (concat (map vals (vals (imap_pairs st))))"
  shows "\<not> sx_disposed (imap_srcs st ! i) \<and> lively (imap_srcs st ! i) \<and>
    list_all (\<lambda>(t, d). POLL_INTERVAL_MS \<le> d \<and> d \<le> MAX_BACKOFF_MS) (sx_timers (imap_srcs st ! i))"
proof -
  from assms(2) obtain pk pm ek where "(pk, pm) \<in> set (imap_pairs st)" and ek: "(ek, i) \<in> set pm" by auto
  with assms(1) have pm: "map_get (imap_pairs st) pk = Some pm" by (auto simp: imap_inv_def)
  then have "distinct (keys pm)" using assms(1) unfolding imap_inv_def table_inv_def by blast
  with ek have "map_get pm ek = Some i" by simp
  with pm assms(1) have "i < length (imap_srcs st)" "\<not> sx_disposed (imap_srcs st ! i)"
    unfolding imap_inv_def table_inv_def by blast+
  with assms(1) show ?thesis unfolding imap_inv_def entry_inv_def by blast
qed

text \<open>
  \<^bold>\<open>C25\<close>. However connections come up, fail, lose their server or are reconfigured, in whatever
  order, an entry that is in the table is never stuck: it is not disposed, and either a
  reconnect timer is armed or one of its calls of \<open>runEntry\<close> is at a point from which it drains
  the mailbox again or schedules a reconnect (a call waiting for its wake-up holds a promise
  that is resolved or that the wake-up can still resolve). Every armed reconnect fires within
  the back-off bounds of one minute and one hour.
\<close>

theorem imap_triggers_never_stuck:
  assumes "reach (\<lambda>st. st = createImapTriggerSource) imap_step st"
  shows "list_all (\<lambda>i. \<not> sx_disposed (imap_srcs st ! i) \<and> lively (imap_srcs st ! i) \<and>
      list_all (\<lambda>(t, d). POLL_INTERVAL_MS \<le> d \<and> d \<le> MAX_BACKOFF_MS) (sx_timers (imap_srcs st ! i)))
    (concat (map vals (vals (imap_pairs st))))"
  using reachable_entries [OF imap_runs.reach_inv [OF assms]] by (simp only: list_all_iff ball_simps) blast

definition sample_imap :: "string \<Rightarrow> trigger_entry" where
  "sample_imap mode =
     \<lparr>te_request = \<lparr>rq_owner = ''acme'', rq_repo = ''site'', rq_workflow = ''w'', rq_sha = ''sha'', rq_dispatch = None\<rparr>,
      te_descriptor = \<lparr>td_name = ''inbox'', td_workflowName = ''w'',
        td_config = ImapTrigger \<lparr>imap_host = ''mail'', imap_port = 993, imap_tls = ''required'', imap_insecureSkipVerify = False,
          imap_user = ''u'', imap_password = ''p'', imap_folder = ''INBOX'', imap_search = ''UNSEEN'', imap_mode = mode, imap_onError = None\<rparr>,
        td_inputSchema = JNull, td_outputSchema = JNull\<rparr>,
      te_bundleSource = ''js''\<rparr>"

definition sample_table :: imap_source where
  "sample_table = imap_reconfigure () createImapTriggerSource ''acme'' ''site'' [sample_imap ''poll'']"

definition sample_refused :: imap_entry where
  "sample_refused = give_up True (connect_settled (imap_srcs sample_table ! 0) 0 0 (ConnectFailed ''refused'')) 0 0"

lemmas lifecycle_defs = runEntry_def connect_settled_def give_up_def mailbox_settled_def first_drained_def drained_def
  onConnectionLost_def reconnect_fired_def scheduleReconnect_def teardownConnection_def imap_disposeEntry_def loop_head_def woken_def
  exists_pushed_def wakeup_next_def wakeup_dispose_def resolve_pending_def upd_wakeup_def new_wakeup_def new_entry_def
  set_task_def end_task_def splice1_def idle_mode_def imap_of_def sample_imap_def connect_error_def Let_def

lemma sample_table_simps:
  "imap_srcs sample_table = [runEntry True (new_entry ''acme'' ''site'' (sample_imap ''poll''))]"
  "imap_pairs sample_table = [(pairKey ''acme'' ''site'', [(entry_key (sample_imap ''poll''), 0)])]"
  by (simp_all add: sample_table_def imap_reconfigure_def imap_cancelPair_def createImapTriggerSource_def imap_add_frame)

lemma sample_entry_steps:
  "length (imap_srcs sample_table) = 1" "imap_isCurrent sample_table 0"
  "sx_tasks (imap_srcs sample_table ! 0) = [AwaitConnect 0]"
  "sx_tasks (connect_settled (imap_srcs sample_table ! 0) 0 0 (ConnectFailed ''refused'')) = [AwaitGiveUp 0]"
  "sx_timers sample_refused = [(1, 60000)]"
  "concat (map vals (vals (imap_pairs sample_table))) = [0]"
  by (simp_all add: sample_refused_def sample_table_simps imap_isCurrent_def lifecycle_defs nextDelay_def POLL_INTERVAL_MS_def MAX_BACKOFF_MS_def)

theorem imap_triggers_never_stuck_witness:
  "let st = sample_table\<lparr>imap_srcs := [sample_refused]\<rparr>
   in reach (\<lambda>st. st = createImapTriggerSource) imap_step st \<and>
      concat (map vals (vals (imap_pairs st))) = [0] \<and> sx_timers (imap_srcs st ! 0) = [(1, 60000)] \<and>
      lively (imap_srcs st ! 0)"
proof -
  note more = reach.reach_step [where init = "\<lambda>st. st = createImapTriggerSource" and step = imap_step]
  let ?e0 = "imap_srcs sample_table ! 0" and ?e1 = "connect_settled (imap_srcs sample_table ! 0) 0 0 (ConnectFailed ''refused'')"
  have srcs: "(imap_srcs sample_table)[0 := x] = [x]" for x
    using sample_entry_steps(1) by (cases "imap_srcs sample_table") simp_all
  have table: "reach (\<lambda>st. st = createImapTriggerSource) imap_step sample_table"
    unfolding sample_table_def by (rule more [OF reach_init im_configured]) simp_all
  have "imap_step sample_table (sample_table\<lparr>imap_srcs := [?e1]\<rparr>)"
    unfolding srcs [symmetric] by (rule im_entry, simp add: sample_entry_steps(1), rule es_connect) (simp_all add: sample_entry_steps(3))
  from more [OF table this] have one: "reach (\<lambda>st. st = createImapTriggerSource) imap_step (sample_table\<lparr>imap_srcs := [?e1]\<rparr>)" .
  have cur: "imap_isCurrent (sample_table\<lparr>imap_srcs := [?e1]\<rparr>) 0"
    by (simp add: sample_table_simps imap_isCurrent_def lifecycle_defs)
  have "imap_step (sample_table\<lparr>imap_srcs := [?e1]\<rparr>) ((sample_table\<lparr>imap_srcs := [?e1]\<rparr>)\<lparr>imap_srcs := (imap_srcs (sample_table\<lparr>imap_srcs := [?e1]\<rparr>))[0 := sample_refused]\<rparr>)"
    unfolding sample_refused_def
    by (rule im_entry, simp, use cur in simp, rule es_give_up) (simp_all add: sample_entry_steps(4))
  from more [OF one this] have two: "reach (\<lambda>st. st = createImapTriggerSource) imap_step (sample_table\<lparr>imap_srcs := [sample_refused]\<rparr>)" by simp
  from imap_triggers_never_stuck [OF two] two sample_entry_steps(5,6) show ?thesis by (simp add: Let_def)
qed

section \<open>Races the lifecycle does not exclude\<close>

text \<open>
  A connection lost while its mailbox is drained schedules a reconnect; the drain, failing on
  the closed connection, schedules another one and does not clear the first. Both timers fire,
  and two calls of \<open>runEntry\<close> serve one entry.
\<close>

definition sample_ready :: imap_entry where
  "sample_ready = mailbox_settled (connect_settled (runEntry True (new_entry ''acme'' ''site'' (sample_imap ''poll''))) 0 0 (Connected True)) 0 0 None"

lemma lost_connection_reconnects_twice:
  "let e1 = onConnectionLost True sample_ready;
       e2 = first_drained True e1 0 True;
       e3 = reconnect_fired True (reconnect_fired True e2 1) 2
   in sx_tasks sample_ready = [AwaitFirstDrain 0] \<and> map fst (sx_timers e1) = [1] \<and> map fst (sx_timers e2) = [1, 2] \<and>
      sx_reconnectTimer e2 = Some 2 \<and> sx_tasks e3 = [AwaitConnect 3, AwaitConnect 4]"
  by (simp add: sample_ready_def lifecycle_defs)

text \<open>
  An entry disposed while \<open>connect\<close> or \<open>mailboxOpen\<close> is awaited gets its client afterwards; nothing logs that
  client out, and its wake-up stays armed.
\<close>

lemma disposed_entry_keeps_connection:
  "let e0 = runEntry True (new_entry ''acme'' ''site'' (sample_imap ''idle''));
       e1 = mailbox_settled (connect_settled (imap_disposeEntry e0) 0 0 (Connected True)) 0 0 None;
       e2 = first_drained False e1 0 False
   in sx_disposed e2 \<and> sx_tasks e2 = [] \<and> sx_timers e2 = [] \<and> sx_client e2 = Some 0 \<and> sx_logouts e2 = [] \<and>
      map wk_live (sx_wakeups e2) = [True]"
  by code_simp

text \<open>A failed first drain is not counted in the delay of the reconnect it schedules; a failed later drain is.\<close>

lemma first_drain_backoff_lags:
  "let e = sample_ready\<lparr>sx_failures := 3\<rparr>
   in map snd (sx_timers (first_drained True e 0 True)) = [240000] \<and> map snd (sx_timers (drained True e 0 True)) = [480000]"
  by (simp add: sample_ready_def lifecycle_defs nextDelay_def POLL_INTERVAL_MS_def MAX_BACKOFF_MS_def)

text \<open>A push that wakes a waiting \<open>next()\<close> leaves \<open>dirty\<close> set, so the next \<open>next()\<close> returns at once with nothing new.\<close>

lemma push_drains_twice:
  "let e0 = runEntry True (new_entry ''acme'' ''site'' (sample_imap ''idle''));
       e1 = mailbox_settled (connect_settled e0 0 0 (Connected True)) 0 0 None;
       e2 = exists_pushed (first_drained True e1 0 False) 0;
       e3 = drained True (woken True e2 0 0) 0 False
   in sx_tasks e2 = [AwaitWakeup 0 1] \<and> sx_resolved e2 = [1] \<and> sx_tasks e3 = [AwaitWakeup 0 2] \<and> sx_resolved e3 = [1, 2]"
  by code_simp

end
