(* ===== verification/Callables.thy ===== *)
theory Callables
  imports Prelude
begin

text \<open>
  Guest functions held by the host: \<open>makeCallable\<close>, the leak registry and the marshalling of
  arguments (\<open>packages/sandbox/src/bridge.ts\<close>), the timers plugin
  (\<open>packages/sandbox-stdlib/src/timers/index.ts\<close>) and the run-scoped handle tracker
  (\<open>packages/sandbox-stdlib/src/internal/run-scoped-handles.ts\<close>).

  A callable is the record \<open>callable\<close> of its closure's variables; \<open>cb_releases\<close> counts the calls of
  \<open>dup.dispose()\<close> and \<open>cb_vm\<close> is the virtual machine the duplicated handle points into, numbered
  by the calls of \<open>rebind\<close>. An invocation runs from \<open>callable_invoke\<close> to \<open>callable_end\<close>;
  in between, the guest function is on the stack or its promise is awaited, and anything else
  may happen, a call of \<open>dispose\<close> from inside the guest function too.
\<close>

section \<open>Host values\<close>

datatype hval =
    HUndefined
  | HNull
  | HBool bool
  | HNum int
  | HStr string
  | HFunction
  | HSymbol
  | HBuffer string
  | HPromise nat
  | HCallable nat
  | HArr "hval list"
  | HObj "(string \<times> hval) list"

definition NESTED_PROMISE_SCAN_MAX_DEPTH :: nat where "NESTED_PROMISE_SCAN_MAX_DEPTH = 8"

fun assertNoNestedPromise :: "nat \<Rightarrow> hval \<Rightarrow> bool" where
  \<comment> \<open>\<open>False\<close>: the scan throws\<close>
  "assertNoNestedPromise depth (HPromise p) = (depth > NESTED_PROMISE_SCAN_MAX_DEPTH)"
| "assertNoNestedPromise depth (HArr vs) =
     (depth > NESTED_PROMISE_SCAN_MAX_DEPTH \<or> list_all (assertNoNestedPromise (Suc depth)) vs)"
| "assertNoNestedPromise depth (HObj fs) =
     (depth > NESTED_PROMISE_SCAN_MAX_DEPTH \<or> list_all (\<lambda>f. assertNoNestedPromise (Suc depth) (snd f)) fs)"
| "assertNoNestedPromise depth v = True"

definition safeHostToHandle :: "hval \<Rightarrow> bool" where
  \<comment> \<open>\<open>False\<close>: it throws; a promise at the top becomes a deferred of the guest\<close>
  "safeHostToHandle v = (case v of HPromise p \<Rightarrow> True | _ \<Rightarrow> assertNoNestedPromise 0 v)"

fun singleton_value :: "hval \<Rightarrow> bool" where
  "singleton_value HNull = True"
| "singleton_value HUndefined = True"
| "singleton_value (HBool b) = True"
| "singleton_value v = False"

datatype handle = Fresh hval | Dup hval

definition marshalArg :: "hval \<Rightarrow> handle option" where
  "marshalArg v = (if safeHostToHandle v then Some (if singleton_value v then Dup v else Fresh v) else None)"

section \<open>Callables\<close>

record callable =
  cb_vm :: nat
  cb_disposed :: bool
  cb_depth :: nat
  cb_pendingDispose :: bool
  cb_releases :: nat

record callables =
  ct_vm :: nat
  ct_callables :: "callable list"
  ct_live :: "(nat, string) jsmap"
  ct_inflight :: "(nat \<times> nat) list"
  ct_argHandles :: nat

definition no_callables :: callables where
  "no_callables = \<lparr>ct_vm = 0, ct_callables = [], ct_live = [], ct_inflight = [], ct_argHandles = 0\<rparr>"

definition makeCallable :: "callables \<Rightarrow> string option \<Rightarrow> callables \<times> nat" where
  "makeCallable ct descriptorName =
     (let cid = length (ct_callables ct);
          ct1 = ct\<lparr>ct_callables := ct_callables ct @
                  [\<lparr>cb_vm = ct_vm ct, cb_disposed = False, cb_depth = 0, cb_pendingDispose = False, cb_releases = 0\<rparr>]\<rparr>
      in (case descriptorName of None \<Rightarrow> ct1 | Some d \<Rightarrow> ct1\<lparr>ct_live := map_set cid d (ct_live ct1)\<rparr>, cid))"

definition upd_callable :: "callables \<Rightarrow> nat \<Rightarrow> (callable \<Rightarrow> callable) \<Rightarrow> callables" where
  "upd_callable ct cid f = ct\<lparr>ct_callables := (ct_callables ct)[cid := f (ct_callables ct ! cid)]\<rparr>"

definition release_dup :: "callables \<Rightarrow> nat \<Rightarrow> callables" where
  \<comment> \<open>\<open>disposed = true; dup.dispose(); liveCallables.delete(callable)\<close>\<close>
  "release_dup ct cid =
     (upd_callable ct cid (\<lambda>c. c\<lparr>cb_disposed := True, cb_releases := Suc (cb_releases c)\<rparr>))
       \<lparr>ct_live := map_delete cid (ct_live ct)\<rparr>"

datatype invoke_start = InvokeStarted | InvokeDisposed | InvokeUnmarshallable

definition callable_invoke :: "callables \<Rightarrow> nat \<Rightarrow> hval list \<Rightarrow> callables \<times> invoke_start" where
  \<comment> \<open>up to the \<open>await\<close> of the guest's result\<close>
  "callable_invoke ct cid args =
     (if cb_disposed (ct_callables ct ! cid) then (ct, InvokeDisposed)
      else let marshalled = takeWhile (\<lambda>v. marshalArg v \<noteq> None) args;
               ct1 = ct\<lparr>ct_argHandles := ct_argHandles ct + length marshalled\<rparr>
           in if length marshalled < length args then (ct1, InvokeUnmarshallable)
              else ((upd_callable ct1 cid (\<lambda>c. c\<lparr>cb_depth := Suc (cb_depth c)\<rparr>))
                      \<lparr>ct_inflight := ct_inflight ct @ [(cid, length args)]\<rparr>, InvokeStarted))"

definition invokeFinally :: "callables \<Rightarrow> nat \<Rightarrow> nat \<Rightarrow> callables" where
  "invokeFinally ct cid argHandles =
     (let ct1 = upd_callable (ct\<lparr>ct_argHandles := ct_argHandles ct - argHandles\<rparr>) cid (\<lambda>c. c\<lparr>cb_depth := cb_depth c - 1\<rparr>);
          c = ct_callables ct1 ! cid
      in if cb_depth c = 0 \<and> cb_pendingDispose c \<and> \<not> cb_disposed c then release_dup ct1 cid else ct1)"

definition callable_end :: "callables \<Rightarrow> nat \<Rightarrow> callables" where
  \<comment> \<open>the \<open>k\<close>-th invocation in progress leaves its \<open>try\<close>, with an envelope or by throwing\<close>
  "callable_end ct k =
     (case ct_inflight ct ! k of (cid, n) \<Rightarrow> invokeFinally (ct\<lparr>ct_inflight := splice1 k (ct_inflight ct)\<rparr>) cid n)"

definition callable_dispose :: "callables \<Rightarrow> nat \<Rightarrow> callables" where
  "callable_dispose ct cid =
     (let c = ct_callables ct ! cid
      in if cb_disposed c \<or> cb_pendingDispose c then ct
         else if cb_depth c > 0 then upd_callable ct cid (\<lambda>c. c\<lparr>cb_pendingDispose := True\<rparr>)
         else release_dup ct cid)"

definition drainCallableLeaks :: "callables \<Rightarrow> callables \<times> (nat \<times> string) list" where
  "drainCallableLeaks ct = (ct\<lparr>ct_live := []\<rparr>, ct_live ct)"

definition auditCallables :: "callables \<Rightarrow> callables" where
  \<comment> \<open>the audit at the end of a run in \<open>worker.ts\<close>: dispose every survivor\<close>
  "auditCallables ct = (case drainCallableLeaks ct of (ct1, leaks) \<Rightarrow> foldl callable_dispose ct1 (map fst leaks))"

definition ct_rebind :: "callables \<Rightarrow> callables" where
  "ct_rebind ct = ct\<lparr>ct_vm := Suc (ct_vm ct)\<rparr>"

section \<open>Duplicated handles are released once, and never under a running invocation\<close>

inductive callable_step :: "callables \<Rightarrow> callables \<Rightarrow> bool" where
  cs_make: "callable_step ct (fst (makeCallable ct (Some d)))"
| cs_invoke: "cid < length (ct_callables ct) \<Longrightarrow> callable_step ct (fst (callable_invoke ct cid args))"
| cs_end: "k < length (ct_inflight ct) \<Longrightarrow> callable_step ct (callable_end ct k)"
| cs_dispose: "cid < length (ct_callables ct) \<Longrightarrow> callable_step ct (callable_dispose ct cid)"
| cs_audit: "callable_step ct (auditCallables ct)"
| cs_rebind: "callable_step ct (ct_rebind ct)"

definition callable_ok :: "callables \<Rightarrow> nat \<Rightarrow> callable \<Rightarrow> bool" where
  "callable_ok ct cid c \<longleftrightarrow>
     cb_depth c = count_list (map fst (ct_inflight ct)) cid \<and>
     cb_releases c = (if cb_disposed c then 1 else 0) \<and>
     (cb_disposed c \<longrightarrow> cb_depth c = 0) \<and>
     (cb_pendingDispose c \<longrightarrow> cb_disposed c \<or> cb_depth c > 0) \<and>
     (cid \<in> set (keys (ct_live ct)) \<or> cb_disposed c \<or> cb_pendingDispose c)"

definition callables_inv :: "callables \<Rightarrow> bool" where
  "callables_inv ct \<longleftrightarrow>
     (\<forall>cid < length (ct_callables ct). callable_ok ct cid (ct_callables ct ! cid)) \<and>
     fst ` set (ct_inflight ct) \<subseteq> {..< length (ct_callables ct)} \<and>
     set (keys (ct_live ct)) \<subseteq> {..< length (ct_callables ct)}"

lemma count_list_splice1:
  "k < length xs \<Longrightarrow> count_list (splice1 k xs) x = count_list xs x - (if xs ! k = x then 1 else 0)"
proof -
  assume k: "k < length xs"
  have "count_list xs x = count_list (take k xs @ xs ! k # drop (Suc k) xs) x"
    by (simp only: id_take_nth_drop [OF k, symmetric])
  then show ?thesis by (simp add: splice1_def count_list_append)
qed

lemma map_splice1: "map f (splice1 k xs) = splice1 k (map f xs)"
  by (simp add: splice1_def take_map drop_map)

lemma release_frame:
  "ct_inflight (release_dup ct cid) = ct_inflight ct" "length (ct_callables (release_dup ct cid)) = length (ct_callables ct)"
  "set (keys (ct_live (release_dup ct cid))) = set (keys (ct_live ct)) - {cid}"
  unfolding release_dup_def upd_callable_def using delete_keys [of cid "ct_live ct"] by auto

lemma inv_others:
  assumes "callables_inv ct" and "length (ct_callables ct') = length (ct_callables ct)"
    and "ct_inflight ct' = ct_inflight ct" and "set (keys (ct_live ct)) - {cid} \<subseteq> set (keys (ct_live ct'))"
    and "set (keys (ct_live ct')) \<subseteq> set (keys (ct_live ct))"
    and "\<And>j. j \<noteq> cid \<Longrightarrow> ct_callables ct' ! j = ct_callables ct ! j"
    and "cid < length (ct_callables ct) \<Longrightarrow> callable_ok ct' cid (ct_callables ct' ! cid)"
  shows "callables_inv ct'"
proof -
  have "callable_ok ct' j (ct_callables ct' ! j)" if j: "j < length (ct_callables ct)" for j
  proof (cases "j = cid")
    case False
    then have "callable_ok ct j (ct_callables ct' ! j)" using assms(1,6) j by (simp add: callables_inv_def)
    with False assms(3,4) show ?thesis unfolding callable_ok_def by auto
  qed (use assms(7) j in simp)
  moreover have "set (keys (ct_live ct')) \<subseteq> {..< length (ct_callables ct)}"
    using assms(1) subset_trans [OF assms(5)] by (simp add: callables_inv_def)
  moreover have "fst ` set (ct_inflight ct') \<subseteq> {..< length (ct_callables ct)}" using assms(1,3) by (simp add: callables_inv_def)
  ultimately show ?thesis using assms(2) unfolding callables_inv_def by simp
qed

lemma inv_release:
  assumes "callables_inv ct" and "cid < length (ct_callables ct)" and "cb_depth (ct_callables ct ! cid) = 0" and "\<not> cb_disposed (ct_callables ct ! cid)"
  shows "callables_inv (release_dup ct cid)"
proof (rule inv_others [OF assms(1), where cid = cid])
  show "callable_ok (release_dup ct cid) cid (ct_callables (release_dup ct cid) ! cid)"
    using assms by (auto simp: callables_inv_def release_dup_def upd_callable_def callable_ok_def)
qed (auto simp: release_dup_def upd_callable_def delete_keys)

lemma inv_dispose_callable:
  assumes "callables_inv ct" and "cid < length (ct_callables ct)"
  shows "callables_inv (callable_dispose ct cid)"
proof (cases "cb_disposed (ct_callables ct ! cid) \<or> cb_pendingDispose (ct_callables ct ! cid)")
  case False
  show ?thesis
  proof (cases "cb_depth (ct_callables ct ! cid) > 0")
    case True
    let ?ct = "upd_callable ct cid (\<lambda>c. c\<lparr>cb_pendingDispose := True\<rparr>)"
    have "callables_inv ?ct"
    proof (rule inv_others [OF assms(1), where cid = cid])
      show "callable_ok ?ct cid (ct_callables ?ct ! cid)"
        using assms True by (auto simp: callables_inv_def upd_callable_def callable_ok_def)
    qed (auto simp: upd_callable_def)
    with False True show ?thesis by (simp add: callable_dispose_def)
  qed (use False assms in \<open>simp add: callable_dispose_def inv_release\<close>)
qed (use assms in \<open>simp add: callable_dispose_def\<close>)

lemma callable_dispose_frame:
  "length (ct_callables (callable_dispose ct cid)) = length (ct_callables ct)"
  "callable_dispose (ct\<lparr>ct_live := []\<rparr>) cid = (callable_dispose ct cid)\<lparr>ct_live := []\<rparr>"
  "ct_inflight (callable_dispose ct cid) = ct_inflight ct"
  by (simp_all add: callable_dispose_def release_dup_def upd_callable_def Let_def)

lemma callable_disposes_frame:
  "length (ct_callables (foldl callable_dispose ct cids)) = length (ct_callables ct)"
  "foldl callable_dispose (ct\<lparr>ct_live := []\<rparr>) cids = (foldl callable_dispose ct cids)\<lparr>ct_live := []\<rparr>"
  "ct_inflight (foldl callable_dispose ct cids) = ct_inflight ct"
  by (induction cids arbitrary: ct) (simp_all add: callable_dispose_frame)

abbreviation settled_callable :: "callable \<Rightarrow> bool" where
  "settled_callable c \<equiv> cb_disposed c \<or> cb_pendingDispose c"

lemma dispose_settles:
  assumes "j < length (ct_callables ct)" and "j = cid \<or> settled_callable (ct_callables ct ! j)"
  shows "settled_callable (ct_callables (callable_dispose ct cid) ! j)"
  using assms by (cases "j = cid") (auto simp: callable_dispose_def release_dup_def upd_callable_def Let_def)

lemma dispose_all_settles:
  "j < length (ct_callables ct) \<Longrightarrow> j \<in> set cids \<or> settled_callable (ct_callables ct ! j) \<Longrightarrow>
     settled_callable (ct_callables (foldl callable_dispose ct cids) ! j)"
proof (induction cids arbitrary: ct)
  case (Cons cid cids)
  have "j \<in> set cids \<or> settled_callable (ct_callables (callable_dispose ct cid) ! j)"
    using Cons.prems dispose_settles [of j ct cid] by auto
  with Cons.IH [of "callable_dispose ct cid"] Cons.prems(1) show ?case by (simp add: callable_dispose_frame)
qed simp

lemma inv_dispose_all:
  "callables_inv ct \<Longrightarrow> set cids \<subseteq> {..< length (ct_callables ct)} \<Longrightarrow> callables_inv (foldl callable_dispose ct cids)"
  by (induction cids arbitrary: ct) (simp_all add: inv_dispose_callable callable_dispose_frame)

lemma audit_settles:
  assumes "callables_inv ct"
  shows "callables_inv (auditCallables ct) \<and> ct_live (auditCallables ct) = [] \<and>
    ct_inflight (auditCallables ct) = ct_inflight ct \<and> length (ct_callables (auditCallables ct)) = length (ct_callables ct) \<and>
    (\<forall>cid < length (ct_callables ct). settled_callable (ct_callables (auditCallables ct) ! cid))"
proof -
  let ?ct = "foldl callable_dispose ct (keys (ct_live ct))"
  have audit: "auditCallables ct = ?ct\<lparr>ct_live := []\<rparr>"
    by (simp add: auditCallables_def drainCallableLeaks_def callable_disposes_frame)
  have inv: "callables_inv ?ct" using assms by (intro inv_dispose_all) (simp_all add: callables_inv_def)
  have all: "settled_callable (ct_callables ?ct ! cid)" if "cid < length (ct_callables ct)" for cid
    using assms that by (intro dispose_all_settles) (auto simp: callables_inv_def callable_ok_def)
  with inv have "callables_inv (?ct\<lparr>ct_live := []\<rparr>)"
    by (auto simp: callables_inv_def callable_ok_def callable_disposes_frame)
  with all audit show ?thesis by (simp add: callable_disposes_frame)
qed

lemma inv_invoke:
  assumes "callables_inv ct" and cid: "cid < length (ct_callables ct)"
  shows "callables_inv (fst (callable_invoke ct cid args))"
proof -
  let ?ct = "\<lambda>n. (upd_callable (ct\<lparr>ct_argHandles := n\<rparr>) cid (\<lambda>c. c\<lparr>cb_depth := Suc (cb_depth c)\<rparr>))\<lparr>ct_inflight := ct_inflight ct @ [(cid, length args)]\<rparr>"
  have "callable_ok (?ct n) j (ct_callables (?ct n) ! j)" if "\<not> cb_disposed (ct_callables ct ! cid)" "j < length (ct_callables ct)" for n j
    using assms that by (cases "j = cid") (auto simp: callables_inv_def callable_ok_def upd_callable_def)
  then have "callables_inv (?ct n)" if "\<not> cb_disposed (ct_callables ct ! cid)" for n
    using assms that by (auto simp: callables_inv_def upd_callable_def)
  moreover have "callables_inv (ct\<lparr>ct_argHandles := n\<rparr>)" for n using assms(1) by (auto simp: callables_inv_def callable_ok_def)
  ultimately show ?thesis using assms(1) by (simp add: callable_invoke_def Let_def)
qed

lemma inv_end:
  assumes "callables_inv ct" and k: "k < length (ct_inflight ct)"
  shows "callables_inv (callable_end ct k)"
proof -
  obtain cid n where kth: "ct_inflight ct ! k = (cid, n)" by fastforce
  with k have mem: "(cid, n) \<in> set (ct_inflight ct)" by (metis nth_mem)
  with assms(1) have cid: "cid < length (ct_callables ct)" unfolding callables_inv_def by (metis fst_conv image_eqI lessThan_iff subsetD)
  let ?ct = "upd_callable (ct\<lparr>ct_inflight := splice1 k (ct_inflight ct), ct_argHandles := ct_argHandles ct - n\<rparr>) cid (\<lambda>c. c\<lparr>cb_depth := cb_depth c - 1\<rparr>)"
  have cnt: "count_list (map fst (splice1 k (ct_inflight ct))) j = count_list (map fst (ct_inflight ct)) j - (if j = cid then 1 else 0)" for j
    using k kth by (simp add: map_splice1 count_list_splice1 nth_map)
  have sub: "set (splice1 k (ct_inflight ct)) \<subseteq> set (ct_inflight ct)"
    by (auto simp: splice1_def dest: in_set_takeD in_set_dropD)
  have pos: "count_list (map fst (ct_inflight ct)) cid > 0" using mem by (force simp: count_list_0_iff simp flip: neq0_conv)
  have ok: "callable_ok ct j (ct_callables ct ! j)" if "j < length (ct_callables ct)" for j
    using assms(1) that by (simp add: callables_inv_def)
  have bounds: "fst ` set (splice1 k (ct_inflight ct)) \<subseteq> {..< length (ct_callables ct)}"
    by (rule subset_trans [OF image_mono [OF sub]]) (use assms(1) in \<open>simp add: callables_inv_def\<close>)
  show ?thesis
  proof (cases "cb_depth (ct_callables ct ! cid) = 1 \<and> cb_pendingDispose (ct_callables ct ! cid)")
    case True
    then have fin: "callable_end ct k = release_dup ?ct cid"
      using cid ok [OF cid] kth by (auto simp: callable_end_def invokeFinally_def Let_def upd_callable_def callable_ok_def)
    have "callable_ok (callable_end ct k) j (ct_callables (callable_end ct k) ! j)" if "j < length (ct_callables ct)" for j
      using ok [OF that] True cid unfolding fin
      by (cases "j = cid") (auto simp: release_dup_def upd_callable_def callable_ok_def cnt delete_keys)
    moreover have "ct_inflight (callable_end ct k) = splice1 k (ct_inflight ct)" "length (ct_callables (callable_end ct k)) = length (ct_callables ct)"
      "set (keys (ct_live (callable_end ct k))) = set (keys (ct_live ct)) - {cid}"
      unfolding fin release_frame by (simp_all add: upd_callable_def)
    ultimately show ?thesis using assms(1) bounds by (auto simp only: callables_inv_def)
  next
    case False
    then have fin: "callable_end ct k = ?ct"
      using cid ok [OF cid] kth pos by (auto simp: callable_end_def invokeFinally_def Let_def upd_callable_def callable_ok_def)
    have "callable_ok ?ct j (ct_callables ?ct ! j)" if "j < length (ct_callables ct)" for j
      using ok [OF that] False cid by (cases "j = cid") (auto simp: upd_callable_def callable_ok_def cnt)
    moreover have "ct_inflight ?ct = splice1 k (ct_inflight ct)" "length (ct_callables ?ct) = length (ct_callables ct)" "ct_live ?ct = ct_live ct"
      by (simp_all add: upd_callable_def)
    ultimately show ?thesis using assms(1) bounds unfolding fin by (auto simp only: callables_inv_def)
  qed
qed

lemma inv_make: "callables_inv ct \<Longrightarrow> callables_inv (fst (makeCallable ct (Some d)))"
proof -
  assume inv: "callables_inv ct"
  let ?ct = "fst (makeCallable ct (Some d))" and ?n = "length (ct_callables ct)"
  have fresh: "?n \<notin> fst ` set (ct_inflight ct)" using inv by (auto simp: callables_inv_def)
  have frame: "ct_inflight ?ct = ct_inflight ct" "length (ct_callables ?ct) = Suc ?n"
    "set (keys (ct_live ?ct)) = insert ?n (set (keys (ct_live ct)))"
    using keys_map_set [of ?n d "ct_live ct"] by (simp_all add: makeCallable_def Let_def)
  have "callable_ok ?ct j (ct_callables ?ct ! j)" if "j \<le> ?n" for j
  proof (cases "j = ?n")
    case True
    with fresh show ?thesis unfolding callable_ok_def frame by (simp add: makeCallable_def Let_def count_list_0_iff)
  next
    case False
    with that inv have "callable_ok ct j (ct_callables ct ! j)" by (simp add: callables_inv_def)
    moreover have "ct_callables ?ct ! j = ct_callables ct ! j" using False that by (simp add: makeCallable_def Let_def nth_append)
    ultimately show ?thesis unfolding callable_ok_def frame by auto
  qed
  with inv show ?thesis unfolding callables_inv_def frame by (auto simp: less_Suc_eq_le)
qed

lemma callable_step_inv: "callables_inv ct \<Longrightarrow> callable_step ct ct' \<Longrightarrow> callables_inv ct'"
  by (erule callable_step.cases)
    (auto simp: inv_make inv_invoke inv_end inv_dispose_callable audit_settles,
     auto simp: ct_rebind_def callables_inv_def callable_ok_def)

interpretation callable_runs: invariant_system "\<lambda>ct. ct = no_callables" callable_step callables_inv
  by unfold_locales (simp add: callables_inv_def no_callables_def, rule callable_step_inv)

lemma callables_inv_safe:
  assumes inv: "callables_inv ct"
  shows "list_all (\<lambda>c. cb_releases c \<le> 1 \<and> (cb_releases c = 1 \<longleftrightarrow> cb_disposed c)) (ct_callables ct)"
    and "list_all (\<lambda>(cid, n). cid < length (ct_callables ct) \<and> cb_releases (ct_callables ct ! cid) = 0) (ct_inflight ct)"
    and "list_all (\<lambda>cid. cid \<in> set (keys (ct_live ct)) \<or> settled_callable (ct_callables ct ! cid)) [0 ..< length (ct_callables ct)]"
    and "list_all (\<lambda>cid. cb_releases (ct_callables (auditCallables ct) ! cid) = 1 \<or> cid \<in> set (map fst (ct_inflight ct)))
      [0 ..< length (ct_callables ct)]"
proof -
  show "list_all (\<lambda>c. cb_releases c \<le> 1 \<and> (cb_releases c = 1 \<longleftrightarrow> cb_disposed c)) (ct_callables ct)"
    using inv by (auto simp: list_all_length callables_inv_def callable_ok_def)
  show "list_all (\<lambda>(cid, n). cid < length (ct_callables ct) \<and> cb_releases (ct_callables ct ! cid) = 0) (ct_inflight ct)"
    unfolding list_all_iff
  proof (intro ballI, simp only: split_paired_all prod.case)
    fix cid n assume mem: "(cid, n) \<in> set (ct_inflight ct)"
    then have cid: "cid < length (ct_callables ct)" using inv unfolding callables_inv_def by force
    with inv have ok: "callable_ok ct cid (ct_callables ct ! cid)" by (simp add: callables_inv_def)
    have "count_list (map fst (ct_inflight ct)) cid > 0" using mem by (force simp: count_list_0_iff simp flip: neq0_conv)
    with ok cid show "cid < length (ct_callables ct) \<and> cb_releases (ct_callables ct ! cid) = 0" by (auto simp: callable_ok_def)
  qed
  show "list_all (\<lambda>cid. cid \<in> set (keys (ct_live ct)) \<or> settled_callable (ct_callables ct ! cid)) [0 ..< length (ct_callables ct)]"
    using inv by (auto simp: list_all_iff callables_inv_def callable_ok_def)
  show "list_all (\<lambda>cid. cb_releases (ct_callables (auditCallables ct) ! cid) = 1 \<or> cid \<in> set (map fst (ct_inflight ct)))
      [0 ..< length (ct_callables ct)]"
  proof (simp only: list_all_iff, intro ballI)
    fix cid assume "cid \<in> set [0 ..< length (ct_callables ct)]"
    then have "callable_ok (auditCallables ct) cid (ct_callables (auditCallables ct) ! cid)" "settled_callable (ct_callables (auditCallables ct) ! cid)"
      "ct_inflight (auditCallables ct) = ct_inflight ct"
      using audit_settles [OF inv] unfolding callables_inv_def by auto
    then show "cb_releases (ct_callables (auditCallables ct) ! cid) = 1 \<or> cid \<in> set (map fst (ct_inflight ct))"
      using count_list_0_iff [of "map fst (ct_inflight ct)" cid] by (auto simp: callable_ok_def)
  qed
qed

text \<open>
  \<^bold>\<open>C29\<close>. Over every interleaving of wrapping, invoking, settling, disposing (also from inside
  the invoked function), end-of-run audits and snapshot restores, the duplicated handle of a
  callable is released at most once, exactly when the callable counts as disposed, and never
  while one of its invocations is in progress; a callable that is neither disposed nor about
  to be is in the audit's registry. After an audit every callable is released or waits only
  for its invocations in progress.
\<close>

theorem callable_handles_safe:
  assumes "reach (\<lambda>ct. ct = no_callables) callable_step ct"
  shows "list_all (\<lambda>c. cb_releases c \<le> 1 \<and> (cb_releases c = 1 \<longleftrightarrow> cb_disposed c)) (ct_callables ct) \<and>
    list_all (\<lambda>(cid, n). cid < length (ct_callables ct) \<and> cb_releases (ct_callables ct ! cid) = 0) (ct_inflight ct) \<and>
    list_all (\<lambda>cid. cid \<in> set (keys (ct_live ct)) \<or> settled_callable (ct_callables ct ! cid)) [0 ..< length (ct_callables ct)] \<and>
    list_all (\<lambda>cid. cb_releases (ct_callables (auditCallables ct) ! cid) = 1 \<or> cid \<in> set (map fst (ct_inflight ct)))
      [0 ..< length (ct_callables ct)]"
  using callables_inv_safe [OF callable_runs.reach_inv [OF assms]] by (intro conjI)

definition reentrant :: callables where
  \<comment> \<open>a callable that disposes itself from inside its own invocation\<close>
  "reentrant = callable_dispose (fst (callable_invoke (fst (makeCallable no_callables (Some ''setInterval''))) 0 [])) 0"

theorem callable_handles_safe_witness:
  "reach (\<lambda>ct. ct = no_callables) callable_step reentrant \<and> map cb_releases (ct_callables reentrant) = [0] \<and>
   ct_inflight reentrant = [(0, 0)] \<and> map cb_releases (ct_callables (callable_end reentrant 0)) = [1]"
proof -
  note more = reach.reach_step [where init = "\<lambda>ct. ct = no_callables" and step = callable_step]
  let ?c1 = "fst (makeCallable no_callables (Some ''setInterval''))"
  have r1: "reach (\<lambda>ct. ct = no_callables) callable_step ?c1" by (rule more [OF reach_init cs_make]) simp
  have r2: "reach (\<lambda>ct. ct = no_callables) callable_step (fst (callable_invoke ?c1 0 []))" by (rule more [OF r1 cs_invoke]) code_simp
  have r: "reach (\<lambda>ct. ct = no_callables) callable_step reentrant" unfolding reentrant_def by (rule more [OF r2 cs_dispose]) code_simp
  have facts: "ct_inflight reentrant = [(0, 0)]" "map cb_releases (ct_callables reentrant) = [0]"
    "map cb_releases (ct_callables (callable_end reentrant 0)) = [1]" by code_simp+
  from callable_handles_safe [OF r] r facts show ?thesis by simp
qed

text \<open>
  The audit at the end of a run only marks a callable whose invocation is still in progress,
  and \<open>invoke\<close> does not look at the mark: after the restore the callable is invoked again, with
  a handle of the machine that is gone.
\<close>

lemma audited_callable_invoked_again:
  "let ct1 = fst (callable_invoke (fst (makeCallable no_callables (Some ''__sdkDispatchAction''))) 0 []);
       ct2 = ct_rebind (auditCallables ct1)
   in snd (callable_invoke ct2 0 []) = InvokeStarted \<and> cb_vm (ct_callables ct2 ! 0) \<noteq> ct_vm ct2"
  by code_simp

text \<open>An argument that cannot be marshalled leaves the handles of the arguments before it unreleased.\<close>

lemma unmarshallable_argument_leaks:
  "let ct = fst (callable_invoke (fst (makeCallable no_callables (Some ''f''))) 0 [HStr ''a'', HArr [HPromise 0]])
   in ct_inflight ct = [] \<and> ct_argHandles ct = 1"
  by code_simp

section \<open>Timers\<close>

datatype js_number = NotFinite | Dyadic int nat \<comment> \<open>\<open>Dyadic m k\<close> is \<open>m / 2^k\<close>\<close>

definition INT32_MAX :: int where "INT32_MAX = 2147483647"

definition normaliseDelay :: "js_number \<Rightarrow> int" where
  \<comment> \<open>of \<open>Number(raw)\<close>\<close>
  "normaliseDelay n =
     (case n of
        NotFinite \<Rightarrow> 0
      | Dyadic m k \<Rightarrow> if m < 0 \<or> m > INT32_MAX * 2 ^ k then 0 else m div 2 ^ k)"

datatype timer_kind = SetTimeout | SetInterval

record pending_timer =
  pt_kind :: timer_kind
  pt_callable :: nat

datatype timer_event =
    ClearCall timer_kind nat   \<comment> \<open>the \<open>system.call\<close> leaf of \<open>clearAllPending\<close>\<close>
  | FireRequest timer_kind nat invoke_start

record timers =
  tr_pending :: "(nat, pending_timer) jsmap"
  tr_armed :: "(nat \<times> timer_kind \<times> int) list"
  tr_fresh :: nat
  tr_ct :: callables
  tr_events :: "timer_event list"

definition schedule_timer :: "timer_kind \<Rightarrow> timers \<Rightarrow> nat \<Rightarrow> js_number \<Rightarrow> timers \<times> nat" where
  \<comment> \<open>\<open>scheduleOnce\<close> and \<open>scheduleInterval\<close>\<close>
  "schedule_timer kind tr cb rawDelay =
     (let numId = tr_fresh tr
      in (tr\<lparr>tr_armed := tr_armed tr @ [(numId, kind, normaliseDelay rawDelay)], tr_fresh := Suc numId,
             tr_pending := map_set numId \<lparr>pt_kind = kind, pt_callable = cb\<rparr> (tr_pending tr)\<rparr>, numId))"

definition stopNodeTimer :: "timers \<Rightarrow> nat \<Rightarrow> timers" where
  "stopNodeTimer tr numId = tr\<lparr>tr_armed := filter (\<lambda>x. fst x \<noteq> numId) (tr_armed tr)\<rparr>"

definition disposeAndStop :: "timers \<Rightarrow> nat \<Rightarrow> pending_timer \<Rightarrow> timers" where
  "disposeAndStop tr numId e = (stopNodeTimer tr numId)\<lparr>tr_ct := callable_dispose (tr_ct tr) (pt_callable e)\<rparr>"

definition timer_fire :: "timers \<Rightarrow> nat \<Rightarrow> timer_kind \<Rightarrow> timers" where
  "timer_fire tr numId kind =
     (case map_get (tr_pending tr) numId of
        None \<Rightarrow> tr
      | Some e \<Rightarrow>
          (case callable_invoke (tr_ct tr) (pt_callable e) [] of (ct, started) \<Rightarrow>
             let tr1 = tr\<lparr>tr_ct := ct, tr_events := tr_events tr @ [FireRequest kind numId started]\<rparr>
             in if kind = SetTimeout
                then tr1\<lparr>tr_pending := map_delete numId (tr_pending tr1), tr_ct := callable_dispose (tr_ct tr1) (pt_callable e)\<rparr>
                else tr1))"

definition node_timer_elapsed :: "timers \<Rightarrow> nat \<Rightarrow> timer_kind \<Rightarrow> timers" where
  \<comment> \<open>the host runs the callback of an armed timer; a timeout is armed no longer\<close>
  "node_timer_elapsed tr numId kind = timer_fire (if kind = SetTimeout then stopNodeTimer tr numId else tr) numId kind"

definition timer_cancel :: "timers \<Rightarrow> nat \<Rightarrow> timers" where
  "timer_cancel tr numId =
     (case map_get (tr_pending tr) numId of
        None \<Rightarrow> tr
      | Some e \<Rightarrow> (disposeAndStop tr numId e)\<lparr>tr_pending := map_delete numId (tr_pending tr)\<rparr>)"

definition clear_one :: "timers \<Rightarrow> nat \<times> pending_timer \<Rightarrow> timers" where
  "clear_one tr x =
     disposeAndStop (tr\<lparr>tr_events := tr_events tr @ [ClearCall (pt_kind (snd x)) (fst x)]\<rparr>) (fst x) (snd x)"

definition clearAllPending :: "timers \<Rightarrow> timers" where
  "clearAllPending tr = (foldl clear_one tr (tr_pending tr))\<lparr>tr_pending := []\<rparr>"

definition no_timers :: timers where
  "no_timers = \<lparr>tr_pending = [], tr_armed = [], tr_fresh = 1, tr_ct = no_callables, tr_events = []\<rparr>"

definition timer_set :: "timer_kind \<Rightarrow> timers \<Rightarrow> js_number \<Rightarrow> timers" where
  \<comment> \<open>the guest calls \<open>setTimeout\<close> or \<open>setInterval\<close>; its function arrives as a new callable\<close>
  "timer_set kind tr n =
     (case makeCallable (tr_ct tr) (Some (case kind of SetTimeout \<Rightarrow> ''setTimeout'' | SetInterval \<Rightarrow> ''setInterval'')) of
        (ct, cid) \<Rightarrow> fst (schedule_timer kind (tr\<lparr>tr_ct := ct\<rparr>) cid n))"

definition timers_run_finished :: "timers \<Rightarrow> timers" where
  \<comment> \<open>\<open>onRunFinished\<close>, then the audit and the restore\<close>
  "timers_run_finished tr = (let tr1 = clearAllPending tr in tr1\<lparr>tr_ct := ct_rebind (auditCallables (tr_ct tr1))\<rparr>)"

inductive timer_step :: "timers \<Rightarrow> timers \<Rightarrow> bool" where
  ts_set: "timer_step tr (timer_set kind tr n)"
| ts_elapsed: "(numId, kind, d) \<in> set (tr_armed tr) \<Longrightarrow> timer_step tr (node_timer_elapsed tr numId kind)"
| ts_clear: "timer_step tr (timer_cancel tr numId)"
| ts_settled: "k < length (ct_inflight (tr_ct tr)) \<Longrightarrow> timer_step tr (tr\<lparr>tr_ct := callable_end (tr_ct tr) k\<rparr>)"
| ts_finished: "timer_step tr (timers_run_finished tr)"

definition unsettled :: "callables \<Rightarrow> nat set" where
  "unsettled ct = {cid. cid < length (ct_callables ct) \<and> \<not> settled_callable (ct_callables ct ! cid)}"

fun fired_timeout :: "timer_event \<Rightarrow> nat list" where
  "fired_timeout (FireRequest SetTimeout numId started) = [numId]"
| "fired_timeout e = []"

fun fire_started :: "timer_event \<Rightarrow> bool" where
  "fire_started (FireRequest kind numId started) = (started = InvokeStarted)"
| "fire_started e = True"

definition timers_inv :: "timers \<Rightarrow> bool" where
  "timers_inv tr \<longleftrightarrow>
     callables_inv (tr_ct tr) \<and>
     map (\<lambda>(i, k, d). (i, k)) (tr_armed tr) = map (\<lambda>(i, e). (i, pt_kind e)) (tr_pending tr) \<and>
     distinct (keys (tr_pending tr)) \<and> (\<forall>i \<in> set (keys (tr_pending tr)). i < tr_fresh tr) \<and>
     distinct (map (\<lambda>x. pt_callable (snd x)) (tr_pending tr)) \<and>
     unsettled (tr_ct tr) = set (map (\<lambda>x. pt_callable (snd x)) (tr_pending tr)) \<and>
     list_all (\<lambda>(i, k, d). 0 \<le> d \<and> d \<le> INT32_MAX) (tr_armed tr) \<and>
     list_all fire_started (tr_events tr) \<and>
     distinct (concat (map fired_timeout (tr_events tr))) \<and>
     (\<forall>i \<in> set (concat (map fired_timeout (tr_events tr))). i < tr_fresh tr \<and> i \<notin> set (keys (tr_pending tr)))"

lemma timers_invD:
  assumes "timers_inv tr"
  shows "i \<in> set (keys (tr_pending tr)) \<Longrightarrow> i < tr_fresh tr"
    and "i \<in> set (concat (map fired_timeout (tr_events tr))) \<Longrightarrow> i < tr_fresh tr \<and> i \<notin> set (keys (tr_pending tr))"
  using assms unfolding timers_inv_def by (blast, blast)

lemma normaliseDelay_bounds: "0 \<le> normaliseDelay n \<and> normaliseDelay n \<le> INT32_MAX"
proof (cases n)
  case (Dyadic m k)
  have "m div 2 ^ k \<le> INT32_MAX" if "m \<le> INT32_MAX * 2 ^ k"
    using zdiv_mono1 [OF that, of "2 ^ k"] by simp
  with Dyadic show ?thesis by (auto simp: normaliseDelay_def INT32_MAX_def pos_imp_zdiv_nonneg_iff)
qed (simp add: normaliseDelay_def INT32_MAX_def)

lemma nth_updated: "j < length xs \<Longrightarrow> xs[i := x] ! j = (if j = i then x else xs ! j)"
  by simp

lemma unsettled_make: "unsettled (fst (makeCallable ct (Some d))) = insert (length (ct_callables ct)) (unsettled ct)"
  by (auto simp: unsettled_def makeCallable_def Let_def nth_append less_Suc_eq)

lemma unsettled_dispose: "unsettled (callable_dispose ct cid) = unsettled ct - {cid}"
  by (auto simp: unsettled_def callable_dispose_def release_dup_def upd_callable_def Let_def nth_updated split: if_splits)

lemma unsettled_invoke:
  "cid \<in> unsettled ct \<Longrightarrow> unsettled (fst (callable_invoke ct cid [])) = unsettled ct \<and> snd (callable_invoke ct cid []) = InvokeStarted"
  by (auto simp: unsettled_def callable_invoke_def upd_callable_def Let_def nth_updated split: if_splits)

lemma unsettled_end: "unsettled (callable_end ct k) = unsettled ct"
  by (auto simp: unsettled_def callable_end_def invokeFinally_def release_dup_def upd_callable_def Let_def nth_updated
      split: prod.split if_splits)

lemma unsettled_audit: "callables_inv ct \<Longrightarrow> unsettled (auditCallables ct) = {}"
  using audit_settles [of ct] by (auto simp: unsettled_def)

lemma pending_entry:
  assumes "timers_inv tr" and "map_get (tr_pending tr) i = Some e"
  shows "(i, e) \<in> set (tr_pending tr)" "pt_callable e \<in> unsettled (tr_ct tr)" "i < tr_fresh tr"
    "pt_callable e < length (ct_callables (tr_ct tr))"
proof -
  show mem: "(i, e) \<in> set (tr_pending tr)" using assms(2) by (rule map_of_SomeD)
  then show "pt_callable e \<in> unsettled (tr_ct tr)" "i < tr_fresh tr" using assms(1) unfolding timers_inv_def by force+
  then show "pt_callable e < length (ct_callables (tr_ct tr))" by (simp add: unsettled_def)
qed

lemma delete_filter: "map_delete k m = filter (\<lambda>x. fst x \<noteq> k) m"
  unfolding AList.delete_eq by (rule filter_cong) auto

lemma drop_pending:
  assumes "distinct (keys m)" and "map_get m i = Some e" and "distinct (map (\<lambda>x. pt_callable (snd x)) m)"
  shows "set (map (\<lambda>x. pt_callable (snd x)) (map_delete i m)) = set (map (\<lambda>x. pt_callable (snd x)) m) - {pt_callable e}"
    "distinct (map (\<lambda>x. pt_callable (snd x)) (map_delete i m))"
    "map (\<lambda>(i, k, d). (i, k)) armed = map (\<lambda>(i, e). (i, pt_kind e)) m \<Longrightarrow>
       map (\<lambda>(i, k, d). (i, k)) (filter (\<lambda>x. fst x \<noteq> i) armed) = map (\<lambda>(i, e). (i, pt_kind e)) (map_delete i m)"
proof -
  have mem: "(i, e) \<in> set m" using assms(2) by (rule map_of_SomeD)
  show "distinct (map (\<lambda>x. pt_callable (snd x)) (map_delete i m))"
    using assms(3) by (simp add: delete_filter distinct_map inj_on_def)
  have same: "j = i" if "(j, e') \<in> set m" "pt_callable e' = pt_callable e" for j e'
    using assms(3) mem that unfolding distinct_map inj_on_def by fastforce
  have other: "e' = e" if "(i, e') \<in> set m" for e' by (rule eq_key_imp_eq_value [OF assms(1) that mem])
  show "set (map (\<lambda>x. pt_callable (snd x)) (map_delete i m)) = set (map (\<lambda>x. pt_callable (snd x)) m) - {pt_callable e}"
  proof (intro set_eqI iffI)
    fix c assume "c \<in> set (map (\<lambda>x. pt_callable (snd x)) (map_delete i m))"
    then obtain j e' where "(j, e') \<in> set m" "j \<noteq> i" "c = pt_callable e'" by (auto simp: delete_filter)
    with same [of j e'] show "c \<in> set (map (\<lambda>x. pt_callable (snd x)) m) - {pt_callable e}" by force
  next
    fix c assume "c \<in> set (map (\<lambda>x. pt_callable (snd x)) m) - {pt_callable e}"
    then obtain j e' where "(j, e') \<in> set m" "c = pt_callable e'" "c \<noteq> pt_callable e" by auto
    with other [of e'] show "c \<in> set (map (\<lambda>x. pt_callable (snd x)) (map_delete i m))" by (force simp: delete_filter)
  qed
  assume "map (\<lambda>(i, k, d). (i, k)) armed = map (\<lambda>(i, e). (i, pt_kind e)) m"
  then have "filter (\<lambda>x. fst x \<noteq> i) (map (\<lambda>(i, k, d). (i, k)) armed) = filter (\<lambda>x. fst x \<noteq> i) (map (\<lambda>(i, e). (i, pt_kind e)) m)"
    by simp
  then show "map (\<lambda>(i, k, d). (i, k)) (filter (\<lambda>x. fst x \<noteq> i) armed) = map (\<lambda>(i, e). (i, pt_kind e)) (map_delete i m)"
    by (simp add: delete_filter filter_map comp_def case_prod_beta)
qed

lemma timers_set_inv: "timers_inv tr \<Longrightarrow> timers_inv (timer_set kind tr n)"
proof -
  assume inv: "timers_inv tr"
  let ?d = "case kind of SetTimeout \<Rightarrow> ''setTimeout'' | SetInterval \<Rightarrow> ''setInterval''"
  let ?cid = "length (ct_callables (tr_ct tr))"
  define ct where "ct = fst (makeCallable (tr_ct tr) (Some ?d))"
  have made: "makeCallable (tr_ct tr) (Some ?d) = (ct, ?cid)" by (simp add: ct_def makeCallable_def Let_def)
  have fresh: "tr_fresh tr \<notin> set (keys (tr_pending tr))" using inv unfolding timers_inv_def by blast
  have newc: "?cid \<notin> unsettled (tr_ct tr)" by (simp add: unsettled_def)
  have set: "timer_set kind tr n = tr\<lparr>tr_ct := ct, tr_armed := tr_armed tr @ [(tr_fresh tr, kind, normaliseDelay n)],
      tr_fresh := Suc (tr_fresh tr), tr_pending := tr_pending tr @ [(tr_fresh tr, \<lparr>pt_kind = kind, pt_callable = ?cid\<rparr>)]\<rparr>"
    by (simp add: timer_set_def made schedule_timer_def Let_def map_set_fresh [OF fresh])
  have "callables_inv ct" "unsettled ct = insert ?cid (unsettled (tr_ct tr))"
    using inv unfolding ct_def by (simp_all add: timers_inv_def inv_make unsettled_make)
  moreover have "\<forall>i \<in> set (concat (map fired_timeout (tr_events tr))). i < Suc (tr_fresh tr) \<and> i \<noteq> tr_fresh tr \<and> i \<notin> set (keys (tr_pending tr))"
    "\<forall>i \<in> set (keys (tr_pending tr)). i < Suc (tr_fresh tr)"
    using timers_invD [OF inv] less_SucI by (blast, blast)
  ultimately show ?thesis
    using inv fresh newc normaliseDelay_bounds [of n] unfolding timers_inv_def set by simp
qed

lemma timers_cancel_inv:
  assumes inv: "timers_inv tr"
  shows "timers_inv (timer_cancel tr i)"
proof (cases "map_get (tr_pending tr) i")
  case (Some e)
  note entry = pending_entry [OF inv Some]
  have facts: "distinct (keys (tr_pending tr))" "distinct (map (\<lambda>x. pt_callable (snd x)) (tr_pending tr))"
    "map (\<lambda>(i, k, d). (i, k)) (tr_armed tr) = map (\<lambda>(i, e). (i, pt_kind e)) (tr_pending tr)"
    using inv unfolding timers_inv_def by blast+
  note dropped = drop_pending [OF facts(1) Some facts(2)]
  have ct: "callables_inv (callable_dispose (tr_ct tr) (pt_callable e))"
    using inv entry(4) by (simp add: timers_inv_def inv_dispose_callable)
  have "unsettled (callable_dispose (tr_ct tr) (pt_callable e)) = set (map (\<lambda>x. pt_callable (snd x)) (map_delete i (tr_pending tr)))"
    using inv unfolding dropped(1) unsettled_dispose timers_inv_def by blast
  moreover have late: "\<forall>y \<in> set (tr_events tr). \<forall>j \<in> set (fired_timeout y). j < tr_fresh tr \<and> j \<notin> fst ` {x \<in> set (tr_pending tr). fst x \<noteq> i}"
    using timers_invD(2) [OF inv] by auto
  ultimately show ?thesis using inv ct dropped(2) dropped(3) [OF facts(3)]
    unfolding timer_cancel_def Some option.case disposeAndStop_def stopNodeTimer_def timers_inv_def
    by (simp add: delete_filter list_all_iff distinct_map_filter)
qed (simp add: timer_cancel_def inv)

lemma timers_elapsed_inv:
  assumes inv: "timers_inv tr" and armed: "(i, kind, d) \<in> set (tr_armed tr)"
  shows "timers_inv (node_timer_elapsed tr i kind)"
proof -
  have "(i, kind) \<in> set (map (\<lambda>(i, e). (i, pt_kind e)) (tr_pending tr))"
    using inv armed unfolding timers_inv_def by (metis (mono_tags, lifting) case_prod_conv image_eqI list.set_map)
  then obtain e where e: "(i, e) \<in> set (tr_pending tr)" "pt_kind e = kind" by auto
  with inv have get: "map_get (tr_pending tr) i = Some e" by (simp add: timers_inv_def)
  note entry = pending_entry [OF inv get]
  define ct where "ct = fst (callable_invoke (tr_ct tr) (pt_callable e) [])"
  have run: "callable_invoke (tr_ct tr) (pt_callable e) [] = (ct, InvokeStarted)" "unsettled ct = unsettled (tr_ct tr)"
    using unsettled_invoke [OF entry(2)] by (auto simp: ct_def prod_eq_iff)
  have ct: "callables_inv ct" using inv entry(4) by (simp add: ct_def timers_inv_def inv_invoke)
  show ?thesis
  proof (cases kind)
    case SetInterval
    have "node_timer_elapsed tr i kind = tr\<lparr>tr_ct := ct, tr_events := tr_events tr @ [FireRequest kind i InvokeStarted]\<rparr>"
      by (simp add: node_timer_elapsed_def timer_fire_def get run(1) SetInterval)
    with inv ct run(2) SetInterval show ?thesis by (simp add: timers_inv_def)
  next
    case SetTimeout
    let ?tr = "tr\<lparr>tr_ct := ct\<rparr>"
    have "timers_inv ?tr" using inv ct run(2) by (simp add: timers_inv_def)
    then have gone: "timers_inv (timer_cancel ?tr i)" by (rule timers_cancel_inv)
    have fire: "node_timer_elapsed tr i kind = (timer_cancel ?tr i)\<lparr>tr_events := tr_events tr @ [FireRequest SetTimeout i InvokeStarted]\<rparr>"
      by (simp add: node_timer_elapsed_def timer_fire_def timer_cancel_def get run(1) SetTimeout disposeAndStop_def stopNodeTimer_def)
    have frame: "tr_events (timer_cancel ?tr i) = tr_events tr" "tr_fresh (timer_cancel ?tr i) = tr_fresh tr"
      "i \<notin> set (keys (tr_pending (timer_cancel ?tr i)))"
      by (auto simp: timer_cancel_def get disposeAndStop_def stopNodeTimer_def delete_filter)
    have "i \<notin> set (concat (map fired_timeout (tr_events tr)))" using inv e(1) unfolding timers_inv_def by force
    with gone frame entry(3) show ?thesis unfolding fire timers_inv_def by simp
  qed
qed

lemma clear_one_frame:
  "tr_pending (foldl clear_one tr xs) = tr_pending tr" "tr_fresh (foldl clear_one tr xs) = tr_fresh tr"
  "tr_armed (foldl clear_one tr xs) = filter (\<lambda>x. fst x \<notin> set (keys xs)) (tr_armed tr)"
  "tr_ct (foldl clear_one tr xs) = foldl callable_dispose (tr_ct tr) (map (\<lambda>x. pt_callable (snd x)) xs)"
  "tr_events (foldl clear_one tr xs) = tr_events tr @ map (\<lambda>x. ClearCall (pt_kind (snd x)) (fst x)) xs"
  by (induction xs arbitrary: tr) (simp_all add: clear_one_def disposeAndStop_def stopNodeTimer_def conj_commute)

lemma unsettled_dispose_all: "unsettled (foldl callable_dispose ct cids) = unsettled ct - set cids"
  by (induction cids arbitrary: ct) (auto simp: unsettled_dispose)

lemma clear_all_clears:
  assumes inv: "timers_inv tr"
  shows "timers_inv (clearAllPending tr) \<and> tr_armed (clearAllPending tr) = [] \<and> unsettled (tr_ct (clearAllPending tr)) = {}"
proof -
  let ?ct = "foldl callable_dispose (tr_ct tr) (map (\<lambda>x. pt_callable (snd x)) (tr_pending tr))"
  have eqs: "unsettled (tr_ct tr) = set (map (\<lambda>x. pt_callable (snd x)) (tr_pending tr))"
    "map (\<lambda>(i, k, d). (i, k)) (tr_armed tr) = map (\<lambda>(i, e). (i, pt_kind e)) (tr_pending tr)" "callables_inv (tr_ct tr)"
    using inv unfolding timers_inv_def by blast+
  then have ct: "unsettled ?ct = {}" by (simp add: unsettled_dispose_all)
  have "set (map (\<lambda>x. pt_callable (snd x)) (tr_pending tr)) \<subseteq> {..< length (ct_callables (tr_ct tr))}"
    unfolding eqs(1) [symmetric] by (auto simp: unsettled_def)
  then have cinv: "callables_inv ?ct" by (rule inv_dispose_all [OF eqs(3)])
  have "map fst (map (\<lambda>(i, k, d). (i, k)) (tr_armed tr)) = map fst (map (\<lambda>(i, e). (i, pt_kind e)) (tr_pending tr))" by (simp only: eqs(2))
  then have "map fst (tr_armed tr) = keys (tr_pending tr)" by (simp add: comp_def case_prod_beta)
  then have keys: "set (map fst (tr_armed tr)) = set (keys (tr_pending tr))" by (simp only:)
  have armed: "filter (\<lambda>x. fst x \<notin> set (keys (tr_pending tr))) (tr_armed tr) = []"
    unfolding keys [symmetric] by (auto simp: filter_empty_conv)
  have events: "concat (map (fired_timeout \<circ> (\<lambda>x. ClearCall (pt_kind (snd x)) (fst x))) xs) = []" for xs :: "(nat \<times> pending_timer) list"
    by (induction xs) simp_all
  have quiet: "list_all fire_started (map (\<lambda>x. ClearCall (pt_kind (snd x)) (fst x)) xs)" for xs :: "(nat \<times> pending_timer) list"
    by (induction xs) simp_all
  show ?thesis
    using inv ct cinv armed unfolding clearAllPending_def timers_inv_def by (simp add: clear_one_frame events quiet)
qed

lemma timer_step_inv:
  assumes "timers_inv tr" and "timer_step tr tr'"
  shows "timers_inv tr'"
  using assms(2)
proof cases
  case ts_finished
  note cleared = clear_all_clears [OF assms(1)]
  then have "callables_inv (tr_ct (clearAllPending tr))" by (simp add: timers_inv_def)
  note audited = audit_settles [OF this] unsettled_audit [OF this]
  have rebound: "callables_inv (ct_rebind ct) = callables_inv ct" "unsettled (ct_rebind ct) = unsettled ct" for ct
    by (simp_all add: ct_rebind_def callables_inv_def callable_ok_def unsettled_def)
  have "tr_pending (clearAllPending tr) = []" by (simp add: clearAllPending_def)
  with cleared audited rebound ts_finished show ?thesis by (simp add: timers_run_finished_def Let_def timers_inv_def)
next
  case (ts_settled k)
  with assms(1) show ?thesis by (simp add: timers_inv_def inv_end unsettled_end)
qed (use assms(1) timers_set_inv timers_elapsed_inv timers_cancel_inv in auto)

interpretation timer_runs: invariant_system "\<lambda>tr. tr = no_timers" timer_step timers_inv
  by unfold_locales (simp add: timers_inv_def no_timers_def callables_inv_def no_callables_def unsettled_def, rule timer_step_inv)

text \<open>
  Whatever the guest schedules, clears and runs, a timeout fires at most once; every timer
  armed at the host is pending, with a delay between 0 and the largest 32-bit integer, and every
  pending timer is armed; a firing timer always finds its guest function alive. When a run is
  finished no timer is armed or pending, and each guest function the timers held is released
  or waits only for its invocations in progress.
\<close>

lemma timers_bounded_by_run:
  assumes "reach (\<lambda>tr. tr = no_timers) timer_step tr"
  shows "distinct (concat (map fired_timeout (tr_events tr))) \<and> list_all fire_started (tr_events tr) \<and>
    map fst (tr_armed tr) = keys (tr_pending tr) \<and> list_all (\<lambda>(i, k, d). 0 \<le> d \<and> d \<le> INT32_MAX) (tr_armed tr) \<and>
    (let tr' = timers_run_finished tr
     in tr_armed tr' = [] \<and> tr_pending tr' = [] \<and>
        list_all (\<lambda>cid. cb_releases (ct_callables (tr_ct tr') ! cid) = 1 \<or> cid \<in> set (map fst (ct_inflight (tr_ct tr'))))
          [0 ..< length (ct_callables (tr_ct tr'))])"
proof -
  have inv: "timers_inv tr" by (rule timer_runs.reach_inv [OF assms])
  then have "map fst (map (\<lambda>(i, k, d). (i, k)) (tr_armed tr)) = map fst (map (\<lambda>(i, e). (i, pt_kind e)) (tr_pending tr))"
    by (simp add: timers_inv_def)
  then have armed: "map fst (tr_armed tr) = keys (tr_pending tr)" by (simp add: comp_def case_prod_beta)
  let ?tr = "timers_run_finished tr"
  have inv': "timers_inv ?tr" by (rule timer_step_inv [OF inv ts_finished])
  have none: "tr_pending ?tr = []" by (simp add: timers_run_finished_def clearAllPending_def Let_def)
  with inv' have "tr_armed ?tr = []" "unsettled (tr_ct ?tr) = {}" "callables_inv (tr_ct ?tr)" by (simp_all add: timers_inv_def)
  moreover from this(2,3) have "cb_releases (ct_callables (tr_ct ?tr) ! cid) = 1 \<or> cid \<in> set (map fst (ct_inflight (tr_ct ?tr)))"
    if "cid < length (ct_callables (tr_ct ?tr))" for cid
    using that count_list_0_iff [of "map fst (ct_inflight (tr_ct ?tr))" cid]
    by (auto simp: callables_inv_def callable_ok_def unsettled_def)
  ultimately show ?thesis using inv armed none by (simp add: timers_inv_def Let_def list_all_iff)
qed

definition sample_timers :: timers where
  "sample_timers = node_timer_elapsed (timer_set SetInterval (timer_set SetTimeout no_timers (Dyadic 21 1)) NotFinite) 1 SetTimeout"

lemma timers_bounded_by_run_witness:
  "reach (\<lambda>tr. tr = no_timers) timer_step sample_timers \<and> concat (map fired_timeout (tr_events sample_timers)) = [1] \<and>
   keys (tr_pending sample_timers) = [2] \<and> tr_armed (timers_run_finished sample_timers) = []"
proof -
  note more = reach.reach_step [where init = "\<lambda>tr. tr = no_timers" and step = timer_step]
  have r1: "reach (\<lambda>tr. tr = no_timers) timer_step (timer_set SetTimeout no_timers (Dyadic 21 1))"
    by (rule more [OF reach_init ts_set]) simp
  have r: "reach (\<lambda>tr. tr = no_timers) timer_step sample_timers" unfolding sample_timers_def
    by (rule more [OF more [OF r1 ts_set] ts_elapsed [where d = 10]]) code_simp
  have "concat (map fired_timeout (tr_events sample_timers)) = [1]" "keys (tr_pending sample_timers) = [2]" by code_simp+
  with timers_bounded_by_run [OF r] r show ?thesis by (simp add: Let_def)
qed

text \<open>\<open>ToInt32\<close> would wrap a delay of \<open>2^32 + 5\<close> to 5; the code runs it at once.\<close>

lemma large_delay_not_wrapped: "normaliseDelay (Dyadic 4294967301 0) = 0"
  by code_simp

section \<open>Run-scoped handles\<close>

record run_handles =
  rh_open :: "nat list"
  rh_closed :: "nat list"

definition createRunScopedHandles :: run_handles where
  "createRunScopedHandles = \<lparr>rh_open = [], rh_closed = []\<rparr>"

definition rh_track :: "run_handles \<Rightarrow> nat \<Rightarrow> run_handles" where
  "rh_track r h = r\<lparr>rh_open := (if h \<in> set (rh_open r) then rh_open r else rh_open r @ [h])\<rparr>"

definition rh_release :: "run_handles \<Rightarrow> nat \<Rightarrow> run_handles" where
  "rh_release r h =
     (if h \<notin> set (rh_open r) then r
      else r\<lparr>rh_open := filter (\<lambda>x. x \<noteq> h) (rh_open r), rh_closed := rh_closed r @ [h]\<rparr>)"

definition rh_drain :: "run_handles \<Rightarrow> run_handles" where
  "rh_drain r = r\<lparr>rh_open := [], rh_closed := rh_closed r @ rh_open r\<rparr>"

inductive rh_step :: "run_handles \<Rightarrow> run_handles \<Rightarrow> bool" where
  rs_track: "h \<notin> set (rh_open r) \<Longrightarrow> h \<notin> set (rh_closed r) \<Longrightarrow> rh_step r (rh_track r h)" \<comment> \<open>a handle just acquired\<close>
| rs_release: "rh_step r (rh_release r h)"
| rs_drain: "rh_step r (rh_drain r)"

definition handles_inv :: "run_handles \<Rightarrow> bool" where
  "handles_inv r \<longleftrightarrow> distinct (rh_closed r @ rh_open r)"

interpretation run_handle_runs: invariant_system "\<lambda>r. r = createRunScopedHandles" rh_step handles_inv
proof unfold_locales
  show "handles_inv r" if "r = createRunScopedHandles" for r using that by (simp add: handles_inv_def createRunScopedHandles_def)
  show "handles_inv r'" if "handles_inv r" "rh_step r r'" for r r'
    using that(2,1) by cases (auto simp: handles_inv_def rh_track_def rh_release_def rh_drain_def)
qed

text \<open>However releases and drains interleave, a handle is closed at most once, and a drain leaves none open.\<close>

lemma handles_closed_once:
  assumes "reach (\<lambda>r. r = createRunScopedHandles) rh_step r"
  shows "distinct (rh_closed r) \<and> rh_open (rh_drain r) = [] \<and> set (rh_closed (rh_drain r)) = set (rh_closed r) \<union> set (rh_open r)"
  using run_handle_runs.reach_inv [OF assms] by (auto simp: handles_inv_def rh_drain_def)

end
