(* ===== verification/Boundary.thy ===== *)
theory Boundary
  imports Callables Sequencer Termination
begin

text \<open>
  The boundary between host and guest (\<open>packages/sandbox/src/bridge.ts\<close>,
  \<open>packages/sandbox/src/plugin.ts\<close>, \<open>packages/sandbox/src/guest-errors.ts\<close>): checking the
  arguments of a host function against its descriptor, marshalling its result, wrapping the
  call in events, and turning what it throws into an error of the guest.

  A handle is the value that \<open>vm.dump\<close> gives for it. A host error is the record \<open>bridge_err\<close>;
  \<open>be_props\<close> are its enumerable own properties and \<open>be_class\<close> is what the \<open>instanceof\<close> tests see.
  A descriptor's handler passes the state along, so that it may emit events and make calls of
  its own. \<open>boundary_env\<close> holds what the host engine supplies: the clock readings by number of
  posted events, the rendering of values in events and of thrown non-errors, and the stack
  text of an error constructed by the bridge.
\<close>

section \<open>Kinds of arguments and results\<close>

fun classify_value :: "hval \<Rightarrow> string" where
  "classify_value HNull = ''null''"
| "classify_value (HArr vs) = ''array''"
| "classify_value HUndefined = ''undefined''"
| "classify_value (HBool b) = ''boolean''"
| "classify_value (HNum n) = ''number''"
| "classify_value (HStr s) = ''string''"
| "classify_value HFunction = ''function''"
| "classify_value (HCallable c) = ''function''"
| "classify_value HSymbol = ''symbol''"
| "classify_value v = ''object''"

datatype arg_kind = AString | ANumber | ABoolean | AObject | AArray | ACallable | ARaw

fun PRIMITIVE_KIND_TO_JS_TYPE :: "arg_kind \<Rightarrow> string option" where
  "PRIMITIVE_KIND_TO_JS_TYPE AString = Some ''string''"
| "PRIMITIVE_KIND_TO_JS_TYPE ANumber = Some ''number''"
| "PRIMITIVE_KIND_TO_JS_TYPE ABoolean = Some ''boolean''"
| "PRIMITIVE_KIND_TO_JS_TYPE AObject = Some ''object''"
| "PRIMITIVE_KIND_TO_JS_TYPE AArray = Some ''array''"
| "PRIMITIVE_KIND_TO_JS_TYPE k = None" \<comment> \<open>\<open>callable\<close> and \<open>raw\<close> return before the table is read\<close>

datatype result_kind = RVoid | RString | RNumber | RBoolean | RObject | RArray | RRaw

section \<open>Errors\<close>

datatype err_class = GuestThrown | GuestSafe | HostOnly

record bridge_err =
  be_class :: err_class
  be_name :: string
  be_message :: string
  be_stack :: "string option"
  be_props :: "(string \<times> hval) list"

datatype raised = Raised bridge_err | RaisedValue hval

record boundary_env =
  bv_clock :: "nat \<Rightarrow> string \<times> int"
  bv_enc :: "hval \<Rightarrow> json"
  bv_text :: "hval \<Rightarrow> string"
  bv_stack :: string

definition quoted :: "string \<Rightarrow> string" where
  "quoted s = CHR 0x22 # s @ [CHR 0x22]"

definition GuestArgTypeMismatchError :: "boundary_env \<Rightarrow> string \<Rightarrow> nat \<Rightarrow> string \<Rightarrow> string \<Rightarrow> bridge_err" where
  "GuestArgTypeMismatchError env descriptorName argIndex expected received =
     \<lparr>be_class = GuestSafe, be_name = ''GuestArgTypeMismatchError'',
      be_message = ''guest function '' @ quoted descriptorName @ '' arg['' @ show_nat argIndex @ '']: expected '' @ expected @
        '', got '' @ received,
      be_stack = Some (bv_stack env),
      be_props = [(''name'', HStr ''GuestArgTypeMismatchError''), (''descriptorName'', HStr descriptorName),
        (''argIndex'', HNum (int argIndex)), (''expected'', HStr expected), (''received'', HStr received)]\<rparr>"

definition GuestValidationError :: "boundary_env \<Rightarrow> string \<Rightarrow> string \<Rightarrow> bridge_err" where
  "GuestValidationError env descriptorName message =
     \<lparr>be_class = GuestSafe, be_name = ''GuestValidationError'',
      be_message = ''guest function '' @ quoted descriptorName @ '': '' @ message, be_stack = Some (bv_stack env),
      be_props = [(''name'', HStr ''GuestValidationError''), (''descriptorName'', HStr descriptorName)]\<rparr>"

definition nested_promise_error :: "boundary_env \<Rightarrow> bridge_err" where
  "nested_promise_error env =
     \<lparr>be_class = HostOnly, be_name = ''Error'',
      be_message = ''safeHostToHandle: nested Promise not supported; await host-side before marshalling'',
      be_stack = Some (bv_stack env), be_props = []\<rparr>"

definition LF :: string where "LF = [CHR 0x0A]"

definition own_props :: "bridge_err \<Rightarrow> (string \<times> hval) list" where
  \<comment> \<open>\<open>Object.keys\<close> without \<open>name\<close>, \<open>message\<close> and \<open>stack\<close>\<close>
  "own_props e = filter (\<lambda>p. fst p \<notin> {''name'', ''message'', ''stack''}) (be_props e)"

definition sanitizeForGuest :: "raised \<Rightarrow> string \<Rightarrow> bridge_err" where
  "sanitizeForGuest err publicName =
     (let bridgeFrame = ''    at <bridge:'' @ publicName @ ''>'';
          opaque = (let message = publicName @ '' failed''
                    in \<lparr>be_class = HostOnly, be_name = ''BridgeError'', be_message = message,
                        be_stack = Some (''BridgeError: '' @ message @ LF @ bridgeFrame), be_props = [(''name'', HStr ''BridgeError'')]\<rparr>)
      in case err of
           RaisedValue v \<Rightarrow> opaque
         | Raised e \<Rightarrow>
             (case be_class e of
                GuestThrown \<Rightarrow>
                  (let existing = (case be_stack e of Some s \<Rightarrow> s | None \<Rightarrow> [])
                   in e\<lparr>be_stack := Some (if existing \<noteq> [] then existing @ LF @ bridgeFrame else bridgeFrame)\<rparr>)
              | GuestSafe \<Rightarrow>
                  (let message = (if be_message e \<noteq> [] then publicName @ '' failed: '' @ be_message e else publicName @ '' failed'')
                   in \<lparr>be_class = HostOnly, be_name = be_name e, be_message = message,
                       be_stack = Some (be_name e @ '': '' @ message @ LF @ bridgeFrame),
                       be_props = (''name'', HStr (be_name e)) # own_props e\<rparr>)
              | HostOnly \<Rightarrow> opaque))"

record guest_error =
  ge_name :: string
  ge_message :: string
  ge_stack :: string
  ge_props :: "(string \<times> hval) list"

definition extendedNewError :: "bridge_err \<Rightarrow> guest_error" where
  \<comment> \<open>\<open>vm.newError\<close> with the own properties copied; functions and symbols are skipped\<close>
  "extendedNewError e =
     \<lparr>ge_name = be_name e, ge_message = be_message e, ge_stack = (case be_stack e of Some s \<Rightarrow> s | None \<Rightarrow> []),
      ge_props = filter (\<lambda>p. classify_value (snd p) \<notin> {''function'', ''symbol''}) (own_props e)\<rparr>"

section \<open>Calling guest functions\<close>

record js_exception =
  jx_name :: hval
  jx_message :: string
  jx_stack :: "string option"

definition callGuestFn_error :: "boundary_env \<Rightarrow> js_exception \<Rightarrow> bridge_err" where
  \<comment> \<open>what \<open>callGuestFn\<close> makes of an exception of the guest; without a guest stack the new error keeps its own\<close>
  "callGuestFn_error env x =
     (let nm = (case jx_name x of HStr n \<Rightarrow> n | _ \<Rightarrow> ''Error'')
      in \<lparr>be_class = GuestThrown, be_name = nm,
          be_message = (if jx_message x = [] then ''guest function threw'' else jx_message x),
          be_stack = (case jx_stack x of Some (c # cs) \<Rightarrow> Some (c # cs) | _ \<Rightarrow> Some (bv_stack env)),
          be_props = [(''name'', HStr nm)]\<rparr>)"

definition detail_field :: "hval \<Rightarrow> string \<Rightarrow> hval option" where
  \<comment> \<open>\<open>detail?.key\<close>, \<open>None\<close> for \<open>undefined\<close>\<close>
  "detail_field v key =
     (case v of HObj fs \<Rightarrow> (case map_get fs key of Some HUndefined \<Rightarrow> None | other \<Rightarrow> other) | _ \<Rightarrow> None)"

definition awaitGuestResult_error :: "boundary_env \<Rightarrow> hval \<Rightarrow> bridge_err" where
  \<comment> \<open>what \<open>awaitGuestResult\<close> makes of a rejected promise\<close>
  "awaitGuestResult_error env detail =
     (let nm = (case detail_field detail ''name'' of Some (HStr (c # cs)) \<Rightarrow> c # cs | _ \<Rightarrow> ''GuestThrownError'')
      in \<lparr>be_class = GuestThrown, be_name = nm,
          be_message = (case detail_field detail ''message'' of
             Some HNull \<Rightarrow> ''guest callable rejected'' | Some (HStr m) \<Rightarrow> m | Some v \<Rightarrow> bv_text env v | None \<Rightarrow> ''guest callable rejected''),
          be_stack = (case detail_field detail ''stack'' of Some (HStr s) \<Rightarrow> Some s | Some v \<Rightarrow> Some (bv_text env v) | None \<Rightarrow> Some (bv_stack env)),
          be_props = [(''name'', HStr nm)]\<rparr>)"

datatype settlement = Fulfilled hval | EnvelopeOk hval | EnvelopeErr bridge_err | RejectedWith raised

datatype guest_call = GuestReturned hval | GuestThrew js_exception | GuestPromiseRejected hval | EngineFailed raised

definition invoke_outcome :: "boundary_env \<Rightarrow> guest_call \<Rightarrow> settlement" where
  \<comment> \<open>the promise of an invocation: an envelope for whatever the guest did, a rejection for an engine failure\<close>
  "invoke_outcome env c =
     (case c of
        GuestReturned v \<Rightarrow> EnvelopeOk v
      | GuestThrew x \<Rightarrow> EnvelopeErr (callGuestFn_error env x)
      | GuestPromiseRejected d \<Rightarrow> EnvelopeErr (awaitGuestResult_error env d)
      | EngineFailed err \<Rightarrow> RejectedWith err)"

section \<open>Events around a call\<close>

record open_request =
  or_prefix :: string
  or_name :: string
  or_input :: "hval option"
  or_callId :: nat

record boundary =
  bd_bridge :: bridge
  bd_counters :: limit_counters
  bd_ct :: callables
  bd_wire :: "wire_event list"
  bd_requests :: "open_request list"

datatype handler_result = Returns hval | Throws raised

definition defined :: "hval option \<Rightarrow> hval option" where
  "defined v = (if v = Some HUndefined then None else v)"

definition pluginEmit ::
  "boundary_env \<Rightarrow> boundary \<Rightarrow> string \<Rightarrow> string \<Rightarrow> emit_framing \<Rightarrow> hval option \<Rightarrow> hval option \<Rightarrow> event_error option \<Rightarrow> boundary \<times> nat" where
  "pluginEmit env b kind name framing input out err =
     (case buildEvent (bd_bridge b)
        \<lparr>ec_kind = kind, ec_name = name, ec_framing = framing, ec_input = map_option (bv_enc env) (defined input),
         ec_output = map_option (bv_enc env) (defined out), ec_error = err,
         ec_at = fst (bv_clock env (length (bd_wire b))), ec_ts = snd (bv_clock env (length (bd_wire b)))\<rparr> of
        (br, posted, callId) \<Rightarrow>
          (b\<lparr>bd_bridge := br, bd_wire := bd_wire b @ (case posted of None \<Rightarrow> [] | Some w \<Rightarrow> [w])\<rparr>, callId))"

definition serializeLifecycleError :: "boundary_env \<Rightarrow> raised \<Rightarrow> event_error" where
  "serializeLifecycleError env err =
     (case err of
        Raised e \<Rightarrow>
          \<lparr>err_message = be_message e, err_stack = Some (case be_stack e of Some s \<Rightarrow> s | None \<Rightarrow> []),
           err_issues = map_option (bv_enc env) (map_get (be_props e) ''issues''), err_kind = None\<rparr>
      | RaisedValue v \<Rightarrow> \<lparr>err_message = bv_text env v, err_stack = Some [], err_issues = None, err_kind = None\<rparr>)"

definition serializeCallableEnvelopeError :: "boundary_env \<Rightarrow> bridge_err \<Rightarrow> event_error" where
  \<comment> \<open>the fields of the event record; the payload's further own properties are not in it\<close>
  "serializeCallableEnvelopeError env e =
     \<lparr>err_message = be_message e, err_stack = Some (case be_stack e of Some s \<Rightarrow> s | None \<Rightarrow> []),
      err_issues = map_option (bv_enc env) (map_get (own_props e) ''issues''),
      err_kind = (case map_get (own_props e) ''kind'' of Some (HStr k) \<Rightarrow> Some k | _ \<Rightarrow> None)\<rparr>"

definition isPromiseLike :: "hval \<Rightarrow> bool" where
  "isPromiseLike v =
     (case v of HPromise p \<Rightarrow> True | HObj fs \<Rightarrow> map_get fs ''then'' = Some HFunction | _ \<Rightarrow> False)"

definition emitResponse :: "boundary_env \<Rightarrow> boundary \<Rightarrow> open_request \<Rightarrow> hval \<Rightarrow> boundary" where
  "emitResponse env b r out = fst (pluginEmit env b (or_prefix r @ ''.response'') (or_name r) (EClose (or_callId r)) (or_input r) (Some out) None)"

definition emitError :: "boundary_env \<Rightarrow> boundary \<Rightarrow> open_request \<Rightarrow> event_error \<Rightarrow> boundary" where
  "emitError env b r err = fst (pluginEmit env b (or_prefix r @ ''.error'') (or_name r) (EClose (or_callId r)) (or_input r) None (Some err))"

definition pluginRequest ::
  "boundary_env \<Rightarrow> boundary \<Rightarrow> string \<Rightarrow> string \<Rightarrow> hval option \<Rightarrow> (boundary \<Rightarrow> boundary \<times> handler_result) \<Rightarrow> boundary \<times> handler_result" where
  "pluginRequest env b prefix name input fn =
     (case pluginEmit env b (prefix @ ''.request'') name EOpen input None None of
        (b1, callId) \<Rightarrow>
          let r = \<lparr>or_prefix = prefix, or_name = name, or_input = input, or_callId = callId\<rparr>
          in case fn b1 of
               (b2, Throws err) \<Rightarrow> (emitError env b2 r (serializeLifecycleError env err), Throws err)
             | (b2, Returns v) \<Rightarrow>
                 if \<not> isPromiseLike v then (emitResponse env b2 r v, Returns v)
                 else (b2\<lparr>bd_counters := enterPendingCallable (bd_counters b2), bd_requests := bd_requests b2 @ [r]\<rparr>, Returns v))"

definition request_settled :: "boundary_env \<Rightarrow> boundary \<Rightarrow> nat \<Rightarrow> settlement \<Rightarrow> boundary" where
  \<comment> \<open>the continuations \<open>pluginRequest\<close> attaches to the handler's promise\<close>
  "request_settled env b k s =
     (let r = bd_requests b ! k;
          b1 = b\<lparr>bd_counters := exitPendingCallable (bd_counters b), bd_requests := splice1 k (bd_requests b)\<rparr>
      in case s of
           Fulfilled v \<Rightarrow> emitResponse env b1 r v
         | EnvelopeOk v \<Rightarrow> emitResponse env b1 r v
         | EnvelopeErr e \<Rightarrow> emitError env b1 r (serializeCallableEnvelopeError env e)
         | RejectedWith err \<Rightarrow> emitError env b1 r (serializeLifecycleError env err))"

section \<open>The host function trampoline\<close>

datatype log_config = LogEvent string | LogRequest string

record descriptor =
  df_name :: string
  df_publicName :: "string option"
  df_args :: "arg_kind list"
  df_result :: result_kind
  df_log :: "log_config option"
  df_logName :: "(hval list \<Rightarrow> string) option"
  df_logInput :: "(hval list \<Rightarrow> hval) option"
  df_handler :: "hval list \<Rightarrow> boundary \<Rightarrow> boundary \<times> handler_result"

definition assertMatchesKind :: "boundary_env \<Rightarrow> string \<Rightarrow> nat \<Rightarrow> arg_kind \<Rightarrow> hval \<Rightarrow> bridge_err option" where
  "assertMatchesKind env descriptorName idx kind v =
     (case PRIMITIVE_KIND_TO_JS_TYPE kind of
        None \<Rightarrow> None
      | Some expected \<Rightarrow>
          if classify_value v \<noteq> expected
          then Some (GuestArgTypeMismatchError env descriptorName idx expected (classify_value v)) else None)"

fun unmarshal_from ::
  "boundary_env \<Rightarrow> string \<Rightarrow> nat \<Rightarrow> callables \<Rightarrow> arg_kind list \<Rightarrow> hval list \<Rightarrow> callables \<times> (bridge_err + hval list)" where
  "unmarshal_from env d i ct [] handles = (ct, Inr [])"
| "unmarshal_from env d i ct (spec # specs) [] = (ct, Inr (map (\<lambda>_. HUndefined) (spec # specs)))"
| "unmarshal_from env d i ct (spec # specs) (h # hs) =
     (if spec = ACallable then
        (case makeCallable ct (Some d) of (ct1, cid) \<Rightarrow>
           (case unmarshal_from env d (Suc i) ct1 specs hs of
              (ct2, Inl e) \<Rightarrow> (ct2, Inl e)
            | (ct2, Inr out) \<Rightarrow> (ct2, Inr (HCallable cid # out))))
      else (case assertMatchesKind env d i spec h of
              Some e \<Rightarrow> (ct, Inl e)
            | None \<Rightarrow>
                (case unmarshal_from env d (Suc i) ct specs hs of
                   (ct2, Inl e) \<Rightarrow> (ct2, Inl e)
                 | (ct2, Inr out) \<Rightarrow> (ct2, Inr (h # out)))))"

definition unmarshalArgs :: "boundary_env \<Rightarrow> callables \<Rightarrow> string \<Rightarrow> arg_kind list \<Rightarrow> hval list \<Rightarrow> callables \<times> (bridge_err + hval list)" where
  "unmarshalArgs env ct descriptorName specs handles = unmarshal_from env descriptorName 0 ct specs handles"

definition expect_result :: "boundary_env \<Rightarrow> string \<Rightarrow> string \<Rightarrow> hval \<Rightarrow> bridge_err + hval" where
  "expect_result env d expected v =
     (if classify_value v = expected then Inr v
      else Inl (GuestValidationError env d (''result: expected '' @ expected @ '', got '' @ classify_value v)))"

definition marshalResult :: "boundary_env \<Rightarrow> string \<Rightarrow> result_kind \<Rightarrow> hval \<Rightarrow> bridge_err + hval" where
  "marshalResult env d kind v =
     (case kind of
        RVoid \<Rightarrow> Inr HUndefined
      | RString \<Rightarrow> expect_result env d ''string'' v
      | RNumber \<Rightarrow> expect_result env d ''number'' v
      | RBoolean \<Rightarrow> expect_result env d ''boolean'' v
      | _ \<Rightarrow> if marshalArg v = None then Inl (nested_promise_error env) else Inr v)"

definition resolveLog :: "descriptor \<Rightarrow> log_config" where
  "resolveLog d = (case df_log d of Some l \<Rightarrow> l | None \<Rightarrow> LogRequest (df_name d))"

definition public_name :: "descriptor \<Rightarrow> string" where
  "public_name d = (case df_publicName d of Some p \<Rightarrow> p | None \<Rightarrow> df_name d)"

definition buildHandler :: "boundary_env \<Rightarrow> descriptor \<Rightarrow> hval list \<Rightarrow> boundary \<Rightarrow> boundary \<times> (guest_error + hval)" where
  \<comment> \<open>\<open>Inl\<close>: the exception the guest catches\<close>
  "buildHandler env d handles b =
     (let fail = (\<lambda>err. Inl (extendedNewError (sanitizeForGuest err (public_name d))));
          finish = (\<lambda>(b', res). (b',
             case res of
               Throws err \<Rightarrow> fail err
             | Returns raw \<Rightarrow> (case marshalResult env (df_name d) (df_result d) raw of Inl e \<Rightarrow> fail (Raised e) | Inr v \<Rightarrow> Inr v)))
      in case unmarshalArgs env (bd_ct b) (df_name d) (df_args d) handles of
           (ct, Inl e) \<Rightarrow> (b\<lparr>bd_ct := ct\<rparr>, fail (Raised e))
         | (ct, Inr args) \<Rightarrow>
             let b1 = b\<lparr>bd_ct := ct\<rparr>;
                 eventName = (case df_logName d of Some f \<Rightarrow> f args | None \<Rightarrow> df_name d);
                 eventInput = (case df_logInput d of Some f \<Rightarrow> f args | None \<Rightarrow> HArr args)
             in case resolveLog d of
                  LogEvent kind \<Rightarrow>
                    finish (df_handler d args (fst (pluginEmit env b1 kind eventName ELeaf (Some eventInput) None None)))
                | LogRequest prefix \<Rightarrow>
                    finish (pluginRequest env b1 prefix eventName (Some eventInput) (df_handler d args)))"

section \<open>Promises returned to the guest\<close>

datatype guest_settlement = GuestResolved hval | GuestRejected raised | GuestNeverSettles

definition deferred_settled :: "raised + hval \<Rightarrow> guest_settlement" where
  \<comment> \<open>the continuations of \<open>safeHostToHandle\<close>: an exception of the marshalling is dropped\<close>
  "deferred_settled s =
     (case s of
        Inr v \<Rightarrow> if safeHostToHandle v then GuestResolved v else GuestNeverSettles
      | Inl err \<Rightarrow> GuestRejected err)"

section \<open>What a failing host function shows the guest\<close>

definition shown_props :: "bridge_err \<Rightarrow> (string \<times> hval) list" where
  "shown_props e = filter (\<lambda>p. classify_value (snd p) \<notin> {''function'', ''symbol''}) (own_props e)"

definition guest_part :: "raised \<Rightarrow> (string \<times> string \<times> string option \<times> (string \<times> hval) list) option" where
  \<comment> \<open>what an error may tell the guest: all of a guest's own error, the name, message and fields of
     an error made for guests, nothing of any other\<close>
  "guest_part err =
     (case err of
        RaisedValue v \<Rightarrow> None
      | Raised e \<Rightarrow>
          (case be_class e of
             GuestThrown \<Rightarrow> Some (be_name e, be_message e, Some (case be_stack e of Some s \<Rightarrow> s | None \<Rightarrow> []), shown_props e)
           | GuestSafe \<Rightarrow> Some (be_name e, be_message e, None, shown_props e)
           | HostOnly \<Rightarrow> None))"

definition same_for_guest :: "handler_result \<Rightarrow> handler_result \<Rightarrow> bool" where
  "same_for_guest r r' =
     (case (r, r') of
        (Returns v, Returns v') \<Rightarrow> v = v'
      | (Throws err, Throws err') \<Rightarrow> guest_part err = guest_part err'
      | _ \<Rightarrow> False)"

lemma own_props_frame [simp]:
  "own_props (e\<lparr>be_stack := st\<rparr>) = own_props e" "own_props (e\<lparr>be_props := (''name'', v) # own_props e\<rparr>) = own_props e"
  by (simp_all add: own_props_def)

lemma sanitized_guest_part:
  assumes "guest_part err = guest_part err'"
  shows "extendedNewError (sanitizeForGuest err p) = extendedNewError (sanitizeForGuest err' p)"
proof -
  have fields: "own_props \<lparr>be_class = cl, be_name = nm, be_message = ms, be_stack = st, be_props = (''name'', v) # own_props e\<rparr> = own_props e"
    "own_props \<lparr>be_class = cl, be_name = nm, be_message = ms, be_stack = st, be_props = [(''name'', v)]\<rparr> = []" for cl nm ms st v e
    by (simp_all add: own_props_def)
  show ?thesis
    using assms
    by (cases err; cases err') (auto simp: guest_part_def sanitizeForGuest_def extendedNewError_def shown_props_def Let_def fields
        split: err_class.splits)
qed

lemma unmarshal_stack:
  "rel_prod (=) (rel_sum (\<lambda>e e'. guest_part (Raised e) = guest_part (Raised e')) (=))
     (unmarshal_from env d i ct specs handles) (unmarshal_from (env\<lparr>bv_stack := st\<rparr>) d i ct specs handles)"
proof (induction specs arbitrary: i ct handles)
  case (Cons spec specs)
  show ?case
  proof (cases handles)
    case (Cons h hs)
    have "rel_option (\<lambda>e e'. guest_part (Raised e) = guest_part (Raised e'))
        (assertMatchesKind env d i spec h) (assertMatchesKind (env\<lparr>bv_stack := st\<rparr>) d i spec h)"
      by (auto simp: assertMatchesKind_def GuestArgTypeMismatchError_def guest_part_def shown_props_def own_props_def split: option.split)
    moreover obtain ct1 cid where "makeCallable ct (Some d) = (ct1, cid)" by fastforce
    ultimately show ?thesis
      using Cons Cons.IH [of "Suc i" ct hs] Cons.IH [of "Suc i" ct1 hs]
      by (cases "assertMatchesKind env d i spec h"; cases "assertMatchesKind (env\<lparr>bv_stack := st\<rparr>) d i spec h")
        (auto split: prod.split sum.split elim: rel_sum.cases)
  qed simp
qed simp

lemma emit_stack [simp]: "pluginEmit (env\<lparr>bv_stack := st\<rparr>) = pluginEmit env"
  by (simp add: pluginEmit_def fun_eq_iff)

lemma request_result:
  "snd (pluginRequest env b prefix name input fn) = snd (fn (fst (pluginEmit env b (prefix @ ''.request'') name EOpen input None None)))"
  by (simp add: pluginRequest_def Let_def split: prod.split handler_result.split)

definition guest_outcome :: "boundary_env \<Rightarrow> descriptor \<Rightarrow> handler_result \<Rightarrow> guest_error + hval" where
  "guest_outcome env d res =
     (case res of
        Throws err \<Rightarrow> Inl (extendedNewError (sanitizeForGuest err (public_name d)))
      | Returns raw \<Rightarrow>
          (case marshalResult env (df_name d) (df_result d) raw of
             Inl e \<Rightarrow> Inl (extendedNewError (sanitizeForGuest (Raised e) (public_name d)))
           | Inr v \<Rightarrow> Inr v))"

definition call_entered :: "boundary_env \<Rightarrow> descriptor \<Rightarrow> boundary \<Rightarrow> hval list \<Rightarrow> boundary" where
  \<comment> \<open>the state the handler starts in\<close>
  "call_entered env d b args =
     (let eventName = (case df_logName d of Some f \<Rightarrow> f args | None \<Rightarrow> df_name d);
          eventInput = (case df_logInput d of Some f \<Rightarrow> f args | None \<Rightarrow> HArr args)
      in case resolveLog d of
           LogEvent kind \<Rightarrow> fst (pluginEmit env b kind eventName ELeaf (Some eventInput) None None)
         | LogRequest prefix \<Rightarrow> fst (pluginEmit env b (prefix @ ''.request'') eventName EOpen (Some eventInput) None None))"

lemma build_handler_outcome:
  "snd (buildHandler env d handles b) =
     (case unmarshalArgs env (bd_ct b) (df_name d) (df_args d) handles of
        (ct, Inl e) \<Rightarrow> Inl (extendedNewError (sanitizeForGuest (Raised e) (public_name d)))
      | (ct, Inr args) \<Rightarrow>
          guest_outcome env d (snd (df_handler d args (call_entered env d (b\<lparr>bd_ct := ct\<rparr>) args))))"
  by (simp add: buildHandler_def guest_outcome_def call_entered_def Let_def request_result case_prod_beta split: sum.split log_config.split)

lemma guest_outcome_same:
  assumes "same_for_guest r r'"
  shows "guest_outcome env d r = guest_outcome (env\<lparr>bv_stack := st\<rparr>) d r'"
proof -
  have result: "rel_sum (\<lambda>e e'. guest_part (Raised e) = guest_part (Raised e')) (=)
      (marshalResult env (df_name d) (df_result d) v) (marshalResult (env\<lparr>bv_stack := st\<rparr>) (df_name d) (df_result d) v)" for v
    by (auto simp: marshalResult_def expect_result_def GuestValidationError_def nested_promise_error_def guest_part_def
        shown_props_def own_props_def split: result_kind.split)
  show ?thesis
  proof (cases r)
    case (Returns v)
    with assms have "r' = Returns v" by (simp add: same_for_guest_def split: handler_result.splits)
    with Returns result [of v] show ?thesis 
      by (auto simp: guest_outcome_def elim!: rel_sum.cases intro: sanitized_guest_part)
  next
    case (Throws err)
    with assms obtain err' where "r' = Throws err'" "guest_part err = guest_part err'"
      by (auto simp: same_for_guest_def split: handler_result.splits)
    then show ?thesis using sanitized_guest_part [of err err'] by (simp only: guest_outcome_def Throws handler_result.case)
  qed
qed


definition sample_descriptor :: "handler_result \<Rightarrow> descriptor" where
  "sample_descriptor res =
     \<lparr>df_name = ''$probe'', df_publicName = Some ''probe'', df_args = [AString], df_result = RRaw, df_log = None, df_logName = None,
      df_logInput = None, df_handler = (\<lambda>args b. (b, res))\<rparr>"

definition sample_host_error :: "string \<Rightarrow> bridge_err" where
  "sample_host_error path =
     \<lparr>be_class = HostOnly, be_name = ''Error'', be_message = ''ENOENT: '' @ path, be_stack = Some (''at '' @ path), be_props = [(''path'', HStr path)]\<rparr>"

definition sample_boundary_env :: boundary_env where
  "sample_boundary_env = \<lparr>bv_clock = (\<lambda>n. ([], int n)), bv_enc = (\<lambda>v. JNull), bv_text = (\<lambda>v. ''value''), bv_stack = ''at /opt/app/bridge.ts''\<rparr>"

definition sample_boundary :: boundary where
  "sample_boundary = \<lparr>bd_bridge = \<lparr>nextCallId = 0, b_runActive = True\<rparr>, bd_counters = initial_counters, bd_ct = no_callables, bd_wire = [], bd_requests = []\<rparr>"


text \<open>
  The rule covers a handler that throws. The promise of an asynchronous handler is settled by
  \<open>safeHostToHandle\<close>, which passes the rejection on as it is.
\<close>

lemma async_rejection_not_sanitized:
  "deferred_settled (Inl (Raised (sample_host_error ''/etc/secret''))) \<noteq> deferred_settled (Inl (Raised (sample_host_error ''/var/db'')))"
  by (simp add: deferred_settled_def sample_host_error_def)

text \<open>
  A guest function that rejects with something other than an error object has no stack of its own;
  the error made for it keeps the stack of the host, and the rule above appends to that.
\<close>

lemma stackless_rejection_shows_host_stack:
  "ge_stack (extendedNewError (sanitizeForGuest (Raised (awaitGuestResult_error sample_boundary_env (HStr ''no''))) ''__sdk.dispatchAction'')) =
     ''at /opt/app/bridge.ts'' @ LF @ ''    at <bridge:__sdk.dispatchAction>''"
  by code_simp

text \<open>A promise that resolves to a value which cannot be marshalled leaves the guest waiting for ever.\<close>

lemma unmarshallable_resolution_hangs: "deferred_settled (Inr (HObj [(''rows'', HPromise 1)])) = GuestNeverSettles"
  by code_simp

section \<open>Arguments reach a handler checked\<close>

definition arg_ok :: "arg_kind \<Rightarrow> hval option \<Rightarrow> hval \<Rightarrow> bool" where
  \<comment> \<open>a missing argument is \<open>undefined\<close> whatever its kind\<close>
  "arg_ok spec handle a =
     (case handle of
        None \<Rightarrow> a = HUndefined
      | Some h \<Rightarrow>
          if spec = ACallable then \<exists>cid. a = HCallable cid
          else a = h \<and> (case PRIMITIVE_KIND_TO_JS_TYPE spec of Some t \<Rightarrow> classify_value a = t | None \<Rightarrow> True))"

abbreviation handle_at :: "hval list \<Rightarrow> nat \<Rightarrow> hval option" where
  "handle_at handles k \<equiv> if k < length handles then Some (handles ! k) else None"

lemma unmarshalled_args:
  "unmarshal_from env d i ct specs handles = (ct', Inr args) \<Longrightarrow>
     length args = length specs \<and> (\<forall>k < length specs. arg_ok (specs ! k) (handle_at handles k) (args ! k))"
proof (induction specs arbitrary: i ct handles args)
  case (Cons spec specs)
  show ?case
  proof (cases handles)
    case Nil
    with Cons.prems show ?thesis by (auto simp: nth_Cons arg_ok_def split: nat.split)
  next
    case (Cons h hs)
    obtain ct1 cid where made: "makeCallable ct (Some d) = (ct1, cid)" by fastforce
    define ct2 where "ct2 = (if spec = ACallable then ct1 else ct)"
    define a where "a = (if spec = ACallable then HCallable cid else h)"
    from Cons.prems Cons made obtain out where out: "unmarshal_from env d (Suc i) ct2 specs hs = (ct', Inr out)" "args = a # out"
      and chk: "spec \<noteq> ACallable \<Longrightarrow> assertMatchesKind env d i spec h = None"
      by (auto simp: ct2_def a_def split: prod.splits sum.splits if_splits option.splits)
    have head: "arg_ok spec (Some h) a"
      using chk by (cases spec) (auto simp: a_def arg_ok_def assertMatchesKind_def split: if_splits)
    from Cons.IH [OF out(1)] have tail: "length out = length specs" "\<And>k. k < length specs \<Longrightarrow> arg_ok (specs ! k) (handle_at hs k) (out ! k)"
      by blast+
    have "\<forall>k < length (spec # specs). arg_ok ((spec # specs) ! k) (handle_at (h # hs) k) ((a # out) ! k)"
    proof (intro allI impI)
      fix k assume "k < length (spec # specs)"
      then show "arg_ok ((spec # specs) ! k) (handle_at (h # hs) k) ((a # out) ! k)"
        using head tail(2) [of "k - 1"] by (cases k) (simp_all split: if_splits)
    qed
    moreover have "length (a # out) = length (spec # specs)" using tail(1) by simp
    ultimately show ?thesis unfolding out(2) Cons by (rule conjI [rotated])
  qed
qed simp

lemma refused_args: "unmarshal_from env d i ct specs handles = (ct', Inl e) \<Longrightarrow> be_class e = GuestSafe"
proof (induction specs arbitrary: i ct handles)
  case (Cons spec specs)
  show ?case
  proof (cases handles)
    case Nil
    with Cons.prems show ?thesis by simp
  next
    case (Cons h hs)
    obtain ct1 cid where made: "makeCallable ct (Some d) = (ct1, cid)" by fastforce
    show ?thesis
    proof (cases "spec \<noteq> ACallable \<and> assertMatchesKind env d i spec h \<noteq> None")
      case True
      with Cons.prems Cons have "assertMatchesKind env d i spec h = Some e" by auto
      then show ?thesis by (auto simp: assertMatchesKind_def GuestArgTypeMismatchError_def split: option.splits if_splits)
    next
      case False
      with Cons.prems Cons made obtain ct2 where "unmarshal_from env d (Suc i) ct2 specs hs = (ct', Inl e)"
        by (auto split: if_splits prod.splits sum.splits)
      then show ?thesis by (rule Cons.IH)
    qed
  qed
qed simp


section \<open>Events of a call\<close>

text \<open>
  A request that ends before it returns posts its opening event, what the handler posts, and
  one closing event with the same call id, when the run is active throughout; the handler's
  result is passed on unchanged.
\<close>

lemma sync_request_framed:
  assumes "b_runActive (bd_bridge b)" and "fn (fst (pluginEmit env b (prefix @ ''.request'') name EOpen input None None)) = (b2, res)"
    and "b_runActive (bd_bridge b2)" and "bd_wire b2 = bd_wire b @ opening # inner" and "case res of Returns v \<Rightarrow> \<not> isPromiseLike v | Throws _ \<Rightarrow> True"
  shows "\<exists>closing. bd_wire (fst (pluginRequest env b prefix name input fn)) = bd_wire b @ opening # inner @ [closing] \<and>
      w_type closing = Close (nextCallId (bd_bridge b)) \<and>
      w_kind closing = prefix @ (case res of Returns _ \<Rightarrow> ''.response'' | Throws _ \<Rightarrow> ''.error'') \<and>
      snd (pluginRequest env b prefix name input fn) = res"
proof -
  define r where "r = \<lparr>or_prefix = prefix, or_name = name, or_input = input, or_callId = nextCallId (bd_bridge b)\<rparr>"
  let ?em = "pluginEmit env b (prefix @ ''.request'') name EOpen input None None"
  have callId: "snd ?em = nextCallId (bd_bridge b)" using assms(1) by (simp add: pluginEmit_def buildEvent_def)
  obtain b1 where em: "?em = (b1, nextCallId (bd_bridge b))" using callId by (metis prod.collapse)
  with assms(2) have fn: "fn b1 = (b2, res)" by simp
  have close: "\<exists>closing. bd_wire (fst (pluginEmit env b2 kind nm (EClose c) inp out err)) = bd_wire b2 @ [closing] \<and>
      w_type closing = Close c \<and> w_kind closing = kind" for kind nm c inp out err
    using assms(3) by (simp add: pluginEmit_def buildEvent_def)
  show ?thesis
  proof (cases res)
    case (Returns v)
    with assms(5) fn have run: "pluginRequest env b prefix name input fn = (emitResponse env b2 r v, Returns v)"
      by (simp add: pluginRequest_def em r_def)
    from close [of "prefix @ ''.response''" name "nextCallId (bd_bridge b)" input "Some v" None] Returns assms(4) show ?thesis
      unfolding run by (auto simp: emitResponse_def r_def)
  next
    case (Throws err)
    with fn have run: "pluginRequest env b prefix name input fn = (emitError env b2 r (serializeLifecycleError env err), Throws err)"
      by (simp add: pluginRequest_def em r_def)
    from close [of "prefix @ ''.error''" name "nextCallId (bd_bridge b)" input None "Some (serializeLifecycleError env err)"] Throws assms(4) show ?thesis
      unfolding run by (auto simp: emitError_def r_def)
  qed
qed

text \<open>
  A request that outlives its run closes a frame of the next one: its call id is the next run's
  trigger frame when both are the first of their run.
\<close>

lemma late_settlement_closes_next_run:
  "let first = fst (pluginRequest sample_boundary_env sample_boundary ''sql'' ''query'' None (\<lambda>b. (b, Returns (HPromise 0))));
       second = first\<lparr>bd_bridge := setRunActive (resetCallIds (clearRunActive (bd_bridge first))), bd_wire := []\<rparr>;
       opened = fst (pluginEmit sample_boundary_env second ''trigger.request'' ''t'' EOpen None None None);
       late = request_settled sample_boundary_env opened 0 (Fulfilled HNull)
   in map (\<lambda>w. (w_kind w, w_type w)) (bd_wire late) = [(''trigger.request'', Open 0), (''sql.response'', Close 0)]"
  by code_simp

end
