(* ===== verification/ActionDispatch.thy ===== *)
theory ActionDispatch
  imports Boundary Triggers
begin

text \<open>
  The plugins that run inside every workflow sandbox: schema validation of actions
  (\<open>packages/runtime/src/plugins/host-call-action.ts\<close>), the action dispatcher
  (\<open>action-dispatch.ts\<close>) and the trigger frame (\<open>trigger.ts\<close>).

  \<open>z.fromJSONSchema\<close> is the parameter \<open>zod\<close>, from a schema to its \<open>safeParse\<close>, and
  \<open>JSON.stringify\<close> the parameter \<open>stringify\<close>; the conversion of validator issues is that of the
  trigger validator, whose code is the same. The dispatcher is asynchronous: it runs up to the
  invocation of the guest's handler (\<open>dispatch_start\<close>) and continues with its envelope
  (\<open>dispatch_resume\<close>).
\<close>

section \<open>Validation of action inputs and outputs\<close>

record action_config =
  inputSchemas :: "(string \<times> json) list"
  outputSchemas :: "(string \<times> json) list"

type_synonym validators = "(string, safe_parse) jsmap"

definition rehydrateValidators :: "(json \<Rightarrow> safe_parse) \<Rightarrow> (string \<times> json) list \<Rightarrow> validators" where
  "rehydrateValidators zod schemas = foldl (\<lambda>vs (actionName, schema). map_set actionName (zod schema) vs) [] schemas"

datatype validator_throw =
    UndeclaredAction string                     \<comment> \<open>\<open>GuestSafeError\<close>\<close>
  | InvalidValueThrown string "validation_issue list"  \<comment> \<open>\<open>ValidationError\<close>\<close>

definition runValidator :: "validators \<Rightarrow> string \<Rightarrow> json \<Rightarrow> string \<Rightarrow> validator_throw + json" where
  "runValidator vs actionName v errorLabel =
     (case map_get vs actionName of
        None \<Rightarrow> Inl (UndeclaredAction (''action '' @ quoted actionName @ '' is not declared''))
      | Some parse \<Rightarrow>
          (case parse v of
             Inr d \<Rightarrow> Inr d
           | Inl issues \<Rightarrow> Inl (InvalidValueThrown errorLabel (zodIssuesToValidationIssues issues (Some v)))))"

record action_validators =
  av_input :: validators
  av_output :: validators

definition hostCallAction :: "(json \<Rightarrow> safe_parse) \<Rightarrow> action_config \<Rightarrow> action_validators" where
  \<comment> \<open>\<open>worker()\<close> of \<open>host-call-action\<close>\<close>
  "hostCallAction zod cfg =
     \<lparr>av_input = rehydrateValidators zod (inputSchemas cfg), av_output = rehydrateValidators zod (outputSchemas cfg)\<rparr>"

definition validateAction :: "action_validators \<Rightarrow> string \<Rightarrow> json \<Rightarrow> validator_throw option" where
  "validateAction av actionName input =
     (case runValidator (av_input av) actionName input ''action input validation failed'' of Inl e \<Rightarrow> Some e | Inr _ \<Rightarrow> None)"

definition validateActionOutput :: "action_validators \<Rightarrow> string \<Rightarrow> json \<Rightarrow> validator_throw + json" where
  "validateActionOutput av actionName out = runValidator (av_output av) actionName out ''action output validation failed''"

section \<open>The dispatcher\<close>

definition SDK_DISPATCH_DESCRIPTOR :: string where "SDK_DISPATCH_DESCRIPTOR = ''__sdkDispatchAction''"

definition formatValidationIssues :: "(json \<Rightarrow> string) \<Rightarrow> validation_issue list \<Rightarrow> string" where
  "formatValidationIssues stringify issues =
     (if issues = [] then ''validation failed''
      else js_join ''; '' (map (\<lambda>issue.
             let path = (if vi_path issue \<noteq> [] then js_join ''.'' (map show_seg (vi_path issue)) else ''(root)'');
                 head = path @ '': '' @ vi_message issue
             in case vi_received issue of None \<Rightarrow> head | Some v \<Rightarrow> head @ '' (received '' @ stringify v @ '')'') issues))"

record dispatch_error =
  de_message :: string
  de_issues :: "validation_issue list option"
  de_thrown :: "bridge_err option"

definition translateValidatorThrow :: "(json \<Rightarrow> string) \<Rightarrow> validator_throw \<Rightarrow> dispatch_error" where
  "translateValidatorThrow stringify err =
     (case err of
        UndeclaredAction message \<Rightarrow> \<lparr>de_message = message, de_issues = None, de_thrown = None\<rparr>
      | InvalidValueThrown _ issues \<Rightarrow>
          \<lparr>de_message = formatValidationIssues stringify issues, de_issues = Some issues, de_thrown = None\<rparr>)"

fun hval_of_json :: "json \<Rightarrow> hval" where
  "hval_of_json JNull = HNull"
| "hval_of_json (JBool b) = HBool b"
| "hval_of_json (JNum n) = HNum n"
| "hval_of_json (JStr s) = HStr s"
| "hval_of_json (JArr vs) = HArr (map hval_of_json vs)"
| "hval_of_json (JObj fs) = HObj (map (\<lambda>f. (fst f, hval_of_json (snd f))) fs)"

datatype dispatch_progress = DispatchDone "dispatch_error + json" | DispatchAwaits | DispatchBroken invoke_start

definition dispatch_start ::
  "(json \<Rightarrow> string) \<Rightarrow> action_validators \<Rightarrow> callables \<Rightarrow> string \<Rightarrow> json \<Rightarrow> nat \<Rightarrow> callables \<times> dispatch_progress" where
  "dispatch_start stringify av ct actionName input handler =
     (case validateAction av actionName input of
        Some err \<Rightarrow> (callable_dispose ct handler, DispatchDone (Inl (translateValidatorThrow stringify err)))
      | None \<Rightarrow>
          (case callable_invoke ct handler [hval_of_json input] of
             (ct1, InvokeStarted) \<Rightarrow> (ct1, DispatchAwaits)
           | (ct1, bad) \<Rightarrow> (callable_dispose ct1 handler, DispatchBroken bad)))"

definition dispatch_resume ::
  "(json \<Rightarrow> string) \<Rightarrow> action_validators \<Rightarrow> callables \<Rightarrow> string \<Rightarrow> nat \<Rightarrow> bridge_err + json \<Rightarrow> callables \<times> (dispatch_error + json)" where
  \<comment> \<open>with the envelope of the handler's call\<close>
  "dispatch_resume stringify av ct actionName handler envelope =
     (callable_dispose ct handler,
      case envelope of
        Inl err \<Rightarrow> Inl \<lparr>de_message = be_message err, de_issues = None, de_thrown = Some err\<rparr>
      | Inr raw \<Rightarrow>
          (case validateActionOutput av actionName raw of
             Inr v \<Rightarrow> Inr v
           | Inl err \<Rightarrow> Inl (translateValidatorThrow stringify err)))"

definition dispatch_action ::
  "(json \<Rightarrow> string) \<Rightarrow> action_validators \<Rightarrow> callables \<Rightarrow> string \<Rightarrow> json \<Rightarrow> bridge_err + json \<Rightarrow> callables \<times> dispatch_progress" where
  \<comment> \<open>a whole call of \<open>__sdk.dispatchAction\<close>: the guest's function becomes a callable, and its invocation
     ends with the given envelope\<close>
  "dispatch_action stringify av ct actionName input envelope =
     (case makeCallable ct (Some SDK_DISPATCH_DESCRIPTOR) of
        (ct0, handler) \<Rightarrow>
          (case dispatch_start stringify av ct0 actionName input handler of
             (ct1, DispatchAwaits) \<Rightarrow>
               apsnd DispatchDone (dispatch_resume stringify av (callable_end ct1 (length (ct_inflight ct1) - 1)) actionName handler envelope)
           | other \<Rightarrow> other))"

section \<open>The contract of an action call\<close>

lemma json_marshals: "assertNoNestedPromise d (hval_of_json v)"
proof (induction v arbitrary: d)
  case (JArr vs)
  then show ?case by (simp add: list_all_iff)
next
  case (JObj fs)
  then show ?case by (force simp: list_all_iff)
qed simp_all

lemma json_marshalArg: "marshalArg (hval_of_json v) \<noteq> None"
proof -
  have "safeHostToHandle (hval_of_json v)" using json_marshals [of 0 v]
    unfolding safeHostToHandle_def by (cases "hval_of_json v") (simp_all only: hval.case)
  then show ?thesis by (simp add: marshalArg_def)
qed

definition accepts :: "validators \<Rightarrow> string \<Rightarrow> json \<Rightarrow> json option" where
  "accepts vs actionName v =
     (case map_get vs actionName of None \<Rightarrow> None | Some parse \<Rightarrow> (case parse v of Inr d \<Rightarrow> Some d | Inl _ \<Rightarrow> None))"

lemma run_validator_accepts: "(case runValidator vs a v l of Inr d \<Rightarrow> Some d | Inl _ \<Rightarrow> None) = accepts vs a v"
  by (simp add: runValidator_def accepts_def split: option.split sum.split)

lemma last_splice1: "xs \<noteq> [] \<Longrightarrow> splice1 (length xs - 1) xs = butlast xs"
  by (simp add: splice1_def butlast_conv_take)

lemma released_after_call:
  fixes ct :: callables and input :: json and n :: string
  defines "cid \<equiv> length (ct_callables ct)"
  defines "ct0 \<equiv> fst (makeCallable ct (Some n))"
  shows "cb_releases (ct_callables (callable_dispose ct0 cid) ! cid) = 1"
    and "snd (callable_invoke ct0 cid [hval_of_json input]) = InvokeStarted"
    and "let ct1 = fst (callable_invoke ct0 cid [hval_of_json input])
         in cb_releases (ct_callables (callable_dispose (callable_end ct1 (length (ct_inflight ct1) - 1)) cid) ! cid) = 1"
  using json_marshalArg [of input]
  by (simp_all add: cid_def ct0_def makeCallable_def callable_dispose_def release_dup_def upd_callable_def callable_invoke_def
      callable_end_def invokeFinally_def nth_append Let_def)


section \<open>The trigger frame\<close>

type_synonym trigger_plugin = "nat option" \<comment> \<open>\<open>openCallId\<close>\<close>

datatype run_result = RunSucceeded hval | RunFailed raised

definition trigger_onBeforeRunStarted ::
  "boundary_env \<Rightarrow> boundary \<times> trigger_plugin \<Rightarrow> string \<Rightarrow> hval \<Rightarrow> boundary \<times> trigger_plugin" where
  "trigger_onBeforeRunStarted env s name input =
     (case pluginEmit env (fst s) ''trigger.request'' name EOpen (Some input) None None of (b, callId) \<Rightarrow> (b, Some callId))"

definition trigger_onRunFinished ::
  "boundary_env \<Rightarrow> boundary \<times> trigger_plugin \<Rightarrow> run_result \<Rightarrow> string \<Rightarrow> hval \<Rightarrow> boundary \<times> trigger_plugin" where
  "trigger_onRunFinished env s result name input =
     (case snd s of
        None \<Rightarrow> s
      | Some callId \<Rightarrow>
          (case result of
             RunSucceeded out \<Rightarrow>
               (fst (pluginEmit env (fst s) ''trigger.response'' name (EClose callId) (Some input) (Some out) None), None)
           | RunFailed err \<Rightarrow>
               (fst (pluginEmit env (fst s) ''trigger.error'' name (EClose callId) (Some input) None
                  (Some (serializeLifecycleError env err))), None)))"

text \<open>
  A run that is active from its start to its end has one trigger frame: the first event opens it
  with call id 0 and, whatever the guest does in between, the last one closes it.
\<close>

lemma trigger_frame_encloses_run:
  assumes "b_runActive (bd_bridge b)" and "nextCallId (bd_bridge b) = 0"
    and "trigger_onBeforeRunStarted env (b, None) name input = (b1, tp)" and "b_runActive (bd_bridge b2)" and "bd_wire b2 = bd_wire b1 @ inner"
  shows "\<exists>opening closing. bd_wire (fst (trigger_onRunFinished env (b2, tp) result name input)) = bd_wire b @ opening # inner @ [closing] \<and>
      w_kind opening = ''trigger.request'' \<and> w_type opening = Open 0 \<and> w_type closing = Close 0 \<and>
      w_kind closing = (case result of RunSucceeded _ \<Rightarrow> ''trigger.response'' | RunFailed _ \<Rightarrow> ''trigger.error'')"
  using assms by (auto simp: trigger_onBeforeRunStarted_def trigger_onRunFinished_def pluginEmit_def buildEvent_def split: run_result.split)

end
