(* ===== verification/Wasi.thy ===== *)
theory Wasi
  imports Prelude "HOL-Library.Word"
begin

text \<open>
  The three WASI calls the guest engine makes of the host (\<open>packages/sandbox/src/wasi.ts\<close>) and
  the telemetry plugin that observes them (\<open>packages/runtime/src/plugins/wasi-telemetry.ts\<close>).

  Linear memory is a list of bytes (\<open>8 word\<close>); an access out of range throws, which is the result
  \<open>None\<close>. Clock readings and random bytes are inputs. A hook is a function from its arguments to its
  optional override; the arguments of every call are recorded in \<open>ws_observed\<close>. Strings are their
  UTF-8 bytes, as everywhere; \<open>TextDecoder\<close> is \<open>utf8_decode\<close>, which replaces what is not UTF-8.
\<close>

section \<open>Memory\<close>

type_synonym memory = "8 word list"

definition byte_of :: "int \<Rightarrow> nat \<Rightarrow> 8 word" where
  "byte_of v k = word_of_int (v div 256 ^ k)"

definition le_bytes :: "nat \<Rightarrow> int \<Rightarrow> memory" where
  "le_bytes n v = map (byte_of v) [0 ..< n]"

definition le_value :: "memory \<Rightarrow> int" where
  "le_value bs = foldr (\<lambda>b acc. uint b + 256 * acc) bs 0"

definition read_bytes :: "memory \<Rightarrow> nat \<Rightarrow> nat \<Rightarrow> memory option" where
  "read_bytes mem p n = (if p + n \<le> length mem then Some (take n (drop p mem)) else None)"

definition write_bytes :: "memory \<Rightarrow> nat \<Rightarrow> memory \<Rightarrow> memory option" where
  "write_bytes mem p bs = (if p + length bs \<le> length mem then Some (take p mem @ bs @ drop (p + length bs) mem) else None)"

definition getUint32 :: "memory \<Rightarrow> nat \<Rightarrow> nat option" where
  "getUint32 mem p = map_option (\<lambda>bs. nat (le_value bs)) (read_bytes mem p 4)"

definition setUint32 :: "memory \<Rightarrow> nat \<Rightarrow> nat \<Rightarrow> memory option" where
  "setUint32 mem p v = write_bytes mem p (le_bytes 4 (int v))"

definition setBigUint64 :: "memory \<Rightarrow> nat \<Rightarrow> int \<Rightarrow> memory option" where
  "setBigUint64 mem p v = write_bytes mem p (le_bytes 8 v)"

section \<open>Decoding\<close>

definition utf8_tail :: "nat \<Rightarrow> (nat \<times> nat) list option" where
  \<comment> \<open>the ranges of the bytes that follow a lead byte; \<open>None\<close>: not a lead byte\<close>
  "utf8_tail b =
     (if b < 128 then Some []
      else if 194 \<le> b \<and> b \<le> 223 then Some [(128, 191)]
      else if b = 224 then Some [(160, 191), (128, 191)]
      else if b = 237 then Some [(128, 159), (128, 191)]
      else if 225 \<le> b \<and> b \<le> 239 then Some [(128, 191), (128, 191)]
      else if b = 240 then Some [(144, 191), (128, 191), (128, 191)]
      else if 241 \<le> b \<and> b \<le> 243 then Some [(128, 191), (128, 191), (128, 191)]
      else if b = 244 then Some [(128, 143), (128, 191), (128, 191)]
      else None)"

fun matched :: "(nat \<times> nat) list \<Rightarrow> nat list \<Rightarrow> nat" where
  "matched ((lo, hi) # rs) (b # bs) = (if lo \<le> b \<and> b \<le> hi then Suc (matched rs bs) else 0)"
| "matched rs bs = 0"

definition REPLACEMENT :: "nat list" where "REPLACEMENT = [239, 191, 189]"

function utf8_repair :: "nat list \<Rightarrow> nat list" where
  "utf8_repair [] = []"
| "utf8_repair (b # bs) =
     (case utf8_tail b of
        None \<Rightarrow> REPLACEMENT @ utf8_repair bs
      | Some rs \<Rightarrow>
          let n = matched rs bs
          in if n = length rs then b # take n bs @ utf8_repair (drop n bs) else REPLACEMENT @ utf8_repair (drop n bs))"
  by pat_completeness auto
termination
  by (relation "measure length") auto

definition utf8_decode :: "memory \<Rightarrow> string" where
  \<comment> \<open>\<open>new TextDecoder().decode(bytes)\<close>, which drops a leading byte order mark\<close>
  "utf8_decode bs =
     (let ns = map unat bs
      in map char_of (utf8_repair (if take 3 ns = [239, 187, 191] then drop 3 ns else ns)))"

section \<open>State and hooks\<close>

datatype wasi_observed =
    ClockCall string int
  | RandomCall nat memory
  | FdWriteCall nat string

record wasi_slots =
  sl_clockTimeGet :: "(string \<times> int \<Rightarrow> int option) option"
  sl_randomGet :: "(nat \<times> memory \<Rightarrow> memory option) option"
  sl_fdWrite :: "unit option"

record wasi_state =
  ws_anchor :: int
  ws_fdLineBuffer :: "(nat, string) jsmap"
  ws_slots :: wasi_slots
  ws_observed :: "wasi_observed list"
  ws_posted :: "(nat \<times> string) list"

definition createWasiState :: wasi_state where
  "createWasiState =
     \<lparr>ws_anchor = 0, ws_fdLineBuffer = [],
      ws_slots = \<lparr>sl_clockTimeGet = None, sl_randomGet = None, sl_fdWrite = None\<rparr>, ws_observed = [], ws_posted = []\<rparr>"

section \<open>The calls\<close>

definition WASI_CLOCK_REALTIME :: nat where "WASI_CLOCK_REALTIME = 0"
definition WASI_CLOCK_MONOTONIC :: nat where "WASI_CLOCK_MONOTONIC = 1"
definition WASI_ERRNO_SUCCESS :: nat where "WASI_ERRNO_SUCCESS = 0"
definition WASI_ERRNO_NOSYS :: nat where "WASI_ERRNO_NOSYS = 52"
definition WASI_ERRNO_BADF :: nat where "WASI_ERRNO_BADF = 8"
definition WASI_STDOUT_FD :: nat where "WASI_STDOUT_FD = 1"
definition WASI_STDERR_FD :: nat where "WASI_STDERR_FD = 2"
definition WASI_CIOVEC_SIZE :: nat where "WASI_CIOVEC_SIZE = 8"
definition WASI_CIOVEC_LEN_OFFSET :: nat where "WASI_CIOVEC_LEN_OFFSET = 4"

definition wasiClockTimeGet :: "memory \<Rightarrow> wasi_state \<Rightarrow> int \<Rightarrow> int \<Rightarrow> nat \<Rightarrow> nat \<Rightarrow> (memory \<times> wasi_state \<times> nat) option" where
  \<comment> \<open>\<open>dateNow\<close> in milliseconds, \<open>perfNs\<close> in nanoseconds\<close>
  "wasiClockTimeGet mem st dateNow perfNs clockId resultPtr =
     (if clockId \<noteq> WASI_CLOCK_REALTIME \<and> clockId \<noteq> WASI_CLOCK_MONOTONIC then Some (mem, st, WASI_ERRNO_NOSYS)
      else let defaultNs = (if clockId = WASI_CLOCK_REALTIME then dateNow * 1000000 else perfNs - ws_anchor st);
               label = (if clockId = WASI_CLOCK_REALTIME then ''REALTIME'' else ''MONOTONIC'');
               (timeNs, st1) =
                 (case sl_clockTimeGet (ws_slots st) of
                    None \<Rightarrow> (defaultNs, st)
                  | Some hook \<Rightarrow>
                      ((case hook (label, defaultNs) of Some ns \<Rightarrow> ns | None \<Rightarrow> defaultNs),
                       st\<lparr>ws_observed := ws_observed st @ [ClockCall label defaultNs]\<rparr>))
           in map_option (\<lambda>mem'. (mem', st1, WASI_ERRNO_SUCCESS)) (setBigUint64 mem resultPtr timeNs))"

definition wasiRandomGet :: "memory \<Rightarrow> wasi_state \<Rightarrow> memory \<Rightarrow> nat \<Rightarrow> nat \<Rightarrow> (memory \<times> wasi_state \<times> nat) option" where
  \<comment> \<open>\<open>defaultBytes\<close>: \<open>bufLen\<close> bytes from the generator\<close>
  "wasiRandomGet mem st defaultBytes bufPtr bufLen =
     (if bufPtr + bufLen > length mem then None
      else let (finalBytes, st1) =
                 (case sl_randomGet (ws_slots st) of
                    None \<Rightarrow> (defaultBytes, st)
                  | Some hook \<Rightarrow>
                      ((case hook (bufLen, defaultBytes) of Some bs \<Rightarrow> bs | None \<Rightarrow> defaultBytes),
                       st\<lparr>ws_observed := ws_observed st @ [RandomCall bufLen defaultBytes]\<rparr>))
           in map_option (\<lambda>mem'. (mem', st1, WASI_ERRNO_SUCCESS)) (write_bytes mem bufPtr (take bufLen finalBytes)))"

fun read_iovs :: "memory \<Rightarrow> nat \<Rightarrow> nat \<Rightarrow> (string \<times> nat) option" where
  \<comment> \<open>the decoded text and the total length of \<open>n\<close> vectors; \<open>slice\<close> stops at the end of memory\<close>
  "read_iovs mem p 0 = Some ([], 0)"
| "read_iovs mem p (Suc n) =
     (case (getUint32 mem p, getUint32 mem (p + WASI_CIOVEC_LEN_OFFSET)) of
        (Some chunkPtr, Some chunkLen) \<Rightarrow>
          map_option (\<lambda>(text, total). (utf8_decode (take chunkLen (drop chunkPtr mem)) @ text, chunkLen + total))
            (read_iovs mem (p + WASI_CIOVEC_SIZE) n)
      | _ \<Rightarrow> None)"

definition NL :: char where "NL = CHR 0x0A"

definition buffer_lines :: "wasi_state \<Rightarrow> nat \<Rightarrow> string \<Rightarrow> wasi_state" where
  "buffer_lines st fd decoded =
     (let prev = (case map_get (ws_fdLineBuffer st) fd of Some s \<Rightarrow> s | None \<Rightarrow> []);
          lines = js_split NL (prev @ decoded)
      in st\<lparr>ws_posted := ws_posted st @ map (Pair fd) (butlast lines), ws_fdLineBuffer := map_set fd (last lines) (ws_fdLineBuffer st)\<rparr>)"

definition wasiFdWrite :: "memory \<Rightarrow> wasi_state \<Rightarrow> nat \<Rightarrow> nat \<Rightarrow> nat \<Rightarrow> nat \<Rightarrow> (memory \<times> wasi_state \<times> nat) option" where
  "wasiFdWrite mem st fd iovsPtr iovsLen nwrittenPtr =
     (if fd \<noteq> WASI_STDOUT_FD \<and> fd \<noteq> WASI_STDERR_FD then Some (mem, st, WASI_ERRNO_BADF)
      else (case read_iovs mem iovsPtr iovsLen of
              None \<Rightarrow> None
            | Some (decoded, totalWritten) \<Rightarrow>
                map_option (\<lambda>mem'.
                  (mem',
                   (case sl_fdWrite (ws_slots st) of
                      Some _ \<Rightarrow> st\<lparr>ws_observed := ws_observed st @ [FdWriteCall fd decoded]\<rparr>
                    | None \<Rightarrow> buffer_lines st fd decoded),
                   WASI_ERRNO_SUCCESS))
                (setUint32 mem nwrittenPtr totalWritten)))"

section \<open>Calls write where the guest asked\<close>

lemma byte_uint: "uint (byte_of v k) = v div 256 ^ k mod 256"
  by (simp add: byte_of_def uint_word_of_int)

lemma le_value_bytes: "le_value (map (byte_of v) [k ..< k + n]) = v div 256 ^ k mod 256 ^ n"
proof (induction n arbitrary: k)
  case (Suc n)
  have "[k ..< k + Suc n] = k # [Suc k ..< Suc k + n]" by (simp add: upt_conv_Cons)
  then have "le_value (map (byte_of v) [k ..< k + Suc n]) = v div 256 ^ k mod 256 + 256 * (v div 256 ^ Suc k mod 256 ^ n)"
    using Suc.IH [of "Suc k"] by (simp add: le_value_def byte_uint)
  also have "v div 256 ^ Suc k = v div 256 ^ k div 256" by (simp add: power_Suc2 zdiv_zmult2_eq del: power_Suc)
  also have "v div 256 ^ k mod 256 + 256 * (v div 256 ^ k div 256 mod 256 ^ n) = v div 256 ^ k mod (256 * 256 ^ n)"
    by (simp add: zmod_zmult2_eq)
  finally show ?case by simp
qed (simp add: le_value_def)

lemma le_round_trip: "le_value (le_bytes n v) = v mod 256 ^ n"
  using le_value_bytes [of v 0 n] by (simp add: le_bytes_def)

definition confined :: "memory \<Rightarrow> memory \<Rightarrow> nat \<Rightarrow> nat \<Rightarrow> bool" where
  "confined mem mem' p n \<longleftrightarrow> length mem' = length mem \<and> p + n \<le> length mem \<and> take p mem' = take p mem \<and> drop (p + n) mem' = drop (p + n) mem"

lemma write_confined:
  assumes "write_bytes mem p bs = Some mem'"
  shows "confined mem mem' p (length bs)" "read_bytes mem' p (length bs) = Some bs"
proof -
  have mem': "p + length bs \<le> length mem" "mem' = take p mem @ bs @ drop (p + length bs) mem"
    using assms by (auto simp: write_bytes_def split: if_splits)
  then have "length (take p mem) = p" by simp
  with mem' show "confined mem mem' p (length bs)" "read_bytes mem' p (length bs) = Some bs"
    by (simp_all add: confined_def read_bytes_def)
qed

lemma confined_wider: "confined mem mem' p n \<Longrightarrow> n \<le> n' \<Longrightarrow> p + n' \<le> length mem \<Longrightarrow> confined mem mem' p n'"
proof -
  assume a: "confined mem mem' p n" "n \<le> n'" "p + n' \<le> length mem"
  from a(2) obtain k where k: "n' = n + k" using le_Suc_ex by blast
  have "drop (p + n') mem' = drop k (drop (p + n) mem')" by (simp add: k add.commute add.left_commute)
  also have "\<dots> = drop k (drop (p + n) mem)" using a(1) by (simp only: confined_def)
  also have "\<dots> = drop (p + n') mem" by (simp add: k add.commute add.left_commute)
  finally show ?thesis using a by (simp only: confined_def)
qed


section \<open>Line buffering loses nothing\<close>

definition text_of :: "wasi_state \<Rightarrow> nat \<Rightarrow> string" where
  \<comment> \<open>what was logged for a descriptor, with the line ends, and what is still buffered\<close>
  "text_of st fd =
     concat (map (\<lambda>(f, line). if f = fd then line @ [NL] else []) (ws_posted st)) @
     (case map_get (ws_fdLineBuffer st) fd of Some s \<Rightarrow> s | None \<Rightarrow> [])"

lemma split_lines: "concat (map (\<lambda>l. l @ [c]) (butlast (js_split c s))) @ last (js_split c s) = s"
proof (induction s)
  case (Cons x xs)
  obtain q qs where q: "js_split c xs = q # qs" using js_split_Cons by blast
  with Cons.IH show ?case by (cases qs) auto
qed simp

lemma split_parts: "p \<in> set (js_split c s) \<Longrightarrow> c \<notin> set p"
proof (induction s arbitrary: p)
  case (Cons x xs)
  obtain q qs where q: "js_split c xs = q # qs" using js_split_Cons by blast
  with Cons.IH [of q] Cons.IH [of p] Cons.prems show ?case by (auto split: if_splits)
qed simp

lemma buffer_text: "text_of (buffer_lines st fd t) fd' = text_of st fd' @ (if fd' = fd then t else [])"
proof (cases "fd' = fd")
  case True
  let ?prev = "case map_get (ws_fdLineBuffer st) fd of Some s \<Rightarrow> s | None \<Rightarrow> []"
  have "concat (map (\<lambda>(f, line). if f = fd then line @ [NL] else []) (map (Pair fd) ls)) = concat (map (\<lambda>l. l @ [NL]) ls)" for ls
    by (induction ls) simp_all
  with split_lines [of NL "?prev @ t"] True show ?thesis by (simp add: text_of_def buffer_lines_def Let_def)
next
  case False
  have "concat (map (\<lambda>(f, line). if f = fd' then line @ [NL] else []) (map (Pair fd) ls)) = []" for ls
    using False by (induction ls) simp_all
  with False show ?thesis by (simp add: text_of_def buffer_lines_def Let_def)
qed

text \<open>
  However the guest's output is cut into writes, each descriptor's logged lines followed by its
  buffer are exactly the text written to it, in order, and no logged line contains a line end.
\<close>

lemma lines_lossless:
  "text_of (foldl (\<lambda>st (fd, t). buffer_lines st fd t) createWasiState writes) fd = concat (map (\<lambda>(f, t). if f = fd then t else []) writes) \<and>
   list_all (\<lambda>(f, line). NL \<notin> set line) (ws_posted (foldl (\<lambda>st (fd, t). buffer_lines st fd t) createWasiState writes))"
proof -
  have kept: "text_of (foldl (\<lambda>st (fd, t). buffer_lines st fd t) st writes) fd = text_of st fd @ concat (map (\<lambda>(f, t). if f = fd then t else []) writes)" for st
    by (induction writes arbitrary: st) (auto simp: buffer_text)
  have clean: "list_all (\<lambda>(f, line). NL \<notin> set line) (ws_posted st) \<Longrightarrow>
      list_all (\<lambda>(f, line). NL \<notin> set line) (ws_posted (foldl (\<lambda>st (fd, t). buffer_lines st fd t) st writes))" for st
  proof (induction writes arbitrary: st)
    case (Cons w writes)
    have "list_all (\<lambda>(f, line). NL \<notin> set line) (ws_posted (buffer_lines st fd t))" for fd t
      using Cons.prems by (auto simp: buffer_lines_def Let_def list_all_iff dest!: in_set_butlastD split_parts)
    with Cons.IH show ?case by (cases w) simp
  qed simp
  show ?thesis using kept [of createWasiState] clean [of createWasiState] by (simp add: createWasiState_def text_of_def)
qed

text \<open>Each vector is decoded on its own: a character whose bytes lie in two vectors becomes two replacement characters.\<close>

lemma split_character_mangled:
  "utf8_decode [0xC3, 0xA9] = map char_of [195, 169 :: nat] \<and>
   utf8_decode [0xC3] @ utf8_decode [0xA9] = map char_of (REPLACEMENT @ REPLACEMENT)"
  by code_simp

section \<open>Telemetry\<close>

definition telemetry_hooks :: wasi_slots where
  \<comment> \<open>\<open>worker()\<close> of \<open>wasi-telemetry\<close>: every hook returns \<open>undefined\<close>\<close>
  "telemetry_hooks = \<lparr>sl_clockTimeGet = Some (\<lambda>_. None), sl_randomGet = Some (\<lambda>_. None), sl_fdWrite = Some ()\<rparr>"

definition SHA256_HEX_PREFIX_LEN :: nat where "SHA256_HEX_PREFIX_LEN = 16"

definition telemetry_event :: "(memory \<Rightarrow> string) \<Rightarrow> wasi_observed \<Rightarrow> string \<times> json \<times> json option" where
  \<comment> \<open>name, input and output of the \<open>system.call\<close> leaf; \<open>sha256\<close> gives the digest in hexadecimal\<close>
  "telemetry_event sha256 ob =
     (case ob of
        ClockCall label ns \<Rightarrow> (''wasi.clock_time_get'', JObj [(''label'', JStr label)], Some (JObj [(''ns'', JNum ns)]))
      | RandomCall bufLen bytes \<Rightarrow>
          (''wasi.random_get'', JObj [(''bufLen'', JNum (int bufLen))],
           Some (JObj [(''bufLen'', JNum (int bufLen)), (''sha256First16'', JStr (take SHA256_HEX_PREFIX_LEN (sha256 bytes)))]))
      | FdWriteCall fd text \<Rightarrow> (''wasi.fd_write'', JObj [(''fd'', JNum (int fd)), (''text'', JStr text)], None))"

text \<open>
  The telemetry plugin changes no value the guest reads, and the event of a random read tells of
  the bytes no more than the 16 digits of their digest.
\<close>

lemma telemetry_transparent:
  fixes st mem
  defines "st' \<equiv> st\<lparr>ws_slots := telemetry_hooks\<rparr>" and "bare \<equiv> st\<lparr>ws_slots := ws_slots createWasiState\<rparr>"
  shows "map_option (\<lambda>(m, s, e). (m, e)) (wasiClockTimeGet mem st' dateNow perfNs clockId p) =
         map_option (\<lambda>(m, s, e). (m, e)) (wasiClockTimeGet mem bare dateNow perfNs clockId p)"
    and "map_option (\<lambda>(m, s, e). (m, e)) (wasiRandomGet mem st' bytes p n) = map_option (\<lambda>(m, s, e). (m, e)) (wasiRandomGet mem bare bytes p n)"
    and "take SHA256_HEX_PREFIX_LEN (sha256 bytes) = take SHA256_HEX_PREFIX_LEN (sha256 bytes') \<Longrightarrow>
         telemetry_event sha256 (RandomCall n bytes) = telemetry_event sha256 (RandomCall n bytes')"
  by (simp_all add: st'_def bare_def telemetry_hooks_def createWasiState_def wasiClockTimeGet_def wasiRandomGet_def telemetry_event_def
      Let_def option.map_comp comp_def)

end
