(* ===== verification/Flamegraph.thy ===== *)
theory Flamegraph
  imports Sequencer "HOL-Library.Product_Lexorder"
begin

text \<open>
  The layout of an invocation's flame graph
  (\<open>packages/runtime/src/ui/invocations/flamegraph.tsx\<close>): pairing requests with their ends,
  placing every request as a bar on a row, and escaping what goes into the page.

  \<open>classify\<close> follows the chain of parents; a chain that returns to itself overflows the stack,
  which is \<open>None\<close> here: the fuel is one more than the number of events. Positions in percent and
  pixels are the browser's business and stay out of the model; rows are what decides whether bars
  overlap.
\<close>

section \<open>Classification of events\<close>

datatype lane = MainLane | TrackLane

datatype bar_kind = TriggerBar | ActionBar | RestBar

definition TIMER_REGISTRATION_NAMES :: "string list" where "TIMER_REGISTRATION_NAMES = [''setTimeout'', ''setInterval'']"
definition TIMER_CLEAR_NAMES :: "string list" where "TIMER_CLEAR_NAMES = [''clearTimeout'', ''clearInterval'']"

definition isTimerRegistrationMarker :: "sandbox_event \<Rightarrow> bool" where
  "isTimerRegistrationMarker e = (se_kind e = ''system.call'' \<and> se_name e \<in> set TIMER_REGISTRATION_NAMES)"

definition isTimerClearMarker :: "sandbox_event \<Rightarrow> bool" where
  "isTimerClearMarker e = (se_kind e = ''system.call'' \<and> se_name e \<in> set TIMER_CLEAR_NAMES)"

definition isTimerCallbackRequest :: "sandbox_event \<Rightarrow> bool" where
  "isTimerCallbackRequest e = (se_kind e = ''system.request'' \<and> se_name e \<in> set TIMER_REGISTRATION_NAMES)"

definition isAnyTimerEvent :: "sandbox_event \<Rightarrow> bool" where
  "isAnyTimerEvent e =
     (isTimerRegistrationMarker e \<or> isTimerClearMarker e \<or>
      se_kind e \<in> {''system.request'', ''system.response'', ''system.error''} \<and> se_name e \<in> set TIMER_REGISTRATION_NAMES)"

definition startsWith :: "string \<Rightarrow> string \<Rightarrow> bool" where
  "startsWith s prefix = (take (length prefix) s = prefix)"

definition endsWith :: "string \<Rightarrow> string \<Rightarrow> bool" where
  "endsWith s suffix = (length suffix \<le> length s \<and> drop (length s - length suffix) s = suffix)"

definition isRequestKind :: "string \<Rightarrow> bool" where "isRequestKind k = endsWith k ''.request''"
definition isResponseKind :: "string \<Rightarrow> bool" where "isResponseKind k = endsWith k ''.response''"
definition isErrorKind :: "string \<Rightarrow> bool" where "isErrorKind k = endsWith k ''.error''"

definition barKindFromEventKind :: "string \<Rightarrow> bar_kind option" where
  "barKindFromEventKind k =
     (if startsWith k ''trigger.'' then Some TriggerBar
      else if startsWith k ''action.'' then Some ActionBar
      else if isRequestKind k \<or> isResponseKind k \<or> isErrorKind k then Some RestBar
      else None)"

definition timerIdFromEvent :: "sandbox_event \<Rightarrow> string option" where
  "timerIdFromEvent e =
     (case se_input e of
        Some (JObj fs) \<Rightarrow> (case map_get fs ''timerId'' of Some (JStr t) \<Rightarrow> Some t | Some (JNum n) \<Rightarrow> Some (show_int n) | _ \<Rightarrow> None)
      | _ \<Rightarrow> None)"

section \<open>Layout\<close>

record bar =
  bar_kind :: bar_kind
  bar_name :: string
  bar_requestSeq :: nat
  bar_terminalSeq :: "nat option"
  bar_startTs :: int
  bar_endTs :: int
  bar_row :: int
  bar_location :: lane
  bar_errored :: bool
  bar_orphan :: bool
  bar_timerId :: "string option"

record marker =
  mk_kind :: string
  mk_name :: string
  mk_seq :: nat
  mk_ts :: int
  mk_row :: int
  mk_location :: lane
  mk_timerId :: "string option"
  mk_auto :: bool
  mk_budget :: "int option"
  mk_observed :: "int option"

type_synonym row_bucket = "(int \<times> int) list list"
type_synonym row_buckets = "(nat, row_bucket) jsmap"

definition overlap :: "int \<Rightarrow> int \<Rightarrow> int \<times> int \<Rightarrow> bool" where
  "overlap s e r = (s < snd r \<and> e > fst r)"

fun greedyAssignSubRow :: "row_bucket \<Rightarrow> int \<Rightarrow> int \<Rightarrow> row_bucket \<times> nat" where
  "greedyAssignSubRow [] s e = ([[(s, e)]], 0)"
| "greedyAssignSubRow (r # rs) s e =
     (if \<not> list_ex (overlap s e) r then ((r @ [(s, e)]) # rs, 0)
      else (case greedyAssignSubRow rs s e of (rs', i) \<Rightarrow> (r # rs', Suc i)))"

fun classify_event :: "nat \<Rightarrow> (nat, sandbox_event) jsmap \<Rightarrow> sandbox_event \<Rightarrow> (lane \<times> nat) option" where
  "classify_event 0 bySeq e = None"
| "classify_event (Suc fuel) bySeq e =
     (case se_ref e of
        None \<Rightarrow> Some (if isTimerCallbackRequest e then TrackLane else MainLane, 0)
      | Some r \<Rightarrow>
          (case map_get bySeq r of
             None \<Rightarrow> Some (MainLane, 0)
           | Some parent \<Rightarrow> map_option (apsnd Suc) (classify_event fuel bySeq parent)))"

definition index_events :: "sandbox_event list \<Rightarrow> (nat, sandbox_event) jsmap" where
  "index_events events = foldl (\<lambda>m e. map_set (se_seq e) e m) [] events"

definition terminals :: "sandbox_event list \<Rightarrow> (nat, sandbox_event) jsmap" where
  "terminals events =
     foldl (\<lambda>m e. case se_ref e of
              Some r \<Rightarrow> if isResponseKind (se_kind e) \<or> isErrorKind (se_kind e) then map_set r e m else m
            | None \<Rightarrow> m) [] events"

record placing =
  pl_main :: row_buckets
  pl_track :: row_buckets
  pl_bars :: "bar list"
  pl_subRow :: "(nat, nat) jsmap"

definition pl_bucket :: "placing \<Rightarrow> lane \<Rightarrow> nat \<Rightarrow> row_bucket" where
  "pl_bucket p loc depth =
     (case map_get (case loc of MainLane \<Rightarrow> pl_main p | TrackLane \<Rightarrow> pl_track p) depth of Some b \<Rightarrow> b | None \<Rightarrow> [])"

definition set_bucket :: "placing \<Rightarrow> lane \<Rightarrow> nat \<Rightarrow> row_bucket \<Rightarrow> placing" where
  "set_bucket p loc depth b =
     (case loc of MainLane \<Rightarrow> p\<lparr>pl_main := map_set depth b (pl_main p)\<rparr> | TrackLane \<Rightarrow> p\<lparr>pl_track := map_set depth b (pl_track p)\<rparr>)"

definition place_request ::
  "(nat \<Rightarrow> (lane \<times> nat)) \<Rightarrow> (nat, sandbox_event) jsmap \<Rightarrow> sandbox_event \<Rightarrow> placing \<Rightarrow> sandbox_event \<Rightarrow> placing" where
  "place_request where_is terminalByRef terminalEvent p req =
     (case barKindFromEventKind (se_kind req) of
        None \<Rightarrow> p
      | Some kind \<Rightarrow>
          let (loc, depth) = where_is (se_seq req);
              terminal = map_get terminalByRef (se_seq req);
              endTs = (case terminal of Some t \<Rightarrow> se_ts t | None \<Rightarrow> se_ts terminalEvent);
              (b, subRow) = greedyAssignSubRow (pl_bucket p loc depth) (se_ts req) endTs
          in (set_bucket p loc depth b)
               \<lparr>pl_subRow := map_set (se_seq req) subRow (pl_subRow p),
                pl_bars := pl_bars p @
                  [\<lparr>bar_kind = kind, bar_name = se_name req, bar_requestSeq = se_seq req, bar_terminalSeq = map_option se_seq terminal,
                    bar_startTs = se_ts req, bar_endTs = endTs, bar_row = -1, bar_location = loc,
                    bar_errored = (case terminal of Some t \<Rightarrow> isErrorKind (se_kind t) | None \<Rightarrow> False),
                    bar_orphan = (terminal = None), bar_timerId = (if isAnyTimerEvent req then timerIdFromEvent req else None)\<rparr>]\<rparr>)"

fun depth_offsets :: "row_buckets \<Rightarrow> nat list \<Rightarrow> int \<Rightarrow> int list \<times> int" where
  \<comment> \<open>the offset of each depth, \<open>-1\<close> for a depth without bars, and the number of rows\<close>
  "depth_offsets bs [] off = ([], off)"
| "depth_offsets bs (d # ds) off =
     (let subs = (case map_get bs d of Some b \<Rightarrow> length b | None \<Rightarrow> 0)
      in if subs = 0 then apfst (Cons (-1)) (depth_offsets bs ds off)
         else apfst (Cons off) (depth_offsets bs ds (off + int subs)))"

definition lane_offsets :: "row_buckets \<Rightarrow> int list \<times> int" where
  "lane_offsets bs = depth_offsets bs [0 ..< foldr (\<lambda>d n. max (Suc d) n) (keys bs) 0] 0"

definition bar_row_of :: "placing \<Rightarrow> (nat \<Rightarrow> (lane \<times> nat)) \<Rightarrow> bar \<Rightarrow> int" where
  "bar_row_of p where_is b =
     (let depth = snd (where_is (bar_requestSeq b));
          subRow = (case map_get (pl_subRow p) (bar_requestSeq b) of Some s \<Rightarrow> s | None \<Rightarrow> 0);
          offsets = fst (lane_offsets (case bar_location b of MainLane \<Rightarrow> pl_main p | TrackLane \<Rightarrow> pl_track p))
      in if depth < length offsets \<and> offsets ! depth \<noteq> -1 then offsets ! depth + int subRow else int depth)"

definition num_field :: "json option \<Rightarrow> string \<Rightarrow> int option" where
  "num_field v key = (case v of Some (JObj fs) \<Rightarrow> (case map_get fs key of Some (JNum n) \<Rightarrow> Some n | _ \<Rightarrow> None) | _ \<Rightarrow> None)"

definition layout_marker :: "(nat, int \<times> lane) jsmap \<Rightarrow> sandbox_event \<Rightarrow> marker list" where
  "layout_marker rowBySeq e =
     (if isRequestKind (se_kind e) \<or> isResponseKind (se_kind e) \<or> isErrorKind (se_kind e) then []
      else let auto = (isTimerClearMarker e \<and> se_ref e = None);
               (row, loc) = (if auto then (0, MainLane)
                             else (case se_ref e of
                                     Some r \<Rightarrow> (case map_get rowBySeq r of Some parent \<Rightarrow> parent | None \<Rightarrow> (0, MainLane))
                                   | None \<Rightarrow> (0, MainLane)))
           in [\<lparr>mk_kind = se_kind e, mk_name = se_name e, mk_seq = se_seq e, mk_ts = se_ts e, mk_row = row, mk_location = loc,
                mk_timerId = (if isAnyTimerEvent e then timerIdFromEvent e else None), mk_auto = auto,
                mk_budget = (if se_kind e = ''system.exhaustion'' then num_field (se_input e) ''budget'' else None),
                mk_observed = (if se_kind e = ''system.exhaustion'' then num_field (se_input e) ''observed'' else None)\<rparr>])"

record layout =
  ly_bars :: "bar list"
  ly_markers :: "marker list"
  ly_connectors :: "(string \<times> nat \<times> nat) list"
  ly_mainRows :: int
  ly_trackRows :: int
  ly_mainMarkerRow :: "int option"
  ly_trackMarkerRow :: "int option"
  ly_totalDurationTs :: int
  ly_triggerEvent :: sandbox_event
  ly_terminalEvent :: sandbox_event
  ly_succeeded :: bool

definition layout_connectors :: "bar list \<Rightarrow> marker list \<Rightarrow> (string \<times> nat \<times> nat) list" where
  \<comment> \<open>timer id, sequence number of the registration and of the callback\<close>
  "layout_connectors bars markers =
     concat (map (\<lambda>m. case mk_timerId m of
         Some t \<Rightarrow>
           if mk_kind m = ''system.call'' \<and> mk_name m \<in> set TIMER_REGISTRATION_NAMES \<and> t \<noteq> []
           then map (\<lambda>b. (t, mk_seq m, bar_requestSeq b)) (filter (\<lambda>b. bar_timerId b = Some t) bars) else []
       | None \<Rightarrow> []) markers)"

definition ROW_HEIGHT_PX :: int where "ROW_HEIGHT_PX = 22"
definition BAR_HEIGHT_PX :: int where "BAR_HEIGHT_PX = 18"
definition BAR_Y_OFFSET_PX :: int where "BAR_Y_OFFSET_PX = 2"
definition TRACK_DIVIDER_GAP_PX :: int where "TRACK_DIVIDER_GAP_PX = 12"
definition TRACK_LABEL_HEIGHT_PX :: int where "TRACK_LABEL_HEIGHT_PX = 14"

lemmas px_defs = ROW_HEIGHT_PX_def BAR_HEIGHT_PX_def BAR_Y_OFFSET_PX_def TRACK_DIVIDER_GAP_PX_def TRACK_LABEL_HEIGHT_PX_def

definition yForRow :: "int \<Rightarrow> lane \<Rightarrow> int \<Rightarrow> int" where
  "yForRow row loc mainRows =
     (case loc of
        MainLane \<Rightarrow> row * ROW_HEIGHT_PX + BAR_Y_OFFSET_PX
      | TrackLane \<Rightarrow>
          mainRows * ROW_HEIGHT_PX + TRACK_DIVIDER_GAP_PX + TRACK_LABEL_HEIGHT_PX + row * ROW_HEIGHT_PX + BAR_Y_OFFSET_PX)"

definition svg_height :: "layout \<Rightarrow> int" where
  "svg_height ly =
     ly_mainRows ly * ROW_HEIGHT_PX +
     (if ly_trackRows ly > 0 then TRACK_DIVIDER_GAP_PX + TRACK_LABEL_HEIGHT_PX + ly_trackRows ly * ROW_HEIGHT_PX else 0) +
     BAR_Y_OFFSET_PX"

definition replace_char :: "char \<Rightarrow> string \<Rightarrow> string \<Rightarrow> string" where
  "replace_char c r s = concat (map (\<lambda>x. if x = c then r else [x]) s)"

definition escapeHtml :: "string \<Rightarrow> string" where
  "escapeHtml s =
     replace_char (CHR 0x27) ''&#39;''
       (replace_char (CHR 0x22) ''&quot;''
         (replace_char (CHR ''>'') ''&gt;''
           (replace_char (CHR ''<'') ''&lt;''
             (replace_char (CHR ''&'') ''&amp;'' s))))"

definition events_json :: "string \<Rightarrow> string" where
  \<comment> \<open>what \<open>JSON.stringify\<close> gave, every less-than sign as its escape\<close>
  "events_json s = replace_char (CHR ''<'') (CHR 0x5C # ''u003c'') s"

definition markerVariantClass :: "marker \<Rightarrow> string" where
  "markerVariantClass m =
     (if mk_kind m = ''system.call'' \<and> mk_name m \<in> set TIMER_REGISTRATION_NAMES then ''flame-marker--timer-set''
      else if mk_kind m = ''system.call'' \<and> mk_name m \<in> set TIMER_CLEAR_NAMES
      then (if mk_auto m then ''flame-marker--timer-clear flame-marker--auto'' else ''flame-marker--timer-clear'')
      else if mk_kind m = ''system.exception'' then ''flame-marker--exception''
      else if mk_kind m = ''system.exhaustion'' then ''flame-marker--exhaustion''
      else ''flame-marker--call'')"

definition markerTitleText :: "marker \<Rightarrow> string" where
  "markerTitleText m =
     (case (if mk_kind m = ''system.exhaustion'' then mk_budget m else None) of
        Some budget \<Rightarrow>
          mk_kind m @ '': '' @ mk_name m @ '' (budget='' @ show_int budget @
          (case mk_observed m of None \<Rightarrow> [] | Some observed \<Rightarrow> '', observed='' @ show_int observed) @ '')''
      | None \<Rightarrow>
          (case mk_timerId m of
             Some t \<Rightarrow> if t = [] then mk_kind m @ '': '' @ mk_name m else mk_name m @ '' (timerId='' @ t @ '')''
           | None \<Rightarrow> mk_kind m @ '': '' @ mk_name m))"

definition hasAnyTimerMarker :: "layout \<Rightarrow> bool" where
  "hasAnyTimerMarker ly =
     list_ex (\<lambda>m. mk_kind m = ''system.call'' \<and>
        (mk_name m \<in> set TIMER_REGISTRATION_NAMES \<or> mk_name m \<in> set TIMER_CLEAR_NAMES)) (ly_markers ly)"

record legend_presence =
  hasTrigger :: bool
  hasAction :: bool
  hasRest :: bool
  hasOrphan :: bool
  hasTimerSet :: bool
  hasTimerClear :: bool
  hasCallMarker :: bool
  hasException :: bool
  hasExhaustion :: bool

definition detect_bar :: "legend_presence \<Rightarrow> bar \<Rightarrow> legend_presence" where
  "detect_bar l b =
     (let l = (if bar_orphan b then l\<lparr>hasOrphan := True\<rparr> else l)
      in case bar_kind b of
           TriggerBar \<Rightarrow> l\<lparr>hasTrigger := True\<rparr>
         | ActionBar \<Rightarrow> l\<lparr>hasAction := True\<rparr>
         | RestBar \<Rightarrow> l\<lparr>hasRest := True\<rparr>)"

definition detect_marker :: "legend_presence \<Rightarrow> marker \<Rightarrow> legend_presence" where
  "detect_marker l m =
     (if mk_kind m = ''system.exception'' then l\<lparr>hasException := True\<rparr>
      else if mk_kind m = ''system.exhaustion'' then l\<lparr>hasExhaustion := True\<rparr>
      else if mk_kind m = ''system.call'' \<and> mk_name m \<in> set TIMER_REGISTRATION_NAMES then l\<lparr>hasTimerSet := True\<rparr>
      else if mk_kind m = ''system.call'' \<and> mk_name m \<in> set TIMER_CLEAR_NAMES then l\<lparr>hasTimerClear := True\<rparr>
      else l\<lparr>hasCallMarker := True\<rparr>)"

definition detectLegendPresence :: "layout \<Rightarrow> legend_presence" where
  "detectLegendPresence ly =
     foldl detect_marker
       (foldl detect_bar
          \<lparr>hasTrigger = False, hasAction = False, hasRest = False, hasOrphan = False, hasTimerSet = False,
           hasTimerClear = False, hasCallMarker = False, hasException = False, hasExhaustion = False\<rparr> (ly_bars ly))
       (ly_markers ly)"

definition iconForMarker :: "string \<Rightarrow> string \<Rightarrow> string" where
  "iconForMarker kind name =
     (if kind = ''system.exception'' then ''triangle-alert''
      else if kind = ''system.exhaustion'' then ''circle-x''
      else if kind \<noteq> ''system.call'' then ''circle-question-mark''
      else if name = ''setTimeout'' \<or> name = ''setInterval'' then ''timer''
      else if name = ''clearTimeout'' \<or> name = ''clearInterval'' then ''timer-off''
      else if startsWith name ''console.'' then ''scroll-text''
      else if name = ''randomUUID'' \<or> name = ''wasi.random_get'' then ''dices''
      else if startsWith name ''crypto.subtle.'' \<or> startsWith name ''crypto.'' then ''key-round''
      else if startsWith name ''performance.'' then ''gauge''
      else if name = ''scheduler.postTask'' then ''clock-plus''
      else if name = ''wasi.clock_time_get'' then ''clock''
      else if name = ''wasi.fd_write'' then ''pen-line''
      else if name = ''sendMail'' then ''mail''
      else ''circle-question-mark'')"

definition iconForBar :: "bar_kind \<Rightarrow> string \<Rightarrow> string option \<Rightarrow> string option" where
  "iconForBar kind name triggerKind =
     (case kind of
        TriggerBar \<Rightarrow>
          Some (if triggerKind = Some ''cron'' then ''clock'' else if triggerKind = Some ''http'' then ''globe''
                else if triggerKind = Some ''manual'' then ''user'' else if triggerKind = Some ''imap'' then ''mail''
                else if triggerKind = Some ''ws'' then ''plug'' else if triggerKind = Some ''upload'' then ''upload'' else ''zap'')
      | ActionBar \<Rightarrow> Some ''monitor-cog''
      | RestBar \<Rightarrow>
          if startsWith name ''fetch '' \<or> name = ''fetch'' then Some ''globe''
          else if startsWith name ''executeSql'' then Some ''database-zap''
          else if name = ''queue.put'' then Some ''layer-plus''
          else if name = ''queue.get'' then Some ''layer-minus''
          else None)"

definition shortLabelFor :: "string \<Rightarrow> string" where
  "shortLabelFor name =
     (if startsWith name ''fetch '' then ''fetch'' else if startsWith name ''executeSql '' then ''executeSql'' else name)"

datatype layout_result = LayoutOverflows | NoLayout | LayoutOk layout

definition computeLayout :: "sandbox_event list \<Rightarrow> layout_result" where
  "computeLayout events =
     (case find (\<lambda>e. se_kind e = ''trigger.request'' \<and> se_ref e = None) events of
        None \<Rightarrow> NoLayout
      | Some triggerEvent \<Rightarrow>
          (case find (\<lambda>e. (se_kind e = ''trigger.response'' \<or> se_kind e = ''trigger.error'') \<and> se_ref e = Some (se_seq triggerEvent)) events of
             None \<Rightarrow> NoLayout
           | Some terminalEvent \<Rightarrow>
               let bySeq = index_events events;
                   classified = map (\<lambda>e. (se_seq e, classify_event (Suc (length events)) bySeq e)) events
               in if list_ex (\<lambda>c. snd c = None) classified then LayoutOverflows
                  else
                    let where_is = (\<lambda>seq. case map_get classified seq of Some (Some x) \<Rightarrow> x | _ \<Rightarrow> (MainLane, 0));
                        requestEvents = sort_key (\<lambda>e. (se_ts e, se_seq e)) (filter (\<lambda>e. isRequestKind (se_kind e)) events);
                        p = foldl (place_request where_is (terminals events) terminalEvent)
                              \<lparr>pl_main = [], pl_track = [], pl_bars = [], pl_subRow = []\<rparr> requestEvents;
                        bars = map (\<lambda>b. b\<lparr>bar_row := bar_row_of p where_is b\<rparr>) (pl_bars p);
                        rowBySeq = foldl (\<lambda>m b. map_set (bar_requestSeq b) (bar_row b, bar_location b) m)
                              [(se_seq triggerEvent, (0, MainLane))] bars;
                        markers = concat (map (layout_marker rowBySeq) events);
                        mainRows = snd (lane_offsets (pl_main p));
                        trackRows = snd (lane_offsets (pl_track p));
                        mainHas = list_ex (\<lambda>m. mk_location m = MainLane) markers;
                        trackHas = list_ex (\<lambda>m. mk_location m = TrackLane) markers
                    in LayoutOk
                         \<lparr>ly_bars = bars, ly_markers = markers, ly_connectors = layout_connectors bars markers,
                          ly_mainRows = max (mainRows + (if mainHas then 1 else 0)) 1,
                          ly_trackRows = trackRows + (if trackHas then 1 else 0),
                          ly_mainMarkerRow = (if mainHas then Some mainRows else None),
                          ly_trackMarkerRow = (if trackHas then Some trackRows else None),
                          ly_totalDurationTs = max 1 (se_ts terminalEvent - se_ts triggerEvent),
                          ly_triggerEvent = triggerEvent, ly_terminalEvent = terminalEvent,
                          ly_succeeded = (se_kind terminalEvent = ''trigger.response'')\<rparr>))"

section \<open>Bars never overlap\<close>

lemma overlap_sym: "overlap s e (s', e') = overlap s' e' (s, e)"
  by (auto simp: overlap_def)

lemma greedy_row:
  "greedyAssignSubRow b s e = (b', i) \<Longrightarrow>
     i < length b' \<and> length b \<le> length b' \<and> (s, e) \<in> set (b' ! i) \<and>
     (\<forall>j < length b. set (b ! j) \<subseteq> set (b' ! j)) \<and> (i < length b \<longrightarrow> (\<forall>r \<in> set (b ! i). \<not> overlap s e r))"
proof (induction b s e arbitrary: b' i rule: greedyAssignSubRow.induct)
  case (2 r rs s e)
  show ?case
  proof (cases "list_ex (overlap s e) r")
    case True
    then obtain rs' i' where rec: "greedyAssignSubRow rs s e = (rs', i')" "b' = r # rs'" "i = Suc i'"
      using "2.prems" by (auto split: prod.splits)
    from "2.IH" [OF _ rec(1)] True rec(2,3) show ?thesis by (auto simp: nth_Cons split: nat.splits)
  next
    case False
    with "2.prems" show ?thesis by (auto simp: nth_Cons list_ex_iff split: nat.splits)
  qed
qed auto

definition subs_at :: "row_buckets \<Rightarrow> nat \<Rightarrow> nat" where
  "subs_at bs d = (case map_get bs d of Some b \<Rightarrow> length b | None \<Rightarrow> 0)"

lemma depth_offsets_sum:
  "depth_offsets bs ds off = (offs, n) \<Longrightarrow>
     length offs = length ds \<and> n = off + int (sum_list (map (subs_at bs) ds)) \<and>
     (\<forall>i < length ds. 0 < subs_at bs (ds ! i) \<longrightarrow> offs ! i = off + int (sum_list (map (subs_at bs) (take i ds))))"
proof (induction ds arbitrary: off offs n)
  case (Cons d ds)
  let ?off = "off + int (subs_at bs d)"
  obtain offs' n' where rec: "depth_offsets bs ds ?off = (offs', n')" by fastforce
  have here: "offs = (if subs_at bs d = 0 then -1 else off) # offs'" "n = n'"
    using Cons.prems rec by (auto simp: subs_at_def Let_def split: option.splits if_splits)
  from Cons.IH [OF rec] here show ?case by (auto simp: nth_Cons split: nat.split)
qed simp

lemma upt_split: "i \<le> j \<Longrightarrow> [0 ..< j] = [0 ..< i] @ [i ..< j]"
  using upt_add_eq_append [of 0 i "j - i"] by simp

lemma max_key: "d \<in> set ks \<Longrightarrow> d < foldr (\<lambda>d n. max (Suc d) n) ks (0 :: nat)"
  by (induction ks) auto

lemma lane_offset:
  assumes "0 < subs_at bs d"
  shows "d < length (fst (lane_offsets bs))" and "fst (lane_offsets bs) ! d = int (sum_list (map (subs_at bs) [0 ..< d]))"
    and "int (sum_list (map (subs_at bs) [0 ..< Suc d])) \<le> snd (lane_offsets bs)"
proof -
  let ?m = "foldr (\<lambda>d n. max (Suc d) n) (keys bs) (0 :: nat)"
  obtain offs n where lane: "lane_offsets bs = (offs, n)" by fastforce
  have sums: "length offs = ?m" "n = int (sum_list (map (subs_at bs) [0 ..< ?m]))"
    "\<And>i. i < ?m \<Longrightarrow> 0 < subs_at bs i \<Longrightarrow> offs ! i = int (sum_list (map (subs_at bs) [0 ..< i]))"
    using depth_offsets_sum [of bs "[0 ..< ?m]" 0 offs n] lane by (auto simp: lane_offsets_def take_map)
  have "d \<in> set (keys bs)" using assms by (force simp: subs_at_def split: option.splits dest: map_of_SomeD)
  then have d: "d < ?m" by (rule max_key)
  then show "d < length (fst (lane_offsets bs))" "fst (lane_offsets bs) ! d = int (sum_list (map (subs_at bs) [0 ..< d]))"
    using sums assms lane by simp_all
  have "[0 ..< ?m] = [0 ..< Suc d] @ [Suc d ..< ?m]" using d by (intro upt_split) simp
  then have "sum_list (map (subs_at bs) [0 ..< Suc d]) \<le> sum_list (map (subs_at bs) [0 ..< ?m])" by simp
  then show "int (sum_list (map (subs_at bs) [0 ..< Suc d])) \<le> snd (lane_offsets bs)" using sums(2) lane by simp
qed

lemma offsets_apart:
  assumes "d < d'"
  shows "sum_list (map (subs_at bs) [0 ..< d]) + subs_at bs d \<le> sum_list (map (subs_at bs) [0 ..< d'])"
proof -
  have "[0 ..< d'] = [0 ..< Suc d] @ [Suc d ..< d']" using assms by (intro upt_split) simp
  then show ?thesis by simp
qed

abbreviation pl_rows :: "placing \<Rightarrow> lane \<Rightarrow> row_buckets" where
  "pl_rows p loc \<equiv> (case loc of MainLane \<Rightarrow> pl_main p | TrackLane \<Rightarrow> pl_track p)"

definition bar_placed :: "placing \<Rightarrow> (nat \<Rightarrow> lane \<times> nat) \<Rightarrow> bar \<Rightarrow> nat \<Rightarrow> bool" where
  "bar_placed p where_is b sr \<longleftrightarrow>
     (let (loc, depth) = where_is (bar_requestSeq b)
      in bar_location b = loc \<and> map_get (pl_subRow p) (bar_requestSeq b) = Some sr \<and> sr < length (pl_bucket p loc depth) \<and>
         (bar_startTs b, bar_endTs b) \<in> set (pl_bucket p loc depth ! sr))"

definition placing_ok :: "(nat \<Rightarrow> lane \<times> nat) \<Rightarrow> placing \<Rightarrow> bool" where
  "placing_ok where_is p \<longleftrightarrow>
     (\<forall>b \<in> set (pl_bars p). \<exists>sr. bar_placed p where_is b sr) \<and>
     (\<forall>b \<in> set (pl_bars p). \<forall>b' \<in> set (pl_bars p).
        bar_requestSeq b \<noteq> bar_requestSeq b' \<and> where_is (bar_requestSeq b) = where_is (bar_requestSeq b') \<and>
        map_get (pl_subRow p) (bar_requestSeq b) = map_get (pl_subRow p) (bar_requestSeq b') \<longrightarrow>
        \<not> overlap (bar_startTs b) (bar_endTs b) (bar_startTs b', bar_endTs b'))"

lemma bucket_set [simp]:
  "pl_bucket (set_bucket p loc d b) loc' d' = (if loc' = loc \<and> d' = d then b else pl_bucket p loc' d')"
  "pl_bars (set_bucket p loc d b) = pl_bars p" "pl_subRow (set_bucket p loc d b) = pl_subRow p"
  by (cases loc; cases loc'; simp add: pl_bucket_def set_bucket_def)+

lemma bucket_frame [simp]:
  "pl_bucket (p\<lparr>pl_subRow := sr, pl_bars := bs\<rparr>) loc d = pl_bucket p loc d"
  by (cases loc) (simp_all add: pl_bucket_def)

lemma place_ok:
  assumes ok: "placing_ok where_is p" and fresh: "se_seq req \<notin> bar_requestSeq ` set (pl_bars p)"
  shows "placing_ok where_is (place_request where_is terms t p req)"
proof (cases "barKindFromEventKind (se_kind req)")
  case (Some kind)
  obtain loc depth where w: "where_is (se_seq req) = (loc, depth)" by fastforce
  define endTs where "endTs = (case map_get terms (se_seq req) of Some x \<Rightarrow> se_ts x | None \<Rightarrow> se_ts t)"
  obtain b' i where g: "greedyAssignSubRow (pl_bucket p loc depth) (se_ts req) endTs = (b', i)" by fastforce
  note row = greedy_row [OF g]
  define nb where "nb = \<lparr>bar_kind = kind, bar_name = se_name req, bar_requestSeq = se_seq req, bar_terminalSeq = map_option se_seq (map_get terms (se_seq req)),
    bar_startTs = se_ts req, bar_endTs = endTs, bar_row = -1, bar_location = loc,
    bar_errored = (case map_get terms (se_seq req) of Some x \<Rightarrow> isErrorKind (se_kind x) | None \<Rightarrow> False),
    bar_orphan = (map_get terms (se_seq req) = None), bar_timerId = (if isAnyTimerEvent req then timerIdFromEvent req else None)\<rparr>"
  let ?p = "(set_bucket p loc depth b')\<lparr>pl_subRow := map_set (se_seq req) i (pl_subRow p), pl_bars := pl_bars p @ [nb]\<rparr>"
  have step: "place_request where_is terms t p req = ?p"
    by (simp add: place_request_def Some w g endTs_def [symmetric] Let_def nb_def)
  have nb: "bar_requestSeq nb = se_seq req" "bar_location nb = loc" "bar_startTs nb = se_ts req" "bar_endTs nb = endTs" by (simp_all add: nb_def)
  have new: "bar_placed ?p where_is nb i" using row by (simp add: bar_placed_def nb w)
  have old: "bar_placed ?p where_is b sr" if "b \<in> set (pl_bars p)" "bar_placed p where_is b sr" for b sr
  proof -
    have ne: "bar_requestSeq b \<noteq> se_seq req" using fresh that(1) by force
    obtain loc1 d1 where w1: "where_is (bar_requestSeq b) = (loc1, d1)" by fastforce
    show ?thesis
    proof (cases "loc1 = loc \<and> d1 = depth")
      case True
      with that(2) w1 have "sr < length (pl_bucket p loc depth)" "(bar_startTs b, bar_endTs b) \<in> set (pl_bucket p loc depth ! sr)"
        by (auto simp: bar_placed_def)
      with row have "sr < length b'" "(bar_startTs b, bar_endTs b) \<in> set (b' ! sr)" by (auto dest: order_less_le_trans)
      with True that(2) w1 ne show ?thesis by (simp add: bar_placed_def)
    next
      case False
      with that(2) w1 ne show ?thesis by (auto simp: bar_placed_def)
    qed
  qed
  have apart: "\<not> overlap (se_ts req) endTs (bar_startTs b, bar_endTs b)"
    if b: "b \<in> set (pl_bars p)" "where_is (bar_requestSeq b) = (loc, depth)" "map_get (pl_subRow p) (bar_requestSeq b) = Some i" for b
  proof -
    from ok b(1) obtain sr where "bar_placed p where_is b sr" by (auto simp: placing_ok_def)
    with b(2,3) have "i < length (pl_bucket p loc depth)" "(bar_startTs b, bar_endTs b) \<in> set (pl_bucket p loc depth ! i)"
      by (auto simp: bar_placed_def)
    with row show ?thesis by blast
  qed
  show ?thesis
    unfolding placing_ok_def step
  proof (intro conjI ballI impI)
    fix b assume b: "b \<in> set (pl_bars ?p)"
    show "\<exists>sr. bar_placed ?p where_is b sr"
    proof (cases "b = nb")
      case False
      with b have b: "b \<in> set (pl_bars p)" by simp
      with ok obtain sr where "bar_placed p where_is b sr" by (auto simp: placing_ok_def)
      from old [OF b this] show ?thesis ..
    qed (use new in blast)
  next
    fix b b2
    assume mem: "b \<in> set (pl_bars ?p)" "b2 \<in> set (pl_bars ?p)"
      and same: "bar_requestSeq b \<noteq> bar_requestSeq b2 \<and> where_is (bar_requestSeq b) = where_is (bar_requestSeq b2) \<and>
        map_get (pl_subRow ?p) (bar_requestSeq b) = map_get (pl_subRow ?p) (bar_requestSeq b2)"
    have seq: "bar_requestSeq x \<noteq> se_seq req" if "x \<in> set (pl_bars p)" for x using fresh that by force
    consider "b = nb" "b2 \<in> set (pl_bars p)" | "b2 = nb" "b \<in> set (pl_bars p)" | "b \<in> set (pl_bars p)" "b2 \<in> set (pl_bars p)"
      using mem same by auto
    then show "\<not> overlap (bar_startTs b) (bar_endTs b) (bar_startTs b2, bar_endTs b2)"
    proof cases
      case 1
      with same seq [of b2] w show ?thesis using apart [of b2] by (simp add: nb)
    next
      case 2
      with same seq [of b] w show ?thesis using apart [of b] overlap_sym by (simp add: nb)
    next
      case 3
      with same seq [of b] seq [of b2] ok show ?thesis by (simp add: placing_ok_def)
    qed
  qed
qed (simp add: place_request_def ok)

lemma place_bars:
  assumes "isRequestKind (se_kind req)"
  shows "map bar_requestSeq (pl_bars (place_request where_is terms t p req)) = map bar_requestSeq (pl_bars p) @ [se_seq req]"
  using assms by (auto simp: place_request_def barKindFromEventKind_def Let_def split: prod.splits option.splits)

lemma place_all_ok:
  assumes "placing_ok where_is p" and "distinct (map bar_requestSeq (pl_bars p) @ map se_seq reqs)"
    and "list_all (isRequestKind \<circ> se_kind) reqs"
  shows "placing_ok where_is (foldl (place_request where_is terms t) p reqs) \<and>
     map bar_requestSeq (pl_bars (foldl (place_request where_is terms t) p reqs)) = map bar_requestSeq (pl_bars p) @ map se_seq reqs"
  using assms
proof (induction reqs arbitrary: p)
  case (Cons req reqs)
  have fresh: "se_seq req \<notin> bar_requestSeq ` set (pl_bars p)" using Cons.prems(2) by auto
  have seqs: "map bar_requestSeq (pl_bars (place_request where_is terms t p req)) = map bar_requestSeq (pl_bars p) @ [se_seq req]"
    using Cons.prems(3) by (intro place_bars) simp
  with Cons.IH [OF place_ok [OF Cons.prems(1) fresh], of terms t] Cons.prems(2,3) show ?case by simp
qed simp

section \<open>Rows\<close>

lemma bucket_rows: "length (pl_bucket p loc d) = subs_at (pl_rows p loc) d"
  by (simp add: pl_bucket_def subs_at_def split: option.splits)

lemma bar_row_placed:
  assumes "bar_placed p where_is b sr" and w: "where_is (bar_requestSeq b) = (loc, d)"
  shows "bar_location b = loc" and "sr < subs_at (pl_rows p loc) d"
    and "bar_row_of p where_is b = int (sum_list (map (subs_at (pl_rows p loc)) [0 ..< d]) + sr)"
proof -
  from assms have b: "bar_location b = loc" "map_get (pl_subRow p) (bar_requestSeq b) = Some sr" "sr < length (pl_bucket p loc d)"
    by (auto simp: bar_placed_def)
  then show loc: "bar_location b = loc" and sr: "sr < subs_at (pl_rows p loc) d" by (simp_all add: bucket_rows)
  then have "0 < subs_at (pl_rows p loc) d" by simp
  note off = lane_offset [OF this]
  show "bar_row_of p where_is b = int (sum_list (map (subs_at (pl_rows p loc)) [0 ..< d]) + sr)"
    unfolding bar_row_of_def w loc b(2) Let_def snd_conv using off(1,2) by simp
qed

lemma same_row:
  assumes "sr < subs_at bs d" "sr' < subs_at bs d'"
    and eq: "sum_list (map (subs_at bs) [0 ..< d]) + sr = sum_list (map (subs_at bs) [0 ..< d']) + sr'"
  shows "d = d' \<and> sr = sr'"
proof (cases d d' rule: linorder_cases)
  case less
  from offsets_apart [OF less, of bs] assms show ?thesis by simp
next
  case greater
  from offsets_apart [OF greater, of bs] assms show ?thesis by simp
qed (use eq in simp)

definition rows_ok :: "bar list \<Rightarrow> int \<Rightarrow> int \<Rightarrow> bool" where
  "rows_ok bars mainRows trackRows \<longleftrightarrow>
     list_all (\<lambda>b. 0 \<le> bar_row b \<and> bar_row b < (case bar_location b of MainLane \<Rightarrow> mainRows | TrackLane \<Rightarrow> trackRows)) bars \<and>
     list_all (\<lambda>b. list_all (\<lambda>b'. bar_requestSeq b = bar_requestSeq b' \<or> bar_location b \<noteq> bar_location b' \<or> bar_row b \<noteq> bar_row b' \<or>
        \<not> overlap (bar_startTs b) (bar_endTs b) (bar_startTs b', bar_endTs b')) bars) bars"

lemma placed_rows_ok:
  assumes ok: "placing_ok where_is p"
  shows "rows_ok (map (\<lambda>b. b\<lparr>bar_row := bar_row_of p where_is b\<rparr>) (pl_bars p)) (snd (lane_offsets (pl_main p))) (snd (lane_offsets (pl_track p)))"
proof -
  have rng: "0 \<le> bar_row_of p where_is b \<and>
      bar_row_of p where_is b < (case bar_location b of MainLane \<Rightarrow> snd (lane_offsets (pl_main p)) | TrackLane \<Rightarrow> snd (lane_offsets (pl_track p)))"
    if "b \<in> set (pl_bars p)" for b
  proof -
    from ok that obtain sr where b: "bar_placed p where_is b sr" by (auto simp: placing_ok_def)
    obtain loc d where w: "where_is (bar_requestSeq b) = (loc, d)" by fastforce
    note row = bar_row_placed [OF b w]
    from lane_offset(3) [of "pl_rows p loc" d] row(2)
    have "int (sum_list (map (subs_at (pl_rows p loc)) [0 ..< d]) + sr) < snd (lane_offsets (pl_rows p loc))" by simp
    with row(1,3) show ?thesis by (cases loc) simp_all
  qed
  have apart: "\<not> overlap (bar_startTs b) (bar_endTs b) (bar_startTs b', bar_endTs b')"
    if m: "b \<in> set (pl_bars p)" "b' \<in> set (pl_bars p)" and ne: "bar_requestSeq b \<noteq> bar_requestSeq b'"
      and same: "bar_location b = bar_location b'" "bar_row_of p where_is b = bar_row_of p where_is b'" for b b'
  proof -
    have "\<exists>sr. bar_placed p where_is b sr" "\<exists>sr. bar_placed p where_is b' sr" using ok m by (auto simp: placing_ok_def)
    then obtain sr sr' where b: "bar_placed p where_is b sr" "bar_placed p where_is b' sr'" by blast
    obtain loc d loc' d' where w: "where_is (bar_requestSeq b) = (loc, d)" "where_is (bar_requestSeq b') = (loc', d')" by fastforce
    note row = bar_row_placed [OF b(1) w(1)] bar_row_placed [OF b(2) w(2)]
    have loc: "loc' = loc" using row(1,4) same(1) by simp
    have "d = d' \<and> sr = sr'"
      using row(2,3,5,6) same(2) unfolding loc by (intro same_row [of sr "pl_rows p loc" d sr' d']) (simp_all only: of_nat_eq_iff)
    then have "where_is (bar_requestSeq b) = where_is (bar_requestSeq b')"
      "map_get (pl_subRow p) (bar_requestSeq b) = map_get (pl_subRow p) (bar_requestSeq b')"
      using w loc b by (simp_all add: bar_placed_def)
    with ok m ne show ?thesis unfolding placing_ok_def by blast
  qed
  show ?thesis using rng apart by (auto simp: rows_ok_def list_all_iff)
qed

section \<open>The recursion ends\<close>

lemma index_events_get: "map_get (index_events events) r = Some e \<Longrightarrow> e \<in> set events \<and> se_seq e = r"
proof -
  have "map_get (foldl (\<lambda>m e. map_set (se_seq e) e m) m events) r = Some e \<Longrightarrow>
      map_get m r = Some e \<or> e \<in> set events \<and> se_seq e = r" for m
    by (induction events arbitrary: m) (force split: if_splits)+
  from this [of "[]"] show "map_get (index_events events) r = Some e \<Longrightarrow> e \<in> set events \<and> se_seq e = r"
    by (simp add: index_events_def)
qed

lemma filter_less:
  assumes "\<And>x. P x \<Longrightarrow> Q x" and "x \<in> set xs" "Q x" "\<not> P x"
  shows "length (filter P xs) < length (filter Q xs)"
proof -
  have "filter P xs = filter P (filter Q xs)" using assms(1) by (auto simp: filter_filter intro: filter_cong)
  moreover have "length (filter P (filter Q xs)) < length (filter Q xs)" using assms by (intro length_filter_less [of x]) auto
  ultimately show ?thesis by simp
qed

lemma classify_ends:
  assumes refs: "list_all (\<lambda>e. case se_ref e of Some r \<Rightarrow> r < se_seq e | None \<Rightarrow> True) events"
  shows "e \<in> set events \<Longrightarrow> length (filter (\<lambda>x. se_seq x < se_seq e) events) < fuel \<Longrightarrow>
    classify_event fuel (index_events events) e \<noteq> None"
proof (induction fuel arbitrary: e)
  case (Suc fuel)
  show ?case
  proof (cases "se_ref e")
    case r: (Some r)
    show ?thesis
    proof (cases "map_get (index_events events) r")
      case (Some parent)
      from index_events_get [OF this] have parent: "parent \<in> set events" "se_seq parent = r" by simp_all
      from refs Suc.prems(1) r have "r < se_seq e" by (auto simp: list_all_iff)
      then have "length (filter (\<lambda>x. se_seq x < se_seq parent) events) < length (filter (\<lambda>x. se_seq x < se_seq e) events)"
        using parent by (intro filter_less [of _ _ parent]) auto
      with Suc.IH [OF parent(1)] Suc.prems(2) r Some show ?thesis by simp
    qed (simp add: r)
  qed simp
qed simp

lemma layout_of_ordered_events:
  assumes refs: "list_all (\<lambda>e. case se_ref e of Some r \<Rightarrow> r < se_seq e | None \<Rightarrow> True) events"
    and "distinct (map se_seq events)"
  shows "case computeLayout events of
       LayoutOverflows \<Rightarrow> False
     | NoLayout \<Rightarrow> True
     | LayoutOk ly \<Rightarrow>
         mset (map bar_requestSeq (ly_bars ly)) = mset (map se_seq (filter (isRequestKind \<circ> se_kind) events)) \<and>
         rows_ok (ly_bars ly) (ly_mainRows ly) (ly_trackRows ly)"
proof (cases "find (\<lambda>e. se_kind e = ''trigger.request'' \<and> se_ref e = None) events")
  case tr: (Some triggerEvent)
  let ?ended = "find (\<lambda>e. (se_kind e = ''trigger.response'' \<or> se_kind e = ''trigger.error'') \<and> se_ref e = Some (se_seq triggerEvent)) events"
  show ?thesis
  proof (cases ?ended)
    case te: (Some terminalEvent)
    define classified where "classified = map (\<lambda>e. (se_seq e, classify_event (Suc (length events)) (index_events events) e)) events"
    have "classify_event (Suc (length events)) (index_events events) e \<noteq> None" if "e \<in> set events" for e
      by (rule classify_ends [OF refs that]) (simp add: le_imp_less_Suc)
    then have no_overflow: "\<not> list_ex (\<lambda>c. snd c = None) classified"
      by (auto simp: classified_def list_ex_iff simp del: classify_event.simps)
    define where_is where "where_is = (\<lambda>seq. case map_get classified seq of Some (Some x) \<Rightarrow> x | _ \<Rightarrow> (MainLane, 0 :: nat))"
    define reqs where "reqs = sort_key (\<lambda>e. (se_ts e, se_seq e)) (filter (\<lambda>e. isRequestKind (se_kind e)) events)"
    define p where "p = foldl (place_request where_is (terminals events) terminalEvent) \<lparr>pl_main = [], pl_track = [], pl_bars = [], pl_subRow = []\<rparr> reqs"
    have seqs: "mset (map se_seq reqs) = mset (map se_seq (filter (isRequestKind \<circ> se_kind) events))"
      by (simp add: reqs_def comp_def)
    have "distinct (map se_seq reqs)" using assms(2) mset_eq_imp_distinct_iff [OF seqs] by (simp add: distinct_map_filter)
    then have p: "placing_ok where_is p" "map bar_requestSeq (pl_bars p) = map se_seq reqs"
      using place_all_ok [of where_is "\<lparr>pl_main = [], pl_track = [], pl_bars = [], pl_subRow = []\<rparr>" reqs "terminals events" terminalEvent]
      by (auto simp: p_def placing_ok_def reqs_def list_all_iff)
    from placed_rows_ok [OF p(1)]
    have rows: "rows_ok (map (\<lambda>b. b\<lparr>bar_row := bar_row_of p where_is b\<rparr>) (pl_bars p)) m t"
      if "snd (lane_offsets (pl_main p)) \<le> m" "snd (lane_offsets (pl_track p)) \<le> t" for m t
      using that by (fastforce simp: rows_ok_def list_all_iff split: lane.splits)
    have bars: "map bar_requestSeq (map (\<lambda>b. b\<lparr>bar_row := bar_row_of p where_is b\<rparr>) (pl_bars p)) = map se_seq reqs"
      using p(2) by (simp add: comp_def)
    show ?thesis
      unfolding computeLayout_def tr te option.simps Let_def classified_def [symmetric] if_not_P [OF no_overflow]
        where_is_def [symmetric] reqs_def [symmetric] p_def [symmetric] layout_result.simps layout.simps bars seqs
      by (intro conjI refl rows) auto
  qed (simp add: computeLayout_def tr)
qed (simp add: computeLayout_def)

section \<open>What reaches the page\<close>

fun escape_char :: "char \<Rightarrow> string" where
  "escape_char c =
     (if c = CHR ''&'' then ''&amp;'' else if c = CHR ''<'' then ''&lt;'' else if c = CHR ''>'' then ''&gt;''
      else if c = CHR 0x22 then ''&quot;'' else if c = CHR 0x27 then ''&#39;'' else [c])"

lemma replace_char_Cons [simp]:
  "replace_char c r [] = []"
  "replace_char c r (x # xs) = (if x = c then r else [x]) @ replace_char c r xs"
  by (simp_all add: replace_char_def)

lemma replace_char_append [simp]: "replace_char c r (xs @ ys) = replace_char c r xs @ replace_char c r ys"
  by (simp add: replace_char_def)

text \<open>The five passes never touch the output of an earlier one: the ampersand goes first.\<close>

lemma escapeHtml_single_pass: "escapeHtml s = concat (map escape_char s)"
  by (induction s) (simp_all add: escapeHtml_def)

lemma escapeHtml_clean: "set (escapeHtml s) \<inter> {CHR ''<'', CHR ''>'', CHR 0x22, CHR 0x27} = {}"
  by (induction s) (auto simp: escapeHtml_single_pass)

lemma events_json_closed: "CHR ''<'' \<notin> set (events_json s)"
  by (induction s) (auto simp: events_json_def)

lemma lanes_apart:
  assumes "0 \<le> row" "row < mainRows" "0 \<le> row'"
  shows "yForRow row MainLane mainRows + BAR_HEIGHT_PX < yForRow row' TrackLane mainRows"
  using assms by (simp add: yForRow_def px_defs)

lemma rows_of_lane_apart:
  assumes "row < row'"
  shows "yForRow row loc mainRows + BAR_HEIGHT_PX < yForRow row' loc mainRows"
  using assms by (cases loc) (simp_all add: yForRow_def px_defs)

lemma bars_within_picture:
  assumes "rows_ok (ly_bars ly) (ly_mainRows ly) (ly_trackRows ly)" "b \<in> set (ly_bars ly)" "1 \<le> ly_mainRows ly" "0 \<le> ly_trackRows ly"
  shows "0 \<le> yForRow (bar_row b) (bar_location b) (ly_mainRows ly) \<and>
    yForRow (bar_row b) (bar_location b) (ly_mainRows ly) + BAR_HEIGHT_PX \<le> svg_height ly"
proof -
  from assms(1,2) have "0 \<le> bar_row b" "bar_row b < (case bar_location b of MainLane \<Rightarrow> ly_mainRows ly | TrackLane \<Rightarrow> ly_trackRows ly)"
    by (auto simp: rows_ok_def list_all_iff)
  with assms(3,4) show ?thesis by (cases "bar_location b") (auto simp: yForRow_def svg_height_def px_defs)
qed

lemma legend_of_markers:
  "hasException (foldl detect_marker l ms) = (hasException l \<or> (\<exists>m \<in> set ms. mk_kind m = ''system.exception''))"
  by (induction ms arbitrary: l) (auto simp: detect_marker_def)

lemma legend_of_orphans: "hasOrphan (foldl detect_bar l bs) = (hasOrphan l \<or> (\<exists>b \<in> set bs. bar_orphan b))"
  by (induction bs arbitrary: l) (auto simp: detect_bar_def Let_def split: bar_kind.splits)

section \<open>The events of a run\<close>

lemma seq_inv_below: "seq_inv s \<Longrightarrow> n \<in> set (refStack s) \<Longrightarrow> n < seq s"
  unfolding seq_inv_def by blast

lemma pipe_refs:
  "pipe_inv bs \<Longrightarrow> run_steps pipe_step bs es = (bs', outs) \<Longrightarrow>
     list_all (\<lambda>(f, e). case se_ref e of Some r \<Rightarrow> r < se_seq e | None \<Rightarrow> True) outs"
proof (induction es arbitrary: bs outs)
  case (Cons e es)
  from Cons.prems(2) obtain bs1 o1 outs1 where r: "pipe_step bs e = (bs1, o1)" "run_steps pipe_step bs1 es = (bs', outs1)"
      "outs = (case o1 of None \<Rightarrow> outs1 | Some x \<Rightarrow> x # outs1)"
    by (rule run_steps_ConsE)
  note IH = Cons.IH [OF pipe_step_inv [OF Cons.prems(1) r(1)] r(2)]
  show ?case
  proof (cases o1)
    case (Some x)
    obtain f ev where x: "x = (f, ev)" by (cases x)
    from r(1) Some x obtain w where w: "next_event (snd bs) w = (snd bs1, Some ev)" "f = w_type w" by (auto elim: pipe_step_out)
    from Cons.prems(1) have i: "seq_inv (snd bs)" by (simp add: pipe_inv_def)
    have "case se_ref ev of Some r \<Rightarrow> r < se_seq ev | None \<Rightarrow> True"
      using next_event_frames [OF i w(1)] next_event_stamp [OF w(1)]
      by (auto simp: array_last_def intro: seq_inv_below [OF i] split: wire_framing.splits option.splits if_splits)
    with IH r(3) Some x show ?thesis by simp
  qed (use IH r(3) in simp)
qed simp

lemma finish_ordered:
  assumes "seq_inv s"
  shows "list_all (\<lambda>e. case se_ref e of Some r \<Rightarrow> r < se_seq e | None \<Rightarrow> True) (snd (finish s reason))"
    and "\<exists>n. map se_seq (snd (finish s reason)) = [seq s ..< seq s + n]"
proof -
  have fin: "snd (finish s reason) = [] \<or> (\<exists>r. snd (finish s reason) = synth_closes s r (seq s) (rev (vals (callMap s))))"
    by (auto simp: finish_def split: option.splits)
  then show "\<exists>n. map se_seq (snd (finish s reason)) = [seq s ..< seq s + n]"
    using synth_closes_seqs by (metis add.right_neutral list.map_disc_iff upt_rec order_less_irrefl)
  have "case se_ref e of Some r \<Rightarrow> r < se_seq e | None \<Rightarrow> True" if e: "e \<in> set (synth_closes s r (seq s) (rev (vals (callMap s))))" for e r
  proof -
    have "se_seq e \<in> set (map se_seq (synth_closes s r (seq s) (rev (vals (callMap s)))))" using e by simp
    then have "seq s \<le> se_seq e" by (simp only: synth_closes_seqs) simp
    moreover have "se_ref e \<in> set (map se_ref (synth_closes s r (seq s) (rev (vals (callMap s)))))" using e by simp
    then have "\<exists>n \<in> set (refStack s). se_ref e = Some n"
      using assms by (simp only: synth_closes_refs) (auto simp: seq_inv_def)
    ultimately obtain n where "n \<in> set (refStack s)" "se_ref e = Some n" "seq s \<le> se_seq e" by blast
    with seq_inv_below [OF assms, of n] show ?thesis by simp
  qed
  with fin show "list_all (\<lambda>e. case se_ref e of Some r \<Rightarrow> r < se_seq e | None \<Rightarrow> True) (snd (finish s reason))"
    by (auto simp: list_all_iff)
qed


end
