(* ===== verification/StdPlugin.thy ===== *)
theory StdPlugin
  imports Names Boundary NetGuard
begin

text \<open>
  What the host-side halves of the standard plugins (\<open>packages/sandbox-stdlib/src\<close>) share:
  reading properties of a value the guest sent, raising an error, and the errors of the network
  guard as the plugins see them.

  Values the guest sends are \<open>hval\<close>; its numbers are integers here, so \<open>Number.isInteger\<close> holds
  of every number. A property of an object that is not there reads as \<open>undefined\<close>. Class fields
  that are declared and never assigned hold \<open>undefined\<close>, which reads like an absent property.
\<close>

definition js_field :: "hval \<Rightarrow> string \<Rightarrow> hval" where
  "js_field v k = (case v of HObj fs \<Rightarrow> (case map_get fs k of Some x \<Rightarrow> x | None \<Rightarrow> HUndefined) | _ \<Rightarrow> HUndefined)"

definition is_object :: "hval \<Rightarrow> bool" where
  \<comment> \<open>\<open>v !== null && typeof v === "object"\<close>\<close>
  "is_object v = (classify_value v \<in> {''object'', ''array''})"

fun truthy :: "hval \<Rightarrow> bool" where
  "truthy HUndefined = False"
| "truthy HNull = False"
| "truthy (HBool b) = b"
| "truthy (HNum n) = (n \<noteq> 0)"
| "truthy (HStr s) = (s \<noteq> [])"
| "truthy v = True"

fun string_of :: "hval \<Rightarrow> string option" where
  "string_of (HStr s) = Some s"
| "string_of v = None"

fun number_of :: "hval \<Rightarrow> int option" where
  "number_of (HNum n) = Some n"
| "number_of v = None"

lemma string_of_Some: "string_of v = Some s \<longleftrightarrow> v = HStr s"
  by (cases v) auto

definition plugin_error :: "string \<Rightarrow> string \<Rightarrow> string \<Rightarrow> (string \<times> hval) list \<Rightarrow> raised" where
  \<comment> \<open>a subclass of \<open>GuestSafeError\<close> under the name it overrides\<close>
  "plugin_error stack name message props =
     Raised \<lparr>be_class = GuestSafe, be_name = name, be_message = message, be_stack = Some stack,
             be_props = (''name'', HStr name) # props\<rparr>"

definition host_error :: "string \<Rightarrow> string \<Rightarrow> raised" where
  "host_error name message =
     Raised \<lparr>be_class = HostOnly, be_name = name, be_message = message, be_stack = None, be_props = []\<rparr>"

fun net_raised :: "net_error \<Rightarrow> raised" where
  \<comment> \<open>\<open>HostBlockedError\<close> extends \<open>Error\<close>: the boundary does not forward it\<close>
  "net_raised (HostBlocked reason message) = host_error ''HostBlockedError'' message"
| "net_raised (OtherError message cause) = host_error ''Error'' message"

definition opt_prop :: "string \<Rightarrow> ('a \<Rightarrow> hval) \<Rightarrow> 'a option \<Rightarrow> (string \<times> hval) list" where
  "opt_prop key f v = (case v of Some x \<Rightarrow> [(key, f x)] | None \<Rightarrow> [])"

text \<open>What the guest sees of an error of a plugin: its name, the prefixed message and its properties.\<close>

lemma plugin_error_seen:
  "sanitizeForGuest (plugin_error stack name message props) publicName =
   sanitizeForGuest (plugin_error stack' name message props) publicName"
  by (simp add: sanitizeForGuest_def plugin_error_def own_props_def Let_def)

lemma host_error_opaque:
  "sanitizeForGuest (host_error name message) publicName = sanitizeForGuest (host_error name' message') publicName"
  by (simp add: sanitizeForGuest_def host_error_def Let_def)

lemma net_raised_opaque: "sanitizeForGuest (net_raised e) publicName = sanitizeForGuest (net_raised e') publicName"
  by (cases e; cases e') (auto intro: host_error_opaque)

section \<open>Plugins that open sockets\<close>

definition public_address :: "ipaddr_lib \<Rightarrow> string \<Rightarrow> bool" where
  "public_address lib a = (case ip_parse lib a of None \<Rightarrow> False | Some i \<Rightarrow> \<not> private_ip i)"

fun plugin_calls ::
  "('env \<Rightarrow> hval \<Rightarrow> run_handles \<Rightarrow> nat \<Rightarrow> run_handles \<times> 'conn list \<times> (raised + hval)) \<Rightarrow>
   'env \<Rightarrow> (nat \<times> hval) list \<Rightarrow> run_handles \<Rightarrow> run_handles \<times> 'conn list \<times> (raised + hval) list" where
  \<comment> \<open>the calls a guest makes one after the other, each with the client object it would open\<close>
  "plugin_calls handler env [] r = (r, [], [])"
| "plugin_calls handler env ((h, raw) # calls) r =
     (case handler env raw r h of (r1, cs, res) \<Rightarrow>
        (case plugin_calls handler env calls r1 of (r2, cs', rs) \<Rightarrow> (r2, cs @ cs', res # rs)))"

lemma track_release: "h \<notin> set (rh_open r) \<Longrightarrow> rh_open (rh_release (rh_track r h) h) = rh_open r"
  by (auto simp: rh_track_def rh_release_def filter_id_conv)

text \<open>
  What such a plugin promises about one call: it opens at most one connection, to an address the
  guard approved, and gives the client back before it answers.
\<close>

locale guarded_plugin =
  fixes handler :: "'env \<Rightarrow> hval \<Rightarrow> run_handles \<Rightarrow> nat \<Rightarrow> run_handles \<times> 'conn list \<times> (raised + hval)"
    and conn_address :: "'conn \<Rightarrow> string"
    and ip_lib :: "'env \<Rightarrow> ipaddr_lib"
    and unguarded :: "'env \<Rightarrow> bool"
  assumes call_shape:
    "handler env raw r h = (r', cs, res) \<Longrightarrow>
       cs = [] \<and> r' = r \<and> isl res \<or> (\<exists>c. cs = [c]) \<and> r' = rh_release (rh_track r h) h"
    and call_public:
    "handler env raw r h = (r', [c], res) \<Longrightarrow> \<not> unguarded env \<Longrightarrow> ipaddr_documented (ip_lib env) \<Longrightarrow>
       public_address (ip_lib env) (conn_address c)"
begin

lemma call_effects:
  assumes "handler env raw r h = (r', cs, res)" "\<not> unguarded env" "ipaddr_documented (ip_lib env)" "h \<notin> set (rh_open r)"
  shows "list_all (\<lambda>c. public_address (ip_lib env) (conn_address c)) cs \<and> length cs \<le> 1 \<and> rh_open r' = rh_open r"
  using call_shape [OF assms(1)] call_public [of env raw r h r' _ res] assms by (auto simp: track_release)

lemma calls_effects:
  assumes "\<not> unguarded env" "ipaddr_documented (ip_lib env)"
  shows "list_all (\<lambda>c. fst c \<notin> set (rh_open r)) calls \<Longrightarrow>
    (case plugin_calls handler env calls r of (r', cs, rs) \<Rightarrow>
       list_all (\<lambda>c. public_address (ip_lib env) (conn_address c)) cs \<and> length cs \<le> length calls \<and> length rs = length calls \<and>
       rh_open r' = rh_open r)"
proof (induction calls arbitrary: r)
  case (Cons c calls)
  obtain h raw where c: "c = (h, raw)" by (cases c)
  obtain r1 cs res where s: "handler env raw r h = (r1, cs, res)" by (cases "handler env raw r h") auto
  from call_effects [OF s assms] Cons.prems c
  have first: "list_all (\<lambda>c. public_address (ip_lib env) (conn_address c)) cs" "length cs \<le> 1" "rh_open r1 = rh_open r" by simp_all
  obtain r2 cs' rs where rest: "plugin_calls handler env calls r1 = (r2, cs', rs)" by (cases "plugin_calls handler env calls r1") auto
  from Cons.IH [of r1] Cons.prems first(3) rest first(1,2) s c show ?case by auto
qed simp

end

end
