(* ===== verification/SqlPlugin.thy ===== *)
theory SqlPlugin
  imports StdPlugin
begin

text \<open>
  The host half of the SQL plugin (\<open>packages/sandbox-stdlib/src/sql/worker.ts\<close> and
  \<open>sql-error.ts\<close>): validating what the guest asks for, choosing the host, the driver's options,
  turning rows into JSON and driver errors into curated ones.

  \<open>sql_env\<close> holds what lies outside: \<open>new URL\<close>, DNS, the address library, the PostgreSQL driver
  (given the connection string and its options, the query and its parameters), base64 and the text
  the engine gives for values. An error of the driver is the value it throws, a JavaScript object
  read by its properties.
\<close>

section \<open>Errors\<close>

datatype sql_error_kind = InvalidInput | ConnectionFailed | TimedOut | AuthFailed | QueryFailed

fun sql_kind_name :: "sql_error_kind \<Rightarrow> string" where
  "sql_kind_name InvalidInput = ''invalid-input''"
| "sql_kind_name ConnectionFailed = ''connection''"
| "sql_kind_name TimedOut = ''timeout''"
| "sql_kind_name AuthFailed = ''auth''"
| "sql_kind_name QueryFailed = ''query-error''"

record sql_error_options =
  so_kind :: sql_error_kind
  so_code :: "string option"
  so_severity :: "string option"
  so_position :: "int option"
  so_detail :: "string option"
  so_hint :: "string option"
  so_schemaName :: "string option"
  so_tableName :: "string option"
  so_columnName :: "string option"
  so_constraintName :: "string option"
  so_dataTypeName :: "string option"
  so_message :: "string option"

definition nonempty :: "string option \<Rightarrow> string option" where
  "nonempty s = (case s of Some [] \<Rightarrow> None | _ \<Rightarrow> s)"

definition sql_buildMessage :: "sql_error_options \<Rightarrow> string" where
  "sql_buildMessage opts =
     (let head = sql_kind_name (so_kind opts);
          head = (case nonempty (so_code opts) of Some c \<Rightarrow> head @ '' ('' @ c @ '')'' | None \<Rightarrow> head);
          head = (case nonempty (so_severity opts) of Some s \<Rightarrow> if s \<noteq> ''ERROR'' then head @ '' ['' @ s @ '']'' else head | None \<Rightarrow> head);
          suffix = (case nonempty (so_detail opts) of Some d \<Rightarrow> '': '' @ d | None \<Rightarrow> []);
          suffix = (case nonempty (so_hint opts) of Some h \<Rightarrow> suffix @ '' (hint: '' @ h @ '')'' | None \<Rightarrow> suffix)
      in head @ suffix)"

definition SqlError :: "string \<Rightarrow> sql_error_options \<Rightarrow> raised" where
  "SqlError stack opts =
     plugin_error stack ''SqlError'' (case so_message opts of Some m \<Rightarrow> m | None \<Rightarrow> sql_buildMessage opts)
       ((''kind'', HStr (sql_kind_name (so_kind opts))) #
        opt_prop ''code'' HStr (so_code opts) @ opt_prop ''severity'' HStr (so_severity opts) @
        opt_prop ''position'' HNum (so_position opts) @ opt_prop ''detail'' HStr (so_detail opts) @
        opt_prop ''hint'' HStr (so_hint opts) @ opt_prop ''schemaName'' HStr (so_schemaName opts) @
        opt_prop ''tableName'' HStr (so_tableName opts) @ opt_prop ''columnName'' HStr (so_columnName opts) @
        opt_prop ''constraintName'' HStr (so_constraintName opts) @ opt_prop ''dataTypeName'' HStr (so_dataTypeName opts))"

definition classifySqlKind :: "string option \<Rightarrow> string option \<Rightarrow> sql_error_kind" where
  "classifySqlKind code severity =
     (case code of
        None \<Rightarrow> if severity = None then ConnectionFailed else QueryFailed
      | Some c \<Rightarrow>
          if c \<noteq> [] \<and> is_upper (hd c) then
            (if c = ''CONNECT_TIMEOUT'' \<or> c = ''IDLE_TIMEOUT'' then TimedOut
             else if take 11 c = ''CONNECTION_'' then ConnectionFailed
             else QueryFailed)
          else if c = ''57014'' then TimedOut
          else if take 2 c = ''08'' then ConnectionFailed
          else if take 2 c = ''28'' then AuthFailed
          else if take 2 c = ''53'' then ConnectionFailed
          else QueryFailed)"

section \<open>Surroundings\<close>

record dsn_url =
  dsn_hostname :: string
  dsn_pathname :: string
  dsn_search :: "(string \<times> string) list"

record ssl_wire =
  ssl_ca :: "string option"
  ssl_cert :: "string option"
  ssl_key :: "string option"
  ssl_rejectUnauthorized :: "bool option"
  ssl_servername :: "string option"

datatype sql_ssl = SslFlag bool | SslObject ssl_wire

record pg_options =
  pg_max :: int
  pg_prepare :: bool
  pg_host :: string
  pg_connect_timeout :: int
  pg_statement_timeout :: string
  pg_ssl :: "sql_ssl option"
  pg_port :: "int option"
  pg_user :: "string option"
  pg_password :: "string option"
  pg_database :: "string option"

datatype pg_value =
    PgNull
  | PgUndefined
  | PgString string
  | PgBool bool
  | PgNumber int
  | PgNotFinite string
  | PgBigInt int
  | PgDate "string option" \<comment> \<open>\<open>None\<close>: an invalid date, whose \<open>toISOString\<close> throws\<close>
  | PgBytes string
  | PgArray "pg_value list"
  | PgObject "(string \<times> pg_value) list"
  | PgOther string \<comment> \<open>a symbol or a function, by its text\<close>

record pg_result =
  pr_isArray :: bool
  pr_rows :: "(string \<times> pg_value) list list"
  pr_columns :: "(string \<times> int) list option"
  pr_count :: "int option"

record sql_env =
  sq_parse :: "string \<Rightarrow> dsn_url option"
  sq_ip :: ipaddr_lib
  sq_dns :: "string \<Rightarrow> net_error + string list"
  sq_disabled :: bool
  sq_driver :: "string \<Rightarrow> pg_options \<Rightarrow> string \<Rightarrow> hval list \<Rightarrow> hval + pg_result"
  sq_base64 :: "string \<Rightarrow> string"
  sq_tag :: "hval \<Rightarrow> string" \<comment> \<open>\<open>Object.prototype.toString\<close>\<close>
  sq_text :: "hval \<Rightarrow> string" \<comment> \<open>\<open>String(v)\<close>\<close>
  sq_stack :: string

definition invalid_input :: "sql_env \<Rightarrow> string \<Rightarrow> raised" where
  "invalid_input env message =
     SqlError (sq_stack env)
       \<lparr>so_kind = InvalidInput, so_code = None, so_severity = None, so_position = None, so_detail = None, so_hint = None,
        so_schemaName = None, so_tableName = None, so_columnName = None, so_constraintName = None, so_dataTypeName = None,
        so_message = Some message\<rparr>"

section \<open>Input validation\<close>

record sql_connection_object =
  sc_connectionString :: "string option"
  sc_host :: "string option"
  sc_port :: "int option"
  sc_user :: "string option"
  sc_password :: "string option"
  sc_database :: "string option"
  sc_ssl :: "sql_ssl option"

datatype sql_connection = Dsn string | ConnObject sql_connection_object

record sql_input =
  si_connection :: sql_connection
  si_query :: string
  si_params :: "hval list"
  si_timeoutMs :: "int option" \<comment> \<open>\<open>options?.timeoutMs\<close>\<close>

definition sql_assertNonEmptyString :: "sql_env \<Rightarrow> hval \<Rightarrow> string \<Rightarrow> raised + string" where
  "sql_assertNonEmptyString env v path =
     (case string_of v of
        Some s \<Rightarrow> if s = [] then Inl (invalid_input env (path @ '' must be a non-empty string'')) else Inr s
      | None \<Rightarrow> Inl (invalid_input env (path @ '' must be a non-empty string'')))"

definition assertParam :: "sql_env \<Rightarrow> nat \<Rightarrow> hval \<Rightarrow> raised + hval" where
  "assertParam env index v =
     (if v = HNull \<or> classify_value v \<in> {''string'', ''number'', ''boolean''} then Inr v
      else Inl (invalid_input env
        (''params['' @ show_nat index @ ''] must be string | number | boolean | null (got '' @
         (if is_object v then sq_tag env v else classify_value v) @ '')'')))"

definition opt_string :: "sql_env \<Rightarrow> hval \<Rightarrow> string \<Rightarrow> string \<Rightarrow> raised + string option" where
  \<comment> \<open>one branch of the field-by-field validators\<close>
  "opt_string env obj key path =
     (let v = js_field obj key
      in if v = HUndefined then Inr None
         else (case string_of v of Some s \<Rightarrow> Inr (Some s) | None \<Rightarrow> Inl (invalid_input env (path @ '' must be a string''))))"

definition opt_positive :: "sql_env \<Rightarrow> hval \<Rightarrow> string \<Rightarrow> string \<Rightarrow> raised + int option" where
  "opt_positive env obj key path =
     (let v = js_field obj key
      in if v = HUndefined then Inr None
         else (case number_of v of
                 Some n \<Rightarrow> if n \<le> 0 then Inl (invalid_input env (path @ '' must be a positive integer'')) else Inr (Some n)
               | None \<Rightarrow> Inl (invalid_input env (path @ '' must be a positive integer''))))"

definition opt_flag :: "sql_env \<Rightarrow> hval \<Rightarrow> string \<Rightarrow> string \<Rightarrow> raised + bool option" where
  "opt_flag env obj key path =
     (case js_field obj key of
        HUndefined \<Rightarrow> Inr None
      | HBool b \<Rightarrow> Inr (Some b)
      | _ \<Rightarrow> Inl (invalid_input env (path @ '' must be a boolean'')))"

definition assertSslConfig :: "sql_env \<Rightarrow> hval \<Rightarrow> raised + sql_ssl" where
  "assertSslConfig env raw =
     (case raw of
        HBool b \<Rightarrow> Inr (SslFlag b)
      | _ \<Rightarrow>
          if \<not> is_object raw then Inl (invalid_input env ''connection.ssl must be a boolean or an object'')
          else and_then (opt_string env raw ''ca'' ''connection.ssl.ca'') (\<lambda>ca.
            and_then (opt_string env raw ''cert'' ''connection.ssl.cert'') (\<lambda>cert.
            and_then (opt_string env raw ''key'' ''connection.ssl.key'') (\<lambda>key.
            and_then (opt_flag env raw ''rejectUnauthorized'' ''connection.ssl.rejectUnauthorized'') (\<lambda>ru.
            and_then (opt_string env raw ''servername'' ''connection.ssl.servername'') (\<lambda>sn.
            Inr (SslObject \<lparr>ssl_ca = ca, ssl_cert = cert, ssl_key = key, ssl_rejectUnauthorized = ru, ssl_servername = sn\<rparr>)))))))"

definition assertConnectionObject :: "sql_env \<Rightarrow> hval \<Rightarrow> raised + sql_connection_object" where
  "assertConnectionObject env raw =
     and_then (opt_string env raw ''connectionString'' ''connection.connectionString'') (\<lambda>cs.
     and_then (opt_string env raw ''host'' ''connection.host'') (\<lambda>host.
     and_then (opt_positive env raw ''port'' ''connection.port'') (\<lambda>port.
     and_then (opt_string env raw ''user'' ''connection.user'') (\<lambda>user.
     and_then (opt_string env raw ''password'' ''connection.password'') (\<lambda>password.
     and_then (opt_string env raw ''database'' ''connection.database'') (\<lambda>database.
     and_then (if js_field raw ''ssl'' = HUndefined then Inr None else map_sum id Some (assertSslConfig env (js_field raw ''ssl''))) (\<lambda>ssl.
     Inr \<lparr>sc_connectionString = cs, sc_host = host, sc_port = port, sc_user = user, sc_password = password,
          sc_database = database, sc_ssl = ssl\<rparr>)))))))"

definition assertConnection :: "sql_env \<Rightarrow> hval \<Rightarrow> raised + sql_connection" where
  "assertConnection env raw =
     (case string_of raw of
        Some s \<Rightarrow> if s = [] then Inl (invalid_input env ''connection string must be non-empty'') else Inr (Dsn s)
      | None \<Rightarrow>
          if \<not> is_object raw then Inl (invalid_input env ''connection must be a string or object'')
          else map_sum id ConnObject (assertConnectionObject env raw))"

definition assertOptions :: "sql_env \<Rightarrow> hval \<Rightarrow> raised + int option" where
  "assertOptions env raw =
     (if raw = HUndefined then Inr None
      else if \<not> is_object raw then Inl (invalid_input env ''options must be an object if provided'')
      else opt_positive env raw ''timeoutMs'' ''options.timeoutMs'')"

definition assertInput :: "sql_env \<Rightarrow> hval \<Rightarrow> raised + sql_input" where
  "assertInput env raw =
     (if \<not> is_object raw then Inl (invalid_input env ''input must be an object'')
      else and_then (assertConnection env (js_field raw ''connection'')) (\<lambda>connection.
        and_then (sql_assertNonEmptyString env (js_field raw ''query'') ''query'') (\<lambda>query.
        and_then (case js_field raw ''params'' of
                    HUndefined \<Rightarrow> Inr []
                  | HArr vs \<Rightarrow> map_until (assertParam env) 0 vs
                  | _ \<Rightarrow> Inl (invalid_input env ''params must be an array if provided'')) (\<lambda>params.
        and_then (assertOptions env (js_field raw ''options'')) (\<lambda>timeoutMs.
        Inr \<lparr>si_connection = connection, si_query = query, si_params = params, si_timeoutMs = timeoutMs\<rparr>)))))"

section \<open>Connection inspection\<close>

definition strip_slash :: "string \<Rightarrow> string" where
  "strip_slash p = (if p \<noteq> [] \<and> hd p = CHR ''/'' then tl p else p)"

definition invalid_url :: raised where
  "invalid_url = host_error ''TypeError'' ''Invalid URL''"

definition extractHostnameFromDsn :: "sql_env \<Rightarrow> string \<Rightarrow> raised + string" where
  "extractHostnameFromDsn env dsn =
     (case sq_parse env dsn of
        None \<Rightarrow> Inl (invalid_input env ''connection string is not a valid URL (expected postgres://...)'')
      | Some u \<Rightarrow> if dsn_hostname u = [] then Inl (invalid_input env ''connection string has no host'') else Inr (dsn_hostname u))"

definition extractConnectionFacts :: "sql_env \<Rightarrow> sql_connection \<Rightarrow> raised + (string \<times> string)" where
  "extractConnectionFacts env conn =
     (case conn of
        Dsn s \<Rightarrow>
          (case sq_parse env s of
             None \<Rightarrow> Inl invalid_url
           | Some u \<Rightarrow>
               if dsn_hostname u = [] then Inl (invalid_input env ''connection string has no host'')
               else Inr (dsn_hostname u, strip_slash (dsn_pathname u)))
      | ConnObject c \<Rightarrow>
          and_then
            (case (nonempty (sc_host c), nonempty (sc_connectionString c)) of
               (None, Some cs) \<Rightarrow>
                 (case sq_parse env cs of
                    None \<Rightarrow> Inl invalid_url
                  | Some u \<Rightarrow>
                      Inr (nonempty (Some (dsn_hostname u)),
                           if nonempty (sc_database c) \<noteq> None then sc_database c else nonempty (Some (strip_slash (dsn_pathname u)))))
             | (h, _) \<Rightarrow> Inr (h, sc_database c))
            (\<lambda>(hostname, database).
               and_then
                 (case hostname of
                    Some h \<Rightarrow> Inr h
                  | None \<Rightarrow> extractHostnameFromDsn env (case sc_connectionString c of Some cs \<Rightarrow> cs | None \<Rightarrow> ''postgres://''))
                 (\<lambda>h. Inr (h, case database of Some d \<Rightarrow> d | None \<Rightarrow> []))))"

section \<open>Driver options\<close>

definition SQL_DEFAULT_TIMEOUT_MS :: int where "SQL_DEFAULT_TIMEOUT_MS = 30000"
definition SQL_MAX_TIMEOUT_MS :: int where "SQL_MAX_TIMEOUT_MS = 120000"
definition CONNECT_TIMEOUT_SECONDS :: int where "CONNECT_TIMEOUT_SECONDS = 10"

definition clampTimeout :: "int option \<Rightarrow> int" where
  "clampTimeout requested =
     (let v = (case requested of Some r \<Rightarrow> r | None \<Rightarrow> SQL_DEFAULT_TIMEOUT_MS)
      in if v > SQL_MAX_TIMEOUT_MS then SQL_MAX_TIMEOUT_MS else v)"

definition no_ssl_wire :: ssl_wire where
  "no_ssl_wire = \<lparr>ssl_ca = None, ssl_cert = None, ssl_key = None, ssl_rejectUnauthorized = None, ssl_servername = None\<rparr>"

definition buildSsl :: "sql_ssl option \<Rightarrow> string \<Rightarrow> sql_ssl option" where
  "buildSsl authorSsl originalHost =
     (case authorSsl of
        None \<Rightarrow> None
      | Some (SslFlag False) \<Rightarrow> Some (SslFlag False)
      | Some (SslFlag True) \<Rightarrow> Some (SslObject (no_ssl_wire\<lparr>ssl_servername := Some originalHost\<rparr>))
      | Some (SslObject w) \<Rightarrow> Some (SslObject (w\<lparr>ssl_servername := Some originalHost\<rparr>)))"

definition DSN_TLS_MODES_REQUIRING_SSL :: "string list" where
  "DSN_TLS_MODES_REQUIRING_SSL = [''require'', ''verify-ca'', ''verify-full'', ''prefer'', ''allow'']"

definition dsnRequestsTls :: "sql_env \<Rightarrow> string option \<Rightarrow> bool" where
  "dsnRequestsTls env connectionString =
     (case nonempty connectionString of
        None \<Rightarrow> False
      | Some cs \<Rightarrow>
          (case sq_parse env cs of
             None \<Rightarrow> False
           | Some u \<Rightarrow>
               (case (case map_get (dsn_search u) ''sslmode'' of Some m \<Rightarrow> Some m | None \<Rightarrow> map_get (dsn_search u) ''ssl'') of
                  None \<Rightarrow> False
                | Some m \<Rightarrow> m \<noteq> [] \<and> toLowerCase m \<in> set DSN_TLS_MODES_REQUIRING_SSL)))"

section \<open>Rows\<close>

fun coerceValue :: "sql_env \<Rightarrow> pg_value \<Rightarrow> hval option" where
  \<comment> \<open>\<open>None\<close>: \<open>toISOString\<close> throws a \<open>RangeError\<close>\<close>
  "coerceValue env PgNull = Some HNull"
| "coerceValue env PgUndefined = Some HNull"
| "coerceValue env (PgString s) = Some (HStr s)"
| "coerceValue env (PgBool b) = Some (HBool b)"
| "coerceValue env (PgNumber n) = Some (HNum n)"
| "coerceValue env (PgNotFinite s) = Some (HStr s)"
| "coerceValue env (PgBigInt n) = Some (HStr (show_int n))"
| "coerceValue env (PgDate d) = map_option HStr d"
| "coerceValue env (PgBytes bs) = Some (HStr (sq_base64 env bs))"
| "coerceValue env (PgArray vs) = map_option HArr (those (map (coerceValue env) vs))"
| "coerceValue env (PgObject fs) = map_option (\<lambda>vs. HObj (zip (map fst fs) vs)) (those (map (\<lambda>f. coerceValue env (snd f)) fs))"
| "coerceValue env (PgOther s) = Some (HStr s)"

definition coerceRow :: "sql_env \<Rightarrow> (string \<times> pg_value) list \<Rightarrow> hval option" where
  "coerceRow env r = map_option (\<lambda>vs. HObj (zip (map fst r) vs)) (those (map (\<lambda>f. coerceValue env (snd f)) r))"

section \<open>Error shaping\<close>

definition parseInt10 :: "string \<Rightarrow> int option" where
  \<comment> \<open>\<open>Number.parseInt(s, 10)\<close>: white space, a sign, then the digits up to the first other character\<close>
  "parseInt10 s =
     (let t = js_trim s;
          neg = (t \<noteq> [] \<and> hd t = CHR ''-'');
          u = (if t \<noteq> [] \<and> (hd t = CHR ''-'' \<or> hd t = CHR ''+'') then tl t else t);
          ds = takeWhile is_digit u;
          n = foldl (\<lambda>acc c. acc * 10 + (int (of_char c) - 48)) 0 ds
      in if ds = [] then None else Some (if neg then - n else n))"

definition shapeDriverError :: "hval \<Rightarrow> sql_error_options" where
  "shapeDriverError e =
     (let code = nonempty (string_of (js_field e ''code''));
          severity = string_of (js_field e ''severity'');
          position = (case js_field e ''position'' of
              HNum n \<Rightarrow> Some n
            | HStr s \<Rightarrow> if s = [] then None else parseInt10 s
            | _ \<Rightarrow> None)
      in \<lparr>so_kind = classifySqlKind code severity, so_code = code, so_severity = severity, so_position = position,
          so_detail = string_of (js_field e ''detail''), so_hint = string_of (js_field e ''hint''),
          so_schemaName = string_of (js_field e ''schema_name''), so_tableName = string_of (js_field e ''table_name''),
          so_columnName = string_of (js_field e ''column_name''), so_constraintName = string_of (js_field e ''constraint_name''),
          so_dataTypeName = string_of (js_field e ''data_type_name''), so_message = None\<rparr>)"

section \<open>Dispatch\<close>

definition sql_connString :: "sql_input \<Rightarrow> string option" where
  "sql_connString input = (case si_connection input of Dsn s \<Rightarrow> Some s | ConnObject c \<Rightarrow> sc_connectionString c)"

definition sql_options :: "sql_env \<Rightarrow> sql_input \<Rightarrow> string \<Rightarrow> string \<Rightarrow> pg_options" where
  "sql_options env input hostname validatedIp =
     (let authorSsl = (case si_connection input of Dsn s \<Rightarrow> None | ConnObject c \<Rightarrow> sc_ssl c);
          ssl = buildSsl authorSsl hostname;
          ssl = (if ssl = None \<and> dsnRequestsTls env (sql_connString input)
                 then Some (SslObject (no_ssl_wire\<lparr>ssl_servername := Some hostname, ssl_rejectUnauthorized := Some False\<rparr>)) else ssl);
          options = \<lparr>pg_max = 1, pg_prepare = False, pg_host = validatedIp, pg_connect_timeout = CONNECT_TIMEOUT_SECONDS,
            pg_statement_timeout = show_int (clampTimeout (si_timeoutMs input)), pg_ssl = ssl, pg_port = None, pg_user = None,
            pg_password = None, pg_database = None\<rparr>
      in case si_connection input of
           Dsn s \<Rightarrow> options
         | ConnObject c \<Rightarrow> options\<lparr>pg_port := sc_port c, pg_user := sc_user c, pg_password := sc_password c, pg_database := sc_database c\<rparr>)"

definition sql_connect :: "sql_env \<Rightarrow> sql_input \<Rightarrow> raised + (string \<times> pg_options)" where
  \<comment> \<open>up to the call of \<open>postgres\<close>: its connection string (empty: options only) and options\<close>
  "sql_connect env input =
     and_then (extractConnectionFacts env (si_connection input)) (\<lambda>(hostname, _).
     and_then (map_sum net_raised id (assertHostIsPublic (sq_ip env) (sq_dns env) (sq_disabled env) hostname)) (\<lambda>validatedIp.
     Inr (case sql_connString input of Some s \<Rightarrow> s | None \<Rightarrow> [], sql_options env input hostname validatedIp)))"

definition range_error :: hval where
  \<comment> \<open>what \<open>toISOString\<close> throws: no \<open>code\<close>, no \<open>severity\<close>\<close>
  "range_error = HObj [(''name'', HStr ''RangeError''), (''message'', HStr ''Invalid time value'')]"

definition sql_result :: "sql_env \<Rightarrow> pg_result \<Rightarrow> hval + hval" where
  "sql_result env raw =
     (let driverRows = (if pr_isArray raw then pr_rows raw else [])
      in case those (map (coerceRow env) driverRows) of
           None \<Rightarrow> Inl range_error
         | Some rs \<Rightarrow>
             Inr (HObj
               [(''rows'', HArr rs),
                (''columns'', HArr (map (\<lambda>(n, t). HObj [(''name'', HStr n), (''dataTypeID'', HNum t)])
                   (case pr_columns raw of Some cs \<Rightarrow> cs | None \<Rightarrow> []))),
                (''rowCount'', HNum (case pr_count raw of Some n \<Rightarrow> n | None \<Rightarrow> int (length driverRows)))]))"

definition dispatchSqlExecute ::
  "sql_env \<Rightarrow> sql_input \<Rightarrow> run_handles \<Rightarrow> nat \<Rightarrow> run_handles \<times> (string \<times> pg_options) list \<times> (raised + hval)" where
  \<comment> \<open>\<open>h\<close> is the client \<open>postgres\<close> returns; the list holds the connections opened\<close>
  "dispatchSqlExecute env input r h =
     (case sql_connect env input of
        Inl err \<Rightarrow> (r, [], Inl err)
      | Inr (u, options) \<Rightarrow>
          let r1 = rh_track r h;
              outcome = (case sq_driver env u options (si_query input) (si_params input) of
                  Inl err \<Rightarrow> Inl err
                | Inr raw \<Rightarrow> sql_result env raw)
          in (rh_release r1 h, [(u, options)],
              map_sum (\<lambda>err. SqlError (sq_stack env) (shapeDriverError err)) id outcome))"

definition sql_handler ::
  "sql_env \<Rightarrow> hval \<Rightarrow> run_handles \<Rightarrow> nat \<Rightarrow> run_handles \<times> (string \<times> pg_options) list \<times> (raised + hval)" where
  "sql_handler env raw r h =
     (case assertInput env raw of Inl err \<Rightarrow> (r, [], Inl err) | Inr input \<Rightarrow> dispatchSqlExecute env input r h)"

section \<open>What is logged\<close>

definition logged_facts :: "sql_env \<Rightarrow> hval \<Rightarrow> (hval \<times> hval) option" where
  \<comment> \<open>\<open>extractConnectionFacts\<close> on what the guest sent, before any validation; \<open>None\<close>: it throws\<close>
  "logged_facts env conn =
     (case conn of
        HStr s \<Rightarrow> (case extractConnectionFacts env (Dsn s) of Inl _ \<Rightarrow> None | Inr (h, d) \<Rightarrow> Some (HStr h, HStr d))
      | HNull \<Rightarrow> None
      | HUndefined \<Rightarrow> None
      | _ \<Rightarrow>
          let host = js_field conn ''host''; database = js_field conn ''database''; cs = js_field conn ''connectionString'';
              url_arg = (\<lambda>v. case v of HStr s \<Rightarrow> s | _ \<Rightarrow> sq_text env v)
          in Option.bind
               (if \<not> truthy host \<and> truthy cs
                then map_option (\<lambda>u. (HStr (dsn_hostname u),
                       if truthy database then database
                       else let d = strip_slash (dsn_pathname u) in if d = [] then HUndefined else HStr d)) (sq_parse env (url_arg cs))
                else Some (host, database))
               (\<lambda>(h, d).
                  Option.bind
                    (if truthy h then Some h
                     else (case extractHostnameFromDsn env (if cs = HUndefined \<or> cs = HNull then ''postgres://'' else url_arg cs) of
                             Inl _ \<Rightarrow> None | Inr s \<Rightarrow> Some (HStr s)))
                    (\<lambda>h. Some (h, if d = HUndefined \<or> d = HNull then HStr [] else d))))"

definition sql_logName :: "sql_env \<Rightarrow> hval \<Rightarrow> string" where
  "sql_logName env input =
     (if \<not> is_object input then ''executeSql''
      else (case logged_facts env (js_field input ''connection'') of
              Some (h, d) \<Rightarrow> ''executeSql '' @ (case h of HStr s \<Rightarrow> s | _ \<Rightarrow> sq_text env h) @ ''/'' @ (case d of HStr s \<Rightarrow> s | _ \<Rightarrow> sq_text env d)
            | None \<Rightarrow> ''executeSql''))"

definition sql_logInput :: "sql_env \<Rightarrow> hval list \<Rightarrow> hval" where
  "sql_logInput env args =
     (let input = (case args of [] \<Rightarrow> HUndefined | a # _ \<Rightarrow> a)
      in if \<not> is_object input then HArr args
         else let (host, database) = (case logged_facts env (js_field input ''connection'') of Some f \<Rightarrow> f | None \<Rightarrow> (HStr [], HStr []))
              in HObj [(''engine'', HStr ''postgres''), (''host'', host), (''database'', database),
                   (''query'', case js_field input ''query'' of HStr q \<Rightarrow> HStr q | _ \<Rightarrow> HStr []),
                   (''paramCount'', HNum (case js_field input ''params'' of HArr vs \<Rightarrow> int (length vs) | _ \<Rightarrow> 0))])"

section \<open>Where connections go\<close>

lemma options_built:
  "pg_host (sql_options env input hostname a) = a \<and>
   pg_statement_timeout (sql_options env input hostname a) = show_int (clampTimeout (si_timeoutMs input)) \<and>
   (case pg_ssl (sql_options env input hostname a) of Some (SslObject w) \<Rightarrow> ssl_servername w = Some hostname | _ \<Rightarrow> True)"
  by (auto simp: sql_options_def buildSsl_def Let_def split: sql_connection.split option.split sql_ssl.split bool.split)

lemma sql_connect_facts:
  assumes "sql_connect env input = Inr (u, o1)"
  shows "\<exists>hostname d a. extractConnectionFacts env (si_connection input) = Inr (hostname, d) \<and>
    assertHostIsPublic (sq_ip env) (sq_dns env) (sq_disabled env) hostname = Inr a \<and> o1 = sql_options env input hostname a"
proof -
  from assms obtain hostname d where f: "extractConnectionFacts env (si_connection input) = Inr (hostname, d)"
    by (auto simp: sql_connect_def and_then_Inr)
  show ?thesis
  proof (cases "assertHostIsPublic (sq_ip env) (sq_dns env) (sq_disabled env) hostname")
    case (Inr a)
    with f assms show ?thesis by (auto simp: sql_connect_def)
  qed (use f assms in \<open>simp add: sql_connect_def\<close>)
qed

interpretation sql_plugin: guarded_plugin sql_handler "pg_host \<circ> snd" sq_ip sq_disabled
proof
  show "cs = [] \<and> r' = r \<and> isl res \<or> (\<exists>c. cs = [c]) \<and> r' = rh_release (rh_track r h) h"
    if "sql_handler env raw r h = (r', cs, res)" for env raw r h r' cs res
    using that by (auto simp: sql_handler_def dispatchSqlExecute_def Let_def split: sum.splits)
  show "public_address (sq_ip env) ((pg_host \<circ> snd) c)"
    if h: "sql_handler env raw r h = (r', [c], res)" and doc: "\<not> sq_disabled env" "ipaddr_documented (sq_ip env)" for env raw r h r' c res
  proof -
    from h obtain input where "sql_connect env input = Inr c"
      by (auto simp: sql_handler_def dispatchSqlExecute_def Let_def split: sum.splits)
    then obtain u o1 where c: "c = (u, o1)" "sql_connect env input = Inr (u, o1)" by (cases c) auto
    from sql_connect_facts [OF c(2)] doc(1) obtain hostname where "assertHostIsPublic (sq_ip env) (sq_dns env) False hostname = Inr (pg_host o1)"
      by (auto simp: options_built)
    from guard_public [OF doc(2) this] c(1) show ?thesis by (simp add: public_address_def)
  qed
qed

section \<open>Timeouts\<close>

lemma accepted_timeout:
  assumes "assertInput env raw = Inr input"
  shows "case si_timeoutMs input of Some t \<Rightarrow> 0 < t | None \<Rightarrow> True"
  using assms
  by (auto simp: assertInput_def assertOptions_def opt_positive_def and_then_Inr Let_def split: if_splits option.splits)

lemma statement_timeout_bounded:
  assumes "assertInput env raw = Inr input"
  shows "0 < clampTimeout (si_timeoutMs input) \<and> clampTimeout (si_timeoutMs input) \<le> 120000"
  using accepted_timeout [OF assms]
  by (auto simp: clampTimeout_def SQL_DEFAULT_TIMEOUT_MS_def SQL_MAX_TIMEOUT_MS_def Let_def split: option.splits)

section \<open>What the guest sees of an error\<close>

text \<open>Two errors of the driver that agree on the curated fields look the same to the guest.\<close>

definition curated_fields :: "string list" where
  "curated_fields =
     [''code'', ''severity'', ''position'', ''detail'', ''hint'', ''schema_name'', ''table_name'', ''column_name'',
      ''constraint_name'', ''data_type_name'']"

lemma driver_error_curated:
  assumes "list_all (\<lambda>k. js_field e k = js_field e' k) curated_fields"
  shows "shapeDriverError e = shapeDriverError e'"
  using assms by (simp add: shapeDriverError_def curated_fields_def)

section \<open>Rows become JSON\<close>

fun json_hval :: "hval \<Rightarrow> bool" where
  "json_hval HNull = True"
| "json_hval (HBool b) = True"
| "json_hval (HNum n) = True"
| "json_hval (HStr s) = True"
| "json_hval (HArr vs) = list_all json_hval vs"
| "json_hval (HObj fs) = list_all (\<lambda>f. json_hval (snd f)) fs"
| "json_hval v = False"

fun invalid_date :: "pg_value \<Rightarrow> bool" where
  "invalid_date (PgDate d) = (d = None)"
| "invalid_date (PgArray vs) = list_ex invalid_date vs"
| "invalid_date (PgObject fs) = list_ex (\<lambda>f. invalid_date (snd f)) fs"
| "invalid_date v = False"

lemma those_map: "those (map f xs) = (if list_ex (\<lambda>x. f x = None) xs then None else Some (map (the \<circ> f) xs))"
  by (induction xs) (auto split: option.splits)

lemma zip_maps: "zip (map f xs) (map g xs) = map (\<lambda>x. (f x, g x)) xs"
  by (induction xs) auto

lemma coerce_total: "(coerceValue env v = None) = invalid_date v"
  by (induction v rule: invalid_date.induct) (auto simp: those_map list_ex_iff)

lemma coerce_json: "coerceValue env v = Some w \<Longrightarrow> json_hval w"
proof (induction v arbitrary: w rule: invalid_date.induct)
  case (2 vs)
  then show ?case by (auto simp: those_map list_ex_iff list_all_iff split: if_splits)
next
  case (3 fs)
  then show ?case by (auto simp: those_map zip_maps list_ex_iff list_all_iff split: if_splits) (metis option.sel snd_conv)
qed auto

text \<open>Parameters the driver gets are JSON scalars.\<close>

lemma accepted_params:
  assumes "assertInput env raw = Inr input"
  shows "list_all (\<lambda>v. v = HNull \<or> classify_value v \<in> {''string'', ''number'', ''boolean''}) (si_params input)"
proof -
  have "list_all (\<lambda>v. v = HNull \<or> classify_value v \<in> {''string'', ''number'', ''boolean''}) ps"
    if "map_until (assertParam env) i vs = Inr ps" for i vs ps
    using that by (induction vs arbitrary: i ps) (auto simp: and_then_Inr assertParam_def split: if_splits)
  then show ?thesis using assms
    by (auto simp: assertInput_def and_then_Inr split: if_splits hval.splits)
qed

section \<open>Logging\<close>

text \<open>Neither a password nor the parameters of a query reach the event log.\<close>

lemma logged_fields:
  assumes "is_object input"
  shows "\<exists>host database query n. sql_logInput env [input] =
    HObj [(''engine'', HStr ''postgres''), (''host'', host), (''database'', database), (''query'', HStr query), (''paramCount'', HNum n)]"
  using assms by (auto simp: sql_logInput_def Let_def split: option.splits hval.splits)

section \<open>Where the code differs from what is documented\<close>

definition sample_sql_env :: sql_env where
  "sample_sql_env =
     \<lparr>sq_parse = (\<lambda>s. if s = ''postgres://db.example/app?sslmode=verify-full''
         then Some \<lparr>dsn_hostname = ''db.example'', dsn_pathname = ''/app'', dsn_search = [(''sslmode'', ''verify-full'')]\<rparr> else None),
      sq_ip = sample_ipaddr, sq_dns = (\<lambda>h. Inr [''8.8.8.8'']), sq_disabled = False,
      sq_driver = (\<lambda>u opts q ps. Inr \<lparr>pr_isArray = True, pr_rows = [[(''at'', PgDate None)]], pr_columns = None, pr_count = None\<rparr>),
      sq_base64 = id, sq_tag = (\<lambda>v. ''[object Object]''), sq_text = (\<lambda>v. []), sq_stack = []\<rparr>"

text \<open>A connection string that asks for a verified certificate connects with verification switched off.\<close>

lemma verify_full_not_verified:
  "map_option ssl_rejectUnauthorized
     (case pg_ssl (sql_options sample_sql_env
        \<lparr>si_connection = Dsn ''postgres://db.example/app?sslmode=verify-full'', si_query = ''select 1'', si_params = [], si_timeoutMs = None\<rparr>
        ''db.example'' ''8.8.8.8'') of Some (SslObject w) \<Rightarrow> Some w | _ \<Rightarrow> None) = Some (Some False)"
proof -
  have "toLowerCase ''verify-full'' = ''verify-full''" by code_simp
  then show ?thesis
    by (simp add: sql_options_def sql_connString_def dsnRequestsTls_def nonempty_def buildSsl_def DSN_TLS_MODES_REQUIRING_SSL_def
        sample_sql_env_def no_ssl_wire_def Let_def)
qed

text \<open>A connection string that is no URL is not the invalid input the plugin documents: the guest gets the opaque error.\<close>

lemma invalid_dsn_opaque:
  assumes "sq_parse env s = None"
  shows "extractConnectionFacts env (Dsn s) = Inl invalid_url"
    and "be_name (sanitizeForGuest invalid_url ''executeSql'') = ''BridgeError''"
  by (simp_all add: extractConnectionFacts_def assms invalid_url_def sanitizeForGuest_def host_error_def Let_def)

text \<open>A row with a timestamp JavaScript cannot represent turns the query into an error of the connection.\<close>

lemma infinite_timestamp_is_connection_error:
  "snd (snd (dispatchSqlExecute sample_sql_env
     \<lparr>si_connection = Dsn ''postgres://db.example/app?sslmode=verify-full'', si_query = ''select at'', si_params = [], si_timeoutMs = None\<rparr>
     createRunScopedHandles 0)) = Inl (SqlError [] (shapeDriverError range_error))"
  "so_kind (shapeDriverError range_error) = ConnectionFailed"
proof -
  let ?input = "\<lparr>si_connection = Dsn ''postgres://db.example/app?sslmode=verify-full'', si_query = ''select at'', si_params = [], si_timeoutMs = None\<rparr>"
  have "\<not> isBlockedAddress sample_ipaddr ''8.8.8.8''"
    unfolding isBlockedAddress_private [OF sample_ipaddr_documented] by (simp add: sample_ipaddr_def within_def private_ranges4_def quad_def)
  then have "assertHostIsPublic sample_ipaddr (sq_dns sample_sql_env) False ''db.example'' = Inr ''8.8.8.8''"
    by (simp add: assertHostIsPublic_def hasZoneIdentifier_def sample_sql_env_def)
  then have "\<exists>opts. sql_connect sample_sql_env ?input = Inr opts"
    by (simp add: sql_connect_def extractConnectionFacts_def) (simp add: sample_sql_env_def)
  then obtain opts where c: "sql_connect sample_sql_env ?input = Inr opts" by blast
  show "snd (snd (dispatchSqlExecute sample_sql_env ?input createRunScopedHandles 0)) = Inl (SqlError [] (shapeDriverError range_error))"
    unfolding dispatchSqlExecute_def c by (cases opts) (simp add: sample_sql_env_def sql_result_def coerceRow_def)
  show "so_kind (shapeDriverError range_error) = ConnectionFailed" by code_simp
qed

text \<open>A timeout code of the driver other than the two named is an error of the query.\<close>

lemma other_timeouts_are_query_errors: "classifySqlKind (Some ''STATEMENT_TIMEOUT'') None = QueryFailed"
  by code_simp

end
