(* ===== verification/MailPlugin.thy ===== *)
theory MailPlugin
  imports StdPlugin
begin

text \<open>
  The host half of the mail plugin (\<open>packages/sandbox-stdlib/src/mail/worker.ts\<close> and
  \<open>mail-error.ts\<close>): validating the message, choosing the host, the SMTP transport's options,
  curated errors and what is logged.

  \<open>mail_env\<close> holds DNS, the address library, the SMTP transport (given its options and the
  message) and the decoder of attachments.
\<close>

section \<open>Errors\<close>

datatype mail_error_kind =
  MailInvalidInput | MailAuth | RecipientRejected | MessageRejected | MailConnection | MailTimeout

fun mail_kind_name :: "mail_error_kind \<Rightarrow> string" where
  "mail_kind_name MailInvalidInput = ''invalid-input''"
| "mail_kind_name MailAuth = ''auth''"
| "mail_kind_name RecipientRejected = ''recipient-rejected''"
| "mail_kind_name MessageRejected = ''message-rejected''"
| "mail_kind_name MailConnection = ''connection''"
| "mail_kind_name MailTimeout = ''timeout''"

record mail_error_options =
  mo_kind :: mail_error_kind
  mo_code :: "string option"
  mo_responseCode :: "int option"
  mo_response :: "string option"
  mo_message :: "string option"

definition mail_buildMessage :: "mail_error_options \<Rightarrow> string" where
  "mail_buildMessage opts =
     (let head = mail_kind_name (mo_kind opts);
          head = (case mo_code opts of Some c \<Rightarrow> if c = [] then head else head @ '' ('' @ c @ '')'' | None \<Rightarrow> head);
          response = (case mo_response opts of Some [] \<Rightarrow> None | x \<Rightarrow> x);
          suffix = (case mo_responseCode opts of
              Some n \<Rightarrow> '': '' @ show_int n @ (case response of Some s \<Rightarrow> '' '' @ s | None \<Rightarrow> [])
            | None \<Rightarrow> (case response of Some s \<Rightarrow> '': '' @ s | None \<Rightarrow> []))
      in head @ suffix)"

definition MailError :: "string \<Rightarrow> mail_error_options \<Rightarrow> raised" where
  "MailError stack opts =
     plugin_error stack ''MailError'' (case mo_message opts of Some m \<Rightarrow> m | None \<Rightarrow> mail_buildMessage opts)
       ((''kind'', HStr (mail_kind_name (mo_kind opts))) #
        opt_prop ''code'' HStr (mo_code opts) @ opt_prop ''responseCode'' HNum (mo_responseCode opts) @
        opt_prop ''response'' HStr (mo_response opts))"

definition classifyMailError :: "hval \<Rightarrow> mail_error_options" where
  "classifyMailError e =
     (let code = string_of (js_field e ''code'');
          responseCode = number_of (js_field e ''responseCode'');
          response = string_of (js_field e ''response'');
          command = string_of (js_field e ''command'');
          kind = (if code = Some ''EAUTH'' then MailAuth
                  else if code = Some ''ETIMEDOUT'' \<or> code = Some ''ETIME'' then MailTimeout
                  else if code \<in> {Some ''ECONNECTION'', Some ''ECONNREFUSED'', Some ''EDNS'', Some ''ESOCKET''} then MailConnection
                  else if code = Some ''EENVELOPE'' then RecipientRejected
                  else if code = Some ''EMESSAGE'' \<or> command = Some ''DATA'' then MessageRejected
                  else MailConnection)
      in \<lparr>mo_kind = kind, mo_code = code, mo_responseCode = responseCode, mo_response = response, mo_message = None\<rparr>)"

section \<open>Surroundings\<close>

record transport_options =
  to_host :: string
  to_port :: int
  to_secure :: bool
  to_user :: string
  to_pass :: string
  to_connectionTimeout :: int
  to_socketTimeout :: int
  to_greetingTimeout :: int
  to_servername :: string
  to_requireTLS :: bool
  to_ignoreTLS :: bool

datatype recipient = OneRecipient string | Recipients "string list"

record 'content attachment =
  at_filename :: string
  at_content :: 'content
  at_contentType :: "string option"

record message =
  ms_from :: string
  ms_to :: recipient
  ms_subject :: string
  ms_cc :: "recipient option"
  ms_bcc :: "recipient option"
  ms_replyTo :: "string option"
  ms_text :: "string option"
  ms_html :: "string option"
  ms_attachments :: "string attachment list option"

datatype address = PlainAddress string | NamedAddress string

record send_info =
  in_messageId :: string
  in_accepted :: "address list option"
  in_rejected :: "address list option"
  in_response :: "hval"

record mail_env =
  ml_ip :: ipaddr_lib
  ml_dns :: "string \<Rightarrow> net_error + string list"
  ml_disabled :: bool
  ml_transport :: "transport_options \<Rightarrow> message \<Rightarrow> hval + send_info"
  ml_decode64 :: "string \<Rightarrow> string"
  ml_stack :: string

definition mail_invalid :: "mail_env \<Rightarrow> string \<Rightarrow> raised" where
  "mail_invalid env m =
     MailError (ml_stack env)
       \<lparr>mo_kind = MailInvalidInput, mo_code = None, mo_responseCode = None, mo_response = None, mo_message = Some m\<rparr>"

section \<open>Input validation\<close>

datatype tls_mode = Tls | StartTls | Plaintext

record smtp_config =
  sm_host :: string
  sm_port :: int
  sm_tls :: tls_mode
  sm_user :: string
  sm_pass :: string
  sm_timeout :: "int option"

record mail_opts =
  mp_smtp :: smtp_config
  mp_from :: string
  mp_to :: recipient
  mp_cc :: "recipient option"
  mp_bcc :: "recipient option"
  mp_replyTo :: "recipient option"
  mp_subject :: string
  mp_text :: "string option"
  mp_html :: "string option"
  mp_attachments :: "string attachment list option"

definition assertPositiveInt :: "mail_env \<Rightarrow> hval \<Rightarrow> string \<Rightarrow> raised + int" where
  "assertPositiveInt env v path =
     (case number_of v of
        Some n \<Rightarrow> if n \<le> 0 then Inl (mail_invalid env (path @ '' must be a positive integer'')) else Inr n
      | None \<Rightarrow> Inl (mail_invalid env (path @ '' must be a positive integer'')))"

definition mail_assertNonEmptyString :: "mail_env \<Rightarrow> hval \<Rightarrow> string \<Rightarrow> raised + string" where
  "mail_assertNonEmptyString env v path =
     (case string_of v of
        Some s \<Rightarrow> if s = [] then Inl (mail_invalid env (path @ '' must be a non-empty string'')) else Inr s
      | None \<Rightarrow> Inl (mail_invalid env (path @ '' must be a non-empty string'')))"

definition assertRecipient :: "mail_env \<Rightarrow> hval \<Rightarrow> string \<Rightarrow> raised + recipient" where
  "assertRecipient env v path =
     (case v of
        HStr s \<Rightarrow> if s = [] then Inl (mail_invalid env (path @ '' must be non-empty'')) else Inr (OneRecipient s)
      | HArr vs \<Rightarrow>
          if vs = [] then Inl (mail_invalid env (path @ '' must not be an empty array''))
          else map_sum id Recipients
            (map_until (\<lambda>i entry. case string_of entry of
                 Some s \<Rightarrow> if s = [] then Inl (mail_invalid env (path @ ''['' @ show_nat i @ ''] must be a non-empty string'')) else Inr s
               | None \<Rightarrow> Inl (mail_invalid env (path @ ''['' @ show_nat i @ ''] must be a non-empty string''))) 0 vs)
      | _ \<Rightarrow> Inl (mail_invalid env (path @ '' must be a string or array of strings'')))"

definition assertOptionalRecipient :: "mail_env \<Rightarrow> hval \<Rightarrow> string \<Rightarrow> raised + recipient option" where
  "assertOptionalRecipient env v path =
     (if v = HUndefined then Inr None else map_sum id Some (assertRecipient env v path))"

definition assertOptionalString :: "mail_env \<Rightarrow> hval \<Rightarrow> string \<Rightarrow> raised + string option" where
  "assertOptionalString env v path =
     (if v = HUndefined then Inr None
      else (case string_of v of Some s \<Rightarrow> Inr (Some s) | None \<Rightarrow> Inl (mail_invalid env (path @ '' must be a string if provided''))))"

definition assertSmtpConfig :: "mail_env \<Rightarrow> hval \<Rightarrow> raised + smtp_config" where
  "assertSmtpConfig env raw =
     (if \<not> is_object raw then Inl (mail_invalid env ''smtp must be an object'')
      else and_then (mail_assertNonEmptyString env (js_field raw ''host'') ''smtp.host'') (\<lambda>host.
        and_then (assertPositiveInt env (js_field raw ''port'') ''smtp.port'') (\<lambda>port.
        and_then (if js_field raw ''tls'' = HStr ''tls'' then Inr Tls
                  else if js_field raw ''tls'' = HStr ''starttls'' then Inr StartTls
                  else if js_field raw ''tls'' = HStr ''plaintext'' then Inr Plaintext
                  else Inl (mail_invalid env (''smtp.tls must be one of '' @ quoted ''tls'' @ '' | '' @ quoted ''starttls'' @ '' | '' @ quoted ''plaintext''))) (\<lambda>tls.
        let auth = js_field raw ''auth''
        in if \<not> is_object auth then Inl (mail_invalid env ''smtp.auth must be an object'')
           else and_then (mail_assertNonEmptyString env (js_field auth ''user'') ''smtp.auth.user'') (\<lambda>user.
             (case string_of (js_field auth ''pass'') of
                None \<Rightarrow> Inl (mail_invalid env ''smtp.auth.pass must be a string'')
              | Some pass \<Rightarrow>
                  and_then (if js_field raw ''timeout'' = HUndefined then Inr None
                            else map_sum id Some (assertPositiveInt env (js_field raw ''timeout'') ''smtp.timeout'')) (\<lambda>tmo.
                  Inr \<lparr>sm_host = host, sm_port = port, sm_tls = tls, sm_user = user, sm_pass = pass, sm_timeout = tmo\<rparr>)))))))"

definition assert_attachment :: "mail_env \<Rightarrow> nat \<Rightarrow> hval \<Rightarrow> raised + string attachment" where
  "assert_attachment env i entry =
     (let path = ''attachments['' @ show_nat i @ '']''
      in if \<not> is_object entry then Inl (mail_invalid env (path @ '' must be an object''))
         else and_then (mail_assertNonEmptyString env (js_field entry ''filename'') (path @ ''.filename'')) (\<lambda>filename.
           (case string_of (js_field entry ''content'') of
              None \<Rightarrow> Inl (mail_invalid env (path @ ''.content must be a base64 string''))
            | Some content \<Rightarrow>
                and_then (assertOptionalString env (js_field entry ''contentType'') (path @ ''.contentType'')) (\<lambda>ct.
                Inr \<lparr>at_filename = filename, at_content = content, at_contentType = (case ct of Some [] \<Rightarrow> None | x \<Rightarrow> x)\<rparr>))))"

definition assertAttachments :: "mail_env \<Rightarrow> hval \<Rightarrow> raised + string attachment list option" where
  "assertAttachments env raw =
     (case raw of
        HUndefined \<Rightarrow> Inr None
      | HArr vs \<Rightarrow> map_sum id Some (map_until (assert_attachment env) 0 vs)
      | _ \<Rightarrow> Inl (mail_invalid env ''attachments must be an array''))"

definition assertMailOpts :: "mail_env \<Rightarrow> hval \<Rightarrow> raised + mail_opts" where
  "assertMailOpts env raw =
     (if \<not> is_object raw then Inl (mail_invalid env ''options must be an object'')
      else and_then (assertSmtpConfig env (js_field raw ''smtp'')) (\<lambda>smtp.
        and_then (mail_assertNonEmptyString env (js_field raw ''from'') ''from'') (\<lambda>sender.
        and_then (assertRecipient env (js_field raw ''to'') ''to'') (\<lambda>to.
        and_then (mail_assertNonEmptyString env (js_field raw ''subject'') ''subject'') (\<lambda>subject.
        and_then (assertOptionalRecipient env (js_field raw ''cc'') ''cc'') (\<lambda>cc.
        and_then (assertOptionalRecipient env (js_field raw ''bcc'') ''bcc'') (\<lambda>bcc.
        and_then (assertOptionalRecipient env (js_field raw ''replyTo'') ''replyTo'') (\<lambda>replyTo.
        and_then (assertOptionalString env (js_field raw ''text'') ''text'') (\<lambda>body.
        and_then (assertOptionalString env (js_field raw ''html'') ''html'') (\<lambda>html.
        and_then (assertAttachments env (js_field raw ''attachments'')) (\<lambda>attachments.
        Inr \<lparr>mp_smtp = smtp, mp_from = sender, mp_to = to, mp_cc = cc, mp_bcc = bcc, mp_replyTo = replyTo, mp_subject = subject,
             mp_text = body, mp_html = html, mp_attachments = attachments\<rparr>)))))))))))"

section \<open>Sending\<close>

definition MAIL_DEFAULT_TIMEOUT_MS :: int where "MAIL_DEFAULT_TIMEOUT_MS = 30000"

fun mapTlsMode :: "tls_mode \<Rightarrow> bool \<times> bool \<times> bool" where
  \<comment> \<open>\<open>secure\<close>, \<open>requireTLS\<close>, \<open>ignoreTLS\<close>\<close>
  "mapTlsMode Tls = (True, False, False)"
| "mapTlsMode StartTls = (False, True, False)"
| "mapTlsMode Plaintext = (False, False, True)"

definition mail_connect :: "mail_env \<Rightarrow> mail_opts \<Rightarrow> raised + transport_options" where
  \<comment> \<open>up to \<open>createTransport\<close>\<close>
  "mail_connect env opts =
     and_then (map_sum net_raised id (assertHostIsPublic (ml_ip env) (ml_dns env) (ml_disabled env) (sm_host (mp_smtp opts)))) (\<lambda>resolvedIp.
       let smtp = mp_smtp opts;
           tmo = (case sm_timeout smtp of Some t \<Rightarrow> t | None \<Rightarrow> MAIL_DEFAULT_TIMEOUT_MS);
           (secure, requireTLS, ignoreTLS) = mapTlsMode (sm_tls smtp)
       in Inr \<lparr>to_host = resolvedIp, to_port = sm_port smtp, to_secure = secure, to_user = sm_user smtp, to_pass = sm_pass smtp,
               to_connectionTimeout = tmo, to_socketTimeout = tmo, to_greetingTimeout = tmo, to_servername = sm_host smtp,
               to_requireTLS = requireTLS, to_ignoreTLS = ignoreTLS\<rparr>)"

definition mail_message :: "mail_env \<Rightarrow> mail_opts \<Rightarrow> message" where
  "mail_message env opts =
     \<lparr>ms_from = mp_from opts, ms_to = mp_to opts, ms_subject = mp_subject opts, ms_cc = mp_cc opts, ms_bcc = mp_bcc opts,
      ms_replyTo = map_option (\<lambda>r. case r of OneRecipient s \<Rightarrow> s | Recipients ss \<Rightarrow> js_join '', '' ss) (mp_replyTo opts),
      ms_text = mp_text opts, ms_html = mp_html opts,
      ms_attachments = map_option (map (\<lambda>a. \<lparr>at_filename = at_filename a, at_content = ml_decode64 env (at_content a),
        at_contentType = at_contentType a\<rparr>)) (mp_attachments opts)\<rparr>"

fun address_text :: "address \<Rightarrow> string" where
  "address_text (PlainAddress s) = s"
| "address_text (NamedAddress s) = s"

definition mail_result :: "send_info \<Rightarrow> hval" where
  "mail_result info =
     (let texts = (\<lambda>as. HArr (map (HStr \<circ> address_text) (case as of Some xs \<Rightarrow> xs | None \<Rightarrow> [])))
      in HObj ([(''messageId'', HStr (in_messageId info)), (''accepted'', texts (in_accepted info)), (''rejected'', texts (in_rejected info))] @
               opt_prop ''response'' HStr (string_of (in_response info))))"

definition dispatchMailSend ::
  "mail_env \<Rightarrow> mail_opts \<Rightarrow> run_handles \<Rightarrow> nat \<Rightarrow> run_handles \<times> transport_options list \<times> (raised + hval)" where
  "dispatchMailSend env opts r h =
     (case mail_connect env opts of
        Inl err \<Rightarrow> (r, [], Inl err)
      | Inr options \<Rightarrow>
          let r1 = rh_track r h;
              outcome = ml_transport env options (mail_message env opts)
          in (rh_release r1 h, [options], map_sum (\<lambda>err. MailError (ml_stack env) (classifyMailError err)) mail_result outcome))"

definition mail_handler ::
  "mail_env \<Rightarrow> hval \<Rightarrow> run_handles \<Rightarrow> nat \<Rightarrow> run_handles \<times> transport_options list \<times> (raised + hval)" where
  "mail_handler env raw r h =
     (case assertMailOpts env raw of Inl err \<Rightarrow> (r, [], Inl err) | Inr opts \<Rightarrow> dispatchMailSend env opts r h)"

section \<open>What is logged\<close>

definition mail_logName :: "hval \<Rightarrow> string" where
  "mail_logName opts =
     (if \<not> is_object opts then ''sendMail''
      else let to = js_field opts ''to''
           in ''sendMail '' @
              (if \<not> truthy to then ''unknown''
               else (case to of
                       HStr s \<Rightarrow> s
                     | HArr (HStr s # _) \<Rightarrow> s
                     | _ \<Rightarrow> ''unknown'')))"

definition picked_field :: "hval \<Rightarrow> string \<Rightarrow> (string \<times> hval) list" where
  "picked_field opts key = (let v = js_field opts key in if v = HUndefined then [] else [(key, v)])"

definition mail_logInput :: "hval list \<Rightarrow> hval option" where
  \<comment> \<open>\<open>None\<close>: reading the fields of \<open>smtp: null\<close> throws\<close>
  "mail_logInput args =
     (let opts = (case args of [] \<Rightarrow> HUndefined | a # _ \<Rightarrow> a)
      in if \<not> is_object opts then Some (HArr args)
         else let smtp = js_field opts ''smtp''
              in if smtp = HNull then None
                 else Some (HObj
                   ((if smtp = HUndefined then []
                     else [(''smtp'', HObj ([(''host'', js_field smtp ''host''), (''port'', js_field smtp ''port''), (''tls'', js_field smtp ''tls'')] @
                            picked_field smtp ''timeout''))]) @
                    concat (map (picked_field opts) [''from'', ''to'', ''cc'', ''bcc'', ''replyTo'', ''subject'']))))"

section \<open>Where connections go\<close>

lemma mail_connect_facts:
  assumes "mail_connect env opts = Inr t"
  shows "assertHostIsPublic (ml_ip env) (ml_dns env) (ml_disabled env) (sm_host (mp_smtp opts)) = Inr (to_host t) \<and>
    to_servername t = sm_host (mp_smtp opts) \<and>
    (case sm_tls (mp_smtp opts) of
       Tls \<Rightarrow> to_secure t
     | StartTls \<Rightarrow> to_requireTLS t \<and> \<not> to_ignoreTLS t
     | Plaintext \<Rightarrow> \<not> to_secure t \<and> to_ignoreTLS t)"
proof (cases "assertHostIsPublic (ml_ip env) (ml_dns env) (ml_disabled env) (sm_host (mp_smtp opts))")
  case (Inr a)
  with assms show ?thesis by (cases "sm_tls (mp_smtp opts)") (auto simp: mail_connect_def Let_def)
qed (use assms in \<open>simp add: mail_connect_def\<close>)

interpretation mail_plugin: guarded_plugin mail_handler to_host ml_ip ml_disabled
proof
  show "cs = [] \<and> r' = r \<and> isl res \<or> (\<exists>c. cs = [c]) \<and> r' = rh_release (rh_track r h) h"
    if "mail_handler env raw r h = (r', cs, res)" for env raw r h r' cs res
    using that by (auto simp: mail_handler_def dispatchMailSend_def Let_def split: sum.splits)
  show "public_address (ml_ip env) (to_host c)"
    if h: "mail_handler env raw r h = (r', [c], res)" and doc: "\<not> ml_disabled env" "ipaddr_documented (ml_ip env)" for env raw r h r' c res
  proof -
    from h obtain opts where "mail_connect env opts = Inr c"
      by (auto simp: mail_handler_def dispatchMailSend_def Let_def split: sum.splits)
    from mail_connect_facts [OF this] doc(1)
    have "assertHostIsPublic (ml_ip env) (ml_dns env) False (sm_host (mp_smtp opts)) = Inr (to_host c)" by simp
    from guard_public [OF doc(2) this] show ?thesis by (simp add: public_address_def)
  qed
qed

section \<open>Errors and logs\<close>

text \<open>Two errors of the transport that agree on the curated fields look the same to the guest.\<close>

lemma transport_error_curated:
  assumes "list_all (\<lambda>k. js_field e k = js_field e' k) [''code'', ''responseCode'', ''response'', ''command'']"
  shows "classifyMailError e = classifyMailError e'"
  using assms by (simp add: classifyMailError_def)

text \<open>The credentials, the bodies and the attachments stay out of the event log.\<close>

lemma picked_keys: "fst ` set (concat (map (picked_field opts) ks)) \<subseteq> set ks"
  by (induction ks) (auto simp: picked_field_def Let_def)

lemma mail_log_envelope:
  assumes "is_object opts" and "mail_logInput [opts] = Some (HObj fs)"
  shows "set (map fst fs) \<subseteq> {''smtp'', ''from'', ''to'', ''cc'', ''bcc'', ''replyTo'', ''subject''}"
    and "case map_get fs ''smtp'' of Some (HObj ss) \<Rightarrow> set (map fst ss) \<subseteq> {''host'', ''port'', ''tls'', ''timeout''} | _ \<Rightarrow> True"
proof -
  let ?ks = "[''from'', ''to'', ''cc'', ''bcc'', ''replyTo'', ''subject'']"
  define rest where "rest = concat (map (picked_field opts) ?ks)"
  have keys: "fst ` set rest \<subseteq> set ?ks" unfolding rest_def by (rule picked_keys)
  have "''smtp'' \<notin> set ?ks" by simp
  with keys have fresh: "map_get rest ''smtp'' = None" unfolding map_of_eq_None_iff by blast
  define smtp where "smtp = js_field opts ''smtp''"
  define env where "env = [(''host'', js_field smtp ''host''), (''port'', js_field smtp ''port''), (''tls'', js_field smtp ''tls'')] @ picked_field smtp ''timeout''"
  have fs: "fs = (if smtp = HUndefined then [] else [(''smtp'', HObj env)]) @ rest"
    using assms unfolding mail_logInput_def Let_def list.case smtp_def [symmetric] rest_def [symmetric] env_def [symmetric]
    by (simp split: if_splits)
  show "set (map fst fs) \<subseteq> {''smtp'', ''from'', ''to'', ''cc'', ''bcc'', ''replyTo'', ''subject''}"
    using keys unfolding fs by (cases "smtp = HUndefined") (simp_all add: subset_insertI2)
  have "set (map fst env) \<subseteq> {''host'', ''port'', ''tls'', ''timeout''}" by (simp add: env_def picked_field_def Let_def)
  then show "case map_get fs ''smtp'' of Some (HObj ss) \<Rightarrow> set (map fst ss) \<subseteq> {''host'', ''port'', ''tls'', ''timeout''} | _ \<Rightarrow> True"
    by (simp add: fs fresh)
qed

text \<open>\<open>smtp: null\<close> never reaches the validator: building the log entry throws before the handler runs.\<close>

lemma null_smtp_unvalidated:
  "mail_logInput [HObj [(''smtp'', HNull)]] = None"
  "assertMailOpts env (HObj [(''smtp'', HNull)]) = Inl (mail_invalid env ''smtp must be an object'')"
  by (simp_all add: mail_logInput_def assertMailOpts_def assertSmtpConfig_def js_field_def is_object_def Let_def)

end
