(* ===== verification/FetchPlugin.thy ===== *)
theory FetchPlugin
  imports StdPlugin
begin

text \<open>
  The host half of the fetch plugin (\<open>packages/sandbox-stdlib/src/fetch/index.ts\<close> and
  \<open>fetch-error.ts\<close>) and the console plugin (\<open>console/index.ts\<close>). The fetch it dispatches to is
  \<open>hardenedFetch\<close> of \<open>NetGuard\<close>; here it is any implementation, by what it throws or answers.
\<close>

section \<open>Errors\<close>

datatype fetch_error_reason = FBadScheme | FInvalidUrl | FPrivateAddress | FRedirectLoop | FNetworkError | FAborted

fun fetch_reason_name :: "fetch_error_reason \<Rightarrow> string" where
  "fetch_reason_name FBadScheme = ''bad-scheme''"
| "fetch_reason_name FInvalidUrl = ''invalid-url''"
| "fetch_reason_name FPrivateAddress = ''private-address''"
| "fetch_reason_name FRedirectLoop = ''redirect-loop''"
| "fetch_reason_name FNetworkError = ''network-error''"
| "fetch_reason_name FAborted = ''aborted''"

record fetch_error_options =
  fo_reason :: fetch_error_reason
  fo_url :: "string option"
  fo_code :: "string option"

definition fetch_buildMessage :: "fetch_error_options \<Rightarrow> string" where
  "fetch_buildMessage opts =
     (let u = (case fo_url opts of Some s \<Rightarrow> if s = [] then [] else s @ '': '' | None \<Rightarrow> [])
      in u @
         (case fo_reason opts of
            FBadScheme \<Rightarrow> ''unsupported scheme''
          | FInvalidUrl \<Rightarrow> ''invalid URL''
          | FPrivateAddress \<Rightarrow> ''resolved to private address''
          | FRedirectLoop \<Rightarrow> ''too many redirects''
          | FAborted \<Rightarrow> ''aborted''
          | FNetworkError \<Rightarrow>
              (case fo_code opts of
                 Some c \<Rightarrow> if c = [] then ''network error'' else ''network error ('' @ c @ '')''
               | None \<Rightarrow> ''network error'')))"

definition fetch_error :: "string \<Rightarrow> fetch_error_options \<Rightarrow> raised" where
  "fetch_error stack opts =
     plugin_error stack ''FetchError'' (fetch_buildMessage opts)
       ((''reason'', HStr (fetch_reason_name (fo_reason opts))) # opt_prop ''url'' HStr (fo_url opts) @ opt_prop ''code'' HStr (fo_code opts))"

datatype fetch_throw =
    ThrownFetchError fetch_error_options
  | ThrownBlocked block_reason string
  | ThrownTypeError string hval \<comment> \<open>message and \<open>code\<close>\<close>
  | ThrownError string string hval \<comment> \<open>name, message and \<open>code\<close>\<close>
  | ThrownValue

definition REDIRECT_LOOP_TEXT :: string where "REDIRECT_LOOP_TEXT = ''redirect chain exceeded''"

definition error_fallback :: "string \<Rightarrow> string \<Rightarrow> string \<Rightarrow> hval \<Rightarrow> fetch_error_options" where
  \<comment> \<open>the branch for any \<open>Error\<close>\<close>
  "error_fallback u name message code =
     (if name = ''AbortError'' \<or> name = ''TimeoutError'' then \<lparr>fo_reason = FAborted, fo_url = Some u, fo_code = None\<rparr>
      else if includes_text REDIRECT_LOOP_TEXT message then \<lparr>fo_reason = FRedirectLoop, fo_url = Some u, fo_code = None\<rparr>
      else \<lparr>fo_reason = FNetworkError, fo_url = Some u, fo_code = string_of code\<rparr>)"

definition translateFetchError :: "fetch_throw \<Rightarrow> string \<Rightarrow> fetch_error_options" where
  "translateFetchError err u =
     (case err of
        ThrownFetchError opts \<Rightarrow> opts
      | ThrownBlocked reason message \<Rightarrow>
          \<lparr>fo_reason = (case reason of BadScheme \<Rightarrow> FBadScheme | PrivateIp \<Rightarrow> FPrivateAddress | RedirectToPrivate \<Rightarrow> FPrivateAddress | ZoneId \<Rightarrow> FPrivateAddress),
           fo_url = Some u, fo_code = None\<rparr>
      | ThrownTypeError message code \<Rightarrow>
          if take 11 message = ''invalid URL'' \<or> take 16 message = ''invalid redirect''
          then \<lparr>fo_reason = FInvalidUrl, fo_url = Some u, fo_code = None\<rparr>
          else error_fallback u ''TypeError'' message code
      | ThrownError name message code \<Rightarrow> error_fallback u name message code
      | ThrownValue \<Rightarrow> \<lparr>fo_reason = FNetworkError, fo_url = Some u, fo_code = None\<rparr>)"

section \<open>Dispatch\<close>

record fetch_answer =
  fa_status :: int
  fa_statusText :: string
  fa_headers :: "(string \<times> string) list"
  fa_body :: "fetch_throw + string" \<comment> \<open>reading the body may fail\<close>

definition out_headers :: "(string \<times> string) list \<Rightarrow> (string, string) jsmap" where
  \<comment> \<open>a later header of the same name overwrites the earlier one\<close>
  "out_headers hs = foldl (\<lambda>m (k, v). map_set k v m) [] hs"

definition dispatchFetch ::
  "string \<Rightarrow> (string \<Rightarrow> fetch_throw + fetch_answer) \<Rightarrow> string \<Rightarrow> run_handles \<Rightarrow> nat \<Rightarrow> run_handles \<times> (raised + hval)" where
  \<comment> \<open>\<open>h\<close> is the request's \<open>AbortController\<close>\<close>
  "dispatchFetch stack fetchImpl u r h =
     (let r1 = rh_track r h;
          outcome = (case fetchImpl u of
              Inl err \<Rightarrow> Inl err
            | Inr answer \<Rightarrow>
                (case fa_body answer of
                   Inl err \<Rightarrow> Inl err
                 | Inr body \<Rightarrow>
                     Inr (HObj [(''status'', HNum (fa_status answer)), (''statusText'', HStr (fa_statusText answer)),
                       (''headers'', HObj (map (\<lambda>(k, v). (k, HStr v)) (out_headers (fa_headers answer)))), (''body'', HStr body)])))
      in (rh_release r1 h, map_sum (\<lambda>err. fetch_error stack (translateFetchError err u)) id outcome))"

definition fetch_logName :: "(hval \<Rightarrow> string) \<Rightarrow> hval list \<Rightarrow> string" where
  "fetch_logName text args =
     (let arg = (\<lambda>i. if i < length args then args ! i else HUndefined);
          shown = (\<lambda>v d. case v of HUndefined \<Rightarrow> d | HNull \<Rightarrow> d | HStr s \<Rightarrow> s | _ \<Rightarrow> text v)
      in ''fetch '' @ shown (arg 0) ''GET'' @ '' '' @ shown (arg 1) [])"

section \<open>Console\<close>

definition CONSOLE_METHODS :: "string list" where
  "CONSOLE_METHODS = [''log'', ''info'', ''warn'', ''error'', ''debug'']"

definition consoleDescriptor :: "string \<Rightarrow> descriptor" where
  "consoleDescriptor method =
     \<lparr>df_name = ''__console_'' @ method, df_publicName = None, df_args = [ARaw], df_result = RVoid,
      df_log = Some (LogEvent ''system.call''), df_logName = Some (\<lambda>args. ''console.'' @ method),
      df_logInput = Some (\<lambda>args. case args of [] \<Rightarrow> HUndefined | a # _ \<Rightarrow> a), df_handler = (\<lambda>args b. (b, Returns HUndefined))\<rparr>"

section \<open>What the guest sees\<close>

fun throw_of_net :: "net_error \<Rightarrow> fetch_throw" where
  \<comment> \<open>what \<open>hardenedFetch\<close> throws, as the dispatcher tests it\<close>
  "throw_of_net (HostBlocked reason message) = ThrownBlocked reason message"
| "throw_of_net (OtherError message cause) = ThrownError ''Error'' message HUndefined"

text \<open>An error of any implementation reaches the guest as a reason, the URL the guest gave and a code: never its message.\<close>

lemma fetch_error_curated:
  "case translateFetchError err u of opts \<Rightarrow>
     (case err of
        ThrownFetchError o1 \<Rightarrow> opts = o1
      | _ \<Rightarrow> fo_url opts = Some u \<and>
          (case fo_code opts of
             None \<Rightarrow> True
           | Some c \<Rightarrow> (case err of ThrownTypeError m code \<Rightarrow> code = HStr c | ThrownError n m code \<Rightarrow> code = HStr c | _ \<Rightarrow> False)))"
  by (auto simp: translateFetchError_def error_fallback_def string_of_Some split: fetch_throw.splits option.splits)

lemma fetch_gives_back_controller:
  assumes "h \<notin> set (rh_open r)"
  shows "rh_open (fst (dispatchFetch stack fetchImpl u r h)) = rh_open r"
  using track_release [OF assms] by (simp add: dispatchFetch_def Let_def)

text \<open>
  A chain of redirects that is too long ends with a blocked-host error, which is translated before
  the text of the message is looked at: the guest reads \<open>private-address\<close> where \<open>redirect-loop\<close> is
  documented.
\<close>

lemma redirect_loop_reported_private: "fo_reason (translateFetchError (throw_of_net too_many_redirects) u) = FPrivateAddress"
  by (simp add: too_many_redirects_def translateFetchError_def)

text \<open>One call of a console method is one leaf event with the arguments as its input, and nothing else.\<close>

lemma console_call:
  "buildHandler env (consoleDescriptor m) [v] b =
    (fst (pluginEmit env b ''system.call'' (''console.'' @ m) ELeaf (Some v) None None), Inr HUndefined)"
  by (simp add: buildHandler_def consoleDescriptor_def unmarshalArgs_def assertMatchesKind_def resolveLog_def marshalResult_def Let_def)

end
