(* ===== verification/Outbound.thy ===== *)
theory Outbound
  imports SqlPlugin MailPlugin FetchPlugin
begin

text \<open>
  The plugins that open sockets on behalf of the guest, together: where SQL and mail connections
  go, whatever the guest sends, and what the guest learns when one fails.
\<close>

definition sample_mail_env :: mail_env where
  "sample_mail_env =
     \<lparr>ml_ip = sample_ipaddr, ml_dns = (\<lambda>h. Inr [''8.8.8.8'']), ml_disabled = False,
      ml_transport = (\<lambda>t m. Inr \<lparr>in_messageId = ''1'', in_accepted = None, in_rejected = None, in_response = HUndefined\<rparr>),
      ml_decode64 = id, ml_stack = []\<rparr>"

definition sample_sql_call :: hval where
  "sample_sql_call =
     HObj [(''connection'', HObj [(''host'', HStr ''db.example''), (''port'', HNum 5432), (''password'', HStr ''pw'')]),
           (''query'', HStr ''select 1'')]"

text \<open>
  \<^bold>\<open>C34\<close>. The SQL and mail plugins connect to public hosts only: whatever values a guest passes, in any
  sequence of calls, every connection the driver or the SMTP transport is given goes to an address outside the
  special-use ranges that the guard resolved itself, each call opens at most one, every call is answered, and
  the clients opened are given back, so that no connection outlives its call.
\<close>

theorem outbound_sockets_public:
  assumes "ipaddr_documented (sq_ip senv)" "\<not> sq_disabled senv" and "ipaddr_documented (ml_ip menv)" "\<not> ml_disabled menv"
    and "list_all (\<lambda>c. fst c \<notin> set (rh_open r)) calls"
  shows "(case plugin_calls sql_handler senv calls r of (r', conns, results) \<Rightarrow>
            list_all (\<lambda>(url, opts). public_address (sq_ip senv) (pg_host opts)) conns \<and>
            length conns \<le> length calls \<and> length results = length calls \<and> rh_open r' = rh_open r) \<and>
         (case plugin_calls mail_handler menv calls r of (r', conns, results) \<Rightarrow>
            list_all (\<lambda>opts. public_address (ml_ip menv) (to_host opts)) conns \<and>
            length conns \<le> length calls \<and> length results = length calls \<and> rh_open r' = rh_open r)"
  using sql_plugin.calls_effects [OF assms(2,1,5)] mail_plugin.calls_effects [OF assms(4,3,5)]
  by (simp add: case_prod_unfold)

lemma sample_address_public: "assertHostIsPublic sample_ipaddr (\<lambda>h. Inr [''8.8.8.8'']) False ''db.example'' = Inr ''8.8.8.8''"
proof -
  have "\<not> isBlockedAddress sample_ipaddr ''8.8.8.8''"
    unfolding isBlockedAddress_private [OF sample_ipaddr_documented] by (simp add: sample_ipaddr_def within_def private_ranges4_def quad_def)
  then show ?thesis by (simp add: assertHostIsPublic_def hasZoneIdentifier_def)
qed

lemma sample_sql_connects:
  "\<exists>opts res. sql_handler sample_sql_env sample_sql_call createRunScopedHandles 0 =
     (rh_release (rh_track createRunScopedHandles 0) 0, [([], opts)], res) \<and> pg_host opts = ''8.8.8.8''"
proof -
  have "\<exists>input. assertInput sample_sql_env sample_sql_call = Inr input \<and> sql_connString input = None \<and>
      extractConnectionFacts sample_sql_env (si_connection input) = Inr (''db.example'', [])"
    by (simp add: sample_sql_call_def assertInput_def assertConnection_def assertConnectionObject_def assertOptions_def
        sql_assertNonEmptyString_def opt_string_def opt_positive_def js_field_def is_object_def Let_def sql_connString_def
        extractConnectionFacts_def nonempty_def)
  then obtain input where i: "assertInput sample_sql_env sample_sql_call = Inr input" "sql_connString input = None"
    "extractConnectionFacts sample_sql_env (si_connection input) = Inr (''db.example'', [])" by blast
  have "sql_connect sample_sql_env input = Inr ([], sql_options sample_sql_env input ''db.example'' ''8.8.8.8'')"
    using sample_address_public i by (simp add: sql_connect_def) (simp add: sample_sql_env_def)
  then show ?thesis
    by (simp add: sql_handler_def dispatchSqlExecute_def i(1) options_built Let_def)
qed

theorem outbound_sockets_public_witness:
  "ipaddr_documented (sq_ip sample_sql_env) \<and> \<not> sq_disabled sample_sql_env \<and>
   (case plugin_calls sql_handler sample_sql_env [(0, sample_sql_call)] createRunScopedHandles of (r', conns, results) \<Rightarrow>
      map (pg_host \<circ> snd) conns = [''8.8.8.8''] \<and> list_all (\<lambda>(url, opts). public_address (sq_ip sample_sql_env) (pg_host opts)) conns \<and>
      rh_open r' = [])"
proof -
  have doc: "ipaddr_documented (sq_ip sample_sql_env)" "\<not> sq_disabled sample_sql_env"
    "ipaddr_documented (ml_ip sample_mail_env)" "\<not> ml_disabled sample_mail_env"
    using sample_ipaddr_documented by (simp_all add: sample_sql_env_def sample_mail_env_def)
  have fresh: "list_all (\<lambda>c. fst c \<notin> set (rh_open createRunScopedHandles)) [(0, sample_sql_call)]"
    by (simp add: createRunScopedHandles_def)
  obtain opts res where h: "sql_handler sample_sql_env sample_sql_call createRunScopedHandles 0 =
     (rh_release (rh_track createRunScopedHandles 0) 0, [([], opts)], res)" "pg_host opts = ''8.8.8.8''"
    using sample_sql_connects by blast
  from outbound_sockets_public [OF doc fresh] doc(1,2) h show ?thesis by (simp add: createRunScopedHandles_def)
qed

text \<open>
  TLS is pinned to the host the guest named, not to the address: every SQL connection with a TLS
  object, and every SMTP transport, carries that name.
\<close>

lemma sql_tls_pinned:
  assumes "assertInput env raw = Inr input" and "extractConnectionFacts env (si_connection input) = Inr (hostname, d)"
    and "sql_handler env raw r h = (r', [(u, opts)], res)"
  shows "case pg_ssl opts of Some (SslObject w) \<Rightarrow> ssl_servername w = Some hostname | _ \<Rightarrow> True"
proof -
  from assms(1,3) have "sql_connect env input = Inr (u, opts)"
    by (auto simp: sql_handler_def dispatchSqlExecute_def Let_def split: sum.splits)
  from sql_connect_facts [OF this] assms(2) show ?thesis by (auto simp: options_built)
qed

end
