(* ===== verification/QueuePlugin.thy ===== *)
theory QueuePlugin
  imports QueueStore StdPlugin
begin

text \<open>
  The sandbox half of queues (\<open>packages/sandbox-stdlib/src/queue/worker.ts\<close>, \<open>index.ts\<close> and
  \<open>queue-error.ts\<close>): the context of the running invocation, routing by operation, and turning an
  error of the host's handlers into the one the guest sees. \<open>callHost\<close> is the host call of the
  worker; composed with the handlers of \<open>QueueStore\<close> it is \<open>queue_round\<close>.
\<close>

section \<open>Errors\<close>

definition QueueError :: "string \<Rightarrow> string \<Rightarrow> string \<Rightarrow> hval option \<Rightarrow> raised" where
  "QueueError stack code message item =
     plugin_error stack ''QueueError'' message ((''code'', HStr code) # opt_prop ''item'' id item)"

definition QUEUE_ERROR_CODES :: "string list" where
  "QUEUE_ERROR_CODES = [''queue.itemTooLarge'', ''queue.full'', ''queue.schemaMismatch'', ''queue.gone'', ''queue.notDeclared'']"

datatype host_rejection =
    HostError string string "(string \<times> hval) list" \<comment> \<open>an \<open>Error\<close>: name, message and own properties\<close>
  | HostValue string \<comment> \<open>anything else, by its text\<close>

definition mapHostError :: "string \<Rightarrow> host_rejection \<Rightarrow> raised" where
  "mapHostError stack err =
     (case err of
        HostError name message props \<Rightarrow>
          (case (if name = ''QueueError'' then map_get props ''code'' else None) of
             Some (HStr code) \<Rightarrow>
               if code \<in> set QUEUE_ERROR_CODES
               then QueueError stack code message (case map_get props ''item'' of Some HUndefined \<Rightarrow> None | x \<Rightarrow> x)
               else QueueError stack ''queue.gone'' message None
           | _ \<Rightarrow> QueueError stack ''queue.gone'' message None)
      | HostValue text \<Rightarrow> QueueError stack ''queue.gone'' text None)"

section \<open>Context of a run\<close>

record active_context =
  ac_repo :: string
  ac_invocationId :: string
  ac_triggerKind :: string
  ac_triggerName :: string

definition queue_onBeforeRunStarted :: "active_context option \<Rightarrow> hval \<Rightarrow> active_context option" where
  \<comment> \<open>the new context for the \<open>extras\<close> of a run: kept when they are incomplete\<close>
  "queue_onBeforeRunStarted activeContext extras =
     (let q = js_field extras ''queue'';
          s = (\<lambda>k. case string_of (js_field q k) of Some [] \<Rightarrow> None | x \<Rightarrow> x)
      in case (s ''repo'', s ''invocationId'', s ''triggerKind'', s ''triggerName'') of
           (Some r, Some i, Some k, Some n) \<Rightarrow>
             if truthy q then Some \<lparr>ac_repo = r, ac_invocationId = i, ac_triggerKind = k, ac_triggerName = n\<rparr> else activeContext
         | _ \<Rightarrow> activeContext)"

definition queue_onRunFinished :: "active_context option \<Rightarrow> active_context option" where
  "queue_onRunFinished activeContext = None"

definition requireContext :: "string \<Rightarrow> active_context option \<Rightarrow> raised + active_context" where
  "requireContext stack activeContext =
     (case activeContext of
        None \<Rightarrow> Inl (QueueError stack ''queue.notDeclared'' ''queue ops are unavailable in this run context'' None)
      | Some a \<Rightarrow> Inr a)"

section \<open>Dispatch\<close>

datatype host_call =
    CallPut string hval string active_context \<comment> \<open>queue, item, key and the producer\<close>
  | CallGet string string string \<comment> \<open>queue, repo, key\<close>

datatype host_reply = PutDone | GetEmpty | GetFound hval

definition dispatchPut ::
  "string \<Rightarrow> ('s \<Rightarrow> host_call \<Rightarrow> 's \<times> (host_rejection + host_reply)) \<Rightarrow> 's \<Rightarrow> active_context \<Rightarrow> string \<Rightarrow> hval \<Rightarrow> string \<Rightarrow>
   's \<times> (raised + hval)" where
  "dispatchPut stack callHost st activeContext name item key =
     (case callHost st (CallPut name item key activeContext) of
        (st', Inl err) \<Rightarrow> (st', Inl (mapHostError stack err))
      | (st', Inr _) \<Rightarrow> (st', Inr HNull))"

definition dispatchGet ::
  "string \<Rightarrow> ('s \<Rightarrow> host_call \<Rightarrow> 's \<times> (host_rejection + host_reply)) \<Rightarrow> 's \<Rightarrow> active_context \<Rightarrow> string \<Rightarrow> string \<Rightarrow>
   's \<times> (raised + hval)" where
  "dispatchGet stack callHost st activeContext name key =
     (case callHost st (CallGet name (ac_repo activeContext) key) of
        (st', Inl err) \<Rightarrow> (st', Inl (mapHostError stack err))
      | (st', Inr (GetFound item)) \<Rightarrow> (st', Inr (HObj [(''found'', HBool True), (''item'', item)]))
      | (st', Inr _) \<Rightarrow> (st', Inr (HObj [(''found'', HBool False)])))"

definition queue_dispatch ::
  "string \<Rightarrow> ('s \<Rightarrow> host_call \<Rightarrow> 's \<times> (host_rejection + host_reply)) \<Rightarrow> active_context option \<Rightarrow> 's \<Rightarrow> hval \<Rightarrow> 's \<times> (raised + hval)" where
  "queue_dispatch stack callHost activeContext st input =
     (let name = (case js_field input ''name'' of HStr s \<Rightarrow> s | _ \<Rightarrow> []);
          key = (case js_field input ''key'' of HStr s \<Rightarrow> s | _ \<Rightarrow> [])
      in if js_field input ''op'' = HStr ''get'' then
           (case requireContext stack activeContext of Inl e \<Rightarrow> (st, Inl e) | Inr a \<Rightarrow> dispatchGet stack callHost st a name key)
         else if js_field input ''op'' = HStr ''put'' then
           (case requireContext stack activeContext of Inl e \<Rightarrow> (st, Inl e) | Inr a \<Rightarrow> dispatchPut stack callHost st a name (js_field input ''item'') key)
         else (st, Inl (QueueError stack ''queue.notDeclared'' (''queue input.op must be '' @ quoted ''put'' @ '' or '' @ quoted ''get'') None)))"

definition queue_logName :: "hval \<Rightarrow> string" where
  "queue_logName input =
     (if js_field input ''op'' = HStr ''put'' then ''queue.put''
      else if js_field input ''op'' = HStr ''get'' then ''queue.get'' else ''queue'')"

definition queue_logInput :: "hval list \<Rightarrow> hval" where
  "queue_logInput args =
     (let input = (case args of [] \<Rightarrow> HUndefined | a # _ \<Rightarrow> a)
      in if \<not> is_object input then HArr args
         else HObj ((case js_field input ''op'' of HStr s \<Rightarrow> [(''op'', HStr s)] | _ \<Rightarrow> []) @
                    (case js_field input ''name'' of HStr s \<Rightarrow> [(''name'', HStr s)] | _ \<Rightarrow> [])))"

section \<open>The guest's \<open>__queue\<close> object\<close>

definition guest_put :: "string \<Rightarrow> hval \<Rightarrow> string option \<Rightarrow> hval" where
  "guest_put queueName item key =
     HObj [(''op'', HStr ''put''), (''name'', HStr queueName), (''item'', item), (''key'', HStr (case key of Some k \<Rightarrow> k | None \<Rightarrow> []))]"

definition guest_get :: "string \<Rightarrow> string option \<Rightarrow> hval" where
  "guest_get queueName key =
     HObj [(''op'', HStr ''get''), (''name'', HStr queueName), (''key'', HStr (case key of Some k \<Rightarrow> k | None \<Rightarrow> []))]"

definition guest_get_result :: "hval \<Rightarrow> hval" where
  "guest_get_result r = (if js_field r ''found'' = HBool False then HUndefined else js_field r ''item'')"

section \<open>Together with the host's handlers\<close>

fun queue_code_text :: "queue_error_code \<Rightarrow> string" where
  "queue_code_text ItemTooLarge = ''queue.itemTooLarge''"
| "queue_code_text KeyTooLarge = ''queue.keyTooLarge''"
| "queue_code_text QueueFull = ''queue.full''"
| "queue_code_text SchemaMismatch = ''queue.schemaMismatch''"
| "queue_code_text Gone = ''queue.gone''"
| "queue_code_text NotDeclared = ''queue.notDeclared''"

definition host_queue_error :: "hval queue_error \<Rightarrow> host_rejection" where
  \<comment> \<open>as it arrives at the worker: name, message and own properties\<close>
  "host_queue_error e =
     HostError ''QueueError'' (qe_message e) ((''code'', HStr (queue_code_text (qe_code e))) # opt_prop ''item'' id (qe_item e))"

definition queue_host_call ::
  "hval queue_host \<Rightarrow> (hval \<Rightarrow> string option) \<Rightarrow> (string \<Rightarrow> hval) \<Rightarrow> nat \<Rightarrow> string \<Rightarrow> queue_store \<Rightarrow> host_call \<Rightarrow>
   queue_store \<times> (host_rejection + host_reply)" where
  "queue_host_call h stringify parse maxDepth now st call =
     (case call of
        CallPut name item key ctx \<Rightarrow>
          (case putHandler h stringify maxDepth st (ac_repo ctx) name item key
             \<lparr>pm_enqueuedAt = now, pm_invocationId = ac_invocationId ctx, pm_triggerKind = ac_triggerKind ctx,
              pm_triggerName = ac_triggerName ctx\<rparr> of
             Inl e \<Rightarrow> (st, Inl (host_queue_error e))
           | Inr st' \<Rightarrow> (st', Inr PutDone))
      | CallGet name repo key \<Rightarrow>
          (case getHandler h parse st repo name key of
             (st', Inl e) \<Rightarrow> (st', Inl (host_queue_error e))
           | (st', Inr None) \<Rightarrow> (st', Inr GetEmpty)
           | (st', Inr (Some item)) \<Rightarrow> (st', Inr (GetFound item))))"

lemma queue_code_known: "queue_code_text c \<in> set QUEUE_ERROR_CODES \<longleftrightarrow> c \<noteq> KeyTooLarge"
  by (cases c) (simp_all add: QUEUE_ERROR_CODES_def)

text \<open>Every error of the host but one keeps its code, message and item on the way to the guest.\<close>

lemma host_error_kept:
  assumes "qe_code e \<noteq> KeyTooLarge" and "qe_item e \<noteq> Some HUndefined"
  shows "mapHostError stack (host_queue_error e) = QueueError stack (queue_code_text (qe_code e)) (qe_message e) (qe_item e)"
  using assms queue_code_known [of "qe_code e"]
  by (auto simp: mapHostError_def host_queue_error_def opt_prop_def split: option.splits hval.splits)

text \<open>The exception: a key over the limit is documented as \<open>queue.keyTooLarge\<close> and reaches the guest as \<open>queue.gone\<close>.\<close>

lemma key_too_large_reported_gone:
  assumes "qe_code e = KeyTooLarge"
  shows "mapHostError stack (host_queue_error e) = QueueError stack ''queue.gone'' (qe_message e) None"
  using assms queue_code_known [of KeyTooLarge] by (auto simp: mapHostError_def host_queue_error_def)

text \<open>
  The context is the one of the run in progress: a run without complete extras has none, whatever
  ran before it, because the end of a run clears it.
\<close>

lemma context_of_the_run:
  "queue_onBeforeRunStarted (queue_onRunFinished activeContext) extras = Some ctx \<Longrightarrow>
     js_field (js_field extras ''queue'') ''repo'' = HStr (ac_repo ctx) \<and>
     js_field (js_field extras ''queue'') ''invocationId'' = HStr (ac_invocationId ctx)"
  by (auto simp: queue_onBeforeRunStarted_def queue_onRunFinished_def string_of_Some Let_def split: option.splits list.splits if_splits hval.splits)

end
