(* ===== verification/Sdk.thy ===== *)
theory Sdk
  imports Manifest
begin

text \<open>
  What an author's workflow file is made of (\<open>packages/sdk/src/index.ts\<close>): environment references
  and their resolution, the workflow object, actions, queues and the trigger factories with their
  defaults.

  A value the file exports is an \<open>sdk_export\<close>; the brands of the code are its constructors.
  A Zod schema is what the build reads off it: whether it has \<open>parse\<close> and \<open>toJSONSchema\<close>, and the
  object the latter returns. \<open>zod_lib\<close> holds the schemas and the operation the factories take
  from Zod. Objects are association lists in insertion order.
\<close>

section \<open>Environment references\<close>

record env_ref =
  er_name :: "string option"
  er_default :: "string option"
  er_secret :: bool

datatype env_value = EnvText string | EnvRef env_ref

definition env_decl :: "string option \<Rightarrow> string option \<Rightarrow> bool \<Rightarrow> env_ref" where
  \<comment> \<open>\<open>env({name, default})\<close> or \<open>env({name, secret: true})\<close>\<close>
  "env_decl name dflt is_secret =
     \<lparr>er_name = name, er_default = (if is_secret then None else dflt), er_secret = is_secret\<rparr>"

definition env_name :: "string \<Rightarrow> env_ref \<Rightarrow> string" where
  "env_name key r = (case er_name r of Some n \<Rightarrow> n | None \<Rightarrow> key)"

definition sentinel_error :: "string \<Rightarrow> string" where
  \<comment> \<open>the error of \<open>encodeSentinel\<close>; the name as \<open>JSON.stringify\<close> shows it when it needs no escape\<close>
  "sentinel_error name = ''invalid secret name (must match ^[A-Za-z_][A-Za-z0-9_]*$): '' @ (CHR 0x22 # name @ [CHR 0x22])"

type_synonym env_record = "(string \<times> env_value) list"

fun resolve_env :: "(string \<Rightarrow> string option) \<Rightarrow> env_record \<Rightarrow> (string, string) jsmap \<Rightarrow> string + (string, string) jsmap" where
  "resolve_env envSource [] resolved = Inr resolved"
| "resolve_env envSource ((key, value) # rest) resolved =
     (case value of
        EnvText s \<Rightarrow> resolve_env envSource rest (map_set key s resolved)
      | EnvRef r \<Rightarrow>
          let envName = env_name key r
          in (case (case envSource envName of Some v \<Rightarrow> Some v | None \<Rightarrow> er_default r) of
                None \<Rightarrow> Inl (''Missing environment variable: '' @ envName)
              | Some envValue \<Rightarrow>
                  (case (if er_secret r then encodeSentinel envName else Some envValue) of
                     None \<Rightarrow> Inl (sentinel_error envName)
                   | Some v \<Rightarrow> resolve_env envSource rest (map_set key v resolved))))"

definition resolveEnvRecord :: "env_record \<Rightarrow> (string \<Rightarrow> string option) \<Rightarrow> string + (string, string) jsmap" where
  "resolveEnvRecord r envSource = resolve_env envSource r []"

section \<open>The workflow object\<close>

record workflow_obj =
  wo_name :: string
  wo_env :: "(string, string) jsmap"
  wo_secretBindings :: "string list option" \<comment> \<open>under its symbol; absent at run time\<close>

record workflow_config =
  wc_name :: "string option"
  wc_env :: "env_record option"

definition secret_names :: "env_record \<Rightarrow> string list" where
  "secret_names r =
     concat (map (\<lambda>(key, value). case value of EnvRef x \<Rightarrow> if er_secret x then [env_name key x] else [] | EnvText _ \<Rightarrow> []) r)"

definition defineWorkflow ::
  "(string \<times> (string, string) jsmap) option \<Rightarrow> (string \<Rightarrow> string option) \<Rightarrow> workflow_config \<Rightarrow> string + workflow_obj" where
  \<comment> \<open>the first argument is \<open>globalThis.workflow\<close>, there at run time only\<close>
  "defineWorkflow installed envSource conf =
     (case installed of
        Some (name, env) \<Rightarrow>
          Inr \<lparr>wo_name = (if name \<noteq> [] then name else (case wc_name conf of Some n \<Rightarrow> n | None \<Rightarrow> [])), wo_env = env,
               wo_secretBindings = None\<rparr>
      | None \<Rightarrow>
          (case (case wc_env conf of Some r \<Rightarrow> resolveEnvRecord r envSource | None \<Rightarrow> Inr []) of
             Inl err \<Rightarrow> Inl err
           | Inr resolved \<Rightarrow>
               Inr \<lparr>wo_name = (case wc_name conf of Some n \<Rightarrow> n | None \<Rightarrow> []), wo_env = resolved,
                    wo_secretBindings = Some (case wc_env conf of Some r \<Rightarrow> secret_names r | None \<Rightarrow> [])\<rparr>))"

section \<open>Schemas\<close>

record zod_schema =
  zs_hasParse :: bool
  zs_json :: "(string \<times> json) list option option" \<comment> \<open>no \<open>toJSONSchema\<close>; not an object; the object\<close>
  zs_strip :: bool \<comment> \<open>\<open>"strip" in schema.meta()\<close>\<close>
  zs_catchall :: "string option"

record zod_lib =
  zl_any :: zod_schema
  zl_emptyObject :: zod_schema
  zl_meta_strip :: "zod_schema \<Rightarrow> zod_schema"
  zl_object_data :: "zod_schema \<Rightarrow> zod_schema" \<comment> \<open>\<open>z.object({ data: s })\<close>\<close>

definition or_any :: "zod_lib \<Rightarrow> zod_schema option \<Rightarrow> zod_schema" where
  "or_any lib s = (case s of Some x \<Rightarrow> x | None \<Rightarrow> zl_any lib)"

definition ensureRequestHeadersStripMode :: "zod_lib \<Rightarrow> zod_schema \<Rightarrow> zod_schema" where
  "ensureRequestHeadersStripMode lib headers =
     (if zs_strip headers then headers
      else if zs_catchall headers = Some ''any'' \<or> zs_catchall headers = Some ''unknown'' then headers
      else zl_meta_strip lib headers)"

section \<open>Actions and queues\<close>

record action_obj =
  ao_id :: nat \<comment> \<open>the identity of the function object\<close>
  ao_name :: string
  ao_input :: zod_schema
  ao_output :: zod_schema

definition action_decl :: "zod_lib \<Rightarrow> nat \<Rightarrow> string option \<Rightarrow> zod_schema option \<Rightarrow> zod_schema option \<Rightarrow> action_obj" where
  "action_decl lib i name input output =
     \<lparr>ao_id = i, ao_name = (case name of Some n \<Rightarrow> n | None \<Rightarrow> []), ao_input = or_any lib input, ao_output = or_any lib output\<rparr>"

definition nameless_action :: string where
  "nameless_action = ''Action constructed without a name; build via the wfe CLI (which name-injects via AST transform)''"

definition call_action :: "(string \<Rightarrow> 'v \<Rightarrow> string + 'r) option \<Rightarrow> action_obj \<Rightarrow> 'v \<Rightarrow> string + 'r" where
  \<comment> \<open>the dispatcher is \<open>__sdk.dispatchAction\<close>, if it is installed\<close>
  "call_action dispatcher a input =
     (if ao_name a = [] then Inl nameless_action
      else (case dispatcher of
              None \<Rightarrow> Inl ''No action dispatcher installed; actions can only run inside the workflow sandbox''
            | Some f \<Rightarrow> f (ao_name a) input))"

record queue_obj =
  qo_name :: string
  qo_schema :: zod_schema

definition defineQueue :: "string option \<Rightarrow> zod_schema \<Rightarrow> queue_obj" where
  "defineQueue name schema = \<lparr>qo_name = (case name of Some n \<Rightarrow> n | None \<Rightarrow> []), qo_schema = schema\<rparr>"

definition nameless_queue :: string where
  "nameless_queue = ''Queue constructed without a name; build via the wfe CLI (which name-injects via AST transform)''"

definition no_queue_dispatcher :: string where
  "no_queue_dispatcher = ''No queue dispatcher installed; queues can only be used inside the workflow sandbox''"

definition queue_call :: "(string \<Rightarrow> 'v \<Rightarrow> string option \<Rightarrow> string + 'r) option \<Rightarrow> queue_obj \<Rightarrow> 'v \<Rightarrow> string option \<Rightarrow> string + 'r" where
  \<comment> \<open>\<open>put\<close>, and \<open>get\<close> without an item, through \<open>__queue\<close>\<close>
  "queue_call api q item key =
     (if qo_name q = [] then Inl nameless_queue
      else (case api of None \<Rightarrow> Inl no_queue_dispatcher | Some f \<Rightarrow> f (qo_name q) item key))"

section \<open>Trigger factories\<close>

record http_trigger =
  ht_callable :: bool
  ht_method :: string
  ht_body :: zod_schema
  ht_headers :: zod_schema
  ht_responseBody :: "zod_schema option"
  ht_responseHeaders :: "zod_schema option"

definition httpTrigger ::
  "zod_lib \<Rightarrow> bool \<Rightarrow> string option \<Rightarrow> zod_schema option \<Rightarrow> zod_schema option \<Rightarrow> zod_schema option \<Rightarrow> zod_schema option \<Rightarrow> string + http_trigger" where
  "httpTrigger lib has_handler method body headers responseBody responseHeaders =
     (if \<not> has_handler then Inl ''httpTrigger(...) is missing a handler function''
      else Inr \<lparr>ht_callable = True, ht_method = (case method of Some m \<Rightarrow> m | None \<Rightarrow> ''POST''), ht_body = or_any lib body,
                ht_headers = ensureRequestHeadersStripMode lib (case headers of Some h \<Rightarrow> h | None \<Rightarrow> zl_emptyObject lib),
                ht_responseBody = responseBody, ht_responseHeaders = responseHeaders\<rparr>)"

record cron_trigger =
  ct_callable :: bool
  ct_schedule :: string
  ct_tz :: string

definition DEFAULT_TIME_ZONE :: "string option \<Rightarrow> string" where
  \<comment> \<open>the zone \<open>Intl\<close> reports, if it is there\<close>
  "DEFAULT_TIME_ZONE intl = (case intl of Some z \<Rightarrow> z | None \<Rightarrow> ''UTC'')"

definition cronTrigger :: "string option \<Rightarrow> bool \<Rightarrow> string \<Rightarrow> string option \<Rightarrow> string + cron_trigger" where
  "cronTrigger intl has_handler sched tz =
     (if \<not> has_handler then Inl (''cronTrigger({ schedule: '' @ (CHR 0x22 # sched @ [CHR 0x22]) @ '' }) is missing a handler function'')
      else Inr \<lparr>ct_callable = True, ct_schedule = sched, ct_tz = (case tz of Some z \<Rightarrow> z | None \<Rightarrow> DEFAULT_TIME_ZONE intl)\<rparr>)"

record manual_trigger =
  mt_callable :: bool
  mt_input :: zod_schema
  mt_output :: zod_schema

definition manualTrigger :: "zod_lib \<Rightarrow> bool \<Rightarrow> zod_schema option \<Rightarrow> zod_schema option \<Rightarrow> string + manual_trigger" where
  "manualTrigger lib has_handler input output =
     (if \<not> has_handler then Inl ''manualTrigger(...) is missing a handler function''
      else Inr \<lparr>mt_callable = True, mt_input = or_any lib input, mt_output = or_any lib output\<rparr>)"

record imap_trigger =
  it_callable :: bool
  it_host :: string
  it_port :: int
  it_tls :: string
  it_insecureSkipVerify :: bool
  it_user :: string
  it_password :: string
  it_folder :: string
  it_search :: string
  it_mode :: string
  it_onError :: "string list option"

definition imapTrigger ::
  "bool \<Rightarrow> string \<Rightarrow> int \<Rightarrow> string option \<Rightarrow> bool option \<Rightarrow> string \<Rightarrow> string \<Rightarrow> string \<Rightarrow> string \<Rightarrow> string option \<Rightarrow> string list option \<Rightarrow>
   string + imap_trigger" where
  "imapTrigger has_handler host port tls insecure user password folder search mode onError =
     (if \<not> has_handler then Inl ''imapTrigger(...) is missing a handler function''
      else Inr \<lparr>it_callable = True, it_host = host, it_port = port, it_tls = (case tls of Some t \<Rightarrow> t | None \<Rightarrow> ''required''),
                it_insecureSkipVerify = (case insecure of Some b \<Rightarrow> b | None \<Rightarrow> False), it_user = user, it_password = password,
                it_folder = folder, it_search = search, it_mode = (case mode of Some m \<Rightarrow> m | None \<Rightarrow> ''idle''), it_onError = onError\<rparr>)"

record ws_trigger =
  wt_callable :: bool
  wt_request :: zod_schema
  wt_response :: zod_schema
  wt_inputSchema :: zod_schema

definition wsTrigger :: "zod_lib \<Rightarrow> bool \<Rightarrow> zod_schema \<Rightarrow> zod_schema option \<Rightarrow> string + ws_trigger" where
  "wsTrigger lib has_handler request response =
     (if \<not> has_handler then Inl ''wsTrigger(...) is missing a handler function''
      else Inr \<lparr>wt_callable = True, wt_request = request, wt_response = or_any lib response, wt_inputSchema = zl_object_data lib request\<rparr>)"

definition secret_call :: "string list option \<Rightarrow> string \<Rightarrow> string list option \<times> string" where
  \<comment> \<open>\<open>secret(value)\<close>: the registered values of \<open>$secrets\<close>, if it is there\<close>
  "secret_call bridge value = (map_option (\<lambda>vs. vs @ [value]) bridge, value)"

datatype sdk_export =
    XWorkflow workflow_obj
  | XAction action_obj
  | XHttp http_trigger
  | XCron cron_trigger
  | XManual manual_trigger
  | XImap imap_trigger
  | XWs ws_trigger
  | XQueue queue_obj
  | XOther

section \<open>Secrets never enter the resolved environment\<close>

definition same_but_secrets :: "(string \<Rightarrow> string option) \<Rightarrow> (string \<Rightarrow> string option) \<Rightarrow> env_record \<Rightarrow> bool" where
  \<comment> \<open>two environments that may differ in the values of secret variables only\<close>
  "same_but_secrets src src' r =
     list_all (\<lambda>(key, value). case value of
         EnvText _ \<Rightarrow> True
       | EnvRef x \<Rightarrow>
           if er_secret x then (src (env_name key x) = None) = (src' (env_name key x) = None)
           else src (env_name key x) = src' (env_name key x)) r"

lemma resolve_env_blind:
  assumes "same_but_secrets src src' r"
  shows "resolve_env src r acc = resolve_env src' r acc"
  using assms
proof (induction r arbitrary: acc)
  case (Cons kv r)
  obtain key ev where kv: "kv = (key, ev)" by (cases kv)
  show ?case
  proof (cases ev)
    case (EnvText s)
    with Cons kv show ?thesis by (simp add: same_but_secrets_def)
  next
    case (EnvRef x)
    show ?thesis
    proof (cases "er_secret x")
      case True
      then have "(src (env_name key x) = None) = (src' (env_name key x) = None)" using Cons.prems kv EnvRef by (simp add: same_but_secrets_def)
      then have "(\<exists>v v'. src (env_name key x) = Some v \<and> src' (env_name key x) = Some v') \<or>
          src (env_name key x) = None \<and> src' (env_name key x) = None" by auto
      with Cons kv EnvRef True show ?thesis by (auto simp: same_but_secrets_def Let_def split: option.split)
    next
      case False
      with Cons kv EnvRef show ?thesis by (simp add: same_but_secrets_def Let_def split: option.split)
    qed
  qed
qed simp

lemma workflow_blind:
  assumes "case wc_env conf of Some r \<Rightarrow> same_but_secrets src src' r | None \<Rightarrow> True"
  shows "defineWorkflow None src conf = defineWorkflow None src' conf"
  using assms resolve_env_blind by (auto simp: defineWorkflow_def resolveEnvRecord_def split: option.split)

text \<open>Without \<open>default\<close>, a secret that is not set stops the build.\<close>

lemma missing_secret:
  assumes "src key = None"
  shows "resolveEnvRecord [(key, EnvRef (env_decl None d True))] src = Inl (''Missing environment variable: '' @ key)"
  using assms by (simp add: resolveEnvRecord_def env_decl_def env_name_def)

end
