(* ===== verification/BuildWorkflows.thy ===== *)
theory BuildWorkflows
  imports Sdk
begin

text \<open>
  Building a workflow's manifest from what its file exports
  (\<open>packages/sdk/src/cli/build-workflows.ts\<close>): sorting the exports by brand, the entries of actions,
  triggers and queues, the composed JSON schemas, the environment without its secrets, and the
  check against the server's own schema.

  Bundling and evaluating the file are Vite's and Node's work: the model starts from the exports
  and the digest of the bundle. A build error is its message; the lines Zod's issues are
  formatted to are an argument.
\<close>

section \<open>Exports\<close>

record discovered =
  ds_workflows :: "(string \<times> workflow_obj) list"
  ds_actions :: "(string \<times> action_obj) list"
  ds_http :: "(string \<times> http_trigger) list"
  ds_cron :: "(string \<times> cron_trigger) list"
  ds_manual :: "(string \<times> manual_trigger) list"
  ds_imap :: "(string \<times> imap_trigger) list"
  ds_ws :: "(string \<times> ws_trigger) list"
  ds_queues :: "(string \<times> queue_obj) list"

definition in_workflow :: "string \<Rightarrow> string \<Rightarrow> string" where
  "in_workflow wfn msg = ''Workflow '' @ (CHR 0x22 # wfn @ [CHR 0x22]) @ '': '' @ msg"

definition q :: "string \<Rightarrow> string" where
  "q s = CHR 0x22 # s @ [CHR 0x22]"

fun discover :: "string \<Rightarrow> (string \<times> sdk_export) list \<Rightarrow> discovered \<Rightarrow> string + discovered" where
  "discover filestem [] d = Inr d"
| "discover filestem ((name, v) # rest) d =
     (case v of
        XAction a \<Rightarrow>
          if name = ''default''
          then Inl (in_workflow filestem ''action cannot be a default export; use `export const X = action({...})`'')
          else discover filestem rest (d\<lparr>ds_actions := ds_actions d @ [(name, a)]\<rparr>)
      | XWorkflow w \<Rightarrow> discover filestem rest (d\<lparr>ds_workflows := ds_workflows d @ [(name, w)]\<rparr>)
      | XHttp t \<Rightarrow> discover filestem rest (d\<lparr>ds_http := ds_http d @ [(name, t)]\<rparr>)
      | XCron t \<Rightarrow> discover filestem rest (d\<lparr>ds_cron := ds_cron d @ [(name, t)]\<rparr>)
      | XManual t \<Rightarrow> discover filestem rest (d\<lparr>ds_manual := ds_manual d @ [(name, t)]\<rparr>)
      | XImap t \<Rightarrow> discover filestem rest (d\<lparr>ds_imap := ds_imap d @ [(name, t)]\<rparr>)
      | XWs t \<Rightarrow> discover filestem rest (d\<lparr>ds_ws := ds_ws d @ [(name, t)]\<rparr>)
      | XQueue x \<Rightarrow> discover filestem rest (d\<lparr>ds_queues := ds_queues d @ [(name, x)]\<rparr>)
      | XOther \<Rightarrow> discover filestem rest d)"

definition discoverExports :: "(string \<times> sdk_export) list \<Rightarrow> string \<Rightarrow> string + discovered" where
  "discoverExports xs filestem =
     discover filestem xs
       \<lparr>ds_workflows = [], ds_actions = [], ds_http = [], ds_cron = [], ds_manual = [], ds_imap = [], ds_ws = [], ds_queues = []\<rparr>"

section \<open>Schemas of the manifest\<close>

type_synonym fields = "(string \<times> json) list"

definition assertZodSchema :: "zod_schema \<Rightarrow> string \<Rightarrow> string \<Rightarrow> string + unit" where
  "assertZodSchema s label wfn =
     (if zs_hasParse s then Inr ()
      else Inl (in_workflow wfn (label @ '' is not a Zod schema (expected an object with a .parse() method)'')))"

definition toJsonSchema :: "zod_schema \<Rightarrow> string \<Rightarrow> string \<Rightarrow> string + fields" where
  "toJsonSchema s label wfn =
     (case zs_json s of
        None \<Rightarrow> Inl (in_workflow wfn (label @ '' does not support toJSONSchema() (expected Zod v4)''))
      | Some None \<Rightarrow> Inl (in_workflow wfn (label @ '' toJSONSchema() returned non-object''))
      | Some (Some fs) \<Rightarrow> Inr fs)"

definition schema_of :: "zod_schema \<Rightarrow> string \<Rightarrow> string \<Rightarrow> string + fields" where
  \<comment> \<open>\<open>assertZodSchema\<close> and then \<open>toJsonSchema\<close>\<close>
  "schema_of s label wfn = and_then (assertZodSchema s label wfn) (\<lambda>_. toJsonSchema s label wfn)"

definition JSON_SCHEMA_DRAFT :: string where "JSON_SCHEMA_DRAFT = ''https://json-schema.org/draft/2020-12/schema''"

definition typed :: "string \<Rightarrow> json" where "typed t = JObj [(''type'', JStr t)]"

definition headersJsonSchema :: fields where
  "headersJsonSchema = [(''type'', JStr ''object''), (''propertyNames'', typed ''string''), (''additionalProperties'', typed ''string'')]"

definition stripDraftMarker :: "fields \<Rightarrow> fields" where
  "stripDraftMarker schema = filter (\<lambda>(k, v). k \<noteq> ''$schema'') schema"

definition composeHttpInputSchema :: "fields \<Rightarrow> fields \<Rightarrow> string \<Rightarrow> fields" where
  "composeHttpInputSchema body headers method =
     [(''$schema'', JStr JSON_SCHEMA_DRAFT), (''type'', JStr ''object''),
      (''properties'', JObj
        [(''body'', JObj (stripDraftMarker body)), (''headers'', JObj (stripDraftMarker headers)), (''url'', typed ''string''),
         (''method'', JObj [(''default'', JStr method), (''type'', JStr ''string'')])]),
      (''required'', JArr (map JStr [''body'', ''headers'', ''url'', ''method''])), (''additionalProperties'', JBool False)]"

definition composeHttpOutputSchema :: "fields option \<Rightarrow> fields option \<Rightarrow> fields" where
  "composeHttpOutputSchema body headers =
     (let headersSlot = JObj (case headers of None \<Rightarrow> headersJsonSchema | Some h \<Rightarrow> stripDraftMarker h)
      in [(''$schema'', JStr JSON_SCHEMA_DRAFT), (''type'', JStr ''object''),
          (''properties'', JObj [(''status'', typed ''number''),
             (''body'', JObj (case body of None \<Rightarrow> [] | Some b \<Rightarrow> stripDraftMarker b)), (''headers'', headersSlot)])] @
         (case body of None \<Rightarrow> [] | Some _ \<Rightarrow> [(''required'', JArr [JStr ''body''])]) @ [(''additionalProperties'', JBool False)])"

definition cronInputJsonSchema :: fields where
  "cronInputJsonSchema =
     [(''$schema'', JStr JSON_SCHEMA_DRAFT), (''type'', JStr ''object''), (''properties'', JObj []), (''additionalProperties'', JBool False)]"

definition cronOutputJsonSchema :: fields where
  "cronOutputJsonSchema = [(''$schema'', JStr JSON_SCHEMA_DRAFT)]"

definition array_of :: "json \<Rightarrow> json" where
  "array_of items = JObj [(''type'', JStr ''array''), (''items'', items)]"

definition imapAddressJsonSchema :: json where
  "imapAddressJsonSchema =
     JObj [(''type'', JStr ''object''), (''properties'', JObj [(''name'', typed ''string''), (''address'', typed ''string'')]),
           (''required'', JArr [JStr ''address'']), (''additionalProperties'', JBool False)]"

definition imapInputJsonSchema :: fields where
  "imapInputJsonSchema =
     [(''$schema'', JStr JSON_SCHEMA_DRAFT), (''type'', JStr ''object''),
      (''properties'', JObj
        [(''uid'', typed ''number''), (''messageId'', typed ''string''), (''inReplyTo'', typed ''string''),
         (''references'', array_of (typed ''string'')), (''from'', imapAddressJsonSchema), (''to'', array_of imapAddressJsonSchema),
         (''cc'', array_of imapAddressJsonSchema), (''bcc'', array_of imapAddressJsonSchema), (''replyTo'', array_of imapAddressJsonSchema),
         (''subject'', typed ''string''), (''date'', typed ''string''), (''text'', typed ''string''), (''html'', typed ''string''),
         (''headers'', JObj [(''type'', JStr ''object''), (''additionalProperties'', array_of (typed ''string''))]),
         (''attachments'', array_of (JObj
           [(''type'', JStr ''object''),
            (''properties'', JObj
              [(''filename'', typed ''string''), (''contentType'', typed ''string''), (''size'', typed ''number''),
               (''contentId'', typed ''string''),
               (''contentDisposition'', JObj [(''type'', JStr ''string''), (''enum'', JArr [JStr ''inline'', JStr ''attachment''])]),
               (''content'', typed ''string'')]),
            (''required'', JArr (map JStr [''contentType'', ''size'', ''content''])), (''additionalProperties'', JBool False)]))]),
      (''required'', JArr (map JStr [''uid'', ''references'', ''from'', ''to'', ''cc'', ''bcc'', ''subject'', ''date'', ''headers'', ''attachments''])),
      (''additionalProperties'', JBool False)]"

definition imapOutputJsonSchema :: fields where
  "imapOutputJsonSchema =
     [(''$schema'', JStr JSON_SCHEMA_DRAFT), (''type'', JStr ''object''),
      (''properties'', JObj [(''command'', array_of (typed ''string''))]), (''additionalProperties'', JBool False)]"

section \<open>Entries\<close>

fun exported_twice :: "(string \<times> action_obj) list \<Rightarrow> (nat, string list) jsmap \<Rightarrow> (nat, string list) jsmap" where
  \<comment> \<open>\<open>exportNamesByAction\<close>\<close>
  "exported_twice [] m = m"
| "exported_twice ((name, a) # rest) m =
     exported_twice rest (map_set (ao_id a) ((case map_get m (ao_id a) of Some ns \<Rightarrow> ns | None \<Rightarrow> []) @ [name]) m)"

fun action_entries :: "string \<Rightarrow> (string \<times> action_obj) list \<Rightarrow> string + json list" where
  "action_entries wfn [] = Inr []"
| "action_entries wfn ((name, a) # rest) =
     (if ao_name a = [] then
        Inl (in_workflow wfn (''action '' @ q name @ '' was not transformed at build time. Actions must be declared as: export const '' @ name @ '' = action({...})''))
      else if ao_name a \<noteq> name then
        Inl (in_workflow wfn (''action '' @ q name @ '' was built-time named '' @ q (ao_name a) @ ''; the name must match the export name''))
      else
        let inputLabel = ''action '' @ q name @ ''.input''; outputLabel = ''action '' @ q name @ ''.output''
        in and_then (assertZodSchema (ao_input a) inputLabel wfn) (\<lambda>_.
           and_then (assertZodSchema (ao_output a) outputLabel wfn) (\<lambda>_.
           and_then (toJsonSchema (ao_input a) inputLabel wfn) (\<lambda>inp.
           and_then (toJsonSchema (ao_output a) outputLabel wfn) (\<lambda>out.
           and_then (action_entries wfn rest) (\<lambda>es.
           Inr (JObj [(''name'', JStr name), (''input'', JObj inp), (''output'', JObj out)] # es)))))))"

definition buildActionEntries :: "(string \<times> action_obj) list \<Rightarrow> string \<Rightarrow> string + json list" where
  "buildActionEntries entries wfn =
     (case find (\<lambda>names. length names > 1) (vals (exported_twice entries [])) of
        Some names \<Rightarrow>
          Inl (in_workflow wfn (''action exported under multiple names ('' @ q (names ! 0) @ '' and '' @ q (names ! 1) @
            ''); action identity is the export name''))
      | None \<Rightarrow> action_entries wfn entries)"

fun queue_entries :: "string \<Rightarrow> (string \<times> queue_obj) list \<Rightarrow> string list \<Rightarrow> string + json list" where
  \<comment> \<open>the names seen so far; the warning about a name that an action or trigger has too is output only\<close>
  "queue_entries wfn [] seen = Inr []"
| "queue_entries wfn ((export, x) # rest) seen =
     (let name = qo_name x
      in if name = [] then
           Inl (in_workflow wfn (''queue '' @ q export @ '' was not transformed at build time. Queues must be declared as: export const '' @
             export @ '' = defineQueue({schema, ...})''))
         else if \<not> QUEUE_NAME_RE name then
           Inl (in_workflow wfn (''queue resolved name '' @ q name @ '' (export '' @ q export @ '') must match /^[a-z][a-zA-Z0-9]*$/''))
         else if name \<in> set seen then Inl (in_workflow wfn (''queue name '' @ q name @ '' is declared more than once''))
         else and_then (schema_of (qo_schema x) (''queue '' @ q name @ ''.schema'') wfn) (\<lambda>schema.
              and_then (queue_entries wfn rest (set_add name seen)) (\<lambda>es.
              Inr (JObj [(''name'', JStr name), (''schema'', JObj (stripDraftMarker schema))] # es))))"

definition buildQueueEntries :: "(string \<times> queue_obj) list \<Rightarrow> string \<Rightarrow> string + json list" where
  "buildQueueEntries entries wfn = queue_entries wfn entries []"

definition no_handler :: "string \<Rightarrow> string \<Rightarrow> string \<Rightarrow> string" where
  "no_handler wfn kind name = in_workflow wfn (kind @ ''trigger '' @ q name @ '' is missing a handler function'')"

definition opt_schema :: "zod_schema option \<Rightarrow> string \<Rightarrow> string \<Rightarrow> string + fields option" where
  "opt_schema s label wfn = (case s of None \<Rightarrow> Inr None | Some x \<Rightarrow> map_sum id Some (schema_of x label wfn))"

definition extractHttpTriggerJsonSchemas :: "string \<Rightarrow> http_trigger \<Rightarrow> string \<Rightarrow> string + (fields \<times> fields \<times> fields option \<times> fields option)" where
  "extractHttpTriggerJsonSchemas name t wfn =
     (let label = (\<lambda>p. ''trigger '' @ q name @ p)
      in and_then (schema_of (ht_body t) (label ''.request.body'') wfn) (\<lambda>body.
         and_then (schema_of (ht_headers t) (label ''.request.headers'') wfn) (\<lambda>headers.
         and_then (opt_schema (ht_responseBody t) (label ''.response.body'') wfn) (\<lambda>rb.
         and_then (opt_schema (ht_responseHeaders t) (label ''.response.headers'') wfn) (\<lambda>rh.
         Inr (body, headers, rb, rh))))))"

definition buildTriggerEntry :: "string \<Rightarrow> http_trigger \<Rightarrow> string \<Rightarrow> string + json" where
  "buildTriggerEntry name t wfn =
     (if \<not> ht_callable t then Inl (no_handler wfn [] name)
      else and_then (extractHttpTriggerJsonSchemas name t wfn) (\<lambda>(body, headers, rb, rh).
        Inr (JObj ([(''name'', JStr name), (''type'', JStr ''http''), (''method'', JStr (ht_method t)),
          (''request'', JObj [(''body'', JObj body), (''headers'', JObj (stripDraftMarker headers))]),
          (''inputSchema'', JObj (composeHttpInputSchema body headers (ht_method t))),
          (''outputSchema'', JObj (composeHttpOutputSchema rb rh))] @
          (if rb = None \<and> rh = None then []
           else [(''response'', JObj
             ((case rb of Some b \<Rightarrow> [(''body'', JObj (stripDraftMarker b))] | None \<Rightarrow> []) @
              (case rh of Some h \<Rightarrow> [(''headers'', JObj (stripDraftMarker h))] | None \<Rightarrow> [])))])))))"

definition buildCronTriggerEntry :: "string \<Rightarrow> cron_trigger \<Rightarrow> string \<Rightarrow> string + json" where
  "buildCronTriggerEntry name t wfn =
     (if \<not> ct_callable t then Inl (no_handler wfn ''cron '' name)
      else Inr (JObj [(''name'', JStr name), (''type'', JStr ''cron''), (''schedule'', JStr (ct_schedule t)), (''tz'', JStr (ct_tz t)),
        (''inputSchema'', JObj cronInputJsonSchema), (''outputSchema'', JObj cronOutputJsonSchema)]))"

definition buildImapTriggerEntry :: "string \<Rightarrow> imap_trigger \<Rightarrow> string \<Rightarrow> string + json" where
  "buildImapTriggerEntry name t wfn =
     (if \<not> it_callable t then Inl (no_handler wfn ''imap '' name)
      else Inr (JObj [(''name'', JStr name), (''type'', JStr ''imap''), (''host'', JStr (it_host t)), (''port'', JNum (it_port t)),
        (''tls'', JStr (it_tls t)), (''insecureSkipVerify'', JBool (it_insecureSkipVerify t)), (''user'', JStr (it_user t)),
        (''password'', JStr (it_password t)), (''folder'', JStr (it_folder t)), (''search'', JStr (it_search t)),
        (''mode'', JStr (it_mode t)),
        (''onError'', JObj (case it_onError t of Some cs \<Rightarrow> [(''command'', JArr (map JStr cs))] | None \<Rightarrow> [])),
        (''inputSchema'', JObj imapInputJsonSchema), (''outputSchema'', JObj imapOutputJsonSchema)]))"

definition buildManualTriggerEntry :: "string \<Rightarrow> manual_trigger \<Rightarrow> string \<Rightarrow> string + json" where
  "buildManualTriggerEntry name t wfn =
     (if \<not> mt_callable t then Inl (no_handler wfn ''manual '' name)
      else let inLabel = ''manual trigger '' @ q name @ ''.inputSchema''; outLabel = ''manual trigger '' @ q name @ ''.outputSchema''
           in and_then (assertZodSchema (mt_input t) inLabel wfn) (\<lambda>_.
              and_then (assertZodSchema (mt_output t) outLabel wfn) (\<lambda>_.
              and_then (toJsonSchema (mt_input t) inLabel wfn) (\<lambda>inp.
              and_then (toJsonSchema (mt_output t) outLabel wfn) (\<lambda>out.
              Inr (JObj [(''name'', JStr name), (''type'', JStr ''manual''), (''inputSchema'', JObj inp), (''outputSchema'', JObj out)]))))))"

definition buildWsTriggerEntry :: "string \<Rightarrow> ws_trigger \<Rightarrow> string \<Rightarrow> string + json" where
  "buildWsTriggerEntry name t wfn =
     (if \<not> wt_callable t then Inl (no_handler wfn ''ws '' name)
      else let label = (\<lambda>p. ''ws trigger '' @ q name @ p)
           in and_then (assertZodSchema (wt_request t) (label ''.request'') wfn) (\<lambda>_.
              and_then (assertZodSchema (wt_response t) (label ''.response'') wfn) (\<lambda>_.
              and_then (assertZodSchema (wt_inputSchema t) (label ''.inputSchema'') wfn) (\<lambda>_.
              and_then (toJsonSchema (wt_request t) (label ''.request'') wfn) (\<lambda>request.
              and_then (toJsonSchema (wt_response t) (label ''.response'') wfn) (\<lambda>response.
              and_then (toJsonSchema (wt_inputSchema t) (label ''.inputSchema'') wfn) (\<lambda>inp.
              Inr (JObj [(''name'', JStr name), (''type'', JStr ''ws''), (''request'', JObj (stripDraftMarker request)),
                (''response'', JObj (stripDraftMarker response)), (''inputSchema'', JObj (stripDraftMarker inp)),
                (''outputSchema'', JObj (stripDraftMarker response))]))))))))"

section \<open>The manifest\<close>

record unsealed_manifest =
  um_name :: string
  um_module :: string
  um_sha :: string
  um_env :: "(string, string) jsmap"
  um_actions :: "json list"
  um_triggers :: "json list"
  um_queues :: "json list"
  um_secretBindings :: "string list option"

definition for_validation :: "unsealed_manifest \<Rightarrow> json" where
  \<comment> \<open>everything but \<open>secretBindings\<close>\<close>
  "for_validation u =
     JObj [(''name'', JStr (um_name u)), (''module'', JStr (um_module u)), (''sha'', JStr (um_sha u)),
       (''env'', JObj (map (\<lambda>(k, v). (k, JStr v)) (um_env u))), (''actions'', JArr (um_actions u)),
       (''triggers'', JArr (um_triggers u)), (''queues'', JArr (um_queues u))]"

definition manifest_env :: "workflow_obj \<Rightarrow> (string, string) jsmap" where
  "manifest_env w =
     foldl (\<lambda>env (key, v). if key \<in> set (case wo_secretBindings w of Some ns \<Rightarrow> ns | None \<Rightarrow> []) then env else map_set key v env) []
       (wo_env w)"

fun trigger_entries :: "(string \<Rightarrow> 't \<Rightarrow> string + json) \<Rightarrow> (string \<times> 't) list \<Rightarrow> string + json list" where
  "trigger_entries build [] = Inr []"
| "trigger_entries build ((name, t) # rest) =
     and_then (build name t) (\<lambda>e. and_then (trigger_entries build rest) (\<lambda>es. Inr (e # es)))"

definition all_triggers :: "discovered \<Rightarrow> string \<Rightarrow> string + json list" where
  "all_triggers d name =
     and_then (trigger_entries (\<lambda>k v. buildTriggerEntry k v name) (ds_http d)) (\<lambda>http.
     and_then (trigger_entries (\<lambda>k v. buildCronTriggerEntry k v name) (ds_cron d)) (\<lambda>cron.
     and_then (trigger_entries (\<lambda>k v. buildManualTriggerEntry k v name) (ds_manual d)) (\<lambda>manual.
     and_then (trigger_entries (\<lambda>k v. buildImapTriggerEntry k v name) (ds_imap d)) (\<lambda>imap.
     and_then (trigger_entries (\<lambda>k v. buildWsTriggerEntry k v name) (ds_ws d)) (\<lambda>ws.
     Inr (http @ cron @ manual @ imap @ ws))))))"

definition buildManifestFromMod ::
  "manifest_lib \<Rightarrow> (json \<Rightarrow> string) \<Rightarrow> (string \<times> sdk_export) list \<Rightarrow> string \<Rightarrow> string \<Rightarrow> string + unsealed_manifest" where
  "buildManifestFromMod lib issues xs filestem sha =
     and_then (discoverExports xs filestem) (\<lambda>d.
       if length (ds_workflows d) > 1
       then Inl (in_workflow filestem (''at most one defineWorkflow per file (found '' @ show_nat (length (ds_workflows d)) @ '')''))
       else
         let workflow = (case ds_workflows d of [] \<Rightarrow> None | (_, w) # _ \<Rightarrow> Some w);
             name = (case workflow of Some w \<Rightarrow> if wo_name w \<noteq> [] then wo_name w else filestem | None \<Rightarrow> filestem);
             secretBindings = Option.bind workflow wo_secretBindings;
             env = (case workflow of Some w \<Rightarrow> manifest_env w | None \<Rightarrow> [])
         in and_then (buildActionEntries (ds_actions d) name) (\<lambda>actions.
            and_then (all_triggers d name) (\<lambda>triggers.
            and_then (buildQueueEntries (ds_queues d) name) (\<lambda>queues.
              let built = \<lparr>um_name = name, um_module = name @ ''.js'', um_sha = sha, um_env = env, um_actions = actions,
                    um_triggers = triggers, um_queues = queues,
                    um_secretBindings = (case secretBindings of Some (n # ns) \<Rightarrow> Some (n # ns) | _ \<Rightarrow> None)\<rparr>
              in case workflowManifestSchema lib (for_validation built) of
                   None \<Rightarrow> Inl (issues (for_validation built))
                 | Some _ \<Rightarrow> Inr built))))"

section \<open>What is built\<close>

text \<open>A manifest that is built is one the server's schema accepts, and the server reads the same names, environment and digest.\<close>

lemma z_record_texts: "z_record z_string (JObj (map (\<lambda>(k, v). (k, JStr v)) env)) = Some env"
proof -
  have "those (map (\<lambda>(k, x). map_option (Pair k) (z_string x)) (map (\<lambda>(k, v). (k, JStr v)) env)) = Some env"
    by (induction env) (auto simp: z_string_def)
  then show ?thesis by (simp add: z_record_def)
qed

definition accepted_as :: "manifest_lib \<Rightarrow> unsealed_manifest \<Rightarrow> workflow_manifest \<Rightarrow> bool" where
  \<comment> \<open>what the server reads of a manifest without secrets\<close>
  "accepted_as lib u w \<longleftrightarrow>
     wm_name w = um_name u \<and> wm_module w = um_module u \<and> wm_sha w = um_sha u \<and> wm_env w = um_env u \<and> wm_secrets w = None \<and>
     wm_secretsKeyId w = None \<and> z_array (actionManifestSchema lib) (JArr (um_actions u)) = Some (wm_actions w) \<and>
     z_array (triggerManifestSchema lib) (JArr (um_triggers u)) = Some (wm_triggers w) \<and>
     z_array (queueManifestSchema lib) (JArr (um_queues u)) = Some (wm_queues w) \<and> workflow_refinements w"

lemma accepted_reads:
  assumes "workflowManifestSchema lib (for_validation u) = Some w"
  shows "accepted_as lib u w"
  using assms
  by (auto simp: workflowManifestSchema_def for_validation_def strictObject_def required_def optional_def with_default_def
      z_record_texts z_refine_def accepted_as_def z_string_def bind_eq_Some_conv split: if_splits)

lemma built_manifest_accepted:
  assumes "buildManifestFromMod lib issues xs filestem sha = Inr u"
  shows "\<exists>w. workflowManifestSchema lib (for_validation u) = Some w \<and> accepted_as lib u w"
  using assms accepted_reads
  by (fastforce simp: buildManifestFromMod_def and_then_Inr Let_def split: if_splits option.splits list.splits)

end
