(* ===== verification/Upload.thy ===== *)
theory Upload
  imports Auth
begin

text \<open>
  The management API (\<open>packages/runtime/src/api\<close>): the upload handler (\<open>upload.ts\<close>) with the
  check of sealed secrets, the failure replies and the \<open>system.upload\<close> events, the public-key
  handler (\<open>public-key.ts\<close>) and the route that puts authentication and the owner check before
  them (\<open>index.ts\<close>).

  A handler returns the registry, the event store and its reply; \<open>Crashed\<close> is an error the
  handler does not catch. \<open>up_id\<close> and \<open>up_at\<close> are the random ids and the clock of the events.
\<close>

section \<open>Uploads\<close>

record upload_env =
  up_id :: "nat \<Rightarrow> string"
  up_at :: string

datatype upload_reply =
    NoContent
  | ErrorReply nat string
  | SecretsRejected nat string secrets_verify_failure
  | RegistrationFailed nat register_result
  | Crashed string

fun failureResponse :: "register_result \<Rightarrow> upload_reply" where
  \<comment> \<open>an absent list of the result is an empty one; the registry fills in no empty list\<close>
  "failureResponse (RegFailed err issues userErrors infraErrors secretFailures) =
     RegistrationFailed
       (if secretFailures \<noteq> [] then 400 else if userErrors \<noteq> [] then 400 else if infraErrors \<noteq> [] then 500 else 422)
       (RegFailed err issues userErrors infraErrors secretFailures)"
| "failureResponse (RegThrew err) = Crashed err"
| "failureResponse (RegOk owner repo ws) = NoContent"

datatype verify_result = VerifyOk | VerifyFailed secrets_verify_failure | VerifyThrew string

definition verifySecretsIfPresent :: "('b, 'y) registry_env \<Rightarrow> (string, string) jsmap \<Rightarrow> verify_result" where
  "verifySecretsIfPresent env files =
     (case map_get files ''manifest.json'' of
        None \<Rightarrow> VerifyOk
      | Some manifestRaw \<Rightarrow>
          (case re_jsonParse env manifestRaw of
             Inl err \<Rightarrow> VerifyThrew err
           | Inr v \<Rightarrow>
               (case ManifestSchema (re_schemaLib env) v of
                  None \<Rightarrow> VerifyOk
                | Some manifest \<Rightarrow>
                    (case verifyManifestSecrets (re_secretsLib env) manifest (re_keyStore env) of
                       None \<Rightarrow> VerifyOk
                     | Some failure \<Rightarrow> VerifyFailed failure))))"

definition add_named :: "(string, json) jsmap \<Rightarrow> json \<Rightarrow> (string, json) jsmap" where
  "add_named out w =
     (case w of
        JObj fs \<Rightarrow> (case map_get fs ''name'' of Some (JStr name) \<Rightarrow> map_set name w out | _ \<Rightarrow> out)
      | _ \<Rightarrow> out)"

definition parseManifestWorkflows :: "('b, 'y) registry_env \<Rightarrow> (string, string) jsmap \<Rightarrow> (string, json) jsmap" where
  "parseManifestWorkflows env files =
     (case map_get files ''manifest.json'' of
        None \<Rightarrow> []
      | Some raw \<Rightarrow>
          (case re_jsonParse env raw of
             Inl _ \<Rightarrow> []
           | Inr parsed \<Rightarrow>
               (case prop_of (Some parsed) ''workflows'' of
                  Some (JArr ws) \<Rightarrow> foldl add_named [] ws
                | _ \<Rightarrow> [])))"

fun emit_entries ::
  "upload_env \<Rightarrow> (string, json) jsmap \<Rightarrow> string \<times> string \<Rightarrow> nat \<Rightarrow> workflow_entry list \<Rightarrow> event_store \<Rightarrow> event_store" where
  "emit_entries up snapshots user k [] st = st"
| "emit_entries up snapshots user k (e # es) st =
     (let w = we_workflow e in
      if hasUploadEvent st (we_owner e) (we_repo e) (wm_name w) (wm_sha w)
      then emit_entries up snapshots user (Suc k) es st
      else emit_entries up snapshots user (Suc k) es
        (emitSystemUpload st (up_id up k) (up_at up)
           \<lparr>rq_owner = we_owner e, rq_repo = we_repo e, rq_workflow = wm_name w, rq_sha = wm_sha w, rq_dispatch = None\<rparr>
           (case map_get snapshots (wm_name w) of Some s \<Rightarrow> s | None \<Rightarrow> JObj []) user))"

definition emitUploadEvents ::
  "('b, 'y) registry_env \<Rightarrow> upload_env \<Rightarrow> ('b, 'y) registry \<Rightarrow> string \<Rightarrow> string \<Rightarrow> (string, string) jsmap
     \<Rightarrow> user_context \<Rightarrow> event_store \<Rightarrow> event_store" where
  "emitUploadEvents env up r owner repo files user st =
     emit_entries up (parseManifestWorkflows env files) (uc_login user, uc_mail user) 0
       (collectEntries r (Some owner) (Some repo)) st"

definition uploadHandler ::
  "('b, 'y) registry_env \<Rightarrow> upload_env \<Rightarrow> ('b, 'y) registry \<Rightarrow> event_store \<Rightarrow> string \<Rightarrow> string \<Rightarrow> 'y
     \<Rightarrow> user_context \<Rightarrow> ('b, 'y) registry \<times> event_store \<times> upload_reply" where
  "uploadHandler env up r st owner repo tarballBytes user =
     (case re_extract env tarballBytes of
        Inl _ \<Rightarrow> (r, st, ErrorReply 415 ''Not a valid gzip/tar archive'')
      | Inr files \<Rightarrow>
          (case verifySecretsIfPresent env files of
             VerifyThrew err \<Rightarrow> (r, st, Crashed err)
           | VerifyFailed failure \<Rightarrow> (r, st, SecretsRejected 400 owner failure)
           | VerifyOk \<Rightarrow>
               (case registerOwner env r owner repo files (Some tarballBytes) of
                  (r', RegOk _ _ _) \<Rightarrow> (r', emitUploadEvents env up r' owner repo files user st, NoContent)
                | (r', res) \<Rightarrow> (r', st, failureResponse res))))"

definition publicKeyHandler :: "secrets_lib \<Rightarrow> key_store \<Rightarrow> string + byte list \<times> string" where
  "publicKeyHandler lib ks =
     (case getPrimary ks of Inl err \<Rightarrow> Inl err | Inr primary \<Rightarrow> Inr (rk_pk primary, computeKeyId lib (rk_pk primary)))"

section \<open>The route\<close>

definition apiUpload ::
  "('b, 'y) registry_env \<Rightarrow> upload_env \<Rightarrow> github_api \<Rightarrow> (string, provider) jsmap \<Rightarrow> ('b, 'y) registry \<Rightarrow> event_store
     \<Rightarrow> string option \<Rightarrow> string option \<Rightarrow> string \<Rightarrow> string \<Rightarrow> 'y \<Rightarrow> ('b, 'y) registry \<times> event_store \<times> upload_reply" where
  \<comment> \<open>\<open>POST /api/workflows/:owner/:repo\<close>\<close>
  "apiUpload env up gh authRegistry r st providerHeader authorization owner repo tarballBytes =
     (case apiAuthMiddleware gh authRegistry providerHeader authorization of
        None \<Rightarrow> (r, st, ErrorReply 401 ''Unauthorized'')
      | Some user \<Rightarrow>
          if \<not> requireOwnerMember (Some owner) (Some repo) (Some user) then (r, st, ErrorReply 404 ''Not Found'')
          else uploadHandler env up r st owner repo tarballBytes user)"

section \<open>Lemmas\<close>

lemma collectEntries_owner:
  "list_all (\<lambda>e. we_owner e = owner \<and> we_repo e = repo) (collectEntries r (Some owner) (Some repo))"
  by (auto simp: collectEntries_def collectForRepo_def list_all_iff split: option.splits if_splits)

definition uploads_of :: "string \<Rightarrow> string \<Rightarrow> string \<times> string \<Rightarrow> invocation_event list \<Rightarrow> bool" where
  "uploads_of owner repo user es = list_all (\<lambda>e. ie_owner e = owner \<and> ie_repo e = repo \<and> ie_kind e = ''system.upload'' \<and>
     ie_meta e = Some \<lparr>dm_source = ''upload'', dm_user = Some user\<rparr>) es"

lemma record_accepts: "accepted (record_event st e) = accepted st @ (if stopped st then [] else [e])"
  by (auto simp: record_event_def appendToAccumulator_def commitInvocation_def Let_def split: option.splits list.splits)

lemma emit_entries_accepts:
  assumes "list_all (\<lambda>e. we_owner e = owner \<and> we_repo e = repo) es"
  shows "\<exists>new. accepted (emit_entries up snapshots user k es st) = accepted st @ new \<and> uploads_of owner repo user new"
  using assms
proof (induction es arbitrary: k st)
  case Nil
  show ?case by (rule exI [of _ "[]"]) (simp add: uploads_of_def)
next
  case (Cons e es)
  let ?w = "we_workflow e"
  show ?case
  proof (cases "hasUploadEvent st (we_owner e) (we_repo e) (wm_name ?w) (wm_sha ?w)")
    case True
    with Cons.IH [of "Suc k" st] Cons.prems show ?thesis by simp
  next
    case False
    let ?st = "emitSystemUpload st (up_id up k) (up_at up)
           \<lparr>rq_owner = we_owner e, rq_repo = we_repo e, rq_workflow = wm_name ?w, rq_sha = wm_sha ?w, rq_dispatch = None\<rparr>
           (case map_get snapshots (wm_name ?w) of Some s \<Rightarrow> s | None \<Rightarrow> JObj []) user"
    obtain new where new: "accepted (emit_entries up snapshots user (Suc k) es ?st) = accepted ?st @ new"
      "uploads_of owner repo user new"
      using Cons.IH [of "Suc k" ?st] Cons.prems by auto
    obtain one where "accepted ?st = accepted st @ one" "uploads_of owner repo user one"
      using Cons.prems by (auto simp: emitSystemUpload_def record_accepts upload_event_def uploads_of_def)
    with new have "accepted (emit_entries up snapshots user (Suc k) es ?st) = accepted st @ one @ new"
      "uploads_of owner repo user (one @ new)"
      by (simp_all add: uploads_of_def)
    then show ?thesis using False by (simp add: Let_def)
  qed
qed

lemma api_identity_vouched:
  assumes "apiAuthMiddleware gh reg providerHeader authorization = Some user"
  shows "\<exists>i. providerHeader = Some i \<and> vouched reg (t, i, user, gh)"
proof -
  obtain i p where p: "providerHeader = Some i" "byId reg i = Some p" "resolveApiIdentity gh p authorization = Some user"
    using assms by (auto simp: apiAuthMiddleware_def split: option.splits if_splits)
  have "vouched reg (t, i, user, gh)"
  proof (cases p)
    case (GithubProvider users orgs)
    with p show ?thesis by (auto simp: vouched_def provider_defs split: option.splits sum.splits if_splits)
  next
    case (LocalProvider entries)
    with p show ?thesis by (auto simp: vouched_def provider_defs split: option.splits) (metis map_of_SomeD snd_conv)
  qed
  with p(1) show ?thesis by blast
qed

lemma upload_cases:
  assumes "uploadHandler env up r st owner repo bytes user = (r', st', reply)"
  shows "(\<exists>new. accepted st' = accepted st @ new \<and> uploads_of owner repo (uc_login user, uc_mail user) new) \<and>
    (reply = NoContent \<or> st' = st) \<and>
    ((o1, p1) = (owner, repo) \<or> getRepoState r' o1 p1 = getRepoState r o1 p1)"
proof -
  have none: "\<exists>new. accepted st = accepted st @ new \<and> uploads_of owner repo u new" for u
    by (rule exI [of _ "[]"]) (simp add: uploads_of_def)
  show ?thesis
  proof (cases "\<exists>files. re_extract env bytes = Inr files \<and> verifySecretsIfPresent env files = VerifyOk")
    case False
    then show ?thesis using assms none
      by (auto simp: uploadHandler_def split: sum.splits verify_result.splits)
  next
    case True
    then obtain files where f: "re_extract env bytes = Inr files" "verifySecretsIfPresent env files = VerifyOk" by blast
    obtain res where reg: "registerOwner env r owner repo files (Some bytes) = (r', res)"
      using assms f by (auto simp: uploadHandler_def split: prod.splits register_result.splits)
    have keep: "(o1, p1) \<noteq> (owner, repo) \<Longrightarrow> getRepoState r' o1 p1 = getRepoState r o1 p1"
      using register_keeps(2) [of r' env r owner repo files "Some bytes"] reg by simp
    show ?thesis
    proof (cases res)
      case (RegOk o2 p2 ws)
      then have st': "st' = emitUploadEvents env up r' owner repo files user st" "reply = NoContent"
        using assms f reg by (auto simp: uploadHandler_def)
      show ?thesis
        using emit_entries_accepts [OF collectEntries_owner] keep st' by (auto simp: emitUploadEvents_def)
    next
      case (RegFailed err a b c d)
      then show ?thesis using assms f reg none keep by (auto simp: uploadHandler_def)
    next
      case (RegThrew err)
      then show ?thesis using assms f reg none keep by (auto simp: uploadHandler_def)
    qed
  qed
qed

text \<open>
  \<^bold>\<open>C20\<close>. An upload changes nothing unless the provider named in the request vouches for the
  caller, the caller is a member of the owner in the URL and both names are well formed. It then
  touches the state of that one repository, and the events it records are \<open>system.upload\<close>
  leaves of that repository attributed to the caller, recorded only when the upload succeeds.
\<close>

theorem upload_effects_authorized:
  "case apiUpload env up gh authRegistry r st providerHeader authorization owner repo bytes of (r', st', reply) \<Rightarrow>
     (if r' = r \<and> st' = st then True
      else (\<exists>user i. apiAuthMiddleware gh authRegistry providerHeader authorization = Some user \<and>
        providerHeader = Some i \<and> vouched authRegistry (t, i, user, gh) \<and>
        isMember user owner \<and> OWNER_NAME_RE owner \<and> REPO_NAME_RE repo \<and>
        (\<exists>new. accepted st' = accepted st @ new \<and> uploads_of owner repo (uc_login user, uc_mail user) new) \<and>
        (if reply = NoContent then True else st' = st) \<and>
        (\<forall>o1 p1. if (o1, p1) = (owner, repo) then True else getRepoState r' o1 p1 = getRepoState r o1 p1)))"
proof (cases "apiAuthMiddleware gh authRegistry providerHeader authorization")
  case None
  then show ?thesis by (simp add: apiUpload_def)
next
  case (Some user)
  show ?thesis
  proof (cases "requireOwnerMember (Some owner) (Some repo) (Some user)")
    case False
    with Some show ?thesis by (simp add: apiUpload_def)
  next
    case True
    then have m: "isMember user owner" "OWNER_NAME_RE owner" "REPO_NAME_RE repo"
      by (auto simp: requireOwnerMember_def validateOwner_def validateRepo_def Let_def split: if_splits)
    obtain r' st' reply where h: "uploadHandler env up r st owner repo bytes user = (r', st', reply)" by (metis prod_cases3)
    from api_identity_vouched [OF Some, of t] upload_cases [OF h] m Some h True show ?thesis
      by (auto simp: apiUpload_def)
  qed
qed

section \<open>What fails how\<close>

lemma build_loop_no_throw: "build_loop rehydrate allowed w store es missing descs \<noteq> BuildThrew e"
  by (induction es arbitrary: missing descs) (auto split: prod.splits sum.splits)

lemma registerOwner_throws:
  assumes "snd (registerOwner env r owner repo files tar) = RegThrew err"
  shows "prepareOwnerRepoState env r owner repo files = Inl (PrepThrew err)"
proof (cases "prepareOwnerRepoState env r owner repo files")
  case (Inl e)
  with assms show ?thesis by (cases e) (simp_all add: registerOwner_def)
next
  case (Inr st)
  have "mapAggregateToResult agg \<noteq> RegThrew err" for agg by (cases agg) simp_all
  with Inr assms show ?thesis
    by (auto simp: registerOwner_def Let_def split: prod.splits if_splits sum.splits option.splits)
qed

lemma verified_build_no_throw:
  assumes "verifyManifestSecrets (re_secretsLib env) ws (re_keyStore env) = None" and "set wfms \<subseteq> set ws"
  shows "build_workflows env allowed owner repo files wfms st failures \<noteq> Inl (PrepThrew err)"
  using assms(2)
proof (induction wfms arbitrary: st failures)
  case (Cons w wfms)
  obtain store where "decryptWorkflowSecrets (re_secretsLib env) (re_keyStore env) w = Inr store"
    using verified_secrets_decrypt [OF assms(1), of w] Cons.prems by auto
  then have "buildDescriptors env allowed w \<noteq> BuildThrew e" for e
    using build_loop_no_throw [of "ml_fromJSONSchema (re_schemaLib env)" allowed "wm_name w" store]
    by (simp add: buildDescriptors_def)
  with Cons show ?case by (auto split: option.splits build_result.splits)
qed auto

text \<open>
  An upload that passes the check of its secrets is never answered with an uncaught error:
  the handler crashes only on a \<open>manifest.json\<close> that is not JSON, which the check parses
  without a guard although the registry would report it with status 422.
\<close>

lemma upload_crashes_only_on_bad_json:
  assumes "uploadHandler env up r st owner repo bytes user = (r', st', Crashed err)"
  shows "\<exists>files raw. re_extract env bytes = Inr files \<and> map_get files ''manifest.json'' = Some raw \<and>
    re_jsonParse env raw = Inl err"
proof -
  obtain files where x: "re_extract env bytes = Inr files"
    using assms by (auto simp: uploadHandler_def split: sum.splits)
  show ?thesis
  proof (cases "verifySecretsIfPresent env files")
    case VerifyOk
    then have "snd (registerOwner env r owner repo files (Some bytes)) = RegThrew err"
      using assms x by (auto simp: uploadHandler_def split: prod.splits register_result.splits)
    from registerOwner_throws [OF this] obtain raw ws where w: "map_get files ''manifest.json'' = Some raw"
      "parseManifest env raw = Inr ws" "buildOwnerRepoState env (allowedKinds r) owner repo ws files = Inl (PrepThrew err)"
      by (auto simp: prepareOwnerRepoState_def parseManifest_def toRegisterIssue_def split: option.splits sum.splits)
    then have "verifyManifestSecrets (re_secretsLib env) ws (re_keyStore env) = None"
      using VerifyOk by (auto simp: verifySecretsIfPresent_def parseManifest_def split: sum.splits option.splits)
    from verified_build_no_throw [OF this subset_refl] w(3) show ?thesis by (simp add: buildOwnerRepoState_def)
  qed (use assms x in \<open>auto simp: uploadHandler_def verifySecretsIfPresent_def split: option.splits sum.splits\<close>)
qed

end
