(* ===== verification/Scrubber.thy ===== *)
theory Scrubber
  imports Secrets "HOL-Library.Sublist"
begin

text \<open>
  The \<open>secrets\<close> plugin of the worker (\<open>packages/runtime/src/plugins/secrets.ts\<close>): the list of
  active plaintexts, \<open>addSecret\<close>, and the \<open>onPost\<close> hook that replaces every plaintext in the
  string leaves of an outgoing message. A message is its JSON value. The list is sorted by
  the length of the plaintexts in UTF-16 code units, computed from their UTF-8 bytes.
\<close>

section \<open>The plugin\<close>

definition utf16_units :: "char \<Rightarrow> nat" where
  \<comment> \<open>code units started by a UTF-8 byte: none by a continuation byte, two by a four-byte head\<close>
  "utf16_units c = (let b = of_char c :: nat in if 128 \<le> b \<and> b < 192 then 0 else if 240 \<le> b then 2 else 1)"

definition utf16_length :: "string \<Rightarrow> nat" where
  "utf16_length s = sum_list (map utf16_units s)"

definition resortLongestFirst :: "string list \<Rightarrow> string list" where
  "resortLongestFirst ps = sort_key (\<lambda>p. - int (utf16_length p)) ps"

definition SECRET_MARK :: string where "SECRET_MARK = ''[secret]''"

function replaceAll :: "string \<Rightarrow> string \<Rightarrow> string \<Rightarrow> string" where
  "replaceAll pt mark s =
     (if pt = [] \<or> s = [] then s
      else if take (length pt) s = pt then mark @ replaceAll pt mark (drop (length pt) s)
      else hd s # replaceAll pt mark (tl s))"
  by pat_completeness auto
termination
  by (relation "measure (\<lambda>(pt, mark, s). length s)") auto

declare replaceAll.simps [simp del]

definition scrubString :: "string list \<Rightarrow> string \<Rightarrow> string" where
  "scrubString activePlaintexts s =
     (if length activePlaintexts = 0 then s
      else foldl (\<lambda>out pt. if length pt > 0 \<and> includes_text pt out then replaceAll pt SECRET_MARK out else out)
        s activePlaintexts)"

fun walkStrings :: "(string \<Rightarrow> string) \<Rightarrow> json \<Rightarrow> json" where
  "walkStrings f (JStr s) = JStr (f s)"
| "walkStrings f (JArr vs) = JArr (map (walkStrings f) vs)"
| "walkStrings f (JObj fs) = JObj (map (\<lambda>(k, v). (k, walkStrings f v)) fs)"
| "walkStrings f v = v"

definition addSecret :: "string list \<Rightarrow> json \<Rightarrow> string list" where
  "addSecret activePlaintexts v =
     (case v of
        JStr value \<Rightarrow>
          if length value = 0 then activePlaintexts
          else if value \<in> set activePlaintexts then activePlaintexts
          else resortLongestFirst (activePlaintexts @ [value])
      | _ \<Rightarrow> activePlaintexts)"

record secrets_config =
  cfg_name :: string
  cfg_env :: "(string, string) jsmap"
  cfg_plaintextStore :: "(string, string) jsmap"

definition getSecretsConfig :: "secrets_config \<Rightarrow> string \<times> (string, string) jsmap" where
  "getSecretsConfig cfg =
     (cfg_name cfg, foldl (\<lambda>m (k, v). map_set k v m) (foldl (\<lambda>m (k, v). map_set k v m) [] (cfg_env cfg)) (cfg_plaintextStore cfg))"

definition seed_plaintexts :: "secrets_config \<Rightarrow> string list" where
  "seed_plaintexts cfg = resortLongestFirst (filter (\<lambda>v. length v > 0) (vals (cfg_plaintextStore cfg)))"

definition onPost :: "string list \<Rightarrow> json \<Rightarrow> json" where
  "onPost activePlaintexts msg =
     (if length activePlaintexts = 0 then msg else walkStrings (scrubString activePlaintexts) msg)"

section \<open>Replacing is splitting and joining\<close>

lemma includes_text_sublist: "includes_text w s \<longleftrightarrow> sublist w s"
proof (induction s)
  case (Cons c s)
  have "take (length w) (c # s) = w \<longleftrightarrow> prefix w (c # s)" by (auto simp: prefix_def) (metis append_take_drop_id)
  with Cons show ?case by (simp add: sublist_Cons_right)
qed auto

function split_on :: "string \<Rightarrow> string \<Rightarrow> string list" where
  "split_on pt s =
     (if pt = [] \<or> s = [] then [s]
      else if take (length pt) s = pt then [] # split_on pt (drop (length pt) s)
      else (case split_on pt (tl s) of p # ps \<Rightarrow> (hd s # p) # ps | [] \<Rightarrow> []))"
  by pat_completeness auto
termination
  by (relation "measure (\<lambda>(pt, s). length s)") auto

declare split_on.simps [simp del]

lemma split_on_Cons: "\<exists>p ps. split_on pt s = p # ps \<and> prefix p s"
proof (induction pt s rule: split_on.induct)
  case (1 pt s)
  then show ?case
    by (subst split_on.simps) (auto simp: neq_Nil_conv)
qed

lemma replaceAll_join: "replaceAll pt mark s = js_join mark (split_on pt s)"
proof (induction pt mark s rule: replaceAll.induct)
  case (1 pt mark s)
  show ?case
  proof (cases "pt = [] \<or> s = []")
    case True
    then show ?thesis by (simp add: replaceAll.simps split_on.simps)
  next
    case False
    show ?thesis
    proof (cases "take (length pt) s = pt")
      case True
      obtain p ps where "split_on pt (drop (length pt) s) = p # ps" using split_on_Cons by blast
      with False True 1(1) show ?thesis by (subst replaceAll.simps, subst split_on.simps) simp
    next
      case no: False
      obtain p ps where "split_on pt (tl s) = p # ps" using split_on_Cons by blast
      with False no 1(2) show ?thesis
        by (subst replaceAll.simps, subst split_on.simps) (cases ps; simp)
    qed
  qed
qed

lemma split_on_pieces:
  assumes "pt \<noteq> []"
  shows "\<forall>p \<in> set (split_on pt s). sublist p s \<and> \<not> sublist pt p"
  using assms
proof (induction pt s rule: split_on.induct)
  case (1 pt s)
  show ?case
  proof (cases "s = []")
    case True
    with 1(3) show ?thesis by (simp add: split_on.simps)
  next
    case s: False
    then obtain c cs where cs: "s = c # cs" by (cases s) auto
    show ?thesis
    proof (cases "take (length pt) s = pt")
      case True
      have "\<forall>p \<in> set (split_on pt (drop (length pt) s)). sublist p (drop (length pt) s) \<and> \<not> sublist pt p"
        using 1 s True by simp
      with s 1(3) True show ?thesis
        by (subst split_on.simps) (auto intro: sublist_order.order.trans sublist_drop)
    next
      case False
      obtain p ps where p: "split_on pt cs = p # ps" "prefix p cs" using split_on_Cons by blast
      have ih: "\<forall>q \<in> set (split_on pt cs). sublist q cs \<and> \<not> sublist pt q" using 1 s False cs by simp
      have "\<not> prefix pt (c # p)"
        using False cs p(2) by (auto simp: prefix_def) (metis append_eq_conv_conj append_Cons append_assoc)
      with ih p have "\<not> sublist pt (c # p)" by (simp add: sublist_Cons_right)
      moreover have "sublist (c # p) (c # cs)" using p(2) by (simp add: prefix_imp_sublist)
      ultimately have "\<forall>q \<in> set ((c # p) # ps). sublist q (c # cs) \<and> \<not> sublist pt q"
        using ih p(1) by (auto intro: sublist_Cons_right [THEN iffD2])
      with s 1(3) False cs p(1) show ?thesis by (subst split_on.simps) simp
    qed
  qed
qed


lemma split_on_join: "pt \<noteq> [] \<Longrightarrow> js_join pt (split_on pt s) = s"
proof (induction pt s rule: split_on.induct)
  case (1 pt s)
  show ?case
  proof (cases "s = []")
    case False
    show ?thesis
    proof (cases "take (length pt) s = pt")
      case True
      obtain p ps where "split_on pt (drop (length pt) s) = p # ps" using split_on_Cons by blast
      with 1 False True show ?thesis by (subst split_on.simps) (simp, metis append_take_drop_id)
    next
      case no: False
      obtain p ps where "split_on pt (tl s) = p # ps" using split_on_Cons by blast
      with 1 False no show ?thesis by (subst split_on.simps) (cases ps; cases s; simp)
    qed
  qed (simp add: split_on.simps)
qed

section \<open>What is left of a plaintext\<close>

lemma sublist_separator: "c \<notin> set w \<Longrightarrow> sublist w (a @ c # b) \<longleftrightarrow> sublist w a \<or> sublist w b"
  by (auto simp: sublist_append sublist_Cons_right prefix_Cons intro: suffix_imp_sublist)

definition scrubbable :: "string \<Rightarrow> bool" where
  \<comment> \<open>no part of the mark, and unable to straddle its border\<close>
  "scrubbable pt = (pt \<noteq> [] \<and> CHR ''['' \<notin> set pt \<and> CHR '']'' \<notin> set pt \<and> \<not> includes_text pt ''secret'')"

lemma sublist_marked:
  assumes "scrubbable w"
  shows "sublist w (a @ SECRET_MARK @ b) \<longleftrightarrow> sublist w a \<or> sublist w b"
proof -
  have mark: "a @ SECRET_MARK @ b = a @ CHR ''['' # (''secret'' @ CHR '']'' # b)" by (simp add: SECRET_MARK_def)
  have "sublist w (''secret'' @ CHR '']'' # b) \<longleftrightarrow> sublist w b"
    using assms sublist_separator [of "CHR '']''" w "''secret''" b] unfolding scrubbable_def includes_text_sublist by blast
  then show ?thesis
    using assms sublist_separator [of "CHR ''[''" w a] unfolding mark scrubbable_def by blast
qed

lemma sublist_join_marked:
  "scrubbable w \<Longrightarrow> sublist w (js_join SECRET_MARK ps) \<Longrightarrow> \<exists>p \<in> set ps. sublist w p"
proof (induction ps rule: induct_list012)
  case 1
  then show ?case by (simp add: scrubbable_def)
next
  case (3 p q ps)
  then show ?case by (auto simp: sublist_marked)
qed simp

lemma replaceAll_clears:
  assumes "scrubbable w" "pt \<noteq> []" "sublist w (replaceAll pt SECRET_MARK s)"
  shows "sublist w s \<and> w \<noteq> pt"
proof -
  obtain p where "p \<in> set (split_on pt s)" "sublist w p"
    using sublist_join_marked assms(1,3) by (auto simp: replaceAll_join)
  with split_on_pieces [OF assms(2)] show ?thesis by (blast intro: sublist_order.order.trans)
qed

definition scrub_one :: "string \<Rightarrow> string \<Rightarrow> string" where
  "scrub_one out pt = (if length pt > 0 \<and> includes_text pt out then replaceAll pt SECRET_MARK out else out)"

lemma scrubString_fold: "scrubString ps s = foldl scrub_one s ps"
  by (simp add: scrubString_def scrub_one_def [abs_def])

lemma scrub_one_clears:
  assumes "scrubbable w" "sublist w (scrub_one s pt)"
  shows "sublist w s \<and> w \<noteq> pt"
proof (cases "length pt > 0 \<and> includes_text pt s")
  case True
  with assms replaceAll_clears [OF assms(1), of pt s] show ?thesis by (simp add: scrub_one_def)
next
  case False
  with assms show ?thesis unfolding scrub_one_def scrubbable_def includes_text_sublist by auto
qed

lemma scrub_fold_clears:
  "scrubbable w \<Longrightarrow> sublist w (foldl scrub_one s ps) \<Longrightarrow> sublist w s \<and> w \<notin> set ps"
proof (induction ps arbitrary: s)
  case (Cons p ps)
  then have "sublist w (scrub_one s p)" "w \<notin> set ps" by auto
  with scrub_one_clears [OF Cons.prems(1)] show ?case by auto
qed simp

lemma scrubString_clears:
  "scrubbable w \<Longrightarrow> w \<in> set ps \<Longrightarrow> \<not> includes_text w (scrubString ps s)"
  by (auto simp: scrubString_fold includes_text_sublist dest: scrub_fold_clears)

lemma replaceAll_marks:
  assumes "sublist pt s" "pt \<noteq> []"
  shows "sublist SECRET_MARK (replaceAll pt SECRET_MARK s)"
proof -
  obtain p ps where split: "split_on pt s = p # ps" using split_on_Cons by blast
  have "ps \<noteq> []"
  proof
    assume "ps = []"
    with split have "p = s" using split_on_join [of pt s] assms(2) by simp
    with split_on_pieces [OF assms(2), of s] split assms(1) show False by simp
  qed
  then obtain q qs where "ps = q # qs" by (cases ps) auto
  with split show ?thesis by (simp add: replaceAll_join sublist_appendI)
qed

lemma scrub_fold_marks:
  "sublist SECRET_MARK s \<Longrightarrow> sublist SECRET_MARK (foldl scrub_one s ps)"
  by (induction ps arbitrary: s) (auto simp: scrub_one_def includes_text_sublist replaceAll_marks)

lemma scrubString_marks:
  "if list_ex (\<lambda>p. p \<noteq> [] \<and> includes_text p s) ps then includes_text SECRET_MARK (scrubString ps s)
   else scrubString ps s = s"
  unfolding scrubString_fold
proof (induction ps)
  case (Cons p ps)
  show ?case
  proof (cases "p \<noteq> [] \<and> includes_text p s")
    case True
    then have "sublist SECRET_MARK (scrub_one s p)" by (simp add: scrub_one_def includes_text_sublist replaceAll_marks)
    with True show ?thesis by (simp add: includes_text_sublist scrub_fold_marks)
  next
    case False
    then have "scrub_one s p = s" by (auto simp: scrub_one_def)
    with Cons False show ?thesis by auto
  qed
qed simp

fun string_leaves :: "json \<Rightarrow> string list" where
  "string_leaves (JStr s) = [s]"
| "string_leaves (JArr vs) = concat (map string_leaves vs)"
| "string_leaves (JObj fs) = concat (map (\<lambda>(k, v). string_leaves v) fs)"
| "string_leaves v = []"

lemma string_leaves_walk: "string_leaves (walkStrings f v) = map f (string_leaves v)"
proof (induction f v rule: walkStrings.induct)
  case (3 f fs)
  then have "string_leaves (walkStrings f (snd kv)) = map f (string_leaves (snd kv))" if "kv \<in> set fs" for kv
    using that by (cases kv) auto
  then show ?case by (auto simp: map_concat comp_def case_prod_unfold intro!: arg_cong [where f = concat] map_cong)
qed (simp_all add: map_concat comp_def cong: map_cong)

lemma onPost_leaves: "string_leaves (onPost ps msg) = map (scrubString ps) (string_leaves msg)"
  by (auto simp: onPost_def string_leaves_walk scrubString_def [abs_def])


lemma resortLongestFirst_set [simp]: "set (resortLongestFirst ps) = set ps"
  by (simp add: resortLongestFirst_def)

lemma addSecret_set: "set (foldl addSecret ps (map JStr added)) = set ps \<union> {v \<in> set added. v \<noteq> []}"
  by (induction added arbitrary: ps) (auto simp: addSecret_def)

lemma active_plaintexts:
  "set (foldl addSecret (seed_plaintexts cfg) (map JStr added)) =
     {v \<in> set (vals (cfg_plaintextStore cfg)) \<union> set added. v \<noteq> []}"
  by (auto simp: addSecret_set seed_plaintexts_def)

text \<open>
  \<^bold>\<open>C24\<close>. Whatever message the worker posts, and whatever secrets the guest added to the
  decrypted ones before: no string leaf that leaves the worker contains a scrubbable plaintext
  (one with no bracket that is not itself a part of the mark \<open>[secret]\<close>), a leaf that held
  an active plaintext carries the mark, and every other leaf is unchanged.
\<close>

theorem scrubbed_message_leaks_nothing:
  "(let active = foldl addSecret (seed_plaintexts cfg) (map JStr added); leaves = string_leaves (onPost active msg)
    in list_all (\<lambda>pt. list_all (\<lambda>leaf. \<not> includes_text pt leaf) leaves)
         (filter scrubbable (vals (cfg_plaintextStore cfg) @ added)) \<and>
       list_all2 (\<lambda>before after. if list_ex (\<lambda>pt. pt \<noteq> [] \<and> includes_text pt before) active
           then includes_text SECRET_MARK after else after = before) (string_leaves msg) leaves)"
proof -
  let ?active = "foldl addSecret (seed_plaintexts cfg) (map JStr added)"
  have "\<not> includes_text pt (scrubString ?active s)"
    if "scrubbable pt" "pt \<in> set (vals (cfg_plaintextStore cfg) @ added)" for pt s
    using that by (intro scrubString_clears) (auto simp: active_plaintexts scrubbable_def)
  moreover have "list_all2 (\<lambda>before after. if list_ex (\<lambda>pt. pt \<noteq> [] \<and> includes_text pt before) ?active
      then includes_text SECRET_MARK after else after = before) ss (map (scrubString ?active) ss)" for ss
    unfolding list_all2_map2 by (rule list.rel_refl, rule scrubString_marks)
  ultimately show ?thesis by (auto simp: Let_def onPost_leaves list_all_iff)
qed

section \<open>What the scrubber misses\<close>

lemma short_secret_survives: "includes_text ''cre'' (scrubString [''cre''] ''token cre'')"
  by code_simp

lemma object_keys_unscrubbed:
  "onPost [''hunter2''] (JObj [(''hunter2'', JStr ''hunter2'')]) = JObj [(''hunter2'', JStr ''[secret]'')]"
  by code_simp

end
