(* ===== verification/Bundle.thy ===== *)
theory Bundle
  imports BuildWorkflows Upload Scrubber "HOL-Library.Countable"
begin

text \<open>
  From the built manifests to the upload (\<open>packages/sdk/src/cli\<close>): building every workflow file
  (\<open>buildWorkflows\<close> of \<open>build-workflows.ts\<close>) and sealing the secrets to the server's public
  key (\<open>bundle.ts\<close>, \<open>seal-http.ts\<close>). The lemmas follow the sealed secrets to the server.

  \<open>build_tools\<close> holds what the file system, TypeScript, Vite and Node's \<open>vm\<close> report, and
  \<open>seal_lib\<close> libsodium's sealed box, the base64 encoder and \<open>JSON.stringify\<close>. Sealing is
  randomised: its first argument counts the boxes sealed so far. An HTTP call is its outcome.
\<close>

section \<open>Building every workflow\<close>

record build_tools =
  bt_srcDir :: string \<comment> \<open>\<open>join(root, "src")\<close>\<close>
  bt_readdir :: "(string \<times> bool) list option" \<comment> \<open>the entries of \<open>src\<close>, with \<open>isFile()\<close>\<close>
  bt_typecheck :: "string list \<Rightarrow> string option" \<comment> \<open>the formatted diagnostics, if there are any\<close>
  bt_manifestBundle :: "string \<Rightarrow> string + string"
  bt_runtimeBundle :: "string \<Rightarrow> string + string"
  bt_run :: "string \<Rightarrow> (string \<Rightarrow> string option) \<Rightarrow> string + (string \<times> sdk_export) list option"
  bt_sha256 :: "string \<Rightarrow> string"
  bt_settled :: "nat list" \<comment> \<open>the order in which the builds of the files end\<close>
  bt_issues :: "json \<Rightarrow> string"

definition ends_with :: "string \<Rightarrow> string \<Rightarrow> bool" where
  "ends_with s sfx = (length sfx \<le> length s \<and> drop (length s - length sfx) s = sfx)"

definition discoverWorkflowFiles :: "build_tools \<Rightarrow> string list" where
  "discoverWorkflowFiles t =
     (case bt_readdir t of
        None \<Rightarrow> []
      | Some entries \<Rightarrow>
          map (\<lambda>(entry, is_file). ''./src/'' @ entry)
            (filter (\<lambda>(entry, is_file).
               ends_with entry ''.ts'' \<and> \<not> ends_with entry ''.test.ts'' \<and> \<not> ends_with entry ''.d.ts'' \<and> is_file) entries))"

definition after_slash :: "string \<Rightarrow> string" where
  "after_slash p = rev (takeWhile (\<lambda>c. c \<noteq> CHR ''/'') (rev p))"

definition filestem_of :: "string \<Rightarrow> string" where
  \<comment> \<open>\<open>basename(wf, ".ts")\<close>\<close>
  "filestem_of wpath =
     (let base = after_slash wpath
      in if ends_with base ''.ts'' \<and> base \<noteq> ''.ts'' then take (length base - 3) base else base)"

definition runIifeInVmContext ::
  "build_tools \<Rightarrow> string \<Rightarrow> string \<Rightarrow> (string \<Rightarrow> string option) \<Rightarrow> string + (string \<times> sdk_export) list" where
  "runIifeInVmContext t bundleSource filestem envSource =
     (case bt_run t bundleSource envSource of
        Inl message \<Rightarrow> Inl (''Failed to evaluate bundled workflow '' @ q filestem @ '': '' @ message)
      | Inr None \<Rightarrow>
          Inl (''Bundled workflow '' @ q filestem @ '': IIFE did not assign exports to globalThis.__wfe_exports__'')
      | Inr (Some ns) \<Rightarrow> Inr ns)"

definition buildOneWorkflow ::
  "build_tools \<Rightarrow> manifest_lib \<Rightarrow> (string \<Rightarrow> string option) \<Rightarrow> string \<Rightarrow> string + unsealed_manifest \<times> string" where
  "buildOneWorkflow t lib envSource workflowPath =
     (let filestem = filestem_of workflowPath
      in and_then (bt_manifestBundle t workflowPath) (\<lambda>manifestSource.
         and_then (runIifeInVmContext t manifestSource filestem envSource) (\<lambda>ns.
         and_then (bt_runtimeBundle t workflowPath) (\<lambda>bundleSource.
         and_then (buildManifestFromMod lib (bt_issues t) ns filestem (bt_sha256 t bundleSource)) (\<lambda>manifest.
         Inr (manifest, bundleSource))))))"

definition promise_all :: "nat list \<Rightarrow> ('e + 'a) list \<Rightarrow> 'e + 'a list" where
  \<comment> \<open>the rejection of the first promise to reject, or every value\<close>
  "promise_all settling rs =
     (case find (\<lambda>i. i < length rs \<and> isl (rs ! i)) (settling @ [0..<length rs]) of
        Some i \<Rightarrow> Inl (projl (rs ! i))
      | None \<Rightarrow> Inr (map projr rs))"

definition buildWorkflows ::
  "build_tools \<Rightarrow> manifest_lib \<Rightarrow> (string \<Rightarrow> string option) \<Rightarrow> string + (string, string) jsmap \<times> unsealed_manifest list" where
  "buildWorkflows t lib envSource =
     (let workflows = discoverWorkflowFiles t
      in if workflows = [] then Inl (''no workflows found in '' @ bt_srcDir t)
         else case bt_typecheck t workflows of
           Some formatted \<Rightarrow> Inl (''TypeScript errors in workflows:'' @ [CHR 0x0A] @ formatted)
         | None \<Rightarrow>
             and_then (promise_all (bt_settled t) (map (buildOneWorkflow t lib envSource) workflows)) (\<lambda>built.
               Inr (foldl (\<lambda>files (m, src). map_set (um_name m @ ''.js'') src files) [] built, map fst built)))"

section \<open>Sealing\<close>

record seal_lib =
  se_seal :: "nat \<Rightarrow> string \<Rightarrow> byte list \<Rightarrow> byte list" \<comment> \<open>\<open>crypto_box_seal(encode(text), publicKey)\<close>\<close>
  se_base64 :: "byte list \<Rightarrow> string"
  se_stringify :: "json \<Rightarrow> string"

record sealed_workflow =
  sw_rest :: unsealed_manifest \<comment> \<open>without \<open>secretBindings\<close>\<close>
  sw_secrets :: "((string, string) jsmap \<times> string) option" \<comment> \<open>\<open>secrets\<close> and \<open>secretsKeyId\<close>\<close>

definition bindings_of :: "unsealed_manifest \<Rightarrow> string list" where
  "bindings_of u = (case um_secretBindings u of Some ns \<Rightarrow> ns | None \<Rightarrow> [])"

definition collectMissingSecretBindings :: "unsealed_manifest list \<Rightarrow> (string \<Rightarrow> string option) \<Rightarrow> string list" where
  "collectMissingSecretBindings ms env = concat (map (\<lambda>u. filter (\<lambda>n. env n = None) (bindings_of u)) ms)"

definition manifestNeedsSealing :: "unsealed_manifest list \<Rightarrow> bool" where
  "manifestNeedsSealing ms = list_ex (\<lambda>u. length (bindings_of u) > 0) ms"

datatype bundle_error =
    BuildFailed string \<comment> \<open>any other error, by its message\<close>
  | MissingSecretEnvError "string list"
  | PublicKeyFetchError string "nat option" \<comment> \<open>the status; \<open>None\<close> is \<open>network-error\<close>\<close>

fun seal_all ::
  "seal_lib \<Rightarrow> byte list \<Rightarrow> (string \<Rightarrow> string option) \<Rightarrow> nat \<Rightarrow> string list \<Rightarrow> (string, string) jsmap \<Rightarrow>
   bundle_error + (string, string) jsmap \<times> nat" where
  "seal_all se publicKey env k [] secrets = Inr (secrets, k)"
| "seal_all se publicKey env k (name # names) secrets =
     (case env name of
        None \<Rightarrow> Inl (MissingSecretEnvError [name])
      | Some plaintext \<Rightarrow>
          seal_all se publicKey env (Suc k) names (map_set name (se_base64 se (se_seal se k plaintext publicKey)) secrets))"

fun seal_manifests ::
  "seal_lib \<Rightarrow> byte list \<Rightarrow> string \<Rightarrow> (string \<Rightarrow> string option) \<Rightarrow> nat \<Rightarrow> unsealed_manifest list \<Rightarrow>
   bundle_error + sealed_workflow list" where
  "seal_manifests se publicKey keyId env k [] = Inr []"
| "seal_manifests se publicKey keyId env k (u # us) =
     (let rest = u\<lparr>um_secretBindings := None\<rparr>
      in if length (bindings_of u) = 0
         then and_then (seal_manifests se publicKey keyId env k us) (\<lambda>ss.
              Inr (\<lparr>sw_rest = rest, sw_secrets = None\<rparr> # ss))
         else and_then (seal_all se publicKey env k (bindings_of u) []) (\<lambda>(secrets, k').
              and_then (seal_manifests se publicKey keyId env k' us) (\<lambda>ss.
              Inr (\<lparr>sw_rest = rest, sw_secrets = Some (secrets, keyId)\<rparr> # ss))))"

definition sealManifest ::
  "seal_lib \<Rightarrow> unsealed_manifest list \<Rightarrow> byte list \<Rightarrow> string \<Rightarrow> (string \<Rightarrow> string option) \<Rightarrow> bundle_error + sealed_workflow list" where
  "sealManifest se ms publicKey keyId env = seal_manifests se publicKey keyId env 0 ms"

section \<open>The server's public key\<close>

datatype http_outcome =
    NetworkError string
  | HttpResponse nat string "string + json" \<comment> \<open>status, status text, and what \<open>json()\<close> throws or returns\<close>

definition ok_status :: "nat \<Rightarrow> bool" where
  "ok_status n = (200 \<le> n \<and> n \<le> 299)"

definition cli_headers :: "string option \<Rightarrow> string option \<Rightarrow> (string \<times> string) list" where
  \<comment> \<open>an empty user or token is falsy\<close>
  "cli_headers user token =
     (case user of
        Some (c # cs) \<Rightarrow> [(''X-Auth-Provider'', ''local''), (''Authorization'', ''User '' @ c # cs)]
      | _ \<Rightarrow>
          (case token of
             Some (c # cs) \<Rightarrow> [(''X-Auth-Provider'', ''github''), (''Authorization'', ''Bearer '' @ c # cs)]
           | _ \<Rightarrow> []))"

definition strip_slashes :: "string \<Rightarrow> string" where
  \<comment> \<open>\<open>url.replace(/\/+$/, "")\<close>\<close>
  "strip_slashes url = rev (dropWhile (\<lambda>c. c = CHR ''/'') (rev url))"

definition public_key_endpoint :: "string \<Rightarrow> string \<Rightarrow> string" where
  "public_key_endpoint url owner = strip_slashes url @ ''/api/workflows/'' @ owner @ ''/public-key''"

definition fetchPublicKey :: "seal_lib \<Rightarrow> http_outcome \<Rightarrow> bundle_error + string \<times> string" where
  \<comment> \<open>the public key in base64 and its id; what \<open>json()\<close> or a read of \<open>null\<close> throws is not a \<open>PublicKeyFetchError\<close>\<close>
  "fetchPublicKey se outcome =
     (case outcome of
        NetworkError message \<Rightarrow> Inl (PublicKeyFetchError (''public-key fetch failed: '' @ message) None)
      | HttpResponse status statusText body \<Rightarrow>
          if \<not> ok_status status
          then Inl (PublicKeyFetchError (''public-key fetch returned '' @ show_nat status @ '' '' @ statusText) (Some status))
          else (case body of
                  Inl message \<Rightarrow> Inl (BuildFailed message)
                | Inr JNull \<Rightarrow> Inl (BuildFailed ''Cannot read properties of null (reading 'algorithm')'')
                | Inr b \<Rightarrow>
                    (case (prop_of (Some b) ''algorithm'', prop_of (Some b) ''publicKey'', prop_of (Some b) ''keyId'') of
                       (Some (JStr alg), Some (JStr pk), Some (JStr keyId)) \<Rightarrow>
                         if alg = ''x25519'' then Inr (pk, keyId)
                         else Inl (PublicKeyFetchError (''public-key response shape is unexpected: '' @ se_stringify se b) (Some status))
                     | _ \<Rightarrow> Inl (PublicKeyFetchError (''public-key response shape is unexpected: '' @ se_stringify se b) (Some status)))))"

definition public_key_body :: "seal_lib \<Rightarrow> byte list \<times> string \<Rightarrow> json" where
  \<comment> \<open>the reply of the server's handler\<close>
  "public_key_body se key =
     JObj [(''algorithm'', JStr ''x25519''), (''publicKey'', JStr (se_base64 se (fst key))), (''keyId'', JStr (snd key))]"

section \<open>The bundle\<close>

definition sealed_fields :: "sealed_workflow \<Rightarrow> (string \<times> json) list" where
  \<comment> \<open>a workflow of the shipped manifest\<close>
  "sealed_fields s =
     (case for_validation (sw_rest s) of JObj fs \<Rightarrow> fs | _ \<Rightarrow> []) @
     (case sw_secrets s of
        None \<Rightarrow> []
      | Some (secrets, keyId) \<Rightarrow>
          [(''secrets'', JObj (map (\<lambda>(k, v). (k, JStr v)) secrets)), (''secretsKeyId'', JStr keyId)])"

definition manifest_json :: "sealed_workflow list \<Rightarrow> json" where
  "manifest_json ss = JObj [(''workflows'', JArr (map (\<lambda>s. JObj (sealed_fields s)) ss))]"

definition make_bundle ::
  "build_tools \<Rightarrow> manifest_lib \<Rightarrow> secrets_lib \<Rightarrow> seal_lib \<Rightarrow> (string \<Rightarrow> string option) \<Rightarrow> http_outcome \<Rightarrow>
   bundle_error + (string, string) jsmap" where
  \<comment> \<open>\<open>bundle\<close>: the entries of the tarball; the outcome is that of the GET of the public key, sent if there is something to seal\<close>
  "make_bundle t lib slib se env pkOutcome =
     (case buildWorkflows t lib env of
        Inl err \<Rightarrow> Inl (BuildFailed err)
      | Inr (files, manifest) \<Rightarrow>
          and_then
            (if manifestNeedsSealing manifest then
               (let missing = collectMissingSecretBindings manifest env
                in if missing \<noteq> [] then Inl (MissingSecretEnvError missing)
                   else and_then (fetchPublicKey se pkOutcome) (\<lambda>(pk, keyId).
                        sealManifest se manifest (sl_base64 slib pk) keyId env))
             else Inr (map (\<lambda>u. \<lparr>sw_rest = u, sw_secrets = None\<rparr>) manifest))
            (\<lambda>toShip. Inr ((''manifest.json'', se_stringify se (manifest_json toShip) @ [CHR 0x0A]) # files)))"

section \<open>What is built\<close>

definition built_ok :: "manifest_lib \<Rightarrow> unsealed_manifest \<Rightarrow> bool" where
  "built_ok lib u \<longleftrightarrow>
     (\<exists>w. workflowManifestSchema lib (for_validation u) = Some w \<and> accepted_as lib u w) \<and>
     set (keys (um_env u)) \<inter> set (bindings_of u) = {}"

lemma env_without_secrets:
  "set (keys (foldl (\<lambda>env (key, v). if key \<in> set ns then env else map_set key v env) acc es)) \<inter> set ns = set (keys acc) \<inter> set ns"
proof (induction es arbitrary: acc)
  case (Cons e es)
  obtain k v where "e = (k, v)" by (cases e)
  with Cons [of "if k \<in> set ns then acc else map_set k v acc"] keys_map_set [of k v acc] show ?case by auto
qed simp

lemma manifest_env_disjoint:
  "set (keys (manifest_env w)) \<inter> set (case wo_secretBindings w of Some ns \<Rightarrow> ns | None \<Rightarrow> []) = {}"
  unfolding manifest_env_def by (subst env_without_secrets) simp

lemma built_manifest_ok:
  assumes "buildManifestFromMod lib issues xs filestem sha = Inr u"
  shows "built_ok lib u"
proof -
  have "set (keys (um_env u)) \<inter> set (bindings_of u) = {}"
    using assms manifest_env_disjoint
    by (fastforce simp: buildManifestFromMod_def and_then_Inr Let_def bindings_of_def split: if_splits option.splits list.splits)
  with built_manifest_accepted [OF assms] show ?thesis by (simp add: built_ok_def)
qed

lemma promise_all_Inr:
  assumes "promise_all settling rs = Inr vs"
  shows "map Inr vs = rs"
proof -
  have "\<not> isl (rs ! i)" if "i < length rs" for i
    using assms that by (auto simp: promise_all_def find_None_iff split: option.splits)
  moreover have "vs = map projr rs" using assms by (auto simp: promise_all_def split: option.splits)
  ultimately show ?thesis by (auto intro!: nth_equalityI)
qed

lemma built_workflows_ok:
  assumes "buildWorkflows t lib env = Inr (files, ms)"
  shows "list_all (built_ok lib) ms"
proof -
  obtain built where b: "promise_all (bt_settled t) (map (buildOneWorkflow t lib env) (discoverWorkflowFiles t)) = Inr built"
    and ms: "ms = map fst built"
    using assms by (auto simp: buildWorkflows_def Let_def and_then_Inr split: if_splits option.splits)
  have "built_ok lib (fst x)" if "x \<in> set built" for x
  proof -
    have "Inr x \<in> set (map (buildOneWorkflow t lib env) (discoverWorkflowFiles t))"
      using promise_all_Inr [OF b] that by (metis image_eqI list.set_map)
    then obtain p where "buildOneWorkflow t lib env p = Inr x" by auto
    then show ?thesis by (auto simp: buildOneWorkflow_def Let_def and_then_Inr intro: built_manifest_ok)
  qed
  then show ?thesis by (simp add: ms list_all_iff)
qed

section \<open>Keys and sealed boxes\<close>

definition sealing_documented :: "secrets_lib \<Rightarrow> seal_lib \<Rightarrow> bool" where
  \<comment> \<open>base64 decodes what it encoded; a sealed box opens with the key pair it was sealed to, to the text
    that was sealed; a SHA-256 digest has 32 bytes\<close>
  "sealing_documented slib se \<longleftrightarrow>
     (\<forall>bs. sl_base64 slib (se_base64 se bs) = bs) \<and>
     (\<forall>k s sk. \<exists>bs. sl_unseal slib (se_seal se k s (sl_publicKey slib sk)) (sl_publicKey slib sk) sk = Inr bs \<and> sl_text slib bs = s) \<and>
     (\<forall>bs. length (sl_sha256 slib bs) = 32)"

definition key_pair :: "secrets_lib \<Rightarrow> string \<Rightarrow> resolved_key \<Rightarrow> bool" where
  "key_pair lib kid k \<longleftrightarrow> kid = fingerprintSync lib (rk_pk k) \<and> rk_pk k = sl_publicKey lib (rk_sk k)"

lemma resolve_keys_pairs:
  assumes "resolve_keys lib ps ks = Inr ks'" and "\<And>kid k. ks_lookup ks kid = Some k \<Longrightarrow> key_pair lib kid k"
    and "ks_lookup ks' kid = Some k"
  shows "key_pair lib kid k"
  using assms
proof (induction ps arbitrary: ks)
  case (Cons p ps)
  let ?pk = "sl_publicKey lib (pk_sk p)"
  let ?id = "fingerprintSync lib ?pk"
  let ?ks = "\<lparr>ks_resolved = map_set ?id \<lparr>rk_keyId = ?id, rk_pk = ?pk, rk_sk = pk_sk p\<rparr> (ks_resolved ks), ks_order = ks_order ks @ [?id]\<rparr>"
  have "resolve_keys lib ps ?ks = Inr ks'" using Cons.prems(1) by (simp add: Let_def split: if_splits)
  moreover have "key_pair lib i x" if "ks_lookup ?ks i = Some x" for i x
    using that Cons.prems(2) [of i x] by (auto simp: ks_lookup_def key_pair_def split: if_splits)
  ultimately show ?case using Cons.IH [of ?ks] Cons.prems(3) by blast
qed simp

lemma primary_key:
  assumes "createKeyStore lib csv = Inr ks" and "publicKeyHandler lib ks = Inr (pk, keyId)"
  obtains k where "ks_lookup ks keyId = Some k" "rk_pk k = pk" "pk = sl_publicKey lib (rk_sk k)" "keyId = fingerprintSync lib pk"
proof -
  obtain k where k: "ks_lookup ks (hd (ks_order ks)) = Some k" "pk = rk_pk k" "keyId = computeKeyId lib pk"
    using assms(2) by (auto simp: publicKeyHandler_def getPrimary_def ks_lookup_def split: sum.splits option.splits)
  obtain ps where "resolve_keys lib ps \<lparr>ks_resolved = [], ks_order = []\<rparr> = Inr ks"
    using assms(1) by (auto simp: createKeyStore_def split: sum.splits if_splits)
  from resolve_keys_pairs [OF this _ k(1)] have "key_pair lib (hd (ks_order ks)) k" by (simp add: ks_lookup_def)
  then have p: "hd (ks_order ks) = fingerprintSync lib (rk_pk k)" "rk_pk k = sl_publicKey lib (rk_sk k)"
    unfolding key_pair_def by blast+
  have i: "keyId = fingerprintSync lib pk" unfolding k(3) fingerprints_agree ..
  with k(1,2) p(1) have "ks_lookup ks keyId = Some k" by (simp only:)
  then show ?thesis using that i k(2) p(2) by blast
qed

lemma hex_digits: "list_all (\<lambda>d. is_digit (hex_digit d) \<or> CHR ''a'' \<le> hex_digit d \<and> hex_digit d \<le> CHR ''f'') [0..<16]"
  by code_simp

lemma key_id_pattern:
  assumes "length (sl_sha256 lib pk) = 32"
  shows "SECRETS_KEY_ID_PATTERN (fingerprintSync lib pk)"
proof -
  let ?hex = "\<lambda>c. is_digit c \<or> CHR ''a'' \<le> c \<and> c \<le> CHR ''f''"
  have d: "?hex (hex_digit d)" if "d < 16" for d
    using hex_digits that by (auto simp: list_all_iff)
  have "unat b div 16 < 16" for b :: byte using unsigned_less [of b, where ?'a = nat] by simp
  then have "list_all ?hex (hex_digest bs)" for bs by (auto simp: hex_digest_def list_all_iff d)
  moreover have "length (hex_digest bs) = 2 * length bs" for bs by (induction bs) (simp_all add: hex_digest_def)
  ultimately show ?thesis
    using assms by (auto simp: SECRETS_KEY_ID_PATTERN_def fingerprintSync_def SECRETS_KEY_ID_BYTES_def list_all_iff dest: in_set_takeD)
qed

section \<open>Sealed secrets\<close>

definition seals_value :: "seal_lib \<Rightarrow> byte list \<Rightarrow> (string \<Rightarrow> string option) \<Rightarrow> string \<times> string \<Rightarrow> bool" where
  "seals_value se pk env e \<longleftrightarrow> (\<exists>k v. env (fst e) = Some v \<and> snd e = se_base64 se (se_seal se k v pk))"

lemma seal_all_seals:
  assumes "list_all (\<lambda>n. env n \<noteq> None) names" and "list_all (seals_value se pk env) acc"
  shows "\<exists>secrets k'. seal_all se pk env k names acc = Inr (secrets, k') \<and> list_all (seals_value se pk env) secrets \<and>
    set (keys secrets) = set (keys acc) \<union> set names"
  using assms
proof (induction names arbitrary: k acc)
  case (Cons n names)
  then obtain v where v: "env n = Some v" by auto
  let ?acc = "map_set n (se_base64 se (se_seal se k v pk)) acc"
  have "list_all (seals_value se pk env) ?acc"
    using Cons.prems(2) v by (auto simp: list_all_iff seals_value_def dest!: map_set_mem)
  from Cons.IH [OF _ this, of "Suc k"] Cons.prems(1) v keys_map_set [of n _ acc] show ?case by auto
qed simp

definition opens_to :: "secrets_lib \<Rightarrow> key_store \<Rightarrow> string \<Rightarrow> (string \<Rightarrow> string option) \<Rightarrow> string \<times> string \<Rightarrow> bool" where
  "opens_to slib ks keyId env e \<longleftrightarrow> (\<exists>bs. decryptSealed slib (snd e) keyId ks = Inr bs \<and> env (fst e) = Some (sl_text slib bs))"

lemma sealed_opens:
  assumes "sealing_documented slib se" and "ks_lookup ks keyId = Some k" and "rk_pk k = pk" and "pk = sl_publicKey slib (rk_sk k)"
    and "seals_value se pk env e"
  shows "opens_to slib ks keyId env e"
proof -
  obtain i v where e: "env (fst e) = Some v" "snd e = se_base64 se (se_seal se i v pk)"
    using assms(5) by (auto simp: seals_value_def)
  obtain bs where "sl_unseal slib (se_seal se i v pk) pk (rk_sk k) = Inr bs" "sl_text slib bs = v"
    using assms(1) unfolding sealing_documented_def assms(4) by blast
  moreover have "sl_base64 slib (snd e) = se_seal se i v pk" using assms(1) e(2) by (simp add: sealing_documented_def)
  ultimately show ?thesis using assms(2,3) e(1) by (simp add: opens_to_def decryptSealed_def)
qed

lemma decrypt_entries_opens:
  assumes "list_all (opens_to slib ks keyId env) es"
  shows "\<exists>store. decrypt_entries slib ks keyId es out = Inr store \<and>
    (\<forall>n. map_get store n = (if n \<in> set (keys es) then env n else map_get out n))"
  using assms
proof (induction es arbitrary: out)
  case (Cons e es)
  obtain n c where e: "e = (n, c)" by (cases e)
  obtain bs where bs: "decryptSealed slib c keyId ks = Inr bs" "env n = Some (sl_text slib bs)"
    using Cons.prems by (auto simp: e opens_to_def)
  from Cons.IH [of "map_set n (sl_text slib bs) out"] Cons.prems show ?case by (auto simp: e bs)
qed simp

lemma verify_entries_opens:
  "list_all (opens_to slib ks keyId env) es \<Longrightarrow> verify_entries slib ks wname keyId es = None"
  by (induction es) (auto simp: opens_to_def)

definition reads_back :: "secrets_lib \<Rightarrow> key_store \<Rightarrow> (string \<Rightarrow> string option) \<Rightarrow> unsealed_manifest \<Rightarrow> workflow_manifest \<Rightarrow> bool" where
  \<comment> \<open>the server has the workflow's name, environment and digest, and the values of exactly its secrets\<close>
  "reads_back slib ks env u w \<longleftrightarrow>
     wm_name w = um_name u \<and> wm_sha w = um_sha u \<and> wm_env w = um_env u \<and>
     (case decryptWorkflowSecrets slib ks w of
        Inl _ \<Rightarrow> False
      | Inr store \<Rightarrow> \<forall>n. map_get store n = (if n \<in> set (bindings_of u) then env n else None))"

definition prototype_secret :: "unsealed_manifest \<Rightarrow> bool" where
  "prototype_secret u = list_ex (\<lambda>n. n \<in> set object_prototype) (bindings_of u)"

definition reads_workflow ::
  "secrets_lib \<Rightarrow> manifest_lib \<Rightarrow> key_store \<Rightarrow> (string \<Rightarrow> string option) \<Rightarrow> unsealed_manifest \<Rightarrow> sealed_workflow \<Rightarrow> bool" where
  \<comment> \<open>the server reads a shipped workflow back, unless one of its secrets has the name of an inherited property\<close>
  "reads_workflow slib lib ks env u s \<longleftrightarrow>
     (case workflowManifestSchema lib (JObj (sealed_fields s)) of
        None \<Rightarrow> prototype_secret u
      | Some w \<Rightarrow> \<not> prototype_secret u \<and> reads_back slib ks env u w \<and> verifyManifestSecrets slib [w] ks = None)"

lemma for_validation_rest [simp]: "for_validation (u\<lparr>um_secretBindings := b\<rparr>) = for_validation u"
  by (simp add: for_validation_def)

lemma plain_workflow_reads:
  assumes "built_ok lib u" and "bindings_of u = []" and "for_validation r = for_validation u"
  shows "reads_workflow slib lib ks env u \<lparr>sw_rest = r, sw_secrets = None\<rparr>"
proof -
  obtain w where w: "workflowManifestSchema lib (for_validation u) = Some w" "accepted_as lib u w"
    using assms(1) by (auto simp: built_ok_def)
  have "JObj (sealed_fields \<lparr>sw_rest = r, sw_secrets = None\<rparr>) = for_validation u"
    using assms(3) by (simp add: sealed_fields_def) (simp add: for_validation_def)
  with w assms(2) show ?thesis
    by (simp add: reads_workflow_def prototype_secret_def reads_back_def accepted_as_def decryptWorkflowSecrets_def)
qed

lemma sealed_schema:
  assumes "accepted_as lib u w" and "SECRETS_KEY_ID_PATTERN keyId"
  shows "workflowManifestSchema lib (JObj (sealed_fields \<lparr>sw_rest = u\<lparr>um_secretBindings := None\<rparr>, sw_secrets = Some (secrets, keyId)\<rparr>)) =
    z_refine workflow_refinements (w\<lparr>wm_secrets := Some secrets, wm_secretsKeyId := Some keyId\<rparr>)"
  using assms
  by (cases w) (simp add: workflowManifestSchema_def sealed_fields_def for_validation_def strictObject_def required_def optional_def
      with_default_def z_record_texts accepted_as_def z_text_def z_string_def, simp add: z_refine_def)

lemma sealed_refinements:
  assumes "accepted_as lib u w"
  shows "workflow_refinements (w\<lparr>wm_secrets := Some secrets, wm_secretsKeyId := Some keyId\<rparr>) \<longleftrightarrow>
    list_all (\<lambda>n. n \<notin> set (keys (um_env u)) \<and> n \<notin> set object_prototype) (keys secrets)"
  using assms
  by (auto simp: workflow_refinements_def secrets_disjoint_def accepted_as_def list_all_iff map_of_eq_None_iff declares_reserved_def)

lemma sealed_workflow_reads:
  assumes doc: "sealing_documented slib se"
    and key: "ks_lookup ks keyId = Some k" "rk_pk k = pk" "pk = sl_publicKey slib (rk_sk k)" "keyId = fingerprintSync slib pk"
    and u: "built_ok lib u" and sec: "list_all (seals_value se pk env) secrets" and names: "set (keys secrets) = set (bindings_of u)"
  shows "reads_workflow slib lib ks env u \<lparr>sw_rest = u\<lparr>um_secretBindings := None\<rparr>, sw_secrets = Some (secrets, keyId)\<rparr>"
proof -
  obtain w where w: "accepted_as lib u w" using u by (auto simp: built_ok_def)
  let ?w = "w\<lparr>wm_secrets := Some secrets, wm_secretsKeyId := Some keyId\<rparr>"
  have "SECRETS_KEY_ID_PATTERN keyId" unfolding key(4) by (rule key_id_pattern) (use doc in \<open>simp add: sealing_documented_def\<close>)
  note schema = sealed_schema [OF w this, of secrets]
  have ref: "workflow_refinements ?w \<longleftrightarrow> \<not> prototype_secret u"
    using u names by (auto simp: sealed_refinements [OF w] built_ok_def prototype_secret_def list_all_iff list_ex_iff)
  have all: "list_all (opens_to slib ks keyId env) secrets"
    using sec sealed_opens [OF doc key(1-3)] by (simp add: list_all_iff)
  obtain store where store: "decrypt_entries slib ks keyId secrets [] = Inr store"
    "\<And>n. map_get store n = (if n \<in> set (keys secrets) then env n else None)"
    using decrypt_entries_opens [OF all, of "[]"] by auto
  have "reads_back slib ks env u ?w"
    using w store names by (auto simp: reads_back_def accepted_as_def decryptWorkflowSecrets_def)
  moreover have "verifyManifestSecrets slib [?w] ks = None" using key(1) verify_entries_opens [OF all] by simp
  ultimately show ?thesis by (simp add: reads_workflow_def schema z_refine_def ref)
qed

lemma seal_manifests_read:
  assumes doc: "sealing_documented slib se"
    and key: "ks_lookup ks keyId = Some k" "rk_pk k = pk" "pk = sl_publicKey slib (rk_sk k)" "keyId = fingerprintSync slib pk"
    and "list_all (built_ok lib) us" and "collectMissingSecretBindings us env = []"
  shows "\<exists>ss. seal_manifests se pk keyId env i us = Inr ss \<and> list_all2 (reads_workflow slib lib ks env) us ss"
  using assms(6,7)
proof (induction us arbitrary: i)
  case (Cons u us)
  have u: "built_ok lib u" using Cons.prems(1) by simp
  have rest: "\<exists>ss. seal_manifests se pk keyId env j us = Inr ss \<and> list_all2 (reads_workflow slib lib ks env) us ss" for j
    using Cons.IH [of j] Cons.prems by (simp add: collectMissingSecretBindings_def)
  show ?case
  proof (cases "bindings_of u = []")
    case True
    with rest [of i] plain_workflow_reads [OF u True] show ?thesis by auto
  next
    case False
    have "list_all (\<lambda>n. env n \<noteq> None) (bindings_of u)"
      using Cons.prems(2) by (auto simp: collectMissingSecretBindings_def filter_empty_conv list_all_iff)
    from seal_all_seals [OF this, of se pk "[]" i] obtain secrets j
      where s: "seal_all se pk env i (bindings_of u) [] = Inr (secrets, j)" "list_all (seals_value se pk env) secrets"
        "set (keys secrets) = set (bindings_of u)" by auto
    with rest [of j] sealed_workflow_reads [OF doc key u s(2,3)] False show ?thesis by auto
  qed
qed simp

lemma verify_append:
  "verifyManifestSecrets slib [w] ks = None \<Longrightarrow> verifyManifestSecrets slib (w # ws) ks = verifyManifestSecrets slib ws ks"
  by (auto split: option.splits if_splits)

lemma read_all:
  assumes "list_all2 (reads_workflow slib lib ks env) us ss" and "\<not> list_ex prototype_secret us"
  shows "\<exists>ws. those (map (\<lambda>s. workflowManifestSchema lib (JObj (sealed_fields s))) ss) = Some ws \<and>
    list_all2 (reads_back slib ks env) us ws \<and> verifyManifestSecrets slib ws ks = None"
  using assms
proof (induction rule: list_all2_induct)
  case (Cons u us s ss)
  then obtain w where w: "workflowManifestSchema lib (JObj (sealed_fields s)) = Some w" "reads_back slib ks env u w"
    "verifyManifestSecrets slib [w] ks = None"
    by (auto simp: reads_workflow_def split: option.splits)
  from Cons obtain ws where "those (map (\<lambda>s. workflowManifestSchema lib (JObj (sealed_fields s))) ss) = Some ws"
    "list_all2 (reads_back slib ks env) us ws" "verifyManifestSecrets slib ws ks = None" by auto
  with w verify_append [OF w(3), of ws] show ?case by (intro exI [of _ "w # ws"]) simp
qed simp

definition read_by_server ::
  "secrets_lib \<Rightarrow> manifest_lib \<Rightarrow> key_store \<Rightarrow> (string \<Rightarrow> string option) \<Rightarrow> unsealed_manifest list \<Rightarrow> json \<Rightarrow> bool" where
  "read_by_server slib lib ks env us j \<longleftrightarrow>
     (case ManifestSchema lib j of
        None \<Rightarrow> list_ex prototype_secret us \<or> \<not> distinct (map um_name us)
      | Some ws \<Rightarrow> list_all2 (reads_back slib ks env) us ws \<and> verifyManifestSecrets slib ws ks = None)"

lemma reads_back_names: "list_all2 (reads_back slib ks env) us ws \<Longrightarrow> map wm_name ws = map um_name us"
  by (induction rule: list_all2_induct) (auto simp: reads_back_def)

lemma read_prototype:
  "list_all2 (reads_workflow slib lib ks env) us ss \<Longrightarrow> list_ex prototype_secret us \<Longrightarrow>
   those (map (\<lambda>s. workflowManifestSchema lib (JObj (sealed_fields s))) ss) = None"
  by (induction rule: list_all2_induct) (auto simp: reads_workflow_def split: option.splits)

lemma shipped_manifest_read:
  assumes "list_all2 (reads_workflow slib lib ks env) us ss"
  shows "read_by_server slib lib ks env us (manifest_json ss)"
proof -
  let ?r = "those (map (\<lambda>s. workflowManifestSchema lib (JObj (sealed_fields s))) ss)"
  have m: "ManifestSchema lib (manifest_json ss) = Option.bind ?r (z_refine (\<lambda>ws. no_repeats [] (map wm_name ws)))"
    by (simp add: ManifestSchema_def manifest_json_def strictObject_def required_def z_array_def comp_def)
  show ?thesis
  proof (cases "list_ex prototype_secret us")
    case True
    with m read_prototype [OF assms True] show ?thesis by (simp add: read_by_server_def)
  next
    case False
    then obtain ws where "?r = Some ws" and ws: "list_all2 (reads_back slib ks env) us ws" "verifyManifestSecrets slib ws ks = None"
      using read_all [OF assms] by blast
    with m reads_back_names [OF ws(1)] show ?thesis by (simp add: read_by_server_def z_refine_def no_repeats_distinct)
  qed
qed

lemma bundle_ships:
  assumes doc: "sealing_documented slib se" and ks: "createKeyStore slib csv = Inr ks" and key: "publicKeyHandler slib ks = Inr (pk, keyId)"
    and built: "buildWorkflows t lib env = Inr (files, us)" and none: "collectMissingSecretBindings us env = []"
  shows "\<exists>ss. make_bundle t lib slib se env (HttpResponse 200 ''OK'' (Inr (public_key_body se (pk, keyId)))) =
      Inr ((''manifest.json'', se_stringify se (manifest_json ss) @ [CHR 0x0A]) # files) \<and>
    list_all2 (reads_workflow slib lib ks env) us ss"
proof -
  obtain k where k: "ks_lookup ks keyId = Some k" "rk_pk k = pk" "pk = sl_publicKey slib (rk_sk k)" "keyId = fingerprintSync slib pk"
    using primary_key [OF ks key] by blast
  note ok = built_workflows_ok [OF built]
  have f: "fetchPublicKey se (HttpResponse 200 ''OK'' (Inr (public_key_body se (pk, keyId)))) = Inr (se_base64 se pk, keyId)"
    by (simp add: fetchPublicKey_def ok_status_def public_key_body_def)
  have b: "sl_base64 slib (se_base64 se pk) = pk" using doc by (simp add: sealing_documented_def)
  show ?thesis
  proof (cases "manifestNeedsSealing us")
    case True
    with seal_manifests_read [OF doc k ok none, of 0] show ?thesis
      by (auto simp: make_bundle_def built none f b sealManifest_def)
  next
    case False
    then have "\<forall>u \<in> set us. bindings_of u = []" by (auto simp: manifestNeedsSealing_def list_ex_iff)
    then have "list_all2 (reads_workflow slib lib ks env) us (map (\<lambda>u. \<lparr>sw_rest = u, sw_secrets = None\<rparr>) us)"
      using ok plain_workflow_reads by (fastforce simp: list_all_iff list_all2_conv_all_nth)
    with False show ?thesis by (auto simp: make_bundle_def built)
  qed
qed

text \<open>
  \<^bold>\<open>C35\<close>. Secrets reach the server. Take any workflow files that build, a shell that sets every
  secret they declare, and a server that replied with its primary key. The bundle the CLI then makes
  passes the server's check of sealed secrets, and of every workflow in it the server reads the name,
  the digest and the environment that were built and decrypts exactly the declared secrets, each to
  the value the shell has for it. Only two kinds of manifest are refused by the schema: one with two
  workflows of the same name, and one with a secret that has the name of a property every object
  inherits (\<open>toString\<close>).
\<close>

theorem bundled_secrets_reach_server:
  assumes "sealing_documented (re_secretsLib renv) se"
    and "\<And>ss. re_jsonParse renv (se_stringify se (manifest_json ss) @ [CHR 0x0A]) = Inr (manifest_json ss)"
    and "createKeyStore (re_secretsLib renv) csv = Inr (re_keyStore renv)"
    and "publicKeyHandler (re_secretsLib renv) (re_keyStore renv) = Inr key"
    and "buildWorkflows t (re_schemaLib renv) env = Inr (files, us)"
    and "collectMissingSecretBindings us env = []"
  shows "case make_bundle t (re_schemaLib renv) (re_secretsLib renv) se env (HttpResponse 200 ''OK'' (Inr (public_key_body se key))) of
      Inl _ \<Rightarrow> False
    | Inr entries \<Rightarrow>
        verifySecretsIfPresent renv entries = VerifyOk \<and>
        (case map_get entries ''manifest.json'' of
           None \<Rightarrow> False
         | Some raw \<Rightarrow>
             (case re_jsonParse renv raw of
                Inl _ \<Rightarrow> False
              | Inr j \<Rightarrow> read_by_server (re_secretsLib renv) (re_schemaLib renv) (re_keyStore renv) env us j))"
proof -
  obtain pk keyId where key: "key = (pk, keyId)" by (cases key)
  obtain ss where b: "make_bundle t (re_schemaLib renv) (re_secretsLib renv) se env (HttpResponse 200 ''OK'' (Inr (public_key_body se key))) =
      Inr ((''manifest.json'', se_stringify se (manifest_json ss) @ [CHR 0x0A]) # files)"
    and ss: "list_all2 (reads_workflow (re_secretsLib renv) (re_schemaLib renv) (re_keyStore renv) env) us ss"
    using bundle_ships [OF assms(1,3) assms(4) [unfolded key] assms(5,6)] key by blast
  from shipped_manifest_read [OF ss] show ?thesis
    by (auto simp: b assms(2) verifySecretsIfPresent_def read_by_server_def split: option.splits)
qed

instance json :: countable
  by countable_datatype

definition sample_box :: secrets_lib where
  "sample_box =
     \<lparr>sl_base64 = map (\<lambda>c. of_nat (of_char c)), sl_sha256 = (\<lambda>_. replicate 32 0), sl_publicKey = id,
      sl_unseal = (\<lambda>c pk sk. if take (length pk) c = pk then Inr (drop (length pk) c) else Inl ''forged''),
      sl_text = map (\<lambda>b. char_of (unat b))\<rparr>"

definition sample_seal :: seal_lib where
  "sample_seal =
     \<lparr>se_seal = (\<lambda>k s pk. pk @ map (\<lambda>c. of_nat (of_char c)) s), se_base64 = map (\<lambda>b. char_of (unat b)),
      se_stringify = (\<lambda>j. replicate (to_nat j) (CHR ''x''))\<rparr>"

lemma byte_of_char: "char_of (unat (of_nat (of_char c :: nat) :: byte)) = c"
  by (simp add: unsigned_of_nat take_bit_eq_mod)

lemma char_of_byte: "of_nat (unat b mod 256) = (b :: byte)"
proof -
  have "unat b < 256" using unsigned_less [of b, where ?'a = nat] by simp
  then show ?thesis by simp
qed

lemma sample_sealing: "sealing_documented sample_box sample_seal"
  by (simp add: sealing_documented_def sample_box_def sample_seal_def comp_def byte_of_char char_of_byte)

definition sample_csv :: string where
  "sample_csv = ''k:aaaaaaaaaaaaaaaaaaaaaaaaaaaaaaaa''"

definition sample_key_store :: key_store where
  "sample_key_store =
     \<lparr>ks_resolved = [(''0000000000000000'', \<lparr>rk_keyId = ''0000000000000000'', rk_pk = replicate 32 97, rk_sk = replicate 32 97\<rparr>)],
      ks_order = [''0000000000000000'']\<rparr>"

lemma sample_csv_parsed: "parseSecretsPrivateKeys sample_box sample_csv = Inr [\<lparr>pk_keyId = ''k'', pk_sk = replicate 32 97\<rparr>]"
  by code_simp

lemma sample_key_store_created: "createKeyStore sample_box sample_csv = Inr sample_key_store"
  by (simp add: createKeyStore_def sample_csv_parsed) code_simp

definition sample_tools :: build_tools where
  "sample_tools =
     \<lparr>bt_srcDir = ''src'', bt_readdir = Some [(''w.ts'', True), (''w.test.ts'', True)], bt_typecheck = (\<lambda>_. None),
      bt_manifestBundle = Inr, bt_runtimeBundle = Inr,
      bt_run = (\<lambda>_ src. map_sum id
        (\<lambda>w. Some [(''workflow'', XWorkflow w), (''tick'', XCron \<lparr>ct_callable = True, ct_schedule = ''@daily'', ct_tz = ''UTC''\<rparr>)])
        (defineWorkflow None src
          \<lparr>wc_name = None, wc_env = Some [(''TOKEN'', EnvRef (env_decl None None True)), (''URL'', EnvRef (env_decl None (Some ''u'') False))]\<rparr>)),
      bt_sha256 = id, bt_settled = [0], bt_issues = (\<lambda>_. [])\<rparr>"

definition sample_shell :: "string \<Rightarrow> string option" where
  "sample_shell n = (if n = ''TOKEN'' then Some ''hunter2'' else None)"

definition sample_built :: unsealed_manifest where
  "sample_built =
     \<lparr>um_name = ''w'', um_module = ''w.js'', um_sha = ''./src/w.ts'', um_env = [(''URL'', ''u'')], um_actions = [],
      um_triggers = [JObj [(''name'', JStr ''tick''), (''type'', JStr ''cron''), (''schedule'', JStr ''@daily''), (''tz'', JStr ''UTC''),
        (''inputSchema'', JObj cronInputJsonSchema), (''outputSchema'', JObj cronOutputJsonSchema)]],
      um_queues = [], um_secretBindings = Some [''TOKEN'']\<rparr>"

lemma sample_run:
  "bt_run sample_tools src sample_shell =
     Inr (Some [(''workflow'', XWorkflow \<lparr>wo_name = [], wo_env = [(''TOKEN'', encode_secret), (''URL'', ''u'')], wo_secretBindings = Some [''TOKEN'']\<rparr>),
       (''tick'', XCron \<lparr>ct_callable = True, ct_schedule = ''@daily'', ct_tz = ''UTC''\<rparr>)])"
  if "encodeSentinel ''TOKEN'' = Some encode_secret"
  using that
  by (simp add: sample_tools_def defineWorkflow_def resolveEnvRecord_def env_decl_def env_name_def sample_shell_def secret_names_def)

lemma sample_schemas:
  "jsonSchemaValidator sample_lib (JObj fs) = Some (JObj fs)" "isValidTimezone sample_lib ''UTC''" "js_trim ''@daily'' = ''@daily''"
  by (simp add: jsonSchemaValidator_def sample_lib_def, simp add: isValidTimezone_def sample_lib_def, code_simp)

lemma sample_accepted: "workflowManifestSchema sample_lib (for_validation sample_built) \<noteq> None"
  by (simp add: workflowManifestSchema_def for_validation_def sample_built_def strictObject_def required_def optional_def with_default_def
      z_array_def z_record_def z_string_def z_text_def z_refine_def triggerManifestSchema_def cronTriggerManifestSchema_def
      trigger_schema_def sample_schemas workflow_refinements_def secrets_disjoint_def unique_names_def declares_reserved_def)

lemma sample_build: "buildWorkflows sample_tools sample_lib sample_shell = Inr ([(''w.js'', ''./src/w.ts'')], [sample_built])"
proof -
  have "SECRET_SENTINEL_NAME_RE ''TOKEN''" by code_simp
  then have enc: "encodeSentinel ''TOKEN'' = Some (sentinel_prefix @ ''TOKEN'' @ [NUL])" by (simp add: encodeSentinel_def)
  have t: "bt_manifestBundle sample_tools = Inr" "bt_runtimeBundle sample_tools = Inr" "bt_sha256 sample_tools = id"
    "bt_issues sample_tools = (\<lambda>_. [])" "bt_typecheck sample_tools = (\<lambda>_. None)" "bt_settled sample_tools = [0]" by (simp_all add: sample_tools_def)
  obtain w where w: "workflowManifestSchema sample_lib (for_validation sample_built) = Some w" using sample_accepted by blast
  have stem: "filestem_of ''./src/w.ts'' = ''w''" by (simp add: filestem_of_def after_slash_def ends_with_def)
  have one: "buildOneWorkflow sample_tools sample_lib sample_shell ''./src/w.ts'' = Inr (sample_built, ''./src/w.ts'')"
    using w
    by (simp add: buildOneWorkflow_def stem t runIifeInVmContext_def sample_run [OF enc] buildManifestFromMod_def discoverExports_def
        buildActionEntries_def all_triggers_def buildQueueEntries_def buildCronTriggerEntry_def manifest_env_def sample_built_def)
  have files: "discoverWorkflowFiles sample_tools = [''./src/w.ts'']"
    by (simp add: discoverWorkflowFiles_def sample_tools_def ends_with_def)
  show ?thesis
    by (simp add: buildWorkflows_def files t one promise_all_def) (simp add: sample_built_def)
qed

definition sample_server :: "(http_source, (string, string) jsmap) registry_env" where
  "sample_server = sample_reg_env\<lparr>re_secretsLib := sample_box, re_keyStore := sample_key_store,
     re_jsonParse := (\<lambda>s. Inr (from_nat (length s - 1)))\<rparr>"

lemma sample_server_simps:
  "re_secretsLib sample_server = sample_box" "re_keyStore sample_server = sample_key_store" "re_schemaLib sample_server = sample_lib"
  "re_jsonParse sample_server (se_stringify sample_seal j @ [c]) = Inr j"
  by (simp_all add: sample_server_def sample_seal_def) (simp add: sample_reg_env_def)

lemma sample_key: "publicKeyHandler sample_box sample_key_store = Inr (replicate 32 97, ''0000000000000000'')"
  by code_simp

theorem bundled_secrets_reach_server_witness:
  "case make_bundle sample_tools (re_schemaLib sample_server) (re_secretsLib sample_server) sample_seal sample_shell
      (HttpResponse 200 ''OK'' (Inr (public_key_body sample_seal (replicate 32 97, ''0000000000000000'')))) of
      Inl _ \<Rightarrow> False
    | Inr entries \<Rightarrow>
        verifySecretsIfPresent sample_server entries = VerifyOk \<and>
        (case map_get entries ''manifest.json'' of
           None \<Rightarrow> False
         | Some raw \<Rightarrow>
             (case re_jsonParse sample_server raw of
                Inl _ \<Rightarrow> False
              | Inr j \<Rightarrow> read_by_server (re_secretsLib sample_server) (re_schemaLib sample_server) (re_keyStore sample_server)
                  sample_shell [sample_built] j))"
proof (rule bundled_secrets_reach_server)
  show "sealing_documented (re_secretsLib sample_server) sample_seal"
    by (simp add: sample_server_simps sample_sealing)
  show "re_jsonParse sample_server (se_stringify sample_seal (manifest_json ss) @ [CHR 0x0A]) = Inr (manifest_json ss)" for ss
    by (rule sample_server_simps)
  show "createKeyStore (re_secretsLib sample_server) sample_csv = Inr (re_keyStore sample_server)"
    by (simp add: sample_server_simps sample_key_store_created)
  show "publicKeyHandler (re_secretsLib sample_server) (re_keyStore sample_server) = Inr (replicate 32 97, ''0000000000000000'')"
    by (simp add: sample_server_simps sample_key)
  show "buildWorkflows sample_tools (re_schemaLib sample_server) sample_shell = Inr ([(''w.js'', ''./src/w.ts'')], [sample_built])"
    by (simp add: sample_server_simps sample_build)
  show "collectMissingSecretBindings [sample_built] sample_shell = []"
    by (simp add: collectMissingSecretBindings_def bindings_of_def sample_built_def sample_shell_def)
qed

section \<open>Secrets stay out of the build\<close>

text \<open>
  \<^bold>\<open>C37\<close>. The manifest a build writes does not depend on the values of secrets: with two shells
  that differ only in the values of the variables declared with \<open>secret: true\<close>, the same file
  builds the same manifest or fails with the same message, whatever its other exports make of
  \<open>workflow.env\<close> (the password of an IMAP trigger, say).
\<close>

theorem build_reveals_no_secret:
  assumes "same_but_secrets src src' r"
  shows "and_then (defineWorkflow None src \<lparr>wc_name = n, wc_env = Some r\<rparr>)
      (\<lambda>w. buildManifestFromMod lib issues ((''workflow'', XWorkflow w) # others w) filestem sha) =
    and_then (defineWorkflow None src' \<lparr>wc_name = n, wc_env = Some r\<rparr>)
      (\<lambda>w. buildManifestFromMod lib issues ((''workflow'', XWorkflow w) # others w) filestem sha)"
  using workflow_blind [where conf = "\<lparr>wc_name = n, wc_env = Some r\<rparr>" and src = src and src' = src'] assms by simp

theorem build_reveals_no_secret_witness:
  "and_then (defineWorkflow None (\<lambda>_. Some ''hunter2'') \<lparr>wc_name = None, wc_env = Some [(''TOKEN'', EnvRef (env_decl None None True))]\<rparr>)
      (\<lambda>w. buildManifestFromMod sample_lib (\<lambda>_. []) ((''workflow'', XWorkflow w) # []) ''w'' ''sha'') =
    and_then (defineWorkflow None (\<lambda>_. Some ''correct horse'') \<lparr>wc_name = None, wc_env = Some [(''TOKEN'', EnvRef (env_decl None None True))]\<rparr>)
      (\<lambda>w. buildManifestFromMod sample_lib (\<lambda>_. []) ((''workflow'', XWorkflow w) # []) ''w'' ''sha'')"
  by (rule build_reveals_no_secret) (simp add: same_but_secrets_def env_decl_def)

section \<open>The environment a guest sees\<close>

text \<open>
  A secret declared under its own name reaches the guest's \<open>workflow.env\<close>. One declared under
  another key does not: the manifest's environment leaves out the names of the variables, not the
  keys, so the guest finds the sentinel under the key and the value under the variable's name; and
  a plain entry whose key is the variable's name of a secret is lost.
\<close>

definition guest_env :: "workflow_obj \<Rightarrow> (string, string) jsmap \<Rightarrow> (string, string) jsmap" where
  "guest_env w store = snd (getSecretsConfig \<lparr>cfg_name = wo_name w, cfg_env = manifest_env w, cfg_plaintextStore = store\<rparr>)"

definition plain_value :: "(string \<Rightarrow> string option) \<Rightarrow> string \<Rightarrow> env_value \<Rightarrow> string option" where
  \<comment> \<open>what an entry of the environment declares, read straight from the shell\<close>
  "plain_value src key v =
     (case v of
        EnvText t \<Rightarrow> Some t
      | EnvRef x \<Rightarrow> (case src (env_name key x) of Some t \<Rightarrow> Some t | None \<Rightarrow> er_default x))"

definition built_value :: "(string \<Rightarrow> string option) \<Rightarrow> string \<Rightarrow> env_value \<Rightarrow> string option" where
  "built_value src key v =
     (case v of EnvRef x \<Rightarrow> if er_secret x then encodeSentinel (env_name key x) else plain_value src key v | EnvText _ \<Rightarrow> plain_value src key v)"

definition own_names :: "env_record \<Rightarrow> bool" where
  \<comment> \<open>every secret is declared by \<open>env({secret: true})\<close> under its own name\<close>
  "own_names r =
     list_all (\<lambda>(key, v). case v of EnvRef x \<Rightarrow> if er_secret x then env_name key x = key \<and> er_default x = None else True | EnvText _ \<Rightarrow> True) r"

lemma resolve_env_step:
  assumes "resolve_env src ((key, v) # r) acc = Inr res"
  obtains t where "built_value src key v = Some t" "resolve_env src r (map_set key t acc) = Inr res"
  using assms by (auto simp: Let_def built_value_def plain_value_def split: env_value.splits option.splits if_splits)

lemma resolve_env_distinct: "resolve_env src r acc = Inr res \<Longrightarrow> distinct (keys acc) \<Longrightarrow> distinct (keys res)"
proof (induction r arbitrary: acc)
  case (Cons e r)
  obtain key v where e: "e = (key, v)" by (cases e)
  obtain t where "resolve_env src r (map_set key t acc) = Inr res" using resolve_env_step Cons.prems(1) unfolding e by metis
  with Cons.IH Cons.prems(2) show ?case by blast
qed simp

lemma resolve_env_lookup:
  assumes "resolve_env src r acc = Inr res" and "distinct (keys r)"
  shows "map_get res k = (case map_get r k of None \<Rightarrow> map_get acc k | Some v \<Rightarrow> built_value src k v)"
  using assms
proof (induction r arbitrary: acc)
  case (Cons e r)
  obtain key v where e: "e = (key, v)" by (cases e)
  obtain t where t: "built_value src key v = Some t" "resolve_env src r (map_set key t acc) = Inr res"
    using resolve_env_step Cons.prems(1) unfolding e by metis
  have "map_get r key = None" using Cons.prems(2) by (simp add: e map_get_None_keys)
  with Cons.IH [OF t(2)] Cons.prems(2) t(1) show ?case by (auto simp: e split: option.split)
qed simp

lemma own_names_get:
  "own_names r \<Longrightarrow> map_get r k = Some (EnvRef x) \<Longrightarrow> er_secret x \<Longrightarrow> env_name k x = k \<and> er_default x = None"
  by (fastforce simp: own_names_def list_all_iff dest: map_of_SomeD)

lemma env_filter_lookup:
  assumes "distinct (keys es)"
  shows "map_get (foldl (\<lambda>env (key, v). if key \<in> set ns then env else map_set key v env) acc es) k =
    (case map_get es k of None \<Rightarrow> map_get acc k | Some v \<Rightarrow> if k \<in> set ns then map_get acc k else Some v)"
  using assms
proof (induction es arbitrary: acc)
  case (Cons e es)
  obtain key v where e: "e = (key, v)" by (cases e)
  have "map_get es key = None" using Cons.prems by (simp add: e map_get_None_keys)
  with Cons show ?case by (auto simp: e split: option.split)
qed simp

lemma merge_lookup:
  assumes "distinct (keys es)"
  shows "map_get (foldl (\<lambda>m (k, v). map_set k v m) acc es) k = (case map_get es k of Some v \<Rightarrow> Some v | None \<Rightarrow> map_get acc k)"
  using env_filter_lookup [OF assms, of "[]" acc k] by (simp split: option.split)

lemma secret_names_iff:
  assumes "own_names r" and "distinct (keys r)"
  shows "k \<in> set (secret_names r) \<longleftrightarrow> (\<exists>x. map_get r k = Some (EnvRef x) \<and> er_secret x \<and> env_name k x = k \<and> er_default x = None)"
  using assms
proof (induction r)
  case (Cons e r)
  obtain key v where e: "e = (key, v)" by (cases e)
  have "map_get r key = None" using Cons.prems(2) by (simp add: e map_get_None_keys)
  with Cons show ?case by (cases v) (auto simp: e secret_names_def own_names_def)
qed (simp add: secret_names_def)

text \<open>
  \<^bold>\<open>C36\<close>. The environment the guest sees is the declared one. Where every secret is declared under
  its own name, \<open>workflow.env\<close> in the sandbox, put together from the manifest's environment and
  the decrypted secrets, has for every key what a direct reading of the declaration against the
  shell gives: the text, the variable's value, or its default.
\<close>

theorem guest_env_as_declared:
  assumes "own_names r" and "distinct (keys r)" and "defineWorkflow None src \<lparr>wc_name = n, wc_env = Some r\<rparr> = Inr w"
    and "distinct (keys store)" and "map_get store = (\<lambda>k. if k \<in> set (secret_names r) then src k else None)"
  shows "map_get (guest_env w store) k = Option.bind (map_get r k) (plain_value src k)"
proof -
  have w: "resolve_env src r [] = Inr (wo_env w)" "wo_secretBindings w = Some (secret_names r)"
    using assms(3) by (auto simp: defineWorkflow_def resolveEnvRecord_def split: sum.splits)
  have d: "distinct (keys (wo_env w))" using resolve_env_distinct [OF w(1)] by simp
  let ?env = "manifest_env w"
  have env: "map_get ?env k = (if k \<in> set (secret_names r) then None else map_get (wo_env w) k)" for k
    using env_filter_lookup [OF d, of "secret_names r" "[]" k] by (simp add: manifest_env_def w split: option.split)
  have "distinct (keys ?env)"
  proof -
    have "distinct (keys (foldl (\<lambda>env (key, v). if key \<in> set ns then env else map_set key v env) acc es))" if "distinct (keys acc)" for ns acc es
      using that by (induction es arbitrary: acc) (auto split: prod.splits)
    from this [of "[]" "secret_names r" "wo_env w"] show ?thesis by (simp add: manifest_env_def w)
  qed
  from merge_lookup [OF assms(4), of "foldl (\<lambda>m (k, v). map_set k v m) [] ?env" k] merge_lookup [OF this, of "[]" k]
  have g: "map_get (guest_env w store) k =
      (case (if k \<in> set (secret_names r) then src k else None) of Some v \<Rightarrow> Some v
       | None \<Rightarrow> if k \<in> set (secret_names r) then None else map_get (wo_env w) k)"
    by (simp add: guest_env_def getSecretsConfig_def assms(5) env split: option.split)
  show ?thesis
  proof (cases "k \<in> set (secret_names r)")
    case True
    with secret_names_iff [OF assms(1,2)] obtain x where "map_get r k = Some (EnvRef x)" "env_name k x = k" "er_default x = None" by auto
    with g True show ?thesis by (simp add: plain_value_def split: option.split)
  next
    case False
    then have "built_value src k v = plain_value src k v" if "map_get r k = Some v" for v
      using that secret_names_iff [OF assms(1,2), of k] own_names_get [OF assms(1), of k]
      by (auto simp: built_value_def split: env_value.splits if_splits)
    with g False resolve_env_lookup [OF w(1) assms(2), of k] show ?thesis by (simp split: option.split)
  qed
qed

theorem guest_env_as_declared_witness:
  "map_get (guest_env \<lparr>wo_name = [], wo_env = [(''TOKEN'', sentinel_prefix @ ''TOKEN'' @ [NUL]), (''URL'', ''u'')],
      wo_secretBindings = Some [''TOKEN'']\<rparr> [(''TOKEN'', ''hunter2'')]) ''TOKEN'' =
    Option.bind (map_get [(''TOKEN'', EnvRef (env_decl None None True)), (''URL'', EnvRef (env_decl None (Some ''u'') False))] ''TOKEN'')
      (plain_value sample_shell ''TOKEN'')"
proof (rule guest_env_as_declared)
  have "SECRET_SENTINEL_NAME_RE ''TOKEN''" by code_simp
  then show "defineWorkflow None sample_shell \<lparr>wc_name = None,
        wc_env = Some [(''TOKEN'', EnvRef (env_decl None None True)), (''URL'', EnvRef (env_decl None (Some ''u'') False))]\<rparr> =
      Inr \<lparr>wo_name = [], wo_env = [(''TOKEN'', sentinel_prefix @ ''TOKEN'' @ [NUL]), (''URL'', ''u'')], wo_secretBindings = Some [''TOKEN'']\<rparr>"
    by (simp add: defineWorkflow_def resolveEnvRecord_def env_decl_def env_name_def sample_shell_def secret_names_def encodeSentinel_def)
qed (auto simp: own_names_def env_decl_def env_name_def secret_names_def sample_shell_def)

lemma renamed_secret_stays_sentinel:
  assumes "SECRET_SENTINEL_NAME_RE name" and "name \<noteq> key" and "src name = Some v"
  shows "case defineWorkflow None src \<lparr>wc_name = None, wc_env = Some [(key, EnvRef (env_decl (Some name) None True))]\<rparr> of
      Inl _ \<Rightarrow> False
    | Inr w \<Rightarrow> map_get (guest_env w [(name, v)]) key = encodeSentinel name"
  using assms
  by (simp add: defineWorkflow_def resolveEnvRecord_def env_decl_def env_name_def encodeSentinel_def secret_names_def guest_env_def
      manifest_env_def getSecretsConfig_def)

lemma plain_entry_lost:
  assumes "SECRET_SENTINEL_NAME_RE name" and "name \<noteq> key" and "src name = Some v"
  shows "case defineWorkflow None src
      \<lparr>wc_name = None, wc_env = Some [(key, EnvRef (env_decl (Some name) None True)), (name, EnvText lit)]\<rparr> of
      Inl _ \<Rightarrow> False
    | Inr w \<Rightarrow> map_get (guest_env w [(name, v)]) name = Some v"
  using assms
  by (simp add: defineWorkflow_def resolveEnvRecord_def env_decl_def env_name_def encodeSentinel_def secret_names_def guest_env_def
      manifest_env_def getSecretsConfig_def)

end
