(* ===== verification/Cli.thy ===== *)
theory Cli
  imports Bundle
begin

text \<open>
  The command line of the SDK: posting the bundle and reporting a failure
  (\<open>packages/sdk/src/cli/upload.ts\<close>), the owner and repository an upload is for
  (\<open>git-remote.ts\<close>, \<open>cli.ts\<close>) and the check of the arguments (\<open>cli.ts\<close>).

  An HTTP call is its outcome, \<open>cli_net\<close>; \<open>new URL\<close> is an argument.
\<close>

section \<open>Uploading\<close>

record cli_issue =
  ci_path :: "json list" \<comment> \<open>strings and numbers\<close>
  ci_message :: string

datatype upload_status = Status nat | NetworkErrorStatus | BundleErrorStatus

record upload_failure =
  uf_owner :: string
  uf_repo :: string
  uf_status :: upload_status
  uf_error :: string
  uf_issues :: "cli_issue list option"

definition issue_of :: "json \<Rightarrow> cli_issue option" where
  "issue_of item =
     (case (prop_of (Some item) ''path'', prop_of (Some item) ''message'') of
        (Some (JArr rawPath), Some (JStr message)) \<Rightarrow>
          Some \<lparr>ci_path = filter (\<lambda>p. case p of JStr _ \<Rightarrow> True | JNum _ \<Rightarrow> True | _ \<Rightarrow> False) rawPath, ci_message = message\<rparr>
      | _ \<Rightarrow> None)"

definition parseManifestIssues :: "json option \<Rightarrow> cli_issue list option" where
  "parseManifestIssues v =
     (case v of
        Some (JArr items) \<Rightarrow>
          (let result = List.map_filter issue_of items in if length result > 0 then Some result else None)
      | _ \<Rightarrow> None)"

definition status_line :: "nat \<Rightarrow> string \<Rightarrow> string" where
  "status_line status statusText = (if statusText \<noteq> [] then statusText else ''HTTP '' @ show_nat status)"

definition extractErrorBody :: "nat \<Rightarrow> string \<Rightarrow> string + json \<Rightarrow> string + string \<times> cli_issue list option" where
  \<comment> \<open>reading a property of \<open>null\<close> throws, outside the \<open>try\<close>\<close>
  "extractErrorBody status statusText body =
     (case body of
        Inl _ \<Rightarrow> Inr (status_line status statusText, None)
      | Inr JNull \<Rightarrow> Inl ''Cannot read properties of null (reading 'error')''
      | Inr parsed \<Rightarrow>
          Inr (text_or (prop_of (Some parsed) ''error'') (status_line status statusText),
               parseManifestIssues (prop_of (Some parsed) ''issues'')))"

fun path_parts :: "bool \<Rightarrow> json list \<Rightarrow> string" where
  "path_parts first [] = []"
| "path_parts first (JNum n # ps) = ''['' @ show_int n @ '']'' @ path_parts False ps"
| "path_parts first (JStr k # ps) = (if first then k else ''.'' @ k) @ path_parts False ps"
| "path_parts first (_ # ps) = path_parts False ps"

definition formatIssuePath :: "json list \<Rightarrow> string" where
  "formatIssuePath path = (if length path = 0 then ''(root)'' else path_parts True path)"

fun show_status :: "upload_status \<Rightarrow> string" where
  "show_status (Status n) = show_nat n"
| "show_status NetworkErrorStatus = ''network-error''"
| "show_status BundleErrorStatus = ''bundle-error''"

definition formatFailure :: "upload_failure \<Rightarrow> string" where
  "formatFailure f =
     js_join [CHR 0x0A]
       ([[CHR 0xE2, CHR 0x9C, CHR 0x97] @ '' '' @ uf_owner f @ ''/'' @ uf_repo f, ''    status: '' @ show_status (uf_status f),
         ''    error: '' @ uf_error f] @
        (case uf_issues f of
           Some (i # is) \<Rightarrow>
             ''    issues:'' # map (\<lambda>x. ''      '' @ formatIssuePath (ci_path x) @ '': '' @ ci_message x) (i # is)
         | _ \<Rightarrow> []))"

definition upload_endpoint :: "string \<Rightarrow> string \<Rightarrow> string \<Rightarrow> string" where
  "upload_endpoint url owner repo = strip_slashes url @ ''/api/workflows/'' @ owner @ ''/'' @ repo"

definition uploadBundleBytes :: "string \<Rightarrow> string \<Rightarrow> http_outcome \<Rightarrow> string + upload_failure option" where
  "uploadBundleBytes owner repo outcome =
     (case outcome of
        NetworkError message \<Rightarrow>
          Inr (Some \<lparr>uf_owner = owner, uf_repo = repo, uf_status = NetworkErrorStatus, uf_error = message, uf_issues = None\<rparr>)
      | HttpResponse status statusText body \<Rightarrow>
          if ok_status status then Inr None
          else and_then (extractErrorBody status statusText body) (\<lambda>(err, issues).
            Inr (Some \<lparr>uf_owner = owner, uf_repo = repo, uf_status = Status status, uf_error = err, uf_issues = issues\<rparr>)))"

definition missing_message :: "string list \<Rightarrow> string" where
  "missing_message missing =
     ''Missing env vars for secret bindings: '' @ js_join '', '' missing @ ''. Set them in the shell running `wfe upload`.''"

definition bundleFailureToUploadFailure :: "bundle_error \<Rightarrow> string \<Rightarrow> string \<Rightarrow> upload_failure" where
  "bundleFailureToUploadFailure err owner repo =
     (case err of
        PublicKeyFetchError message status \<Rightarrow>
          \<lparr>uf_owner = owner, uf_repo = repo, uf_status = (case status of Some n \<Rightarrow> Status n | None \<Rightarrow> NetworkErrorStatus),
           uf_error = message, uf_issues = None\<rparr>
      | MissingSecretEnvError missing \<Rightarrow>
          \<lparr>uf_owner = owner, uf_repo = repo, uf_status = BundleErrorStatus, uf_error = missing_message missing, uf_issues = None\<rparr>
      | BuildFailed message \<Rightarrow>
          \<lparr>uf_owner = owner, uf_repo = repo, uf_status = BundleErrorStatus, uf_error = message, uf_issues = None\<rparr>)"

definition resolveAuth :: "string option \<Rightarrow> string option \<Rightarrow> string option \<Rightarrow> string + string option \<times> string option" where
  \<comment> \<open>the last argument is \<open>GITHUB_TOKEN\<close>\<close>
  "resolveAuth user token githubToken =
     (let envToken = (case map_option js_trim githubToken of Some (c # cs) \<Rightarrow> Some (c # cs) | _ \<Rightarrow> None)
      in if user \<noteq> None \<and> token \<noteq> None
         then Inl ''user and token are mutually exclusive: pass only one of --user or --token''
         else if user \<noteq> None \<and> envToken \<noteq> None
         then Inl ''user and GITHUB_TOKEN are mutually exclusive: unset GITHUB_TOKEN or omit --user''
         else Inr (user, case token of Some t \<Rightarrow> Some t | None \<Rightarrow> envToken))"

record 'y cli_net =
  cn_get :: "string \<Rightarrow> (string \<times> string) list \<Rightarrow> http_outcome"
  cn_post :: "string \<Rightarrow> (string \<times> string) list \<Rightarrow> 'y \<Rightarrow> http_outcome"
  cn_pack :: "(string, string) jsmap \<Rightarrow> 'y" \<comment> \<open>\<open>packTarGz\<close>\<close>

definition cli_upload ::
  "build_tools \<Rightarrow> manifest_lib \<Rightarrow> secrets_lib \<Rightarrow> seal_lib \<Rightarrow> (string \<Rightarrow> string option) \<Rightarrow> 'y cli_net \<Rightarrow> string \<Rightarrow> string \<Rightarrow> string \<Rightarrow>
   string option \<Rightarrow> string option \<Rightarrow> string option \<Rightarrow> string + nat \<times> nat \<times> string" where
  \<comment> \<open>\<open>upload\<close>: how many were uploaded and how many failed, and the line on standard error\<close>
  "cli_upload t lib slib se env net url owner repo user token githubToken =
     and_then (resolveAuth user token githubToken) (\<lambda>(authUser, authToken).
       if \<not> OWNER_NAME_RE owner then Inl (''owner '' @ q owner @ '' must match ^[a-zA-Z0-9][a-zA-Z0-9_-]{0,62}$'')
       else if \<not> REPO_NAME_RE repo then Inl (''repo '' @ q repo @ '' must match ^[a-zA-Z0-9._-]{1,100}$'')
       else
         let headers = cli_headers authUser authToken
         in case make_bundle t lib slib se env (cn_get net (public_key_endpoint url owner) headers) of
              Inl err \<Rightarrow> Inr (0, 1, formatFailure (bundleFailureToUploadFailure err owner repo))
            | Inr entries \<Rightarrow>
                and_then
                  (uploadBundleBytes owner repo
                     (cn_post net (upload_endpoint url owner repo) ((''Content-Type'', ''application/gzip'') # headers) (cn_pack net entries)))
                  (\<lambda>failure. Inr (case failure of
                     None \<Rightarrow> (1, 0, [CHR 0xE2, CHR 0x9C, CHR 0x93] @ '' '' @ owner @ ''/'' @ repo)
                   | Some f \<Rightarrow> (0, 1, formatFailure f))))"

section \<open>The scope of an upload\<close>

record url_parts =
  up_protocol :: string
  up_hostname :: string
  up_pathname :: string

definition stripGitSuffix :: "string \<Rightarrow> string" where
  "stripGitSuffix s = (if ends_with s ''.git'' then take (length s - 4) s else s)"

definition ssh_target :: "string \<Rightarrow> (string \<times> string) option" where
  \<comment> \<open>\<open>github\.com:([^/]+)\/([^/]+?)(?:\.git)?$\<close> at the start of the text, in any case\<close>
  "ssh_target s =
     (if toLowerCase (take 11 s) \<noteq> ''github.com:'' then None
      else case js_split (CHR ''/'') (drop 11 s) of
        [owner, repo] \<Rightarrow>
          if owner = [] \<or> repo = [] then None
          else Some (owner, if ends_with (toLowerCase repo) ''.git'' \<and> length repo > 4 then take (length repo - 4) repo else repo)
      | _ \<Rightarrow> None)"

definition SSH_COLON_RE :: "string \<Rightarrow> (string \<times> string) option" where
  \<comment> \<open>first with the optional \<open>[^@]+@\<close>, then without it\<close>
  "SSH_COLON_RE s =
     (case (case indexOf (CHR ''@'') s of Some (Suc i) \<Rightarrow> ssh_target (drop (i + 2) s) | _ \<Rightarrow> None) of
        Some r \<Rightarrow> Some r
      | None \<Rightarrow> ssh_target s)"

definition parseSshColon :: "string \<Rightarrow> (string \<times> string) option" where
  "parseSshColon trimmed =
     (case SSH_COLON_RE trimmed of
        None \<Rightarrow> None
      | Some (owner, repoRaw) \<Rightarrow>
          (let repo = stripGitSuffix repoRaw in if repo = [] then None else Some (owner, repo)))"

definition parseUrlLike :: "(string \<Rightarrow> url_parts option) \<Rightarrow> string \<Rightarrow> (string \<times> string) option" where
  \<comment> \<open>the first argument is \<open>new URL\<close>\<close>
  "parseUrlLike parse trimmed =
     (case parse trimmed of
        None \<Rightarrow> None
      | Some parsed \<Rightarrow>
          if up_protocol parsed \<notin> {''https:'', ''http:'', ''ssh:'', ''git:''} then None
          else if toLowerCase (up_hostname parsed) \<noteq> ''github.com'' then None
          else
            let path = strip_slashes (dropWhile (\<lambda>c. c = CHR ''/'') (up_pathname parsed))
            in if path = [] then None
               else case js_split (CHR ''/'') path of
                 [ownerPart, repoPart] \<Rightarrow>
                   (let repo = stripGitSuffix repoPart in if ownerPart = [] \<or> repo = [] then None else Some (ownerPart, repo))
               | _ \<Rightarrow> None)"

definition parseGitRemoteUrl :: "(string \<Rightarrow> url_parts option) \<Rightarrow> string \<Rightarrow> (string \<times> string) option" where
  "parseGitRemoteUrl parse raw =
     (let trimmed = js_trim raw
      in if trimmed = [] then None
         else if \<not> includes_text ''://'' trimmed then parseSshColon trimmed
         else parseUrlLike parse trimmed)"

definition detectGitRemote :: "(string \<Rightarrow> url_parts option) \<Rightarrow> string option \<Rightarrow> (string \<times> string) option" where
  \<comment> \<open>what \<open>git remote get-url origin\<close> prints, if it succeeds\<close>
  "detectGitRemote parse stdout = Option.bind stdout (parseGitRemoteUrl parse)"

definition resolveScope :: "(string \<Rightarrow> url_parts option) \<Rightarrow> string option \<Rightarrow> string option \<Rightarrow> string + string \<times> string" where
  "resolveScope parse stdout repoFlag =
     (case repoFlag of
        Some flag \<Rightarrow>
          (case js_split (CHR ''/'') flag of
             [owner, repo] \<Rightarrow>
               if owner = [] \<or> repo = [] then Inl (''--repo must be in '' @ q ''owner/name'' @ '' form (got '' @ q flag @ '')'')
               else Inr (owner, repo)
           | _ \<Rightarrow> Inl (''--repo must be in '' @ q ''owner/name'' @ '' form (got '' @ q flag @ '')''))
      | None \<Rightarrow>
          (case detectGitRemote parse stdout of
             Some detected \<Rightarrow> Inr detected
           | None \<Rightarrow>
               Inl ''could not determine owner/repo: pass --repo <owner>/<name> or run from a github.com checkout''))"

section \<open>Arguments\<close>

record arg_def =
  ad_name :: string
  ad_alias :: "string list"

definition collectKnownArgKeys :: "arg_def list \<Rightarrow> string list" where
  "collectKnownArgKeys defs = foldl (\<lambda>known d. foldl (\<lambda>k a. set_add a k) (set_add (ad_name d) known) (ad_alias d)) [''_''] defs"

definition assertNoUnknownArgs :: "string list \<Rightarrow> string list \<Rightarrow> arg_def list \<Rightarrow> string + unit" where
  \<comment> \<open>the keys of the parsed arguments, and the positional ones\<close>
  "assertNoUnknownArgs argKeys positionals defs =
     (let known = collectKnownArgKeys defs
      in case find (\<lambda>key. key \<notin> set known) argKeys of
           Some key \<Rightarrow> Inl (''unknown option: '' @ (if length key = 1 then ''-'' else ''--'') @ key)
         | None \<Rightarrow> (case positionals of p # _ \<Rightarrow> Inl (''unexpected argument: '' @ p) | [] \<Rightarrow> Inr ()))"

definition uploadArgs :: "arg_def list" where
  "uploadArgs = map (\<lambda>n. \<lparr>ad_name = n, ad_alias = []\<rparr>) [''url'', ''repo'', ''user'']"

section \<open>Remotes\<close>

lemma js_split_no_sep: "p \<in> set (js_split c s) \<Longrightarrow> c \<notin> set p"
proof (induction s arbitrary: p)
  case (Cons x s)
  then show ?case by (auto split: list.splits if_splits)
qed simp

definition one_segment :: "string \<Rightarrow> bool" where
  "one_segment s = (s \<noteq> [] \<and> CHR ''/'' \<notin> set s)"

lemma one_segment_take: "CHR ''/'' \<notin> set s \<Longrightarrow> CHR ''/'' \<notin> set (take n s)"
  by (auto dest: in_set_takeD)

lemma split_two: "js_split (CHR ''/'') s = [a, b] \<Longrightarrow> CHR ''/'' \<notin> set a \<and> CHR ''/'' \<notin> set b"
  using js_split_no_sep [of a "CHR ''/''" s] js_split_no_sep [of b "CHR ''/''" s] by simp

lemma stripGitSuffix_segment: "CHR ''/'' \<notin> set s \<Longrightarrow> CHR ''/'' \<notin> set (stripGitSuffix s)"
  by (simp add: stripGitSuffix_def one_segment_take)

lemma ssh_target_segments:
  assumes "ssh_target s = Some (owner, repo)"
  shows "one_segment owner \<and> CHR ''/'' \<notin> set repo"
proof -
  obtain r n where "js_split (CHR ''/'') (drop 11 s) = [owner, r]" "owner \<noteq> []" "repo = take n r \<or> repo = r"
    using assms by (auto simp: ssh_target_def split: if_splits list.splits)
  with split_two [of "drop 11 s" owner r] one_segment_take [of r n] show ?thesis by (auto simp: one_segment_def)
qed

lemma remote_segments:
  assumes "parseGitRemoteUrl parse raw = Some (owner, repo)"
  shows "one_segment owner \<and> one_segment repo"
proof (cases "includes_text ''://'' (js_trim raw)")
  case False
  then obtain r where "SSH_COLON_RE (js_trim raw) = Some (owner, r)" "repo = stripGitSuffix r" "repo \<noteq> []"
    using assms by (auto simp: parseGitRemoteUrl_def parseSshColon_def Let_def split: if_splits option.splits)
  moreover from this(1) obtain t where "ssh_target t = Some (owner, r)"
    by (auto simp: SSH_COLON_RE_def split: option.splits nat.splits)
  ultimately show ?thesis using ssh_target_segments [of t owner r] stripGitSuffix_segment [of r] by (simp add: one_segment_def)
next
  case True
  then have "parseUrlLike parse (js_trim raw) = Some (owner, repo)" using assms by (simp add: parseGitRemoteUrl_def Let_def split: if_splits)
  then obtain path r where "js_split (CHR ''/'') path = [owner, r]" "repo = stripGitSuffix r" "owner \<noteq> []" "repo \<noteq> []"
    by (auto simp: parseUrlLike_def Let_def split: if_splits option.splits list.splits)
  with split_two [of path owner r] stripGitSuffix_segment [of r] show ?thesis by (simp add: one_segment_def)
qed

lemma scope_segments:
  assumes "resolveScope parse stdout repoFlag = Inr (owner, repo)"
  shows "one_segment owner \<and> one_segment repo"
proof (cases repoFlag)
  case None
  with assms have "detectGitRemote parse stdout = Some (owner, repo)" by (simp add: resolveScope_def split: option.splits)
  then show ?thesis using remote_segments by (auto simp: detectGitRemote_def bind_eq_Some_conv)
next
  case (Some flag)
  with assms have "js_split (CHR ''/'') flag = [owner, repo]" "owner \<noteq> []" "repo \<noteq> []"
    by (auto simp: resolveScope_def split: list.splits if_splits)
  with split_two [of flag owner repo] show ?thesis by (simp add: one_segment_def)
qed

text \<open>
  The colon form of a remote loses two \<open>.git\<close> suffixes, the URL form one.
\<close>

lemma double_suffix:
  "parseSshColon ''git@github.com:o/r.git.git'' = Some (''o'', ''r'')"
  "parseUrlLike (\<lambda>_. Some \<lparr>up_protocol = ''https:'', up_hostname = ''github.com'', up_pathname = ''/o/r.git.git''\<rparr>) u = Some (''o'', ''r.git'')"
  by code_simp (simp add: parseUrlLike_def strip_slashes_def stripGitSuffix_def ends_with_def lower_def)

text \<open>An upload that reports success was answered with a 2xx status, for an owner and a repository of the documented form.\<close>

lemma upload_success:
  assumes "cli_upload t lib slib se env net url owner repo user token githubToken = Inr (n, f, line)"
  shows "n + f = 1 \<and> OWNER_NAME_RE owner \<and> REPO_NAME_RE repo"
  using assms by (auto simp: cli_upload_def and_then_Inr Let_def split: if_splits sum.splits option.splits)

end
