(* ===== verification/Sidebar.thy ===== *)
theory Sidebar
  imports Upload
begin

text \<open>
  The navigation of the dashboard (\<open>packages/runtime/src/ui\<close>): the history of triggers that are
  no longer registered (\<open>invocations/removed-triggers.ts\<close>), the tree of owners, repositories,
  workflows and triggers (\<open>sidebar-tree.tsx\<close>) and the tabs with their breadcrumb (\<open>tabs.tsx\<close>).

  A rendered fragment is the list of its links, in the order of the page. \<open>localeCompare\<close>
  compares the collation keys of its arguments; the function to keys is an argument. A
  \<open>SELECT DISTINCT\<close> without an order returns its rows in some order: the model's is that of the
  table.
\<close>

section \<open>The registry, as the pages read it\<close>

definition reg_repos :: "('b, 'y) registry \<Rightarrow> string \<Rightarrow> string list" where
  "reg_repos r owner = (case map_get (ownerStates r) owner of Some repos \<Rightarrow> keys repos | None \<Rightarrow> [])"

definition reg_list :: "('b, 'y) registry \<Rightarrow> string \<Rightarrow> string \<Rightarrow> workflow_entry list" where
  "reg_list r owner repo = collectEntries r (Some owner) (Some repo)"

abbreviation td_kind :: "trigger_descriptor \<Rightarrow> string" where
  "td_kind d \<equiv> kind_of (td_config d)"

section \<open>Removed triggers\<close>

record trigger_pair =
  tp_owner :: string
  tp_repo :: string
  tp_workflow :: string
  tp_name :: string

definition REMOVED_KIND :: string where "REMOVED_KIND = ''removed''"

definition queryTriggerPairs :: "event_store \<Rightarrow> (string \<times> string) list \<Rightarrow> trigger_pair list" where
  "queryTriggerPairs st scopes =
     (case query st scopes of
        Inl _ \<Rightarrow> []
      | Inr found \<Rightarrow>
          remdups (map (\<lambda>x. \<lparr>tp_owner = r_owner x, tp_repo = r_repo x, tp_workflow = r_workflow x, tp_name = r_name x\<rparr>)
            (filter (\<lambda>x. r_kind x = ''trigger.request'') found)))"

definition workflowHistoryExists :: "event_store \<Rightarrow> string \<Rightarrow> string \<Rightarrow> string \<Rightarrow> bool" where
  "workflowHistoryExists st owner repo workflow =
     (case query st [(owner, repo)] of Inl _ \<Rightarrow> False | Inr found \<Rightarrow> list_ex (\<lambda>x. r_workflow x = workflow) found)"

section \<open>Tree data\<close>

record trigger_ref =
  tr_trigger :: string
  tr_kind :: string

record workflow_group =
  wg_workflow :: string
  wg_triggers :: "trigger_ref list"
  wg_removed :: bool

record sidebar_data =
  sd_owners :: "string list"
  sd_reposByOwner :: "(string, string list) jsmap"
  sd_workflowsByPair :: "(string, workflow_group list) jsmap"

definition liveTriggerKey :: "string \<Rightarrow> string \<Rightarrow> string" where
  "liveTriggerKey workflow trigger = workflow @ NUL # trigger"

definition liveSetsFor :: "('b, 'y) registry \<Rightarrow> string \<Rightarrow> string \<Rightarrow> string list \<times> string list" where
  \<comment> \<open>the keys of the live triggers and the live workflows\<close>
  "liveSetsFor r owner repo =
     (let es = reg_list r owner repo
      in (remdups (concat (map (\<lambda>e. map (\<lambda>d. liveTriggerKey (wm_name (we_workflow e)) (td_name d)) (we_triggers e)) es)),
          remdups (map (\<lambda>e. wm_name (we_workflow e)) es)))"

record tree_acc =
  ta_reposByOwner :: "(string, string list) jsmap"
  ta_byRepo :: "(string, workflow_group list) jsmap"

definition ensureRepoGroups :: "tree_acc \<Rightarrow> string \<Rightarrow> string \<Rightarrow> tree_acc" where
  "ensureRepoGroups acc owner repo =
     (let pk = pairKey owner repo
      in if map_has (ta_byRepo acc) pk then acc
         else
           let repos = (case map_get (ta_reposByOwner acc) owner of Some rs \<Rightarrow> rs | None \<Rightarrow> [])
           in \<lparr>ta_reposByOwner = map_set owner (if repo \<in> set repos then repos else repos @ [repo]) (ta_reposByOwner acc),
               ta_byRepo = map_set pk [] (ta_byRepo acc)\<rparr>)"

definition ensureGroup :: "workflow_group list \<Rightarrow> string \<Rightarrow> bool \<Rightarrow> workflow_group list" where
  "ensureGroup groups workflow workflowIsLive =
     (if list_ex (\<lambda>g. wg_workflow g = workflow) groups then groups
      else groups @ [\<lparr>wg_workflow = workflow, wg_triggers = [], wg_removed = \<not> workflowIsLive\<rparr>])"

fun push_removed :: "string \<Rightarrow> string \<Rightarrow> workflow_group list \<Rightarrow> workflow_group list" where
  \<comment> \<open>into the first group of that workflow\<close>
  "push_removed workflow name [] = []"
| "push_removed workflow name (g # gs) =
     (if wg_workflow g = workflow
      then (if list_ex (\<lambda>t. tr_trigger t = name) (wg_triggers g) then g
            else g\<lparr>wg_triggers := wg_triggers g @ [\<lparr>tr_trigger = name, tr_kind = REMOVED_KIND\<rparr>]\<rparr>) # gs
      else g # push_removed workflow name gs)"

definition merge_pair :: "('b, 'y) registry \<Rightarrow> string list \<Rightarrow> tree_acc \<Rightarrow> trigger_pair \<Rightarrow> tree_acc" where
  \<comment> \<open>\<open>liveFor\<close> is \<open>liveSetsFor\<close> behind a cache\<close>
  "merge_pair r owners acc p =
     (if tp_owner p \<notin> set owners then acc
      else
        let live = liveSetsFor r (tp_owner p) (tp_repo p)
        in if liveTriggerKey (tp_workflow p) (tp_name p) \<in> set (fst live) then acc
           else
             let acc1 = ensureRepoGroups acc (tp_owner p) (tp_repo p);
                 pk = pairKey (tp_owner p) (tp_repo p);
                 groups = (case map_get (ta_byRepo acc1) pk of Some gs \<Rightarrow> gs | None \<Rightarrow> [])
             in acc1\<lparr>ta_byRepo := map_set pk
                  (push_removed (tp_workflow p) (tp_name p) (ensureGroup groups (tp_workflow p) (tp_workflow p \<in> set (snd live))))
                  (ta_byRepo acc1)\<rparr>)"

definition mergeRemovedPairs :: "('b, 'y) registry \<Rightarrow> string list \<Rightarrow> tree_acc \<Rightarrow> trigger_pair list \<Rightarrow> tree_acc" where
  "mergeRemovedPairs r owners acc triggerPairs = foldl (merge_pair r owners) acc triggerPairs"

definition sinkRemoved :: "(string \<Rightarrow> nat list) \<Rightarrow> ('a \<Rightarrow> bool) \<Rightarrow> ('a \<Rightarrow> string) \<Rightarrow> 'a list \<Rightarrow> 'a list" where
  "sinkRemoved collation isRemoved nameOf items =
     filter (\<lambda>i. \<not> isRemoved i) items @ sort_key (collation \<circ> nameOf) (filter isRemoved items)"

definition live_group :: "workflow_entry \<Rightarrow> workflow_group" where
  "live_group e =
     \<lparr>wg_workflow = wm_name (we_workflow e), wg_triggers = map (\<lambda>d. \<lparr>tr_trigger = td_name d, tr_kind = td_kind d\<rparr>) (we_triggers e),
      wg_removed = False\<rparr>"

definition add_owner :: "('b, 'y) registry \<Rightarrow> tree_acc \<Rightarrow> string \<Rightarrow> tree_acc" where
  "add_owner r acc owner =
     (let repos = reg_repos r owner
      in \<lparr>ta_reposByOwner = map_set owner repos (ta_reposByOwner acc),
          ta_byRepo = foldl (\<lambda>m repo. map_set (pairKey owner repo) (map live_group (reg_list r owner repo)) m) (ta_byRepo acc) repos\<rparr>)"

definition final_groups :: "(string \<Rightarrow> nat list) \<Rightarrow> workflow_group list \<Rightarrow> workflow_group list" where
  "final_groups collation groups =
     sinkRemoved collation wg_removed wg_workflow
       (map (\<lambda>g. g\<lparr>wg_triggers := sinkRemoved collation (\<lambda>t. tr_kind t = REMOVED_KIND) tr_trigger (wg_triggers g)\<rparr>) groups)"

definition buildSidebarData ::
  "(string \<Rightarrow> nat list) \<Rightarrow> ('b, 'y) registry \<Rightarrow> string list \<Rightarrow> trigger_pair list \<Rightarrow> sidebar_data" where
  "buildSidebarData collation r owners triggerPairs =
     (let acc = mergeRemovedPairs r owners (foldl (add_owner r) \<lparr>ta_reposByOwner = [], ta_byRepo = []\<rparr> owners) triggerPairs
      in \<lparr>sd_owners = owners, sd_reposByOwner = ta_reposByOwner acc,
          sd_workflowsByPair = map (\<lambda>(pk, groups). (pk, final_groups collation groups)) (ta_byRepo acc)\<rparr>)"

section \<open>The rendered tree\<close>

record active_state =
  as_owner :: "string option"
  as_repo :: "string option"
  as_workflow :: "string option"
  as_trigger :: "string option"

record page_link =
  pl_class :: string
  pl_href :: string
  pl_title :: "string option"

definition itemClass :: "string \<Rightarrow> bool \<Rightarrow> bool \<Rightarrow> string" where
  "itemClass base is_active is_open =
     js_join '' '' ([base] @ (if is_active then [''active''] else []) @ (if is_open then [''open''] else []))"

definition EM_DASH :: string where "EM_DASH = [CHR 0xE2, CHR 0x80, CHR 0x94]"

definition TriggerLeaf :: "string \<Rightarrow> active_state \<Rightarrow> string \<Rightarrow> string \<Rightarrow> string \<Rightarrow> trigger_ref \<Rightarrow> page_link" where
  "TriggerLeaf surface cur owner repo workflow t =
     (let isActive = (as_owner cur = Some owner \<and> as_repo cur = Some repo \<and> as_workflow cur = Some workflow \<and>
                      as_trigger cur = Some (tr_trigger t));
          isRemoved = (tr_kind t = REMOVED_KIND)
      in \<lparr>pl_class = itemClass (if isRemoved then ''sidebar-trigger sidebar-trigger--removed'' else ''sidebar-trigger'') isActive False,
          pl_href = surface @ ''/'' @ owner @ ''/'' @ repo @ ''/'' @ workflow @ ''/'' @ tr_trigger t,
          pl_title = Some (workflow @ '' / '' @ tr_trigger t @
            (if isRemoved then '' (removed '' @ EM_DASH @ '' no longer in current upload)'' else '' ('' @ tr_kind t @ '')''))\<rparr>)"

definition WorkflowNode :: "string \<Rightarrow> active_state \<Rightarrow> string \<Rightarrow> string \<Rightarrow> workflow_group \<Rightarrow> page_link list" where
  "WorkflowNode surface cur owner repo grp =
     (let isActive = (as_owner cur = Some owner \<and> as_repo cur = Some repo \<and> as_workflow cur = Some (wg_workflow grp) \<and>
                      as_trigger cur = None)
      in \<lparr>pl_class = itemClass (if wg_removed grp then ''sidebar-workflow-link sidebar-workflow-link--removed''
                              else ''sidebar-workflow-link'') isActive True,
          pl_href = surface @ ''/'' @ owner @ ''/'' @ repo @ ''/'' @ wg_workflow grp,
          pl_title = (if wg_removed grp
            then Some (wg_workflow grp @ '' (removed '' @ EM_DASH @ '' no longer in current upload)'') else None)\<rparr> #
         (if surface = ''/queue'' then [] else map (TriggerLeaf surface cur owner repo (wg_workflow grp)) (wg_triggers grp)))"

definition RepoNode :: "string \<Rightarrow> active_state \<Rightarrow> string \<Rightarrow> string \<Rightarrow> workflow_group list \<Rightarrow> page_link list" where
  "RepoNode surface cur owner repo workflows =
     (let isActive = (as_owner cur = Some owner \<and> as_repo cur = Some repo \<and> as_workflow cur = None);
          href = surface @ ''/'' @ owner @ ''/'' @ repo
      in if workflows = []
         then [\<lparr>pl_class = itemClass ''sidebar-repo sidebar-repo--empty'' isActive False, pl_href = href, pl_title = None\<rparr>]
         else \<lparr>pl_class = itemClass ''sidebar-repo-link'' isActive True, pl_href = href, pl_title = None\<rparr> #
              concat (map (WorkflowNode surface cur owner repo) workflows))"

definition OwnerNode ::
  "string \<Rightarrow> active_state \<Rightarrow> string \<Rightarrow> string list \<Rightarrow> (string, workflow_group list) jsmap \<Rightarrow> page_link list" where
  "OwnerNode surface cur owner repos workflowsByPair =
     (let isActive = (as_owner cur = Some owner \<and> as_repo cur = None); href = surface @ ''/'' @ owner
      in if repos = []
         then [\<lparr>pl_class = itemClass ''sidebar-owner-link'' isActive False, pl_href = href, pl_title = None\<rparr>]
         else \<lparr>pl_class = itemClass ''sidebar-owner-link'' isActive True, pl_href = href, pl_title = None\<rparr> #
              concat (map (\<lambda>repo. RepoNode surface cur owner repo
                (case map_get workflowsByPair (pairKey owner repo) of Some gs \<Rightarrow> gs | None \<Rightarrow> [])) repos))"

definition SidebarTree :: "string \<Rightarrow> sidebar_data \<Rightarrow> active_state \<Rightarrow> page_link list" where
  \<comment> \<open>without owners the page says so, and has no link\<close>
  "SidebarTree surface data cur =
     concat (map (\<lambda>owner. OwnerNode surface cur owner
       (case map_get (sd_reposByOwner data) owner of Some rs \<Rightarrow> rs | None \<Rightarrow> []) (sd_workflowsByPair data)) (sd_owners data))"

section \<open>Tabs\<close>

definition TABS :: "(string \<times> string) list" where
  "TABS = [(''/invocations'', ''Invocations''), (''/trigger'', ''Trigger''), (''/queue'', ''Queues'')]"

definition Breadcrumb :: "string \<Rightarrow> active_state \<Rightarrow> (string \<times> string option) list" where
  \<comment> \<open>label and link\<close>
  "Breadcrumb surface scope =
     [(''All'', if as_owner scope = None then None else Some surface)] @
     (case as_owner scope of
        None \<Rightarrow> []
      | Some owner \<Rightarrow>
          (owner, if as_repo scope = None then None else Some (surface @ ''/'' @ owner)) #
          (case as_repo scope of
             None \<Rightarrow> []
           | Some repo \<Rightarrow>
               (repo, if as_workflow scope = None then None else Some (surface @ ''/'' @ owner @ ''/'' @ repo)) #
               (case as_workflow scope of
                  None \<Rightarrow> []
                | Some workflow \<Rightarrow>
                    (workflow, if as_trigger scope = None then None
                       else Some (surface @ ''/'' @ owner @ ''/'' @ repo @ ''/'' @ workflow)) #
                    (case as_trigger scope of None \<Rightarrow> [] | Some trigger \<Rightarrow> [(trigger, None)]))))"

definition visibleTabsFor :: "string \<Rightarrow> active_state \<Rightarrow> bool \<Rightarrow> (string \<times> string) list" where
  "visibleTabsFor surface scope removed =
     (if removed then filter (\<lambda>(s, l). s = surface) TABS
      else if as_trigger scope \<noteq> None then filter (\<lambda>(s, l). s \<noteq> ''/queue'') TABS
      else TABS)"

definition Tabs :: "string \<Rightarrow> string \<Rightarrow> active_state \<Rightarrow> bool \<Rightarrow> page_link list" where
  "Tabs surface path scope removed =
     map (\<lambda>(s, l). \<lparr>pl_class = (if s = surface then ''page-tabs-link active'' else ''page-tabs-link''), pl_href = s @ path,
                   pl_title = None\<rparr>) (visibleTabsFor surface scope removed)"

section \<open>What the tree shows\<close>

definition group_triples :: "workflow_group list \<Rightarrow> (string \<times> string \<times> string) list" where
  "group_triples gs = concat (map (\<lambda>g. map (\<lambda>t. (wg_workflow g, tr_trigger t, tr_kind t)) (wg_triggers g)) gs)"

definition live_triples :: "('b, 'y) registry \<Rightarrow> string \<Rightarrow> string \<Rightarrow> (string \<times> string \<times> string) list" where
  "live_triples r owner repo =
     concat (map (\<lambda>e. map (\<lambda>d. (wm_name (we_workflow e), td_name d, td_kind d)) (we_triggers e)) (reg_list r owner repo))"

definition is_live :: "('b, 'y) registry \<Rightarrow> string \<Rightarrow> string \<Rightarrow> string \<Rightarrow> string \<Rightarrow> bool" where
  "is_live r owner repo w t \<longleftrightarrow> liveTriggerKey w t \<in> set (fst (liveSetsFor r owner repo))"

definition removed_triples :: "('b, 'y) registry \<Rightarrow> trigger_pair list \<Rightarrow> string \<Rightarrow> string \<Rightarrow> (string \<times> string \<times> string) list" where
  "removed_triples r pairs owner repo =
     map (\<lambda>p. (tp_workflow p, tp_name p, REMOVED_KIND))
       (filter (\<lambda>p. tp_owner p = owner \<and> tp_repo p = repo \<and> \<not> is_live r owner repo (tp_workflow p) (tp_name p)) pairs)"

definition groups_at :: "tree_acc \<Rightarrow> string \<Rightarrow> string \<Rightarrow> workflow_group list" where
  "groups_at acc owner repo = (case map_get (ta_byRepo acc) (pairKey owner repo) of Some gs \<Rightarrow> gs | None \<Rightarrow> [])"

definition shown :: "sidebar_data \<Rightarrow> string \<Rightarrow> string \<Rightarrow> (string \<times> string \<times> string) list" where
  "shown data owner repo =
     group_triples (case map_get (sd_workflowsByPair data) (pairKey owner repo) of Some gs \<Rightarrow> gs | None \<Rightarrow> [])"

lemma set_sinkRemoved: "set (sinkRemoved c isR nm xs) = set xs"
  by (auto simp: sinkRemoved_def)

lemma triples_iff:
  "(w, n, k) \<in> set (group_triples gs) \<longleftrightarrow> (\<exists>g \<in> set gs. wg_workflow g = w \<and> (\<exists>t \<in> set (wg_triggers g). tr_trigger t = n \<and> tr_kind t = k))"
  by (auto simp: group_triples_def)

lemma triples_final: "set (group_triples (final_groups c gs)) = set (group_triples gs)"
proof (rule set_eqI)
  fix x :: "string \<times> string \<times> string"
  obtain w n k where x: "x = (w, n, k)" by (cases x)
  show "x \<in> set (group_triples (final_groups c gs)) \<longleftrightarrow> x \<in> set (group_triples gs)"
    unfolding x triples_iff final_groups_def by (auto simp: set_sinkRemoved)
qed

lemma live_triple_key: "(w, n, k) \<in> set (live_triples r owner repo) \<Longrightarrow> is_live r owner repo w n"
  by (auto simp: live_triples_def is_live_def liveSetsFor_def Let_def)

lemma triples_live_group: "group_triples (map live_group (reg_list r owner repo)) = live_triples r owner repo"
  by (simp add: group_triples_def live_triples_def live_group_def comp_def)

lemma triples_ensure: "group_triples (ensureGroup gs w l) = group_triples gs"
  by (simp add: ensureGroup_def group_triples_def)

lemma triples_push:
  assumes "list_ex (\<lambda>g. wg_workflow g = w) gs" and "\<And>k. (w, n, k) \<in> set (group_triples gs) \<Longrightarrow> k = REMOVED_KIND"
  shows "set (group_triples (push_removed w n gs)) = insert (w, n, REMOVED_KIND) (set (group_triples gs))"
  using assms
proof (induction gs)
  case (Cons g gs)
  have tl: "set (group_triples (h # gs)) = set (group_triples [h]) \<union> set (group_triples gs)" for h
    by (simp add: group_triples_def)
  show ?case
  proof (cases "wg_workflow g = w")
    case True
    show ?thesis
    proof (cases "list_ex (\<lambda>t. tr_trigger t = n) (wg_triggers g)")
      case has: True
      then obtain t where "t \<in> set (wg_triggers g)" "tr_trigger t = n" by (auto simp: list_ex_iff)
      then have "(w, n, tr_kind t) \<in> set (group_triples (g # gs))" using True by (auto simp: triples_iff)
      with Cons.prems(2) have "(w, n, REMOVED_KIND) \<in> set (group_triples (g # gs))" by metis
      with has True show ?thesis by auto
    next
      case False
      with True show ?thesis by (auto simp: group_triples_def)
    qed
  next
    case False
    have "set (group_triples (push_removed w n gs)) = insert (w, n, REMOVED_KIND) (set (group_triples gs))"
      using Cons False tl [of g] by auto
    moreover have "set (group_triples (g # push_removed w n gs)) = set (group_triples [g]) \<union> set (group_triples (push_removed w n gs))"
      by (simp add: group_triples_def)
    ultimately show ?thesis using False tl [of g] by simp
  qed
qed simp

text \<open>Merging one pair of the history.\<close>

lemma groups_at_ensure:
  assumes "slash_free owner" and "slash_free o1"
  shows "groups_at (ensureRepoGroups acc o1 p1) owner repo = groups_at acc owner repo"
  using assms by (auto simp: ensureRepoGroups_def groups_at_def Let_def pairKey_inj split: option.splits)

lemma merge_pair_shows:
  assumes "slash_free owner" and "list_all slash_free owners" and "owner \<in> set owners"
    and inv: "\<And>w n k. (w, n, k) \<in> set (group_triples (groups_at acc owner repo)) \<Longrightarrow> k = REMOVED_KIND \<or> is_live r owner repo w n"
  shows "set (group_triples (groups_at (merge_pair r owners acc p) owner repo)) =
    set (group_triples (groups_at acc owner repo)) \<union> set (removed_triples r [p] owner repo)"
proof (cases "tp_owner p \<notin> set owners \<or> is_live r (tp_owner p) (tp_repo p) (tp_workflow p) (tp_name p)")
  case True
  then show ?thesis using assms(3) by (auto simp: merge_pair_def Let_def is_live_def removed_triples_def)
next
  case False
  then have slash: "slash_free (tp_owner p)" using assms(2) by (simp add: list_all_iff)
  let ?acc = "ensureRepoGroups acc (tp_owner p) (tp_repo p)"
  let ?l = "tp_workflow p \<in> set (snd (liveSetsFor r (tp_owner p) (tp_repo p)))"
  let ?gs = "ensureGroup (groups_at ?acc (tp_owner p) (tp_repo p)) (tp_workflow p) ?l"
  have m: "groups_at (merge_pair r owners acc p) owner repo =
      (if tp_owner p = owner \<and> tp_repo p = repo then push_removed (tp_workflow p) (tp_name p) ?gs else groups_at acc owner repo)"
    using False assms(1) slash groups_at_ensure [OF assms(1) slash, of acc "tp_repo p" repo]
    by (auto simp: merge_pair_def Let_def is_live_def groups_at_def pairKey_inj)
  show ?thesis
  proof (cases "tp_owner p = owner \<and> tp_repo p = repo")
    case True
    have t: "group_triples ?gs = group_triples (groups_at acc owner repo)"
      using groups_at_ensure [OF assms(1) slash, of acc "tp_repo p" repo] True by (simp add: triples_ensure)
    have "list_ex (\<lambda>g. wg_workflow g = tp_workflow p) ?gs" by (simp add: ensureGroup_def)
    from triples_push [OF this, of "tp_name p"] inv False True
    have "set (group_triples (push_removed (tp_workflow p) (tp_name p) ?gs)) =
        insert (tp_workflow p, tp_name p, REMOVED_KIND) (set (group_triples (groups_at acc owner repo)))"
      unfolding t by blast
    with m True False show ?thesis by (simp add: removed_triples_def)
  next
    case False
    then show ?thesis using m by (auto simp: removed_triples_def)
  qed
qed

lemma merge_all_shows:
  assumes "slash_free owner" and "list_all slash_free owners" and "owner \<in> set owners"
    and "\<And>w n k. (w, n, k) \<in> set (group_triples (groups_at acc owner repo)) \<Longrightarrow> k = REMOVED_KIND \<or> is_live r owner repo w n"
  shows "set (group_triples (groups_at (mergeRemovedPairs r owners acc ps) owner repo)) =
    set (group_triples (groups_at acc owner repo)) \<union> set (removed_triples r ps owner repo)"
  using assms(4)
proof (induction ps arbitrary: acc)
  case (Cons p ps)
  have one: "set (group_triples (groups_at (merge_pair r owners acc p) owner repo)) =
      set (group_triples (groups_at acc owner repo)) \<union> set (removed_triples r [p] owner repo)"
    by (rule merge_pair_shows [OF assms(1-3)]) (rule Cons.prems)
  have inv: "k = REMOVED_KIND \<or> is_live r owner repo w n"
    if "(w, n, k) \<in> set (group_triples (groups_at (merge_pair r owners acc p) owner repo))" for w n k
    using that Cons.prems [of w n k] one by (auto simp: removed_triples_def split: if_splits)
  have "set (group_triples (groups_at (mergeRemovedPairs r owners (merge_pair r owners acc p) ps) owner repo)) =
      set (group_triples (groups_at (merge_pair r owners acc p) owner repo)) \<union> set (removed_triples r ps owner repo)"
    by (rule Cons.IH) (rule inv)
  moreover have "set (removed_triples r (p # ps) owner repo) = set (removed_triples r [p] owner repo) \<union> set (removed_triples r ps owner repo)"
    by (auto simp: removed_triples_def)
  ultimately show ?case by (simp add: mergeRemovedPairs_def one Un_assoc)
qed (simp add: mergeRemovedPairs_def removed_triples_def)

text \<open>The live part of the tree.\<close>

lemma reg_list_unregistered:
  assumes "distinct (keys (ownerStates r))" and "repo \<notin> set (reg_repos r owner)"
  shows "reg_list r owner repo = []"
proof -
  have "repo \<noteq> p" if "(owner, repos) \<in> set (ownerStates r)" "(p, st) \<in> set repos" for repos p st
  proof -
    have "map_get (ownerStates r) owner = Some repos" using assms(1) that(1) by (simp add: map_of_is_SomeI)
    then have "repo \<notin> set (keys repos)" using assms(2) by (simp add: reg_repos_def)
    then show ?thesis using that(2) by force
  qed
  then show ?thesis by (auto simp: reg_list_def collectEntries_def concat_eq_Nil_conv)
qed

lemma repo_fold_get:
  "map_get (foldl (\<lambda>m repo. map_set (pairKey owner repo) (f repo) m) m repos) (pairKey o1 repo) =
    (if owner = o1 \<and> repo \<in> set repos then Some (f repo) else map_get m (pairKey o1 repo))" if "slash_free owner" "slash_free o1"
  using that by (induction repos arbitrary: m) (auto simp: pairKey_inj)

lemma add_owners_groups:
  assumes "distinct (keys (ownerStates r))" and "slash_free owner" and "list_all slash_free owners"
    and "groups_at acc owner repo \<in> {[], map live_group (reg_list r owner repo)}"
  shows "groups_at (foldl (add_owner r) acc owners) owner repo =
    (if owner \<in> set owners then map live_group (reg_list r owner repo) else groups_at acc owner repo)"
  using assms(3,4)
proof (induction owners arbitrary: acc)
  case (Cons o1 os)
  let ?g = "map live_group (reg_list r owner repo)"
  have "groups_at (add_owner r acc o1) owner repo =
      (if o1 = owner \<and> repo \<in> set (reg_repos r owner) then ?g else groups_at acc owner repo)"
    using Cons.prems(1) assms(2) by (auto simp: add_owner_def groups_at_def Let_def repo_fold_get)
  then have step: "groups_at (add_owner r acc o1) owner repo = (if o1 = owner then ?g else groups_at acc owner repo)"
    using Cons.prems(2) reg_list_unregistered [OF assms(1), of repo owner] by auto
  with Cons.IH [of "add_owner r acc o1"] Cons.prems show ?case by auto
qed simp



text \<open>The tree links to the pages of its owners only, and to every trigger it shows.\<close>

definition link_of :: "string \<Rightarrow> string \<Rightarrow> page_link \<Rightarrow> bool" where
  "link_of surface owner l \<longleftrightarrow> pl_href l = surface @ ''/'' @ owner \<or> (\<exists>rest. pl_href l = surface @ ''/'' @ owner @ ''/'' @ rest)"

lemma link_below: "pl_href l = surface @ ''/'' @ owner @ ''/'' @ rest \<Longrightarrow> link_of surface owner l"
  unfolding link_of_def by blast

lemma leaf_link: "link_of surface owner (TriggerLeaf surface cur owner repo workflow t)"
  by (rule link_below) (simp add: TriggerLeaf_def Let_def)

lemma workflow_links: "list_all (link_of surface owner) (WorkflowNode surface cur owner repo g)"
proof -
  have "list_all (link_of surface owner) (map (TriggerLeaf surface cur owner repo w) ts)" for w ts
    using leaf_link by (induction ts) simp_all
  moreover have "link_of surface owner (hd (WorkflowNode surface cur owner repo g))"
    by (rule link_below [where rest = "repo @ ''/'' @ wg_workflow g"]) (simp add: WorkflowNode_def Let_def)
  moreover have "\<exists>l ls. WorkflowNode surface cur owner repo g = l # ls \<and> (ls = [] \<or> ls = map (TriggerLeaf surface cur owner repo (wg_workflow g)) (wg_triggers g))"
    by (simp add: WorkflowNode_def Let_def)
  ultimately show ?thesis by (metis list.pred_inject(1,2) list.sel(1))
qed

lemma repo_links: "list_all (link_of surface owner) (RepoNode surface cur owner repo gs)"
proof -
  have "list_all (link_of surface owner) (concat (map (WorkflowNode surface cur owner repo) gs))"
    using workflow_links by (induction gs) simp_all
  moreover have "link_of surface owner \<lparr>pl_class = c, pl_href = surface @ ''/'' @ owner @ ''/'' @ repo, pl_title = None\<rparr>" for c
    by (rule link_below) simp
  ultimately show ?thesis by (simp add: RepoNode_def Let_def)
qed

lemma owner_links: "list_all (link_of surface owner) (OwnerNode surface cur owner repos groups)"
proof -
  have "list_all (link_of surface owner) (concat (map (\<lambda>repo. RepoNode surface cur owner repo (f repo)) repos))" for f
    using repo_links by (induction repos) simp_all
  moreover have "link_of surface owner \<lparr>pl_class = c, pl_href = surface @ ''/'' @ owner, pl_title = None\<rparr>" for c
    by (simp add: link_of_def)
  ultimately show ?thesis by (simp add: OwnerNode_def Let_def)
qed

lemma tree_links:
  "l \<in> set (SidebarTree surface (buildSidebarData collation r owners pairs) cur) \<Longrightarrow> \<exists>owner \<in> set owners. link_of surface owner l"
  using owner_links by (fastforce simp: SidebarTree_def buildSidebarData_def Let_def list_all_iff)

end
