(* ===== verification/Dashboard.thy ===== *)
theory Dashboard
  imports Sidebar SqlPlugin
begin

text \<open>
  The signed-in pages (\<open>packages/runtime/src/ui\<close>): the list of invocations with its flame graph
  and event fragments (\<open>invocations/middleware.tsx\<close>), the trigger cards and the manual fire
  (\<open>trigger/middleware.tsx\<close>) and the queue inspector (\<open>queue/middleware.tsx\<close>).

  A request is its path, cut at the slashes below the surface; \<open>user\<close> is the one the session
  middleware put on the request. A reply is what is handed to the renderer, not the markup.
  \<open>JSON.parse\<close> (with \<open>None\<close> for a throw), the collation of \<open>localeCompare\<close>, Zod and
  \<open>executor.invoke\<close> are fields of \<open>ui_env\<close>.
\<close>

record ui_env =
  un_parse :: "string \<Rightarrow> json option"
  un_collation :: "string \<Rightarrow> nat list"
  un_schemas :: schemas
  un_invoke :: "invoke_call \<Rightarrow> invoke_result"
  un_limit :: nat
  un_id :: string
  un_at :: string

section \<open>Rows of the list\<close>

record invocation_row =
  iv_id :: string
  iv_owner :: string
  iv_repo :: string
  iv_workflow :: string
  iv_trigger :: string
  iv_status :: string
  iv_startedAt :: string
  iv_completedAt :: "string option"
  iv_startedTs :: int
  iv_completedTs :: "int option"
  iv_triggerKind :: string
  iv_removed :: bool
  iv_syntheticKind :: "string option"
  iv_dispatch :: "(string \<times> (string \<times> string option) option) option" \<comment> \<open>source, login and mail\<close>
  iv_rejectionSummary :: "string option"
  iv_setupFailureMessage :: "string option"
  iv_exhaustion :: "(string \<times> int option \<times> int option) option"

definition DEFAULT_LIMIT :: nat where "DEFAULT_LIMIT = 500"

definition statusFromTerminal :: "string option \<Rightarrow> string" where
  "statusFromTerminal kind =
     (if kind = Some ''trigger.response'' then ''succeeded''
      else if kind = Some ''trigger.error'' then ''failed''
      else ''pending'')"

definition userOwners :: "user_context option \<Rightarrow> string list" where
  "userOwners user = (case user of Some u \<Rightarrow> sort (ownerSet u) | None \<Rightarrow> [])"

definition lookupTriggerKind :: "('b, 'y) registry \<Rightarrow> string \<Rightarrow> string \<Rightarrow> string \<Rightarrow> string \<Rightarrow> string option" where
  "lookupTriggerKind r owner repo workflow trigger =
     (case find (\<lambda>e. wm_name (we_workflow e) = workflow) (reg_list r owner repo) of
        None \<Rightarrow> None
      | Some e \<Rightarrow> map_option td_kind (find (\<lambda>t. td_name t = trigger) (we_triggers e)))"

definition parseJsonField :: "ui_env \<Rightarrow> string option \<Rightarrow> json option" where
  "parseJsonField env field =
     (case field of
        None \<Rightarrow> None
      | Some text \<Rightarrow> (case un_parse env text of Some j \<Rightarrow> Some j | None \<Rightarrow> Some (JStr text)))"

definition nonempty_text :: "json option \<Rightarrow> string option" where
  \<comment> \<open>a string that is truthy\<close>
  "nonempty_text v = (case v of Some (JStr (c # cs)) \<Rightarrow> Some (c # cs) | _ \<Rightarrow> None)"

definition extractDispatch :: "ui_env \<Rightarrow> string option \<Rightarrow> (string \<times> (string \<times> string option) option) option" where
  "extractDispatch env rawMeta =
     (let d = prop_of (parseJsonField env rawMeta) ''dispatch''
      in case prop_of d ''source'' of
           Some (JStr source) \<Rightarrow>
             if source \<in> {''manual'', ''trigger'', ''upload''}
             then Some (source, map_option (\<lambda>login. (login, nonempty_text (prop_of (prop_of d ''user'') ''mail'')))
               (nonempty_text (prop_of (prop_of d ''user'') ''login'')))
             else None
         | _ \<Rightarrow> None)"

definition extractTriggerName :: "ui_env \<Rightarrow> string option \<Rightarrow> string option" where
  "extractTriggerName env rawInput =
     (case prop_of (parseJsonField env rawInput) ''trigger'' of Some (JStr t) \<Rightarrow> Some t | _ \<Rightarrow> None)"

fun js_text :: "json \<Rightarrow> string" where
  \<comment> \<open>\<open>String(v)\<close>\<close>
  "js_text (JStr s) = s"
| "js_text (JNum n) = show_int n"
| "js_text (JBool b) = (if b then ''true'' else ''false'')"
| "js_text JNull = ''null''"
| "js_text (JArr vs) = js_join '','' (map (\<lambda>v. if v = JNull then [] else js_text v) vs)"
| "js_text (JObj fs) = ''[object Object]''"

definition summarizeIssues :: "ui_env \<Rightarrow> string option \<Rightarrow> string option" where
  "summarizeIssues env rawInput =
     (case prop_of (parseJsonField env rawInput) ''issues'' of
        Some (JArr (first # _)) \<Rightarrow>
          (if (case first of JObj _ \<Rightarrow> False | JArr _ \<Rightarrow> False | _ \<Rightarrow> True) then None
           else
             let pathStr = (case prop_of (Some first) ''path'' of Some (JArr ps) \<Rightarrow> js_join ''.'' (map js_text ps) | _ \<Rightarrow> [])
             in case prop_of (Some first) ''message'' of
                  Some (JStr message) \<Rightarrow> Some (if pathStr \<noteq> [] then pathStr @ '': '' @ message else message)
                | _ \<Rightarrow> if pathStr \<noteq> [] then Some pathStr else None)
      | _ \<Rightarrow> None)"

definition buildUploadRow :: "ui_env \<Rightarrow> events_row \<Rightarrow> invocation_row" where
  "buildUploadRow env x =
     \<lparr>iv_id = r_id x, iv_owner = r_owner x, iv_repo = r_repo x, iv_workflow = r_workflow x, iv_trigger = ''upload'',
      iv_status = ''uploaded'', iv_startedAt = r_at x, iv_completedAt = Some (r_at x), iv_startedTs = r_ts x,
      iv_completedTs = Some (r_ts x), iv_triggerKind = ''upload'', iv_removed = False, iv_syntheticKind = Some ''system.upload'',
      iv_dispatch = extractDispatch env (r_meta x), iv_rejectionSummary = None, iv_setupFailureMessage = None, iv_exhaustion = None\<rparr>"

definition composeSetupFailureMessage :: "ui_env \<Rightarrow> events_row \<Rightarrow> string" where
  "composeSetupFailureMessage env x =
     (let stage = (case nonempty_text (prop_of (parseJsonField env (r_input x)) ''stage'') of Some s \<Rightarrow> '' ('' @ s @ '')'' | None \<Rightarrow> []);
          message = (case nonempty_text (prop_of (parseJsonField env (r_error x)) ''message'') of Some s \<Rightarrow> '': '' @ s | None \<Rightarrow> [])
      in r_name x @ stage @ message)"

definition truthy_text :: "string option \<Rightarrow> string option" where
  \<comment> \<open>\<open>...(s ? { s } : {})\<close>\<close>
  "truthy_text s = (case s of Some (c # cs) \<Rightarrow> Some (c # cs) | _ \<Rightarrow> None)"

definition buildSyntheticTriggerRow :: "ui_env \<Rightarrow> ('b, 'y) registry \<Rightarrow> events_row \<Rightarrow> string \<Rightarrow> invocation_row" where
  "buildSyntheticTriggerRow env r x trigger =
     (let kind = lookupTriggerKind r (r_owner x) (r_repo x) (r_workflow x) trigger;
          syntheticKind = (if r_kind x = ''trigger.rejection'' then ''trigger.rejection'' else ''trigger.exception'')
      in \<lparr>iv_id = r_id x, iv_owner = r_owner x, iv_repo = r_repo x, iv_workflow = r_workflow x, iv_trigger = trigger,
          iv_status = ''failed'', iv_startedAt = r_at x, iv_completedAt = Some (r_at x), iv_startedTs = r_ts x,
          iv_completedTs = Some (r_ts x), iv_triggerKind = (case kind of Some k \<Rightarrow> k | None \<Rightarrow> REMOVED_KIND),
          iv_removed = (kind = None), iv_syntheticKind = Some syntheticKind, iv_dispatch = None,
          iv_rejectionSummary = (if syntheticKind = ''trigger.rejection'' then truthy_text (summarizeIssues env (r_input x)) else None),
          iv_setupFailureMessage =
            (if syntheticKind = ''trigger.exception'' then truthy_text (Some (composeSetupFailureMessage env x)) else None),
          iv_exhaustion = None\<rparr>)"

type_synonym narrow = "(string \<times> string option) option" \<comment> \<open>a workflow, and a trigger of it\<close>

definition found_rows :: "event_store \<Rightarrow> (string \<times> string) list \<Rightarrow> events_row list" where
  "found_rows st scopes = (case query st scopes of Inl _ \<Rightarrow> [] | Inr found \<Rightarrow> found)"

definition newest :: "nat \<Rightarrow> events_row list \<Rightarrow> events_row list" where
  \<comment> \<open>\<open>ORDER BY at DESC, id DESC LIMIT n\<close>\<close>
  "newest limit found = take limit (rev (sort_key r_at (sort_key r_id found)))"

definition synthetic_row :: "ui_env \<Rightarrow> ('b, 'y) registry \<Rightarrow> narrow \<Rightarrow> events_row \<Rightarrow> invocation_row option" where
  "synthetic_row env r narrow x =
     (if r_kind x = ''system.upload''
      then (if Option.bind narrow snd \<noteq> None then None else Some (buildUploadRow env x))
      else (case extractTriggerName env (r_input x) of
              None \<Rightarrow> None
            | Some trigger \<Rightarrow>
                (case Option.bind narrow snd of
                   Some t \<Rightarrow> if trigger \<noteq> t then None else Some (buildSyntheticTriggerRow env r x trigger)
                 | None \<Rightarrow> Some (buildSyntheticTriggerRow env r x trigger))))"

definition in_workflow_of :: "narrow \<Rightarrow> events_row \<Rightarrow> bool" where
  "in_workflow_of narrow x = (case narrow of Some (w, _) \<Rightarrow> r_workflow x = w | None \<Rightarrow> True)"

definition fetchSyntheticRows ::
  "ui_env \<Rightarrow> event_store \<Rightarrow> ('b, 'y) registry \<Rightarrow> (string \<times> string) list \<Rightarrow> narrow \<Rightarrow> invocation_row list" where
  "fetchSyntheticRows env st r scopes narrow =
     List.map_filter (synthetic_row env r narrow)
       (newest (un_limit env) (filter (\<lambda>x. r_kind x \<in> {''trigger.exception'', ''trigger.rejection'', ''system.upload''} \<and>
          in_workflow_of narrow x) (found_rows st scopes)))"

definition parseExhaustionInput :: "ui_env \<Rightarrow> string option \<Rightarrow> int option \<times> int option" where
  "parseExhaustionInput env raw =
     (let num = (\<lambda>k. case prop_of (parseJsonField env raw) k of Some (JNum n) \<Rightarrow> Some n | _ \<Rightarrow> None)
      in (num ''budget'', num ''observed''))"

definition attachExhaustion ::
  "ui_env \<Rightarrow> event_store \<Rightarrow> (string \<times> string) list \<Rightarrow> invocation_row list \<Rightarrow> invocation_row list" where
  "attachExhaustion env st scopes ivs =
     (let failedIds = map iv_id (filter (\<lambda>v. iv_status v = ''failed'') ivs);
          exhRows = filter (\<lambda>x. r_kind x = ''system.exhaustion'' \<and> r_id x \<in> set failedIds) (found_rows st scopes);
          byId = foldl (\<lambda>m x. map_set (r_id x) x m) [] exhRows
      in map (\<lambda>v. case map_get byId (iv_id v) of
                    None \<Rightarrow> v
                  | Some x \<Rightarrow> v\<lparr>iv_exhaustion := Some (r_name x, parseExhaustionInput env (r_input x))\<rparr>) ivs)"

definition handler_row :: "ui_env \<Rightarrow> ('b, 'y) registry \<Rightarrow> (string, events_row) jsmap \<Rightarrow> events_row \<Rightarrow> invocation_row" where
  "handler_row env r terminalById x =
     (let t = map_get terminalById (r_id x);
          kind = lookupTriggerKind r (r_owner x) (r_repo x) (r_workflow x) (r_name x)
      in \<lparr>iv_id = r_id x, iv_owner = r_owner x, iv_repo = r_repo x, iv_workflow = r_workflow x, iv_trigger = r_name x,
          iv_status = statusFromTerminal (map_option r_kind t), iv_startedAt = r_at x, iv_completedAt = map_option r_at t,
          iv_startedTs = r_ts x, iv_completedTs = map_option r_ts t,
          iv_triggerKind = (case kind of Some k \<Rightarrow> k | None \<Rightarrow> REMOVED_KIND), iv_removed = (kind = None), iv_syntheticKind = None,
          iv_dispatch = extractDispatch env (r_meta x), iv_rejectionSummary = None, iv_setupFailureMessage = None,
          iv_exhaustion = None\<rparr>)"

definition request_rows :: "ui_env \<Rightarrow> event_store \<Rightarrow> (string \<times> string) list \<Rightarrow> narrow \<Rightarrow> events_row list" where
  "request_rows env st scopes narrow =
     newest (un_limit env) (filter (\<lambda>x. r_kind x = ''trigger.request'' \<and> in_workflow_of narrow x \<and>
       (case Option.bind narrow snd of Some t \<Rightarrow> r_name x = t | None \<Rightarrow> True)) (found_rows st scopes))"

definition terminal_rows :: "event_store \<Rightarrow> (string \<times> string) list \<Rightarrow> string list \<Rightarrow> (string, events_row) jsmap" where
  "terminal_rows st scopes ids =
     foldl (\<lambda>m x. map_set (r_id x) x m) []
       (filter (\<lambda>x. r_kind x \<in> {''trigger.response'', ''trigger.error''} \<and> r_id x \<in> set ids) (found_rows st scopes))"

definition fetchInvocationRowsForScopes ::
  "ui_env \<Rightarrow> event_store \<Rightarrow> ('b, 'y) registry \<Rightarrow> (string \<times> string) list \<Rightarrow> narrow \<Rightarrow> invocation_row list" where
  "fetchInvocationRowsForScopes env st r scopes narrow =
     (if scopes = [] then []
      else
        let requests = request_rows env st scopes narrow;
            terminals = terminal_rows st scopes (map r_id requests)
        in attachExhaustion env st scopes (map (handler_row env r terminals) requests @ fetchSyntheticRows env st r scopes narrow))"

section \<open>Events of one invocation\<close>

record ui_event =
  ue_kind :: string
  ue_id :: string
  ue_owner :: string
  ue_repo :: string
  ue_seq :: nat
  ue_ref :: "nat option"
  ue_at :: string
  ue_ts :: int
  ue_workflow :: string
  ue_workflowSha :: string
  ue_name :: string
  ue_input :: "json option"
  ue_output :: "json option"
  ue_error :: "json option"
  ue_meta :: "json option"

definition rowToEvent :: "ui_env \<Rightarrow> events_row \<Rightarrow> ui_event" where
  "rowToEvent env x =
     \<lparr>ue_kind = r_kind x, ue_id = r_id x, ue_owner = r_owner x, ue_repo = r_repo x, ue_seq = r_seq x, ue_ref = r_ref x,
      ue_at = r_at x, ue_ts = r_ts x, ue_workflow = r_workflow x, ue_workflowSha = r_workflowSha x, ue_name = r_name x,
      ue_input = parseJsonField env (r_input x), ue_output = parseJsonField env (r_output x),
      ue_error = parseJsonField env (r_error x), ue_meta = parseJsonField env (r_meta x)\<rparr>"

definition fetchInvocationEvents :: "ui_env \<Rightarrow> event_store \<Rightarrow> string \<Rightarrow> string \<Rightarrow> string \<Rightarrow> ui_event list" where
  "fetchInvocationEvents env st i owner repo =
     map (rowToEvent env) (sort_key r_seq (filter (\<lambda>x. r_id x = i) (found_rows st [(owner, repo)])))"

definition isSyntheticLeaf :: "ui_event list \<Rightarrow> bool" where
  "isSyntheticLeaf es =
     (case es of [e] \<Rightarrow> ue_kind e \<in> {''trigger.exception'', ''trigger.rejection'', ''system.upload''} | _ \<Rightarrow> False)"

definition isInspectableLeaf :: "ui_event list \<Rightarrow> bool" where
  "isInspectableLeaf es = (case es of [e] \<Rightarrow> ue_kind e \<in> {''trigger.rejection'', ''system.upload''} | _ \<Rightarrow> False)"

section \<open>Queues\<close>

definition ITEMS_PAGE_SIZE :: nat where "ITEMS_PAGE_SIZE = 50"

record queue_card =
  qc_ref :: queue_scope
  qc_count :: nat
  qc_title :: string
  qc_itemsUrl :: string

definition queueRefsFromEntry :: "workflow_entry \<Rightarrow> queue_scope list" where
  "queueRefsFromEntry e =
     map (\<lambda>qm. \<lparr>q_owner = we_owner e, q_repo = we_repo e, q_workflow = wm_name (we_workflow e), q_queue = qm_name qm\<rparr>)
       (wm_queues (we_workflow e))"

definition adaptiveTitle :: "queue_scope \<Rightarrow> active_state \<Rightarrow> string" where
  "adaptiveTitle ref scope =
     (if as_owner scope = None then q_owner ref @ ''/'' @ q_repo ref @ ''/'' @ q_workflow ref @ ''/'' @ q_queue ref
      else if as_repo scope = None then q_repo ref @ ''/'' @ q_workflow ref @ ''/'' @ q_queue ref
      else if as_workflow scope = None then q_workflow ref @ ''/'' @ q_queue ref
      else q_queue ref)"

definition itemsUrl :: "queue_scope \<Rightarrow> string" where
  "itemsUrl ref = ''/queue/'' @ q_owner ref @ ''/'' @ q_repo ref @ ''/'' @ q_workflow ref @ ''/'' @ q_queue ref @ ''/items''"

definition buildCardsForRefs :: "ui_env \<Rightarrow> queue_store \<Rightarrow> active_state \<Rightarrow> queue_scope list \<Rightarrow> queue_card list" where
  "buildCardsForRefs env qs scope refs =
     sort_key (un_collation env \<circ> qc_title)
       (map (\<lambda>ref. \<lparr>qc_ref = ref, qc_count = queue_count qs ref, qc_title = adaptiveTitle ref scope, qc_itemsUrl = itemsUrl ref\<rparr>) refs)"

definition entriesForOwner :: "('b, 'y) registry \<Rightarrow> string \<Rightarrow> workflow_entry list" where
  "entriesForOwner r owner = concat (map (reg_list r owner) (reg_repos r owner))"

definition entriesAcrossOwners :: "('b, 'y) registry \<Rightarrow> string list \<Rightarrow> workflow_entry list" where
  "entriesAcrossOwners r owners = concat (map (entriesForOwner r) owners)"

definition refsFromEntries :: "workflow_entry list \<Rightarrow> queue_scope list" where
  "refsFromEntries es = concat (map queueRefsFromEntry es)"

definition parseOffset :: "string option \<Rightarrow> nat" where
  "parseOffset raw =
     (case raw of
        None \<Rightarrow> 0
      | Some t \<Rightarrow> if t = [] then 0 else (case parseInt10 t of None \<Rightarrow> 0 | Some n \<Rightarrow> if n < 0 then 0 else nat n))"

section \<open>Manual fire\<close>

definition isEnvelope :: "json \<Rightarrow> bool" where
  "isEnvelope v =
     (case v of
        JObj fs \<Rightarrow> map_has fs ''headers'' \<and> list_all (\<lambda>k. k = ''body'' \<or> k = ''headers'') (keys fs)
      | _ \<Rightarrow> False)"

definition wrapInputForDescriptor ::
  "trigger_descriptor \<Rightarrow> json \<Rightarrow> string \<Rightarrow> string \<Rightarrow> string \<Rightarrow> string \<Rightarrow> json" where
  \<comment> \<open>a body that is \<open>undefined\<close> is a property left out\<close>
  "wrapInputForDescriptor d posted owner repo workflowName triggerName =
     (case td_config d of
        HttpTrigger method b h resp \<Rightarrow>
          (let body = (if isEnvelope posted then prop_of (Some posted) ''body'' else Some posted);
               headers = (if isEnvelope posted
                          then (case prop_of (Some posted) ''headers'' of
                                  Some (JObj hs) \<Rightarrow> JObj hs | Some (JArr hs) \<Rightarrow> JArr hs | _ \<Rightarrow> JObj [])
                          else JObj [])
           in JObj ((case body of Some x \<Rightarrow> [(''body'', x)] | None \<Rightarrow> []) @
                [(''headers'', headers),
                 (''url'', JStr (''/webhooks/'' @ owner @ ''/'' @ repo @ ''/'' @ workflowName @ ''/'' @ triggerName)),
                 (''method'', JStr method)]))
      | WsTrigger req resp \<Rightarrow> JObj [(''data'', posted)]
      | _ \<Rightarrow> posted)"

definition buildDispatch :: "user_context option \<Rightarrow> dispatch_meta" where
  "buildDispatch user =
     (case user of
        Some u \<Rightarrow> \<lparr>dm_source = ''manual'', dm_user = Some (uc_login u, uc_mail u)\<rparr>
      | None \<Rightarrow> \<lparr>dm_source = ''manual'', dm_user = None\<rparr>)"

datatype fire_reply =
    FiredOk json
  | FireInvalidJson
  | FireRejected "(path_seg list \<times> string) list"
  | FireError string "string option"
  | FireThrew string

definition fireTrigger ::
  "ui_env \<Rightarrow> event_store \<Rightarrow> trigger_entry \<Rightarrow> json \<Rightarrow> dispatch_meta \<Rightarrow> fire_reply \<times> invoke_call list \<times> event_store" where
  "fireTrigger env st entry input disp =
     (case buildFire (un_schemas env) (un_invoke env) entry input (Some disp) of
        (FireOk out, calls) \<Rightarrow> (FiredOk out, calls, st)
      | (FireFailed message stack None, calls) \<Rightarrow> (FireError message stack, calls, st)
      | (FireFailed message stack (Some issues), calls) \<Rightarrow>
          (case buildException entry st (un_id env) (un_at env)
             \<lparr>xp_kind = Some ''trigger.rejection'', xp_name = ''manual.input-validation'', xp_error = None,
              xp_input = Some [(''issues'', issues_json issues)], xp_details = None\<rparr> of
             Inl err \<Rightarrow> (FireThrew err, calls, st)
           | Inr st' \<Rightarrow> (FireRejected (toWireIssues issues), calls, st')))"

section \<open>Pages\<close>

datatype ui_reply =
    UiNotFound
  | InvocationsPage "invocation_row list" "page_link list" "page_link list"
  | FlamegraphFragment "ui_event list" "string option"
  | EventDetail ui_event
  | TriggerPage "workflow_entry list" "page_link list" "page_link list"
  | SingleTriggerPage string string string string "workflow_entry list" "page_link list" "page_link list"
  | FireReply fire_reply
  | QueuePage "queue_card list" "page_link list" "page_link list"
  | QueueItems queue_scope "queue_row list" nat nat

definition owner_guard :: "string list \<Rightarrow> user_context option \<Rightarrow> bool" where
  \<comment> \<open>the four \<open>app.use(..., requireOwnerMember())\<close> of every surface\<close>
  "owner_guard segs user =
     (case segs of
        [] \<Rightarrow> True
      | [owner] \<Rightarrow> requireOwnerMember (Some owner) None user
      | owner # repo # _ \<Rightarrow> requireOwnerMember (Some owner) None user \<and> requireOwnerMember (Some owner) (Some repo) user)"

definition seg_at :: "string list \<Rightarrow> nat \<Rightarrow> string option" where
  "seg_at segs i = (if i < length segs then Some (segs ! i) else None)"

definition scope_of :: "string list \<Rightarrow> active_state" where
  "scope_of segs = \<lparr>as_owner = seg_at segs 0, as_repo = seg_at segs 1, as_workflow = seg_at segs 2, as_trigger = seg_at segs 3\<rparr>"

definition page_path :: "string list \<Rightarrow> string" where
  "page_path segs = (if segs = [] then [] else ''/'' @ js_join ''/'' segs)"

definition workflowSegmentMissing :: "event_store \<Rightarrow> ('b, 'y) registry \<Rightarrow> active_state \<Rightarrow> bool" where
  "workflowSegmentMissing st r f =
     (case (as_owner f, as_repo f, as_workflow f) of
        (Some owner, Some repo, Some workflow) \<Rightarrow>
          if list_ex (\<lambda>e. wm_name (we_workflow e) = workflow) (reg_list r owner repo) then False
          else \<not> workflowHistoryExists st owner repo workflow
      | _ \<Rightarrow> False)"

definition isScopeRemoved :: "('b, 'y) registry \<Rightarrow> active_state \<Rightarrow> bool" where
  "isScopeRemoved r f =
     (case (as_owner f, as_repo f, as_workflow f) of
        (Some owner, Some repo, Some workflow) \<Rightarrow>
          (case find (\<lambda>e. wm_name (we_workflow e) = workflow) (reg_list r owner repo) of
             None \<Rightarrow> True
           | Some e \<Rightarrow> (case as_trigger f of Some t \<Rightarrow> \<not> list_ex (\<lambda>d. td_name d = t) (we_triggers e) | None \<Rightarrow> False))
      | _ \<Rightarrow> False)"

definition buildSidebarTree ::
  "ui_env \<Rightarrow> event_store \<Rightarrow> ('b, 'y) registry \<Rightarrow> user_context option \<Rightarrow> active_state \<Rightarrow> page_link list" where
  "buildSidebarTree env st r user cur =
     (let globalScopes = resolveQueryScopes user r \<lparr>sc_owner = None, sc_repo = None\<rparr>
      in SidebarTree ''/invocations''
           (buildSidebarData (un_collation env) r (userOwners user) (if globalScopes = [] then [] else queryTriggerPairs st globalScopes)) cur)"

definition renderListFiltered ::
  "ui_env \<Rightarrow> event_store \<Rightarrow> ('b, 'y) registry \<Rightarrow> user_context option \<Rightarrow> string list \<Rightarrow> ui_reply" where
  "renderListFiltered env st r user segs =
     (let f = scope_of segs
      in if workflowSegmentMissing st r f then UiNotFound
         else
           let scopes = resolveQueryScopes user r \<lparr>sc_owner = as_owner f, sc_repo = as_repo f\<rparr>;
               narrow = map_option (\<lambda>w. (w, as_trigger f)) (as_workflow f)
           in InvocationsPage (fetchInvocationRowsForScopes env st r scopes narrow) (buildSidebarTree env st r user f)
                (Tabs ''/invocations'' (page_path segs) f (isScopeRemoved r f)))"

definition flamegraphFragment :: "ui_env \<Rightarrow> event_store \<Rightarrow> ('b, 'y) registry \<Rightarrow> string \<Rightarrow> string \<Rightarrow> string \<Rightarrow> ui_reply" where
  "flamegraphFragment env st r owner repo i =
     (let es = fetchInvocationEvents env st i owner repo
      in if es = [] \<or> isSyntheticLeaf es then UiNotFound
         else FlamegraphFragment es
           (case find (\<lambda>e. ue_kind e = ''trigger.request'') es of
              None \<Rightarrow> None
            | Some e \<Rightarrow> lookupTriggerKind r (ue_owner e) (ue_repo e) (ue_workflow e) (ue_name e)))"

definition eventFragment :: "ui_env \<Rightarrow> event_store \<Rightarrow> string \<Rightarrow> string \<Rightarrow> string \<Rightarrow> ui_reply" where
  "eventFragment env st owner repo i =
     (case fetchInvocationEvents env st i owner repo of
        [] \<Rightarrow> UiNotFound
      | leaf # rest \<Rightarrow> if isInspectableLeaf (leaf # rest) then EventDetail leaf else UiNotFound)"

definition invocationsMiddleware ::
  "ui_env \<Rightarrow> event_store \<Rightarrow> ('b, 'y) registry \<Rightarrow> user_context option \<Rightarrow> string list \<Rightarrow> ui_reply" where
  "invocationsMiddleware env st r user segs =
     (if \<not> owner_guard segs user then UiNotFound
      else case segs of
        [owner, repo, x, t] \<Rightarrow>
          if t = ''flamegraph'' then flamegraphFragment env st r owner repo x
          else if t = ''event'' then eventFragment env st owner repo x
          else renderListFiltered env st r user segs
      | _ \<Rightarrow> if length segs \<le> 3 then renderListFiltered env st r user segs else UiNotFound)"

definition page_entries :: "('b, 'y) registry \<Rightarrow> user_context option \<Rightarrow> string list \<Rightarrow> workflow_entry list" where
  \<comment> \<open>the entries of the scope the path names\<close>
  "page_entries r user segs =
     (case segs of
        [] \<Rightarrow> entriesAcrossOwners r (userOwners user)
      | [owner] \<Rightarrow> entriesForOwner r owner
      | [owner, repo] \<Rightarrow> reg_list r owner repo
      | owner # repo # workflow # _ \<Rightarrow> filter (\<lambda>e. wm_name (we_workflow e) = workflow) (reg_list r owner repo))"

definition plainSidebar :: "ui_env \<Rightarrow> ('b, 'y) registry \<Rightarrow> string \<Rightarrow> user_context option \<Rightarrow> active_state \<Rightarrow> page_link list" where
  \<comment> \<open>\<open>buildSidebar\<close> of the trigger and the queue pages\<close>
  "plainSidebar env r surface user cur = SidebarTree surface (buildSidebarData (un_collation env) r (userOwners user) []) cur"

definition triggerGet :: "ui_env \<Rightarrow> ('b, 'y) registry \<Rightarrow> user_context option \<Rightarrow> string list \<Rightarrow> ui_reply" where
  "triggerGet env r user segs =
     (let cur = scope_of segs; side = plainSidebar env r ''/trigger'' user cur; tabs = Tabs ''/trigger'' (page_path segs) cur False
      in if \<not> owner_guard segs user then UiNotFound
         else case segs of
           [owner, repo, workflow, trigger] \<Rightarrow> SingleTriggerPage owner repo workflow trigger (reg_list r owner repo) side tabs
         | _ \<Rightarrow>
             if length segs > 3 \<or> length segs = 3 \<and> page_entries r user segs = [] then UiNotFound
             else TriggerPage (page_entries r user segs) side tabs)"

definition triggerPost ::
  "ui_env \<Rightarrow> event_store \<Rightarrow> ('b, 'y) registry \<Rightarrow> user_context option \<Rightarrow> string list \<Rightarrow> string + json \<Rightarrow>
   ui_reply \<times> invoke_call list \<times> event_store" where
  "triggerPost env st r user segs body =
     (if \<not> owner_guard segs user then (UiNotFound, [], st)
      else case segs of
        [owner, repo, workflowName, triggerName] \<Rightarrow>
          (case reg_getEntry r owner repo workflowName triggerName of
             None \<Rightarrow> (UiNotFound, [], st)
           | Some entry \<Rightarrow>
               (case body of
                  Inl _ \<Rightarrow> (FireReply FireInvalidJson, [], st)
                | Inr posted \<Rightarrow>
                    (case fireTrigger env st entry
                       (wrapInputForDescriptor (te_descriptor entry) posted owner repo workflowName triggerName) (buildDispatch user) of
                       (reply, calls, st') \<Rightarrow> (FireReply reply, calls, st'))))
      | _ \<Rightarrow> (UiNotFound, [], st))"

definition queueItems :: "('b, 'y) registry \<Rightarrow> string \<Rightarrow> string \<Rightarrow> string \<Rightarrow> string \<Rightarrow> string option \<Rightarrow> ui_reply" where
  "queueItems r owner repo workflow queue offsetParam =
     (case find (\<lambda>e. wm_name (we_workflow e) = workflow) (reg_list r owner repo) of
        None \<Rightarrow> UiNotFound
      | Some e \<Rightarrow>
          if \<not> list_ex (\<lambda>qm. qm_name qm = queue) (wm_queues (we_workflow e)) then UiNotFound
          else
            let offset = parseOffset offsetParam;
                scope = \<lparr>q_owner = owner, q_repo = repo, q_workflow = workflow, q_queue = queue\<rparr>
            in QueueItems scope (list_items (reg_queue r) scope offset ITEMS_PAGE_SIZE) offset (queue_count (reg_queue r) scope))"

definition queueMiddleware ::
  "ui_env \<Rightarrow> ('b, 'y) registry \<Rightarrow> user_context option \<Rightarrow> string list \<Rightarrow> string option \<Rightarrow> ui_reply" where
  "queueMiddleware env r user segs offsetParam =
     (let cur = scope_of segs
      in if \<not> owner_guard segs user then UiNotFound
         else case segs of
           [owner, repo, workflow, queue, t] \<Rightarrow> if t = ''items'' then queueItems r owner repo workflow queue offsetParam else UiNotFound
         | _ \<Rightarrow>
             if length segs > 3 \<or> length segs = 3 \<and> page_entries r user segs = [] then UiNotFound
             else QueuePage (buildCardsForRefs env (reg_queue r) cur (refsFromEntries (page_entries r user segs)))
               (plainSidebar env r ''/queue'' user cur) (Tabs ''/queue'' (page_path segs) cur False))"

section \<open>Confinement\<close>

datatype ui_request =
    GetInvocations "string list"
  | GetTrigger "string list"
  | PostTrigger "string list" "string + json"
  | GetQueue "string list" "string option"

fun path_of :: "ui_request \<Rightarrow> string list" where
  "path_of (GetInvocations segs) = segs"
| "path_of (GetTrigger segs) = segs"
| "path_of (PostTrigger segs body) = segs"
| "path_of (GetQueue segs offset) = segs"

fun serve_page ::
  "ui_env \<Rightarrow> event_store \<Rightarrow> ('b, 'y) registry \<Rightarrow> user_context option \<Rightarrow> ui_request \<Rightarrow> ui_reply \<times> invoke_call list \<times> event_store" where
  "serve_page env st r user (GetInvocations segs) = (invocationsMiddleware env st r user segs, [], st)"
| "serve_page env st r user (GetTrigger segs) = (triggerGet env r user segs, [], st)"
| "serve_page env st r user (PostTrigger segs body) = triggerPost env st r user segs body"
| "serve_page env st r user (GetQueue segs offset) = (queueMiddleware env r user segs offset, [], st)"

lemma ownerSet_members: "owner \<in> set (ownerSet user) \<longleftrightarrow> owner \<in> set (uc_orgs user) \<and> validateOwner owner"
proof -
  have "owner \<in> set (foldl (\<lambda>s org. if validateOwner org then set_add org s else s) acc orgs) \<longleftrightarrow>
      owner \<in> set acc \<or> owner \<in> set orgs \<and> validateOwner owner" for acc orgs
    by (induction orgs arbitrary: acc) (auto simp: set_add_def)
  then show ?thesis by (simp add: ownerSet_def)
qed

lemma isMember_ownerSet: "isMember user owner \<longleftrightarrow> owner \<in> set (ownerSet user)"
  by (auto simp: isMember_def ownerSet_members validateOwner_def)

definition links_to_members :: "user_context \<Rightarrow> string \<Rightarrow> page_link list \<Rightarrow> bool" where
  "links_to_members u surface ls \<longleftrightarrow> list_all (\<lambda>l. \<exists>owner. isMember u owner \<and> link_of surface owner l) ls"

fun reply_within :: "user_context \<Rightarrow> ui_reply \<Rightarrow> bool" where
  \<comment> \<open>everything on the page belongs to owners the user is a member of\<close>
  "reply_within u UiNotFound = True"
| "reply_within u (InvocationsPage ivs side tabs) = (list_all (\<lambda>v. isMember u (iv_owner v)) ivs \<and> links_to_members u ''/invocations'' side)"
| "reply_within u (FlamegraphFragment es k) = list_all (\<lambda>e. isMember u (ue_owner e)) es"
| "reply_within u (EventDetail e) = isMember u (ue_owner e)"
| "reply_within u (TriggerPage es side tabs) = (list_all (\<lambda>e. isMember u (we_owner e)) es \<and> links_to_members u ''/trigger'' side)"
| "reply_within u (SingleTriggerPage owner repo w t es side tabs) =
     (isMember u owner \<and> list_all (\<lambda>e. isMember u (we_owner e)) es \<and> links_to_members u ''/trigger'' side)"
| "reply_within u (FireReply rep) = True"
| "reply_within u (QueuePage cards side tabs) = (list_all (\<lambda>c. isMember u (q_owner (qc_ref c))) cards \<and> links_to_members u ''/queue'' side)"
| "reply_within u (QueueItems scope items offset n) =
     (isMember u (q_owner scope) \<and> list_all (\<lambda>x. isMember u (q_owner (row_scope x))) items)"

lemma owner_guard_member: "owner_guard (owner # rest) (Some u) \<Longrightarrow> isMember u owner"
  by (cases rest) (auto simp: owner_guard_def requireOwnerMember_def Let_def split: if_splits)

lemma tree_within: "links_to_members u surface (SidebarTree surface (buildSidebarData c r (userOwners (Some u)) pairs) cur)"
  unfolding links_to_members_def list_all_iff
  using tree_links [of _ surface c r "userOwners (Some u)" pairs cur] by (fastforce simp: userOwners_def isMember_ownerSet)

lemma found_within: "x \<in> set (found_rows st scopes) \<Longrightarrow> (r_owner x, r_repo x) \<in> set scopes"
  by (auto simp: found_rows_def query_def list_ex_iff split: sum.splits if_splits)

lemma scopes_within: "(owner, repo) \<in> set (resolveQueryScopes (Some u) r c) \<Longrightarrow> isMember u owner"
  by (auto simp: resolveQueryScopes_def isMember_ownerSet Let_def split: if_splits)

lemma newest_subset: "x \<in> set (newest n found) \<Longrightarrow> x \<in> set found"
  by (auto simp: newest_def dest: in_set_takeD)

lemma attach_owners: "map iv_owner (attachExhaustion env st scopes ivs) = map iv_owner ivs"
  by (auto simp: attachExhaustion_def Let_def split: option.split)

lemma synthetic_owner: "synthetic_row env r narrow x = Some v \<Longrightarrow> iv_owner v = r_owner x"
  by (auto simp: synthetic_row_def buildUploadRow_def buildSyntheticTriggerRow_def Let_def split: if_splits option.splits)

lemma handler_owner: "iv_owner (handler_row env r ts x) = r_owner x"
  by (simp add: handler_row_def Let_def)

lemma synthetic_within:
  assumes "v \<in> set (fetchSyntheticRows env st r scopes narrow)"
  shows "\<exists>x \<in> set (found_rows st scopes). iv_owner v = r_owner x"
proof -
  obtain x where "synthetic_row env r narrow x = Some v" "x \<in> set (found_rows st scopes)"
    using assms by (auto simp: fetchSyntheticRows_def List.map_filter_def dest!: newest_subset)
  with synthetic_owner show ?thesis by blast
qed

lemma rows_within:
  assumes "v \<in> set (fetchInvocationRowsForScopes env st r scopes narrow)"
  shows "\<exists>repo. (iv_owner v, repo) \<in> set scopes"
proof (cases "scopes = []")
  case True
  with assms show ?thesis by (simp add: fetchInvocationRowsForScopes_def)
next
  case False
  let ?reqs = "request_rows env st scopes narrow"
  have "iv_owner v \<in> set (map iv_owner (fetchInvocationRowsForScopes env st r scopes narrow))" using assms by simp
  also have "set (map iv_owner (fetchInvocationRowsForScopes env st r scopes narrow)) =
      iv_owner ` set (map (handler_row env r (terminal_rows st scopes (map r_id ?reqs))) ?reqs @ fetchSyntheticRows env st r scopes narrow)"
    using False by (simp add: fetchInvocationRowsForScopes_def Let_def attach_owners image_Un image_image)
  finally obtain x where "x \<in> set (found_rows st scopes)" "iv_owner v = r_owner x"
    by (auto simp: handler_owner request_rows_def dest!: newest_subset synthetic_within)
  with found_within show ?thesis by metis
qed

lemma reg_list_owner: "e \<in> set (reg_list r owner repo) \<Longrightarrow> we_owner e = owner"
  using collectEntries_owner [of owner repo r] by (simp add: reg_list_def list_all_iff)

lemma entries_within: "e \<in> set (page_entries r (Some u) segs) \<Longrightarrow> owner_guard segs (Some u) \<Longrightarrow> isMember u (we_owner e)"
proof (cases segs)
  case Nil
  assume "e \<in> set (page_entries r (Some u) segs)"
  then obtain owner where "owner \<in> set (ownerSet u)" "we_owner e = owner"
    by (auto simp: Nil page_entries_def entriesAcrossOwners_def entriesForOwner_def userOwners_def dest: reg_list_owner)
  then show ?thesis by (simp add: isMember_ownerSet)
next
  case (Cons owner rest)
  assume e: "e \<in> set (page_entries r (Some u) segs)" and "owner_guard segs (Some u)"
  then have "isMember u owner" using owner_guard_member Cons by blast
  moreover have "we_owner e = owner"
    using e by (auto simp: Cons page_entries_def entriesForOwner_def dest: reg_list_owner split: list.splits)
  ultimately show ?thesis by simp
qed

lemma events_within: "e \<in> set (fetchInvocationEvents env st i owner repo) \<Longrightarrow> ue_owner e = owner"
  by (auto simp: fetchInvocationEvents_def rowToEvent_def dest: found_within)

lemma list_within: "reply_within u (renderListFiltered env st r (Some u) segs)"
proof -
  have "isMember u (iv_owner v)"
    if "v \<in> set (fetchInvocationRowsForScopes env st r (resolveQueryScopes (Some u) r c) narrow)" for v c narrow
    using rows_within [OF that] scopes_within by blast
  then show ?thesis
    by (simp add: renderListFiltered_def Let_def list_all_iff buildSidebarTree_def tree_within)
qed

lemma invocations_within: "reply_within u (invocationsMiddleware env st r (Some u) segs)"
proof (cases "owner_guard segs (Some u)")
  case True
  have "reply_within u (flamegraphFragment env st r owner repo i)" "reply_within u (eventFragment env st owner repo i)"
    if "isMember u owner" for owner repo i
    using that events_within
    by (auto simp: flamegraphFragment_def eventFragment_def Let_def list_all_iff split: list.splits) (metis list.set_intros(1))
  with True owner_guard_member show ?thesis
    by (auto simp: invocationsMiddleware_def list_within split: list.splits)
qed (simp add: invocationsMiddleware_def)

lemma trigger_within: "reply_within u (triggerGet env r (Some u) segs)"
proof (cases "owner_guard segs (Some u)")
  case True
  have "reply_within u (SingleTriggerPage owner repo w t (reg_list r owner repo) (plainSidebar env r ''/trigger'' (Some u) cur) tabs)"
    if "isMember u owner" for owner repo w t cur tabs
    using that by (auto simp: list_all_iff plainSidebar_def tree_within dest: reg_list_owner)
  moreover have "reply_within u (TriggerPage (page_entries r (Some u) segs) (plainSidebar env r ''/trigger'' (Some u) cur) tabs)" for cur tabs
    using entries_within [OF _ True] by (auto simp: list_all_iff plainSidebar_def tree_within)
  ultimately show ?thesis using True owner_guard_member by (auto simp: triggerGet_def Let_def split: list.splits)
qed (simp add: triggerGet_def Let_def)

lemma queue_within: "reply_within u (queueMiddleware env r (Some u) segs off)"
proof (cases "owner_guard segs (Some u)")
  case True
  have "reply_within u (queueItems r owner repo w q1 off)" if "isMember u owner" for owner repo w q1
    using that by (auto simp: queueItems_def Let_def list_all_iff list_items_def same_queue_def same_workflow_def split: option.splits dest!: in_set_takeD in_set_dropD)
  moreover have "reply_within u (QueuePage (buildCardsForRefs env qs cur (refsFromEntries (page_entries r (Some u) segs)))
      (plainSidebar env r ''/queue'' (Some u) cur) tabs)" for qs cur tabs
    using entries_within [OF _ True]
    by (auto simp: list_all_iff plainSidebar_def tree_within buildCardsForRefs_def refsFromEntries_def queueRefsFromEntry_def)
  ultimately show ?thesis using True owner_guard_member by (auto simp: queueMiddleware_def Let_def split: list.splits)
qed (simp add: queueMiddleware_def Let_def)

text \<open>Entries fire as the owner they are installed under; every registration keeps it so.\<close>

definition registry_bound :: "('b, 'y) registry \<Rightarrow> bool" where
  "registry_bound r \<longleftrightarrow> (\<forall>owner repo st. getRepoState r owner repo = Some st \<longrightarrow> bound_to owner repo st)"

lemma created_bound: "registry_bound (createWorkflowRegistry backends qs storage)"
  by (simp add: registry_bound_def getRepoState_def createWorkflowRegistry_def)

lemma register_bound: "registry_bound r \<Longrightarrow> registry_bound (fst (registerOwner env r owner repo files tar))"
proof (cases rule: registerOwner_cases [of env r owner repo files tar])
  case (registered st r2)
  assume "registry_bound r"
  moreover have "getRepoState r2 = getRepoState r" using registered(2) by (simp add: getRepoState_def fun_eq_iff)
  ultimately show ?thesis using registered(4) prepare_bound [OF registered(1)] by (auto simp: registry_bound_def get_setRepoState)
qed (auto simp: registry_bound_def getRepoState_def)

lemma getEntry_owner:
  assumes "registry_bound r" and "reg_getEntry r owner repo w t = Some entry"
  shows "rq_owner (te_request entry) = owner"
proof -
  obtain st where st: "getRepoState r owner repo = Some st" "map_get (ors_entries st) (triggerKey w t) = Some entry"
    using assms(2) by (auto simp: reg_getEntry_def bind_eq_Some_conv)
  then have "entry \<in> set (vals (ors_entries st))" by (force dest: map_of_SomeD)
  with assms(1) st(1) show ?thesis by (auto simp: registry_bound_def bound_to_def list_all_iff)
qed

definition fired_by :: "user_context \<Rightarrow> invoke_call \<Rightarrow> bool" where
  "fired_by u c \<longleftrightarrow> isMember u (rq_owner (ic_request c)) \<and>
     rq_dispatch (ic_request c) = Some \<lparr>dm_source = ''manual'', dm_user = Some (uc_login u, uc_mail u)\<rparr>"

lemma fire_calls:
  assumes "fireTrigger env st entry input disp = (reply, calls, st')"
  shows "list_all (\<lambda>c. rq_owner (ic_request c) = rq_owner (te_request entry) \<and> rq_dispatch (ic_request c) = Some disp) calls"
  using assms
  by (auto simp: fireTrigger_def buildFire_def Let_def split: sum.splits fire_result.splits option.splits invoke_result.splits)

lemma fire_events:
  assumes "fireTrigger env st entry input disp = (reply, calls, st')"
  shows "\<exists>new. accepted st' = accepted st @ new \<and> list_all (\<lambda>e. ie_owner e = rq_owner (te_request entry)) new"
proof -
  have "st' = st \<or> (\<exists>params. buildException entry st (un_id env) (un_at env) params = Inr st')"
    using assms by (auto simp: fireTrigger_def split: prod.splits fire_result.splits option.splits sum.splits)
  then show ?thesis
  proof
    assume "st' = st"
    then show ?thesis by (intro exI [of _ "[]"]) simp
  next
    assume "\<exists>params. buildException entry st (un_id env) (un_at env) params = Inr st'"
    then obtain params where "st' = record_event st (exception_event (un_id env) (un_at env) (te_request entry)
        (td_name (te_descriptor entry)) params)"
      by (auto simp: buildException_def emitTriggerException_def Let_def split: if_splits)
    then show ?thesis by (auto simp: record_accepts exception_event_def Let_def)
  qed
qed

lemma post_within:
  assumes "registry_bound r" and "triggerPost env st r (Some u) segs body = (reply, calls, st')"
  shows "reply_within u reply \<and> list_all (fired_by u) calls \<and>
    (\<exists>new. accepted st' = accepted st @ new \<and> list_all (\<lambda>e. isMember u (ie_owner e)) new)"
proof -
  have idle: "\<exists>new. accepted st = accepted st @ new \<and> list_all (\<lambda>e. isMember u (ie_owner e)) new" by (intro exI [of _ "[]"]) simp
  show ?thesis
  proof (cases "\<exists>owner repo w t entry posted. segs = [owner, repo, w, t] \<and> owner_guard segs (Some u) \<and>
      reg_getEntry r owner repo w t = Some entry \<and> body = Inr posted")
    case False
    then have "reply_within u reply" "calls = []" "st' = st"
      using assms(2) by (auto simp: triggerPost_def split: if_splits list.splits option.splits sum.splits)
    then show ?thesis using idle by simp
  next
    case True
    then obtain owner repo w t entry posted where g: "segs = [owner, repo, w, t]" "owner_guard segs (Some u)"
      "reg_getEntry r owner repo w t = Some entry" "body = Inr posted" by blast
    then obtain rep where f: "fireTrigger env st entry (wrapInputForDescriptor (te_descriptor entry) posted owner repo w t)
        (buildDispatch (Some u)) = (rep, calls, st')" and "reply = FireReply rep"
      using assms(2) by (auto simp: triggerPost_def split: prod.splits)
    moreover have "isMember u (rq_owner (te_request entry))"
      using getEntry_owner [OF assms(1) g(3)] owner_guard_member g(1,2) by blast
    ultimately show ?thesis
      using fire_calls [OF f] fire_events [OF f] by (auto simp: fired_by_def buildDispatch_def list_all_iff)
  qed
qed


definition sample_user :: user_context where
  "sample_user = \<lparr>uc_login = ''ada'', uc_mail = ''ada@acme.org'', uc_orgs = [''acme'']\<rparr>"

definition sample_ui :: ui_env where
  "sample_ui =
     \<lparr>un_parse = (\<lambda>t. Some (JObj [(''trigger'', JStr t)])), un_collation = map of_char,
      un_schemas = \<lparr>zodInput = (\<lambda>_. Inr), zodOutput = (\<lambda>_. Inr)\<rparr>, un_invoke = (\<lambda>_. InvokeOk JNull), un_limit = 1, un_id = ''i1'',
      un_at = ''2024''\<rparr>"


section \<open>Details of the list\<close>

text \<open>An event read back from its row is the event that was stored.\<close>

lemma event_read_back:
  assumes "\<And>j. un_parse env (js j) = Some j"
  shows "rowToEvent env (eventToRow js e) =
    \<lparr>ue_kind = ie_kind e, ue_id = ie_id e, ue_owner = ie_owner e, ue_repo = ie_repo e, ue_seq = ie_seq e, ue_ref = ie_ref e,
     ue_at = ie_at e, ue_ts = ie_ts e, ue_workflow = ie_workflow e, ue_workflowSha = ie_workflowSha e, ue_name = ie_name e,
     ue_input = ie_input e, ue_output = ie_output e, ue_error = map_option error_json (ie_error e),
     ue_meta = map_option meta_json (ie_meta e)\<rparr>"
  using assms by (simp add: rowToEvent_def eventToRow_def parseJsonField_def split: option.split)

text \<open>The origin an invocation was stamped with is the one the list shows.\<close>

lemma dispatch_read_back:
  assumes "\<And>j. un_parse env (js j) = Some j" and "dm_source d \<in> {''manual'', ''trigger'', ''upload''}"
    and "case dm_user d of Some (login, mail) \<Rightarrow> login \<noteq> [] \<and> mail \<noteq> [] | None \<Rightarrow> True"
  shows "extractDispatch env (Some (js (meta_json d))) = Some (dm_source d, map_option (map_prod id Some) (dm_user d))"
  using assms by (auto simp: extractDispatch_def parseJsonField_def meta_json_def nonempty_text_def neq_Nil_conv split: option.splits)

text \<open>
  The last segment \<open>event\<close> (or \<open>flamegraph\<close>) is a fragment of the invocation named before it: the
  page of a trigger that has this name, which \<open>TRIGGER_NAME_RE\<close> allows, is never served.
\<close>

lemma trigger_named_event_unreachable:
  assumes "owner_guard [owner, repo, w, ''event''] user"
  shows "invocationsMiddleware env st r user [owner, repo, w, ''event''] = eventFragment env st owner repo w"
  using assms by (simp add: invocationsMiddleware_def)

text \<open>
  On the page of one trigger the limit cuts the failures of the whole workflow before those of
  the other triggers are left out: a trigger's failures disappear behind newer ones of another.
\<close>

definition sample_failure :: "string \<Rightarrow> string \<Rightarrow> string \<Rightarrow> events_row" where
  "sample_failure i at trigger =
     \<lparr>r_id = i, r_seq = 0, r_kind = ''trigger.exception'', r_ref = None, r_at = at, r_ts = 0, r_owner = ''acme'', r_repo = ''site'',
      r_workflow = ''w'', r_workflowSha = ''sha'', r_name = ''imap.poll-failed'', r_input = Some trigger, r_output = None,
      r_error = None, r_meta = None\<rparr>"

lemma older_failures_hidden:
  assumes "tbl st = [sample_failure ''i1'' ''1'' ''inbox'', sample_failure ''i2'' ''2'' ''archive'']"
  shows "fetchSyntheticRows sample_ui st r [(''acme'', ''site'')] (Some (''w'', Some ''inbox'')) = []"
  using assms
  by (simp add: fetchSyntheticRows_def found_rows_def query_def newest_def sample_failure_def in_workflow_of_def sample_ui_def
      List.map_filter_def synthetic_row_def extractTriggerName_def parseJsonField_def less_eq_char_def)

end
