(* ===== verification/Services.thy ===== *)
theory Services
  imports Dashboard
begin

text \<open>
  The server around the components (\<open>packages/runtime/src\<close>): the health probes (\<open>health.ts\<close>), the
  replies to unknown paths and to unhandled errors (\<open>services/content-negotiation.ts\<close>), the chain of
  middlewares with the security headers (\<open>services/server.ts\<close>, \<open>services/secure-headers.ts\<close>), the
  shutdown of the services (\<open>main.ts\<close>).

  A promise is when and how it settles, in milliseconds from its creation. A call of a function
  that returns a promise may throw instead; a rejected promise that nobody waits for ends the
  process, which \<open>timed\<close> reports in its second component. \<open>Number(...)\<close> of a query parameter is an
  integer or something else, with the text and the timer delay the engine gives it.
\<close>

section \<open>Health checks\<close>

datatype probe_number = JsInt int | JsOther string nat

datatype 'a promise_end = ResolvesAt nat 'a | RejectsAt nat string | NeverSettles

datatype 'a async_call = ThrowsNow string | ReturnsPromise "'a promise_end"

fun probe_number_text :: "probe_number \<Rightarrow> string" where
  "probe_number_text (JsInt n) = show_int n"
| "probe_number_text (JsOther s _) = s"

fun timer_delay :: "probe_number \<Rightarrow> nat" where
  \<comment> \<open>the delay \<open>setTimeout\<close> uses\<close>
  "timer_delay (JsInt n) = (if 1 \<le> n \<and> n \<le> 2147483647 then nat n else 1)"
| "timer_delay (JsOther _ d) = d"

definition timed :: "'a async_call \<Rightarrow> probe_number \<Rightarrow> (string + nat \<times> 'a) \<times> bool" where
  \<comment> \<open>the result, and whether the timeout's rejection is left unhandled\<close>
  "timed fn timeoutMs =
     (let timeout = Inl (''timeout after '' @ probe_number_text timeoutMs @ ''ms'')
      in case fn of
           ThrowsNow err \<Rightarrow> (Inl err, True)
         | ReturnsPromise (ResolvesAt t x) \<Rightarrow> (if t < timer_delay timeoutMs then Inr (t, x) else timeout, False)
         | ReturnsPromise (RejectsAt t err) \<Rightarrow> (if t < timer_delay timeoutMs then Inl err else timeout, False)
         | ReturnsPromise NeverSettles \<Rightarrow> (timeout, False))"

record check_result =
  cr_status :: string
  cr_componentType :: string
  cr_observedValue :: "nat option"
  cr_output :: "string option"

definition health_pass :: "string \<Rightarrow> nat \<Rightarrow> check_result" where
  "health_pass componentType durationMs =
     \<lparr>cr_status = ''pass'', cr_componentType = componentType, cr_observedValue = Some durationMs, cr_output = None\<rparr>"

definition health_fail :: "string \<Rightarrow> string \<Rightarrow> nat option \<Rightarrow> check_result" where
  "health_fail componentType msg durationMs =
     \<lparr>cr_status = ''fail'', cr_componentType = componentType, cr_observedValue = durationMs, cr_output = Some msg\<rparr>"

record probe_answer =
  pa_status :: int
  pa_json :: "string + json" \<comment> \<open>what \<open>res.json()\<close> rejects with or gives\<close>

record health_deps =
  hd_ping :: "unit promise_end" \<comment> \<open>\<open>eventStore.ping()\<close>\<close>
  hd_baseUrl :: "string option"
  hd_gitSha :: string
  hd_fetch :: "string \<Rightarrow> probe_answer promise_end"
  hd_rangeError :: "probe_number \<Rightarrow> string" \<comment> \<open>the message of \<open>AbortSignal.timeout\<close>'s RangeError\<close>
  hd_number :: "string \<Rightarrow> probe_number"

fun is_uint32 :: "probe_number \<Rightarrow> bool" where
  "is_uint32 (JsInt n) \<longleftrightarrow> 0 \<le> n \<and> n \<le> 4294967295"
| "is_uint32 (JsOther _ _) \<longleftrightarrow> False"

definition probe_fetch :: "health_deps \<Rightarrow> string \<Rightarrow> probe_number \<Rightarrow> probe_answer async_call" where
  \<comment> \<open>\<open>fetch(url, {signal: AbortSignal.timeout(timeoutMs)})\<close>: the signal is made first\<close>
  "probe_fetch deps url timeoutMs =
     (if is_uint32 timeoutMs then ReturnsPromise (hd_fetch deps url) else ThrowsNow (hd_rangeError deps timeoutMs))"

definition base_url :: "health_deps \<Rightarrow> string option" where
  \<comment> \<open>an empty URL is falsy\<close>
  "base_url deps = (case hd_baseUrl deps of Some u \<Rightarrow> if u = [] then None else Some u | None \<Rightarrow> None)"

definition checkEventstore :: "health_deps \<Rightarrow> probe_number \<Rightarrow> check_result \<times> bool" where
  "checkEventstore deps timeoutMs =
     (case timed (ReturnsPromise (hd_ping deps)) timeoutMs of
        (Inr (durationMs, _), unhandled) \<Rightarrow> (health_pass ''datastore'' durationMs, unhandled)
      | (Inl err, unhandled) \<Rightarrow> (health_fail ''datastore'' err None, unhandled))"

definition unexpected_status :: "int \<Rightarrow> string" where
  "unexpected_status n = ''unexpected status '' @ show_int n"

definition checkWebhooks :: "health_deps \<Rightarrow> probe_number \<Rightarrow> check_result \<times> bool" where
  "checkWebhooks deps timeoutMs =
     (case base_url deps of
        None \<Rightarrow> (health_fail ''component'' ''BASE_URL not configured'' None, False)
      | Some u \<Rightarrow>
          (case timed (probe_fetch deps (u @ ''/webhooks/'') timeoutMs) timeoutMs of
             (Inr (durationMs, res), unhandled) \<Rightarrow>
               (if pa_status res = 204 then health_pass ''component'' durationMs
                else health_fail ''component'' (unexpected_status (pa_status res)) (Some durationMs), unhandled)
           | (Inl err, unhandled) \<Rightarrow> (health_fail ''component'' err None, unhandled)))"

definition status_field :: "json \<Rightarrow> string + json option" where
  \<comment> \<open>\<open>body.status\<close>\<close>
  "status_field body =
     (case body of
        JNull \<Rightarrow> Inl ''Cannot read properties of null (reading 'status')''
      | JObj fs \<Rightarrow> Inr (map_of fs ''status'')
      | _ \<Rightarrow> Inr None)"

definition domain_answer :: "nat \<Rightarrow> probe_answer \<Rightarrow> check_result" where
  "domain_answer durationMs res =
     (if pa_status res \<noteq> 200 then health_fail ''system'' (unexpected_status (pa_status res)) (Some durationMs)
      else case and_then (pa_json res) status_field of
             Inl err \<Rightarrow> health_fail ''system'' err None
           | Inr field \<Rightarrow>
               if field \<noteq> Some (JStr ''pass'')
               then health_fail ''system''
                 (''unexpected response status \"'' @ (case field of Some v \<Rightarrow> js_text v | None \<Rightarrow> ''undefined'') @ ''\"'')
                 (Some durationMs)
               else health_pass ''system'' durationMs)"

definition checkDomain :: "health_deps \<Rightarrow> probe_number \<Rightarrow> check_result \<times> bool" where
  "checkDomain deps timeoutMs =
     (case base_url deps of
        None \<Rightarrow> (health_fail ''system'' ''BASE_URL not configured'' None, False)
      | Some u \<Rightarrow>
          (case timed (probe_fetch deps (u @ ''/healthz'') timeoutMs) timeoutMs of
             (Inr (durationMs, res), unhandled) \<Rightarrow> (domain_answer durationMs res, unhandled)
           | (Inl err, unhandled) \<Rightarrow> (health_fail ''system'' err None, unhandled)))"

definition CHECK_MAP :: "(string \<times> (health_deps \<Rightarrow> probe_number \<Rightarrow> check_result \<times> bool)) list" where
  "CHECK_MAP = [(''eventstore'', checkEventstore), (''domain'', checkDomain), (''webhooks'', checkWebhooks)]"

record health_response =
  hr_status :: string
  hr_checks :: "(string, check_result) jsmap option"
  hr_version :: "string option"

definition run_check ::
  "health_deps \<Rightarrow> probe_number \<Rightarrow> (string, check_result) jsmap \<times> bool \<times> bool \<Rightarrow> string \<Rightarrow> (string, check_result) jsmap \<times> bool \<times> bool" where
  \<comment> \<open>the checks so far, \<open>hasFail\<close>, and whether a rejection was left unhandled\<close>
  "run_check deps timeoutMs acc name =
     (case (map_of CHECK_MAP name, acc) of
        (None, _) \<Rightarrow> acc
      | (Some fn, (allChecks, hasFail, unhandled)) \<Rightarrow>
          (case fn deps timeoutMs of
             (r, u) \<Rightarrow> (map_set name r allChecks, hasFail \<or> cr_status r = ''fail'', unhandled \<or> u)))"

definition runChecks :: "health_deps \<Rightarrow> string list \<Rightarrow> probe_number \<Rightarrow> health_response \<times> bool" where
  "runChecks deps checkNames timeoutMs =
     (case foldl (run_check deps timeoutMs) ([], False, False) checkNames of
        (allChecks, hasFail, unhandled) \<Rightarrow>
          (\<lparr>hr_status = (if hasFail then ''fail'' else ''pass''), hr_checks = Some allChecks, hr_version = None\<rparr>, unhandled))"

definition DEFAULT_TIMEOUT_MS :: probe_number where "DEFAULT_TIMEOUT_MS = JsInt 5000"

definition plain_pass :: health_response where
  "plain_pass = \<lparr>hr_status = ''pass'', hr_checks = None, hr_version = None\<rparr>"

definition healthJson :: "health_response \<Rightarrow> int" where
  \<comment> \<open>the status code; the body is the response itself\<close>
  "healthJson response = (if hr_status response = ''pass'' then 200 else 503)"

definition healthMiddleware ::
  "health_deps \<Rightarrow> string \<Rightarrow> (string \<Rightarrow> string option) \<Rightarrow> ((int \<times> health_response) \<times> bool) option" where
  \<comment> \<open>\<open>None\<close>: \<open>next()\<close>\<close>
  "healthMiddleware deps path param =
     (if path = ''/livez'' then Some ((healthJson plain_pass, plain_pass), False)
      else if path = ''/healthz'' then
        let requestedChecks = filter (\<lambda>name. param name = Some ''true'') (map fst CHECK_MAP)
        in if requestedChecks = [] then Some ((healthJson plain_pass, plain_pass), False)
           else
             let timeoutMs = (case truthy_text (param ''timeout'') of Some s \<Rightarrow> hd_number deps s | None \<Rightarrow> DEFAULT_TIMEOUT_MS);
                 (response, unhandled) = runChecks deps requestedChecks timeoutMs
             in Some ((healthJson response, response), unhandled)
      else if path = ''/readyz'' then
        let (response, unhandled) = runChecks deps (map fst CHECK_MAP) DEFAULT_TIMEOUT_MS;
            response = response\<lparr>hr_version := Some (hd_gitSha deps)\<rparr>
        in Some ((healthJson response, response), unhandled)
      else None)"

lemmas health_outcomes = health_pass_def health_fail_def

lemma timed_unhandled: "snd (timed fn t) \<longleftrightarrow> (\<exists>err. fn = ThrowsNow err)"
  by (auto simp: timed_def Let_def split: async_call.split promise_end.split)

lemma snd_case: "snd (case p of (Inr (d, x), u) \<Rightarrow> (f d x, u) | (Inl e, u) \<Rightarrow> (g e, u)) = snd p"
  by (simp split: prod.split sum.split)

lemma check_unhandled:
  "snd (checkEventstore deps t) = False"
  "snd (checkDomain deps t) \<longleftrightarrow> base_url deps \<noteq> None \<and> \<not> is_uint32 t"
  "snd (checkWebhooks deps t) \<longleftrightarrow> base_url deps \<noteq> None \<and> \<not> is_uint32 t"
  unfolding checkEventstore_def checkDomain_def checkWebhooks_def
  by (simp_all add: snd_case timed_unhandled probe_fetch_def split: option.split)

lemma check_status:
  "cr_status (fst (checkEventstore deps t)) \<in> {''pass'', ''fail''}"
  "cr_status (fst (checkDomain deps t)) \<in> {''pass'', ''fail''}"
  "cr_status (fst (checkWebhooks deps t)) \<in> {''pass'', ''fail''}"
  by (auto simp: checkEventstore_def checkDomain_def checkWebhooks_def domain_answer_def health_outcomes
      split: option.split prod.split sum.split)

definition check_named :: "health_deps \<Rightarrow> probe_number \<Rightarrow> string \<Rightarrow> check_result \<times> bool" where
  "check_named deps t name = (the (map_of CHECK_MAP name)) deps t"

lemma check_names: "map fst CHECK_MAP = [''eventstore'', ''domain'', ''webhooks'']"
  by (simp add: CHECK_MAP_def)

lemma check_named_simps [simp]:
  "check_named deps t ''eventstore'' = checkEventstore deps t"
  "check_named deps t ''domain'' = checkDomain deps t"
  "check_named deps t ''webhooks'' = checkWebhooks deps t"
  by (simp_all add: check_named_def CHECK_MAP_def)

lemma named_status:
  assumes "n \<in> set (map fst CHECK_MAP)"
  shows "cr_status (fst (check_named deps t n)) \<in> {''pass'', ''fail''}"
proof -
  from assms consider "n = ''eventstore''" | "n = ''domain''" | "n = ''webhooks''"
    unfolding check_names list.set by blast
  then show ?thesis by cases (simp_all only: check_named_simps check_status)
qed

lemma checks_exact:
  assumes "set names \<subseteq> set (map fst CHECK_MAP)" and "distinct (keys acc @ names)"
  shows "foldl (run_check deps t) (acc, f, u) names =
    (acc @ map (\<lambda>n. (n, fst (check_named deps t n))) names,
     f \<or> list_ex (\<lambda>n. cr_status (fst (check_named deps t n)) = ''fail'') names,
     u \<or> list_ex (\<lambda>n. snd (check_named deps t n)) names)"
  using assms
proof (induction names arbitrary: acc f u)
  case (Cons n names)
  obtain fn where "map_of CHECK_MAP n = Some fn" using Cons.prems(1) by (auto simp: CHECK_MAP_def)
  then have step: "run_check deps t (acc, f, u) n =
      (acc @ [(n, fst (check_named deps t n))], f \<or> cr_status (fst (check_named deps t n)) = ''fail'',
       u \<or> snd (check_named deps t n))"
    using Cons.prems(2) by (simp add: run_check_def check_named_def map_set_fresh split: prod.split)
  have "distinct (keys (acc @ [(n, fst (check_named deps t n))]) @ names)" using Cons.prems(2) by auto
  with Cons.IH [OF _ this] Cons.prems(1) step show ?case by simp
qed simp

lemma runChecks_exact:
  assumes "set names \<subseteq> set (map fst CHECK_MAP)" and "distinct names"
  shows "runChecks deps names t =
    (\<lparr>hr_status = (if list_all (\<lambda>n. cr_status (fst (check_named deps t n)) = ''pass'') names then ''pass'' else ''fail''),
      hr_checks = Some (map (\<lambda>n. (n, fst (check_named deps t n))) names), hr_version = None\<rparr>,
     list_ex (\<lambda>n. snd (check_named deps t n)) names)"
proof -
  have "cr_status (fst (check_named deps t n)) = ''fail'' \<longleftrightarrow> cr_status (fst (check_named deps t n)) \<noteq> ''pass''"
    if "n \<in> set names" for n
    using named_status [of n deps t] that assms(1) by auto
  then have "list_ex (\<lambda>n. cr_status (fst (check_named deps t n)) = ''fail'') names \<longleftrightarrow>
      \<not> list_all (\<lambda>n. cr_status (fst (check_named deps t n)) = ''pass'') names"
    by (auto simp: list_ex_iff list_all_iff)
  then show ?thesis using checks_exact [OF assms(1), of "[]" deps t False False] assms(2) by (simp add: runChecks_def)
qed

definition probe_timeout :: "health_deps \<Rightarrow> (string \<Rightarrow> string option) \<Rightarrow> probe_number" where
  "probe_timeout deps param = (case truthy_text (param ''timeout'') of Some s \<Rightarrow> hd_number deps s | None \<Rightarrow> DEFAULT_TIMEOUT_MS)"

lemma names_checked: "list_ex (\<lambda>n. snd (check_named deps t n)) (filter P (map fst CHECK_MAP)) \<longleftrightarrow>
    (P ''domain'' \<or> P ''webhooks'') \<and> base_url deps \<noteq> None \<and> \<not> is_uint32 t"
  unfolding check_names by (auto simp: check_unhandled)


lemma healthz_answers: "\<exists>c r u. healthMiddleware deps ''/healthz'' param = Some ((c, r), u)"
proof -
  have "healthMiddleware deps ''/healthz'' param \<noteq> None"
    by (auto simp: healthMiddleware_def Let_def split: prod.split intro: exI [of _ False])
  then show ?thesis by (metis option.exhaust surj_pair)
qed

text \<open>A request that ends the process, from anyone: no session is asked for.\<close>

definition sample_health :: health_deps where
  "sample_health = \<lparr>hd_ping = ResolvesAt 3 (), hd_baseUrl = Some ''https://wfe.example'', hd_gitSha = ''abc'',
     hd_fetch = (\<lambda>_. NeverSettles), hd_rangeError = (\<lambda>_. ''out of range''), hd_number = (\<lambda>_. JsOther ''NaN'' 1)\<rparr>"

definition bad_timeout :: "string \<Rightarrow> string option" where
  "bad_timeout = map_of [(''domain'', ''true''), (''timeout'', ''abc'')]"

lemma healthz_bad_timeout_crashes:
  "healthMiddleware sample_health ''/healthz'' bad_timeout =
     Some ((503, \<lparr>hr_status = ''fail'', hr_checks = Some [(''domain'', health_fail ''system'' ''out of range'' None)], hr_version = None\<rparr>), True)"
  by code_simp


text \<open>
  The domain check does not recurse: the URL it asks for is \<open>/healthz\<close> without a query, to which the
  server answers \<open>pass\<close> without checking anything, and the check takes that answer for a success.
\<close>

lemma domain_check_grounded:
  assumes "healthMiddleware deps' ''/healthz'' (\<lambda>_. None) = Some ((code, response), unhandled)"
    and "pa_status res = code" and "pa_json res = Inr (JObj [(''status'', JStr (hr_status response))])"
  shows "domain_answer d res = health_pass ''system'' d"
  using assms by (auto simp: healthMiddleware_def domain_answer_def status_field_def healthJson_def plain_pass_def)

section \<open>Unknown paths and unhandled errors\<close>

record page_props =
  pp_user :: "string option"
  pp_email :: "string option"

record http_context =
  hc_method :: string
  hc_path :: string
  hc_accept :: "string option"
  hc_user :: "user_context option" \<comment> \<open>\<open>c.get("user")\<close>\<close>
  hc_session :: "string option" \<comment> \<open>the session cookie\<close>
  hc_bytes :: nat \<comment> \<open>the size of the request's body\<close>

definition acceptsHtml :: "http_context \<Rightarrow> bool" where
  "acceptsHtml c =
     (case truthy_text (hc_accept c) of
        None \<Rightarrow> False
      | Some header \<Rightarrow>
          list_ex (\<lambda>segment. toLowerCase (js_trim (hd (js_split CHR '';'' segment))) = ''text/html'') (js_split CHR '','' header))"

definition readUserBestEffort :: "seals \<Rightarrow> int \<Rightarrow> http_context \<Rightarrow> user_context option" where
  "readUserBestEffort sl now c =
     (case hc_user c of
        Some u \<Rightarrow> Some u
      | None \<Rightarrow>
          (case truthy_text (hc_session c) of
             None \<Rightarrow> None
           | Some raw \<Rightarrow>
               (case unsealSession sl raw of
                  None \<Rightarrow> None
                | Some payload \<Rightarrow> if isExpired payload now then None else Some (userFromPayload payload))))"

definition userPropsFromContext :: "seals \<Rightarrow> int \<Rightarrow> http_context \<Rightarrow> page_props" where
  "userPropsFromContext sl now c =
     (case readUserBestEffort sl now c of
        None \<Rightarrow> \<lparr>pp_user = None, pp_email = None\<rparr>
      | Some u \<Rightarrow> \<lparr>pp_user = truthy_text (Some (uc_login u)), pp_email = truthy_text (Some (uc_mail u))\<rparr>)"

datatype reply_body =
    JsonError string
  | NotFoundPage page_props
  | ErrorPage page_props
  | RedirectTo string
  | TextBody string
  | ComponentReply string \<comment> \<open>what a component's middleware answers\<close>

record app_reply =
  ar_status :: int
  ar_headers :: "(string \<times> string) list"
  ar_body :: reply_body

definition createNotFoundHandler :: "seals \<Rightarrow> int \<Rightarrow> http_context \<Rightarrow> (string \<times> string) list \<Rightarrow> app_reply" where
  "createNotFoundHandler sl now c hs =
     \<lparr>ar_status = 404, ar_headers = hs,
      ar_body = (if \<not> acceptsHtml c then JsonError ''Not Found'' else NotFoundPage (userPropsFromContext sl now c))\<rparr>"

definition createErrorHandler ::
  "seals \<Rightarrow> int \<Rightarrow> string \<Rightarrow> http_context \<Rightarrow> (string \<times> string) list \<Rightarrow> app_reply \<times> (string \<times> string \<times> string) list" where
  \<comment> \<open>the reply, and the log line with the error\<close>
  "createErrorHandler sl now err c hs =
     (\<lparr>ar_status = 500, ar_headers = hs,
       ar_body = (if \<not> acceptsHtml c then JsonError ''Internal Server Error'' else ErrorPage (userPropsFromContext sl now c))\<rparr>,
      [(err, hc_path c, hc_method c)])"

text \<open>What a client sees of an unhandled error does not depend on it.\<close>

lemma error_reply_opaque: "fst (createErrorHandler sl now err c hs) = fst (createErrorHandler sl now err' c hs)"
  by (simp add: createErrorHandler_def)

text \<open>
  Error pages name a user only on the word of the session middleware or of a sealed session
  that has not expired.
\<close>

lemma shown_user_authentic:
  assumes "pp_user (userPropsFromContext sl now c) = Some login"
  shows "\<exists>u. uc_login u = login \<and>
    (hc_user c = Some u \<or> (\<exists>raw p. hc_session c = Some raw \<and> unsealSession sl raw = Some p \<and> now < sp_exp p \<and> u = userFromPayload p))"
  using assms
  by (auto simp: userPropsFromContext_def readUserBestEffort_def truthy_text_def isExpired_def
      split: option.splits list.splits if_splits)

section \<open>Security headers\<close>

definition csp_word :: "string \<Rightarrow> string" where
  \<comment> \<open>a keyword of a policy stands in single quotes\<close>
  "csp_word s = CHR 39 # s @ [CHR 39]"

definition CSP_DIRECTIVES :: "(string \<times> string) list" where
  "CSP_DIRECTIVES =
     [(''default-src'', csp_word ''none''), (''script-src'', csp_word ''self''), (''style-src'', csp_word ''self''),
      (''img-src'', csp_word ''self'' @ '' data:''), (''connect-src'', csp_word ''self''), (''form-action'', csp_word ''self''),
      (''frame-ancestors'', csp_word ''none''), (''base-uri'', csp_word ''none'')]"

definition LOCAL_CSP_DIRECTIVES :: "(string \<times> string) list" where
  "LOCAL_CSP_DIRECTIVES =
     map (\<lambda>(name, v). if name = ''frame-ancestors'' then (name, csp_word ''self'' @ '' vscode-webview:'') else (name, v)) CSP_DIRECTIVES"

definition buildCsp :: "bool \<Rightarrow> string" where
  "buildCsp isLocal =
     js_join ''; '' (map (\<lambda>(name, v). name @ '' '' @ v) (if isLocal then LOCAL_CSP_DIRECTIVES else CSP_DIRECTIVES))"

definition PERMISSIONS_DISABLED_FEATURES :: "string list" where
  "PERMISSIONS_DISABLED_FEATURES =
     [''accelerometer'', ''ambient-light-sensor'', ''autoplay'', ''battery'', ''camera'', ''display-capture'',
      ''document-domain'', ''encrypted-media'', ''fullscreen'', ''geolocation'', ''gyroscope'', ''hid'', ''idle-detection'',
      ''magnetometer'', ''microphone'', ''midi'', ''payment'', ''picture-in-picture'', ''publickey-credentials-get'',
      ''screen-wake-lock'', ''serial'', ''usb'', ''web-share'', ''xr-spatial-tracking'', ''clipboard-read'']"

definition buildPermissionsPolicy :: string where
  "buildPermissionsPolicy =
     js_join '', '' (map (\<lambda>f. f @ ''=()'') PERMISSIONS_DISABLED_FEATURES @ [''clipboard-write=(self)''])"

definition HSTS_VALUE :: string where "HSTS_VALUE = ''max-age=31536000; includeSubDomains''"

definition secure_headers :: "bool \<Rightarrow> (string \<times> string) list" where
  \<comment> \<open>the \<open>c.header\<close> calls, in their order\<close>
  "secure_headers isLocal =
     [(''Content-Security-Policy'', buildCsp isLocal), (''X-Content-Type-Options'', ''nosniff'')] @
     (if \<not> isLocal then [(''X-Frame-Options'', ''DENY'')] else []) @
     [(''Referrer-Policy'', ''strict-origin-when-cross-origin''), (''Cross-Origin-Opener-Policy'', ''same-origin''),
      (''Cross-Origin-Resource-Policy'', ''same-origin''), (''Permissions-Policy'', buildPermissionsPolicy)] @
     (if \<not> isLocal then [(''Strict-Transport-Security'', HSTS_VALUE)] else [])"

section \<open>The chain of middlewares\<close>

text \<open>
  A handler gets the request and the headers set so far; it replies, passes on (\<open>next()\<close>) with the
  headers it has set, or throws. Which patterns match a path is the router's business.
\<close>

datatype handled = Replied app_reply | Passed "(string \<times> string) list" | Threw string

type_synonym mounted_handler = "string \<times> (http_context \<Rightarrow> (string \<times> string) list \<Rightarrow> handled)"

definition secureHeadersMiddleware :: "string option \<Rightarrow> mounted_handler" where
  "secureHeadersMiddleware localDeployment = (''*'', \<lambda>c hs. Passed (hs @ secure_headers (localDeployment = Some ''1'')))"

definition BODY_LIMIT_BYTES :: nat where "BODY_LIMIT_BYTES = 10485760"

definition body_limit :: mounted_handler where
  "body_limit =
     (''*'', \<lambda>c hs. if hc_bytes c > BODY_LIMIT_BYTES
                     then Replied \<lparr>ar_status = 413, ar_headers = hs, ar_body = JsonError ''payload_too_large''\<rparr> else Passed hs)"

definition get_route :: "string \<Rightarrow> (http_context \<Rightarrow> (string \<times> string) list \<Rightarrow> app_reply) \<Rightarrow> mounted_handler" where
  \<comment> \<open>\<open>app.get(path, ...)\<close>\<close>
  "get_route path f = (path, \<lambda>c hs. if hc_method c \<in> {''GET'', ''HEAD''} then Replied (f c hs) else Passed hs)"

definition mounted :: "mounted_handler \<Rightarrow> mounted_handler list" where
  \<comment> \<open>a pattern that ends in \<open>/*\<close> is mounted at its prefix too\<close>
  "mounted m =
     (case m of (pat, handler) \<Rightarrow>
        (pat, handler) #
        (if 2 \<le> length pat \<and> drop (length pat - 2) pat = ''/*'' then [(take (length pat - 2) pat, handler)] else []))"

definition createApp :: "string \<Rightarrow> mounted_handler list \<Rightarrow> mounted_handler list" where
  \<comment> \<open>\<open>llms\<close> is the text of \<open>/llms.txt\<close>\<close>
  "createApp llms middlewares =
     body_limit #
     get_route ''/'' (\<lambda>c hs. \<lparr>ar_status = 302, ar_headers = hs, ar_body = RedirectTo ''/invocations''\<rparr>) #
     concat (map mounted middlewares) @
     [get_route ''/llms.txt''
        (\<lambda>c hs. \<lparr>ar_status = 200, ar_headers = hs @ [(''Content-Type'', ''text/markdown; charset=utf-8'')], ar_body = TextBody llms\<rparr>)]"

fun serve_app ::
  "(string \<Rightarrow> string \<Rightarrow> bool) \<Rightarrow> seals \<Rightarrow> int \<Rightarrow> mounted_handler list \<Rightarrow> http_context \<Rightarrow> (string \<times> string) list \<Rightarrow> app_reply" where
  "serve_app matches sl now [] c hs = createNotFoundHandler sl now c hs"
| "serve_app matches sl now ((pat, handler) # ms) c hs =
     (if matches pat (hc_path c)
      then (case handler c hs of
              Replied r \<Rightarrow> r
            | Passed hs' \<Rightarrow> serve_app matches sl now ms c hs'
            | Threw err \<Rightarrow> fst (createErrorHandler sl now err c hs))
      else serve_app matches sl now ms c hs)"

definition keeps_headers :: "mounted_handler \<Rightarrow> bool" where
  \<comment> \<open>what is built with the context's methods carries the headers set so far\<close>
  "keeps_headers m \<longleftrightarrow>
     (\<forall>c hs. case snd m c hs of Replied r \<Rightarrow> set hs \<subseteq> set (ar_headers r) | Passed hs' \<Rightarrow> set hs \<subseteq> set hs' | Threw _ \<Rightarrow> True)"

lemma serve_keeps:
  "list_all keeps_headers ms \<Longrightarrow> set hs \<subseteq> set (ar_headers (serve_app matches sl now ms c hs))"
proof (induction matches sl now ms c hs rule: serve_app.induct)
  case (2 matches sl now pat handler ms c hs)
  from 2(3) have k: "case handler c hs of Replied r \<Rightarrow> set hs \<subseteq> set (ar_headers r) | Passed hs' \<Rightarrow> set hs \<subseteq> set hs' | Threw _ \<Rightarrow> True"
    by (simp add: keeps_headers_def)
  show ?case
  proof (cases "matches pat (hc_path c)")
    case True
    with k 2(1) [OF True] 2(3) show ?thesis
      by (cases "handler c hs") (auto simp: createErrorHandler_def dest: subsetD)
  next
    case False
    with 2(2) 2(3) show ?thesis by simp
  qed
qed (simp add: createNotFoundHandler_def)

lemma mounted_keeps: "list_all keeps_headers ms \<Longrightarrow> list_all keeps_headers (concat (map mounted ms))"
  by (induction ms) (auto simp: mounted_def keeps_headers_def split: prod.split)

text \<open>
  Security headers are on every reply but two: with \<open>secureHeadersMiddleware\<close> first among the
  middlewares, as \<open>main.ts\<close> has it, every reply carries them (those of components that build their
  replies with the context's methods), unless the body is over the limit or the request is a GET
  of the root.
\<close>

lemma headers_on_replies:
  assumes "list_all keeps_headers ms" and "\<And>p. matches ''*'' p"
    and "hc_bytes c \<le> BODY_LIMIT_BYTES" and "\<not> (matches ''/'' (hc_path c) \<and> hc_method c \<in> {''GET'', ''HEAD''})"
  shows "set (secure_headers (ld = Some ''1'')) \<subseteq>
    set (ar_headers (serve_app matches sl now (createApp llms (secureHeadersMiddleware ld # ms)) c []))"
proof -
  let ?rest = "concat (map mounted ms) @
     [get_route ''/llms.txt''
        (\<lambda>c hs. \<lparr>ar_status = 200, ar_headers = hs @ [(''Content-Type'', ''text/markdown; charset=utf-8'')], ar_body = TextBody llms\<rparr>)]"
  have "list_all keeps_headers ?rest" using mounted_keeps [OF assms(1)] by (auto simp: keeps_headers_def get_route_def)
  moreover have "serve_app matches sl now (createApp llms (secureHeadersMiddleware ld # ms)) c [] =
      serve_app matches sl now ?rest c (secure_headers (ld = Some ''1''))"
    using assms(2-4) by (auto simp: createApp_def body_limit_def get_route_def [of "''/''"] secureHeadersMiddleware_def mounted_def)
  ultimately show ?thesis using serve_keeps by metis
qed

text \<open>The redirect at the root and the reply to a body over the limit carry none of them.\<close>

lemma root_redirect_unprotected:
  assumes "\<And>p. matches ''*'' p" and "matches ''/'' ''/''" and "hc_path c = ''/''" and "hc_method c = ''GET''"
    and "hc_bytes c \<le> BODY_LIMIT_BYTES"
  shows "serve_app matches sl now (createApp llms ms) c [] = \<lparr>ar_status = 302, ar_headers = [], ar_body = RedirectTo ''/invocations''\<rparr>"
  using assms by (simp add: createApp_def body_limit_def get_route_def)

lemma oversized_reply_unprotected:
  assumes "\<And>p. matches ''*'' p" and "hc_bytes c > BODY_LIMIT_BYTES"
  shows "ar_headers (serve_app matches sl now (createApp llms ms) c []) = []"
  using assms by (simp add: createApp_def body_limit_def)

section \<open>Shutdown\<close>

text \<open>
  \<open>start\<close> of \<open>main.ts\<close>: signals and failed services ask for a shutdown, which stops every service
  and exits once all of them have settled. \<open>sm_stopping\<close> are the services whose \<open>stop()\<close> has not
  settled, \<open>sm_stops\<close> counts the calls of each, \<open>sm_due\<close> is the exit waiting in \<open>setImmediate\<close> and
  \<open>sm_exits\<close> are the calls of \<open>process.exit\<close>.
\<close>

record main_state =
  sm_shuttingDown :: "int option" \<comment> \<open>the code, once shutting down\<close>
  sm_stopping :: "nat list"
  sm_stops :: "nat list"
  sm_complete :: bool
  sm_due :: "int option"
  sm_exits :: "int list"

definition started :: main_state where
  "started = \<lparr>sm_shuttingDown = None, sm_stopping = [], sm_stops = [], sm_complete = False, sm_due = None, sm_exits = []\<rparr>"

definition all_stopped :: "main_state \<Rightarrow> main_state" where
  \<comment> \<open>after \<open>Promise.allSettled\<close>\<close>
  "all_stopped m =
     (case sm_shuttingDown m of
        Some code \<Rightarrow> if sm_stopping m = [] \<and> \<not> sm_complete m then m\<lparr>sm_complete := True, sm_due := Some code\<rparr> else m
      | None \<Rightarrow> m)"

definition shutdown :: "nat \<Rightarrow> int \<Rightarrow> main_state \<Rightarrow> main_state" where
  "shutdown services code m =
     (if sm_shuttingDown m \<noteq> None then m
      else m\<lparr>sm_shuttingDown := Some code, sm_stopping := [0..<services], sm_stops := sm_stops m @ [0..<services]\<rparr>)"

datatype main_event = Signalled | ServiceFailed | StopSettled nat | AllSettled | ImmediateRuns

fun main_step :: "nat \<Rightarrow> main_state \<Rightarrow> main_event \<Rightarrow> main_state" where
  "main_step services m Signalled = shutdown services 0 m"
| "main_step services m ServiceFailed = shutdown services 1 m"
| "main_step services m (StopSettled i) = m\<lparr>sm_stopping := remove1 i (sm_stopping m)\<rparr>"
| "main_step services m AllSettled = all_stopped m"
| "main_step services m ImmediateRuns =
     (case sm_due m of Some code \<Rightarrow> m\<lparr>sm_due := None, sm_exits := sm_exits m @ [code]\<rparr> | None \<Rightarrow> m)"

definition main_inv :: "nat \<Rightarrow> main_state \<Rightarrow> bool" where
  "main_inv services m \<longleftrightarrow>
     (case sm_shuttingDown m of
        None \<Rightarrow> m = started
      | Some code \<Rightarrow>
          sm_stops m = [0..<services] \<and>
          (if sm_complete m
           then sm_stopping m = [] \<and> (sm_due m = Some code \<and> sm_exits m = [] \<or> sm_due m = None \<and> sm_exits m = [code])
           else sm_due m = None \<and> sm_exits m = []))"

lemma main_step_inv: "main_inv services m \<Longrightarrow> main_inv services (main_step services m e)"
  by (cases e) (auto simp: main_inv_def shutdown_def all_stopped_def started_def split: option.splits if_splits)

lemma main_steps_inv: "main_inv services (foldl (main_step services) started es)"
proof -
  have "main_inv services m \<Longrightarrow> main_inv services (foldl (main_step services) m es)" for m
    by (induction es arbitrary: m) (simp_all add: main_step_inv)
  then show ?thesis by (simp add: main_inv_def started_def)
qed

text \<open>
  However many signals arrive and services fail, every service is stopped at most once, the process
  exits at most once, after all services have settled, and with the code of the first request.
\<close>

lemma shutdown_once:
  assumes "m = foldl (main_step services) started es"
  shows "sm_stops m \<in> {[], [0..<services]} \<and> length (sm_exits m) \<le> 1 \<and>
    (sm_exits m \<noteq> [] \<longrightarrow> sm_stopping m = [] \<and> sm_shuttingDown m = Some (hd (sm_exits m)))"
  using main_steps_inv [of services es]
  by (auto simp: main_inv_def assms started_def split: option.splits if_splits)

text \<open>
  \<open>stop\<close> of the sandbox service: the trigger backends, the sandboxes, the event store, the queue
  store and the database client, in this order. A step that throws ends the sequence; the
  backends are stopped with \<open>Promise.allSettled\<close>, which does not.
\<close>

datatype stop_step = StopBackends | DisposeSandboxes | DrainEvents | CloseQueues | CloseClient

fun stop_from :: "(stop_step \<Rightarrow> bool) \<Rightarrow> stop_step list \<Rightarrow> stop_step list" where
  \<comment> \<open>the steps begun, when \<open>throws\<close> tells which of them throw\<close>
  "stop_from throws [] = []"
| "stop_from throws (x # xs) = x # (if throws x then [] else stop_from throws xs)"

definition sandbox_service_stop :: "(stop_step \<Rightarrow> bool) \<Rightarrow> stop_step list" where
  "sandbox_service_stop throws =
     stop_from (\<lambda>x. x \<noteq> StopBackends \<and> throws x) [StopBackends, DisposeSandboxes, DrainEvents, CloseQueues, CloseClient]"

text \<open>The client is closed only after the events were drained and the queue store was closed.\<close>

lemma client_closed_last:
  assumes "CloseClient \<in> set (sandbox_service_stop throws)"
  shows "sandbox_service_stop throws = [StopBackends, DisposeSandboxes, DrainEvents, CloseQueues, CloseClient]"
  using assms by (auto simp: sandbox_service_stop_def split: if_splits)

end
