(* ===== verification/GuestPlatform.thy ===== *)
theory GuestPlatform
  imports Prelude
begin

text \<open>
  Parts of the web platform the guest is given
  (\<open>packages/sandbox-stdlib/src/web-platform/guest\<close>): \<open>reportError\<close> (\<open>report-error.ts\<close>), abort signals
  (\<open>event-target.ts\<close>) and user timing (\<open>user-timing.ts\<close>).

  A reported value is a primitive by its text or a reference into a heap of objects, whose
  causes may form a cycle. Reading a property may throw, as the property may be a getter.
\<close>

section \<open>Reporting errors\<close>

datatype gval = GPrim string | GRef nat \<comment> \<open>\<open>undefined\<close> and \<open>null\<close> are primitives\<close>

datatype field_read = FieldThrows | FieldString string | FieldOther

record gobject =
  go_name :: field_read
  go_message :: field_read
  go_stack :: field_read
  go_cause :: "gval option option" \<comment> \<open>\<open>None\<close>: reading it throws; \<open>Some None\<close>: \<open>undefined\<close>\<close>
  go_text :: "string option" \<comment> \<open>\<open>String(value)\<close>, if it does not throw\<close>

datatype serialized = Serialized (ser_name: string) (ser_message: string) (ser_stack: "string option") (ser_cause: "serialized option")

fun readField :: "field_read \<Rightarrow> string option" where
  "readField (FieldString s) = Some s"
| "readField _ = None"

definition readCause :: "gobject \<Rightarrow> gval option" where
  "readCause x = (case go_cause x of Some c \<Rightarrow> c | None \<Rightarrow> None)"

definition safeStringify :: "gobject \<Rightarrow> string" where
  "safeStringify x = (case go_text x of Some s \<Rightarrow> s | None \<Rightarrow> ''[unserializable value]'')"

definition or_default :: "'a \<Rightarrow> 'a option \<Rightarrow> 'a" where
  "or_default d x = (case x of Some v \<Rightarrow> v | None \<Rightarrow> d)"

lemma card_unseen:
  assumes "i < (n::nat)" and "i \<notin> seen"
  shows "card ({..<n} - seen) = Suc (card ({..<n} - insert i seen))"
proof -
  have "{..<n} - insert i seen = {..<n} - seen - {i}" by blast
  moreover have "i \<in> {..<n} - seen" using assms by blast
  moreover have "finite ({..<n} - seen)" by simp
  ultimately show ?thesis by (metis card_Suc_Diff1)
qed

function serialize :: "gobject list \<Rightarrow> gval \<Rightarrow> nat set \<Rightarrow> serialized" where
  \<comment> \<open>\<open>seen\<close> only grows along the chain of causes, so it need not be returned\<close>
  "serialize heap (GPrim s) seen = Serialized ''Error'' s None None"
| "serialize heap (GRef i) seen =
     (if length heap \<le> i then Serialized ''Error'' ''undefined'' None None \<comment> \<open>no such object\<close>
      else if i \<in> seen then Serialized ''Error'' ''[circular]'' None None
      else
        let x = heap ! i
        in Serialized (or_default ''Error'' (readField (go_name x)))
             (or_default (safeStringify x) (readField (go_message x)))
             (readField (go_stack x))
             (map_option (\<lambda>c. serialize heap c (insert i seen)) (readCause x)))"
  by pat_completeness auto
termination
proof (relation "measure (\<lambda>(heap, v, seen). card ({..<length heap} - seen))", goal_cases)
  case (2 heap i seen x c)
  then have "i < length heap" "i \<notin> seen" by simp_all
  from card_unseen [OF this] show ?case by simp
qed simp

declare serialize.simps(2) [simp del]

fun ser_depth :: "serialized \<Rightarrow> nat" where
  "ser_depth (Serialized _ _ _ cause) = Suc (case cause of Some c \<Rightarrow> ser_depth c | None \<Rightarrow> 0)"

lemma serialize_depth: "ser_depth (serialize heap v seen) \<le> Suc (card ({..<length heap} - seen))"
proof (induction heap v seen rule: serialize.induct)
  case (2 heap i seen)
  show ?case
  proof (cases "i < length heap \<and> i \<notin> seen")
    case True
    then have c: "card ({..<length heap} - seen) = Suc (card ({..<length heap} - insert i seen))"
      using card_unseen by blast
    have "ser_depth (serialize heap (GRef i) seen) =
        Suc (case readCause (heap ! i) of Some v \<Rightarrow> ser_depth (serialize heap v (insert i seen)) | None \<Rightarrow> 0)"
      using True by (subst serialize.simps) (simp add: Let_def split: option.split)
    moreover have "ser_depth (serialize heap v (insert i seen)) \<le> Suc (card ({..<length heap} - insert i seen))"
      if "readCause (heap ! i) = Some v" for v
      by (rule 2) (use True that in auto)
    ultimately show ?thesis using c by (auto split: option.split)
  next
    case False
    then show ?thesis by (subst serialize.simps) auto
  qed
qed simp

definition extractMessage :: "gobject list \<Rightarrow> gval \<Rightarrow> string" where
  "extractMessage heap v =
     (case v of
        GPrim s \<Rightarrow> s
      | GRef i \<Rightarrow> if length heap \<le> i then ''undefined''
                  else or_default (safeStringify (heap ! i)) (readField (go_message (heap ! i))))"

datatype dispatch_end = NotCancelled | Cancelled | DispatchThrew

definition reportError :: "gobject list \<Rightarrow> (gval \<Rightarrow> string \<Rightarrow> dispatch_end) \<Rightarrow> bool \<Rightarrow> gval \<Rightarrow> serialized option" where
  \<comment> \<open>\<open>fire\<close> constructs and dispatches the \<open>ErrorEvent\<close>; the result is what goes to the host, if \<open>hosted\<close>\<close>
  "reportError heap fire hosted err =
     (case fire err (extractMessage heap err) of
        Cancelled \<Rightarrow> None
      | _ \<Rightarrow> if hosted then Some (serialize heap err {}) else None)"

text \<open>
  Whatever a guest reports, cycles of causes and throwing getters included, what is forwarded is
  finite: it nests at most one level more than there are objects.
\<close>

lemma report_bounded:
  assumes "reportError heap fire hosted err = Some s"
  shows "ser_depth s \<le> Suc (length heap)"
  using assms serialize_depth [of heap err "{}"] by (auto simp: reportError_def split: dispatch_end.splits if_splits)

section \<open>Abort signals\<close>

text \<open>
  A signal is its reason, once aborted, and the listeners of its \<open>abort\<close> event in the order they
  were added: those \<open>AbortSignal.any\<close> adds, which abort another signal with the same reason, and the
  guest's own, of which only the signals they abort in turn, with which reasons, are represented.
  Dispatching an event calls its listeners in order, and an abort inside a listener runs to its
  end before the next listener; \<open>ab_calls\<close> records the calls.
\<close>

datatype 'r abort_listener = Follow nat | GuestListener nat "(nat \<times> 'r option) list"

record 'r abort_state =
  ab_reason :: "(nat, 'r) jsmap" \<comment> \<open>\<open>ABORT_REASONS\<close>\<close>
  ab_listeners :: "'r abort_listener list list" \<comment> \<open>by signal\<close>
  ab_calls :: "(nat \<times> 'r abort_listener) list"

datatype 'r abort_work = DoAbort nat "'r option" | CallListener nat "'r abort_listener"

abbreviation ab_aborted :: "'r abort_state \<Rightarrow> nat \<Rightarrow> bool" where
  "ab_aborted st i \<equiv> map_has (ab_reason st) i"

definition abort_one :: "'r \<Rightarrow> 'r abort_state \<Rightarrow> nat \<Rightarrow> 'r option \<Rightarrow> 'r abort_state \<times> 'r abort_work list" where
  \<comment> \<open>\<open>abort(reason)\<close> up to the dispatch; \<open>dflt\<close> is the \<open>AbortError\<close> made when there is no reason\<close>
  "abort_one dflt st i reason =
     (if ab_aborted st i \<or> length (ab_listeners st) \<le> i then (st, [])
      else (st\<lparr>ab_reason := map_set i (or_default dflt reason) (ab_reason st)\<rparr>, map (CallListener i) (ab_listeners st ! i)))"

definition call_listener :: "'r abort_state \<Rightarrow> nat \<Rightarrow> 'r abort_listener \<Rightarrow> 'r abort_state \<times> 'r abort_work list" where
  "call_listener st i l =
     (st\<lparr>ab_calls := ab_calls st @ [(i, l)]\<rparr>,
      case l of Follow j \<Rightarrow> [DoAbort j (map_get (ab_reason st) i)] | GuestListener _ acts \<Rightarrow> map (\<lambda>(j, r). DoAbort j r) acts)"

fun abort_turn :: "'r \<Rightarrow> 'r abort_state \<Rightarrow> 'r abort_work \<Rightarrow> 'r abort_state \<times> 'r abort_work list" where
  "abort_turn dflt st (DoAbort i r) = abort_one dflt st i r"
| "abort_turn dflt st (CallListener i l) = call_listener st i l"

definition unaborted :: "'r abort_state \<Rightarrow> nat set" where
  "unaborted st = {i. i < length (ab_listeners st) \<and> \<not> ab_aborted st i}"

fun work_size :: "'r abort_work \<Rightarrow> nat" where
  "work_size (DoAbort _ _) = 1"
| "work_size (CallListener _ (Follow _)) = 2"
| "work_size (CallListener _ (GuestListener _ acts)) = 2 + length acts"

lemma turn_decreases:
  assumes "abort_turn dflt st w = (st', ws')"
  shows "card (unaborted st') < card (unaborted st) \<or>
    card (unaborted st') = card (unaborted st) \<and> sum_list (map work_size ws') < work_size w"
proof (cases w)
  case (DoAbort i r)
  show ?thesis
  proof (cases "ab_aborted st i \<or> length (ab_listeners st) \<le> i")
    case True
    then show ?thesis using assms DoAbort by (simp add: abort_one_def)
  next
    case False
    then have "unaborted st' = unaborted st - {i}" "i \<in> unaborted st"
      using assms DoAbort by (auto simp: abort_one_def unaborted_def split: if_splits)
    moreover have "finite (unaborted st)" by (simp add: unaborted_def)
    ultimately show ?thesis by (metis card_Diff1_less)
  qed
next
  case (CallListener i l)
  have "sum_list (map (work_size \<circ> (\<lambda>(j, r). DoAbort j r)) acts) = length acts" for acts :: "(nat \<times> 'a option) list"
    by (induction acts) auto
  then have "sum_list (map work_size ws') < work_size w"
    using assms CallListener by (cases l) (auto simp: call_listener_def)
  moreover have "unaborted st' = unaborted st" using assms CallListener by (auto simp: call_listener_def unaborted_def)
  ultimately show ?thesis by simp
qed

function abort_all :: "'r \<Rightarrow> 'r abort_state \<Rightarrow> 'r abort_work list \<Rightarrow> 'r abort_state" where
  "abort_all dflt st [] = st"
| "abort_all dflt st (w # ws) = (case abort_turn dflt st w of (st', ws') \<Rightarrow> abort_all dflt st' (ws' @ ws))"
  by pat_completeness auto
termination
proof (relation "(\<lambda>(dflt, st, ws). card (unaborted st)) <*mlex*> measure (\<lambda>(dflt, st, ws). sum_list (map work_size ws))", goal_cases)
  case (2 dflt st w ws st' ws')
  with turn_decreases [of dflt st w st' ws'] show ?case by (auto intro: mlex_less mlex_leq)
qed (simp add: wf_mlex)

definition controller_abort :: "'r \<Rightarrow> 'r abort_state \<Rightarrow> nat \<Rightarrow> 'r option \<Rightarrow> 'r abort_state" where
  "controller_abort dflt st i reason = abort_all dflt st [DoAbort i reason]"

definition new_signal :: "'r abort_state \<Rightarrow> 'r abort_state \<times> nat" where
  "new_signal st = (st\<lparr>ab_listeners := ab_listeners st @ [[]]\<rparr>, length (ab_listeners st))"

definition add_listener :: "'r abort_state \<Rightarrow> nat \<Rightarrow> 'r abort_listener \<Rightarrow> 'r abort_state" where
  "add_listener st i l = st\<lparr>ab_listeners := (ab_listeners st)[i := ab_listeners st ! i @ [l]]\<rparr>"

fun any_loop :: "'r \<Rightarrow> 'r abort_state \<Rightarrow> nat \<Rightarrow> nat list \<Rightarrow> 'r abort_state" where
  "any_loop dflt st c [] = st"
| "any_loop dflt st c (s # ss) =
     (case map_get (ab_reason st) s of
        Some r \<Rightarrow> controller_abort dflt st c (Some r)
      | None \<Rightarrow> any_loop dflt (add_listener st s (Follow c)) c ss)"

definition abort_any :: "'r \<Rightarrow> 'r abort_state \<Rightarrow> nat list \<Rightarrow> 'r abort_state \<times> nat" where
  \<comment> \<open>\<open>AbortSignal.any\<close>\<close>
  "abort_any dflt st signals = (case new_signal st of (st, c) \<Rightarrow> (any_loop dflt st c signals, c))"

lemma turn_listeners: "ab_listeners (fst (abort_turn dflt st w)) = ab_listeners st"
  by (cases w) (simp_all add: abort_one_def call_listener_def)

lemma turn_reason: "map_get (ab_reason st) i = Some r \<Longrightarrow> map_get (ab_reason (fst (abort_turn dflt st w))) i = Some r"
  by (cases w) (auto simp: abort_one_def call_listener_def)

lemma reason_stable: "map_get (ab_reason st) i = Some r \<Longrightarrow> map_get (ab_reason (abort_all dflt st ws)) i = Some r"
proof (induction dflt st ws rule: abort_all.induct)
  case (2 dflt st w ws)
  then show ?case using turn_reason [of st i r dflt w] by (auto split: prod.split)
qed simp

lemma listeners_stable: "ab_listeners (abort_all dflt st ws) = ab_listeners st"
proof (induction dflt st ws rule: abort_all.induct)
  case (2 dflt st w ws)
  then show ?case using turn_listeners [of dflt st w] by (auto split: prod.split)
qed simp

lemma abort_done:
  "DoAbort j r \<in> set ws \<Longrightarrow> j < length (ab_listeners st) \<Longrightarrow> ab_aborted (abort_all dflt st ws) j"
proof (induction dflt st ws rule: abort_all.induct)
  case (2 dflt st w ws)
  obtain st' ws' where t: "abort_turn dflt st w = (st', ws')" by fastforce
  show ?case
  proof (cases "w = DoAbort j r")
    case True
    then obtain r' where "map_get (ab_reason st') j = Some r'"
      using t 2(3) by (auto simp: abort_one_def split: if_splits)
    from reason_stable [OF this] t show ?thesis by simp
  next
    case False
    then show ?thesis using 2(1) [OF t [symmetric]] 2(2,3) t turn_listeners [of dflt st w] by simp
  qed
qed simp

lemma follow_done:
  "CallListener i (Follow j) \<in> set ws \<Longrightarrow> j < length (ab_listeners st) \<Longrightarrow> ab_aborted (abort_all dflt st ws) j"
proof (induction dflt st ws rule: abort_all.induct)
  case (2 dflt st w ws)
  obtain st' ws' where t: "abort_turn dflt st w = (st', ws')" by fastforce
  show ?case
  proof (cases "w = CallListener i (Follow j)")
    case True
    then have "DoAbort j (map_get (ab_reason st) i) \<in> set (ws' @ ws)" "j < length (ab_listeners st')"
      using t 2(3) by (auto simp: call_listener_def)
    from abort_done [OF this] t show ?thesis by simp
  next
    case False
    then show ?thesis using 2(1) [OF t [symmetric]] 2(2,3) t turn_listeners [of dflt st w] by simp
  qed
qed simp

definition calls_of :: "nat \<Rightarrow> (nat \<times> 'r abort_listener) list \<Rightarrow> 'r abort_listener list" where
  "calls_of i cs = map snd (filter (\<lambda>(j, _). j = i) cs)"

fun queued :: "nat \<Rightarrow> 'r abort_work list \<Rightarrow> 'r abort_listener list" where
  "queued i [] = []"
| "queued i (CallListener j l # ws) = (if j = i then l # queued i ws else queued i ws)"
| "queued i (DoAbort _ _ # ws) = queued i ws"

lemma queued_simps [simp]:
  "queued i (vs @ ws) = queued i vs @ queued i ws"
  "queued i (map (CallListener j) ls) = (if j = i then ls else [])"
  "queued i (map (\<lambda>(j, r). DoAbort j r) acts) = []"
proof -
  show "queued i (vs @ ws) = queued i vs @ queued i ws" by (induction vs rule: queued.induct) simp_all
  show "queued i (map (CallListener j) ls) = (if j = i then ls else [])" by (induction ls) auto
  show "queued i (map (\<lambda>(j, r). DoAbort j r) acts) = []" by (induction acts) auto
qed

lemma calls_exact:
  assumes "i \<in> unaborted st \<Longrightarrow> queued i ws = []"
  shows "calls_of i (ab_calls (abort_all dflt st ws)) = calls_of i (ab_calls st) @ queued i ws @
    (if i \<in> unaborted st \<and> ab_aborted (abort_all dflt st ws) i then ab_listeners st ! i else [])"
  using assms
proof (induction dflt st ws rule: abort_all.induct)
  case (2 dflt st w ws)
  obtain st' ws' where t: "abort_turn dflt st w = (st', ws')" by fastforce
  note ih = 2(1) [OF t [symmetric]]
  have same: "ab_listeners st' = ab_listeners st" using turn_listeners [of dflt st w] t by simp
  show ?case
  proof (cases "\<exists>r. w = DoAbort i r \<and> i \<in> unaborted st")
    case True
    then obtain r where w: "w = DoAbort i r" "i \<in> unaborted st" by blast
    then have st': "ab_aborted st' i" "ab_calls st' = ab_calls st" "ws' = map (CallListener i) (ab_listeners st ! i)"
      using t by (auto simp: abort_one_def unaborted_def split: if_splits)
    then obtain r' where "map_get (ab_reason st') i = Some r'" by auto
    from reason_stable [OF this] have "ab_aborted (abort_all dflt st' (ws' @ ws)) i" by simp
    moreover have "i \<notin> unaborted st'" using st'(1) by (simp add: unaborted_def)
    ultimately show ?thesis using ih 2(2) w st' t by simp
  next
    case False
    then have u: "i \<in> unaborted st' \<longleftrightarrow> i \<in> unaborted st"
      using t by (cases w) (auto simp: abort_one_def call_listener_def unaborted_def split: if_splits)
    have c: "calls_of i (ab_calls st') @ queued i ws' = calls_of i (ab_calls st) @ queued i [w]"
      using t False by (cases w)
        (auto simp: abort_one_def call_listener_def calls_of_def unaborted_def split: if_splits abort_listener.splits)
    have "queued i (ws' @ ws) = []" if "i \<in> unaborted st'"
    proof -
      have "queued i (w # ws) = []" using 2(2) that u by simp
      then have "queued i [w] = []" "queued i ws = []" by (cases w; simp split: if_splits)+
      moreover from c this have "queued i ws' = []"
        using t by (cases w) (auto simp: abort_one_def call_listener_def split: if_splits abort_listener.splits)
      ultimately show ?thesis by simp
    qed
    from ih [OF this] u same t c have "calls_of i (ab_calls (abort_all dflt st (w # ws))) =
        calls_of i (ab_calls st) @ queued i [w] @ queued i ws @
        (if i \<in> unaborted st \<and> ab_aborted (abort_all dflt st (w # ws)) i then ab_listeners st ! i else [])"
      by (auto simp flip: append_assoc)
    moreover have "queued i (w # ws) = queued i [w] @ queued i ws" by (cases w) simp_all
    ultimately show ?thesis by simp
  qed
qed (auto simp: unaborted_def)

text \<open>
  An abort happens once. Aborting a signal that is already aborted changes nothing; otherwise the
  signal ends with the given reason, no signal's reason ever changes, every signal that this abort
  aborts, directly or through others, has each of its listeners called exactly once and in order,
  and no listener of another signal is called.
\<close>

lemma abort_once:
  assumes "i < length (ab_listeners st)"
  shows "map_get (ab_reason (controller_abort dflt st i reason)) i =
      Some (case map_get (ab_reason st) i of Some r \<Rightarrow> r | None \<Rightarrow> or_default dflt reason)"
    and "ab_aborted st i \<Longrightarrow> controller_abort dflt st i reason = st"
    and "map_get (ab_reason st) j = Some r \<Longrightarrow> map_get (ab_reason (controller_abort dflt st i reason)) j = Some r"
    and "calls_of j (ab_calls (controller_abort dflt st i reason)) = calls_of j (ab_calls st) @
      (if j \<in> unaborted st \<and> ab_aborted (controller_abort dflt st i reason) j then ab_listeners st ! j else [])"
proof -
  show a: "ab_aborted st i \<Longrightarrow> controller_abort dflt st i reason = st"
    by (simp add: controller_abort_def abort_one_def)
  show s: "map_get (ab_reason st) j = Some r \<Longrightarrow> map_get (ab_reason (controller_abort dflt st i reason)) j = Some r" for j r
    unfolding controller_abort_def by (rule reason_stable)
  show "calls_of j (ab_calls (controller_abort dflt st i reason)) = calls_of j (ab_calls st) @
      (if j \<in> unaborted st \<and> ab_aborted (controller_abort dflt st i reason) j then ab_listeners st ! j else [])"
    using calls_exact [of j st "[DoAbort i reason]" dflt] by (simp add: controller_abort_def)
  show "map_get (ab_reason (controller_abort dflt st i reason)) i =
      Some (case map_get (ab_reason st) i of Some r \<Rightarrow> r | None \<Rightarrow> or_default dflt reason)"
  proof (cases "map_get (ab_reason st) i")
    case None
    let ?st = "st\<lparr>ab_reason := map_set i (or_default dflt reason) (ab_reason st)\<rparr>"
    have "controller_abort dflt st i reason = abort_all dflt ?st (map (CallListener i) (ab_listeners st ! i))"
      using None assms by (simp add: controller_abort_def abort_one_def)
    moreover have "map_get (ab_reason ?st) i = Some (or_default dflt reason)" by simp
    ultimately show ?thesis using None reason_stable by fastforce
  qed (simp add: s)
qed

lemma any_loop_listens:
  assumes "list_all (\<lambda>s. \<not> ab_aborted st s) ss"
  shows "any_loop dflt st c ss = foldl (\<lambda>st s. add_listener st s (Follow c)) st ss"
  using assms
proof (induction ss arbitrary: st)
  case (Cons s ss)
  have "ab_reason (add_listener st s (Follow c)) = ab_reason st" by (simp add: add_listener_def)
  with Cons.prems Cons.IH [of "add_listener st s (Follow c)"] show ?case by simp
qed simp

lemma listens_after:
  "list_all (\<lambda>s. s < length (ab_listeners st)) ss \<Longrightarrow> s \<in> set ss \<or> l \<in> set (ab_listeners st ! s) \<and> s < length (ab_listeners st) \<Longrightarrow>
   (s \<in> set ss \<Longrightarrow> l = Follow c) \<Longrightarrow>
   l \<in> set (ab_listeners (foldl (\<lambda>st s. add_listener st s (Follow c)) st ss) ! s) \<and>
   ab_reason (foldl (\<lambda>st s. add_listener st s (Follow c)) st ss) = ab_reason st \<and>
   length (ab_listeners (foldl (\<lambda>st s. add_listener st s (Follow c)) st ss)) = length (ab_listeners st)"
proof (induction ss arbitrary: st)
  case (Cons x ss)
  let ?st = "add_listener st x (Follow c)"
  have len: "length (ab_listeners ?st) = length (ab_listeners st)" by (simp add: add_listener_def)
  have "s \<in> set ss \<or> l \<in> set (ab_listeners ?st ! s) \<and> s < length (ab_listeners ?st)"
    using Cons.prems by (cases "s = x") (auto simp: add_listener_def)
  with Cons.IH [of ?st] Cons.prems len show ?case by (auto simp: add_listener_def)
qed simp

text \<open>
  \<open>AbortSignal.any\<close> combines: made of signals none of which is aborted, the combined signal is
  not aborted, and aborting any of them aborts it.
\<close>

lemma any_follows:
  assumes "list_all (\<lambda>s. s < length (ab_listeners st) \<and> \<not> ab_aborted st s) signals" and "s \<in> set signals"
    and "map_get (ab_reason st) (length (ab_listeners st)) = None" and "abort_any dflt st signals = (st', c)"
  shows "\<not> ab_aborted st' c \<and> ab_aborted (controller_abort dflt st' s reason) c"
proof -
  let ?st = "st\<lparr>ab_listeners := ab_listeners st @ [[]]\<rparr>"
  have c: "c = length (ab_listeners st)" and st': "st' = any_loop dflt ?st c signals"
    using assms(4) by (auto simp: abort_any_def new_signal_def)
  have st'2: "st' = foldl (\<lambda>st s. add_listener st s (Follow c)) ?st signals"
    unfolding st' by (rule any_loop_listens) (use assms(1) in \<open>auto simp: list_all_iff\<close>)
  have l: "Follow c \<in> set (ab_listeners st' ! s) \<and> ab_reason st' = ab_reason st \<and> length (ab_listeners st') = Suc (length (ab_listeners st))"
  proof -
    have "list_all (\<lambda>s. s < length (ab_listeners ?st)) signals" using assms(1) by (auto simp: list_all_iff)
    from listens_after [OF this, of s "Follow c" c] assms(2) show ?thesis unfolding st'2 by simp
  qed
  have s: "s < length (ab_listeners st')" "\<not> ab_aborted st' s" using assms(1,2) l by (auto simp: list_all_iff)
  let ?aborted = "st'\<lparr>ab_reason := map_set s (or_default dflt reason) (ab_reason st')\<rparr>"
  have "controller_abort dflt st' s reason = abort_all dflt ?aborted (map (CallListener s) (ab_listeners st' ! s))"
    using s by (simp add: controller_abort_def abort_one_def)
  moreover have "CallListener s (Follow c) \<in> set (map (CallListener s) (ab_listeners st' ! s))" using l by auto
  moreover have "c < length (ab_listeners ?aborted)" using l c by simp
  ultimately have "ab_aborted (controller_abort dflt st' s reason) c" using follow_done by metis
  with l c assms(3) show ?thesis by simp
qed

section \<open>User timing\<close>

text \<open>
  Time stamps are the engine's numbers with its addition and subtraction, \<open>clock_ops\<close>: nothing is
  assumed of their rounding. \<open>now\<close> is what \<open>performance.now()\<close> returns if the call reads it, \<open>clone\<close> is
  \<open>structuredClone\<close>.
\<close>

record 'n clock_ops =
  ck_plus :: "'n \<Rightarrow> 'n \<Rightarrow> 'n"
  ck_minus :: "'n \<Rightarrow> 'n \<Rightarrow> 'n"
  ck_negative :: "'n \<Rightarrow> bool"
  ck_zero :: 'n

datatype timing_error = TimingTypeError string | TimingSyntaxError string | TimingCloneError string

record ('n, 'd) perf_entry =
  pe_name :: string
  pe_entryType :: string
  pe_startTime :: 'n
  pe_duration :: 'n
  pe_detail :: "'d option"

record ('n, 'd) timeline =
  tl_marks :: "('n, 'd) perf_entry list"
  tl_measures :: "('n, 'd) perf_entry list"

datatype 'n mark_ref = RefNumber 'n | RefName string | RefOther

datatype ('n, 'd) mark_options = NoMarkOptions | MarkNotObject | MarkOptions "'n mark_ref option" "'d option"

definition clone_detail :: "('d \<Rightarrow> string + 'd) \<Rightarrow> 'd option \<Rightarrow> timing_error + 'd option" where
  "clone_detail clone d =
     (case d of None \<Rightarrow> Inr None | Some x \<Rightarrow> (case clone x of Inl err \<Rightarrow> Inl (TimingCloneError err) | Inr y \<Rightarrow> Inr (Some y)))"

definition validateMarkOptions :: "'n clock_ops \<Rightarrow> ('n, 'd) mark_options \<Rightarrow> timing_error + 'n option \<times> 'd option" where
  "validateMarkOptions ck options =
     (case options of
        NoMarkOptions \<Rightarrow> Inr (None, None)
      | MarkNotObject \<Rightarrow> Inl (TimingTypeError ''PerformanceMark options must be an object'')
      | MarkOptions startTime detail \<Rightarrow>
          (case startTime of
             None \<Rightarrow> Inr (None, detail)
           | Some (RefNumber n) \<Rightarrow>
               if ck_negative ck n then Inl (TimingTypeError ''startTime must be a non-negative number'') else Inr (Some n, detail)
           | Some _ \<Rightarrow> Inl (TimingTypeError ''startTime must be a non-negative number'')))"

definition perf_mark ::
  "'n clock_ops \<Rightarrow> ('d \<Rightarrow> string + 'd) \<Rightarrow> 'n \<Rightarrow> ('n, 'd) timeline \<Rightarrow> string \<Rightarrow> ('n, 'd) mark_options \<Rightarrow>
     timing_error + ('n, 'd) timeline \<times> ('n, 'd) perf_entry" where
  "perf_mark ck clone now tml name options =
     and_then (validateMarkOptions ck options) (\<lambda>(startTime, detail).
     and_then (clone_detail clone detail) (\<lambda>d.
       let entry = \<lparr>pe_name = name, pe_entryType = ''mark'', pe_startTime = or_default now startTime,
                    pe_duration = ck_zero ck, pe_detail = d\<rparr>
       in Inr (tml\<lparr>tl_marks := tl_marks tml @ [entry]\<rparr>, entry)))"

definition convertMarkToTimestamp :: "'n clock_ops \<Rightarrow> ('n, 'd) timeline \<Rightarrow> 'n mark_ref \<Rightarrow> timing_error + 'n" where
  "convertMarkToTimestamp ck tml ref =
     (case ref of
        RefNumber n \<Rightarrow> if ck_negative ck n then Inl (TimingTypeError ''mark timestamp cannot be negative'') else Inr n
      | RefName name \<Rightarrow>
          (case find (\<lambda>m. pe_name m = name) (rev (tl_marks tml)) of
             Some m \<Rightarrow> Inr (pe_startTime m)
           | None \<Rightarrow> Inl (TimingSyntaxError (''The mark '' @ [CHR 39] @ name @ [CHR 39] @ '' does not exist.'')))
      | RefOther \<Rightarrow> Inl (TimingTypeError ''mark reference must be a string or number''))"

record ('n, 'd) measure_options =
  mo_start :: "'n mark_ref option"
  mo_end :: "'n mark_ref option"
  mo_duration :: "'n option"
  mo_detail :: "'d option"

definition measure_end :: "'n clock_ops \<Rightarrow> 'n \<Rightarrow> ('n, 'd) timeline \<Rightarrow> ('n, 'd) measure_options \<Rightarrow> timing_error + 'n" where
  "measure_end ck now tml opts =
     (case (mo_end opts, mo_start opts, mo_duration opts) of
        (Some e, _, _) \<Rightarrow> convertMarkToTimestamp ck tml e
      | (None, Some s, Some dur) \<Rightarrow> and_then (convertMarkToTimestamp ck tml s) (\<lambda>t. Inr (ck_plus ck t dur))
      | _ \<Rightarrow> Inr now)"

definition measure_start :: "'n clock_ops \<Rightarrow> ('n, 'd) timeline \<Rightarrow> ('n, 'd) measure_options \<Rightarrow> timing_error + 'n" where
  "measure_start ck tml opts =
     (case (mo_start opts, mo_end opts, mo_duration opts) of
        (Some s, _, _) \<Rightarrow> convertMarkToTimestamp ck tml s
      | (None, Some e, Some dur) \<Rightarrow> and_then (convertMarkToTimestamp ck tml e) (\<lambda>t. Inr (ck_minus ck t dur))
      | _ \<Rightarrow> Inr (ck_zero ck))"

definition resolveMeasureOptions ::
  "'n clock_ops \<Rightarrow> ('d \<Rightarrow> string + 'd) \<Rightarrow> 'n \<Rightarrow> ('n, 'd) timeline \<Rightarrow> ('n, 'd) measure_options \<Rightarrow> timing_error + 'n \<times> 'n \<times> 'd option" where
  "resolveMeasureOptions ck clone now tml opts =
     (if mo_duration opts \<noteq> None \<and> mo_start opts \<noteq> None \<and> mo_end opts \<noteq> None
      then Inl (TimingTypeError ''duration cannot be provided with both start and end'')
      else if mo_duration opts \<noteq> None \<and> mo_start opts = None \<and> mo_end opts = None
      then Inl (TimingTypeError ''duration requires either start or end to be provided'')
      else and_then (measure_end ck now tml opts) (\<lambda>e. and_then (measure_start ck tml opts) (\<lambda>s.
           and_then (clone_detail clone (mo_detail opts)) (\<lambda>d. Inr (s, e, d)))))"

definition resolveMeasurePositional ::
  "'n clock_ops \<Rightarrow> 'n \<Rightarrow> ('n, 'd) timeline \<Rightarrow> 'n mark_ref option \<Rightarrow> 'n mark_ref option \<Rightarrow> timing_error + 'n \<times> 'n \<times> 'd option" where
  "resolveMeasurePositional ck now tml start endMark =
     and_then (case endMark of None \<Rightarrow> Inr now | Some e \<Rightarrow> convertMarkToTimestamp ck tml e) (\<lambda>e.
     and_then (case start of None \<Rightarrow> Inr (ck_zero ck) | Some s \<Rightarrow> convertMarkToTimestamp ck tml s) (\<lambda>s. Inr (s, e, None)))"

datatype ('n, 'd) measure_arg = Positional "'n mark_ref option" | WithOptions "('n, 'd) measure_options"

definition perf_measure ::
  "'n clock_ops \<Rightarrow> ('d \<Rightarrow> string + 'd) \<Rightarrow> 'n \<Rightarrow> ('n, 'd) timeline \<Rightarrow> string \<Rightarrow> ('n, 'd) measure_arg \<Rightarrow> 'n mark_ref option \<Rightarrow>
     timing_error + ('n, 'd) timeline \<times> ('n, 'd) perf_entry" where
  "perf_measure ck clone now tml name arg endMark =
     and_then (case arg of
         WithOptions opts \<Rightarrow>
           if endMark \<noteq> None then Inl (TimingTypeError ''endMark must not be provided when using options dictionary'')
           else resolveMeasureOptions ck clone now tml opts
       | Positional start \<Rightarrow> resolveMeasurePositional ck now tml start endMark) (\<lambda>(s, e, d).
       let entry = \<lparr>pe_name = name, pe_entryType = ''measure'', pe_startTime = s, pe_duration = ck_minus ck e s, pe_detail = d\<rparr>
       in Inr (tml\<lparr>tl_measures := tl_measures tml @ [entry]\<rparr>, entry))"

fun clear_from :: "string \<Rightarrow> nat \<Rightarrow> ('n, 'd) perf_entry list \<Rightarrow> ('n, 'd) perf_entry list" where
  \<comment> \<open>the loop from the last index down, with \<open>splice(i, 1)\<close>\<close>
  "clear_from name 0 es = es"
| "clear_from name (Suc i) es =
     clear_from name i (if i < length es \<and> pe_name (es ! i) = name then take i es @ drop (Suc i) es else es)"

definition clearMarks :: "('n, 'd) timeline \<Rightarrow> string option \<Rightarrow> ('n, 'd) timeline" where
  "clearMarks tml name =
     tml\<lparr>tl_marks := (case name of None \<Rightarrow> [] | Some n \<Rightarrow> clear_from n (length (tl_marks tml)) (tl_marks tml))\<rparr>"

definition clearMeasures :: "('n, 'd) timeline \<Rightarrow> string option \<Rightarrow> ('n, 'd) timeline" where
  "clearMeasures tml name =
     tml\<lparr>tl_measures := (case name of None \<Rightarrow> [] | Some n \<Rightarrow> clear_from n (length (tl_measures tml)) (tl_measures tml))\<rparr>"

definition getEntries :: "('n, 'd) timeline \<Rightarrow> ('n, 'd) perf_entry list" where
  "getEntries tml = tl_marks tml @ tl_measures tml"

definition getEntriesByType :: "('n, 'd) timeline \<Rightarrow> string \<Rightarrow> ('n, 'd) perf_entry list" where
  "getEntriesByType tml t = (if t = ''mark'' then tl_marks tml else if t = ''measure'' then tl_measures tml else [])"

definition getEntriesByName :: "('n, 'd) timeline \<Rightarrow> string \<Rightarrow> string option \<Rightarrow> ('n, 'd) perf_entry list" where
  "getEntriesByName tml name t =
     (if t = Some ''mark'' then filter (\<lambda>e. pe_name e = name) (tl_marks tml)
      else if t = Some ''measure'' then filter (\<lambda>e. pe_name e = name) (tl_measures tml)
      else filter (\<lambda>e. pe_name e = name) (tl_marks tml) @ filter (\<lambda>e. pe_name e = name) (tl_measures tml))"

text \<open>Clearing by index from the end removes exactly the entries of the name.\<close>

lemma clear_from_exact:
  "k \<le> length es \<Longrightarrow> clear_from name k es = filter (\<lambda>e. pe_name e \<noteq> name) (take k es) @ drop k es"
proof (induction k arbitrary: es)
  case (Suc k)
  have t: "take (Suc k) es = take k es @ [es ! k]" using Suc.prems by (simp add: take_Suc_conv_app_nth)
  have d: "drop k es = es ! k # drop (Suc k) es" using Suc.prems by (simp add: Cons_nth_drop_Suc)
  let ?es = "if pe_name (es ! k) = name then take k es @ drop (Suc k) es else es"
  have "clear_from name (Suc k) es = clear_from name k ?es" using Suc.prems by simp
  also have "\<dots> = filter (\<lambda>e. pe_name e \<noteq> name) (take k ?es) @ drop k ?es" using Suc.prems by (intro Suc.IH) auto
  also have "\<dots> = filter (\<lambda>e. pe_name e \<noteq> name) (take (Suc k) es) @ drop (Suc k) es"
    unfolding t using Suc.prems d by auto
  finally show ?case .
qed simp

lemma clearMarks_exact: "tl_marks (clearMarks tml (Some name)) = filter (\<lambda>e. pe_name e \<noteq> name) (tl_marks tml)"
  by (simp add: clearMarks_def clear_from_exact)

text \<open>
  A measure between two names uses the latest mark of each; once the marks of a name are cleared,
  measuring from or to it is a \<open>SyntaxError\<close>.
\<close>

lemma latest_mark:
  assumes "perf_mark ck clone now tml name options = Inr (tml', entry)"
  shows "convertMarkToTimestamp ck tml' (RefName name) = Inr (pe_startTime entry)"
proof -
  have "tl_marks tml' = tl_marks tml @ [entry] \<and> pe_name entry = name"
    using assms unfolding perf_mark_def
    by (cases "validateMarkOptions ck options"; cases "clone_detail clone (snd (projr (validateMarkOptions ck options)))")
      (auto simp: Let_def case_prod_unfold)
  then show ?thesis by (simp add: convertMarkToTimestamp_def)
qed

lemma cleared_mark:
  "\<exists>msg. convertMarkToTimestamp ck (clearMarks tml (Some name)) (RefName name) = Inl (TimingSyntaxError msg)"
proof -
  have "find (\<lambda>m. pe_name m = name) (rev (filter (\<lambda>e. pe_name e \<noteq> name) (tl_marks tml))) = None"
    by (auto simp: find_None_iff)
  then show ?thesis by (simp add: convertMarkToTimestamp_def clearMarks_exact)
qed

lemma entries_by_name:
  "t \<notin> {Some ''mark'', Some ''measure''} \<Longrightarrow> getEntriesByName tml name t = filter (\<lambda>e. pe_name e = name) (getEntries tml)"
  by (auto simp: getEntriesByName_def getEntries_def)

end
