(* ===== verification/Rehydrate.thy ===== *)
theory Rehydrate
  imports Wasi
begin

text \<open>
  Reading an uploaded bundle (\<open>packages/runtime/src/workflow-registry.ts\<close>): unpacking the archive
  under its size limit (\<open>extractOwnerTarGz\<close>) and restoring the strip mode of rehydrated schemas
  (\<open>applyStripMarkers\<close>).

  The archive is what \<open>gunzip\<close> and the tar parser deliver: entries with their type, their name and
  the chunks of their content. A schema is the tree \<open>applyStripMarkers\<close> sees: an object with its
  shape, its catch-all schema and its metadata, a wrapper around another schema (optional, array,
  ...), or anything else by the name of its type. The function returns its argument itself when
  there is nothing to do and a new object otherwise, which the code compares with \<open>!==\<close>: the
  second component of the result says which.
\<close>

section \<open>Unpacking\<close>

definition MAX_DECOMPRESSED_BYTES :: nat where "MAX_DECOMPRESSED_BYTES = 10485760"

record tar_entry =
  te_type :: string
  te_name :: string
  te_chunks :: "memory list"

fun take_chunks :: "nat \<Rightarrow> memory list \<Rightarrow> (memory list \<times> nat) option" where
  \<comment> \<open>the \<open>data\<close> events of one entry; \<open>None\<close> when the stream is destroyed\<close>
  "take_chunks totalBytes [] = Some ([], totalBytes)"
| "take_chunks totalBytes (chunk # chunks) =
     (let totalBytes = totalBytes + length chunk
      in if totalBytes > MAX_DECOMPRESSED_BYTES then None
         else map_option (\<lambda>(cs, n). (chunk # cs, n)) (take_chunks totalBytes chunks))"

definition buffer_text :: "memory \<Rightarrow> string" where
  \<comment> \<open>\<open>Buffer.toString("utf-8")\<close>\<close>
  "buffer_text bs = map char_of (utf8_repair (map unat bs))"

fun extract_entries :: "nat \<Rightarrow> (string, string) jsmap \<Rightarrow> tar_entry list \<Rightarrow> string + (string, string) jsmap" where
  "extract_entries totalBytes files [] = Inr files"
| "extract_entries totalBytes files (e # es) =
     (if te_type e = ''file''
      then (case take_chunks totalBytes (te_chunks e) of
              None \<Rightarrow> Inl ''decompressed tarball exceeds limit''
            | Some (chunks, totalBytes) \<Rightarrow>
                extract_entries totalBytes (map_set (te_name e) (buffer_text (concat chunks)) files) es)
      else extract_entries totalBytes files es)"

definition extractOwnerTarGz :: "string + tar_entry list \<Rightarrow> string + (string, string) jsmap" where
  \<comment> \<open>\<open>Inl\<close> when the decompressor or the parser fails; entries before the failure are then lost\<close>
  "extractOwnerTarGz archive = (case archive of Inl err \<Rightarrow> Inl err | Inr es \<Rightarrow> extract_entries 0 [] es)"

abbreviation file_bytes :: "tar_entry \<Rightarrow> nat" where
  "file_bytes e \<equiv> (if te_type e = ''file'' then length (concat (te_chunks e)) else 0)"

abbreviation file_entries :: "tar_entry list \<Rightarrow> tar_entry list" where
  "file_entries es \<equiv> filter (\<lambda>e. te_type e = ''file'') es"

lemma take_chunks_exact:
  "n \<le> MAX_DECOMPRESSED_BYTES \<Longrightarrow> take_chunks n cs =
     (if n + length (concat cs) \<le> MAX_DECOMPRESSED_BYTES then Some (cs, n + length (concat cs)) else None)"
  by (induction n cs rule: take_chunks.induct) (auto simp: Let_def)

lemma extract_entries_exact:
  "n \<le> MAX_DECOMPRESSED_BYTES \<Longrightarrow> extract_entries n files es =
     (if n + sum_list (map file_bytes es) \<le> MAX_DECOMPRESSED_BYTES
      then Inr (foldl (\<lambda>m e. map_set (te_name e) (buffer_text (concat (te_chunks e))) m) files (file_entries es))
      else Inl ''decompressed tarball exceeds limit'')"
  by (induction n files es rule: extract_entries.induct) (auto simp: take_chunks_exact add.assoc)

lemma fold_files_get:
  "map_get (foldl (\<lambda>m e. map_set (k e) (v e) m) m0 es) name =
     (case find (\<lambda>e. k e = name) (rev es) of Some e \<Rightarrow> Some (v e) | None \<Rightarrow> map_get m0 name)"
  by (induction es arbitrary: m0 rule: rev_induct) auto

text \<open>
  Unpacking is exact and bounded: it succeeds just when the contents of the regular files, and
  nothing else, come to at most ten mebibytes; then a name gives the text of the last file of
  that name in the archive.
\<close>

lemma extract_exact:
  "extractOwnerTarGz (Inr es) =
     (if sum_list (map file_bytes es) \<le> MAX_DECOMPRESSED_BYTES
      then Inr (foldl (\<lambda>m e. map_set (te_name e) (buffer_text (concat (te_chunks e))) m) [] (file_entries es))
      else Inl ''decompressed tarball exceeds limit'')"
  by (simp add: extractOwnerTarGz_def extract_entries_exact)

lemma extracted_file:
  assumes "extractOwnerTarGz (Inr es) = Inr files"
  shows "map_get files name =
    map_option (\<lambda>e. buffer_text (concat (te_chunks e))) (find (\<lambda>e. te_name e = name) (rev (file_entries es)))"
  using assms by (auto simp: extract_exact fold_files_get split: if_splits option.split)

section \<open>Strip markers\<close>

datatype zod =
    ZObject (zo_shape: "(string \<times> zod) list") (zo_catchall: "zod option") (zo_meta: "(string \<times> json) list")
  | ZWrap string zod
  | ZType string

fun zod_type :: "zod \<Rightarrow> string" where
  \<comment> \<open>\<open>def.type\<close>\<close>
  "zod_type (ZObject _ _ _) = ''object''"
| "zod_type (ZWrap t _) = t"
| "zod_type (ZType t) = t"

definition strip_marked :: "(string \<times> json) list \<Rightarrow> bool" where
  "strip_marked meta \<longleftrightarrow> map_of meta ''strip'' = Some (JBool True)"

definition rebuilt_catchall :: "bool \<Rightarrow> zod option \<Rightarrow> zod option" where
  \<comment> \<open>\<open>z.object\<close>, \<open>z.strictObject\<close> or \<open>z.object(...).loose()\<close>\<close>
  "rebuilt_catchall stripMarked catchall =
     (if stripMarked then None
      else case map_option zod_type catchall of
             Some t \<Rightarrow> if t = ''never'' then Some (ZType ''never'')
                       else if t = ''any'' \<or> t = ''unknown'' then Some (ZType ''unknown'') else None
           | None \<Rightarrow> None)"

fun applyStripMarkers :: "zod \<Rightarrow> zod \<times> bool" where
  "applyStripMarkers (ZObject shape catchall meta) =
     (let children = map (\<lambda>(k, v). (k, applyStripMarkers v)) shape;
          newShape = map (\<lambda>(k, v, _). (k, v)) children;
          childrenChanged = list_ex (\<lambda>(_, _, changed). changed) children
      in if \<not> (strip_marked meta \<or> childrenChanged) then (ZObject shape catchall meta, False)
         else (ZObject newShape (rebuilt_catchall (strip_marked meta) catchall) meta, True))"
| "applyStripMarkers z = (z, False)"

text \<open>How an object treats keys that are not in its shape.\<close>

datatype key_mode = StripKeys | StrictKeys | LooseKeys | TypedKeys zod

definition mode_of :: "zod option \<Rightarrow> key_mode" where
  "mode_of catchall =
     (case catchall of
        None \<Rightarrow> StripKeys
      | Some z \<Rightarrow> if zod_type z = ''never'' then StrictKeys
                  else if zod_type z = ''any'' \<or> zod_type z = ''unknown'' then LooseKeys else TypedKeys z)"

fun zod_at :: "zod \<Rightarrow> string list \<Rightarrow> zod option" where
  \<comment> \<open>the schema of a nested property, through objects\<close>
  "zod_at z [] = Some z"
| "zod_at (ZObject shape _ _) (k # ks) = (case map_of shape k of Some z \<Rightarrow> zod_at z ks | None \<Rightarrow> None)"
| "zod_at _ (_ # _) = None"

fun has_mark :: "zod \<Rightarrow> bool" where
  \<comment> \<open>the object or one of its nested objects is marked\<close>
  "has_mark (ZObject shape _ meta) \<longleftrightarrow> strip_marked meta \<or> list_ex (\<lambda>(_, v). has_mark v) shape"
| "has_mark _ \<longleftrightarrow> False"

lemma changed_iff: "snd (applyStripMarkers z) \<longleftrightarrow> has_mark z"
proof (induction z rule: applyStripMarkers.induct)
  case (1 shape catchall meta)
  have "list_ex (\<lambda>(_, _, changed). changed) (map (\<lambda>(k, v). (k, applyStripMarkers v)) shape) \<longleftrightarrow>
      list_ex (\<lambda>(_, v). has_mark v) shape"
    using 1 [OF _ prod.collapse] by (simp add: list_ex_iff case_prod_unfold)
  then show ?case by (simp add: Let_def)
qed simp_all

lemma apply_object:
  "fst (applyStripMarkers (ZObject shape catchall meta)) =
     ZObject (map (\<lambda>(k, v). (k, fst (applyStripMarkers v))) shape)
       (if has_mark (ZObject shape catchall meta) then rebuilt_catchall (strip_marked meta) catchall else catchall) meta"
proof -
  have "fst (applyStripMarkers z) = z" if "\<not> has_mark z" for z
    using that changed_iff [of z] by (cases z) (auto simp: Let_def split: if_splits)
  then show ?thesis
    by (auto simp: Let_def list_ex_iff case_prod_unfold changed_iff intro!: map_idI [symmetric])
qed

lemma zod_at_apply:
  "zod_at (fst (applyStripMarkers z)) ks = map_option (fst \<circ> applyStripMarkers) (zod_at z ks)"
proof (induction z ks rule: zod_at.induct)
  case (2 shape catchall meta k ks)
  have "map_of (map (\<lambda>(k, v). (k, fst (applyStripMarkers v))) shape) k = map_option (fst \<circ> applyStripMarkers) (map_of shape k)"
    by (induction shape) auto
  with 2 show ?case by (simp only: apply_object zod_at.simps) (auto split: option.split)
qed auto

text \<open>
  Strip markers are restored exactly: the object at every path keeps its keys and its metadata;
  a marked object ends in strip mode; an unmarked one keeps its mode, except that an object with
  a typed catch-all loses it when an object below it is marked. Schemas other than objects are
  untouched.
\<close>

definition restored :: "zod \<Rightarrow> zod \<Rightarrow> bool" where
  "restored z z' \<longleftrightarrow>
     (case z of
        ZObject shape catchall meta \<Rightarrow>
          map fst (zo_shape z') = map fst shape \<and> zo_meta z' = meta \<and>
          mode_of (zo_catchall z') =
            (if strip_marked meta then StripKeys
             else case mode_of catchall of TypedKeys c \<Rightarrow> if has_mark z then StripKeys else TypedKeys c | m \<Rightarrow> m)
      | _ \<Rightarrow> z' = z)"

lemma strip_markers_restored: "rel_option restored (zod_at z ks) (zod_at (fst (applyStripMarkers z)) ks)"
proof -
  have "restored z (fst (applyStripMarkers z))" for z
  proof (cases z)
    case (ZObject shape catchall meta)
    have "mode_of (if has_mark z then rebuilt_catchall (strip_marked meta) catchall else catchall) =
        (if strip_marked meta then StripKeys
         else case mode_of catchall of TypedKeys c \<Rightarrow> if has_mark z then StripKeys else TypedKeys c | m \<Rightarrow> m)"
      using ZObject by (auto simp: rebuilt_catchall_def mode_of_def split: option.split)
    moreover have "map fst (map (\<lambda>(k, v). (k, fst (applyStripMarkers v))) shape) = map fst shape"
      by (simp add: comp_def case_prod_unfold)
    ultimately show ?thesis using ZObject by (simp only: restored_def apply_object zod.case zod.sel)
  qed (simp_all add: restored_def)
  then show ?thesis by (auto simp: zod_at_apply option.rel_map intro!: option.rel_refl_strong)
qed

text \<open>
  A marked object behind a wrapper is not reached: the rehydrated schema of an optional property
  is wrapped, so an optional object keeps rejecting unknown keys although its author marked it.
\<close>

lemma wrapped_mark_ignored:
  "applyStripMarkers (ZObject [(''filter'', ZWrap ''optional'' (ZObject [] (Some (ZType ''never'')) [(''strip'', JBool True)]))]
     (Some (ZType ''never'')) []) =
   (ZObject [(''filter'', ZWrap ''optional'' (ZObject [] (Some (ZType ''never'')) [(''strip'', JBool True)]))]
     (Some (ZType ''never'')) [], False)"
  by code_simp

text \<open>An object that validates its other keys stops doing so when an object in it is marked.\<close>

lemma typed_catchall_lost:
  "fst (applyStripMarkers (ZObject [(''nested'', ZObject [] (Some (ZType ''never'')) [(''strip'', JBool True)])]
     (Some (ZType ''string'')) [])) =
   ZObject [(''nested'', ZObject [] None [(''strip'', JBool True)])] None []"
  by code_simp

end
