(* ===== verification/Transform.thy ===== *)
theory Transform
  imports Prelude
begin

text \<open>
  The rewriting of a workflow file during its build (\<open>packages/sdk/src/cli/build-workflows.ts\<close>): the
  names of actions and queues are inserted from their export, and the schemas are removed from
  the bundle that runs.

  The syntax tree is the part of it the code looks at, with the positions of its nodes; the parser
  is an argument. Source code is its list of UTF-16 code units. What is done to the text is the
  list of calls of \<open>MagicString\<close>, in their order.
\<close>

section \<open>Syntax trees\<close>

datatype literal = LitString string | LitOther

datatype node =
    Identifier nat nat string
  | Literal nat nat literal
  | Property nat nat node node
  | ObjectExpression nat nat "node list"
  | CallExpression nat nat node "node list"
  | VariableDeclaration nat nat string "(node \<times> node option) list"
  | ExportNamedDeclaration nat nat "node option"
  | OtherNode nat nat string

fun node_start :: "node \<Rightarrow> nat" where
  "node_start (Identifier a _ _) = a"
| "node_start (Literal a _ _) = a"
| "node_start (Property a _ _ _) = a"
| "node_start (ObjectExpression a _ _) = a"
| "node_start (CallExpression a _ _ _) = a"
| "node_start (VariableDeclaration a _ _ _) = a"
| "node_start (ExportNamedDeclaration a _ _) = a"
| "node_start (OtherNode a _ _) = a"

fun node_end :: "node \<Rightarrow> nat" where
  "node_end (Identifier _ b _) = b"
| "node_end (Literal _ b _) = b"
| "node_end (Property _ b _ _) = b"
| "node_end (ObjectExpression _ b _) = b"
| "node_end (CallExpression _ b _ _) = b"
| "node_end (VariableDeclaration _ b _ _) = b"
| "node_end (ExportNamedDeclaration _ b _) = b"
| "node_end (OtherNode _ b _) = b"

type_synonym source = "nat list"

fun code_includes :: "string \<Rightarrow> source \<Rightarrow> bool" where
  "code_includes w [] \<longleftrightarrow> w = []"
| "code_includes w (c # cs) \<longleftrightarrow> take (length w) (c # cs) = map of_char w \<or> code_includes w cs"

definition sourceMightContainActionCall :: "source \<Rightarrow> bool" where
  "sourceMightContainActionCall code = code_includes ''action('' code"

definition sourceMightContainQueueCall :: "source \<Rightarrow> bool" where
  "sourceMightContainQueueCall code = code_includes ''defineQueue('' code"

definition sourceMightContainFactoryCall :: "source \<Rightarrow> bool" where
  "sourceMightContainFactoryCall code =
     (code_includes ''action('' code \<or> code_includes ''httpTrigger('' code \<or>
      code_includes ''cronTrigger('' code \<or> code_includes ''defineQueue('' code)"

section \<open>Matching exports\<close>

record factory_match =
  fm_id :: string
  fm_start :: nat \<comment> \<open>of the object literal that is the first argument\<close>
  fm_end :: nat
  fm_properties :: "node list"
  fm_factory :: string

definition matchFactoryExport :: "node \<Rightarrow> string list \<Rightarrow> factory_match option" where
  "matchFactoryExport stmt factoryNames =
     (case stmt of
        ExportNamedDeclaration _ _ (Some (VariableDeclaration _ _ kind
          [(Identifier _ _ ident, Some (CallExpression _ _ (Identifier _ _ name) (ObjectExpression a b props # _)))])) \<Rightarrow>
          if kind = ''const'' \<and> name \<in> set factoryNames
          then Some \<lparr>fm_id = ident, fm_start = a, fm_end = b, fm_properties = props, fm_factory = name\<rparr>
          else None
      | _ \<Rightarrow> None)"

definition matchActionExport :: "node \<Rightarrow> factory_match option" where
  "matchActionExport stmt = matchFactoryExport stmt [''action'']"

definition matchQueueExport :: "node \<Rightarrow> factory_match option" where
  "matchQueueExport stmt = matchFactoryExport stmt [''defineQueue'']"

fun is_name_property :: "node \<Rightarrow> bool" where
  "is_name_property (Property _ _ (Identifier _ _ key) _) \<longleftrightarrow> key = ''name''"
| "is_name_property (Property _ _ (Literal _ _ (LitString v)) _) \<longleftrightarrow> v = ''name''"
| "is_name_property _ \<longleftrightarrow> False"

definition objectHasNameProperty :: "node list \<Rightarrow> bool" where
  "objectHasNameProperty props = list_ex is_name_property props"

section \<open>Inserting names\<close>

datatype magic_call = AppendLeft nat string | Remove nat nat

definition name_insertion :: "factory_match \<Rightarrow> magic_call" where
  \<comment> \<open>the name is an identifier: \<open>JSON.stringify\<close> puts it in quotes and escapes nothing\<close>
  "name_insertion f =
     AppendLeft (fm_end f - 1) ((if fm_properties f = [] then [] else '', '') @ ''name: '' @ [CHR 34] @ fm_id f @ [CHR 34])"

definition injectNameIntoCall :: "factory_match \<Rightarrow> magic_call list" where
  "injectNameIntoCall f = [name_insertion f]"

definition injectNameIfMissing :: "factory_match \<Rightarrow> magic_call list" where
  "injectNameIfMissing f = (if objectHasNameProperty (fm_properties f) then [] else [name_insertion f])"

definition injectActionNames :: "source \<Rightarrow> (source \<Rightarrow> node list) \<Rightarrow> magic_call list option" where
  \<comment> \<open>\<open>None\<close>: \<open>null\<close>, the code stays as it is\<close>
  "injectActionNames code parse =
     (if \<not> sourceMightContainActionCall code then None
      else let calls = concat (map (\<lambda>stmt. case matchActionExport stmt of Some f \<Rightarrow> injectNameIntoCall f | None \<Rightarrow> []) (parse code))
           in if calls = [] then None else Some calls)"

definition injectQueueNames :: "source \<Rightarrow> (source \<Rightarrow> node list) \<Rightarrow> magic_call list option" where
  "injectQueueNames code parse =
     (if \<not> sourceMightContainQueueCall code then None
      else let calls = concat (map (\<lambda>stmt. case matchQueueExport stmt of Some f \<Rightarrow> injectNameIfMissing f | None \<Rightarrow> []) (parse code))
           in if calls = [] then None else Some calls)"

definition actionNameInjectionPlugin ::
  "(source \<Rightarrow> magic_call list \<Rightarrow> source) \<Rightarrow> (source \<Rightarrow> node list) \<Rightarrow> string \<Rightarrow> source \<Rightarrow> string \<Rightarrow> source option" where
  \<comment> \<open>\<open>edit\<close> is \<open>MagicString\<close>: the text after the calls\<close>
  "actionNameInjectionPlugin edit parse workflowPath code path =
     (if path \<noteq> workflowPath then None
      else let actionResult = map_option (edit code) (injectActionNames code parse);
               queueInputCode = (case actionResult of Some c \<Rightarrow> c | None \<Rightarrow> code);
               queueResult = map_option (edit queueInputCode) (injectQueueNames queueInputCode parse)
           in case queueResult of Some c \<Rightarrow> Some c | None \<Rightarrow> actionResult)"

section \<open>Removing schemas\<close>

definition ZOD_PROPERTY_NAMES :: "string list" where
  "ZOD_PROPERTY_NAMES = [''input'', ''output'', ''body'', ''responseBody'']"

fun propertyKeyName :: "node \<Rightarrow> string option" where
  "propertyKeyName (Property _ _ (Identifier _ _ name) _) = Some name"
| "propertyKeyName (Property _ _ (Literal _ _ (LitString v)) _) = Some v"
| "propertyKeyName _ = None"

definition js_space_units :: "nat list" where
  "js_space_units =
     [9, 10, 11, 12, 13, 32, 160, 5760] @ [8192..<8203] @ [8232, 8233, 8239, 8287, 12288, 65279]"

definition TRAILING_WS_OR_COMMA :: "nat \<Rightarrow> bool" where
  "TRAILING_WS_OR_COMMA u \<longleftrightarrow> u \<in> set js_space_units \<or> u = 44"

function scan_trailing :: "source \<Rightarrow> nat \<Rightarrow> nat \<Rightarrow> nat" where
  \<comment> \<open>from \<open>scan\<close> up to \<open>stop\<close>; past the end of the code there is nothing to match\<close>
  "scan_trailing code stop scan =
     (if scan < stop \<and> scan < length code \<and> TRAILING_WS_OR_COMMA (code ! scan) then scan_trailing code stop (Suc scan) else scan)"
  by pat_completeness auto
termination
  by (relation "measure (\<lambda>(code, stop, scan). stop - scan)") auto

declare scan_trailing.simps [simp del]

definition is_schema :: "node \<Rightarrow> bool" where
  "is_schema prop = (case propertyKeyName prop of Some name \<Rightarrow> name \<in> set ZOD_PROPERTY_NAMES | None \<Rightarrow> False)"

fun strip_from :: "source \<Rightarrow> nat \<Rightarrow> node list \<Rightarrow> magic_call list" where
  "strip_from code objEnd [] = []"
| "strip_from code objEnd (prop # props) =
     (if is_schema prop
      then [Remove (node_start prop)
              (case props of nxt # _ \<Rightarrow> node_start nxt | [] \<Rightarrow> scan_trailing code (objEnd - 1) (node_end prop))]
      else []) @ strip_from code objEnd props"

definition stripZodPropertiesFromCall :: "factory_match \<Rightarrow> source \<Rightarrow> magic_call list" where
  "stripZodPropertiesFromCall f code = strip_from code (fm_end f) (fm_properties f)"

definition stripZodFactoryProperties :: "source \<Rightarrow> (source \<Rightarrow> node list) \<Rightarrow> magic_call list option" where
  "stripZodFactoryProperties code parse =
     (if \<not> sourceMightContainFactoryCall code then None
      else let calls = concat (map (\<lambda>stmt.
                 case matchFactoryExport stmt [''action'', ''httpTrigger'', ''cronTrigger''] of
                   Some f \<Rightarrow> stripZodPropertiesFromCall f code | None \<Rightarrow> []) (parse code))
           in if calls = [] then None else Some calls)"

definition zodStripTransformPlugin ::
  "(source \<Rightarrow> magic_call list \<Rightarrow> source) \<Rightarrow> (source \<Rightarrow> node list) \<Rightarrow> string \<Rightarrow> source \<Rightarrow> string \<Rightarrow> source option" where
  "zodStripTransformPlugin edit parse workflowPath code path =
     (if path \<noteq> workflowPath then None else map_option (edit code) (stripZodFactoryProperties code parse))"

section \<open>What the edits do\<close>

fun spaced :: "nat \<Rightarrow> nat \<Rightarrow> node list \<Rightarrow> bool" where
  \<comment> \<open>the properties of an object literal lie one after another between \<open>lo\<close> and \<open>hi\<close>\<close>
  "spaced lo hi [] \<longleftrightarrow> lo \<le> hi"
| "spaced lo hi (p # ps) \<longleftrightarrow> lo \<le> node_start p \<and> node_start p < node_end p \<and> spaced (node_end p) hi ps"

lemma spaced_le: "spaced lo hi ps \<Longrightarrow> lo \<le> hi"
  by (induction lo hi ps rule: spaced.induct) auto

lemma scan_bounds: "scan \<le> stop \<Longrightarrow> scan \<le> scan_trailing code stop scan \<and> scan_trailing code stop scan \<le> stop"
proof (induction code stop scan rule: scan_trailing.induct)
  case (1 code stop scan)
  then show ?case by (subst scan_trailing.simps, subst (2) scan_trailing.simps) auto
qed

fun removed_at :: "magic_call list \<Rightarrow> nat \<Rightarrow> bool" where
  \<comment> \<open>the position is removed by one of the calls\<close>
  "removed_at [] i \<longleftrightarrow> False"
| "removed_at (Remove a b # cs) i \<longleftrightarrow> a \<le> i \<and> i < b \<or> removed_at cs i"
| "removed_at (AppendLeft _ _ # cs) i \<longleftrightarrow> removed_at cs i"

lemma removed_append [simp]: "removed_at (cs @ ds) i \<longleftrightarrow> removed_at cs i \<or> removed_at ds i"
  by (induction cs i rule: removed_at.induct) auto

lemma strip_range:
  "spaced lo (objEnd - 1) ps \<Longrightarrow> removed_at (strip_from code objEnd ps) i \<Longrightarrow> lo \<le> i \<and> i < objEnd - 1"
proof (induction code objEnd ps arbitrary: lo rule: strip_from.induct)
  case (2 code objEnd p0 props)
  have sp: "spaced (node_end p0) (objEnd - 1) props" "lo \<le> node_start p0" "node_start p0 < node_end p0"
    using 2(2) by simp_all
  from 2(3) consider
    "removed_at (strip_from code objEnd props) i"
    | "node_start p0 \<le> i" "i < (case props of nxt # _ \<Rightarrow> node_start nxt | [] \<Rightarrow> scan_trailing code (objEnd - 1) (node_end p0))"
    by (auto split: if_splits)
  then show ?case
  proof cases
    case 1
    then show ?thesis using 2(1) [OF sp(1)] sp by fastforce
  next
    case 2
    have "(case props of nxt # _ \<Rightarrow> node_start nxt | [] \<Rightarrow> scan_trailing code (objEnd - 1) (node_end p0)) \<le> objEnd - 1"
    proof (cases props)
      case Nil
      then show ?thesis using scan_bounds [of "node_end p0" "objEnd - 1" code] spaced_le [OF sp(1)] by simp
    next
      case (Cons nxt rest)
      then show ?thesis using sp(1) spaced_le [of "node_end nxt" "objEnd - 1" rest] by auto
    qed
    with 2 sp show ?thesis by auto
  qed
qed simp

text \<open>
  Removing schemas takes each of them whole, up to the next property or the end of the literal,
  and nothing of another property: inside the properties of a literal, a position is removed just
  when it belongs to a schema.
\<close>

lemma strip_exact:
  assumes "spaced lo (objEnd - 1) ps" and "p \<in> set ps" and "node_start p \<le> i" and "i < node_end p"
  shows "removed_at (strip_from code objEnd ps) i \<longleftrightarrow> is_schema p"
  using assms
proof (induction code objEnd ps arbitrary: lo rule: strip_from.induct)
  case (2 code objEnd p0 props)
  have sp: "spaced (node_end p0) (objEnd - 1) props" "node_start p0 < node_end p0" using 2(2) by simp_all
  let ?e = "case props of nxt # _ \<Rightarrow> node_start nxt | [] \<Rightarrow> scan_trailing code (objEnd - 1) (node_end p0)"
  have e: "node_end p0 \<le> ?e"
    using sp(1) scan_bounds [of "node_end p0" "objEnd - 1" code] spaced_le [OF sp(1)] by (cases props) auto
  have start: "?e \<le> node_start q" "node_end p0 \<le> node_start q" if "q \<in> set props" for q
  proof -
    have later: "spaced lo hi ps \<Longrightarrow> q \<in> set ps \<Longrightarrow> lo \<le> node_start q \<and> node_start (hd ps) \<le> node_start q" for lo hi ps
      by (induction lo hi ps rule: spaced.induct) force+
    from later [OF sp(1) that] that show "?e \<le> node_start q" "node_end p0 \<le> node_start q"
      by (cases props; simp)+
  qed
  show ?case
  proof (cases "i < node_end p0")
    case True
    then have "p = p0" using 2(3,4) start(2) by fastforce
    moreover have "\<not> removed_at (strip_from code objEnd props) i" using strip_range [OF sp(1)] True by fastforce
    ultimately show ?thesis using 2(4) True e by auto
  next
    case False
    then have p: "p \<in> set props" using 2(3,5) by auto
    have "?e \<le> i" using start(1) [OF p] 2(4) by simp
    then have "removed_at (strip_from code objEnd (p0 # props)) i = removed_at (strip_from code objEnd props) i" by auto
    with 2(1) [OF sp(1) p 2(4,5)] show ?thesis by simp
  qed
qed simp

text \<open>
  Every exported action gets its export as its name, in one insertion before the closing brace
  of its literal; a queue gets it unless its literal has a name.
\<close>

lemma action_names_exact:
  assumes "sourceMightContainActionCall code"
  shows "(case injectActionNames code parse of Some cs \<Rightarrow> cs | None \<Rightarrow> []) =
    map name_insertion (List.map_filter matchActionExport (parse code))"
proof -
  have "concat (map (\<lambda>stmt. case matchActionExport stmt of Some f \<Rightarrow> injectNameIntoCall f | None \<Rightarrow> []) ss) =
      map name_insertion (List.map_filter matchActionExport ss)" for ss
    by (induction ss) (auto simp: List.map_filter_simps injectNameIntoCall_def split: option.split)
  with assms show ?thesis by (simp add: injectActionNames_def Let_def)
qed

lemma queue_names_exact:
  assumes "sourceMightContainQueueCall code"
  shows "(case injectQueueNames code parse of Some cs \<Rightarrow> cs | None \<Rightarrow> []) =
    map name_insertion (filter (\<lambda>f. \<not> objectHasNameProperty (fm_properties f)) (List.map_filter matchQueueExport (parse code)))"
proof -
  have "concat (map (\<lambda>stmt. case matchQueueExport stmt of Some f \<Rightarrow> injectNameIfMissing f | None \<Rightarrow> []) ss) =
      map name_insertion (filter (\<lambda>f. \<not> objectHasNameProperty (fm_properties f)) (List.map_filter matchQueueExport ss))" for ss
    by (induction ss) (auto simp: List.map_filter_simps injectNameIfMissing_def split: option.split)
  with assms show ?thesis by (simp add: injectQueueNames_def Let_def)
qed

text \<open>Other files are left alone.\<close>

lemma other_files_untouched:
  "path \<noteq> workflowPath \<Longrightarrow> actionNameInjectionPlugin edit parse workflowPath code path = None \<and>
     zodStripTransformPlugin edit parse workflowPath code path = None"
  by (simp add: actionNameInjectionPlugin_def zodStripTransformPlugin_def)

text \<open>
  The schemas of queues stay in the bundle that runs: \<open>defineQueue\<close> is looked for, but it is not
  among the factories that are stripped.
\<close>

lemma queue_schema_kept:
  assumes "\<And>stmt. stmt \<in> set (parse code) \<Longrightarrow> matchQueueExport stmt \<noteq> None"
  shows "stripZodFactoryProperties code parse = None"
proof -
  have "matchFactoryExport stmt [''action'', ''httpTrigger'', ''cronTrigger''] = None" if "matchQueueExport stmt = Some f" for stmt f
    using that by (auto simp: matchQueueExport_def matchFactoryExport_def split: node.splits option.splits list.splits prod.splits if_splits)
  then have "(case matchFactoryExport stmt [''action'', ''httpTrigger'', ''cronTrigger''] of
      Some f \<Rightarrow> stripZodPropertiesFromCall f code | None \<Rightarrow> []) = []" if "stmt \<in> set (parse code)" for stmt
    using assms [OF that] by fastforce
  then show ?thesis by (simp add: stripZodFactoryProperties_def Let_def)
qed

end
