(* ===== verification/Spec2Isabelle.thy ===== *)
theory Spec2Isabelle
  imports SandboxStore NetGuard WsSource ImapSource ActionDispatch Wasi Flamegraph Outbound QueuePlugin Cli Services GuestPlatform Rehydrate Transform
begin

text \<open>
  Verification of the workflow engine: a server that keeps uploaded TypeScript workflows, runs
  their handlers in QuickJS sandboxes on worker threads when a trigger fires, and records what
  they did as events. The sources are the packages under \<open>src/packages\<close>.

  \<^bold>\<open>How the parts interact.\<close> An upload reaches \<open>POST /api/workflows/:owner/:repo\<close>; the API
  authenticates the caller, checks membership, the manifest and its sealed secrets, and hands
  the bundle to the workflow registry. The registry turns the manifest into trigger entries,
  gives them to the trigger backends and persists the bundle. A backend (webhook, cron,
  WebSocket, IMAP, manual) validates an incoming payload and calls the executor, which queues
  the invocation behind the others of its sandbox and runs it there. The sandbox is a pair:
  the main-thread object and a worker that hosts the guest VM with its plugins. Events flow
  from the worker through the sequencer, which numbers them and pairs openings with closings,
  to the executor, which stamps them, and to the event store, which commits the events of an
  invocation as one batch. The guest reaches the outside only through the plugins: guarded
  fetch, timers, queues, actions, SQL, mail. Signed-in users query the store within the scopes of their
  owners.

  \<^bold>\<open>Theories and sources.\<close> In the order of the call graph, from the inside out:
  \<^item> \<open>Prelude\<close>: JSON, JavaScript strings, arrays and insertion-ordered maps; runs of a step
    function, reachable states and the rule of inductive invariants (the locale
    \<open>invariant_system\<close>, interpreted by every state machine below).
  \<^item> \<open>Sequencer\<close> (\<open>sandbox/src/run-sequencer.ts\<close> and \<open>buildEvent\<close> of \<open>bridge.ts\<close>): the state is
    the record of the closure variables, the operations are \<open>start\<close>, \<open>next\<close>, \<open>finish\<close>. Every
    opened frame is closed exactly once, also when the worker dies, and the two data
    structures refine one list of open frames.
  \<^item> \<open>Termination\<close> (\<open>limit-counters.ts\<close>, \<open>worker-termination.ts\<close>): breaches of the limits and
    their classification; one termination cause is delivered, whatever the order of events.
  \<^item> \<open>PluginCompose\<close>, \<open>PluginRuntime\<close> (\<open>plugin-compose.ts\<close>, \<open>plugin-runtime.ts\<close>): the checks of
    a plugin list, Kahn's sort with its error messages, the phases of plugin boot. The sort is
    a permutation in dependency order and fails exactly on cycles; private guest functions are
    not reachable by user code.
  \<^item> \<open>Worker\<close>, \<open>Sandbox\<close> (\<open>worker.ts\<close>, \<open>sandbox.ts\<close>): the life of a run on both sides of the
    thread boundary, the host-call channel, the output cap, worker death and disposal.
  \<^item> \<open>RunQueue\<close> (\<open>executor/run-queue.ts\<close>, \<open>runExclusive\<close> of \<open>event-store.ts\<close>): promise chains as
    a transition system; runs are mutually exclusive, in order and never blocked by a failure.
  \<^item> \<open>EventStore\<close>, \<open>Executor\<close> (\<open>event-store.ts\<close>, \<open>executor/\<close>): accumulation, commit with
    retries, drain, prune and scoped queries; stamping and the recording of an invocation.
  \<^item> \<open>SandboxStore\<close> (\<open>sandbox-store.ts\<close>): the LRU cache of sandboxes.
  \<^item> \<open>QueueStore\<close> (\<open>queue-store.ts\<close>, \<open>queue-host.ts\<close>, \<open>queue-store-lifecycle.ts\<close>): durable queues,
    refining one FIFO per key (the locale of keyed FIFOs is interpreted on the table).
  \<^item> \<open>Names\<close>, \<open>Triggers\<close>, \<open>HttpSource\<close>, \<open>CronSource\<close> (\<open>core/src/index.ts\<close>, \<open>triggers/\<close>): names and
    sentinels, the shared \<open>TriggerSource\<close> contract (a locale, interpreted by the backends),
    webhook routing and responses, cron timers.
  \<^item> \<open>NetGuard\<close> (\<open>sandbox-stdlib/src/net-guard\<close>, \<open>fetch/hardened-fetch.ts\<close>): the address check and
    the redirect loop of the guest's \<open>fetch\<close>.
  \<^item> \<open>Manifest\<close>, \<open>Secrets\<close>, \<open>Scrubber\<close> (\<open>core/src/index.ts\<close>, \<open>secrets/\<close>, \<open>plugins/secrets.ts\<close>):
    the manifest schema as a parser, sealed secrets, and the scrubbing of outgoing messages.
  \<^item> \<open>Registry\<close>, \<open>Auth\<close>, \<open>Upload\<close> (\<open>workflow-registry.ts\<close>, \<open>auth/\<close>, \<open>api/\<close>): installing a bundle,
    sessions and membership, the upload handler.
  \<^item> \<open>WsSource\<close>, \<open>SourceIndex\<close>, \<open>ImapMail\<close>, \<open>ImapSource\<close> (\<open>triggers/ws.ts\<close>, \<open>triggers/imap.ts\<close>): the
    upgrade pipeline, the connections and frames of WebSocket triggers; the mailbox protocol, the
    drain and the reconnecting lifecycle of IMAP triggers. \<open>SourceIndex\<close> is the table the cron and
    IMAP backends share, interpreted as a trigger source once. Calls are made only for members,
    every accepted frame is answered, a mailbox entry is never stuck, a drain handles each message
    once.
  \<^item> \<open>Callables\<close>, \<open>Boundary\<close>, \<open>ActionDispatch\<close>, \<open>Wasi\<close> (\<open>bridge.ts\<close>, \<open>plugin.ts\<close>, \<open>guest-errors.ts\<close>,
    \<open>wasi.ts\<close>, \<open>runtime/src/plugins\<close>, the timers plugin): lifetimes of guest functions held by the
    host, the checks and events around a host function, action calls with their schemas, the WASI
    calls over linear memory.
  \<^item> \<open>StdPlugin\<close>, \<open>SqlPlugin\<close>, \<open>MailPlugin\<close>, \<open>FetchPlugin\<close>, \<open>QueuePlugin\<close>, \<open>Outbound\<close>
    (\<open>sandbox-stdlib/src\<close>): the host halves of the standard plugins; sockets go to public addresses
    only.
  \<^item> \<open>Sdk\<close>, \<open>Transform\<close>, \<open>BuildWorkflows\<close>, \<open>Bundle\<close>, \<open>Cli\<close> (\<open>sdk/src\<close>): what an author declares, the
    edits the build makes of the file, the manifest it makes of it, the sealing of its secrets and the upload. The lemmas of \<open>Bundle\<close> compose
    this side with the server's: the bundle passes the server's checks, the secrets arrive, and
    the guest's environment is the declared one.
  \<^item> \<open>Flamegraph\<close>, \<open>Sidebar\<close>, \<open>Dashboard\<close> (\<open>runtime/src/ui\<close>): the layout of an invocation's bars, the
    navigation tree with live and removed triggers, and what the three signed-in surfaces show
    and do for a user; all of it within the user's owners.
  \<^item> \<open>Rehydrate\<close> (\<open>workflow-registry.ts\<close>), \<open>GuestPlatform\<close> (\<open>sandbox-stdlib/src/web-platform/guest\<close>),
    \<open>Services\<close> (\<open>health.ts\<close>, \<open>services/\<close>, \<open>main.ts\<close>): unpacking a bundle and restoring schemas; error
    reports, abort signals and user timing inside the guest; the health probes, error replies, the
    chain of middlewares with its security headers, and the shutdown.


  \<^bold>\<open>How code becomes definitions.\<close> A class or closure is a record of its variables; a method is
  a function from the state to the state and its result; an \<open>await\<close> at which other code may
  run splits a function in two, and the parts are steps of a transition system whose
  interleavings are all considered. A thrown error is a value of a sum type. Histories
  (delivered callbacks, sent messages, settled promises) are fields that the code does not
  have and never reads.

  \<^bold>\<open>Arguments.\<close> Third-party code is an argument of the definitions that use it, with what is
  relied on as a named hypothesis of the property: Zod's parsing, libsodium and SHA-256,
  iron-webcrypto's sealing, ipaddr.js, the cron parser, the libSQL engine, GitHub's answers,
  \<open>JSON.stringify\<close>, the clock and random ids. Guest code and plugin code are lists of the
  actions they perform.

  \<^bold>\<open>Bounds and fuel.\<close> Loops are structural recursions or have a termination proof. The one fuel is
  that of \<open>classify_event\<close> in \<open>Flamegraph\<close>, where the code's recursion over the chain of parents may
  overflow the stack: it is one more than the number of events, and every chain whose parents have
  smaller numbers, as the sequencer's do, is shorter (\<open>classify_ends\<close>). The caps of the code (five
  redirects, five commit attempts, queue depth, cache size, page sizes, the clamp of a timer's delay)
  are the code's own. Numbers are natural numbers or integers, since JavaScript's are exact in the
  ranges used; octets and keys are words.

  \<^bold>\<open>Not modelled.\<close> Markup, icons and the scripts and styles the browser runs (\<open>runtime/src/ui\<close>): the
  model ends where a page's data is handed to its renderer. Vite, the TypeScript compiler and
  the bundling around them (\<open>sdk/src/cli\<close>, \<open>sandbox/src/vite\<close>). The other
  web-platform polyfills, which run inside the guest. Process start, configuration, logging, storage
  drivers and migrations, which mostly call libraries; tests,
  documentation and infrastructure. The manifest of the development lists each with its reason.
\<close>

section \<open>Properties that span components\<close>

definition within_constraint :: "scope_constraint \<Rightarrow> string \<Rightarrow> string \<Rightarrow> bool" where
  "within_constraint constraint owner repo =
     ((case sc_owner constraint of Some x \<Rightarrow> owner = x | None \<Rightarrow> True) \<and>
      (case sc_repo constraint of Some x \<Rightarrow> repo = x | None \<Rightarrow> True))"


end
